(* ===== verification/BB_Prelude.thy ===== *)
theory BB_Prelude
  imports Main "HOL-Library.Word" "HOL-Library.Sublist" "HOL-Library.Multiset"
begin

text \<open>
  Shared vocabulary of the BigBase development.

  \<^item> the result type of fallible Go code (\<open>Inl\<close> is the returned error);
  \<^item> the functions of Go's \<^verbatim>\<open>strings\<close> package that the modelled code calls, on byte
    strings: a Go string is a sequence of bytes and so is an Isabelle \<^typ>\<open>string\<close>;
  \<^item> \<^verbatim>\<open>sort.Slice\<close> as an interface (\<open>slice_sort\<close>): the documented contract is a
    sorted permutation, and nothing about ties;
  \<^item> the induction that lifts a one-step invariant to a run (\<open>step_invariant\<close>);
  \<^item> association lists as Go maps, with the facts the component proofs share.
\<close>

section \<open>Collections of facts\<close>

named_theorems str_simps \<open>evaluation of the string functions\<close>
named_theorems go_map_simps \<open>lookup after an update or a delete of a Go map\<close>

section \<open>Results\<close>

type_synonym ('e, 'a) res = "'e + 'a"

definition is_ok :: "('e, 'a) res \<Rightarrow> bool" where
  "is_ok r = (case r of Inl _ \<Rightarrow> False | Inr _ \<Rightarrow> True)"

lemma is_ok_simps [simp]: "is_ok (Inr x)" "\<not> is_ok (Inl e)"
  by (simp_all add: is_ok_def)

lemma is_ok_iff: "is_ok r \<longleftrightarrow> (\<exists>x. r = Inr x)"
  by (cases r) simp_all

text \<open>A loop whose body may return an error: the first error ends it.\<close>

fun fold_res :: "('a \<Rightarrow> 's \<Rightarrow> ('e, 's) res) \<Rightarrow> 'a list \<Rightarrow> 's \<Rightarrow> ('e, 's) res" where
  "fold_res f [] s = Inr s"
| "fold_res f (x # xs) s = (case f x s of Inl e \<Rightarrow> Inl e | Inr s' \<Rightarrow> fold_res f xs s')"

lemma fold_res_inv:
  assumes "\<And>x s s'. x \<in> set xs \<Longrightarrow> P s \<Longrightarrow> f x s = Inr s' \<Longrightarrow> P s'"
    and "P s" and "fold_res f xs s = Inr s'"
  shows "P s'"
  using assms
proof (induction xs arbitrary: s)
  case (Cons x xs)
  from Cons.prems(3) obtain s1 where s1: "f x s = Inr s1" "fold_res f xs s1 = Inr s'"
    by (auto split: sum.splits)
  have "P s1" using Cons.prems(1) [OF _ Cons.prems(2) s1(1)] by simp
  then show ?case using Cons.IH Cons.prems(1) s1(2) by (metis list.set_intros(2))
qed simp

lemma fold_res_Inl: "fold_res f xs s = Inl e \<Longrightarrow>
    \<exists>pre x post s1. xs = pre @ x # post \<and> fold_res f pre s = Inr s1 \<and> f x s1 = Inl e"
proof (induction xs arbitrary: s)
  case (Cons x xs)
  show ?case
  proof (cases "f x s")
    case (Inl e')
    with Cons.prems show ?thesis
      by (intro exI [of _ "[]"] exI [of _ x] exI [of _ xs] exI [of _ s]) simp
  next
    case (Inr s')
    with Cons.prems have "fold_res f xs s' = Inl e" by simp
    from Cons.IH [OF this] obtain pre y post s1 where "xs = pre @ y # post"
      "fold_res f pre s' = Inr s1" "f y s1 = Inl e" by blast
    with Inr show ?thesis
      by (intro exI [of _ "x # pre"] exI [of _ y] exI [of _ post] exI [of _ s1]) simp
  qed
qed simp

lemma fold_res_append:
  "fold_res f (xs @ ys) s = (case fold_res f xs s of Inl e \<Rightarrow> Inl e | Inr s' \<Rightarrow> fold_res f ys s')"
  by (induction xs arbitrary: s) (auto split: sum.splits)

section \<open>Go maps as association lists\<close>

text \<open>
  A Go map is a list of key/value pairs in which a later update replaces the value in place;
  \<open>delete\<close> removes every pair of the key. The order of the list stands for nothing: where the
  code ranges over a map, the iteration order is an argument of the model.
\<close>

type_synonym ('k, 'v) go_map = "('k \<times> 'v) list"

fun map_put :: "'k \<Rightarrow> 'v \<Rightarrow> ('k, 'v) go_map \<Rightarrow> ('k, 'v) go_map" where
  "map_put k v [] = [(k, v)]"
| "map_put k v ((k', v') # m) = (if k' = k then (k, v) # m else (k', v') # map_put k v m)"

definition map_del :: "'k \<Rightarrow> ('k, 'v) go_map \<Rightarrow> ('k, 'v) go_map" where
  "map_del k m = filter (\<lambda>p. fst p \<noteq> k) m"

definition map_keys :: "('k, 'v) go_map \<Rightarrow> 'k list" where
  "map_keys m = map fst m"

definition wf_map :: "('k, 'v) go_map \<Rightarrow> bool" where
  "wf_map m = distinct (map fst m)"

lemma map_of_put [simp, go_map_simps]: "map_of (map_put k v m) = (map_of m)(k \<mapsto> v)"
  by (induction m) auto

lemma map_of_del [simp, go_map_simps]: "map_of (map_del k m) = (map_of m)(k := None)"
  unfolding map_del_def by (induction m) auto

lemma map_keys_put: "set (map fst (map_put k v m)) = insert k (set (map fst m))"
  by (simp add: dom_map_of_conv_image_fst [symmetric])

lemma map_keys_del: "set (map fst (map_del k m)) = set (map fst m) - {k}"
  unfolding map_del_def by auto

lemma wf_map_Nil [simp]: "wf_map []"
  by (simp add: wf_map_def)

lemma wf_map_put [simp, intro]: "wf_map m \<Longrightarrow> wf_map (map_put k v m)"
  unfolding wf_map_def by (induction m) (auto simp: map_keys_put simp del: set_map)

lemma wf_map_del [simp, intro]: "wf_map m \<Longrightarrow> wf_map (map_del k m)"
  unfolding wf_map_def map_del_def by (simp add: distinct_map_filter)

lemma length_map_put: "wf_map m \<Longrightarrow>
    length (map_put k v m) = (if k \<in> set (map fst m) then length m else Suc (length m))"
  unfolding wf_map_def by (induction m) (auto simp: rev_image_eqI)

lemma map_put_twice [simp]: "map_put k v (map_put k v' m) = map_put k v m"
  by (induction m) auto

lemma map_put_absent: "k \<notin> set (map fst m) \<Longrightarrow> map_put k v m = m @ [(k, v)]"
  by (induction m) auto

lemma set_map_put: "set (map_put k v m) \<subseteq> insert (k, v) (set m)"
  by (induction m) (auto split: if_splits)

lemma set_map_del: "set (map_del k m) \<subseteq> set m"
  by (auto simp: map_del_def)

section \<open>Byte strings\<close>

text \<open>\<^verbatim>\<open>strings.IndexByte\<close>: the first position of a byte; \<open>None\<close> is Go's \<open>-1\<close>.\<close>

fun IndexByte :: "string \<Rightarrow> char \<Rightarrow> nat option" where
  "IndexByte [] c = None"
| "IndexByte (x # xs) c = (if x = c then Some 0 else map_option Suc (IndexByte xs c))"

lemma IndexByte_None_iff: "IndexByte s c = None \<longleftrightarrow> c \<notin> set s"
  by (induction s) auto

lemma IndexByte_append: "c \<notin> set a \<Longrightarrow> IndexByte (a @ c # b) c = Some (length a)"
  by (induction a) auto

lemma IndexByte_Some: "IndexByte s c = Some i \<Longrightarrow>
    i < length s \<and> s ! i = c \<and> c \<notin> set (take i s) \<and> s = take i s @ c # drop (Suc i) s"
proof (induction s arbitrary: i)
  case Nil
  then show ?case by simp
next
  case (Cons x xs)
  then show ?case by (cases "x = c") auto
qed

abbreviation HasPrefix :: "string \<Rightarrow> string \<Rightarrow> bool" where
  "HasPrefix s p \<equiv> prefix p s"

abbreviation HasSuffix :: "string \<Rightarrow> string \<Rightarrow> bool" where
  "HasSuffix s p \<equiv> suffix p s"

definition TrimPrefix :: "string \<Rightarrow> string \<Rightarrow> string" where
  "TrimPrefix s p = (if prefix p s then drop (length p) s else s)"

definition TrimSuffix :: "string \<Rightarrow> string \<Rightarrow> string" where
  "TrimSuffix s p = (if suffix p s then take (length s - length p) s else s)"

lemma TrimSuffix_append [simp]: "TrimSuffix (s @ p) p = s"
  by (simp add: TrimSuffix_def suffix_def)

lemma TrimPrefix_append [simp]: "TrimPrefix (p @ s) p = s"
  by (simp add: TrimPrefix_def)

text \<open>\<^verbatim>\<open>strings.Contains\<close>: some suffix of the text starts with the pattern.\<close>

fun Contains :: "string \<Rightarrow> string \<Rightarrow> bool" where
  "Contains [] p = (p = [])"
| "Contains (x # xs) p = (prefix p (x # xs) \<or> Contains xs p)"

lemma Contains_iff: "Contains s p \<longleftrightarrow> (\<exists>a b. s = a @ p @ b)"
proof (induction s)
  case Nil
  then show ?case by simp
next
  case (Cons x xs)
  show ?case
  proof
    assume "Contains (x # xs) p"
    then consider "prefix p (x # xs)" | "Contains xs p" by auto
    then show "\<exists>a b. x # xs = a @ p @ b"
    proof cases
      case 1
      then obtain b where "x # xs = [] @ p @ b" by (auto simp: prefix_def)
      then show ?thesis by blast
    next
      case 2
      with Cons.IH obtain a b where "xs = a @ p @ b" by blast
      then have "x # xs = (x # a) @ p @ b" by simp
      then show ?thesis by blast
    qed
  next
    assume "\<exists>a b. x # xs = a @ p @ b"
    then obtain a b where e: "x # xs = a @ p @ b" by blast
    show "Contains (x # xs) p"
    proof (cases a)
      case Nil
      with e have "prefix p (x # xs)" by simp
      then show ?thesis by simp
    next
      case (Cons y ys)
      with e have "xs = ys @ p @ b" by simp
      with Cons.IH show ?thesis by auto
    qed
  qed
qed

text \<open>ASCII white space, as \<^verbatim>\<open>unicode.IsSpace\<close> has it on single bytes below 128.\<close>

definition is_space :: "char \<Rightarrow> bool" where
  "is_space c = (c \<in> {CHR '' '', CHR 0x09, CHR 0x0A, CHR 0x0B, CHR 0x0C, CHR 0x0D})"

definition TrimLeftFn :: "(char \<Rightarrow> bool) \<Rightarrow> string \<Rightarrow> string" where
  "TrimLeftFn f s = dropWhile f s"

definition TrimRightFn :: "(char \<Rightarrow> bool) \<Rightarrow> string \<Rightarrow> string" where
  "TrimRightFn f s = rev (dropWhile f (rev s))"

definition TrimSpace :: "string \<Rightarrow> string" where
  "TrimSpace s = TrimRightFn is_space (TrimLeftFn is_space s)"

definition TrimChar :: "char \<Rightarrow> string \<Rightarrow> string" where
  "TrimChar c s = TrimRightFn (\<lambda>x. x = c) (TrimLeftFn (\<lambda>x. x = c) s)"

text \<open>\<^verbatim>\<open>strings.ToLower\<close> on ASCII text; bytes of other runes are left alone.\<close>

definition lower_char :: "char \<Rightarrow> char" where
  "lower_char c = (let n = of_char c :: nat in
     if 65 \<le> n \<and> n \<le> 90 then char_of (n + 32) else c)"

definition ToLower :: "string \<Rightarrow> string" where
  "ToLower s = map lower_char s"

text \<open>\<^verbatim>\<open>strings.Split(s, sep)\<close> for a one-byte separator: always at least one field.\<close>

fun Split :: "string \<Rightarrow> char \<Rightarrow> string list" where
  "Split [] c = [[]]"
| "Split (x # xs) c =
     (if x = c then [] # Split xs c
      else (case Split xs c of [] \<Rightarrow> [[x]] | f # fs \<Rightarrow> (x # f) # fs))"

lemma Split_not_Nil [simp]: "Split s c \<noteq> []"
  by (induction s) (auto split: list.splits)

fun Join :: "string list \<Rightarrow> string \<Rightarrow> string" where
  "Join [] sep = []"
| "Join [x] sep = x"
| "Join (x # y # ys) sep = x @ sep @ Join (y # ys) sep"

lemma Join_Cons: "xs \<noteq> [] \<Longrightarrow> Join (x # xs) sep = x @ sep @ Join xs sep"
  by (cases xs) simp_all

text \<open>Splitting and joining at the same byte is the identity.\<close>

lemma Join_Split: "Join (Split s c) [c] = s"
proof (induction s)
  case Nil
  then show ?case by simp
next
  case (Cons x xs)
  obtain f fs where s: "Split xs c = f # fs"
    using Split_not_Nil by (cases "Split xs c") auto
  show ?case
  proof (cases "x = c")
    case True
    with Cons s show ?thesis by (simp add: Join_Cons)
  next
    case False
    with Cons s show ?thesis by (cases fs) simp_all
  qed
qed

lemma Split_fields: "f \<in> set (Split s c) \<Longrightarrow> c \<notin> set f"
proof (induction s arbitrary: f)
  case (Cons x xs)
  then show ?case by (cases "x = c") (auto split: list.splits)
qed simp

section \<open>sort.Slice\<close>

text \<open>
  \<^verbatim>\<open>sort.Slice\<close> promises a permutation ordered by the less function; it is not stable.
  A client that sorts takes the sorter as an argument and relies on these two laws only.
\<close>

locale slice_sort =
  fixes srt :: "'a list \<Rightarrow> 'a list"
    and key :: "'a \<Rightarrow> 'b::linorder"
  assumes srt_mset: "mset (srt xs) = mset xs"
    and srt_sorted: "sorted (map key (srt xs))"
begin

lemma srt_set [simp]: "set (srt xs) = set xs"
  using srt_mset by (metis set_mset_mset)

lemma srt_length [simp]: "length (srt xs) = length xs"
  using srt_mset by (metis size_mset)

lemma srt_distinct: "distinct (map f xs) \<Longrightarrow> distinct (map f (srt xs))"
proof -
  assume d: "distinct (map f xs)"
  have "mset (map f (srt xs)) = mset (map f xs)" by (simp add: srt_mset)
  with d show ?thesis by (metis mset_eq_imp_distinct_iff)
qed

lemma srt_nth_le: "i \<le> j \<Longrightarrow> j < length xs \<Longrightarrow> key (srt xs ! i) \<le> key (srt xs ! j)"
proof -
  assume ij: "i \<le> j" "j < length xs"
  have "map key (srt xs) ! i \<le> map key (srt xs) ! j"
    using srt_sorted ij by (simp only: sorted_nth_mono length_map srt_length)
  with ij show ?thesis by simp
qed

end

text \<open>Any key has a sorter, the stable insertion sort of the library.\<close>

interpretation stable_sort: slice_sort "sort_key f" f for f :: "'a \<Rightarrow> 'b::linorder"
  by unfold_locales simp_all

lemma ball_list_update: "\<forall>x \<in> set xs. P x \<Longrightarrow> P y \<Longrightarrow> \<forall>x \<in> set (xs[i := y]). P x"
  using set_update_subset_insert [of xs i y] by blast

section \<open>Invariants of a run\<close>

text \<open>
  The state of a component changes by one operation after another. An invariant that every
  operation keeps holds after any sequence of operations.
\<close>

locale step_invariant =
  fixes step :: "'s \<Rightarrow> 'op \<Rightarrow> 's"
    and inv :: "'s \<Rightarrow> bool"
  assumes step_inv: "inv s \<Longrightarrow> inv (step s op)"
begin

lemma run_inv: "inv s \<Longrightarrow> inv (foldl step s ops)"
  by (induction ops arbitrary: s) (auto intro: step_inv)

end

lemma find_SomeD: "find P xs = Some x \<Longrightarrow> x \<in> set xs \<and> P x"
  by (induction xs) (auto split: if_splits)

lemma find_by_key: "distinct (map f xs) \<Longrightarrow> x \<in> set xs \<Longrightarrow> find (\<lambda>y. f y = f x) xs = Some x"
  by (induction xs) (auto simp: image_iff)

end
