(* ===== verification/Kernel_Bus.thy ===== *)
theory Kernel_Bus
  imports BB_Prelude
begin

text \<open>
  The event bus of the kernel (\<^verbatim>\<open>kernel/eventbus.go\<close>, \<^verbatim>\<open>kernel/component.go\<close>).

  A hook is a name, a priority and a handler; the handler is code of another component, so it is
  a function of the world \<open>'s\<close> and the event that returns an error or nil and the changed world.
  \<open>Subscribe\<close> appends to the hook list of its name and hands out a subscription id; the
  closure it returns is \<open>unsubscribe\<close>. \<open>Emit\<close> copies the list, sorts the copy by priority
  with \<^verbatim>\<open>sort.Slice\<close> (an argument: any sorter that meets \<open>slice_sort\<close>) and runs the
  handlers until one fails. The mutex makes each operation atomic, so a run of the bus is a
  sequence of operations.
\<close>

record 'd event =
  ev_name :: string
  ev_data :: 'd

record ('s, 'd) HookDef =
  hk_name :: string
  Priority :: int
  Handler :: "'s \<Rightarrow> 'd event \<Rightarrow> string option \<times> 's"
  subID :: "64 word"

record ('s, 'd) EventBus =
  hooks :: "(string, ('s, 'd) HookDef list) go_map"
  nextID :: "64 word"

definition NewEventBus :: "('s, 'd) EventBus" where
  "NewEventBus = \<lparr>hooks = [], nextID = 0\<rparr>"

text \<open>\<open>eb.hooks[name]\<close>: a missing key reads as the nil slice.\<close>

definition hooks_of :: "('s, 'd) EventBus \<Rightarrow> string \<Rightarrow> ('s, 'd) HookDef list" where
  "hooks_of eb n = (case map_of (hooks eb) n of None \<Rightarrow> [] | Some hs \<Rightarrow> hs)"

definition Subscribe :: "('s, 'd) EventBus \<Rightarrow> ('s, 'd) HookDef \<Rightarrow> 64 word \<times> ('s, 'd) EventBus" where
  "Subscribe eb h =
     (let i = nextID eb + 1;
          h' = h\<lparr>subID := i\<rparr>
      in (i, eb\<lparr>hooks := map_put (hk_name h) (hooks_of eb (hk_name h) @ [h']) (hooks eb),
                nextID := i\<rparr>))"

text \<open>The loop of the closure: the first hook with the id is cut out of the slice.\<close>

fun cut_sub :: "64 word \<Rightarrow> ('s, 'd) HookDef list \<Rightarrow> ('s, 'd) HookDef list option" where
  "cut_sub i [] = None"
| "cut_sub i (h # hs) = (if subID h = i then Some hs else map_option ((#) h) (cut_sub i hs))"

definition unsubscribe :: "string \<Rightarrow> 64 word \<Rightarrow> ('s, 'd) EventBus \<Rightarrow> ('s, 'd) EventBus" where
  "unsubscribe n i eb =
     (case cut_sub i (hooks_of eb n) of
        None \<Rightarrow> eb
      | Some hs \<Rightarrow> eb\<lparr>hooks := map_put n hs (hooks eb)\<rparr>)"

definition SubscriberCount :: "('s, 'd) EventBus \<Rightarrow> nat" where
  "SubscriberCount eb = length (hooks eb)"

text \<open>The handler loop of \<open>Emit\<close>: the first error ends it and is the result.\<close>

fun run_handlers :: "'d event \<Rightarrow> ('s, 'd) HookDef list \<Rightarrow> 's \<Rightarrow> string option \<times> 's" where
  "run_handlers ev [] s = (None, s)"
| "run_handlers ev (h # hs) s =
     (case Handler h s ev of
        (Some e, s') \<Rightarrow> (Some e, s')
      | (None, s') \<Rightarrow> run_handlers ev hs s')"

definition Emit ::
  "(('s, 'd) HookDef list \<Rightarrow> ('s, 'd) HookDef list) \<Rightarrow> ('s, 'd) EventBus \<Rightarrow> 'd event \<Rightarrow> 's
     \<Rightarrow> string option \<times> 's" where
  "Emit srt eb ev s =
     (let hs = hooks_of eb (ev_name ev)
      in if hs = [] then (None, s) else run_handlers ev (srt hs) s)"

section \<open>Well-formed buses\<close>

text \<open>
  Every hook sits under its own name and every subscription id handed out is unique. Ids come from
  a 64-bit counter; they stay unique until it wraps, so the bound on the counter is part of the
  invariant.
\<close>

definition wf_bus :: "('s, 'd) EventBus \<Rightarrow> bool" where
  "wf_bus eb \<longleftrightarrow> wf_map (hooks eb)
     \<and> (\<forall>n. \<forall>h \<in> set (hooks_of eb n). hk_name h = n \<and> subID h \<le> nextID eb)
     \<and> (\<forall>n. distinct (map subID (hooks_of eb n)))
     \<and> (\<forall>n m. n \<noteq> m \<longrightarrow> subID ` set (hooks_of eb n) \<inter> subID ` set (hooks_of eb m) = {})"

lemma nextID_New [simp]: "nextID NewEventBus = 0"
  by (simp add: NewEventBus_def)

lemma wf_bus_New: "wf_bus NewEventBus"
  by (simp add: wf_bus_def NewEventBus_def hooks_of_def)

lemma wf_busD:
  "wf_bus eb \<Longrightarrow> wf_map (hooks eb)"
  "wf_bus eb \<Longrightarrow> h \<in> set (hooks_of eb n) \<Longrightarrow> hk_name h = n"
  "wf_bus eb \<Longrightarrow> h \<in> set (hooks_of eb n) \<Longrightarrow> subID h \<le> nextID eb"
  "wf_bus eb \<Longrightarrow> distinct (map subID (hooks_of eb n))"
  "wf_bus eb \<Longrightarrow> n \<noteq> m \<Longrightarrow> subID ` set (hooks_of eb n) \<inter> subID ` set (hooks_of eb m) = {}"
  unfolding wf_bus_def by blast+

lemma hooks_of_put [simp]:
  "hooks_of (eb\<lparr>hooks := map_put n v (hooks eb)\<rparr>) m = (if m = n then v else hooks_of eb m)"
  by (simp add: hooks_of_def)

lemma hooks_of_nextID [simp]: "hooks_of (eb\<lparr>nextID := i\<rparr>) n = hooks_of eb n"
  by (simp add: hooks_of_def)

lemma cut_sub_None: "cut_sub i hs = None \<longleftrightarrow> i \<notin> subID ` set hs"
  by (induction hs) auto

lemma cut_sub_Some: "cut_sub i hs = Some hs' \<Longrightarrow> distinct (map subID hs) \<Longrightarrow>
    hs' = filter (\<lambda>h. subID h \<noteq> i) hs"
proof (induction hs arbitrary: hs')
  case Nil
  then show ?case by simp
next
  case (Cons h hs)
  show ?case
  proof (cases "subID h = i")
    case True
    with Cons.prems have "\<forall>x \<in> set hs. subID x \<noteq> i" by (force simp: image_iff)
    then have "filter (\<lambda>h. subID h \<noteq> i) hs = hs" by simp
    with Cons.prems True show ?thesis by simp
  next
    case False
    with Cons show ?thesis by auto
  qed
qed

text \<open>The subscription counter of a well-formed bus never hands out an id twice before it wraps.\<close>

lemma fresh_word: "x \<le> n \<Longrightarrow> n + 1 \<noteq> 0 \<Longrightarrow> x < n + (1 :: 64 word)"
  by unat_arith

lemma hooks_of_Subscribe:
  "hooks_of (snd (Subscribe eb h)) n
     = hooks_of eb n @ (if n = hk_name h then [h\<lparr>subID := nextID eb + 1\<rparr>] else [])"
  by (simp add: Subscribe_def Let_def hooks_of_def)

lemma wf_bus_Subscribe:
  assumes wf: "wf_bus eb" and nowrap: "nextID eb + 1 \<noteq> 0"
  shows "wf_bus (snd (Subscribe eb h))"
proof -
  have old: "subID x < nextID eb + 1" if "x \<in> set (hooks_of eb n)" for x n
    using wf_busD(3) [OF wf that] nowrap by (rule fresh_word)
  then have new: "nextID eb + 1 \<notin> subID ` set (hooks_of eb n)" for n
    by (auto simp: image_iff) (metis less_irrefl)
  have nid: "nextID (snd (Subscribe eb h)) = nextID eb + 1"
    by (simp add: Subscribe_def Let_def)
  have "wf_map (hooks (snd (Subscribe eb h)))"
    using wf_busD(1) [OF wf] by (simp add: Subscribe_def Let_def)
  moreover have "distinct (map subID (hooks_of (snd (Subscribe eb h)) n))" for n
    using wf_busD(4) [OF wf, of n] new [of n] by (auto simp: hooks_of_Subscribe)
  moreover have "subID ` set (hooks_of (snd (Subscribe eb h)) n)
                   \<inter> subID ` set (hooks_of (snd (Subscribe eb h)) m) = {}" if "n \<noteq> m" for n m
    using wf_busD(5) [OF wf that] new [of n] new [of m] that
    by (cases "n = hk_name h"; cases "m = hk_name h") (simp_all add: hooks_of_Subscribe)
  ultimately show ?thesis
    using wf_busD(2) [OF wf] old
    by (auto simp: wf_bus_def nid hooks_of_Subscribe intro: less_imp_le split: if_splits)
qed

lemma hooks_of_unsubscribe:
  assumes wf: "wf_bus eb"
  shows "hooks_of (unsubscribe n i eb) m
           = (if m = n then filter (\<lambda>h. subID h \<noteq> i) (hooks_of eb n) else hooks_of eb m)"
proof (cases "cut_sub i (hooks_of eb n)")
  case None
  then have "\<forall>h \<in> set (hooks_of eb n). subID h \<noteq> i" by (auto simp: cut_sub_None)
  then have "filter (\<lambda>h. subID h \<noteq> i) (hooks_of eb n) = hooks_of eb n" by simp
  with None show ?thesis by (simp add: unsubscribe_def)
next
  case (Some hs)
  with cut_sub_Some [OF Some wf_busD(4) [OF wf]] show ?thesis
    by (simp add: unsubscribe_def)
qed

lemma wf_bus_unsubscribe:
  assumes wf: "wf_bus eb"
  shows "wf_bus (unsubscribe n i eb)"
proof -
  have sub: "set (hooks_of (unsubscribe n i eb) m) \<subseteq> set (hooks_of eb m)" for m
    by (auto simp: hooks_of_unsubscribe [OF wf] split: if_splits)
  have nid: "nextID (unsubscribe n i eb) = nextID eb"
    by (simp add: unsubscribe_def split: option.splits)
  have "wf_map (hooks (unsubscribe n i eb))"
    using wf_busD(1) [OF wf] by (simp add: unsubscribe_def split: option.splits)
  moreover have "distinct (map subID (hooks_of (unsubscribe n i eb) m))" for m
    using wf_busD(4) [OF wf] by (simp add: hooks_of_unsubscribe [OF wf] distinct_map_filter)
  moreover have "subID ` set (hooks_of (unsubscribe n i eb) a)
                   \<inter> subID ` set (hooks_of (unsubscribe n i eb) b) = {}" if "a \<noteq> b" for a b
    using wf_busD(5) [OF wf that] sub [of a] sub [of b] by blast
  ultimately show ?thesis
    using wf_busD(2,3) [OF wf] sub unfolding wf_bus_def nid by blast
qed

section \<open>Runs of the bus\<close>

datatype ('s, 'd) bus_op = OpSubscribe "('s, 'd) HookDef" | OpUnsubscribe string "64 word"

fun bus_step :: "('s, 'd) EventBus \<Rightarrow> ('s, 'd) bus_op \<Rightarrow> ('s, 'd) EventBus" where
  "bus_step eb (OpSubscribe h) = snd (Subscribe eb h)"
| "bus_step eb (OpUnsubscribe n i) = unsubscribe n i eb"

definition bus_run :: "('s, 'd) bus_op list \<Rightarrow> ('s, 'd) EventBus" where
  "bus_run ops = foldl bus_step NewEventBus ops"

text \<open>The counted run: the number of operations bounds the id counter, so it cannot have wrapped.\<close>

definition counted_step :: "nat \<times> ('s, 'd) EventBus \<Rightarrow> ('s, 'd) bus_op \<Rightarrow> nat \<times> ('s, 'd) EventBus" where
  "counted_step p op = (Suc (fst p), bus_step (snd p) op)"

definition counted_inv :: "nat \<times> ('s, 'd) EventBus \<Rightarrow> bool" where
  "counted_inv p \<longleftrightarrow> fst p < 2 ^ 64 \<longrightarrow> wf_bus (snd p) \<and> unat (nextID (snd p)) \<le> fst p"

lemma nextID_bus_step: "unat (nextID (bus_step eb op)) \<le> Suc (unat (nextID eb))"
proof (cases op)
  case (OpSubscribe h)
  have "unat (nextID eb + 1) \<le> Suc (unat (nextID eb))"
    by (simp add: unat_word_ariths)
  with OpSubscribe show ?thesis by (simp add: Subscribe_def Let_def)
next
  case (OpUnsubscribe n i)
  then show ?thesis by (simp add: unsubscribe_def split: option.splits)
qed

lemma no_wrap: "unat (x :: 64 word) < 2 ^ 64 - 1 \<Longrightarrow> x + 1 \<noteq> 0"
proof
  assume lt: "unat x < 2 ^ 64 - 1" and "x + 1 = 0"
  then have "(unat x + 1) mod 2 ^ 64 = 0"
    using unat_word_ariths(1) [of x 1] by simp
  with lt show False by simp
qed

lemma wf_bus_step: "wf_bus eb \<Longrightarrow> unat (nextID eb) < 2 ^ 64 - 1 \<Longrightarrow> wf_bus (bus_step eb op)"
  using no_wrap [of "nextID eb"] by (cases op) (simp_all add: wf_bus_Subscribe wf_bus_unsubscribe)

interpretation bus_run: step_invariant
  "counted_step :: nat \<times> ('s, 'd) EventBus \<Rightarrow> ('s, 'd) bus_op \<Rightarrow> nat \<times> ('s, 'd) EventBus" counted_inv
proof unfold_locales
  fix p :: "nat \<times> ('s, 'd) EventBus" and op
  assume inv: "counted_inv p"
  show "counted_inv (counted_step p op)"
    unfolding counted_inv_def
  proof
    assume lt: "fst (counted_step p op) < 2 ^ 64"
    with inv have wf: "wf_bus (snd p)" and le: "unat (nextID (snd p)) \<le> fst p"
      by (simp_all add: counted_inv_def counted_step_def)
    from lt le have "unat (nextID (snd p)) < 2 ^ 64 - 1"
      by (simp add: counted_step_def)
    with wf nextID_bus_step [of "snd p" op] le
    show "wf_bus (snd (counted_step p op)) \<and>
          unat (nextID (snd (counted_step p op))) \<le> fst (counted_step p op)"
      by (simp add: counted_step_def wf_bus_step)
  qed
qed

lemma counted_run:
  "foldl counted_step (k, eb) ops = (k + length ops, foldl bus_step eb ops)"
  by (induction ops arbitrary: k eb) (simp_all add: counted_step_def)

lemma wf_bus_run: "length ops < 2 ^ 64 \<Longrightarrow> wf_bus (bus_run ops)"
  using bus_run.run_inv [of "(0, NewEventBus)" ops]
  by (simp add: counted_run counted_inv_def bus_run_def wf_bus_New)

section \<open>Emission\<close>

text \<open>The handlers \<open>run_handlers\<close> calls, in the order it calls them.\<close>

fun delivered :: "'d event \<Rightarrow> ('s, 'd) HookDef list \<Rightarrow> 's \<Rightarrow> ('s, 'd) HookDef list" where
  "delivered ev [] s = []"
| "delivered ev (h # hs) s =
     h # (case Handler h s ev of (Some e, s') \<Rightarrow> [] | (None, s') \<Rightarrow> delivered ev hs s')"

lemma delivered_prefix: "prefix (delivered ev hs s) hs"
  by (induction ev hs s rule: delivered.induct) (auto split: prod.splits option.splits)

lemma delivered_all: "fst (run_handlers ev hs s) = None \<Longrightarrow> delivered ev hs s = hs"
  by (induction ev hs s rule: delivered.induct) (auto split: prod.splits option.splits)

text \<open>A failing run ends with the handler that failed.\<close>

lemma delivered_error: "fst (run_handlers ev hs s) = Some e \<Longrightarrow>
    \<exists>pre h s1. delivered ev hs s = pre @ [h] \<and> run_handlers ev pre s = (None, s1)
      \<and> Handler h s1 ev = (Some e, snd (run_handlers ev hs s))"
proof (induction ev hs s rule: delivered.induct)
  case (1 ev s)
  then show ?case by simp
next
  case (2 ev h hs s)
  obtain r s' where h: "Handler h s ev = (r, s')" by (cases "Handler h s ev")
  show ?case
  proof (cases r)
    case None
    with 2 h obtain pre h1 s1 where "delivered ev hs s' = pre @ [h1]" "run_handlers ev pre s' = (None, s1)"
      "Handler h1 s1 ev = (Some e, snd (run_handlers ev hs s'))" by auto
    with None h have "delivered ev (h # hs) s = (h # pre) @ [h1]" "run_handlers ev (h # pre) s = (None, s1)"
      "Handler h1 s1 ev = (Some e, snd (run_handlers ev (h # hs) s))" by simp_all
    then show ?thesis by blast
  next
    case (Some e')
    with 2(2) h have "delivered ev (h # hs) s = [] @ [h]" "run_handlers ev [] s = (None, s)"
      "Handler h s ev = (Some e, snd (run_handlers ev (h # hs) s))" by simp_all
    then show ?thesis by blast
  qed
qed

context slice_sort
begin

lemma delivered_sorted: "sorted (map key (take k (srt xs)))"
  using srt_sorted by (metis sorted_wrt_take take_map)

lemma later_not_smaller: "x \<in> set (take k (srt xs)) \<Longrightarrow> y \<in> set (drop k (srt xs)) \<Longrightarrow> key x \<le> key y"
proof -
  assume x: "x \<in> set (take k (srt xs))" and y: "y \<in> set (drop k (srt xs))"
  have "sorted (map key (take k (srt xs)) @ map key (drop k (srt xs)))"
    using srt_sorted by (metis append_take_drop_id map_append)
  with x y show ?thesis by (auto simp: sorted_append)
qed

end

lemma Emit_eq: "Emit srt eb ev s = run_handlers ev (if hooks_of eb (ev_name ev) = [] then []
    else srt (hooks_of eb (ev_name ev))) s"
  by (simp add: Emit_def Let_def)

text \<open>
  C16. Delivery: an emission runs hooks of the event's name only, in nondecreasing priority; if it
  returns nil every subscribed hook has run exactly once, and if it returns an error the last hook
  run is the one that failed with that error, and no hook of a smaller priority was left out.
\<close>

theorem Emit_delivery:
  assumes srt: "slice_sort srt Priority"
  shows "(let hs = hooks_of eb (ev_name ev); r = delivered ev (if hs = [] then [] else srt hs) s
    in sorted (map Priority r) \<and> mset r \<subseteq># mset hs
     \<and> (fst (Emit srt eb ev s) = None \<longrightarrow> mset r = mset hs)
     \<and> (\<forall>e. fst (Emit srt eb ev s) = Some e \<longrightarrow>
          (\<exists>pre h s1. r = pre @ [h] \<and> run_handlers ev pre s = (None, s1)
             \<and> Handler h s1 ev = (Some e, snd (Emit srt eb ev s)))
          \<and> (\<forall>h \<in># mset hs - mset r. \<forall>h' \<in> set r. Priority h' \<le> Priority h)))"
proof -
  define hs where "hs = hooks_of eb (ev_name ev)"
  define q where "q = (if hs = [] then [] else srt hs)"
  have q: "mset q = mset hs" "q = srt hs"
    using slice_sort.srt_mset [OF srt, of hs] by (auto simp: q_def)
  have E: "Emit srt eb ev s = run_handlers ev q s"
    by (simp add: Emit_eq q_def hs_def)
  obtain k where k: "delivered ev q s = take k q"
    using delivered_prefix [of ev q s] by (metis append_eq_conv_conj prefix_def)
  have rest: "mset hs - mset (delivered ev q s) = mset (drop k q)"
    by (metis add_diff_cancel_left' append_take_drop_id k mset_append q(1))
  have "sorted (map Priority (delivered ev q s))"
    unfolding k unfolding q(2) by (rule slice_sort.delivered_sorted [OF srt])
  moreover have "mset (delivered ev q s) \<subseteq># mset hs"
    unfolding k q(1) [symmetric] by (metis append_take_drop_id mset_append mset_subset_eq_add_left)
  moreover have "\<forall>h \<in># mset hs - mset (delivered ev q s). \<forall>h' \<in> set (delivered ev q s). Priority h' \<le> Priority h"
    using slice_sort.later_not_smaller [OF srt, of _ k hs]
    unfolding rest unfolding k unfolding q(2) by simp
  ultimately show ?thesis
    using delivered_all [of ev q s] delivered_error [of ev q s] q(1)
    unfolding E hs_def [symmetric] q_def [symmetric] Let_def by auto
qed

text \<open>A one-hook bus for the witnesses: the handler counts its calls and fails on the second.\<close>

definition counting_hook :: "(nat, unit) HookDef" where
  "counting_hook = \<lparr>hk_name = ''e'', Priority = 3,
     Handler = (\<lambda>s _. if s = 0 then (None, Suc s) else (Some ''boom'', s)), subID = 0\<rparr>"

lemma hook_sorter: "slice_sort (sort_key Priority) Priority"
  by (rule stable_sort.slice_sort_axioms)

theorem Emit_delivery_witness:
  "let eb = bus_run [OpSubscribe counting_hook, OpSubscribe counting_hook];
       ev = \<lparr>ev_name = ''e'', ev_data = ()\<rparr>
   in fst (Emit (sort_key Priority) eb ev 0) = Some ''boom''
    \<and> (\<exists>pre h s1. delivered ev (sort_key Priority (hooks_of eb ''e'')) 0 = pre @ [h]
        \<and> run_handlers ev pre 0 = (None, s1) \<and> fst (Handler h s1 ev) = Some ''boom'')"
proof -
  let ?eb = "bus_run [OpSubscribe counting_hook, OpSubscribe counting_hook]"
  let ?ev = "\<lparr>ev_name = ''e'', ev_data = ()\<rparr>"
  have h: "hooks_of ?eb ''e'' = [counting_hook\<lparr>subID := 1\<rparr>, counting_hook\<lparr>subID := 2\<rparr>]"
    by (simp add: bus_run_def NewEventBus_def Subscribe_def hooks_of_def counting_hook_def)
  have E: "fst (Emit (sort_key Priority) ?eb ?ev 0) = Some ''boom''"
    by (simp add: Emit_eq h) (simp add: counting_hook_def)
  from Emit_delivery [OF hook_sorter, of ?eb ?ev 0] E show ?thesis
    by (fastforce simp: Let_def h)
qed

text \<open>
  Unsubscription: after any run of fewer than \<open>2\<^sup>6\<^sup>4\<close> operations on a fresh bus, the closure
  returned by a subscription removes exactly that subscription: the hook list of its name loses
  that one hook and keeps the others in order, and every other name is untouched.
\<close>

lemma unsubscribe_exact:
  assumes "length ops < 2 ^ 64" and "h \<in> set (hooks_of (bus_run ops) n)"
  shows "hooks_of (unsubscribe n (subID h) (bus_run ops)) m
           = (if m = n then filter (\<lambda>x. subID x \<noteq> subID h) (hooks_of (bus_run ops) n)
              else hooks_of (bus_run ops) m)
    \<and> length (hooks_of (unsubscribe n (subID h) (bus_run ops)) n)
           = length (hooks_of (bus_run ops) n) - 1"
proof -
  have wf: "wf_bus (bus_run ops)" by (rule wf_bus_run [OF assms(1)])
  obtain a b where ab: "hooks_of (bus_run ops) n = a @ h # b"
    using assms(2) by (meson split_list)
  have "subID h \<notin> subID ` set (a @ b)" using wf_busD(4) [OF wf, of n] by (simp add: ab image_Un)
  then have "\<forall>x \<in> set (a @ b). subID x \<noteq> subID h" by (metis imageI)
  then have "filter (\<lambda>x. subID x \<noteq> subID h) (a @ h # b) = a @ b" by simp
  then show ?thesis by (simp add: hooks_of_unsubscribe [OF wf] ab)
qed

theorem unsubscribe_exact_witness:
  "hooks_of (unsubscribe ''e'' 1 (bus_run [OpSubscribe counting_hook])) ''e'' = []"
proof -
  let ?h = "counting_hook\<lparr>subID := 1\<rparr>"
  have h: "hooks_of (bus_run [OpSubscribe counting_hook]) ''e'' = [?h]"
    by (simp add: bus_run_def NewEventBus_def Subscribe_def hooks_of_def counting_hook_def)
  have "?h \<in> set (hooks_of (bus_run [OpSubscribe counting_hook]) ''e'')" by (simp add: h)
  from unsubscribe_exact [OF _ this, of "''e''"] show ?thesis by (simp add: h)
qed

text \<open>
  \<open>SubscriberCount\<close> returns the number of event names, which neither a second subscription to
  a name nor an unsubscription changes.
\<close>

lemma map_put_present: "k \<in> set (map fst m) \<Longrightarrow> length (map_put k v m) = length m"
  by (induction m) force+

theorem SubscriberCount_counts_names:
  "SubscriberCount (unsubscribe n i eb) = SubscriberCount eb
   \<and> (hooks_of eb (hk_name h) \<noteq> [] \<longrightarrow> SubscriberCount (snd (Subscribe eb h)) = SubscriberCount eb)"
proof -
  have key: "k \<in> set (map fst (hooks eb))" if "hooks_of eb k \<noteq> []" for k
    using that by (auto simp: hooks_of_def image_iff split: option.splits dest!: map_of_SomeD) force
  have "SubscriberCount (unsubscribe n i eb) = SubscriberCount eb"
  proof (cases "cut_sub i (hooks_of eb n)")
    case (Some hs)
    then have "hooks_of eb n \<noteq> []" by auto
    with Some key show ?thesis by (simp add: unsubscribe_def SubscriberCount_def map_put_present)
  qed (simp add: unsubscribe_def)
  with key [of "hk_name h"] show ?thesis
    by (simp add: SubscriberCount_def Subscribe_def Let_def map_put_present)
qed

end
