(* ===== verification/Kernel_Core.thy ===== *)
theory Kernel_Core
  imports Kernel_Bus
begin

text \<open>
  The kernel (\<^verbatim>\<open>kernel/kernel.go\<close>): component registry, dependency resolution, start and
  stop. A component's \<open>Init\<close>, \<open>Start\<close> and \<open>Stop\<close> are code of that component: functions of the
  world \<open>'s\<close> that return an error or nil. Go ranges over a map in an unspecified order, so
  \<open>resolveOrder\<close> takes the iteration order as an argument and its theorems hold for every order.
\<close>

section \<open>State\<close>

record 's Component =
  c_name :: string
  c_version :: string
  Dependencies :: "string list"
  c_Init :: "'s \<Rightarrow> string option \<times> 's"
  c_Start :: "'s \<Rightarrow> string option \<times> 's"
  c_Stop :: "'s \<Rightarrow> string option \<times> 's"

record 's Kernel =
  components :: "(string, 's Component) go_map"
  startedOrder :: "string list"

record ComponentStatus =
  cs_Name :: string
  cs_Version :: string
  cs_Dependencies :: "string list"
  cs_Running :: bool

datatype kernel_error =
    Circular string
  | NotRegistered string string
  | InitFailed string string
  | StartFailed string string
  | StopFailed string string
  | NilComponent string
  | FuelOut

definition New :: "'s Kernel" where
  "New = \<lparr>components = [], startedOrder = []\<rparr>"

definition Register :: "'s Kernel \<Rightarrow> 's Component \<Rightarrow> 's Kernel" where
  "Register k c = k\<lparr>components := map_put (c_name c) c (components k)\<rparr>"

section \<open>Dependency resolution\<close>

datatype color = white | gray | black

record dfs =
  colors :: "string \<Rightarrow> color"
  order :: "string list"

definition dfs_init :: dfs where
  "dfs_init = \<lparr>colors = (\<lambda>_. white), order = []\<rparr>"

text \<open>
  \<open>visit\<close> is the closure of \<open>resolveOrder\<close>. Its recursion depth is bounded by the number of
  registered components (each nested call has turned one more of them gray), so one unit of fuel
  per component and one more are enough; \<open>FuelOut\<close> is shown below never to be returned.
\<close>

fun visit :: "nat \<Rightarrow> (string \<rightharpoonup> 's Component) \<Rightarrow> string \<Rightarrow> string \<Rightarrow> dfs \<Rightarrow> (kernel_error, dfs) res" where
  "visit 0 comps requiredBy name st = Inl FuelOut"
| "visit (Suc f) comps requiredBy name st =
     (case colors st name of
        gray \<Rightarrow> Inl (Circular name)
      | black \<Rightarrow> Inr st
      | white \<Rightarrow>
          let st1 = st\<lparr>colors := (colors st)(name := gray)\<rparr>
          in case comps name of
               None \<Rightarrow> Inl (NotRegistered name requiredBy)
             | Some c \<Rightarrow>
                 (case fold_res (visit f comps name) (Dependencies c) st1 of
                    Inl e \<Rightarrow> Inl e
                  | Inr st2 \<Rightarrow> Inr (st2\<lparr>colors := (colors st2)(name := black),
                                        order := order st2 @ [name]\<rparr>)))"

definition resolveOrder :: "string list \<Rightarrow> 's Kernel \<Rightarrow> (kernel_error, string list) res" where
  "resolveOrder iter k =
     (case fold_res (visit (Suc (length (components k))) (map_of (components k)) []) iter dfs_init of
        Inl e \<Rightarrow> Inl e
      | Inr st \<Rightarrow> Inr (order st))"

section \<open>Lifecycle\<close>

fun start_loop :: "(string \<rightharpoonup> 's Component) \<Rightarrow> string list \<Rightarrow> string list \<Rightarrow> 's
    \<Rightarrow> kernel_error option \<times> string list \<times> 's" where
  "start_loop comps [] started s = (None, started, s)"
| "start_loop comps (n # ns) started s =
     (case comps n of
        None \<Rightarrow> (Some (NilComponent n), started, s)
      | Some c \<Rightarrow>
          (case c_Init c s of
             (Some e, s1) \<Rightarrow> (Some (InitFailed n e), started, s1)
           | (None, s1) \<Rightarrow>
               (case c_Start c s1 of
                  (Some e, s2) \<Rightarrow> (Some (StartFailed n e), started, s2)
                | (None, s2) \<Rightarrow> start_loop comps ns (started @ [n]) s2)))"

definition Start :: "string list \<Rightarrow> 's Kernel \<Rightarrow> 's \<Rightarrow> kernel_error option \<times> 's Kernel \<times> 's" where
  "Start iter k s =
     (let k0 = k\<lparr>startedOrder := []\<rparr>
      in case resolveOrder iter k0 of
           Inl e \<Rightarrow> (Some e, k0, s)
         | Inr ord \<Rightarrow>
             (case start_loop (map_of (components k0)) ord [] s of
                (r, started, s') \<Rightarrow> (r, k0\<lparr>startedOrder := started\<rparr>, s')))"

fun stop_loop :: "(string \<rightharpoonup> 's Component) \<Rightarrow> string list \<Rightarrow> 's \<Rightarrow> kernel_error option \<times> 's" where
  "stop_loop comps [] s = (None, s)"
| "stop_loop comps (n # ns) s =
     (case comps n of
        None \<Rightarrow> (Some (NilComponent n), s)
      | Some c \<Rightarrow>
          (case c_Stop c s of
             (Some e, s1) \<Rightarrow> (Some (StopFailed n e), s1)
           | (None, s1) \<Rightarrow> stop_loop comps ns s1))"

text \<open>\<open>Stop\<close> drops the error of \<open>resolveOrder\<close>: the order is then the nil slice.\<close>

definition Stop :: "string list \<Rightarrow> 's Kernel \<Rightarrow> 's \<Rightarrow> kernel_error option \<times> 's Kernel \<times> 's" where
  "Stop iter k s =
     (let ord = (case resolveOrder iter k of Inl _ \<Rightarrow> [] | Inr ns \<Rightarrow> ns)
      in case stop_loop (map_of (components k)) (rev ord) s of
           (Some e, s') \<Rightarrow> (Some e, k, s')
         | (None, s') \<Rightarrow> (None, k\<lparr>startedOrder := []\<rparr>, s'))"

definition ListComponents :: "string list \<Rightarrow> 's Kernel \<Rightarrow> ComponentStatus list" where
  "ListComponents iter k =
     (let ord = (case resolveOrder iter k of Inl _ \<Rightarrow> [] | Inr ns \<Rightarrow> ns)
      in List.map_filter (\<lambda>n. map_option (\<lambda>c. \<lparr>cs_Name = n, cs_Version = c_version c,
             cs_Dependencies = Dependencies c, cs_Running = (n \<in> set (startedOrder k))\<rparr>)
           (map_of (components k) n)) ord)"

section \<open>The dependency graph\<close>

definition dep_edges :: "(string \<rightharpoonup> 's Component) \<Rightarrow> (string \<times> string) set" where
  "dep_edges comps = {(a, b). \<exists>c. comps a = Some c \<and> b \<in> set (Dependencies c)}"

definition deps_closed :: "(string \<rightharpoonup> 's Component) \<Rightarrow> bool" where
  "deps_closed comps \<longleftrightarrow> (\<forall>(a, b) \<in> dep_edges comps. comps b \<noteq> None)"

text \<open>Every element of a list has all its dependencies before it.\<close>

definition topo :: "(string \<rightharpoonup> 's Component) \<Rightarrow> string list \<Rightarrow> bool" where
  "topo comps xs \<longleftrightarrow> (\<forall>pre x post. xs = pre @ x # post \<longrightarrow>
     (\<exists>c. comps x = Some c \<and> set (Dependencies c) \<subseteq> set pre))"

lemma topo_Nil [simp]: "topo comps []"
  by (simp add: topo_def)

lemma topoD: "topo comps (pre @ x # post) \<Longrightarrow> \<exists>c. comps x = Some c \<and> set (Dependencies c) \<subseteq> set pre"
  unfolding topo_def by blast

lemma topo_snoc: "topo comps xs \<Longrightarrow> comps x = Some c \<Longrightarrow> set (Dependencies c) \<subseteq> set xs \<Longrightarrow>
    topo comps (xs @ [x])"
  unfolding topo_def
proof (intro allI impI)
  fix pre y post
  assume t: "\<forall>pre x post. xs = pre @ x # post \<longrightarrow> (\<exists>c. comps x = Some c \<and> set (Dependencies c) \<subseteq> set pre)"
    and c: "comps x = Some c" "set (Dependencies c) \<subseteq> set xs"
    and e: "xs @ [x] = pre @ y # post"
  show "\<exists>c. comps y = Some c \<and> set (Dependencies c) \<subseteq> set pre"
  proof (cases post rule: rev_cases)
    case Nil
    with e c show ?thesis by simp
  next
    case (snoc post' z)
    with e have "xs = pre @ y # post'" by simp
    with t show ?thesis by blast
  qed
qed

definition good :: "(string \<rightharpoonup> 's Component) \<Rightarrow> dfs \<Rightarrow> bool" where
  "good comps st \<longleftrightarrow> distinct (order st) \<and> set (order st) = {n. colors st n = black}
     \<and> topo comps (order st)"

definition grays :: "dfs \<Rightarrow> string set" where
  "grays st = {n. colors st n = gray}"

definition blacks :: "dfs \<Rightarrow> string set" where
  "blacks st = {n. colors st n = black}"

lemma good_init: "good comps dfs_init"
  by (simp add: good_def dfs_init_def)

lemma grays_init: "grays dfs_init = {}"
  by (simp add: grays_def dfs_init_def)

text \<open>A successful visit blackens its node, keeps the black nodes black and the gray set as it was.\<close>

lemma visit_colors: "visit f comps r n st = Inr st' \<Longrightarrow>
    n \<in> blacks st' \<and> blacks st \<subseteq> blacks st' \<and> grays st' = grays st"
proof (induction f arbitrary: r n st st')
  case (Suc f)
  show ?case
  proof (cases "colors st n")
    case white
    let ?st1 = "st\<lparr>colors := (colors st)(n := gray)\<rparr>"
    from Suc.prems white obtain c st2 where c: "comps n = Some c"
      and st2: "fold_res (visit f comps n) (Dependencies c) ?st1 = Inr st2"
      and st': "st' = st2\<lparr>colors := (colors st2)(n := black), order := order st2 @ [n]\<rparr>"
      by (auto simp: Let_def split: option.splits sum.splits)
    have "blacks ?st1 \<subseteq> blacks st2 \<and> grays st2 = grays ?st1"
      using fold_res_inv [where P = "\<lambda>s. blacks ?st1 \<subseteq> blacks s \<and> grays s = grays ?st1",
          OF _ _ st2] Suc.IH by blast
    with white show ?thesis unfolding st' by (auto simp: blacks_def grays_def split: if_splits)
  qed (use Suc.prems in \<open>auto simp: blacks_def\<close>)
qed simp

lemma fold_visit_colors: "fold_res (visit f comps r) ns st = Inr st' \<Longrightarrow>
    set ns \<subseteq> blacks st' \<and> blacks st \<subseteq> blacks st' \<and> grays st' = grays st"
proof (induction ns arbitrary: st)
  case (Cons n ns)
  then obtain s1 where "visit f comps r n st = Inr s1" "fold_res (visit f comps r) ns s1 = Inr st'"
    by (auto split: sum.splits)
  with Cons.IH [of s1] visit_colors [of f comps r n st s1] show ?case by auto
qed simp

lemma visit_good: "visit f comps r n st = Inr st' \<Longrightarrow> good comps st \<Longrightarrow> good comps st'"
proof (induction f arbitrary: r n st st')
  case (Suc f)
  show ?case
  proof (cases "colors st n")
    case white
    let ?st1 = "st\<lparr>colors := (colors st)(n := gray)\<rparr>"
    from Suc.prems white obtain c st2 where c: "comps n = Some c"
      and st2: "fold_res (visit f comps n) (Dependencies c) ?st1 = Inr st2"
      and st': "st' = st2\<lparr>colors := (colors st2)(n := black), order := order st2 @ [n]\<rparr>"
      by (auto simp: Let_def split: option.splits sum.splits)
    have "{m. m \<noteq> n \<and> colors st m = black} = {m. colors st m = black}" using white by auto
    then have "good comps ?st1" using Suc.prems(2) white by (auto simp: good_def)
    then have g2: "good comps st2"
      using fold_res_inv [where P = "good comps", OF _ _ st2] Suc.IH by blast
    from fold_visit_colors [OF st2] have d: "set (Dependencies c) \<subseteq> blacks st2"
      and "n \<in> grays st2" by (auto simp: grays_def)
    then have "n \<notin> set (order st2)" using g2 by (auto simp: good_def grays_def)
    moreover have "topo comps (order st2 @ [n])"
      using g2 c d by (intro topo_snoc) (auto simp: good_def blacks_def)
    ultimately show ?thesis using g2 unfolding st' good_def by auto
  qed (use Suc.prems in auto)
qed simp

section \<open>Why resolution fails\<close>

text \<open>What each error of the search says about the graph; running out of fuel is impossible.\<close>

fun explained :: "(string \<rightharpoonup> 's Component) \<Rightarrow> kernel_error \<Rightarrow> bool" where
  "explained comps (Circular n) \<longleftrightarrow> (n, n) \<in> (dep_edges comps)\<^sup>+"
| "explained comps (NotRegistered n r) \<longleftrightarrow> (r, n) \<in> dep_edges comps \<and> comps n = None"
| "explained comps _ \<longleftrightarrow> False"

lemma dep_edgesI: "comps a = Some c \<Longrightarrow> b \<in> set (Dependencies c) \<Longrightarrow> (a, b) \<in> dep_edges comps"
  by (auto simp: dep_edges_def)

lemma visit_explained:
  assumes "finite (dom comps)"
  shows "visit f comps r n st = Inl e \<Longrightarrow> grays st \<subseteq> dom comps \<Longrightarrow> card (dom comps) < card (grays st) + f
    \<Longrightarrow> (\<forall>g \<in> grays st. (g, n) \<in> (dep_edges comps)\<^sup>+) \<Longrightarrow> comps n \<noteq> None \<or> (r, n) \<in> dep_edges comps
    \<Longrightarrow> explained comps e"
proof (induction f arbitrary: r n st)
  case 0
  have "card (grays st) \<le> card (dom comps)" using 0(2) assms by (rule card_mono [rotated])
  with 0(3) show ?case by simp
next
  case (Suc f)
  show ?case
  proof (cases "colors st n")
    case gray
    with Suc.prems(1,4) show ?thesis by (auto simp: grays_def)
  next
    case white
    let ?st1 = "st\<lparr>colors := (colors st)(n := gray)\<rparr>"
    have g1: "grays ?st1 = insert n (grays st)" by (auto simp: grays_def)
    have nin: "n \<notin> grays st" using white by (simp add: grays_def)
    show ?thesis
    proof (cases "comps n")
      case None
      with Suc.prems(1,5) white show ?thesis by auto
    next
      case (Some c)
      with Suc.prems(1) white have "fold_res (visit f comps n) (Dependencies c) ?st1 = Inl e"
        by (auto simp: Let_def split: sum.splits)
      from fold_res_Inl [OF this] obtain pre d post s1 where d: "Dependencies c = pre @ d # post"
        and s1: "fold_res (visit f comps n) pre ?st1 = Inr s1" and e: "visit f comps n d s1 = Inl e"
        by blast
      have g: "grays s1 = insert n (grays st)" using fold_visit_colors [OF s1] g1 by simp
      have edge: "(n, d) \<in> dep_edges comps" using Some d by (auto intro: dep_edgesI)
      have "grays s1 \<subseteq> dom comps" using Suc.prems(2) Some by (auto simp: g)
      moreover have "finite (grays st)" using Suc.prems(2) assms finite_subset by blast
      then have "card (dom comps) < card (grays s1) + f" using Suc.prems(3) nin by (simp add: g)
      moreover have "\<forall>g \<in> grays s1. (g, d) \<in> (dep_edges comps)\<^sup>+"
        using Suc.prems(4) edge by (auto simp: g intro: trancl_into_trancl)
      ultimately show ?thesis using Suc.IH [OF e] edge by blast
    qed
  qed (use Suc.prems(1) in auto)
qed

definition iterates :: "string list \<Rightarrow> 's Kernel \<Rightarrow> bool" where
  "iterates iter k \<longleftrightarrow> wf_map (components k) \<and> distinct iter \<and> set iter = set (map_keys (components k))"

lemma iterates_dom: "iterates iter k \<Longrightarrow> set iter = dom (map_of (components k))"
  by (simp add: iterates_def map_keys_def dom_map_of_conv_image_fst)

lemma card_dom_components: "wf_map (components k) \<Longrightarrow> card (dom (map_of (components k))) = length (components k)"
  by (simp add: wf_map_def dom_map_of_conv_image_fst distinct_card flip: set_map)

lemma resolveOrder_Inl_explained:
  assumes it: "iterates iter k" and err: "resolveOrder iter k = Inl e"
  shows "explained (map_of (components k)) e"
proof -
  let ?c = "map_of (components k)"
  let ?f = "Suc (length (components k))"
  from err have "fold_res (visit ?f ?c []) iter dfs_init = Inl e"
    by (simp add: resolveOrder_def split: sum.splits)
  from fold_res_Inl [OF this] obtain pre n post s1 where n: "iter = pre @ n # post"
    and s1: "fold_res (visit ?f ?c []) pre dfs_init = Inr s1" and v: "visit ?f ?c [] n s1 = Inl e"
    by blast
  have g: "grays s1 = {}" using fold_visit_colors [OF s1] by (simp add: grays_init)
  have "?c n \<noteq> None" using iterates_dom [OF it] n by auto
  moreover have "card (dom ?c) < card (grays s1) + ?f"
    using it by (simp add: g card_dom_components iterates_def)
  ultimately show ?thesis
    using visit_explained [OF finite_dom_map_of v] by (simp add: g)
qed

lemma resolveOrder_Inr_good:
  assumes it: "iterates iter k" and ok: "resolveOrder iter k = Inr ord"
  shows "distinct ord \<and> set ord = dom (map_of (components k)) \<and> topo (map_of (components k)) ord"
proof -
  let ?c = "map_of (components k)"
  let ?f = "Suc (length (components k))"
  from ok obtain st where st: "fold_res (visit ?f ?c []) iter dfs_init = Inr st" and o: "ord = order st"
    by (auto simp: resolveOrder_def split: sum.splits)
  have g: "good ?c st"
    using fold_res_inv [where P = "good ?c", OF _ good_init st] visit_good by blast
  have "set iter \<subseteq> set ord" using fold_visit_colors [OF st] g by (auto simp: o good_def blacks_def)
  moreover have "set ord \<subseteq> dom ?c"
  proof
    fix x assume "x \<in> set ord"
    then obtain pre post where "ord = pre @ x # post" by (meson split_list)
    with g show "x \<in> dom ?c" using topoD [of ?c pre x post] by (auto simp: good_def o)
  qed
  ultimately show ?thesis using g iterates_dom [OF it] by (auto simp: good_def o)
qed

section \<open>Topological orders\<close>

text \<open>The position of an element in a duplicate-free list decreases along dependency edges.\<close>

fun pos :: "'a list \<Rightarrow> 'a \<Rightarrow> nat" where
  "pos [] x = 0"
| "pos (y # ys) x = (if x = y then 0 else Suc (pos ys x))"

lemma pos_append_left: "x \<in> set xs \<Longrightarrow> pos (xs @ ys) x = pos xs x"
  by (induction xs) auto

lemma pos_append_right: "x \<notin> set xs \<Longrightarrow> pos (xs @ ys) x = length xs + pos ys x"
  by (induction xs) auto

lemma pos_less: "x \<in> set xs \<Longrightarrow> pos xs x < length xs"
  by (induction xs) auto

lemma topo_pos:
  assumes "topo comps ord" "distinct ord" "x \<in> set ord" "comps x = Some c" "d \<in> set (Dependencies c)"
  shows "d \<in> set ord \<and> pos ord d < pos ord x"
proof -
  obtain pre post where o: "ord = pre @ x # post" using assms(3) by (meson split_list)
  with assms(1,4,5) have d: "d \<in> set pre" using topoD [of comps pre x post] by auto
  then have "pos ord d < length pre" by (simp add: o pos_append_left pos_less)
  moreover have "pos ord x = length pre" using assms(2) by (simp add: o pos_append_right)
  ultimately show ?thesis using d by (simp add: o)
qed

lemma topo_acyclic:
  assumes t: "topo comps ord" "distinct ord" "set ord = dom comps"
  shows "deps_closed comps \<and> acyclic (dep_edges comps)"
proof -
  have edge: "b \<in> set ord \<and> pos ord b < pos ord a" if ab: "(a, b) \<in> dep_edges comps" for a b
  proof -
    from ab obtain c where c: "comps a = Some c" "b \<in> set (Dependencies c)" by (auto simp: dep_edges_def)
    with t(3) have "a \<in> set ord" by auto
    from topo_pos [OF t(1,2) this c] show ?thesis .
  qed
  then have "(dep_edges comps)\<inverse> \<subseteq> measure (pos ord)" by auto
  then have "wf ((dep_edges comps)\<inverse>)" using wf_measure wf_subset by blast
  then have "acyclic (dep_edges comps)" using wf_acyclic acyclic_converse by blast
  moreover have "deps_closed comps" using edge t(3) by (auto simp: deps_closed_def dom_def)
  ultimately show ?thesis by blast
qed

text \<open>
  C15. Resolution is correct and complete, for every iteration order of the registry: it succeeds
  exactly when every dependency is registered and the dependency graph has no cycle, and the order
  it returns lists every registered component once, each after all of its dependencies.
\<close>

theorem resolveOrder_correct:
  assumes "iterates iter k"
  shows "((\<exists>ord. resolveOrder iter k = Inr ord)
           \<longleftrightarrow> deps_closed (map_of (components k)) \<and> acyclic (dep_edges (map_of (components k))))
    \<and> (\<forall>ord. resolveOrder iter k = Inr ord \<longrightarrow>
           distinct ord \<and> set ord = dom (map_of (components k))
           \<and> (\<forall>x c d. x \<in> set ord \<and> map_of (components k) x = Some c \<and> d \<in> set (Dependencies c)
                 \<longrightarrow> d \<in> set ord \<and> pos ord d < pos ord x))"
proof (intro conjI allI impI iffI)
  let ?c = "map_of (components k)"
  fix ord assume "resolveOrder iter k = Inr ord"
  then show "distinct ord" "set ord = dom ?c"
    and "x \<in> set ord \<and> ?c x = Some c \<and> d \<in> set (Dependencies c) \<Longrightarrow> d \<in> set ord"
    and "x \<in> set ord \<and> ?c x = Some c \<and> d \<in> set (Dependencies c) \<Longrightarrow> pos ord d < pos ord x" for x c d
    using resolveOrder_Inr_good [OF assms] topo_pos by blast+
next
  let ?c = "map_of (components k)"
  assume "\<exists>ord. resolveOrder iter k = Inr ord"
  then show "deps_closed ?c" "acyclic (dep_edges ?c)"
    using resolveOrder_Inr_good [OF assms] topo_acyclic by blast+
next
  let ?c = "map_of (components k)"
  assume ok: "deps_closed ?c \<and> acyclic (dep_edges ?c)"
  have no: "\<not> explained ?c e" for e
    using ok by (cases e) (auto simp: deps_closed_def acyclic_def)
  then show "\<exists>ord. resolveOrder iter k = Inr ord"
    using resolveOrder_Inl_explained [OF assms] by (cases "resolveOrder iter k") auto
qed

text \<open>Three components, one of which needs the other two, registered in the wrong order.\<close>

definition idle_component :: "string \<Rightarrow> string list \<Rightarrow> string list Component" where
  "idle_component n ds = \<lparr>c_name = n, c_version = ''0'', Dependencies = ds,
     c_Init = (\<lambda>s. (None, s)), c_Start = (\<lambda>s. (None, s @ [n])), c_Stop = (\<lambda>s. (None, s @ [n]))\<rparr>"

definition demo_kernel :: "string list Kernel" where
  "demo_kernel = Register (Register (Register New (idle_component ''api'' [''auth'', ''db'']))
     (idle_component ''auth'' [''db''])) (idle_component ''db'' [])"

lemma demo_components: "components demo_kernel =
    [(''api'', idle_component ''api'' [''auth'', ''db'']), (''auth'', idle_component ''auth'' [''db'']),
     (''db'', idle_component ''db'' [])]"
  by (simp add: demo_kernel_def Register_def New_def idle_component_def)

lemma demo_iterates: "iterates [''api'', ''auth'', ''db''] demo_kernel"
  by (simp add: iterates_def demo_components wf_map_def map_keys_def)

lemma demo_order: "resolveOrder [''api'', ''auth'', ''db''] demo_kernel = Inr [''db'', ''auth'', ''api'']"
  by (simp add: resolveOrder_def demo_components dfs_init_def Let_def idle_component_def)

theorem resolveOrder_correct_witness:
  "iterates [''api'', ''auth'', ''db''] demo_kernel
   \<and> acyclic (dep_edges (map_of (components demo_kernel)))
   \<and> set [''db'', ''auth'', ''api''] = dom (map_of (components demo_kernel))"
  using resolveOrder_correct [OF demo_iterates] demo_iterates demo_order by blast

section \<open>Starting\<close>

lemma start_loop_prefix: "start_loop comps ns started s = (r, started', s') \<Longrightarrow>
    \<exists>pre post. ns = pre @ post \<and> started' = started @ pre \<and> (r = None \<longrightarrow> post = [])
      \<and> (\<forall>e. r = Some e \<longrightarrow> (\<exists>n ns'. post = n # ns' \<and>
           (comps n = None \<and> e = NilComponent n
            \<or> (\<exists>msg. e = InitFailed n msg \<or> e = StartFailed n msg))))"
proof (induction comps ns started s rule: start_loop.induct)
  case (1 comps started s)
  then show ?case by simp
next
  case (2 comps n ns started s)
  show ?case
  proof (cases "\<exists>c s1 s2. comps n = Some c \<and> c_Init c s = (None, s1) \<and> c_Start c s1 = (None, s2)")
    case True
    then obtain c s1 s2 where c: "comps n = Some c" "c_Init c s = (None, s1)" "c_Start c s1 = (None, s2)"
      by blast
    with 2(2) have "start_loop comps ns (started @ [n]) s2 = (r, started', s')" by simp
    from 2(1) [OF c(1) c(2) [symmetric] refl c(3) [symmetric] refl this]
    obtain pre post where "ns = pre @ post" "started' = started @ n # pre" "r = None \<longrightarrow> post = []"
      and "\<forall>e. r = Some e \<longrightarrow> (\<exists>n ns'. post = n # ns' \<and> (comps n = None \<and> e = NilComponent n
            \<or> (\<exists>msg. e = InitFailed n msg \<or> e = StartFailed n msg)))" by auto
    then show ?thesis by (intro exI [of _ "n # pre"] exI [of _ post]) simp
  next
    case False
    with 2(2) have "started' = started" "r \<noteq> None"
      and "\<forall>e. r = Some e \<longrightarrow> comps n = None \<and> e = NilComponent n
            \<or> (\<exists>msg. e = InitFailed n msg \<or> e = StartFailed n msg)"
      by (auto split: option.splits prod.splits)
    then show ?thesis by (intro exI [of _ "[]"] exI [of _ "n # ns"]) simp
  qed
qed

text \<open>
  C17. Starting: whatever the outcome, the started components are distinct and each of them was
  started after all of its dependencies; success starts every registered component; a failing
  \<open>Init\<close> or \<open>Start\<close> of a component leaves it out, with all its dependencies already started.
\<close>

theorem Start_respects_dependencies:
  assumes it: "iterates iter k" and st: "Start iter k s = (r, k', s')"
  shows "components k' = components k \<and> distinct (startedOrder k')
    \<and> topo (map_of (components k)) (startedOrder k')
    \<and> (r = None \<longrightarrow> set (startedOrder k') = dom (map_of (components k)))
    \<and> (\<forall>n msg. r = Some (InitFailed n msg) \<or> r = Some (StartFailed n msg) \<longrightarrow>
         n \<notin> set (startedOrder k') \<and> (\<exists>c. map_of (components k) n = Some c
           \<and> set (Dependencies c) \<subseteq> set (startedOrder k')))"
proof -
  let ?c = "map_of (components k)"
  let ?k0 = "k\<lparr>startedOrder := []\<rparr>"
  have it0: "iterates iter ?k0" using it by (simp add: iterates_def)
  show ?thesis
  proof (cases "resolveOrder iter ?k0")
    case (Inl e)
    with st have "r = Some e" "k' = ?k0" by (auto simp: Start_def Let_def)
    moreover have "explained ?c e" using resolveOrder_Inl_explained [OF it0 Inl] by simp
    ultimately show ?thesis by auto
  next
    case (Inr ord)
    have o: "distinct ord" "set ord = dom ?c" "topo ?c ord"
      using resolveOrder_Inr_good [OF it0 Inr] by simp_all
    from st Inr obtain started where sl: "start_loop ?c ord [] s = (r, started, s')"
      and k': "k' = ?k0\<lparr>startedOrder := started\<rparr>" by (auto simp: Start_def Let_def split: prod.splits)
    from start_loop_prefix [OF sl] obtain post where ord: "ord = started @ post"
      and ok: "r = None \<longrightarrow> post = []"
      and err: "\<forall>e. r = Some e \<longrightarrow> (\<exists>n ns'. post = n # ns' \<and> (?c n = None \<and> e = NilComponent n
            \<or> (\<exists>msg. e = InitFailed n msg \<or> e = StartFailed n msg)))" by auto
    have t: "topo ?c started" using o(3) unfolding topo_def ord by (metis append.assoc append_Cons)
    have fail: "n \<notin> set started \<and> (\<exists>c. ?c n = Some c \<and> set (Dependencies c) \<subseteq> set started)"
      if "r = Some (InitFailed n msg) \<or> r = Some (StartFailed n msg)" for n msg
    proof -
      from err that obtain ns' where "post = n # ns'" by auto
      with o ord topoD [of ?c started n ns'] show ?thesis by simp
    qed
    have "components k' = components k" "startedOrder k' = started" by (simp_all add: k')
    moreover have "distinct started" using o(1) ord by simp
    moreover have "r = None \<longrightarrow> set started = dom ?c" using o(2) ok ord by auto
    ultimately show ?thesis using t fail by (simp only: simp_thms) blast
  qed
qed

theorem Start_respects_dependencies_witness:
  "startedOrder (fst (snd (Start [''api'', ''auth'', ''db''] demo_kernel []))) = [''db'', ''auth'', ''api'']
   \<and> topo (map_of (components demo_kernel)) [''db'', ''auth'', ''api'']"
proof -
  have c: "components (demo_kernel\<lparr>startedOrder := []\<rparr>) = components demo_kernel" by simp
  have o: "resolveOrder [''api'', ''auth'', ''db''] (demo_kernel\<lparr>startedOrder := []\<rparr>) = Inr [''db'', ''auth'', ''api'']"
    using demo_order by (simp add: resolveOrder_def)
  obtain r k' s' where st: "Start [''api'', ''auth'', ''db''] demo_kernel [] = (r, k', s')"
    by (metis prod_cases3)
  have k': "startedOrder k' = [''db'', ''auth'', ''api'']"
    using st by (simp add: Start_def o demo_components idle_component_def Let_def) auto
  show ?thesis using Start_respects_dependencies [OF demo_iterates st] k' st by simp
qed

section \<open>Stopping\<close>

text \<open>The components whose \<open>Stop\<close> a stop loop calls, in order.\<close>

fun stopped :: "(string \<rightharpoonup> 's Component) \<Rightarrow> string list \<Rightarrow> 's \<Rightarrow> string list" where
  "stopped comps [] s = []"
| "stopped comps (n # ns) s =
     (case comps n of
        None \<Rightarrow> []
      | Some c \<Rightarrow> n # (case c_Stop c s of (Some e, s1) \<Rightarrow> [] | (None, s1) \<Rightarrow> stopped comps ns s1))"

lemma stopped_prefix: "prefix (stopped comps ns s) ns"
  by (induction comps ns s rule: stopped.induct) (auto split: option.splits prod.splits)

lemma stopped_all: "fst (stop_loop comps ns s) = None \<Longrightarrow> stopped comps ns s = ns"
  by (induction comps ns s rule: stopped.induct) (auto split: option.splits prod.splits)

text \<open>
  Stopping: when the registry resolves, a component is stopped only after every registered
  component that depends on it has been stopped; if no \<open>Stop\<close> fails, all registered components
  are stopped and none is reported running.
\<close>

lemma Stop_respects_dependencies:
  assumes it: "iterates iter k" and ok: "resolveOrder iter k = Inr ord"
  shows "(\<forall>pre d post x c. stopped (map_of (components k)) (rev ord) s = pre @ d # post
            \<and> map_of (components k) x = Some c \<and> d \<in> set (Dependencies c) \<longrightarrow> x \<in> set pre)
    \<and> (fst (Stop iter k s) = None \<longrightarrow>
         set (stopped (map_of (components k)) (rev ord) s) = dom (map_of (components k))
         \<and> startedOrder (fst (snd (Stop iter k s))) = [])"
proof (intro conjI allI impI)
  let ?c = "map_of (components k)"
  have o: "distinct ord" "set ord = dom ?c" "topo ?c ord"
    using resolveOrder_Inr_good [OF it ok] by simp_all
  fix pre d post x c
  assume a: "stopped ?c (rev ord) s = pre @ d # post \<and> ?c x = Some c \<and> d \<in> set (Dependencies c)"
  then obtain rest where "rev ord = (pre @ d # post) @ rest"
    using stopped_prefix [of ?c "rev ord" s] by (auto simp: prefix_def)
  then have ord: "ord = (rev rest @ rev post) @ d # rev pre"
    by (metis append.assoc append_Cons rev.simps(2) rev_append rev_rev_ident append_Nil)
  from a o(2) have x: "x \<in> set ord" by auto
  from a topo_pos [OF o(3,1) x] have "pos ord d < pos ord x" by blast
  moreover have "pos ord x < length (rev rest @ rev post)" if "x \<in> set (rev rest @ rev post)"
    using that by (simp only: ord pos_append_left pos_less)
  moreover have "pos ord d = length (rev rest @ rev post)"
    using o(1) unfolding ord by (simp add: pos_append_right)
  ultimately show "x \<in> set pre" using x unfolding ord by auto
next
  let ?c = "map_of (components k)"
  have o: "set ord = dom ?c" using resolveOrder_Inr_good [OF it ok] by simp
  assume n: "fst (Stop iter k s) = None"
  then have "fst (stop_loop ?c (rev ord) s) = None"
    by (auto simp: Stop_def ok Let_def split: prod.splits option.splits)
  then show "set (stopped ?c (rev ord) s) = dom ?c" using stopped_all o by (metis set_rev)
  show "startedOrder (fst (snd (Stop iter k s))) = []"
    using n by (auto simp: Stop_def ok Let_def split: prod.splits option.splits)
qed

theorem Stop_respects_dependencies_witness:
  "stopped (map_of (components demo_kernel)) (rev [''db'', ''auth'', ''api'']) [] = [''api'', ''auth'', ''db'']
   \<and> startedOrder (fst (snd (Stop [''api'', ''auth'', ''db''] demo_kernel []))) = []"
proof -
  have "fst (Stop [''api'', ''auth'', ''db''] demo_kernel []) = None"
    by (simp add: Stop_def demo_order demo_components idle_component_def Let_def)
  with Stop_respects_dependencies [OF demo_iterates demo_order, of "[]"]
  show ?thesis by (simp add: demo_components idle_component_def)
qed

text \<open>
  A registry that no longer resolves cannot be stopped: \<open>Stop\<close> drops the resolution error,
  calls no component's \<open>Stop\<close>, clears the started list and reports success.
\<close>

lemma Stop_unresolvable:
  assumes "resolveOrder iter k = Inl e"
  shows "Stop iter k s = (None, k\<lparr>startedOrder := []\<rparr>, s)"
  by (simp add: Stop_def assms)

theorem Stop_unresolvable_witness:
  "Stop [''api''] (Register New (idle_component ''api'' [''db''])\<lparr>startedOrder := [''api'']\<rparr>) []
   = (None, (Register New (idle_component ''api'' [''db''])), [])"
proof -
  let ?k = "(Register New (idle_component ''api'' [''db'']))\<lparr>startedOrder := [''api'']\<rparr>"
  have "resolveOrder [''api''] ?k = Inl (NotRegistered ''db'' ''api'')"
    by (simp add: resolveOrder_def Register_def New_def dfs_init_def idle_component_def Let_def)
  from Stop_unresolvable [OF this, of "[]"] show ?thesis by (simp add: Register_def New_def)
qed

text \<open>A component is listed as running exactly when it is in the started list.\<close>

lemma ListComponents_running:
  "st \<in> set (ListComponents iter k) \<Longrightarrow> cs_Running st \<longleftrightarrow> cs_Name st \<in> set (startedOrder k)"
  by (auto simp: ListComponents_def Let_def map_filter_def split: sum.splits)

end
