(* ===== verification/Deploy_Machine.thy ===== *)
theory Deploy_Machine
  imports BB_Prelude
begin

text \<open>
  The deployment state machine (\<^verbatim>\<open>components/deploy/state_machine.go\<close>). Statuses are the strings
  of the database column, so rows with a status the machine does not know (legacy rows) are in the
  model too.
\<close>

datatype DeploymentState =
    StatePending | StateBuilding | StateDeploying | StateRunning
  | StateDraining | StateStopped | StateFailed | StateRolledBack

fun str :: "DeploymentState \<Rightarrow> string" where
  "str StatePending = ''pending''"
| "str StateBuilding = ''building''"
| "str StateDeploying = ''deploying''"
| "str StateRunning = ''running''"
| "str StateDraining = ''draining''"
| "str StateStopped = ''stopped''"
| "str StateFailed = ''failed''"
| "str StateRolledBack = ''rolled_back''"

lemma str_inject [simp]: "str a = str b \<longleftrightarrow> a = b"
  by (cases a; cases b) simp_all

type_synonym StateMachine = "(string, string list) go_map"

definition NewStateMachine :: StateMachine where
  "NewStateMachine =
     [(str StatePending, [str StateBuilding, str StateFailed]),
      (str StateBuilding, [str StateDeploying, str StateRunning, str StateFailed]),
      (str StateDeploying, [str StateRunning, str StateFailed]),
      (str StateRunning, [str StateFailed, str StateRolledBack, str StateDraining]),
      (str StateDraining, [str StateStopped, str StateFailed, str StateRunning]),
      (str StateStopped, [str StateRunning]),
      (str StateFailed, []),
      (str StateRolledBack, [])]"

definition CanTransition :: "StateMachine \<Rightarrow> string \<Rightarrow> string \<Rightarrow> bool" where
  "CanTransition sm from to =
     (if from = to then False
      else case map_of sm from of None \<Rightarrow> False | Some next \<Rightarrow> List.member next to)"

definition ValidTransitions :: "StateMachine \<Rightarrow> string \<Rightarrow> string list" where
  "ValidTransitions sm from = (case map_of sm from of None \<Rightarrow> [] | Some next \<Rightarrow> next)"

definition IsValidState :: "StateMachine \<Rightarrow> string \<Rightarrow> bool" where
  "IsValidState sm status = (map_of sm status \<noteq> None)"

fun isOneOf :: "string \<Rightarrow> DeploymentState list \<Rightarrow> bool" where
  "isOneOf status [] = False"
| "isOneOf status (s # ss) = (status = str s \<or> isOneOf status ss)"

definition IsActive :: "string \<Rightarrow> bool" where
  "IsActive status = isOneOf status [StatePending, StateBuilding, StateDeploying, StateDraining, StateRunning]"

definition IsTerminal :: "string \<Rightarrow> bool" where
  "IsTerminal status = isOneOf status [StateRunning, StateStopped, StateFailed, StateRolledBack]"

definition IsInFlight :: "string \<Rightarrow> bool" where
  "IsInFlight status = isOneOf status [StatePending, StateBuilding, StateDeploying, StateDraining]"

definition InFlightStatuses :: "string list" where
  "InFlightStatuses = [str StatePending, str StateBuilding, str StateDeploying, str StateDraining]"

definition CanDelete :: "string \<Rightarrow> bool" where
  "CanDelete status = (\<not> IsInFlight status)"

section \<open>The table as a relation\<close>

declare str.simps [simp del]

lemma map_of_machine:
  "map_of NewStateMachine (str s) = Some (case s of
     StatePending \<Rightarrow> [str StateBuilding, str StateFailed]
   | StateBuilding \<Rightarrow> [str StateDeploying, str StateRunning, str StateFailed]
   | StateDeploying \<Rightarrow> [str StateRunning, str StateFailed]
   | StateRunning \<Rightarrow> [str StateFailed, str StateRolledBack, str StateDraining]
   | StateDraining \<Rightarrow> [str StateStopped, str StateFailed, str StateRunning]
   | StateStopped \<Rightarrow> [str StateRunning]
   | StateFailed \<Rightarrow> []
   | StateRolledBack \<Rightarrow> [])"
  by (cases s) (simp_all add: NewStateMachine_def)

lemma IsValidState_iff: "IsValidState NewStateMachine st \<longleftrightarrow> (\<exists>s. st = str s)"
proof
  assume "IsValidState NewStateMachine st"
  then obtain v where "map_of NewStateMachine st = Some v" by (auto simp: IsValidState_def)
  then have "(st, v) \<in> set NewStateMachine" by (rule map_of_SomeD)
  then show "\<exists>s. st = str s" by (auto simp: NewStateMachine_def)
next
  assume "\<exists>s. st = str s"
  then show "IsValidState NewStateMachine st" by (auto simp: IsValidState_def map_of_machine)
qed

lemma CanTransition_str:
  "CanTransition NewStateMachine (str a) (str b) \<longleftrightarrow> a \<noteq> b \<and> (case a of
     StatePending \<Rightarrow> b \<in> {StateBuilding, StateFailed}
   | StateBuilding \<Rightarrow> b \<in> {StateDeploying, StateRunning, StateFailed}
   | StateDeploying \<Rightarrow> b \<in> {StateRunning, StateFailed}
   | StateRunning \<Rightarrow> b \<in> {StateFailed, StateRolledBack, StateDraining}
   | StateDraining \<Rightarrow> b \<in> {StateStopped, StateFailed, StateRunning}
   | StateStopped \<Rightarrow> b = StateRunning
   | StateFailed \<Rightarrow> False
   | StateRolledBack \<Rightarrow> False)"
  by (cases a) (auto simp: CanTransition_def map_of_machine)

lemma CanTransition_states: "CanTransition NewStateMachine a b \<Longrightarrow> \<exists>s t. a = str s \<and> b = str t"
proof -
  assume c: "CanTransition NewStateMachine a b"
  then obtain v where v: "map_of NewStateMachine a = Some v" "b \<in> set v"
    by (auto simp: CanTransition_def split: if_splits option.splits)
  then have "(a, v) \<in> set NewStateMachine" by (simp add: map_of_SomeD)
  with v(2) show ?thesis by (auto simp: NewStateMachine_def)
qed

lemma IsInFlight_str: "IsInFlight (str s) \<longleftrightarrow> s \<in> {StatePending, StateBuilding, StateDeploying, StateDraining}"
  by (cases s) (simp_all add: IsInFlight_def)

lemma IsTerminal_str: "IsTerminal (str s) \<longleftrightarrow> s \<in> {StateRunning, StateStopped, StateFailed, StateRolledBack}"
  by (cases s) (simp_all add: IsTerminal_def)

lemma IsActive_str: "IsActive (str s) \<longleftrightarrow>
    s \<in> {StatePending, StateBuilding, StateDeploying, StateDraining, StateRunning}"
  by (cases s) (simp_all add: IsActive_def)

section \<open>Lifecycles\<close>

text \<open>A lifecycle: the statuses a deployment passes through, each step one the machine allows.\<close>

fun lifecycle :: "string \<Rightarrow> string list \<Rightarrow> bool" where
  "lifecycle s [] = True"
| "lifecycle s (t # ts) = (CanTransition NewStateMachine s t \<and> lifecycle t ts)"

lemma lifecycle_append: "lifecycle s (ts @ us) \<longleftrightarrow> lifecycle s ts \<and> lifecycle (last (s # ts)) us"
  by (induction ts arbitrary: s) auto

text \<open>The build states come in one order and are never entered again once left.\<close>

fun build_rank :: "DeploymentState \<Rightarrow> nat" where
  "build_rank StatePending = 0"
| "build_rank StateBuilding = 1"
| "build_rank StateDeploying = 2"
| "build_rank _ = 3"

lemma build_rank_le: "build_rank a \<le> 3"
  by (cases a) simp_all

lemma step_rank: "CanTransition NewStateMachine (str a) (str b) \<Longrightarrow>
    build_rank a < build_rank b \<or> build_rank a = 3 \<and> build_rank b = 3"
  unfolding CanTransition_str by (cases a) auto

lemma no_step_from: "s \<in> {StateFailed, StateRolledBack} \<Longrightarrow> lifecycle (str s) ts \<Longrightarrow> ts = []"
proof (cases ts)
  case (Cons t us)
  assume s: "s \<in> {StateFailed, StateRolledBack}" and "lifecycle (str s) ts"
  with Cons have c: "CanTransition NewStateMachine (str s) t" by simp
  then obtain u where "t = str u" using CanTransition_states by blast
  with c s show ?thesis by (auto simp: CanTransition_str)
qed simp

lemma lifecycle_rank: "lifecycle (str a) ts \<Longrightarrow> t \<in> set ts \<Longrightarrow>
    \<exists>b. t = str b \<and> (build_rank a < build_rank b \<or> build_rank a = 3 \<and> build_rank b = 3)"
proof (induction ts arbitrary: a)
  case Nil
  then show ?case by simp
next
  case (Cons u us)
  then have c: "CanTransition NewStateMachine (str a) u" by simp
  then obtain b where b: "u = str b" using CanTransition_states by blast
  with c step_rank have r: "build_rank a < build_rank b \<or> build_rank a = 3 \<and> build_rank b = 3" by blast
  show ?case
  proof (cases "t = u")
    case True
    with b r show ?thesis by blast
  next
    case False
    with Cons b obtain d where "t = str d" "build_rank b < build_rank d \<or> build_rank b = 3 \<and> build_rank d = 3"
      by auto
    with r show ?thesis by (intro exI [of _ d]) auto
  qed
qed

text \<open>
  Lifecycle of a deployment under the machine: once \<open>failed\<close> or \<open>rolled_back\<close> it never
  changes status again, and once it has left the build pipeline (running, draining, stopped) it
  never returns to \<open>pending\<close>, \<open>building\<close> or \<open>deploying\<close>.
\<close>

lemma lifecycle_terminal:
  "(lifecycle (str StateFailed) ts \<longrightarrow> ts = []) \<and> (lifecycle (str StateRolledBack) ts \<longrightarrow> ts = [])
   \<and> (a \<in> {StateRunning, StateDraining, StateStopped} \<and> lifecycle (str a) ts \<longrightarrow>
        set ts \<inter> {str StatePending, str StateBuilding, str StateDeploying} = {})
   \<and> (lifecycle (str StatePending) ts \<longrightarrow> count_list ts (str StateBuilding) \<le> 1)"
proof (intro conjI impI)
  show "ts = []" if "lifecycle (str StateFailed) ts"
    using no_step_from [OF _ that] by simp
  show "ts = []" if "lifecycle (str StateRolledBack) ts"
    using no_step_from [OF _ that] by simp
  show "set ts \<inter> {str StatePending, str StateBuilding, str StateDeploying} = {}"
    if l: "a \<in> {StateRunning, StateDraining, StateStopped} \<and> lifecycle (str a) ts"
  proof -
    have "t \<notin> {str StatePending, str StateBuilding, str StateDeploying}" if "t \<in> set ts" for t
    proof -
      from l have "lifecycle (str a) ts" "build_rank a = 3" by auto
      from lifecycle_rank [OF this(1) that] this(2) build_rank_le obtain b where "t = str b" "build_rank b = 3" by (metis not_less)
      then show ?thesis by (auto)
    qed
    then show ?thesis by blast
  qed
  show "count_list ts (str StateBuilding) \<le> 1" if l: "lifecycle (str StatePending) ts"
  proof (rule ccontr)
    assume "\<not> count_list ts (str StateBuilding) \<le> 1"
    then have "str StateBuilding \<in> set ts" by (metis count_notin le_numeral_extra(4) not_one_le_zero nle_le zero_le)
    then obtain us vs where ts: "ts = us @ str StateBuilding # vs" "str StateBuilding \<notin> set us"
      by (meson split_list_first)
    have "lifecycle (str StateBuilding) vs" using l ts by (simp add: lifecycle_append)
    from lifecycle_rank [OF this, of "str StateBuilding"] have "str StateBuilding \<notin> set vs"
      by (auto)
    with ts \<open>\<not> count_list ts (str StateBuilding) \<le> 1\<close> show False
      by (simp add: count_list_append count_notin)
  qed
qed

lemma lifecycle_terminal_witness:
  "lifecycle (str StatePending) [str StateBuilding, str StateDeploying, str StateRunning, str StateDraining]
   \<and> count_list [str StateBuilding, str StateDeploying, str StateRunning, str StateDraining] (str StateBuilding) \<le> 1
   \<and> lifecycle (str StateRunning) [str StateDraining, str StateStopped]
   \<and> set [str StateDraining, str StateStopped] \<inter> {str StatePending, str StateBuilding, str StateDeploying} = {}
   \<and> lifecycle (str StateFailed) []"
proof -
  have a: "lifecycle (str StatePending) [str StateBuilding, str StateDeploying, str StateRunning, str StateDraining]"
    and b: "lifecycle (str StateRunning) [str StateDraining, str StateStopped]"
    unfolding lifecycle.simps CanTransition_str by simp_all
  from a lifecycle_terminal [of "[str StateBuilding, str StateDeploying, str StateRunning, str StateDraining]" StateRunning]
  have c: "count_list [str StateBuilding, str StateDeploying, str StateRunning, str StateDraining] (str StateBuilding) \<le> 1"
    by meson
  from b lifecycle_terminal [of "[str StateDraining, str StateStopped]" StateRunning]
  have "set [str StateDraining, str StateStopped] \<inter> {str StatePending, str StateBuilding, str StateDeploying} = {}"
    by (meson insertI1)
  with a b c show ?thesis by simp
qed

end
