(* ===== verification/Deploy_Logs.thy ===== *)
theory Deploy_Logs
  imports BB_Prelude
begin

text \<open>
  Build and runtime logs of deployments.

  \<^item> \<^verbatim>\<open>components/deploy/logs.go\<close>: the in-memory buffers (\<open>logDeployments\<close>), at most 500 lines per
    deployment, with an eviction queue of deployments. A Go map that is nil and one that is empty
    are both the empty map, a nil slice and an empty one both the empty list. Indexing an empty
    slice panics: \<open>None\<close>.
  \<^item> \<^verbatim>\<open>components/deploy/log_stream.go\<close>: the fan-out hub of one deployment (\<open>logHub\<close>). A Go channel
    of capacity 256 is a record of its queue, its closed flag and, for the statements only, what the
    reader has taken out so far and how many lines a full queue has cost it. Sending on a closed
    channel and closing one twice panic: \<open>None\<close>.
\<close>

section \<open>Buffers\<close>

definition maxDeployLogLines :: nat where
  "maxDeployLogLines = 500"

definition maxDeployLogDeployments :: nat where
  "maxDeployLogDeployments = 100"

record logDeployments =
  ld_buffer :: "(string, string list) go_map"
  ld_order :: "string list"

definition ld_empty :: logDeployments where
  "ld_empty = \<lparr> ld_buffer = [], ld_order = [] \<rparr>"

text \<open>The eviction loop of \<open>init\<close>; \<open>l.order[0]\<close> on an empty queue panics.\<close>

fun evict_loop :: "string \<Rightarrow> (string, string list) go_map \<Rightarrow> string list
    \<Rightarrow> ((string, string list) go_map \<times> string list) option" where
  "evict_loop did buf [] = (if length buf \<ge> maxDeployLogDeployments then None else Some (buf, []))"
| "evict_loop did buf (victim # order) =
     (if length buf \<ge> maxDeployLogDeployments
      then (if victim = did then Some (buf, victim # order)
            else evict_loop did (map_del victim buf) order)
      else Some (buf, victim # order))"

definition logs_init :: "logDeployments \<Rightarrow> string \<Rightarrow> logDeployments option" where
  "logs_init l did = (case evict_loop did (ld_buffer l) (ld_order l) of
     None \<Rightarrow> None
   | Some (buf, order) \<Rightarrow> Some \<lparr> ld_buffer = map_put did [] buf, ld_order = order @ [did] \<rparr>)"

definition buffer_of :: "logDeployments \<Rightarrow> string \<Rightarrow> string list" where
  "buffer_of l did = (case map_of (ld_buffer l) did of None \<Rightarrow> [] | Some b \<Rightarrow> b)"

definition logs_append :: "logDeployments \<Rightarrow> string \<Rightarrow> string \<Rightarrow> logDeployments" where
  "logs_append l did line =
     (let buf = buffer_of l did @ [line];
          buf' = (if length buf > maxDeployLogLines then drop (length buf - maxDeployLogLines) buf else buf)
      in l\<lparr> ld_buffer := map_put did buf' (ld_buffer l) \<rparr>)"

definition logs_get :: "logDeployments \<Rightarrow> string \<Rightarrow> string list" where
  "logs_get l did = buffer_of l did"

definition logs_remove :: "logDeployments \<Rightarrow> string \<Rightarrow> logDeployments" where
  "logs_remove l did = \<lparr> ld_buffer = map_del did (ld_buffer l), ld_order = remove1 did (ld_order l) \<rparr>"

section \<open>Runs of the buffer operations\<close>

datatype logs_op = LInit string | LAppend string string | LRemove string

fun logs_run :: "logs_op list \<Rightarrow> logDeployments \<Rightarrow> logDeployments option" where
  "logs_run [] l = Some l"
| "logs_run (LInit did # ops) l = (case logs_init l did of None \<Rightarrow> None | Some l' \<Rightarrow> logs_run ops l')"
| "logs_run (LAppend did line # ops) l = logs_run ops (logs_append l did line)"
| "logs_run (LRemove did # ops) l = logs_run ops (logs_remove l did)"

definition wf_logs :: "logDeployments \<Rightarrow> bool" where
  "wf_logs l = (wf_map (ld_buffer l) \<and> (\<forall>(did, b) \<in> set (ld_buffer l). length b \<le> maxDeployLogLines))"

lemma wf_logs_empty [simp]: "wf_logs ld_empty"
  by (simp add: wf_logs_def ld_empty_def)

lemma evict_loop_keeps: "evict_loop did buf order = Some (buf', order') \<Longrightarrow> wf_map buf \<Longrightarrow>
    wf_map buf' \<and> set buf' \<subseteq> set buf"
proof (induction did buf order rule: evict_loop.induct)
  case (2 did buf victim order)
  then show ?case using set_map_del [of victim buf] by (fastforce split: if_splits)
qed (auto split: if_splits)

lemma wf_logs_init: "wf_logs l \<Longrightarrow> logs_init l did = Some l' \<Longrightarrow> wf_logs l'"
  using set_map_put [of did "[]"]
  by (fastforce simp: logs_init_def wf_logs_def split: option.splits dest: evict_loop_keeps)

lemma buffer_of_le: "wf_logs l \<Longrightarrow> length (buffer_of l did) \<le> maxDeployLogLines"
  by (auto simp: buffer_of_def wf_logs_def split: option.splits dest!: map_of_SomeD)

lemma wf_logs_append: "wf_logs l \<Longrightarrow> wf_logs (logs_append l did line)"
  using set_map_put [of did] by (fastforce simp: logs_append_def wf_logs_def Let_def)

lemma wf_logs_remove: "wf_logs l \<Longrightarrow> wf_logs (logs_remove l did)"
  using set_map_del by (fastforce simp: logs_remove_def wf_logs_def)

lemma wf_logs_run: "logs_run ops l = Some l' \<Longrightarrow> wf_logs l \<Longrightarrow> wf_logs l'"
  by (induction ops l rule: logs_run.induct)
    (auto simp: wf_logs_append wf_logs_remove split: option.splits intro: wf_logs_init)

section \<open>When \<open>init\<close> panics\<close>

text \<open>The deployments that hold a buffer but stand in no eviction queue.\<close>

definition untracked :: "(string, string list) go_map \<Rightarrow> string list \<Rightarrow> nat" where
  "untracked buf order = length (filter (\<lambda>p. fst p \<notin> set order) buf)"

lemma untracked_le: "untracked buf order \<le> length buf"
  by (simp add: untracked_def)

lemma untracked_Cons: "untracked buf (v # order) = untracked (map_del v buf) order"
  by (simp add: untracked_def map_del_def conj_commute)

lemma evict_loop_None_iff: "evict_loop did buf order = None \<longleftrightarrow>
    did \<notin> set order \<and> untracked buf order \<ge> maxDeployLogDeployments"
proof (induction order arbitrary: buf)
  case Nil
  then show ?case by (simp add: untracked_def)
next
  case (Cons v order)
  show ?case
  proof (cases "length buf \<ge> maxDeployLogDeployments")
    case True
    then show ?thesis using Cons by (auto simp: untracked_Cons)
  next
    case False
    then show ?thesis using untracked_le [of buf "v # order"] by simp
  qed
qed

lemma evict_loop_bound: "evict_loop did buf order = Some (buf', order') \<Longrightarrow> did \<notin> set order \<Longrightarrow>
    length buf' < maxDeployLogDeployments"
  by (induction did buf order rule: evict_loop.induct) (auto split: if_splits)

lemma length_map_put_le: "length (map_put k v m) \<le> Suc (length m)"
  by (induction m) auto

text \<open>
  Starting the log of a deployment. The eviction loop indexes an empty queue, and panics, exactly
  when the deployment is not queued and at least 100 buffers belong to deployments outside the queue.
  Otherwise it ends; for a deployment that is not queued at most 100 buffers remain, its own is
  empty, and the deployment is queued last.
\<close>

lemma logs_init_outcome:
  "(logs_init l did = None \<longleftrightarrow>
      did \<notin> set (ld_order l) \<and> untracked (ld_buffer l) (ld_order l) \<ge> maxDeployLogDeployments)
   \<and> (did \<notin> set (ld_order l) \<and> untracked (ld_buffer l) (ld_order l) < maxDeployLogDeployments \<longrightarrow>
        (\<exists>l'. logs_init l did = Some l' \<and> length (ld_buffer l') \<le> maxDeployLogDeployments
           \<and> logs_get l' did = [] \<and> last (ld_order l') = did))"
proof (intro conjI impI)
  show none: "logs_init l did = None \<longleftrightarrow>
      did \<notin> set (ld_order l) \<and> untracked (ld_buffer l) (ld_order l) \<ge> maxDeployLogDeployments"
    by (auto simp: logs_init_def evict_loop_None_iff [symmetric] split: option.splits)
  assume a: "did \<notin> set (ld_order l) \<and> untracked (ld_buffer l) (ld_order l) < maxDeployLogDeployments"
  then obtain buf' order' where e: "evict_loop did (ld_buffer l) (ld_order l) = Some (buf', order')"
    using evict_loop_None_iff [of did "ld_buffer l" "ld_order l"] by fastforce
  with a evict_loop_bound have "length buf' < maxDeployLogDeployments" by blast
  with e show "\<exists>l'. logs_init l did = Some l' \<and> length (ld_buffer l') \<le> maxDeployLogDeployments
      \<and> logs_get l' did = [] \<and> last (ld_order l') = did"
    using length_map_put_le [of did "[]" buf'] by (simp add: logs_init_def logs_get_def buffer_of_def)
qed

lemma logs_init_outcome_witness:
  "logs_init ld_empty ''d1'' \<noteq> None
   \<and> (\<exists>l'. logs_init ld_empty ''d1'' = Some l' \<and> length (ld_buffer l') \<le> maxDeployLogDeployments
        \<and> logs_get l' ''d1'' = [] \<and> last (ld_order l') = ''d1'')"
  using logs_init_outcome [of ld_empty "''d1''"]
  by (simp add: ld_empty_def untracked_def maxDeployLogDeployments_def)

section \<open>Retention\<close>

definition lastn :: "nat \<Rightarrow> 'a list \<Rightarrow> 'a list" where
  "lastn n xs = drop (length xs - n) xs"

lemma lastn_snoc: "lastn n (lastn n xs @ [x]) = lastn n (xs @ [x])"
  by (cases n; cases "length xs < n") (simp_all add: lastn_def Suc_diff_Suc not_less Suc_le_eq)

lemma length_lastn [simp]: "length (lastn n xs) \<le> n"
  by (simp add: lastn_def)

lemma lastn_append: "lastn n (lastn n xs @ ys) = lastn n (xs @ ys)"
proof (induction ys rule: rev_induct)
  case Nil
  then show ?case by (simp add: lastn_def)
next
  case (snoc y ys)
  then show ?case using lastn_snoc [of n "lastn n xs @ ys" y] lastn_snoc [of n "xs @ ys" y] by simp
qed

lemma lastn_short: "length xs \<le> n \<Longrightarrow> lastn n xs = xs"
  by (simp add: lastn_def)

text \<open>The lines a run appends to one deployment.\<close>

fun lines_for :: "string \<Rightarrow> logs_op list \<Rightarrow> string list" where
  "lines_for did [] = []"
| "lines_for did (LAppend i line # ops) = (if i = did then line # lines_for did ops else lines_for did ops)"
| "lines_for did (_ # ops) = lines_for did ops"

fun only_appends :: "logs_op list \<Rightarrow> bool" where
  "only_appends [] = True"
| "only_appends (LAppend i line # ops) = only_appends ops"
| "only_appends (_ # ops) = False"

lemma buffer_of_append: "buffer_of (logs_append l i line) did =
    (if i = did then lastn maxDeployLogLines (buffer_of l did @ [line]) else buffer_of l did)"
  by (simp add: logs_append_def buffer_of_def lastn_def Let_def)

lemma buffer_of_run: "only_appends ops \<Longrightarrow> length (buffer_of l did) \<le> maxDeployLogLines \<Longrightarrow>
    \<exists>l'. logs_run ops l = Some l' \<and> buffer_of l' did = lastn maxDeployLogLines (buffer_of l did @ lines_for did ops)"
proof (induction ops arbitrary: l rule: only_appends.induct)
  case 1
  then show ?case by (simp add: lastn_short)
next
  case (2 i line ops)
  have le: "length (buffer_of (logs_append l i line) did) \<le> maxDeployLogLines"
    using 2(3) by (simp add: buffer_of_append)
  from 2(1) [OF _ le] 2(2) show ?case
    by (cases "i = did") (auto simp: buffer_of_append lastn_append)
qed simp_all

text \<open>
  Retention. After a deployment's log is started and any interleaving of appends to it and to
  other deployments, reading the log returns exactly the last 500 lines appended to it, in order; and
  in every run from the empty structure no buffer holds more than 500 lines.
\<close>

lemma logs_retention:
  assumes "logs_run pre ld_empty = Some l" and "logs_init l did = Some l0" and "only_appends ops"
  shows "\<exists>l'. logs_run (pre @ LInit did # ops) ld_empty = Some l'
    \<and> logs_get l' did = lastn maxDeployLogLines (lines_for did ops)
    \<and> (\<forall>i. length (logs_get l' i) \<le> maxDeployLogLines)"
proof -
  have app: "logs_run (as @ bs) s = (case logs_run as s of None \<Rightarrow> None | Some s' \<Rightarrow> logs_run bs s')" for as bs s
    by (induction as s rule: logs_run.induct) (auto split: option.splits)
  have b0: "buffer_of l0 did = []"
    using assms(2) by (auto simp: logs_init_def buffer_of_def split: option.splits)
  then obtain l' where l': "logs_run ops l0 = Some l'" "buffer_of l' did = lastn maxDeployLogLines (lines_for did ops)"
    using buffer_of_run [OF assms(3), of l0 did] by auto
  have "logs_run (pre @ LInit did # ops) ld_empty = Some l'" using assms(1,2) l'(1) by (simp add: app)
  moreover from wf_logs_run [OF this] have "\<forall>i. length (logs_get l' i) \<le> maxDeployLogLines"
    by (simp add: buffer_of_le logs_get_def)
  ultimately show ?thesis using l'(2) by (auto simp: logs_get_def)
qed

lemma logs_retention_witness:
  "\<exists>l'. logs_run ([] @ LInit ''d1'' # [LAppend ''d1'' ''a'', LAppend ''d2'' ''b'', LAppend ''d1'' ''c'']) ld_empty = Some l'
    \<and> logs_get l' ''d1'' = [''a'', ''c''] \<and> (\<forall>i. length (logs_get l' i) \<le> maxDeployLogLines)"
proof -
  have "lastn maxDeployLogLines [''a'', ''c''] = [''a'', ''c'']" by (simp add: lastn_def maxDeployLogLines_def)
  then show ?thesis
    using logs_retention [of "[]" ld_empty "''d1''" "\<lparr> ld_buffer = [(''d1'', [])], ld_order = [''d1''] \<rparr>"
        "[LAppend ''d1'' ''a'', LAppend ''d2'' ''b'', LAppend ''d1'' ''c'']"]
    by (simp add: logs_init_def ld_empty_def maxDeployLogDeployments_def)
qed

section \<open>The fan-out hub\<close>

text \<open>A buffered Go channel; \<open>ch_got\<close> and \<open>ch_lost\<close> record what happened to it.\<close>

record chan =
  ch_q :: "string list"
  ch_closed :: bool
  ch_got :: "string list"
  ch_lost :: nat

definition chan_cap :: nat where
  "chan_cap = 256"

definition make_chan :: chan where
  "make_chan = \<lparr> ch_q = [], ch_closed = False, ch_got = [], ch_lost = 0 \<rparr>"

text \<open>\<open>select { case ch <- line: default: }\<close>: a send that drops the line when the queue is full.\<close>

definition try_send :: "string \<Rightarrow> chan \<Rightarrow> chan option" where
  "try_send line c =
     (if ch_closed c then None
      else if length (ch_q c) < chan_cap then Some (c\<lparr> ch_q := ch_q c @ [line] \<rparr>)
      else Some (c\<lparr> ch_lost := ch_lost c + 1 \<rparr>))"

definition close_chan :: "chan \<Rightarrow> chan option" where
  "close_chan c = (if ch_closed c then None else Some (c\<lparr> ch_closed := True \<rparr>))"

record logHub =
  hist :: "string list"
  subs :: "nat list"
  closed_hub :: bool
  chans :: "chan list"

definition new_hub :: logHub where
  "new_hub = \<lparr> hist = [], subs = [], closed_hub = False, chans = [] \<rparr>"

fun send_all :: "string list \<Rightarrow> chan \<Rightarrow> chan option" where
  "send_all [] c = Some c"
| "send_all (l # ls) c = (case try_send l c of None \<Rightarrow> None | Some c' \<Rightarrow> send_all ls c')"

text \<open>The new channel is the last one of \<open>chans\<close>; a finished hub hands it out closed.\<close>

definition subscribe :: "logHub \<Rightarrow> logHub option" where
  "subscribe h = (case send_all (hist h) make_chan of
     None \<Rightarrow> None
   | Some c \<Rightarrow>
       (if closed_hub h
        then map_option (\<lambda>c'. h\<lparr> chans := chans h @ [c'] \<rparr>) (close_chan c)
        else Some (h\<lparr> subs := subs h @ [length (chans h)], chans := chans h @ [c] \<rparr>)))"

definition unsub :: "nat \<Rightarrow> logHub \<Rightarrow> logHub" where
  "unsub ch h = h\<lparr> subs := remove1 ch (subs h) \<rparr>"

text \<open>One channel operation on every subscriber, in order.\<close>

fun on_subs :: "(chan \<Rightarrow> chan option) \<Rightarrow> nat list \<Rightarrow> chan list \<Rightarrow> chan list option" where
  "on_subs f [] cs = Some cs"
| "on_subs f (s # ss) cs = (case f (cs ! s) of None \<Rightarrow> None | Some c \<Rightarrow> on_subs f ss (cs[s := c]))"

definition broadcast :: "string \<Rightarrow> logHub \<Rightarrow> logHub option" where
  "broadcast line h =
     (if closed_hub h then Some h
      else map_option (\<lambda>cs. h\<lparr> hist := hist h @ [line], chans := cs \<rparr>)
             (on_subs (try_send line) (subs h) (chans h)))"

definition close_hub :: "logHub \<Rightarrow> logHub option" where
  "close_hub h =
     (if closed_hub h then Some h
      else map_option (\<lambda>cs. h\<lparr> closed_hub := True, subs := [], chans := cs \<rparr>)
             (on_subs close_chan (subs h) (chans h)))"

text \<open>A reader takes the first line out of its channel (nothing happens on an empty one).\<close>

definition recv :: "nat \<Rightarrow> logHub \<Rightarrow> logHub" where
  "recv ch h =
     (if ch < length (chans h)
      then (case ch_q (chans h ! ch) of
              [] \<Rightarrow> h
            | l # q \<Rightarrow> h\<lparr> chans := (chans h)[ch := (chans h ! ch)\<lparr> ch_q := q, ch_got := ch_got (chans h ! ch) @ [l] \<rparr>] \<rparr>)
      else h)"

datatype hub_op = HSubscribe | HUnsub nat | HBroadcast string | HClose | HRecv nat

fun hub_step :: "hub_op \<Rightarrow> logHub \<Rightarrow> logHub option" where
  "hub_step HSubscribe h = subscribe h"
| "hub_step (HUnsub ch) h = Some (unsub ch h)"
| "hub_step (HBroadcast line) h = broadcast line h"
| "hub_step HClose h = close_hub h"
| "hub_step (HRecv ch) h = Some (recv ch h)"

fun hub_run :: "hub_op list \<Rightarrow> logHub \<Rightarrow> logHub option" where
  "hub_run [] h = Some h"
| "hub_run (x # xs) h = (case hub_step x h of None \<Rightarrow> None | Some h' \<Rightarrow> hub_run xs h')"

definition seen :: "chan \<Rightarrow> string list" where
  "seen c = ch_got c @ ch_q c"

definition chan_ok :: "string list \<Rightarrow> chan \<Rightarrow> bool" where
  "chan_ok hs c = (length (ch_q c) \<le> chan_cap \<and> subseq (seen c) hs \<and> (ch_lost c = 0 \<longrightarrow> prefix (seen c) hs)
     \<and> length (seen c) + ch_lost c \<le> length hs)"

definition full_ok :: "string list \<Rightarrow> chan \<Rightarrow> bool" where
  "full_ok hs c = (length (seen c) + ch_lost c = length hs)"

definition chan_inv :: "bool \<Rightarrow> string list \<Rightarrow> bool \<Rightarrow> chan \<Rightarrow> bool" where
  "chan_inv fin hs sub c = (chan_ok hs c \<and> (sub \<longrightarrow> \<not> ch_closed c) \<and> (ch_closed c \<longrightarrow> fin)
     \<and> (sub \<or> ch_closed c \<longrightarrow> full_ok hs c))"

definition hub_inv :: "logHub \<Rightarrow> bool" where
  "hub_inv h = (distinct (subs h) \<and> (\<forall>s \<in> set (subs h). s < length (chans h))
     \<and> (closed_hub h \<longrightarrow> subs h = [])
     \<and> (\<forall>i < length (chans h). chan_inv (closed_hub h) (hist h) (i \<in> set (subs h)) (chans h ! i)))"

lemma hub_invD:
  assumes "hub_inv h"
  shows "distinct (subs h)" "\<And>s. s \<in> set (subs h) \<Longrightarrow> s < length (chans h)" "closed_hub h \<Longrightarrow> subs h = []"
    "\<And>i. i < length (chans h) \<Longrightarrow> chan_inv (closed_hub h) (hist h) (i \<in> set (subs h)) (chans h ! i)"
    "\<And>s. s \<in> set (subs h) \<Longrightarrow> chan_inv (closed_hub h) (hist h) True (chans h ! s)"
  using assms unfolding hub_inv_def by auto

lemma hub_inv_new [simp]: "hub_inv new_hub"
  by (simp add: hub_inv_def new_hub_def)

lemma chan_ok_mono: "chan_ok hs c \<Longrightarrow> chan_ok (hs @ ls) c"
  by (auto simp: chan_ok_def intro: subseq_rev_drop_many)

lemma try_send_ok: "chan_ok hs c \<Longrightarrow> full_ok hs c \<Longrightarrow> \<not> ch_closed c \<Longrightarrow>
    \<exists>c'. try_send l c = Some c' \<and> chan_ok (hs @ [l]) c' \<and> full_ok (hs @ [l]) c' \<and> \<not> ch_closed c'"
proof -
  assume c: "chan_ok hs c" and f: "full_ok hs c" and o: "\<not> ch_closed c"
  show ?thesis
  proof (cases "length (ch_q c) < chan_cap")
    case True
    have eq: "ch_lost c = 0 \<Longrightarrow> seen c = hs"
      using c f by (auto simp: chan_ok_def full_ok_def elim!: prefixE)
    have "subseq (seen c @ [l]) (hs @ [l])" using c by (simp add: chan_ok_def list_emb_append_mono)
    with True c f o eq show ?thesis
      by (auto simp: try_send_def chan_ok_def full_ok_def seen_def)
  next
    case False
    with c f o show ?thesis
      by (auto simp: try_send_def chan_ok_def full_ok_def seen_def intro: list_emb_append2)
  qed
qed

lemma send_all_ok: "chan_ok hs c \<Longrightarrow> full_ok hs c \<Longrightarrow> \<not> ch_closed c \<Longrightarrow>
    \<exists>c'. send_all ls c = Some c' \<and> chan_ok (hs @ ls) c' \<and> full_ok (hs @ ls) c' \<and> \<not> ch_closed c'"
proof (induction ls arbitrary: hs c)
  case (Cons l ls)
  from try_send_ok [OF Cons.prems, of l] obtain c1 where c1: "try_send l c = Some c1"
    "chan_ok (hs @ [l]) c1" "full_ok (hs @ [l]) c1" "\<not> ch_closed c1" by blast
  from Cons.IH [OF c1(2-4)] c1(1) show ?case by simp
qed simp

lemma on_subs_ok: "distinct ss \<Longrightarrow> \<forall>s \<in> set ss. s < length cs \<and> f (cs ! s) \<noteq> None \<Longrightarrow>
    \<exists>cs'. on_subs f ss cs = Some cs' \<and> length cs' = length cs \<and>
      (\<forall>i < length cs. if i \<in> set ss then f (cs ! i) = Some (cs' ! i) else cs' ! i = cs ! i)"
proof (induction ss arbitrary: cs)
  case (Cons s ss)
  then obtain c where c: "f (cs ! s) = Some c" by auto
  have "\<exists>cs'. on_subs f ss (cs[s := c]) = Some cs' \<and> length cs' = length (cs[s := c]) \<and>
      (\<forall>i < length (cs[s := c]). if i \<in> set ss then f (cs[s := c] ! i) = Some (cs' ! i)
        else cs' ! i = cs[s := c] ! i)"
    by (rule Cons.IH) (use Cons.prems in \<open>auto simp: nth_list_update\<close>)
  with c Cons.prems show ?case by (fastforce simp: nth_list_update split: if_splits)
qed simp

lemma hub_inv_subscribe: "hub_inv h \<Longrightarrow> \<exists>h'. subscribe h = Some h' \<and> hub_inv h'"
proof -
  assume h: "hub_inv h"
  have "chan_ok [] make_chan" "full_ok [] make_chan" "\<not> ch_closed make_chan"
    by (simp_all add: chan_ok_def full_ok_def make_chan_def seen_def)
  from send_all_ok [OF this, of "hist h"] obtain c where c: "send_all (hist h) make_chan = Some c"
    "chan_ok (hist h) c" "full_ok (hist h) c" "\<not> ch_closed c" by auto
  have fresh: "length (chans h) \<notin> set (subs h)" using hub_invD(2) [OF h] by blast
  have closed: "chan_ok (hist h) (c\<lparr> ch_closed := True \<rparr>)" "full_ok (hist h) (c\<lparr> ch_closed := True \<rparr>)"
    using c by (simp_all add: chan_ok_def full_ok_def seen_def)
  show ?thesis
  proof (cases "closed_hub h")
    case True
    with h c(1,4) closed show ?thesis
      by (auto simp: subscribe_def close_chan_def hub_inv_def nth_append chan_inv_def less_Suc_eq)
  next
    case False
    have "chan_inv False (hist h) True c" using c by (simp add: chan_inv_def)
    with h c(1) fresh False show ?thesis
      by (auto simp: subscribe_def hub_inv_def nth_append less_Suc_eq)
  qed
qed

lemma chan_inv_other: "chan_inv False hs False c \<Longrightarrow> chan_inv False (hs @ ls) False c"
  by (auto simp: chan_inv_def intro: chan_ok_mono)

lemma try_send_inv: "chan_inv False hs True c \<Longrightarrow>
    \<exists>c'. try_send l c = Some c' \<and> chan_inv False (hs @ [l]) True c'"
  using try_send_ok [of hs c l] by (auto simp: chan_inv_def)

lemma hub_inv_broadcast: "hub_inv h \<Longrightarrow> \<exists>h'. broadcast line h = Some h' \<and> hub_inv h'"
proof (cases "closed_hub h")
  case False
  assume h: "hub_inv h"
  from False have open_hub: "closed_hub h = False" by simp
  note inv = hub_invD [OF h, unfolded open_hub]
  have "\<exists>cs'. on_subs (try_send line) (subs h) (chans h) = Some cs' \<and> length cs' = length (chans h) \<and>
      (\<forall>i < length (chans h). if i \<in> set (subs h) then try_send line (chans h ! i) = Some (cs' ! i)
         else cs' ! i = chans h ! i)"
    by (rule on_subs_ok) (use inv(1,2) try_send_inv [OF inv(5)] in fastforce)+
  then obtain cs' where cs': "on_subs (try_send line) (subs h) (chans h) = Some cs'" "length cs' = length (chans h)"
    "\<And>i. i < length (chans h) \<Longrightarrow> i \<in> set (subs h) \<Longrightarrow> try_send line (chans h ! i) = Some (cs' ! i)"
    "\<And>i. i < length (chans h) \<Longrightarrow> i \<notin> set (subs h) \<Longrightarrow> cs' ! i = chans h ! i"
    by meson
  have "chan_inv False (hist h @ [line]) (i \<in> set (subs h)) (cs' ! i)" if i: "i < length (chans h)" for i
  proof (cases "i \<in> set (subs h)")
    case True
    from try_send_inv [OF inv(5) [OF True], of line] cs'(3) [OF i True] True show ?thesis by auto
  next
    case False
    with inv(4) [OF i] cs'(4) [OF i False] show ?thesis by (simp add: chan_inv_other)
  qed
  then have "hub_inv (h\<lparr> hist := hist h @ [line], chans := cs' \<rparr>)"
    unfolding hub_inv_def using inv(1,2) cs'(2) False by simp
  with cs'(1) False show ?thesis by (auto simp: broadcast_def)
qed (auto simp: broadcast_def)

lemma hub_inv_close: "hub_inv h \<Longrightarrow> \<exists>h'. close_hub h = Some h' \<and> hub_inv h'"
proof (cases "closed_hub h")
  case False
  assume h: "hub_inv h"
  from False have open_hub: "closed_hub h = False" by simp
  note inv = hub_invD [OF h, unfolded open_hub]
  have "close_chan (chans h ! i) = Some ((chans h ! i)\<lparr> ch_closed := True \<rparr>)" if "i \<in> set (subs h)" for i
    using inv(5) [OF that] by (simp add: close_chan_def chan_inv_def)
  note cl = this
  have "\<exists>cs'. on_subs close_chan (subs h) (chans h) = Some cs' \<and> length cs' = length (chans h) \<and>
      (\<forall>i < length (chans h). if i \<in> set (subs h) then close_chan (chans h ! i) = Some (cs' ! i)
         else cs' ! i = chans h ! i)"
    by (rule on_subs_ok) (use inv(1,2) cl in auto)
  then obtain cs' where cs': "on_subs close_chan (subs h) (chans h) = Some cs'" "length cs' = length (chans h)"
    "\<And>i. i < length (chans h) \<Longrightarrow> i \<in> set (subs h) \<Longrightarrow> close_chan (chans h ! i) = Some (cs' ! i)"
    "\<And>i. i < length (chans h) \<Longrightarrow> i \<notin> set (subs h) \<Longrightarrow> cs' ! i = chans h ! i"
    by meson
  have "chan_inv True (hist h) False (cs' ! i)" if i: "i < length (chans h)" for i
  proof (cases "i \<in> set (subs h)")
    case True
    from cl [OF True] cs'(3) [OF i True] inv(5) [OF True] show ?thesis
      by (auto simp: chan_inv_def chan_ok_def full_ok_def seen_def)
  next
    case False
    with inv(4) [OF i] cs'(4) [OF i False] show ?thesis by (simp add: chan_inv_def)
  qed
  then have "hub_inv (h\<lparr> closed_hub := True, subs := [], chans := cs' \<rparr>)"
    unfolding hub_inv_def using cs'(2) by simp
  with cs'(1) False show ?thesis by (auto simp: close_hub_def)
qed (auto simp: close_hub_def)

lemma chan_inv_recv: "chan_inv fin hs sub c \<Longrightarrow> ch_q c = l # q \<Longrightarrow>
    chan_inv fin hs sub (c\<lparr> ch_q := q, ch_got := ch_got c @ [l] \<rparr>)"
  by (simp add: chan_inv_def chan_ok_def full_ok_def seen_def)

lemma hub_inv_recv: "hub_inv h \<Longrightarrow> hub_inv (recv ch h)"
  by (auto simp: recv_def hub_inv_def nth_list_update chan_inv_recv split: list.splits)

lemma hub_inv_unsub: "hub_inv h \<Longrightarrow> hub_inv (unsub ch h)"
proof -
  assume h: "hub_inv h"
  have weak: "chan_inv fin hs sub c \<Longrightarrow> (sub' \<Longrightarrow> sub) \<Longrightarrow> chan_inv fin hs sub' c" for fin hs sub sub' c
    by (auto simp: chan_inv_def)
  have "chan_inv (closed_hub h) (hist h) (i \<in> set (remove1 ch (subs h))) (chans h ! i)"
    if "i < length (chans h)" for i
    by (rule weak [OF hub_invD(4) [OF h that]]) (use hub_invD(1) [OF h] in auto)
  with hub_invD(1-3) [OF h] show ?thesis by (auto simp: hub_inv_def unsub_def)
qed

lemma hub_inv_run: "hub_inv h \<Longrightarrow> \<exists>h'. hub_run xs h = Some h' \<and> hub_inv h'"
proof (induction xs arbitrary: h)
  case (Cons x xs)
  have "\<exists>h'. hub_step x h = Some h' \<and> hub_inv h'"
    using Cons.prems hub_inv_subscribe hub_inv_broadcast hub_inv_close hub_inv_recv hub_inv_unsub
    by (cases x) auto
  with Cons.IH show ?case by fastforce
qed simp

text \<open>
  The log hub. No interleaving of subscriptions, unsubscriptions, broadcasts, closing and reads
  panics (no send on a closed channel, no channel closed twice). What a subscriber reads is always a
  subsequence of the history in order; a subscriber whose queue was never full reads a prefix of it,
  and when it is still subscribed, or its channel was closed, the whole history without gaps: no line
  falls between the replayed history and the live lines. At any time the history lines it has
  neither read nor queued are exactly the ones a full queue dropped.
\<close>

lemma hub_delivery:
  "\<exists>h. hub_run ops new_hub = Some h \<and>
     (\<forall>i < length (chans h). let c = chans h ! i in
        subseq (seen c) (hist h) \<and> length (ch_q c) \<le> chan_cap
        \<and> (ch_lost c = 0 \<longrightarrow> prefix (seen c) (hist h))
        \<and> (i \<in> set (subs h) \<or> ch_closed c \<longrightarrow> length (hist h) = length (seen c) + ch_lost c
             \<and> (ch_lost c = 0 \<longrightarrow> seen c = hist h)))"
proof -
  obtain h where h: "hub_run ops new_hub = Some h" "hub_inv h" using hub_inv_run [OF hub_inv_new] by blast
  have "subseq (seen c) (hist h) \<and> length (ch_q c) \<le> chan_cap \<and> (ch_lost c = 0 \<longrightarrow> prefix (seen c) (hist h))
        \<and> (i \<in> set (subs h) \<or> ch_closed c \<longrightarrow> length (hist h) = length (seen c) + ch_lost c
             \<and> (ch_lost c = 0 \<longrightarrow> seen c = hist h))"
    if i: "i < length (chans h)" "c = chans h ! i" for i c
  proof -
    have ci: "chan_inv (closed_hub h) (hist h) (i \<in> set (subs h)) c" using hub_invD(4) [OF h(2)] i by simp
    then have ok: "chan_ok (hist h) c" and full: "i \<in> set (subs h) \<or> ch_closed c \<Longrightarrow> full_ok (hist h) c"
      by (auto simp: chan_inv_def)
    have "i \<in> set (subs h) \<or> ch_closed c \<Longrightarrow> ch_lost c = 0 \<Longrightarrow> seen c = hist h"
      using ok full by (auto simp: chan_ok_def full_ok_def elim!: prefixE)
    with ok full show ?thesis by (auto simp: chan_ok_def full_ok_def)
  qed
  with h(1) show ?thesis by (auto simp: Let_def)
qed

lemma hub_delivery_witness:
  "\<exists>h. hub_run [HBroadcast ''a'', HSubscribe, HBroadcast ''b'', HRecv 0, HClose] new_hub = Some h
     \<and> length (chans h) = 1 \<and> ch_closed (chans h ! 0) \<and> ch_lost (chans h ! 0) = 0 \<and> seen (chans h ! 0) = hist h"
proof -
  obtain h where h: "hub_run [HBroadcast ''a'', HSubscribe, HBroadcast ''b'', HRecv 0, HClose] new_hub = Some h"
    and i: "\<forall>i < length (chans h). let c = chans h ! i in
        subseq (seen c) (hist h) \<and> length (ch_q c) \<le> chan_cap
        \<and> (ch_lost c = 0 \<longrightarrow> prefix (seen c) (hist h))
        \<and> (i \<in> set (subs h) \<or> ch_closed c \<longrightarrow> length (hist h) = length (seen c) + ch_lost c
             \<and> (ch_lost c = 0 \<longrightarrow> seen c = hist h))"
    using hub_delivery [of "[HBroadcast ''a'', HSubscribe, HBroadcast ''b'', HRecv 0, HClose]"] by blast
  from h have "length (chans h) = 1 \<and> ch_closed (chans h ! 0) \<and> ch_lost (chans h ! 0) = 0"
    by (auto simp: new_hub_def broadcast_def subscribe_def make_chan_def try_send_def chan_cap_def
        recv_def close_hub_def close_chan_def)
  moreover from this i have "seen (chans h ! 0) = hist h" unfolding Let_def by simp
  ultimately show ?thesis using h by blast
qed

text \<open>What a new subscriber finds of a long history: its first 256 lines only.\<close>

lemma send_all_take: "\<not> ch_closed c \<Longrightarrow> length (ch_q c) \<le> chan_cap \<Longrightarrow>
    \<exists>c'. send_all ls c = Some c' \<and> ch_q c' = ch_q c @ take (chan_cap - length (ch_q c)) ls"
proof (induction ls arbitrary: c)
  case (Cons l ls)
  show ?case
  proof (cases "length (ch_q c) < chan_cap")
    case True
    then have "chan_cap - length (ch_q c) = Suc (chan_cap - Suc (length (ch_q c)))" by simp
    then show ?thesis using Cons.IH [of "c\<lparr> ch_q := ch_q c @ [l] \<rparr>"] Cons.prems True by (simp add: try_send_def)
  next
    case False
    then show ?thesis using Cons.IH [of "c\<lparr> ch_lost := ch_lost c + 1 \<rparr>"] Cons.prems by (simp add: try_send_def)
  qed
qed simp

lemma subscribe_history: "\<exists>h'. subscribe h = Some h' \<and> ch_q (last (chans h')) = take chan_cap (hist h)"
proof -
  have ok: "chan_ok [] make_chan" "full_ok [] make_chan" "\<not> ch_closed make_chan"
    by (simp_all add: chan_ok_def full_ok_def make_chan_def seen_def)
  from send_all_ok [OF this, of "hist h"] send_all_take [of make_chan "hist h"]
  obtain c where "send_all (hist h) make_chan = Some c" "\<not> ch_closed c" "ch_q c = take chan_cap (hist h)"
    by (auto simp: make_chan_def)
  then show ?thesis by (auto simp: subscribe_def close_chan_def)
qed

section \<open>The component's entry points\<close>

record deploy_logs =
  dl_logs :: logDeployments
  dl_hubs :: "(string, logHub) go_map"

definition appendDeployLog :: "string \<Rightarrow> string \<Rightarrow> deploy_logs \<Rightarrow> deploy_logs option" where
  "appendDeployLog did line0 d =
     (let line = TrimRightFn (\<lambda>c. c = CHR 0x0D \<or> c = CHR 0x0A) line0 in
      if line = [] then Some d
      else let d1 = d\<lparr> dl_logs := logs_append (dl_logs d) did line \<rparr> in
           case map_of (dl_hubs d1) did of
             None \<Rightarrow> Some d1
           | Some h \<Rightarrow> map_option (\<lambda>h'. d1\<lparr> dl_hubs := map_put did h' (dl_hubs d1) \<rparr>) (broadcast line h))"

fun append_lines :: "string \<Rightarrow> string list \<Rightarrow> deploy_logs \<Rightarrow> deploy_logs option" where
  "append_lines did [] d = Some d"
| "append_lines did (l # ls) d = (case appendDeployLog did l d of None \<Rightarrow> None | Some d' \<Rightarrow> append_lines did ls d')"

definition appendDeployLogBlock :: "string \<Rightarrow> string \<Rightarrow> deploy_logs \<Rightarrow> deploy_logs option" where
  "appendDeployLogBlock did txt d = append_lines did (Split txt (CHR 0x0A)) d"

definition getOrCreateHub :: "string \<Rightarrow> deploy_logs \<Rightarrow> deploy_logs" where
  "getOrCreateHub did d = (case map_of (dl_hubs d) did of
     Some h \<Rightarrow> d
   | None \<Rightarrow> d\<lparr> dl_hubs := map_put did new_hub (dl_hubs d) \<rparr>)"

definition closeLogStream :: "string \<Rightarrow> deploy_logs \<Rightarrow> deploy_logs option" where
  "closeLogStream did d = (case map_of (dl_hubs d) did of
     None \<Rightarrow> Some d
   | Some h \<Rightarrow> map_option (\<lambda>h'. d\<lparr> dl_hubs := map_put did h' (dl_hubs d) \<rparr>) (close_hub h))"

lemma append_close_total:
  assumes "\<forall>h. map_of (dl_hubs d) did = Some h \<longrightarrow> hub_inv h"
  shows "\<exists>d'. (case appendDeployLog did line d of None \<Rightarrow> None | Some d1 \<Rightarrow> closeLogStream did d1) = Some d'"
proof (cases "map_of (dl_hubs d) did")
  case None
  then show ?thesis by (simp add: appendDeployLog_def closeLogStream_def Let_def)
next
  case (Some h)
  with assms have h: "hub_inv h" by simp
  let ?line = "TrimRightFn (\<lambda>c. c = CHR 0x0D \<or> c = CHR 0x0A) line"
  obtain h1 where h1: "broadcast ?line h = Some h1" "hub_inv h1" using hub_inv_broadcast [OF h] by blast
  obtain h2 where "close_hub h1 = Some h2" using hub_inv_close [OF h1(2)] by blast
  moreover obtain h3 where "close_hub h = Some h3" using hub_inv_close [OF h] by blast
  ultimately show ?thesis using Some h1 by (auto simp: appendDeployLog_def closeLogStream_def Let_def)
qed

end
