(* ===== verification/Deploy_Transition.thy ===== *)
theory Deploy_Transition
  imports Deploy_Machine Deploy_Logs
begin

text \<open>
  Status transitions of deployments (\<^verbatim>\<open>components/deploy/state_transitions.go\<close>, the status helpers
  of \<^verbatim>\<open>engine.go\<close> and the event helpers of \<^verbatim>\<open>observability.go\<close>).

  The \<^verbatim>\<open>deployments\<close> table is a map from ids to rows. Other goroutines and processes share the
  database, so every SQL statement is one atomic step of an environment: before the \<open>n\<close>-th statement
  the environment may change the rows (\<open>env_before\<close>), the statement may fail (\<open>env_fails\<close>) and
  \<^verbatim>\<open>RowsAffected\<close> of an update that was applied may fail (\<open>env_affected_fails\<close>). Two fields of the
  world only record what happened, for the statements of the theorems: \<open>w_seen\<close>, the rows every
  statement found, and \<open>w_writes\<close>, the status changes with the status the row really had.
  The column \<^verbatim>\<open>status_history\<close> is kept decoded: empty, a JSON list of transitions, or a text that does
  not parse. Log lines are left to the logger, which is not modelled.
\<close>

section \<open>Rows, events and the environment\<close>

record StatusTransition =
  tr_From :: string
  tr_To :: string
  tr_Timestamp :: string

datatype history_col = HistEmpty | HistJSON "StatusTransition list" | HistBad string

record Deployment =
  RepoID :: string
  SiteID :: string
  Branch :: string
  CommitSHA :: string
  Status :: string
  URL :: string
  Port :: int
  App_Type :: string
  ErrorMessage :: string
  BuildLog :: string
  PassthroughPaths :: string
  ManifestPath :: string
  CreatedAt :: string
  StatusHistory :: history_col
  PID :: int

type_synonym rows = "(string, Deployment) go_map"

datatype deploy_event =
    EvStateChanged string string int string string string
  | EvFailed string string int string string string string

record env =
  env_fails :: "nat \<Rightarrow> bool"
  env_affected_fails :: "nat \<Rightarrow> bool"
  env_before :: "nat \<Rightarrow> rows \<Rightarrow> rows"
  env_now :: "nat \<Rightarrow> string"

record world =
  w_rows :: rows
  w_sites :: "(string, int) go_map"
  w_stmts :: nat
  w_bus :: bool
  w_events :: "deploy_event list"
  w_logs :: deploy_logs
  w_seen :: "rows list"
  w_writes :: "(string \<times> string \<times> string) list"

datatype deploy_error =
    EStateMachineNil
  | EQuery
  | EUpdate
  | ErrInvalidTransition string string "string list"
  | ErrTransitionConflict string

definition transitionMaxAttempts :: nat where
  "transitionMaxAttempts = 4"

text \<open>One statement: the environment moves first, then the statement sees the rows.\<close>

definition stmt :: "env \<Rightarrow> world \<Rightarrow> world" where
  "stmt e w = (let rs = env_before e (w_stmts w) (w_rows w) in
     w\<lparr> w_rows := rs, w_stmts := Suc (w_stmts w), w_seen := w_seen w @ [rs] \<rparr>)"

definition failing :: "env \<Rightarrow> world \<Rightarrow> bool" where
  "failing e w = env_fails e (w_stmts w)"

definition update_row :: "string \<Rightarrow> (Deployment \<Rightarrow> Deployment) \<Rightarrow> world \<Rightarrow> world" where
  "update_row did f w = (case map_of (w_rows w) did of
     None \<Rightarrow> w
   | Some r \<Rightarrow> w\<lparr> w_rows := map_put did (f r) (w_rows w) \<rparr>)"

section \<open>Reading, swapping, appending\<close>

definition query_status :: "env \<Rightarrow> string \<Rightarrow> world \<Rightarrow> string option \<times> world" where
  "query_status e did w =
     ((if failing e w then None else map_option Status (map_of (w_rows (stmt e w)) did)), stmt e w)"

definition set_status :: "string \<Rightarrow> string \<Rightarrow> Deployment \<Rightarrow> Deployment" where
  "set_status to buildLog r = (if buildLog \<noteq> [] then r\<lparr> Status := to, BuildLog := buildLog \<rparr> else r\<lparr> Status := to \<rparr>)"

definition compareAndSwapStatus ::
  "env \<Rightarrow> string \<Rightarrow> string \<Rightarrow> string \<Rightarrow> string \<Rightarrow> world \<Rightarrow> (deploy_error, bool) res \<times> world" where
  "compareAndSwapStatus e did from to buildLog w =
     (let w1 = stmt e w in
      if failing e w then (Inl EUpdate, w1)
      else case map_of (w_rows w1) did of
        None \<Rightarrow> (if env_affected_fails e (w_stmts w) then (Inl EUpdate, w1) else (Inr False, w1))
      | Some r \<Rightarrow>
          (if Status r = from
           then (let w2 = (update_row did (set_status to buildLog) w1)\<lparr> w_writes := w_writes w1 @ [(did, Status r, to)] \<rparr>
                 in if env_affected_fails e (w_stmts w) then (Inl EUpdate, w2) else (Inr True, w2))
           else if env_affected_fails e (w_stmts w) then (Inl EUpdate, w1) else (Inr False, w1)))"

definition decode_history :: "history_col \<Rightarrow> StatusTransition list" where
  "decode_history h = (case h of HistEmpty \<Rightarrow> [] | HistJSON ts \<Rightarrow> ts | HistBad _ \<Rightarrow> [])"

definition appendStatusHistory :: "env \<Rightarrow> string \<Rightarrow> StatusTransition \<Rightarrow> world \<Rightarrow> world" where
  "appendStatusHistory e did tr w =
     (let w1 = stmt e w in
      if failing e w then w1
      else case map_of (w_rows w1) did of
        None \<Rightarrow> w1
      | Some r \<Rightarrow>
          (let hs = decode_history (StatusHistory r) @ [tr];
               w2 = stmt e w1
           in if failing e w1 then w2
              else update_row did (\<lambda>r'. r'\<lparr> StatusHistory := HistJSON hs \<rparr>) w2))"

section \<open>Events\<close>

definition deploymentOrg :: "env \<Rightarrow> string \<Rightarrow> world \<Rightarrow> (string \<times> int) \<times> world" where
  "deploymentOrg e did w =
     (let w1 = stmt e w in
      ((if failing e w then ([], 0)
        else case map_of (w_rows w1) did of
          None \<Rightarrow> ([], 0)
        | Some r \<Rightarrow> (SiteID r, case map_of (w_sites w1) (SiteID r) of None \<Rightarrow> 0 | Some org \<Rightarrow> org)), w1))"

definition emit :: "deploy_event \<Rightarrow> world \<Rightarrow> world" where
  "emit ev w = w\<lparr> w_events := w_events w @ [ev] \<rparr>"

definition nl :: string where
  "nl = [CHR 0x0A]"

definition emitDeployFailed :: "env \<Rightarrow> string \<Rightarrow> world \<Rightarrow> world" where
  "emitDeployFailed e did w =
     (let w1 = stmt e w in
      if failing e w then w1
      else case map_of (w_rows w1) did of
        None \<Rightarrow> w1
      | Some r \<Rightarrow>
          (let ((_, org), w2) = deploymentOrg e did w1;
               bl = (if BuildLog r = [] then Join (logs_get (dl_logs (w_logs w2)) did) nl else BuildLog r)
           in emit (EvFailed did (SiteID r) org (RepoID r) (App_Type r) (ErrorMessage r) bl) w2))"

section \<open>TransitionState\<close>

text \<open>What follows a won compare-and-swap: the history entry, then the events.\<close>

definition after_cas :: "env \<Rightarrow> string \<Rightarrow> string \<Rightarrow> string \<Rightarrow> world \<Rightarrow> world" where
  "after_cas e did current newStatus w =
     (let ts = env_now e (w_stmts w);
          w1 = appendStatusHistory e did \<lparr> tr_From = current, tr_To = newStatus, tr_Timestamp = ts \<rparr> w
      in if w_bus w1
         then (let ((site, org), w2) = deploymentOrg e did w1;
                   w3 = emit (EvStateChanged did site org current newStatus ts) w2
               in if newStatus = str StateFailed \<and> current \<noteq> str StateFailed then emitDeployFailed e did w3 else w3)
         else w1)"

fun transition_loop :: "nat \<Rightarrow> env \<Rightarrow> StateMachine \<Rightarrow> string \<Rightarrow> string \<Rightarrow> world
    \<Rightarrow> (deploy_error, unit) res \<times> world" where
  "transition_loop 0 e sm did newStatus w = (Inl (ErrTransitionConflict did), w)"
| "transition_loop (Suc n) e sm did newStatus w =
     (case query_status e did w of
        (None, w1) \<Rightarrow> (Inl EQuery, w1)
      | (Some current, w1) \<Rightarrow>
          (if current = newStatus then (Inr (), w1)
           else if IsValidState sm current \<and> \<not> CanTransition sm current newStatus
           then (Inl (ErrInvalidTransition current newStatus (ValidTransitions sm current)), w1)
           else (let buildLog = (if IsTerminal newStatus
                                 then Join (logs_get (dl_logs (w_logs w1)) did) nl else [])
                 in case compareAndSwapStatus e did current newStatus buildLog w1 of
                      (Inl err, w2) \<Rightarrow> (Inl err, w2)
                    | (Inr False, w2) \<Rightarrow> transition_loop n e sm did newStatus w2
                    | (Inr True, w2) \<Rightarrow> (Inr (), after_cas e did current newStatus w2))))"

definition TransitionState :: "env \<Rightarrow> StateMachine option \<Rightarrow> string \<Rightarrow> string \<Rightarrow> world
    \<Rightarrow> (deploy_error, unit) res \<times> world" where
  "TransitionState e sm did newStatus w = (case sm of
     None \<Rightarrow> (Inl EStateMachineNil, w)
   | Some m \<Rightarrow> transition_loop transitionMaxAttempts e m did newStatus w)"

definition updateStatus :: "env \<Rightarrow> StateMachine option \<Rightarrow> string \<Rightarrow> string \<Rightarrow> world \<Rightarrow> world" where
  "updateStatus e sm did status w = snd (TransitionState e sm did status w)"

text \<open>The override used by forced stops: no validation, but a history entry.\<close>

definition forceStatus :: "env \<Rightarrow> string \<Rightarrow> string \<Rightarrow> world \<Rightarrow> world" where
  "forceStatus e did newStatus w =
     (case query_status e did w of
        (None, w1) \<Rightarrow> w1
      | (Some current, w1) \<Rightarrow>
          (if current = newStatus then w1
           else let w2 = stmt e w1 in
             if failing e w1 then w2
             else let w3 = (case map_of (w_rows w2) did of
                              None \<Rightarrow> w2
                            | Some r \<Rightarrow> (update_row did (\<lambda>r. r\<lparr> Status := newStatus \<rparr>) w2)
                                \<lparr> w_writes := w_writes w2 @ [(did, Status r, newStatus)] \<rparr>)
             in appendStatusHistory e did
                  \<lparr> tr_From = current, tr_To = newStatus, tr_Timestamp = env_now e (w_stmts w3) \<rparr> w3))"

definition cross_mark :: string where
  "cross_mark = [CHR 0xE2, CHR 0x9C, CHR 0x97]"

definition failDeployment :: "env \<Rightarrow> StateMachine option \<Rightarrow> string \<Rightarrow> string \<Rightarrow> world \<Rightarrow> world option" where
  "failDeployment e sm did buildErr w =
     (let msg = (if length buildErr > 2000 then take 2000 buildErr else buildErr) in
      case appendDeployLog did (cross_mark @ '' Deploy failed: '' @ msg) (w_logs w) of
        None \<Rightarrow> None
      | Some l1 \<Rightarrow> (case closeLogStream did l1 of
          None \<Rightarrow> None
        | Some l2 \<Rightarrow>
            (let w0 = w\<lparr> w_logs := l2 \<rparr>;
                 w1 = stmt e w0;
                 w2 = (if failing e w0 then w1 else update_row did (\<lambda>r. r\<lparr> ErrorMessage := msg \<rparr>) w1)
             in Some (snd (TransitionState e sm did (str StateFailed) w2)))))"

section \<open>What the helpers leave alone\<close>

lemma stmt_simps [simp]:
  "w_writes (stmt e w) = w_writes w" "w_events (stmt e w) = w_events w" "w_bus (stmt e w) = w_bus w"
  "w_logs (stmt e w) = w_logs w" "w_sites (stmt e w) = w_sites w"
  "w_seen (stmt e w) = w_seen w @ [w_rows (stmt e w)]" "w_stmts (stmt e w) = Suc (w_stmts w)"
  by (simp_all add: stmt_def Let_def)

lemma update_row_simps [simp]:
  "w_writes (update_row did f w) = w_writes w" "w_events (update_row did f w) = w_events w"
  "w_bus (update_row did f w) = w_bus w" "w_logs (update_row did f w) = w_logs w"
  "w_sites (update_row did f w) = w_sites w" "w_seen (update_row did f w) = w_seen w"
  "w_stmts (update_row did f w) = w_stmts w"
  by (simp_all add: update_row_def split: option.splits)

lemma map_of_update_row: "map_of (w_rows (update_row did f w)) =
    (case map_of (w_rows w) did of None \<Rightarrow> map_of (w_rows w) | Some r \<Rightarrow> (map_of (w_rows w))(did \<mapsto> f r))"
  by (simp add: update_row_def split: option.splits)

lemma appendStatusHistory_simps [simp]:
  "w_writes (appendStatusHistory e did tr w) = w_writes w"
  "w_events (appendStatusHistory e did tr w) = w_events w"
  "w_bus (appendStatusHistory e did tr w) = w_bus w"
  "w_logs (appendStatusHistory e did tr w) = w_logs w"
  "w_sites (appendStatusHistory e did tr w) = w_sites w"
  by (simp_all add: appendStatusHistory_def Let_def split: option.splits)

lemma deploymentOrg_simps [simp]:
  "snd (deploymentOrg e did w) = stmt e w"
  by (simp add: deploymentOrg_def Let_def)

lemma emit_simps [simp]:
  "w_writes (emit ev w) = w_writes w" "w_events (emit ev w) = w_events w @ [ev]"
  "w_rows (emit ev w) = w_rows w" "w_seen (emit ev w) = w_seen w" "w_stmts (emit ev w) = w_stmts w"
  "w_sites (emit ev w) = w_sites w" "w_logs (emit ev w) = w_logs w" "w_bus (emit ev w) = w_bus w"
  by (simp_all add: emit_def)

lemma emitDeployFailed_writes [simp]: "w_writes (emitDeployFailed e did w) = w_writes w"
  by (simp add: emitDeployFailed_def Let_def split_beta split: option.splits)

lemma after_cas_writes [simp]: "w_writes (after_cas e did current newStatus w) = w_writes w"
  by (simp add: after_cas_def Let_def split_beta)

text \<open>Statements only ever extend the record of what they found.\<close>

definition extends :: "world \<Rightarrow> world \<Rightarrow> bool" where
  "extends w w' = prefix (w_seen w) (w_seen w')"

lemma extends_refl [simp]: "extends w w"
  by (simp add: extends_def)

lemma extends_trans: "extends a b \<Longrightarrow> extends b c \<Longrightarrow> extends a c"
  unfolding extends_def by (rule prefix_order.order_trans)

lemma extends_helpers [simp]:
  "extends w (stmt e w)" "extends w (update_row did f w)" "extends w (emit ev w)"
  by (simp_all add: extends_def)

lemma extends_append [simp]: "extends w (appendStatusHistory e did tr w)"
  by (simp add: appendStatusHistory_def extends_def Let_def split: option.splits)

lemma extends_emitFailed [simp]: "extends w (emitDeployFailed e did w)"
  by (simp add: emitDeployFailed_def extends_def Let_def split_beta split: option.splits)

lemma extends_announce [simp]: "extends w (emit ev (stmt e (appendStatusHistory e did tr w)))"
  by (meson extends_helpers extends_append extends_trans)

lemma extends_after_cas: "extends w (after_cas e did current newStatus w)"
  by (auto simp: after_cas_def Let_def split_beta intro: extends_trans [OF extends_announce extends_emitFailed])

section \<open>Under arbitrary interference\<close>

definition status_in :: "rows \<Rightarrow> string \<Rightarrow> string option" where
  "status_in rs did = map_option Status (map_of rs did)"

text \<open>A change the machine admits, or one that leaves a status it does not know (a legacy row).\<close>

definition legal_change :: "StateMachine \<Rightarrow> string \<Rightarrow> string \<Rightarrow> bool" where
  "legal_change sm a b = (a \<noteq> b \<and> (CanTransition sm a b \<or> \<not> IsValidState sm a))"

lemma cas_outcome:
  assumes "compareAndSwapStatus e did from to bl w = (r, w')"
  shows "(r = Inr True \<longrightarrow> w_writes w' = w_writes w @ [(did, from, to)])
    \<and> (r = Inr False \<longrightarrow> w_writes w' = w_writes w \<and> status_in (w_rows (stmt e w)) did \<noteq> Some from \<and> w' = stmt e w)
    \<and> (w_writes w' = w_writes w \<or> w_writes w' = w_writes w @ [(did, from, to)])
    \<and> w_events w' = w_events w \<and> extends w w'
    \<and> (\<forall>er. r = Inl er \<longrightarrow> er = EUpdate)"
  using assms
  by (auto simp: compareAndSwapStatus_def status_in_def extends_def Let_def split: if_splits option.splits)

text \<open>The races a transition lost: per attempt the rows it read and the rows its swap found.\<close>

definition lost_races :: "nat \<Rightarrow> string \<Rightarrow> rows list \<Rightarrow> bool" where
  "lost_races n did found = (\<exists>ps. length ps = n \<and> found = concat (map (\<lambda>(a, b). [a, b]) ps)
     \<and> (\<forall>(a, b) \<in> set ps. status_in a did \<noteq> status_in b did))"

lemma lost_races_0 [simp]: "lost_races 0 did []"
  by (simp add: lost_races_def)

lemma lost_races_Suc: "status_in a did \<noteq> status_in b did \<Longrightarrow> lost_races n did rest \<Longrightarrow>
    lost_races (Suc n) did (a # b # rest)"
  unfolding lost_races_def
proof (elim exE conjE)
  fix ps assume "status_in a did \<noteq> status_in b did" "length ps = n"
    "rest = concat (map (\<lambda>(a, b). [a, b]) ps)" "\<forall>(a, b)\<in>set ps. status_in a did \<noteq> status_in b did"
  then show "\<exists>ps. length ps = Suc n \<and> a # b # rest = concat (map (\<lambda>(a, b). [a, b]) ps) \<and>
      (\<forall>(a, b)\<in>set ps. status_in a did \<noteq> status_in b did)"
    by (intro exI [of _ "(a, b) # ps"]) simp
qed

text \<open>The outcome of a run of the loop, as one predicate of its result and the two worlds.\<close>

definition transition_outcome :: "nat \<Rightarrow> StateMachine \<Rightarrow> string \<Rightarrow> string \<Rightarrow> world
    \<Rightarrow> (deploy_error, unit) res \<Rightarrow> world \<Rightarrow> bool" where
  "transition_outcome n sm did new w r w' =
     (let same = (w_writes w' = w_writes w);
          one = (\<exists>s. legal_change sm s new \<and> w_writes w' = w_writes w @ [(did, s, new)]);
          found = drop (length (w_seen w)) (w_seen w')
      in extends w w' \<and> (case r of
           Inr _ \<Rightarrow> one \<or> same \<and> w_events w' = w_events w \<and> found \<noteq> [] \<and> status_in (last found) did = Some new
         | Inl EUpdate \<Rightarrow> w_events w' = w_events w \<and> (one \<or> same)
         | Inl (ErrInvalidTransition s t al) \<Rightarrow> same \<and> w_events w' = w_events w \<and> t = new \<and> found \<noteq> []
             \<and> status_in (last found) did = Some s \<and> \<not> legal_change sm s new \<and> al = ValidTransitions sm s
         | Inl (ErrTransitionConflict i) \<Rightarrow> same \<and> w_events w' = w_events w \<and> i = did \<and> lost_races n did found
         | Inl _ \<Rightarrow> same \<and> w_events w' = w_events w))"

lemma transition_outcome_retry:
  assumes "w_writes w2 = w_writes w" "w_events w2 = w_events w"
    and seen: "w_seen w2 = w_seen w @ [a, b]" and ab: "status_in a did \<noteq> status_in b did"
    and o: "transition_outcome n sm did new w2 r w'"
  shows "transition_outcome (Suc n) sm did new w r w'"
proof -
  from o have ext: "prefix (w_seen w2) (w_seen w')" by (simp add: transition_outcome_def extends_def Let_def)
  then obtain zs where zs: "w_seen w' = w_seen w @ a # b # zs" using seen by (auto simp: prefix_def)
  have d: "drop (length (w_seen w)) (w_seen w') = a # b # drop (length (w_seen w2)) (w_seen w')"
    using zs seen by simp
  have "extends w w'" using zs by (simp add: extends_def)
  with o assms(1,2) d ab show ?thesis
    by (auto simp: transition_outcome_def Let_def lost_races_Suc split: sum.splits deploy_error.splits)
qed

lemma transition_loop_outcome:
  "transition_loop n e sm did new w = (r, w') \<Longrightarrow> transition_outcome n sm did new w r w'"
proof (induction n arbitrary: w)
  case 0
  then show ?case by (auto simp: transition_outcome_def Let_def)
next
  case (Suc n)
  let ?w1 = "stmt e w"
  have q: "query_status e did w = ((if failing e w then None else status_in (w_rows ?w1) did), ?w1)"
    by (simp add: query_status_def status_in_def)
  show ?case
  proof (cases "failing e w \<or> status_in (w_rows ?w1) did = None")
    case True
    with q have "query_status e did w = (None, ?w1)" by auto
    with Suc.prems have "r = Inl EQuery" "w' = ?w1" by auto
    then show ?thesis by (simp add: transition_outcome_def)
  next
    case False
    then obtain s where s: "\<not> failing e w" "status_in (w_rows ?w1) did = Some s" by auto
    with q have q: "query_status e did w = (Some s, ?w1)" by simp
    have ne: "drop (length (w_seen w)) (w_seen ?w1) = [w_rows ?w1]" by simp
    consider "s = new" | "s \<noteq> new" "IsValidState sm s \<and> \<not> CanTransition sm s new"
      | "s \<noteq> new" "legal_change sm s new" by (auto simp: legal_change_def)
    then show ?thesis
    proof cases
      case 1
      with Suc.prems q s have "r = Inr ()" "w' = ?w1" by auto
      with 1 s show ?thesis by (simp add: transition_outcome_def)
    next
      case 2
      with Suc.prems q s have "r = Inl (ErrInvalidTransition s new (ValidTransitions sm s))" "w' = ?w1" by auto
      with 2 s show ?thesis by (auto simp: transition_outcome_def legal_change_def)
    next
      case 3
      define bl where "bl = (if IsTerminal new then Join (logs_get (dl_logs (w_logs ?w1)) did) nl else [])"
      obtain c w2 where cas: "compareAndSwapStatus e did s new bl ?w1 = (c, w2)" by force
      note co = cas_outcome [OF cas]
      have ext2: "extends w w2" using co extends_helpers(1) extends_trans by blast
      from Suc.prems q s 3 cas have run: "(case c of Inl err \<Rightarrow> (Inl err, w2)
          | Inr False \<Rightarrow> transition_loop n e sm did new w2
          | Inr True \<Rightarrow> (Inr (), after_cas e did s new w2)) = (r, w')"
        by (auto simp: legal_change_def bl_def split: sum.splits bool.splits)
      consider (err) er where "c = Inl er" | (lost) "c = Inr False" | (won) "c = Inr True" by (metis sumE)
      then show ?thesis
      proof cases
        case err
        with run co have "r = Inl EUpdate" "w' = w2" by auto
        with co ext2 3 show ?thesis by (auto simp: transition_outcome_def Let_def)
      next
        case lost
        with run co have "transition_loop n e sm did new w2 = (r, w')" "w2 = stmt e ?w1" by auto
        with Suc.IH have "transition_outcome n sm did new w2 r w'" by blast
        then show ?thesis
          by (rule transition_outcome_retry [rotated 4, where a = "w_rows ?w1" and b = "w_rows (stmt e ?w1)"])
            (use co lost s in auto)
      next
        case won
        with run have "r = Inr ()" "w' = after_cas e did s new w2" by auto
        with co won 3 ext2 extends_after_cas [of w2] show ?thesis
          by (auto simp: transition_outcome_def Let_def intro: extends_trans)
      qed
    qed
  qed
qed

text \<open>
  C27. TransitionState under arbitrary concurrent changes of the table and arbitrary database errors.
  A call changes the status at most once, and only from a status the row really has at that instant
  and from which the machine admits the change (or which the machine does not know). Success means
  exactly that, or that the row was found in the requested status already, without an event. An
  invalid-transition error names the status found and its allowed successors and leaves everything
  alone; a conflict is reported only after four attempts in each of which the status changed between
  the read and the swap.
\<close>

theorem TransitionState_interference:
  "case TransitionState e (Some sm) did new w of (r, w') \<Rightarrow>
     transition_outcome transitionMaxAttempts sm did new w r w'"
  using transition_loop_outcome [of transitionMaxAttempts e sm did new w]
  by (simp add: TransitionState_def split: prod.splits)

section \<open>Without interference\<close>

definition quiet_env :: "string \<Rightarrow> env" where
  "quiet_env now = \<lparr> env_fails = (\<lambda>n. False), env_affected_fails = (\<lambda>n. False),
     env_before = (\<lambda>n rs. rs), env_now = (\<lambda>n. now) \<rparr>"

lemma quiet_simps [simp]:
  "failing (quiet_env now) w = False" "w_rows (stmt (quiet_env now) w) = w_rows w"
  "env_affected_fails (quiet_env now) n = False" "env_now (quiet_env now) n = now"
  by (simp_all add: quiet_env_def failing_def stmt_def Let_def)

lemma appendStatusHistory_quiet: "map_of (w_rows w) did = Some r \<Longrightarrow>
    map_of (w_rows (appendStatusHistory (quiet_env now) did tr w)) =
      (map_of (w_rows w))(did \<mapsto> r\<lparr> StatusHistory := HistJSON (decode_history (StatusHistory r) @ [tr]) \<rparr>)"
  by (simp add: appendStatusHistory_def Let_def map_of_update_row)

definition org_of :: "world \<Rightarrow> string \<Rightarrow> int" where
  "org_of w site = (case map_of (w_sites w) site of None \<Rightarrow> 0 | Some org \<Rightarrow> org)"

text \<open>The row after a transition and the events that announce it.\<close>

definition transitioned :: "world \<Rightarrow> string \<Rightarrow> string \<Rightarrow> string \<Rightarrow> Deployment \<Rightarrow> Deployment" where
  "transitioned w now did new r =
     (let lg = Join (logs_get (dl_logs (w_logs w)) did) nl in
      r\<lparr> Status := new,
         BuildLog := (if IsTerminal new \<and> lg \<noteq> [] then lg else BuildLog r),
         StatusHistory := HistJSON (decode_history (StatusHistory r)
            @ [\<lparr> tr_From = Status r, tr_To = new, tr_Timestamp = now \<rparr>]) \<rparr>)"

definition announced :: "world \<Rightarrow> string \<Rightarrow> string \<Rightarrow> string \<Rightarrow> Deployment \<Rightarrow> deploy_event list" where
  "announced w now did new r =
     (if w_bus w
      then EvStateChanged did (SiteID r) (org_of w (SiteID r)) (Status r) new now #
        (if new = str StateFailed
         then [EvFailed did (SiteID r) (org_of w (SiteID r)) (RepoID r) (App_Type r) (ErrorMessage r)
                 (if BuildLog (transitioned w now did new r) = [] then Join (logs_get (dl_logs (w_logs w)) did) nl
                  else BuildLog (transitioned w now did new r))]
         else [])
      else [])"

lemma after_cas_quiet:
  fixes now current new :: string
  assumes "map_of (w_rows w) did = Some r"
  defines "w' \<equiv> after_cas (quiet_env now) did current new w"
    and "r' \<equiv> r\<lparr> StatusHistory := HistJSON (decode_history (StatusHistory r)
          @ [\<lparr> tr_From = current, tr_To = new, tr_Timestamp = now \<rparr>]) \<rparr>"
  shows "map_of (w_rows w') = (map_of (w_rows w))(did \<mapsto> r')"
    and "current \<noteq> new \<Longrightarrow> w_events w' = w_events w @ (if w_bus w
      then EvStateChanged did (SiteID r) (org_of w (SiteID r)) current new now #
        (if new = str StateFailed
         then [EvFailed did (SiteID r) (org_of w (SiteID r)) (RepoID r) (App_Type r) (ErrorMessage r)
                 (if BuildLog r = [] then Join (logs_get (dl_logs (w_logs w)) did) nl else BuildLog r)]
         else [])
      else [])"
  using assms(1)
  by (auto simp: assms(2,3) after_cas_def Let_def split_beta emitDeployFailed_def deploymentOrg_def
      appendStatusHistory_quiet org_of_def fun_upd_def)

lemma cas_quiet: "map_of (w_rows w) did = Some r \<Longrightarrow> Status r = from \<Longrightarrow>
    \<exists>w2. compareAndSwapStatus (quiet_env now) did from to bl w = (Inr True, w2)
      \<and> map_of (w_rows w2) = (map_of (w_rows w))(did \<mapsto> set_status to bl r)
      \<and> w_events w2 = w_events w \<and> w_bus w2 = w_bus w \<and> w_logs w2 = w_logs w \<and> w_sites w2 = w_sites w"
  by (simp add: compareAndSwapStatus_def Let_def map_of_update_row)

lemma transition_quiet_cases:
  "case TransitionState (quiet_env now) (Some sm) did new w of (res, w') \<Rightarrow>
     (case map_of (w_rows w) did of
        None \<Rightarrow> res = Inl EQuery \<and> w_rows w' = w_rows w \<and> w_events w' = w_events w
      | Some r \<Rightarrow>
          if Status r = new then res = Inr () \<and> w_rows w' = w_rows w \<and> w_events w' = w_events w
          else if IsValidState sm (Status r) \<and> \<not> CanTransition sm (Status r) new
          then res = Inl (ErrInvalidTransition (Status r) new (ValidTransitions sm (Status r)))
             \<and> w_rows w' = w_rows w \<and> w_events w' = w_events w
          else res = Inr () \<and> map_of (w_rows w') = (map_of (w_rows w))(did \<mapsto> transitioned w now did new r)
             \<and> w_events w' = w_events w @ announced w now did new r)"
proof (cases "map_of (w_rows w) did")
  case None
  then show ?thesis
    by (simp add: TransitionState_def transitionMaxAttempts_def numeral_eq_Suc query_status_def)
next
  case (Some r)
  let ?e = "quiet_env now" and ?w1 = "stmt (quiet_env now) w"
  have q: "query_status ?e did w = (Some (Status r), ?w1)" using Some by (simp add: query_status_def)
  show ?thesis
  proof (cases "Status r = new \<or> IsValidState sm (Status r) \<and> \<not> CanTransition sm (Status r) new")
    case True
    with Some q show ?thesis by (auto simp: TransitionState_def transitionMaxAttempts_def numeral_eq_Suc)
  next
    case False
    define bl where "bl = (if IsTerminal new then Join (logs_get (dl_logs (w_logs ?w1)) did) nl else [])"
    obtain w2 where w2: "compareAndSwapStatus ?e did (Status r) new bl ?w1 = (Inr True, w2)"
      "map_of (w_rows w2) = (map_of (w_rows w))(did \<mapsto> set_status new bl r)"
      "w_events w2 = w_events w" "w_bus w2 = w_bus w" "w_logs w2 = w_logs w" "w_sites w2 = w_sites w"
      using cas_quiet [of ?w1 did r "Status r" now new bl] Some by auto
    have run: "TransitionState ?e (Some sm) did new w = (Inr (), after_cas ?e did (Status r) new w2)"
      using q False w2(1) by (simp add: TransitionState_def transitionMaxAttempts_def numeral_eq_Suc bl_def)
    have r2: "map_of (w_rows w2) did = Some (set_status new bl r)" using w2(2) by simp
    note ac = after_cas_quiet [OF r2, where now = now and current = "Status r" and new = new]
    have "map_of (w_rows (after_cas ?e did (Status r) new w2)) = (map_of (w_rows w))(did \<mapsto> transitioned w now did new r)"
      using ac(1) w2(2) by (auto simp: transitioned_def set_status_def bl_def Let_def fun_upd_def)
    moreover have "w_events (after_cas ?e did (Status r) new w2) = w_events w @ announced w now did new r"
      using ac(2) w2(3-6) False
      by (auto simp: announced_def transitioned_def set_status_def bl_def Let_def org_of_def)
    ultimately show ?thesis using run Some False by simp
  qed
qed

text \<open>
  TransitionState without interference, on every branch: an unknown id is an error, the current
  status is a no-op, a change the machine rejects is an error that changes nothing, and any other
  change sets the status, stores the collected log when the new status is terminal, appends one
  history entry (a corrupt history restarts) and announces it, with a failure event exactly for
  \<open>failed\<close>.
\<close>

lemma TransitionState_quiet:
  "case TransitionState (quiet_env now) (Some sm) did new w of (res, w') \<Rightarrow>
     (case map_of (w_rows w) did of
        None \<Rightarrow> res = Inl EQuery \<and> w_rows w' = w_rows w \<and> w_events w' = w_events w
      | Some r \<Rightarrow>
          if Status r = new then res = Inr () \<and> w_rows w' = w_rows w \<and> w_events w' = w_events w
          else if IsValidState sm (Status r) \<and> \<not> CanTransition sm (Status r) new
          then res = Inl (ErrInvalidTransition (Status r) new (ValidTransitions sm (Status r)))
             \<and> w_rows w' = w_rows w \<and> w_events w' = w_events w
          else res = Inr () \<and> map_of (w_rows w') = (map_of (w_rows w))(did \<mapsto> transitioned w now did new r)
             \<and> w_events w' = w_events w @ announced w now did new r)"
  by (rule transition_quiet_cases)

text \<open>A row and a world to evaluate on.\<close>

definition sample_row :: "string \<Rightarrow> Deployment" where
  "sample_row st = \<lparr> RepoID = ''r'', SiteID = ''s'', Branch = ''main'', CommitSHA = [], Status = st,
     URL = [], Port = 1, App_Type = ''node'', ErrorMessage = [], BuildLog = [], PassthroughPaths = [],
     ManifestPath = [], CreatedAt = ''t0'', StatusHistory = HistEmpty, PID = 0 \<rparr>"

definition sample_world :: "rows \<Rightarrow> world" where
  "sample_world rs = \<lparr> w_rows = rs, w_sites = [], w_stmts = 0, w_bus = True, w_events = [],
     w_logs = \<lparr> dl_logs = ld_empty, dl_hubs = [] \<rparr>, w_seen = [], w_writes = [] \<rparr>"

lemma TransitionState_quiet_witness:
  "case TransitionState (quiet_env ''t1'') (Some NewStateMachine) ''d1'' (str StateRunning)
      (sample_world [(''d1'', sample_row (str StateDeploying))]) of (res, w') \<Rightarrow>
     res = Inr () \<and> map_option Status (map_of (w_rows w') ''d1'') = Some (str StateRunning)
     \<and> w_events w' = [EvStateChanged ''d1'' ''s'' 0 (str StateDeploying) (str StateRunning) ''t1'']"
  using TransitionState_quiet [where now = "''t1''" and sm = NewStateMachine and did = "''d1''"
      and new = "str StateRunning" and w = "sample_world [(''d1'', sample_row (str StateDeploying))]"]
  by (simp add: sample_row_def sample_world_def CanTransition_str announced_def org_of_def transitioned_def
      Let_def split: prod.splits)

section \<open>Failing a deployment\<close>

text \<open>In these rows the deployment carries the given error message.\<close>

definition err_is :: "string \<Rightarrow> string \<Rightarrow> rows \<Rightarrow> bool" where
  "err_is did msg rs = (\<forall>r. map_of rs did = Some r \<longrightarrow> ErrorMessage r = msg)"

definition shows_err :: "string \<Rightarrow> string \<Rightarrow> nat \<Rightarrow> world \<Rightarrow> bool" where
  "shows_err did msg n w = (n \<le> length (w_seen w) \<and> err_is did msg (w_rows w)
     \<and> (\<forall>rs \<in> set (drop n (w_seen w)). err_is did msg rs))"

lemma shows_err_stmt [simp]: "shows_err did msg n w \<Longrightarrow> shows_err did msg n (stmt (quiet_env now) w)"
  by (auto simp: shows_err_def)

lemma shows_err_update [simp]: "shows_err did msg n w \<Longrightarrow> (\<And>r. ErrorMessage (f r) = ErrorMessage r) \<Longrightarrow>
    shows_err did msg n (update_row did f w)"
  by (auto simp: shows_err_def err_is_def map_of_update_row split: option.splits)

lemma shows_err_append [simp]: "shows_err did msg n w \<Longrightarrow>
    shows_err did msg n (appendStatusHistory (quiet_env now) did tr w)"
  by (simp add: appendStatusHistory_def Let_def split: option.splits)

lemma shows_err_emit [simp]: "shows_err did msg n (emit ev w) = shows_err did msg n w"
  by (simp add: shows_err_def)

lemma shows_err_after_cas: "shows_err did msg n w \<Longrightarrow> shows_err did msg n (after_cas (quiet_env now) did a b w)"
proof -
  assume w: "shows_err did msg n w"
  have f: "shows_err did msg n (emitDeployFailed (quiet_env now) did v)" if "shows_err did msg n v" for v
    using that by (simp add: emitDeployFailed_def Let_def split_beta split: option.splits)
  from w show ?thesis by (simp add: after_cas_def Let_def split_beta f)
qed

lemma set_status_err [simp]: "ErrorMessage (set_status to bl r) = ErrorMessage r"
  by (simp add: set_status_def)

lemma shows_err_transition: "shows_err did msg n w \<Longrightarrow>
    shows_err did msg n (snd (transition_loop k (quiet_env now) sm did new w))"
proof (induction k arbitrary: w)
  case (Suc k)
  have cas: "shows_err did msg n (snd (compareAndSwapStatus (quiet_env now) did a new bl v))"
    if v: "shows_err did msg n v" for a bl v
  proof -
    have "shows_err did msg n ((update_row did (set_status new bl) (stmt (quiet_env now) v))\<lparr> w_writes := ws \<rparr>)" for ws
      using shows_err_update [OF shows_err_stmt [OF v], of "set_status new bl"] by (simp add: shows_err_def)
    with v show ?thesis by (auto simp: compareAndSwapStatus_def Let_def split: option.splits)
  qed
  let ?w1 = "stmt (quiet_env now) w"
  show ?case
  proof (cases "map_of (w_rows w) did")
    case None
    with Suc.prems show ?thesis by (simp add: query_status_def)
  next
    case (Some r)
    define bl where "bl = (if IsTerminal new then Join (logs_get (dl_logs (w_logs ?w1)) did) nl else [])"
    obtain c w2 where c: "compareAndSwapStatus (quiet_env now) did (Status r) new bl ?w1 = (c, w2)" by force
    have w2: "shows_err did msg n w2" using cas [of ?w1 "Status r" bl] c Suc.prems by simp
    from Suc.prems Some c Suc.IH [OF w2] shows_err_after_cas [OF w2] w2 show ?thesis
      by (simp add: query_status_def bl_def [symmetric] Let_def split: sum.split bool.split)
  qed
qed simp

text \<open>
  Failing a deployment. The message is cut to 2000 bytes and stored before the status changes:
  every reader that sees the deployment as failed sees its error message. Without database errors the
  deployment ends as failed, its log stream is closed, and nothing panics.
\<close>

lemma failDeployment_message_first:
  assumes row: "map_of (w_rows w) did = Some r" and ok: "CanTransition sm (Status r) (str StateFailed)"
    and hub: "\<forall>h. map_of (dl_hubs (w_logs w)) did = Some h \<longrightarrow> hub_inv h"
  shows "\<exists>w' r'. failDeployment (quiet_env now) (Some sm) did buildErr w = Some w'
    \<and> map_of (w_rows w') did = Some r' \<and> Status r' = str StateFailed \<and> ErrorMessage r' = take 2000 buildErr
    \<and> (\<forall>rs \<in> set (drop (length (w_seen w)) (w_seen w')).
         status_in rs did = Some (str StateFailed) \<longrightarrow> err_is did (take 2000 buildErr) rs)"
proof -
  let ?e = "quiet_env now" and ?msg = "take 2000 buildErr"
  have msg: "(if length buildErr > 2000 then take 2000 buildErr else buildErr) = ?msg" by simp
  obtain l2 where l2: "(case appendDeployLog did (cross_mark @ '' Deploy failed: '' @ ?msg) (w_logs w) of
      None \<Rightarrow> None | Some l1 \<Rightarrow> closeLogStream did l1) = Some l2"
    using append_close_total [OF hub] by blast
  let ?w0 = "w\<lparr> w_logs := l2 \<rparr>"
  let ?w2 = "update_row did (\<lambda>r. r\<lparr> ErrorMessage := ?msg \<rparr>) (stmt ?e ?w0)"
  have fail: "failDeployment ?e (Some sm) did buildErr w = Some (snd (TransitionState ?e (Some sm) did (str StateFailed) ?w2))"
    unfolding failDeployment_def msg Let_def using l2 by (auto split: option.splits)
  have r2: "map_of (w_rows ?w2) did = Some (r\<lparr> ErrorMessage := ?msg \<rparr>)"
    using row by (simp add: map_of_update_row)
  have ne: "Status r \<noteq> str StateFailed" using ok by (auto simp: CanTransition_def)
  obtain res w' where t: "TransitionState ?e (Some sm) did (str StateFailed) ?w2 = (res, w')" by force
  from transition_quiet_cases [where now = now and sm = sm and did = did and new = "str StateFailed" and w = ?w2] t r2 ne ok
  have fin: "map_of (w_rows w') did = Some (transitioned ?w2 now did (str StateFailed) (r\<lparr> ErrorMessage := ?msg \<rparr>))"
    by simp
  have "shows_err did ?msg (Suc (length (w_seen w))) ?w2"
    using row by (simp add: shows_err_def err_is_def map_of_update_row)
  from shows_err_transition [OF this, of transitionMaxAttempts now sm "str StateFailed"] t
  have se: "shows_err did ?msg (Suc (length (w_seen w))) w'" by (simp add: TransitionState_def)
  have "extends ?w2 w'" using transition_loop_outcome [of transitionMaxAttempts ?e sm did "str StateFailed" ?w2 res w'] t
    by (simp add: TransitionState_def transition_outcome_def Let_def)
  then obtain zs where zs: "w_seen w' = w_seen w @ w_rows w # zs" by (auto simp: extends_def prefix_def)
  have "status_in (w_rows w) did \<noteq> Some (str StateFailed)" using row ne by (simp add: status_in_def)
  with se zs have "\<forall>rs \<in> set (drop (length (w_seen w)) (w_seen w')).
         status_in rs did = Some (str StateFailed) \<longrightarrow> err_is did ?msg rs"
    by (auto simp: shows_err_def)
  with fail t fin show ?thesis by (simp add: transitioned_def Let_def)
qed

lemma failDeployment_message_first_witness:
  "\<exists>w' r'. failDeployment (quiet_env ''t1'') (Some NewStateMachine) ''d1'' ''npm ci failed''
       (sample_world [(''d1'', sample_row (str StateBuilding))]) = Some w'
    \<and> map_of (w_rows w') ''d1'' = Some r' \<and> Status r' = str StateFailed \<and> ErrorMessage r' = ''npm ci failed''"
  using failDeployment_message_first [where w = "sample_world [(''d1'', sample_row (str StateBuilding))]"
      and did = "''d1''" and r = "sample_row (str StateBuilding)" and sm = NewStateMachine and now = "''t1''"
      and buildErr = "''npm ci failed''"]
  by (auto simp: sample_world_def sample_row_def CanTransition_str)

end
