(* ===== verification/Deploy_Concurrency.thy ===== *)
theory Deploy_Concurrency
  imports Deploy_Machine
begin

text \<open>
  Goroutines that change the status of one deployment at the same time: \<open>TransitionState\<close>
  (\<^verbatim>\<open>state_transitions.go\<close>) and \<open>forceStatus\<close> (\<^verbatim>\<open>engine.go\<close>), statement by statement. A step of a
  goroutine is one SQL statement or one operation on the mutex \<open>d.mu\<close>; the scheduler picks any
  goroutine that can move. The compare-and-swap is outside the mutex, the update of
  \<^verbatim>\<open>status_history\<close> inside it, as in the code. Database errors are the subject of
  \<open>Deploy_Transition\<close>; here every statement succeeds. \<open>c_chg\<close> records the status changes with the
  status that was really replaced.
\<close>

datatype outcome = OK | Invalid | Conflict

datatype goroutine =
    TRead string nat
  | TCas string nat string
  | TLock string string
  | FLock string
  | FRead string
  | FSet string string
  | HRead string string
  | HSave string string "(string \<times> string) list"
  | HUnlock
  | Done outcome

record cst =
  c_status :: string
  c_hist :: "(string \<times> string) list"
  c_lock :: "nat option"
  c_thr :: "goroutine list"
  c_chg :: "(string \<times> string) list"

definition goto :: "nat \<Rightarrow> goroutine \<Rightarrow> cst \<Rightarrow> cst" where
  "goto i g s = s\<lparr> c_thr := (c_thr s)[i := g] \<rparr>"

fun gstep :: "nat \<Rightarrow> goroutine \<Rightarrow> cst \<Rightarrow> cst option" where
  "gstep i (TRead new 0) s = Some (goto i (Done Conflict) s)"
| "gstep i (TRead new (Suc n)) s =
     (if c_status s = new then Some (goto i (Done OK) s)
      else if IsValidState NewStateMachine (c_status s) \<and> \<not> CanTransition NewStateMachine (c_status s) new
      then Some (goto i (Done Invalid) s)
      else Some (goto i (TCas new n (c_status s)) s))"
| "gstep i (TCas new n cur) s =
     (if c_status s = cur
      then Some (goto i (TLock cur new) (s\<lparr> c_status := new, c_chg := c_chg s @ [(c_status s, new)] \<rparr>))
      else Some (goto i (TRead new n) s))"
| "gstep i (TLock cur new) s =
     (if c_lock s = None then Some (goto i (HRead cur new) (s\<lparr> c_lock := Some i \<rparr>)) else None)"
| "gstep i (FLock new) s =
     (if c_lock s = None then Some (goto i (FRead new) (s\<lparr> c_lock := Some i \<rparr>)) else None)"
| "gstep i (FRead new) s =
     (if c_status s = new then Some (goto i HUnlock s) else Some (goto i (FSet new (c_status s)) s))"
| "gstep i (FSet new cur) s =
     Some (goto i (HRead cur new) (s\<lparr> c_status := new, c_chg := c_chg s @ [(c_status s, new)] \<rparr>))"
| "gstep i (HRead cur new) s = Some (goto i (HSave cur new (c_hist s @ [(cur, new)])) s)"
| "gstep i (HSave cur new h) s = Some (goto i HUnlock (s\<lparr> c_hist := h \<rparr>))"
| "gstep i HUnlock s = Some (goto i (Done OK) (s\<lparr> c_lock := None \<rparr>))"
| "gstep i (Done r) s = None"

text \<open>The scheduler, as a function of the chosen goroutine and as a step relation.\<close>

definition cstep :: "nat \<Rightarrow> cst \<Rightarrow> cst option" where
  "cstep i s = (if i < length (c_thr s) then gstep i (c_thr s ! i) s else None)"

fun schedule :: "nat list \<Rightarrow> cst \<Rightarrow> cst" where
  "schedule [] s = s"
| "schedule (i # is) s = schedule is (case cstep i s of None \<Rightarrow> s | Some s' \<Rightarrow> s')"

inductive reach :: "cst \<Rightarrow> cst \<Rightarrow> bool" for s0 where
  start: "reach s0 s0"
| move: "reach s0 s \<Longrightarrow> cstep i s = Some s' \<Longrightarrow> reach s0 s'"

lemma reach_schedule: "reach s0 s \<Longrightarrow> reach s0 (schedule is s)"
  by (induction "is" arbitrary: s) (auto split: option.splits intro: move)

text \<open>Callers at their entry: \<open>TransitionState\<close> with its four attempts, or \<open>forceStatus\<close>.\<close>

datatype caller = Transition string | Force string

fun entry :: "caller \<Rightarrow> goroutine" where
  "entry (Transition new) = TRead new 4"
| "entry (Force new) = FLock new"

definition initial :: "string \<Rightarrow> caller list \<Rightarrow> cst" where
  "initial st callers = \<lparr> c_status = st, c_hist = [], c_lock = None, c_thr = map entry callers, c_chg = [] \<rparr>"

section \<open>Invariants\<close>

text \<open>
  What is known of goroutine \<open>i\<close> at its program point: inside the critical section it holds the
  mutex, and a history it is about to save extends the stored one by its own entry.
\<close>

fun tinv :: "nat option \<Rightarrow> (string \<times> string) list \<Rightarrow> nat \<Rightarrow> goroutine \<Rightarrow> bool" where
  "tinv lk hs i (FRead _) = (lk = Some i)"
| "tinv lk hs i (FSet _ _) = (lk = Some i)"
| "tinv lk hs i (HRead _ _) = (lk = Some i)"
| "tinv lk hs i (HSave cur new h) = (lk = Some i \<and> h = hs @ [(cur, new)])"
| "tinv lk hs i HUnlock = (lk = Some i)"
| "tinv lk hs i (TCas new n cur) = (lk \<noteq> Some i \<and> cur \<noteq> new
     \<and> (CanTransition NewStateMachine cur new \<or> \<not> IsValidState NewStateMachine cur))"
| "tinv lk hs i _ = (lk \<noteq> Some i)"

lemma tinv_frame: "tinv lk hs j g \<Longrightarrow> lk' = lk \<and> hs' = hs \<or> lk \<noteq> Some j \<and> lk' \<noteq> Some j \<Longrightarrow> tinv lk' hs' j g"
  by (cases g) auto

fun pending :: "goroutine \<Rightarrow> (string \<times> string) list" where
  "pending (TLock cur new) = [(cur, new)]"
| "pending (HRead cur new) = [(cur, new)]"
| "pending (HSave cur new h) = [(cur, new)]"
| "pending _ = []"

fun forcing :: "goroutine \<Rightarrow> bool" where
  "forcing (FLock _) = True"
| "forcing (FRead _) = True"
| "forcing (FSet _ _) = True"
| "forcing _ = False"

text \<open>A sequence of changes that starts at one status and ends at another, each from where the last ended.\<close>

fun path :: "string \<Rightarrow> (string \<times> string) list \<Rightarrow> string \<Rightarrow> bool" where
  "path a [] b = (a = b)"
| "path a ((x, y) # cs) b = (x = a \<and> path y cs b)"

lemma path_snoc: "path a cs b \<Longrightarrow> path a (cs @ [(b, c)]) c"
  by (induction a cs b rule: path.induct) auto

definition legal :: "string \<times> string \<Rightarrow> bool" where
  "legal ch = (fst ch \<noteq> snd ch \<and> (CanTransition NewStateMachine (fst ch) (snd ch) \<or> \<not> IsValidState NewStateMachine (fst ch)))"

definition cinv :: "cst \<Rightarrow> bool" where
  "cinv s = (\<forall>i < length (c_thr s). tinv (c_lock s) (c_hist s) i (c_thr s ! i))"

definition owner_inv :: "cst \<Rightarrow> bool" where
  "owner_inv s = (\<forall>i. c_lock s = Some i \<longrightarrow> i < length (c_thr s))"

definition pendings :: "cst \<Rightarrow> (string \<times> string) multiset" where
  "pendings s = (\<Sum>g\<leftarrow>c_thr s. mset (pending g))"

lemma sum_list_update: "i < length xs \<Longrightarrow>
    (\<Sum>x\<leftarrow>xs[i := y]. f x) + (f (xs ! i) :: 'b multiset) = (\<Sum>x\<leftarrow>xs. f x) + f y"
proof (induction xs arbitrary: i)
  case (Cons x xs)
  then show ?case by (cases i) (simp_all add: add.assoc add.commute add.left_commute)
qed simp

lemma pendings_goto: "i < length (c_thr s) \<Longrightarrow>
    pendings (goto i g s) + mset (pending (c_thr s ! i)) = pendings s + mset (pending g)"
  unfolding pendings_def goto_def using sum_list_update [of i "c_thr s" "\<lambda>g. mset (pending g)" g] by simp

lemma goto_simps [simp]:
  "c_status (goto i g s) = c_status s" "c_hist (goto i g s) = c_hist s" "c_lock (goto i g s) = c_lock s"
  "c_chg (goto i g s) = c_chg s" "c_thr (goto i g s) = (c_thr s)[i := g]"
  by (simp_all add: goto_def)

lemma pendings_cong: "c_thr s = c_thr s' \<Longrightarrow> pendings s = pendings s'"
  by (simp add: pendings_def)

text \<open>One step: the goroutine moves on, and touches the mutex or the history only as the owner.\<close>

lemma gstep_frame:
  assumes "gstep i g s = Some s'" "tinv (c_lock s) (c_hist s) i g"
  shows "\<exists>g'. c_thr s' = (c_thr s)[i := g'] \<and> tinv (c_lock s') (c_hist s') i g'
    \<and> (c_lock s' = c_lock s \<and> c_hist s' = c_hist s \<or> c_lock s \<in> {None, Some i} \<and> c_lock s' \<in> {None, Some i})"
  using assms by (cases "(i, g, s)" rule: gstep.cases) (auto split: if_splits)

lemma cinv_step: "cinv s \<Longrightarrow> cstep i s = Some s' \<Longrightarrow> cinv s'"
proof -
  assume c: "cinv s" and st: "cstep i s = Some s'"
  from st have i: "i < length (c_thr s)" and g: "gstep i (c_thr s ! i) s = Some s'"
    by (auto simp: cstep_def split: if_splits)
  from gstep_frame [OF g] c i obtain g' where g': "c_thr s' = (c_thr s)[i := g']"
    "tinv (c_lock s') (c_hist s') i g'"
    "c_lock s' = c_lock s \<and> c_hist s' = c_hist s \<or> c_lock s \<in> {None, Some i} \<and> c_lock s' \<in> {None, Some i}"
    by (auto simp: cinv_def)
  have "tinv (c_lock s') (c_hist s') j (c_thr s' ! j)" if j: "j < length (c_thr s')" for j
  proof (cases "j = i")
    case False
    from c j g'(1) have "tinv (c_lock s) (c_hist s) j (c_thr s ! j)" by (simp add: cinv_def)
    from tinv_frame [OF this] g'(3) False have "tinv (c_lock s') (c_hist s') j (c_thr s ! j)" by auto
    with False g'(1) show ?thesis by simp
  qed (use g' i in simp)
  then show ?thesis by (simp add: cinv_def)
qed

lemma owner_inv_step: "owner_inv s \<Longrightarrow> cinv s \<Longrightarrow> cstep i s = Some s' \<Longrightarrow> owner_inv s'"
proof -
  assume o: "owner_inv s" and c: "cinv s" and st: "cstep i s = Some s'"
  from st have i: "i < length (c_thr s)" and g: "gstep i (c_thr s ! i) s = Some s'"
    by (auto simp: cstep_def split: if_splits)
  from gstep_frame [OF g] c i show ?thesis using o i by (auto simp: cinv_def owner_inv_def)
qed

text \<open>
  The changes form a path to the current status, a legal one while nobody forces, and the entries
  of the history and the pending ones are, together, the changes (up to a view \<open>k\<close> of entries that
  forgets what \<open>forceStatus\<close> may get wrong, the From field).
\<close>

definition chg_inv :: "string \<Rightarrow> ((string \<times> string) \<Rightarrow> 'a) \<Rightarrow> bool \<Rightarrow> cst \<Rightarrow> bool" where
  "chg_inv st0 k nf s = (path st0 (c_chg s) (c_status s)
     \<and> (nf \<longrightarrow> (\<forall>g \<in> set (c_thr s). \<not> forcing g) \<and> (\<forall>ch \<in> set (c_chg s). legal ch))
     \<and> image_mset k (mset (c_hist s) + pendings s) = image_mset k (mset (c_chg s)))"

lemma gstep_entries:
  assumes "gstep i g s = Some s'" "tinv (c_lock s) (c_hist s) i g"
    and "(\<forall>a b c. k (a, c) = k (b, c)) \<or> \<not> forcing g"
  shows "\<exists>g'. c_thr s' = (c_thr s)[i := g'] \<and>
    image_mset k (mset (c_hist s')) + image_mset k (mset (pending g')) + image_mset k (mset (c_chg s)) =
    image_mset k (mset (c_hist s)) + image_mset k (mset (pending g)) + image_mset k (mset (c_chg s'))"
proof (cases "(i, g, s)" rule: gstep.cases)
  case (7 i1 new cur s1)
  then have k: "k (cur, new) = k (c_status s, new)" using assms(3) by auto
  with 7 assms(1) show ?thesis by (auto simp: k)
qed (use assms in \<open>auto split: if_splits\<close>)

lemma pend_step:
  assumes st: "gstep i (c_thr s ! i) s = Some s'" and i: "i < length (c_thr s)"
    and ti: "tinv (c_lock s) (c_hist s) i (c_thr s ! i)"
    and k: "(\<forall>a b c. k (a, c) = k (b, c)) \<or> \<not> forcing (c_thr s ! i)"
    and eq: "image_mset k (mset (c_hist s) + pendings s) = image_mset k (mset (c_chg s))"
  shows "image_mset k (mset (c_hist s') + pendings s') = image_mset k (mset (c_chg s'))"
proof -
  from gstep_entries [OF st ti k] obtain g' where g': "c_thr s' = (c_thr s)[i := g']"
    and e: "image_mset k (mset (c_hist s')) + image_mset k (mset (pending g')) + image_mset k (mset (c_chg s)) =
      image_mset k (mset (c_hist s)) + image_mset k (mset (pending (c_thr s ! i))) + image_mset k (mset (c_chg s'))"
    by blast
  have "pendings s' + mset (pending (c_thr s ! i)) = pendings s + mset (pending g')"
    using sum_list_update [OF i, of "\<lambda>g. mset (pending g)" g'] g' by (simp add: pendings_def)
  then have p: "image_mset k (pendings s') + image_mset k (mset (pending (c_thr s ! i))) =
      image_mset k (pendings s) + image_mset k (mset (pending g'))" by (metis image_mset_union)
  have "count (image_mset k (mset (c_hist s') + pendings s')) x = count (image_mset k (mset (c_chg s'))) x" for x
    using arg_cong [OF e, of "\<lambda>m. count m x"] arg_cong [OF p, of "\<lambda>m. count m x"] arg_cong [OF eq, of "\<lambda>m. count m x"]
    by (simp only: count_union image_mset_union)
  then show ?thesis by (rule multiset_eqI)
qed

lemma gstep_forcing: "gstep i g s = Some s' \<Longrightarrow> \<exists>g'. c_thr s' = (c_thr s)[i := g'] \<and> (forcing g' \<longrightarrow> forcing g)"
  by (cases "(i, g, s)" rule: gstep.cases) (auto split: if_splits)

lemma gstep_path:
  assumes st: "gstep i g s = Some s'" and ti: "tinv (c_lock s) (c_hist s) i g"
  shows "c_chg s' = c_chg s \<and> c_status s' = c_status s
     \<or> c_chg s' = c_chg s @ [(c_status s, c_status s')] \<and> (forcing g \<or> legal (c_status s, c_status s'))"
proof (cases g)
  case (TCas new n cur)
  with ti have "legal (cur, new)" by (simp add: legal_def)
  with TCas st show ?thesis by (auto split: if_splits)
next
  case (TRead new n)
  with st show ?thesis by (cases n) (auto split: if_splits)
qed (use st in \<open>auto split: if_splits\<close>)

lemma chg_inv_step:
  assumes c: "cinv s" and ch: "chg_inv st0 k nf s" and st: "cstep i s = Some s'"
    and k: "(\<forall>a b c. k (a, c) = k (b, c)) \<or> nf"
  shows "chg_inv st0 k nf s'"
proof -
  from st have i: "i < length (c_thr s)" and g: "gstep i (c_thr s ! i) s = Some s'"
    by (auto simp: cstep_def split: if_splits)
  have ti: "tinv (c_lock s) (c_hist s) i (c_thr s ! i)" using c i by (simp add: cinv_def)
  have nf: "nf \<Longrightarrow> \<not> forcing (c_thr s ! i)" using ch i by (simp add: chg_inv_def)
  have "image_mset k (mset (c_hist s') + pendings s') = image_mset k (mset (c_chg s'))"
    by (rule pend_step [OF g i ti]) (use k nf ch in \<open>auto simp: chg_inv_def\<close>)
  moreover from gstep_path [OF g ti] ch have "path st0 (c_chg s') (c_status s')"
    using path_snoc [of st0 "c_chg s" "c_status s" "c_status s'"] by (auto simp: chg_inv_def)
  moreover have "(\<forall>g \<in> set (c_thr s'). \<not> forcing g) \<and> (\<forall>ch \<in> set (c_chg s'). legal ch)" if nf: nf
  proof -
    from ch nf have old: "\<forall>g \<in> set (c_thr s). \<not> forcing g" "\<forall>ch \<in> set (c_chg s). legal ch"
      by (auto simp: chg_inv_def)
    from gstep_forcing [OF g] i old(1) have "\<forall>g \<in> set (c_thr s'). \<not> forcing g"
      by (auto dest!: set_update_subset_insert [THEN subsetD])
    moreover from gstep_path [OF g ti] old i have "\<forall>ch \<in> set (c_chg s'). legal ch" by auto
    ultimately show ?thesis ..
  qed
  ultimately show ?thesis by (simp add: chg_inv_def)
qed

lemma reach_invs:
  assumes "reach (initial st callers) s" "(\<forall>a b c. k (a, c) = k (b, c)) \<or> nf"
    and "nf \<Longrightarrow> \<forall>c \<in> set callers. \<exists>new. c = Transition new"
  shows "cinv s \<and> owner_inv s \<and> chg_inv st k nf s"
  using assms(1)
proof induction
  case start
  have e: "tinv None [] i (entry c)" for i c by (cases c) auto
  have p: "(\<Sum>g\<leftarrow>map entry callers. mset (pending g)) = {#}"
    by (induction callers) (auto elim: entry.elims, case_tac a, auto)
  have f: "nf \<Longrightarrow> \<forall>g \<in> set (map entry callers). \<not> forcing g" using assms(3) by fastforce
  show ?case using e p f by (auto simp: initial_def cinv_def owner_inv_def chg_inv_def pendings_def)
next
  case (move s i s')
  then show ?case using cinv_step owner_inv_step chg_inv_step assms(2) by blast
qed

section \<open>Theorems\<close>

fun is_done :: "goroutine \<Rightarrow> bool" where
  "is_done (Done r) = True"
| "is_done _ = False"

definition finished :: "cst \<Rightarrow> bool" where
  "finished s = list_all is_done (c_thr s)"

lemma finished_pendings: "finished s \<Longrightarrow> pendings s = {#}"
proof -
  have "list_all is_done gs \<Longrightarrow> (\<Sum>g\<leftarrow>gs. mset (pending g)) = {#}" for gs
    by (induction gs) (auto elim: is_done.elims)
  then show "finished s \<Longrightarrow> pendings s = {#}" by (simp add: finished_def pendings_def)
qed

text \<open>
  C28. Concurrent transitions, without forced changes: in every interleaving the real status changes
  form an unbroken chain from the initial status to the current one, every link legal under the state
  machine, and when all callers have returned the recorded history contains exactly these changes,
  each once, with the right From and To: no entry is lost, doubled or made up.
\<close>

theorem concurrent_transitions_history:
  assumes "reach (initial st (map Transition news)) s"
  shows "path st (c_chg s) (c_status s) \<and> (\<forall>ch \<in> set (c_chg s). legal ch)
    \<and> (finished s \<longrightarrow> mset (c_hist s) = mset (c_chg s))"
  using reach_invs [OF assms, of id True] finished_pendings [of s] by (auto simp: chg_inv_def)

definition two_callers :: cst where
  "two_callers = schedule [0, 0, 1, 1, 1, 1, 1, 1, 0, 0, 0, 0]
     (initial (str StateBuilding) (map Transition [str StateDeploying, str StateRunning]))"

lemma concurrent_transitions_history_witness:
  "finished two_callers \<and> path (str StateBuilding) (c_chg two_callers) (c_status two_callers)
   \<and> mset (c_hist two_callers) = mset (c_chg two_callers)"
proof -
  have r: "reach (initial (str StateBuilding) (map Transition [str StateDeploying, str StateRunning])) two_callers"
    unfolding two_callers_def by (rule reach_schedule) (rule reach.start)
  have "finished two_callers" by code_simp
  then show ?thesis using concurrent_transitions_history [OF r] by blast
qed

text \<open>
  Concurrent transitions and forced changes together: the changes still form an unbroken chain,
  every change is recorded exactly once under its real new status, and at most one goroutine is
  between reading and writing the history.
\<close>

lemma concurrent_forced_history:
  assumes "reach (initial st callers) s"
  shows "path st (c_chg s) (c_status s)
    \<and> (finished s \<longrightarrow> mset (map snd (c_hist s)) = mset (map snd (c_chg s)))
    \<and> (\<forall>i j. i < length (c_thr s) \<longrightarrow> j < length (c_thr s) \<longrightarrow> i \<noteq> j \<longrightarrow>
         \<not> ((\<exists>c n h. c_thr s ! i = HSave c n h) \<and> (\<exists>c n h. c_thr s ! j = HSave c n h)))"
proof (intro conjI impI allI)
  note inv = reach_invs [OF assms, of snd False]
  show "path st (c_chg s) (c_status s)" using inv by (simp add: chg_inv_def)
  show "mset (map snd (c_hist s)) = mset (map snd (c_chg s))" if "finished s"
    using inv finished_pendings [OF that] by (simp add: chg_inv_def)
  fix i j assume ij: "i < length (c_thr s)" "j < length (c_thr s)" "i \<noteq> j"
  show "\<not> ((\<exists>c n h. c_thr s ! i = HSave c n h) \<and> (\<exists>c n h. c_thr s ! j = HSave c n h))"
  proof
    assume "(\<exists>c n h. c_thr s ! i = HSave c n h) \<and> (\<exists>c n h. c_thr s ! j = HSave c n h)"
    then obtain c n h c' n' h' where g: "c_thr s ! i = HSave c n h" "c_thr s ! j = HSave c' n' h'" by blast
    have "tinv (c_lock s) (c_hist s) i (c_thr s ! i)" "tinv (c_lock s) (c_hist s) j (c_thr s ! j)"
      using inv ij by (simp_all add: cinv_def)
    with g ij(3) show False by simp
  qed
qed

text \<open>A forced stop that races a crash: the entry says it left \<open>running\<close>, the row was already \<open>failed\<close>.\<close>

definition stale_force :: cst where
  "stale_force = schedule [0, 0, 1, 1, 0, 0, 0, 0, 0, 1, 1, 1, 1, 1]
     (initial (str StateRunning) [Force (str StateStopped), Transition (str StateFailed)])"

lemma concurrent_forced_history_witness:
  "finished stale_force \<and> path (str StateRunning) (c_chg stale_force) (c_status stale_force)
   \<and> mset (map snd (c_hist stale_force)) = mset (map snd (c_chg stale_force))"
proof -
  have r: "reach (initial (str StateRunning) [Force (str StateStopped), Transition (str StateFailed)]) stale_force"
    unfolding stale_force_def by (rule reach_schedule) (rule reach.start)
  have "finished stale_force" by code_simp
  then show ?thesis using concurrent_forced_history [OF r] by blast
qed

lemma forceStatus_stale_From:
  "c_chg stale_force = [(str StateRunning, str StateFailed), (str StateFailed, str StateStopped)]
   \<and> c_hist stale_force = [(str StateRunning, str StateStopped), (str StateRunning, str StateFailed)]"
  by code_simp

section \<open>Progress\<close>

fun rank :: "goroutine \<Rightarrow> nat" where
  "rank (TRead new n) = 6 + 2 * n"
| "rank (TCas new n cur) = 7 + 2 * n"
| "rank (TLock cur new) = 5"
| "rank (FLock new) = 7"
| "rank (FRead new) = 6"
| "rank (FSet new cur) = 5"
| "rank (HRead cur new) = 4"
| "rank (HSave cur new h) = 3"
| "rank HUnlock = 2"
| "rank (Done r) = 0"

definition work :: "cst \<Rightarrow> nat" where
  "work s = (\<Sum>g\<leftarrow>c_thr s. rank g)"

lemma gstep_rank: "gstep i g s = Some s' \<Longrightarrow> \<exists>g'. c_thr s' = (c_thr s)[i := g'] \<and> rank g' < rank g"
  by (cases "(i, g, s)" rule: gstep.cases) (auto split: if_splits)

lemma sum_list_less: "i < length xs \<Longrightarrow> f y < f (xs ! i) \<Longrightarrow> (\<Sum>x\<leftarrow>xs[i := y]. f x) < (\<Sum>x\<leftarrow>xs. f x :: nat)"
proof (induction xs arbitrary: i)
  case (Cons x xs)
  then show ?case by (cases i) auto
qed simp

lemma work_decreases: "cstep i s = Some s' \<Longrightarrow> work s' < work s"
proof -
  assume st: "cstep i s = Some s'"
  then have i: "i < length (c_thr s)" and g: "gstep i (c_thr s ! i) s = Some s'"
    by (auto simp: cstep_def split: if_splits)
  from gstep_rank [OF g] i show ?thesis by (auto simp: work_def sum_list_less)
qed

lemma enabled:
  assumes "cinv s" "owner_inv s" "\<not> finished s"
  shows "\<exists>i s'. cstep i s = Some s'"
proof (cases "c_lock s")
  case None
  from assms(3) obtain i where i: "i < length (c_thr s)" "\<not> is_done (c_thr s ! i)"
    by (auto simp: finished_def list_all_length)
  have "gstep i (c_thr s ! i) s \<noteq> None"
    using i(2) None by (cases "(i, c_thr s ! i, s)" rule: gstep.cases) auto
  with i(1) show ?thesis by (auto simp: cstep_def)
next
  case (Some i)
  with assms(2) have i: "i < length (c_thr s)" by (simp add: owner_inv_def)
  with assms(1) Some have "tinv (Some i) (c_hist s) i (c_thr s ! i)" by (simp add: cinv_def)
  then have "gstep i (c_thr s ! i) s \<noteq> None" by (cases "c_thr s ! i") auto
  with i show ?thesis by (auto simp: cstep_def)
qed



end
