(* ===== verification/Deploy_Supervisor.thy ===== *)
theory Deploy_Supervisor
  imports BB_Prelude Complex_Main
begin

text \<open>
  The restart policy of running deployments (\<^verbatim>\<open>components/deploy/supervisor.go\<close>): backoff with full
  jitter, crash-loop detection, intentional stops and health polling. Times and durations are
  integers of nanoseconds. The runner, the clock, the random jitter and the calls other goroutines
  make meanwhile are the arguments of the loop, one record per attempt; a script that ends leaves the
  loop supervising.
\<close>

section \<open>Policy constants, backoff, crash-loop detection\<close>

definition second :: int where
  "second = 1000000000"

definition backoffBase :: int where
  "backoffBase = second"

definition backoffFactor :: int where
  "backoffFactor = 2"

definition backoffCap :: int where
  "backoffCap = 60 * second"

definition crashLoopBurst :: nat where
  "crashLoopBurst = 5"

definition crashLoopWindow :: int where
  "crashLoopWindow = 60 * second"

definition healthFailureThreshold :: nat where
  "healthFailureThreshold = 3"

text \<open>
  \<open>rnd\<close> is the rounding of a float64 product. Powers of two times the base are exact in float64, and
  a power that overflows is above the cap.
\<close>

definition nextBackoff :: "(rat \<Rightarrow> rat) \<Rightarrow> nat \<Rightarrow> rat \<Rightarrow> int" where
  "nextBackoff rnd attempt jitter =
     (let ceiling = backoffBase * backoffFactor ^ attempt;
          ceiling' = (if ceiling > backoffCap then backoffCap else ceiling)
      in \<lfloor>rnd (jitter * of_int ceiling')\<rfloor>)"

definition isCrashLooping :: "int list \<Rightarrow> int \<Rightarrow> bool" where
  "isCrashLooping history now =
     (let cutoff = now - crashLoopWindow
      in length (filter (\<lambda>t. \<not> t < cutoff \<and> \<not> t > now) history) \<ge> crashLoopBurst)"

text \<open>What the restart policy uses of float64 rounding: it is monotone and keeps small integers.\<close>

definition rounds :: "(rat \<Rightarrow> rat) \<Rightarrow> bool" where
  "rounds rnd = (mono rnd \<and> (\<forall>n::int. 0 \<le> n \<longrightarrow> n \<le> backoffCap \<longrightarrow> rnd (of_int n) = of_int n))"

lemma rounds_id: "rounds id"
  by (simp add: rounds_def mono_def)

text \<open>
  Full jitter: for a jitter fraction between 0 and 1 the delay before restart \<open>k\<close> is between zero and
  the smaller of 60 seconds and 2 to the \<open>k\<close> seconds, and a fraction of one gives exactly that bound.
\<close>

lemma nextBackoff_range:
  assumes r: "rounds rnd" and f: "0 \<le> jitter" "jitter \<le> 1"
  shows "0 \<le> nextBackoff rnd k jitter \<and> nextBackoff rnd k jitter \<le> min backoffCap (second * 2 ^ k)
    \<and> nextBackoff rnd k 1 = min backoffCap (second * 2 ^ k)"
proof -
  define c where "c = min backoffCap (second * 2 ^ k)"
  have c0: "0 \<le> c" "c \<le> backoffCap" by (simp_all add: c_def backoffCap_def second_def)
  have nb: "nextBackoff rnd k x = \<lfloor>rnd (x * of_int c)\<rfloor>" for x
    by (simp add: nextBackoff_def Let_def c_def backoffBase_def backoffFactor_def min_def)
  have exact: "rnd (of_int c) = of_int c" "rnd 0 = 0"
    using r c0 unfolding rounds_def by (auto dest: spec [of _ 0])
  have "jitter * of_int c \<le> of_int c" using f c0 by (simp add: mult_left_le_one_le)
  with r exact have "rnd (jitter * of_int c) \<le> of_int c" unfolding rounds_def by (metis monoD)
  moreover have "0 \<le> jitter * of_int c" using f c0 by simp
  with r exact have "0 \<le> rnd (jitter * of_int c)" unfolding rounds_def by (metis monoD)
  ultimately have "0 \<le> \<lfloor>rnd (jitter * of_int c)\<rfloor> \<and> \<lfloor>rnd (jitter * of_int c)\<rfloor> \<le> c"
    by (simp add: floor_le_iff)
  then show ?thesis unfolding nb c_def [symmetric] by (simp add: exact)
qed

section \<open>Supervisor state\<close>

record Spec =
  DeployID :: string
  Host :: string
  SpecPort :: int
  HealthPort :: int

text \<open>
  \<open>registry\<close> is the host table when a registry is configured; \<open>failed\<close> and \<open>sup_events\<close> are the calls of
  \<open>onFailed\<close> and \<open>onEvent\<close>; an instance is a number, \<open>halted\<close> the instances told to stop, \<open>slept\<close> the
  delays slept.
\<close>

record Supervisor =
  registry :: "(string, int \<times> string) go_map option"
  failed :: "string list"
  sup_events :: "(string \<times> string) list"
  stopping :: "(string, bool) go_map"
  instances :: "(string, nat) go_map"
  halted :: "nat list"
  spawned :: nat
  slept :: "int list"

definition NewSupervisor :: "(string, int \<times> string) go_map option \<Rightarrow> Supervisor" where
  "NewSupervisor reg = \<lparr> registry = reg, failed = [], sup_events = [], stopping = [], instances = [],
     halted = [], spawned = 0, slept = [] \<rparr>"

definition isStopping :: "Supervisor \<Rightarrow> string \<Rightarrow> bool" where
  "isStopping s did = (case map_of (stopping s) did of None \<Rightarrow> False | Some b \<Rightarrow> b)"

definition setInstance :: "string \<Rightarrow> nat option \<Rightarrow> Supervisor \<Rightarrow> Supervisor" where
  "setInstance did inst s = (case inst of
     None \<Rightarrow> s\<lparr> instances := map_del did (instances s) \<rparr>
   | Some i \<Rightarrow> s\<lparr> instances := map_put did i (instances s) \<rparr>)"

definition halt :: "nat \<Rightarrow> Supervisor \<Rightarrow> Supervisor" where
  "halt i s = s\<lparr> halted := halted s @ [i] \<rparr>"

definition Stop :: "string \<Rightarrow> Supervisor \<Rightarrow> Supervisor" where
  "Stop did s =
     (let s1 = s\<lparr> stopping := map_put did True (stopping s) \<rparr> in
      case map_of (instances s1) did of None \<Rightarrow> s1 | Some i \<Rightarrow> halt i s1)"

definition register_host :: "Spec \<Rightarrow> Supervisor \<Rightarrow> Supervisor" where
  "register_host spec s = (case registry s of
     None \<Rightarrow> s
   | Some reg \<Rightarrow> if Host spec \<noteq> [] then s\<lparr> registry := Some (map_put (Host spec) (SpecPort spec, DeployID spec) reg) \<rparr> else s)"

definition tripCrashLoop :: "Spec \<Rightarrow> Supervisor \<Rightarrow> Supervisor" where
  "tripCrashLoop spec s =
     (let s1 = (case registry s of
                  None \<Rightarrow> s
                | Some reg \<Rightarrow> if Host spec \<noteq> [] then s\<lparr> registry := Some (map_del (Host spec) reg) \<rparr> else s)
      in s1\<lparr> failed := failed s1 @ [DeployID spec],
             sup_events := sup_events s1 @ [(''deploy.crash_looped'', DeployID spec)] \<rparr>)"

section \<open>The supervision loop\<close>

text \<open>
  One attempt as the outside decides it: whether \<open>Stop\<close> is called before each of the three checks,
  whether the spawn succeeds, the two clock readings after the crash, and the jitter.
\<close>

record attempt =
  a_stop0 :: bool
  a_spawn :: bool
  a_stop1 :: bool
  a_stop2 :: bool
  a_now1 :: int
  a_now2 :: int
  a_jitter :: rat

datatype run_result = Stopped | Tripped | Supervising

definition called :: "bool \<Rightarrow> string \<Rightarrow> Supervisor \<Rightarrow> Supervisor" where
  "called b did s = (if b then Stop did s else s)"

text \<open>The crash branch shared by a failed spawn and an exited instance: \<open>Inl\<close> ends the loop.\<close>

definition crashed :: "(rat \<Rightarrow> rat) \<Rightarrow> Spec \<Rightarrow> nat \<Rightarrow> attempt \<Rightarrow> int list \<Rightarrow> Supervisor
    \<Rightarrow> Supervisor + int list \<times> Supervisor" where
  "crashed rnd spec k a history s =
     (let history' = history @ [a_now1 a] in
      if isCrashLooping history' (a_now2 a) then Inl (tripCrashLoop spec s)
      else Inr (history', s\<lparr> slept := slept s @ [nextBackoff rnd k (a_jitter a)] \<rparr>))"

fun Run_loop :: "(rat \<Rightarrow> rat) \<Rightarrow> Spec \<Rightarrow> nat \<Rightarrow> int list \<Rightarrow> attempt list \<Rightarrow> Supervisor
    \<Rightarrow> run_result \<times> int list \<times> Supervisor" where
  "Run_loop rnd spec k history [] s = (Supervising, history, s)"
| "Run_loop rnd spec k history (a # as) s =
     (let did = DeployID spec; s0 = called (a_stop0 a) did s in
      if isStopping s0 did then (Stopped, history, s0)
      else if \<not> a_spawn a
      then (case crashed rnd spec k a history s0 of
              Inl s1 \<Rightarrow> (Tripped, history @ [a_now1 a], s1)
            | Inr (history', s1) \<Rightarrow> Run_loop rnd spec (Suc k) history' as s1)
      else
        (let inst = spawned s0;
             s1 = register_host spec (s0\<lparr> spawned := Suc inst \<rparr>);
             s2 = called (a_stop1 a) did (setInstance did (Some inst) s1)
         in if isStopping s2 did then (Stopped, history, setInstance did None (halt inst s2))
            else
              (let s3 = setInstance did None (called (a_stop2 a) did s2) in
               if isStopping s3 did then (Stopped, history, s3)
               else (case crashed rnd spec k a history s3 of
                       Inl s4 \<Rightarrow> (Tripped, history @ [a_now1 a], s4)
                     | Inr (history', s4) \<Rightarrow> Run_loop rnd spec (Suc k) history' as s4))))"

definition Run :: "(rat \<Rightarrow> rat) \<Rightarrow> Spec \<Rightarrow> attempt list \<Rightarrow> Supervisor \<Rightarrow> run_result \<times> int list \<times> Supervisor" where
  "Run rnd spec as s = Run_loop rnd spec 0 [] as s"

section \<open>Facts about the operations\<close>

lemma isStopping_Stop [simp]: "isStopping (Stop did s) did"
  by (cases "map_of (instances s) did") (simp_all add: Stop_def isStopping_def halt_def Let_def)

lemma op_simps [simp]:
  "failed (Stop did s) = failed s" "failed (setInstance did i s) = failed s" "failed (halt n s) = failed s"
  "failed (register_host spec s) = failed s" "failed (called b did s) = failed s"
  "registry (Stop did s) = registry s" "registry (setInstance did i s) = registry s"
  "registry (halt n s) = registry s" "registry (called b did s) = registry s"
  "sup_events (Stop did s) = sup_events s" "sup_events (setInstance did i s) = sup_events s"
  "sup_events (halt n s) = sup_events s" "sup_events (register_host spec s) = sup_events s"
  "sup_events (called b did s) = sup_events s"
  by (simp_all add: Stop_def setInstance_def halt_def register_host_def called_def Let_def split: option.splits)

lemma instances_simps [simp]:
  "map_of (instances (setInstance did None s)) did = None"
  "instances (halt n s) = instances s" "instances (register_host spec s) = instances s"
  "instances (called b did s) = instances s"
  by (simp_all add: setInstance_def halt_def register_host_def called_def Stop_def Let_def split: option.splits)

lemma trip_simps [simp]:
  "failed (tripCrashLoop spec s) = failed s @ [DeployID spec]"
  "sup_events (tripCrashLoop spec s) = sup_events s @ [(''deploy.crash_looped'', DeployID spec)]"
  "instances (tripCrashLoop spec s) = instances s"
  by (simp_all add: tripCrashLoop_def Let_def split: option.splits)

lemma trip_unregisters: "registry (tripCrashLoop spec s) = Some reg \<Longrightarrow> Host spec \<noteq> [] \<Longrightarrow> map_of reg (Host spec) = None"
  by (auto simp: tripCrashLoop_def Let_def split: option.splits)

lemma crashed_cases:
  "crashed rnd spec k a history s = Inl s' \<Longrightarrow>
     isCrashLooping (history @ [a_now1 a]) (a_now2 a) \<and> s' = tripCrashLoop spec s"
  "crashed rnd spec k a history s = Inr (h', s') \<Longrightarrow>
     \<not> isCrashLooping (history @ [a_now1 a]) (a_now2 a) \<and> h' = history @ [a_now1 a]
     \<and> failed s' = failed s \<and> sup_events s' = sup_events s \<and> instances s' = instances s"
  by (auto simp: crashed_def Let_def split: if_splits)

lemma stopping_simps [simp]:
  "isStopping (setInstance did i s) d = isStopping s d" "isStopping (halt n s) d = isStopping s d"
  "isStopping (register_host spec s) d = isStopping s d"
  "isStopping (s\<lparr> spawned := n \<rparr>) d = isStopping s d" "isStopping (s\<lparr> slept := sl \<rparr>) d = isStopping s d"
  by (simp_all add: isStopping_def setInstance_def halt_def register_host_def split: option.splits)

lemma isStopping_called: "isStopping (called b did s) did \<longleftrightarrow> b \<or> isStopping s did"
  by (simp add: called_def)

definition asked :: "attempt \<Rightarrow> bool" where
  "asked a = (a_stop0 a \<or> a_stop1 a \<or> a_stop2 a)"

text \<open>
  One pass of the loop: it stops, trips, or goes on with one more crash in the history. \<open>s1\<close> is the
  state in which the attempt ended.
\<close>

lemma Run_pass:
  fixes rnd spec k history a as s
  defines "did \<equiv> DeployID spec" and "h' \<equiv> history @ [a_now1 a]"
  defines "out \<equiv> Run_loop rnd spec k history (a # as) s"
  shows "\<exists>s1 s2. failed s1 = failed s \<and> sup_events s1 = sup_events s
    \<and> (map_of (instances s) did = None \<longrightarrow> map_of (instances s1) did = None)
    \<and> (isStopping s1 did \<longleftrightarrow> isStopping s did \<or> isStopping s1 did \<and> asked a)
    \<and> failed s2 = failed s \<and> sup_events s2 = sup_events s \<and> isStopping s2 did = isStopping s1 did
    \<and> (map_of (instances s) did = None \<longrightarrow> map_of (instances s2) did = None)
    \<and> out = (if isStopping s1 did then (Stopped, history, s1)
       else if isCrashLooping h' (a_now2 a) then (Tripped, h', tripCrashLoop spec s1)
       else Run_loop rnd spec (Suc k) h' as s2)"
proof -
  define s0 where "s0 = called (a_stop0 a) did s"
  define s1 where "s1 = setInstance did (Some (spawned s0)) (register_host spec (s0\<lparr> spawned := Suc (spawned s0) \<rparr>))"
  define s2 where "s2 = called (a_stop1 a) did s1"
  define s3 where "s3 = setInstance did None (called (a_stop2 a) did s2)"
  define fin where "fin = (if isStopping s0 did \<or> \<not> a_spawn a then s0
    else if isStopping s2 did then setInstance did None (halt (spawned s0) s2) else s3)"
  have stop: "isStopping fin did \<longleftrightarrow> isStopping s did \<or> isStopping fin did \<and> asked a"
    by (auto simp: fin_def s0_def s1_def s2_def s3_def isStopping_called asked_def)
  have keep: "failed fin = failed s \<and> sup_events fin = sup_events s
      \<and> (map_of (instances s) did = None \<longrightarrow> map_of (instances fin) did = None)"
    by (simp add: fin_def s0_def s1_def s2_def s3_def)
  have step: "out = (if isStopping fin did then (Stopped, history, fin)
      else case crashed rnd spec k a history fin of
        Inl t \<Rightarrow> (Tripped, h', t) | Inr (hh, t) \<Rightarrow> Run_loop rnd spec (Suc k) hh as t)"
    unfolding out_def Run_loop.simps Let_def did_def [symmetric] s0_def [symmetric] h'_def
      s1_def [symmetric] s2_def [symmetric] s3_def [symmetric] fin_def
    by simp
  have cr: "crashed rnd spec k a history fin = (if isCrashLooping h' (a_now2 a) then Inl (tripCrashLoop spec fin)
      else Inr (h', fin\<lparr> slept := slept fin @ [nextBackoff rnd k (a_jitter a)] \<rparr>))"
    by (simp add: crashed_def h'_def)
  let ?s2 = "fin\<lparr> slept := slept fin @ [nextBackoff rnd k (a_jitter a)] \<rparr>"
  have "out = (if isStopping fin did then (Stopped, history, fin)
       else if isCrashLooping h' (a_now2 a) then (Tripped, h', tripCrashLoop spec fin)
       else Run_loop rnd spec (Suc k) h' as ?s2)"
    unfolding step cr by simp
  with stop keep show ?thesis by (intro exI [of _ fin] exI [of _ ?s2]) simp
qed

lemma Run_loop_outcome:
  assumes "Run_loop rnd spec k history as s = (res, h, s')"
  shows "\<exists>m \<le> length as. h = history @ map a_now1 (take m as)
    \<and> (\<forall>n < m. Suc n < m \<or> res \<noteq> Tripped \<longrightarrow> \<not> isCrashLooping (history @ map a_now1 (take (Suc n) as)) (a_now2 (as ! n)))
    \<and> (res = Tripped \<longrightarrow> 0 < m \<and> isCrashLooping h (a_now2 (as ! (m - 1)))
         \<and> failed s' = failed s @ [DeployID spec]
         \<and> sup_events s' = sup_events s @ [(''deploy.crash_looped'', DeployID spec)]
         \<and> (\<forall>reg. registry s' = Some reg \<and> Host spec \<noteq> [] \<longrightarrow> map_of reg (Host spec) = None))
    \<and> (res \<noteq> Tripped \<longrightarrow> failed s' = failed s \<and> sup_events s' = sup_events s)
    \<and> (res = Stopped \<longrightarrow> isStopping s' (DeployID spec) \<and> (isStopping s (DeployID spec) \<or> (\<exists>a \<in> set (take (Suc m) as). asked a)))
    \<and> (res = Supervising \<longrightarrow> m = length as)
    \<and> (map_of (instances s) (DeployID spec) = None \<longrightarrow> map_of (instances s') (DeployID spec) = None)"
  using assms
proof (induction as arbitrary: k history s)
  case Nil
  then show ?case by simp
next
  case (Cons a as)
  let ?h = "history @ [a_now1 a]" and ?did = "DeployID spec"
  obtain s1 s2 where s1: "failed s1 = failed s" "sup_events s1 = sup_events s"
    "map_of (instances s) ?did = None \<longrightarrow> map_of (instances s1) ?did = None"
    "isStopping s1 ?did \<longleftrightarrow> isStopping s ?did \<or> isStopping s1 ?did \<and> asked a"
    and s2: "failed s2 = failed s" "sup_events s2 = sup_events s" "isStopping s2 ?did = isStopping s1 ?did"
    "map_of (instances s) ?did = None \<longrightarrow> map_of (instances s2) ?did = None"
    and out: "(res, h, s') = (if isStopping s1 ?did then (Stopped, history, s1)
       else if isCrashLooping ?h (a_now2 a) then (Tripped, ?h, tripCrashLoop spec s1)
       else Run_loop rnd spec (Suc k) ?h as s2)"
    using Run_pass [where s = s and spec = spec and history = history and a = a and rnd = rnd and k = k and as = as,
        unfolded Cons.prems] by (elim exE conjE) (rule that)
  consider (st) "isStopping s1 ?did" | (tr) "\<not> isStopping s1 ?did" "isCrashLooping ?h (a_now2 a)"
    | (go) "\<not> isStopping s1 ?did" "\<not> isCrashLooping ?h (a_now2 a)"
        "Run_loop rnd spec (Suc k) ?h as s2 = (res, h, s')"
    using out by (cases "isStopping s1 ?did"; cases "isCrashLooping ?h (a_now2 a)") auto
  then show ?case
  proof cases
    case st
    with out s1 show ?thesis by (intro exI [of _ 0]) auto
  next
    case tr
    with out have e: "res = Tripped" "h = ?h" "s' = tripCrashLoop spec s1" by auto
    with tr s1 trip_unregisters [of spec s1] show ?thesis by (intro exI [of _ 1]) auto
  next
    case go
    from Cons.IH [OF go(3), unfolded s2(1-3)] obtain m where m: "m \<le> length as" "h = ?h @ map a_now1 (take m as)"
      "\<forall>n < m. Suc n < m \<or> res \<noteq> Tripped \<longrightarrow> \<not> isCrashLooping (?h @ map a_now1 (take (Suc n) as)) (a_now2 (as ! n))"
      "res = Tripped \<longrightarrow> 0 < m \<and> isCrashLooping h (a_now2 (as ! (m - 1)))
         \<and> failed s' = failed s @ [DeployID spec]
         \<and> sup_events s' = sup_events s @ [(''deploy.crash_looped'', DeployID spec)]
         \<and> (\<forall>reg. registry s' = Some reg \<and> Host spec \<noteq> [] \<longrightarrow> map_of reg (Host spec) = None)"
      "res \<noteq> Tripped \<longrightarrow> failed s' = failed s \<and> sup_events s' = sup_events s"
      "res = Stopped \<longrightarrow> isStopping s' ?did \<and> (isStopping s1 ?did \<or> (\<exists>a \<in> set (take (Suc m) as). asked a))"
      "res = Supervising \<longrightarrow> m = length as"
      "map_of (instances s2) ?did = None \<longrightarrow> map_of (instances s') ?did = None"
      by (elim exE conjE) (rule that)
    note m6 = m(6) [simplified go(1) simp_thms]
    have "\<not> isCrashLooping (history @ map a_now1 (take (Suc n) (a # as))) (a_now2 ((a # as) ! n))"
      if "n < Suc m" "Suc n < Suc m \<or> res \<noteq> Tripped" for n
      using that m(3) go(2) by (cases n) auto
    note nocl = this
    have trip: "res = Tripped \<longrightarrow> isCrashLooping h (a_now2 ((a # as) ! (Suc m - 1)))"
      using m(4) by (cases m) auto
    have h: "h = history @ map a_now1 (take (Suc m) (a # as))" using m(2) by simp
    have stp: "res = Stopped \<longrightarrow> isStopping s' ?did \<and> (isStopping s ?did \<or> (\<exists>x \<in> set (take (Suc (Suc m)) (a # as)). asked x))"
      using m6 by auto
    show ?thesis
      by (intro exI [of _ "Suc m"] conjI)
        (use m(1) in simp, rule h, use nocl in simp, use m(4) trip in simp, rule m(5), rule stp,
          use m(7) in simp, use m(8) s2(4) in simp)
  qed
qed

text \<open>
  Crash-loop policy. A run ends as tripped exactly at the first crash at which five crashes lie
  within the last minute; then, and only then, the deployment is reported failed once, the event is
  emitted, and its host is gone from the registry. A run ends as stopped only when a stop was
  requested. However it ends, no instance stays registered.
\<close>

lemma Run_policy:
  assumes "Run rnd spec as s = (res, h, s')" and "\<not> isStopping s (DeployID spec)"
    and "map_of (instances s) (DeployID spec) = None"
  shows "\<exists>m \<le> length as. h = map a_now1 (take m as)
    \<and> (\<forall>n < m. Suc n < m \<or> res \<noteq> Tripped \<longrightarrow> \<not> isCrashLooping (map a_now1 (take (Suc n) as)) (a_now2 (as ! n)))
    \<and> (if res = Tripped then 0 < m \<and> isCrashLooping h (a_now2 (as ! (m - 1)))
         \<and> failed s' = failed s @ [DeployID spec]
         \<and> sup_events s' = sup_events s @ [(''deploy.crash_looped'', DeployID spec)]
         \<and> (\<forall>reg. registry s' = Some reg \<and> Host spec \<noteq> [] \<longrightarrow> map_of reg (Host spec) = None)
       else failed s' = failed s \<and> sup_events s' = sup_events s)
    \<and> (res = Stopped \<longrightarrow> (\<exists>a \<in> set (take (Suc m) as). asked a))
    \<and> (res = Supervising \<longrightarrow> m = length as)
    \<and> map_of (instances s') (DeployID spec) = None"
  using Run_loop_outcome [OF assms(1) [unfolded Run_def]] assms(2,3) by auto

definition crash_at :: "int \<Rightarrow> attempt" where
  "crash_at t = \<lparr> a_stop0 = False, a_spawn = True, a_stop1 = False, a_stop2 = False,
     a_now1 = t, a_now2 = t, a_jitter = 1 \<rparr>"

definition sample_spec :: Spec where
  "sample_spec = \<lparr> DeployID = ''d'', Host = ''app.example'', SpecPort = 9001, HealthPort = 0 \<rparr>"

lemma Run_policy_witness:
  "fst (Run id sample_spec [crash_at 0] (NewSupervisor (Some []))) = Supervising
   \<and> failed (snd (snd (Run id sample_spec [crash_at 0] (NewSupervisor (Some []))))) = []"
proof -
  obtain res h s' where r: "Run id sample_spec [crash_at 0] (NewSupervisor (Some [])) = (res, h, s')"
    by (metis prod_cases3)
  have "fst (Run id sample_spec [crash_at 0] (NewSupervisor (Some []))) = Supervising" by code_simp
  with r have "res = Supervising" by simp
  with Run_policy [OF r] r show ?thesis by (auto simp: NewSupervisor_def isStopping_def)
qed

section \<open>Apps that crash on start\<close>

lemma isCrashLooping_short: "length h < crashLoopBurst \<Longrightarrow> \<not> isCrashLooping h now"
  by (simp add: isCrashLooping_def not_le le_less_trans [OF length_filter_le])

lemma isCrashLooping_all: "length h \<ge> crashLoopBurst \<Longrightarrow> \<forall>t \<in> set h. now - crashLoopWindow \<le> t \<and> t \<le> now \<Longrightarrow>
    isCrashLooping h now"
  by (simp add: isCrashLooping_def filter_id_conv [THEN iffD2] not_less)

text \<open>Crashes that come at most 11 seconds after each delay.\<close>

definition quick :: "(rat \<Rightarrow> rat) \<Rightarrow> attempt list \<Rightarrow> bool" where
  "quick rnd as = (\<forall>n < 4. a_now1 (as ! n) \<le> a_now1 (as ! Suc n)
     \<and> a_now1 (as ! Suc n) \<le> a_now1 (as ! n) + nextBackoff rnd n (a_jitter (as ! n)) + 11 * second)"

lemma all_less_5: "(\<forall>n < 5. P n) \<longleftrightarrow> P 0 \<and> P 1 \<and> P 2 \<and> P 3 \<and> P (4::nat)"
  by (auto simp: less_Suc_eq numeral_eq_Suc)

lemma quick_window:
  assumes r: "rounds rnd" and q: "quick rnd as" and j: "\<forall>n < 5. 0 \<le> a_jitter (as ! n) \<and> a_jitter (as ! n) \<le> 1"
    and n: "n < 5"
  shows "a_now1 (as ! 4) - crashLoopWindow \<le> a_now1 (as ! n) \<and> a_now1 (as ! n) \<le> a_now1 (as ! 4)"
proof -
  have b: "0 \<le> nextBackoff rnd i (a_jitter (as ! i)) \<and> nextBackoff rnd i (a_jitter (as ! i)) \<le> second * 2 ^ i" if "i < 5" for i
    using nextBackoff_range [OF r, of "a_jitter (as ! i)" i] j that by auto
  have bs: "nextBackoff rnd 0 (a_jitter (as ! 0)) \<le> second" "nextBackoff rnd 1 (a_jitter (as ! 1)) \<le> 2 * second"
    "nextBackoff rnd 2 (a_jitter (as ! 2)) \<le> 4 * second" "nextBackoff rnd 3 (a_jitter (as ! 3)) \<le> 8 * second"
    using b [of 0] b [of 1] b [of 2] b [of 3] by simp_all
  have q4: "a_now1 (as ! 0) \<le> a_now1 (as ! 1)" "a_now1 (as ! 1) \<le> a_now1 (as ! 2)"
    "a_now1 (as ! 2) \<le> a_now1 (as ! 3)" "a_now1 (as ! 3) \<le> a_now1 (as ! 4)"
    "a_now1 (as ! 1) \<le> a_now1 (as ! 0) + nextBackoff rnd 0 (a_jitter (as ! 0)) + 11 * second"
    "a_now1 (as ! 2) \<le> a_now1 (as ! 1) + nextBackoff rnd 1 (a_jitter (as ! 1)) + 11 * second"
    "a_now1 (as ! 3) \<le> a_now1 (as ! 2) + nextBackoff rnd 2 (a_jitter (as ! 2)) + 11 * second"
    "a_now1 (as ! 4) \<le> a_now1 (as ! 3) + nextBackoff rnd 3 (a_jitter (as ! 3)) + 11 * second"
    using q unfolding quick_def by (simp_all add: less_Suc_eq numeral_eq_Suc)
  have "n = 0 \<or> n = 1 \<or> n = 2 \<or> n = 3 \<or> n = 4" using n by linarith
  then show ?thesis
    using q4 bs unfolding crashLoopWindow_def by (elim disjE) (simp_all add: second_def)
qed

text \<open>
  An application that crashes within 11 seconds of every start is declared crash-looping at its fifth
  crash, whatever the jitter and however the starts fail: the delays never spread five such crashes over
  more than the window.
\<close>

lemma crash_loop_trips:
  assumes r: "rounds rnd" and len: "length as \<ge> 5" and q: "quick rnd as"
    and as: "\<forall>n < 5. 0 \<le> a_jitter (as ! n) \<and> a_jitter (as ! n) \<le> 1 \<and> a_now2 (as ! n) = a_now1 (as ! n) \<and> \<not> asked (as ! n)"
    and s: "\<not> isStopping s (DeployID spec)"
  shows "fst (Run rnd spec as s) = Tripped \<and> fst (snd (Run rnd spec as s)) = map a_now1 (take 5 as)"
proof -
  obtain res h s' where run: "Run rnd spec as s = (res, h, s')" by (metis prod_cases3)
  from Run_loop_outcome [OF run [unfolded Run_def]] obtain m where m: "m \<le> length as" "h = map a_now1 (take m as)"
    "\<forall>n < m. Suc n < m \<or> res \<noteq> Tripped \<longrightarrow> \<not> isCrashLooping (map a_now1 (take (Suc n) as)) (a_now2 (as ! n))"
    "res = Tripped \<longrightarrow> isCrashLooping h (a_now2 (as ! (m - 1)))"
    "res = Stopped \<longrightarrow> (\<exists>a \<in> set (take (Suc m) as). asked a)" "res = Supervising \<longrightarrow> m = length as"
    using s by auto
  have cl: "isCrashLooping (map a_now1 (take 5 as)) (a_now2 (as ! 4))"
  proof (rule isCrashLooping_all)
    show "\<forall>t \<in> set (map a_now1 (take 5 as)). a_now2 (as ! 4) - crashLoopWindow \<le> t \<and> t \<le> a_now2 (as ! 4)"
      using quick_window [OF r q] as len by (auto simp: in_set_conv_nth)
  qed (use len in \<open>simp add: crashLoopBurst_def\<close>)
  have "5 \<le> m"
  proof (rule ccontr)
    assume "\<not> 5 \<le> m"
    then have m5: "m < 5" by simp
    have "res \<noteq> Tripped" using m(4) isCrashLooping_short [of h] m5 m(2) by (auto simp: crashLoopBurst_def)
    moreover have "res \<noteq> Stopped"
    proof
      assume "res = Stopped"
      with m(5) obtain a where "a \<in> set (take (Suc m) as)" "asked a" by blast
      then obtain n where "n < Suc m" "n < length as" "asked (as ! n)" by (auto simp: in_set_conv_nth)
      with as m5 show False by auto
    qed
    ultimately show False using m(6) len m5 by (cases res) auto
  qed
  have "\<not> (5 < m \<or> res \<noteq> Tripped)"
  proof
    assume "5 < m \<or> res \<noteq> Tripped"
    with \<open>5 \<le> m\<close> m(3) [rule_format, of 4] cl show False by simp
  qed
  with \<open>5 \<le> m\<close> have "m = 5" "res = Tripped" by simp_all
  with run m(2) show ?thesis by simp
qed

lemma crash_loop_trips_witness:
  "fst (Run id sample_spec (map crash_at [0, second, 3 * second, 7 * second, 15 * second]) (NewSupervisor (Some []))) = Tripped"
proof -
  let ?as = "map crash_at [0, second, 3 * second, 7 * second, 15 * second]"
  have nb: "nextBackoff id k 1 = min backoffCap (second * 2 ^ k)" for k
    using nextBackoff_range [OF rounds_id, of 1 k] by simp
  have "quick id ?as"
    unfolding quick_def by (auto simp: less_Suc_eq numeral_eq_Suc crash_at_def nb second_def backoffCap_def)
  moreover have "\<forall>n < 5. 0 \<le> a_jitter (?as ! n) \<and> a_jitter (?as ! n) \<le> 1 \<and> a_now2 (?as ! n) = a_now1 (?as ! n) \<and> \<not> asked (?as ! n)"
    unfolding all_less_5 by (simp add: crash_at_def asked_def numeral_eq_Suc)
  moreover have "\<not> isStopping (NewSupervisor (Some [])) (DeployID sample_spec)"
    by (simp add: NewSupervisor_def isStopping_def)
  ultimately show ?thesis using crash_loop_trips [of id ?as] rounds_id by simp
qed

section \<open>Health polling\<close>

text \<open>
  The polls of one instance, by whether each failed (an error, or a status outside 200 to 399); the
  result is whether the instance was stopped, and after how many polls.
\<close>

definition poll_failed :: "int option \<Rightarrow> bool" where
  "poll_failed resp = (case resp of None \<Rightarrow> True | Some code \<Rightarrow> code < 200 \<or> code \<ge> 400)"

fun healthLoop :: "nat \<Rightarrow> int option list \<Rightarrow> nat option" where
  "healthLoop failures [] = None"
| "healthLoop failures (resp # rs) =
     (if poll_failed resp
      then (if failures + 1 \<ge> healthFailureThreshold then Some 1
            else map_option Suc (healthLoop (failures + 1) rs))
      else map_option Suc (healthLoop 0 rs))"

text \<open>The last three polls up to and including the \<open>n\<close>-th all failed.\<close>

definition three_failed :: "int option list \<Rightarrow> nat \<Rightarrow> bool" where
  "three_failed rs n = (3 \<le> n \<and> n \<le> length rs \<and> (\<forall>r \<in> set (drop (n - 3) (take n rs)). poll_failed r))"

lemma healthLoop_spec:
  assumes "f < 3" "\<forall>r \<in> set pre. poll_failed r" "length pre = f"
    and "before = [] \<or> \<not> poll_failed (last before)"
    and "\<forall>n \<le> length (before @ pre). \<not> three_failed (before @ pre) n"
  shows "case healthLoop f rs of
      None \<Rightarrow> \<forall>n. \<not> three_failed (before @ pre @ rs) n
    | Some k \<Rightarrow> three_failed (before @ pre @ rs) (length before + f + k)
        \<and> (\<forall>n < length before + f + k. \<not> three_failed (before @ pre @ rs) n)"
  using assms
proof (induction rs arbitrary: f pre before)
  case Nil
  have "\<not> three_failed (before @ pre) n" for n
    using Nil.prems(5) by (cases "n \<le> length (before @ pre)") (auto simp: three_failed_def)
  then show ?case by simp
next
  case (Cons r rs)
  let ?all = "before @ pre @ r # rs"
  have stable: "three_failed ?all n = three_failed (before @ pre) n" if "n \<le> length (before @ pre)" for n
    using that by (auto simp: three_failed_def)
  show ?case
  proof (cases "poll_failed r")
    case False
    have no: "\<not> three_failed (before @ pre @ [r]) n" if "n \<le> length (before @ pre @ [r])" for n
    proof (cases "n \<le> length (before @ pre)")
      case True
      then show ?thesis using Cons.prems(5) stable by (auto simp: three_failed_def)
    next
      case F: False
      with that have "n = Suc (length (before @ pre))" by simp
      with False show ?thesis by (auto simp: three_failed_def)
    qed
    have "case healthLoop 0 rs of None \<Rightarrow> \<forall>n. \<not> three_failed ((before @ pre @ [r]) @ [] @ rs) n
      | Some k \<Rightarrow> three_failed ((before @ pre @ [r]) @ [] @ rs) (length (before @ pre @ [r]) + 0 + k)
        \<and> (\<forall>n < length (before @ pre @ [r]) + 0 + k. \<not> three_failed ((before @ pre @ [r]) @ [] @ rs) n)"
      by (rule Cons.IH) (use False no in auto)
    with False Cons.prems(3) show ?thesis by (auto split: option.splits)
  next
    case True
    show ?thesis
    proof (cases "f = 2")
      case two: True
      then obtain a b where pre: "pre = [a, b]" using Cons.prems(3) by (auto simp: length_Suc_conv numeral_eq_Suc)
      have t: "three_failed ?all (length before + 3)"
        using Cons.prems(2) True pre by (auto simp: three_failed_def)
      have "\<not> three_failed ?all n" if "n < length before + 3" for n
        using stable [of n] Cons.prems(3,5) two that by simp
      with t True two show ?thesis by (simp add: healthFailureThreshold_def numeral_3_eq_3)
    next
      case False
      with Cons.prems(1) have f: "f < 2" by simp
      have no: "\<not> three_failed (before @ pre @ [r]) n" if "n \<le> length (before @ pre @ [r])" for n
      proof (cases "n \<le> length (before @ pre)")
        case True
        then show ?thesis using Cons.prems(5) by (auto simp: three_failed_def)
      next
        case F: False
        with that have n: "n = length before + f + 1" using Cons.prems(3) by simp
        show ?thesis
        proof (cases "before = []")
          case True
          then show ?thesis using n f by (simp add: three_failed_def)
        next
          case nb: False
          then obtain bs b where b: "before = bs @ [b]" by (metis rev_exhaust)
          with Cons.prems(4) have "\<not> poll_failed b" by simp
          moreover have "b \<in> set (drop (n - 3) (take n (before @ pre @ [r])))" if "3 \<le> n"
          proof -
            have "take n (before @ pre @ [r]) = bs @ b # pre @ [r]" using b n Cons.prems(3) by simp
            moreover have "n - 3 \<le> length bs" using b n f by simp
            ultimately show ?thesis by (simp add: drop_append)
          qed
          ultimately show ?thesis by (auto simp: three_failed_def)
        qed
      qed
      have "case healthLoop (f + 1) rs of None \<Rightarrow> \<forall>n. \<not> three_failed (before @ (pre @ [r]) @ rs) n
        | Some k \<Rightarrow> three_failed (before @ (pre @ [r]) @ rs) (length before + (f + 1) + k)
          \<and> (\<forall>n < length before + (f + 1) + k. \<not> three_failed (before @ (pre @ [r]) @ rs) n)"
        by (rule Cons.IH) (use True f no Cons.prems in auto)
      with True f show ?thesis by (auto simp: healthFailureThreshold_def split: option.splits)
    qed
  qed
qed

text \<open>
  Health polling stops the instance exactly at the first poll that completes three failures in a
  row, and never while no three consecutive polls have failed.
\<close>

lemma healthLoop_threshold:
  "case healthLoop 0 rs of
     None \<Rightarrow> \<forall>n. \<not> three_failed rs n
   | Some k \<Rightarrow> three_failed rs k \<and> (\<forall>n < k. \<not> three_failed rs n)"
  using healthLoop_spec [of 0 "[]" "[]" rs] by (simp add: three_failed_def split: option.splits)

lemma healthLoop_threshold_witness:
  "healthLoop 0 [Some 200, None, Some 500, Some 404, Some 200] = Some 4
   \<and> three_failed [Some 200, None, Some 500, Some 404, Some 200] 4
   \<and> \<not> three_failed [Some 200, None, Some 500, Some 404, Some 200] 3"
proof -
  have "healthLoop 0 [Some 200, None, Some 500, Some 404, Some 200] = Some 4"
    by (simp add: poll_failed_def healthFailureThreshold_def)
  with healthLoop_threshold [of "[Some 200, None, Some 500, Some 404, Some 200]"] show ?thesis by simp
qed

section \<open>A stop that races the supervision loop\<close>

text \<open>
  \<open>Stop\<close> runs in another goroutine than \<open>Run\<close>. One step is one critical section of the supervisor's
  mutex, one spawn, one exit or one halt of an instance. \<open>alive\<close> is the set of instances that run.
\<close>

datatype run_pc = RCheck0 | RSpawn | RSet nat | RCheck1 nat | RKill nat | RWait nat | RClear | RCheck2 | REnd

datatype stop_pc = SMark | SHalt nat | SEnd

record race =
  flag :: bool
  inst :: "nat option"
  alive :: "nat set"
  fresh :: nat
  rpc :: run_pc
  spc :: stop_pc

inductive race_step :: "race \<Rightarrow> race \<Rightarrow> bool" where
  check0_stop: "rpc s = RCheck0 \<Longrightarrow> flag s \<Longrightarrow> race_step s (s\<lparr> rpc := REnd \<rparr>)"
| check0_go: "rpc s = RCheck0 \<Longrightarrow> \<not> flag s \<Longrightarrow> race_step s (s\<lparr> rpc := RSpawn \<rparr>)"
| spawn_fail: "rpc s = RSpawn \<Longrightarrow> pc \<in> {RCheck0, REnd} \<Longrightarrow> race_step s (s\<lparr> rpc := pc \<rparr>)"
| spawn_ok: "rpc s = RSpawn \<Longrightarrow>
    race_step s (s\<lparr> rpc := RSet (fresh s), alive := insert (fresh s) (alive s), fresh := Suc (fresh s) \<rparr>)"
| set_instance: "rpc s = RSet n \<Longrightarrow> race_step s (s\<lparr> rpc := RCheck1 n, inst := Some n \<rparr>)"
| check1_stop: "rpc s = RCheck1 n \<Longrightarrow> flag s \<Longrightarrow> race_step s (s\<lparr> rpc := RKill n \<rparr>)"
| check1_go: "rpc s = RCheck1 n \<Longrightarrow> \<not> flag s \<Longrightarrow> race_step s (s\<lparr> rpc := RWait n \<rparr>)"
| kill: "rpc s = RKill n \<Longrightarrow> race_step s (s\<lparr> rpc := REnd, alive := alive s - {n}, inst := None \<rparr>)"
| exits: "n \<in> alive s \<Longrightarrow> race_step s (s\<lparr> alive := alive s - {n} \<rparr>)"
| wait_over: "rpc s = RWait n \<Longrightarrow> n \<notin> alive s \<Longrightarrow> race_step s (s\<lparr> rpc := RClear \<rparr>)"
| clear: "rpc s = RClear \<Longrightarrow> race_step s (s\<lparr> rpc := RCheck2, inst := None \<rparr>)"
| check2_stop: "rpc s = RCheck2 \<Longrightarrow> flag s \<Longrightarrow> race_step s (s\<lparr> rpc := REnd \<rparr>)"
| check2_crash: "rpc s = RCheck2 \<Longrightarrow> \<not> flag s \<Longrightarrow> pc \<in> {RCheck0, REnd} \<Longrightarrow> race_step s (s\<lparr> rpc := pc \<rparr>)"
| mark: "spc s = SMark \<Longrightarrow>
    race_step s (s\<lparr> flag := True, spc := (case inst s of None \<Rightarrow> SEnd | Some n \<Rightarrow> SHalt n) \<rparr>)"
| halt_live: "spc s = SHalt n \<Longrightarrow> race_step s (s\<lparr> spc := SEnd, alive := alive s - {n} \<rparr>)"

inductive_cases race_stepE: "race_step s s'"

definition race_start :: race where
  "race_start = \<lparr> flag = False, inst = None, alive = {}, fresh = 0, rpc = RCheck0, spc = SMark \<rparr>"

inductive races :: "race \<Rightarrow> bool" where
  race_init: "races race_start"
| race_more: "races s \<Longrightarrow> race_step s s' \<Longrightarrow> races s'"

fun holds :: "run_pc \<Rightarrow> nat option" where
  "holds (RSet n) = Some n" | "holds (RCheck1 n) = Some n" | "holds (RKill n) = Some n"
| "holds (RWait n) = Some n" | "holds _ = None"

fun published :: "run_pc \<Rightarrow> nat option" where
  "published (RCheck1 n) = Some n" | "published (RWait n) = Some n" | "published _ = None"

text \<open>Only the instance the loop holds can be alive; once a stop is marked, a waited-for one is being halted.\<close>

definition race_inv :: "race \<Rightarrow> bool" where
  "race_inv s = ((\<forall>n \<in> alive s. holds (rpc s) = Some n)
     \<and> (\<forall>n. published (rpc s) = Some n \<longrightarrow> inst s = Some n)
     \<and> (\<forall>n. rpc s = RWait n \<and> n \<in> alive s \<and> flag s \<longrightarrow> spc s = SHalt n)
     \<and> (\<forall>n. rpc s = RKill n \<longrightarrow> flag s)
     \<and> (spc s \<noteq> SMark \<longleftrightarrow> flag s))"

lemma race_inv_step: "race_inv s \<Longrightarrow> race_step s s' \<Longrightarrow> race_inv s'"
  by (erule race_stepE) (auto simp: race_inv_def split: option.splits, (metis option.inject)+)

lemma race_inv_races: "races s \<Longrightarrow> race_inv s"
proof (induction rule: races.induct)
  case race_init
  show ?case by (simp add: race_inv_def race_start_def)
next
  case (race_more s s')
  then show ?case by (blast intro: race_inv_step)
qed

text \<open>
  Stopping never leaks an instance: in every interleaving of one supervision loop and one stop, when
  the stop has returned an instance that the loop waits for is dead (so the loop goes on and ends), and
  when the loop has ended too no instance is alive.
\<close>

lemma stop_leaks_nothing:
  assumes "races s" and "spc s = SEnd"
  shows "(rpc s = REnd \<longrightarrow> alive s = {}) \<and> (\<forall>n. rpc s = RWait n \<longrightarrow> alive s = {})"
proof -
  have inv: "race_inv s" using assms(1) by (rule race_inv_races)
  have "flag s" using inv assms(2) by (simp add: race_inv_def)
  with inv assms(2) show ?thesis by (fastforce simp: race_inv_def)
qed

lemma stop_leaks_nothing_witness:
  "\<exists>s. races s \<and> spc s = SEnd \<and> rpc s = REnd \<and> alive s = {}"
proof -
  define s1 where "s1 = race_start\<lparr> flag := True, spc := SEnd \<rparr>"
  have "race_step race_start (race_start\<lparr> flag := True, spc := (case inst race_start of None \<Rightarrow> SEnd | Some n \<Rightarrow> SHalt n) \<rparr>)"
    by (rule mark) (simp add: race_start_def)
  then have "races s1" using race_more [OF race_init] by (simp add: race_start_def s1_def)
  moreover have "race_step s1 (s1\<lparr> rpc := REnd \<rparr>)"
    by (rule check0_stop) (simp_all add: s1_def race_start_def)
  ultimately have r: "races (s1\<lparr> rpc := REnd \<rparr>)" by (rule race_more)
  have e: "spc (s1\<lparr> rpc := REnd \<rparr>) = SEnd" "rpc (s1\<lparr> rpc := REnd \<rparr>) = REnd" by (simp_all add: s1_def)
  from stop_leaks_nothing [OF r e(1)] e r show ?thesis by blast
qed

end
