(* ===== verification/Go_Path.thy ===== *)
theory Go_Path
  imports BB_Prelude
begin

text \<open>
  The lexical functions of Go's \<^verbatim>\<open>path/filepath\<close> (Unix separators) that the modelled code uses:
  \<open>Clean\<close>, \<open>Join\<close>, \<open>IsAbs\<close>, \<open>Rel\<close> and \<open>Dir\<close>-free component views of them.
\<close>

abbreviation sep :: char where
  "sep \<equiv> CHR ''/''"

definition IsAbs :: "string \<Rightarrow> bool" where
  "IsAbs p = HasPrefix p ''/''"

text \<open>Components, from left to right, over a stack of the ones kept so far.\<close>

fun clean_comps :: "bool \<Rightarrow> string list \<Rightarrow> string list \<Rightarrow> string list" where
  "clean_comps rooted stack [] = rev stack"
| "clean_comps rooted stack (c # cs) =
     (if c = [] \<or> c = ''.'' then clean_comps rooted stack cs
      else if c = ''..'' then
        (case stack of
           [] \<Rightarrow> if rooted then clean_comps rooted [] cs else clean_comps rooted [''..''] cs
         | t # ts \<Rightarrow> if t = ''..'' then clean_comps rooted (''..'' # stack) cs else clean_comps rooted ts cs)
      else clean_comps rooted (c # stack) cs)"

definition comps :: "string \<Rightarrow> string list" where
  "comps p = clean_comps (IsAbs p) [] (Split p sep)"

definition Clean :: "string \<Rightarrow> string" where
  "Clean p = (if IsAbs p then ''/'' @ Join (comps p) ''/''
     else if comps p = [] then ''.'' else Join (comps p) ''/'')"

definition path_join :: "string \<Rightarrow> string \<Rightarrow> string" where
  "path_join a b = (if a = [] \<and> b = [] then []
     else if a = [] then Clean b else if b = [] then Clean a else Clean (a @ ''/'' @ b))"

text \<open>\<open>Rel\<close> of two clean paths of the same kind; \<open>None\<close> when one is absolute and the other is not.\<close>

fun strip_common :: "string list \<Rightarrow> string list \<Rightarrow> string list \<times> string list" where
  "strip_common (a # as) (b # bs) = (if a = b then strip_common as bs else (a # as, b # bs))"
| "strip_common as bs = (as, bs)"

definition Rel :: "string \<Rightarrow> string \<Rightarrow> string option" where
  "Rel base targ =
     (if IsAbs base \<noteq> IsAbs targ then None
      else let (b, t) = strip_common (comps base) (comps targ);
               r = replicate (length b) ''..'' @ t
           in if ''..'' \<in> set b then None else Some (if r = [] then ''.'' else Join r ''/''))"

section \<open>Facts\<close>

lemma Split_simple: "c \<notin> set s \<Longrightarrow> Split s c = [s]"
  by (induction s) auto

lemma Split_append: "c \<notin> set a \<Longrightarrow> Split (a @ c # b) c = a # Split b c"
  by (induction a) auto

text \<open>Splitting where two texts are joined by the separator splits each.\<close>

lemma Split_join: "Split (a @ c # b) c = Split a c @ Split b c"
proof (induction a)
  case (Cons x xs)
  obtain f fs where "Split xs c = f # fs" using Split_not_Nil by (cases "Split xs c") auto
  with Cons show ?case by auto
qed simp

definition plain :: "string \<Rightarrow> bool" where
  "plain c = (c \<noteq> [] \<and> c \<noteq> ''.'' \<and> c \<noteq> ''..'' \<and> sep \<notin> set c)"

text \<open>Without \<open>..\<close> components nothing is ever popped.\<close>

lemma clean_comps_no_dotdot: "''..'' \<notin> set cs \<Longrightarrow>
    clean_comps r st cs = rev st @ filter (\<lambda>c. c \<noteq> [] \<and> c \<noteq> ''.'') cs"
  by (induction r st cs rule: clean_comps.induct) auto

lemma clean_comps_rooted_plain: "\<forall>c \<in> set cs. sep \<notin> set c \<Longrightarrow> \<forall>c \<in> set st. plain c \<Longrightarrow>
    \<forall>c \<in> set (clean_comps True st cs). plain c"
proof (induction cs arbitrary: st)
  case (Cons c cs)
  have ih: "\<forall>x \<in> set (clean_comps True st' cs). plain x" if "\<forall>x \<in> set st'. plain x" for st'
    using Cons.IH [of st'] Cons.prems(1) that by simp
  consider "c = [] \<or> c = ''.''" | "c = ''..''" | "c \<noteq> []" "c \<noteq> ''.''" "c \<noteq> ''..''" by blast
  then show ?case
  proof cases
    case 1
    with ih [OF Cons.prems(2)] show ?thesis by (simp only: clean_comps.simps if_True)
  next
    case 2
    with Cons.prems(2) ih [of "tl st"] ih [of "[]"] show ?thesis by (cases st) (simp_all add: plain_def)
  next
    case 3
    with Cons.prems ih [of "c # st"] show ?thesis by (simp add: plain_def)
  qed
qed simp

lemma comps_abs_plain: "IsAbs p \<Longrightarrow> \<forall>c \<in> set (comps p). plain c"
  unfolding comps_def using clean_comps_rooted_plain [of "Split p sep" "[]"] Split_fields by auto

lemma Split_Join_plain: "\<forall>c \<in> set cs. sep \<notin> set c \<Longrightarrow> cs \<noteq> [] \<Longrightarrow> Split (Join cs ''/'') sep = cs"
proof (induction cs)
  case (Cons c cs)
  then show ?case by (cases cs) (simp_all add: Split_simple Split_append)
qed simp

lemma comps_of_abs: "\<forall>c \<in> set cs. plain c \<Longrightarrow> comps (''/'' @ Join cs ''/'') = cs"
proof (cases "cs = []")
  case True
  then show ?thesis by (simp add: comps_def IsAbs_def)
next
  case False
  assume p: "\<forall>c \<in> set cs. plain c"
  then have n: "''..'' \<notin> set cs" "\<forall>c \<in> set cs. sep \<notin> set c" by (auto simp: plain_def)
  have "Split (''/'' @ Join cs ''/'') sep = [] # cs"
    using Split_Join_plain [OF n(2) False] by simp
  moreover have "filter (\<lambda>c. c \<noteq> [] \<and> c \<noteq> ''.'') cs = cs" using p by (auto simp: plain_def filter_id_conv)
  ultimately show ?thesis using n(1) by (simp add: comps_def clean_comps_no_dotdot)
qed

text \<open>A clean absolute path is determined by its components.\<close>

lemma Clean_abs: "IsAbs p \<Longrightarrow> Clean p = ''/'' @ Join (comps p) ''/''"
  by (simp add: Clean_def)

lemma IsAbs_Clean: "IsAbs p \<Longrightarrow> IsAbs (Clean p)"
  by (simp add: Clean_def IsAbs_def)

lemma comps_Clean: "IsAbs p \<Longrightarrow> comps (Clean p) = comps p"
  using comps_of_abs [OF comps_abs_plain] by (simp add: Clean_abs)

lemma Clean_idem: "IsAbs p \<Longrightarrow> Clean (Clean p) = Clean p"
  by (simp add: Clean_abs [OF IsAbs_Clean] comps_Clean) (simp add: Clean_abs)

lemma path_join_clean: "IsAbs a \<Longrightarrow> Clean (path_join a b) = path_join a b"
proof -
  assume a: "IsAbs a"
  then have "IsAbs (a @ ''/'' @ b)" "a \<noteq> []" by (auto simp: IsAbs_def prefix_def)
  with a show ?thesis by (simp add: path_join_def Clean_idem)
qed

text \<open>Joining an absolute path with a relative name free of \<open>..\<close> appends the name's components.\<close>

lemma clean_comps_append: "clean_comps r st (as @ bs) = clean_comps r (rev (clean_comps r st as)) bs"
  by (induction r st as rule: clean_comps.induct) (auto split: list.splits)

lemma comps_path_join:
  assumes a: "IsAbs a" and n: "''..'' \<notin> set (Split b sep)"
  shows "IsAbs (path_join a b) \<and> comps (path_join a b) = comps a @ filter (\<lambda>c. c \<noteq> [] \<and> c \<noteq> ''.'') (Split b sep)"
proof -
  have a0: "a \<noteq> []" using a by (auto simp: IsAbs_def)
  have abs: "IsAbs (a @ ''/'' @ b)" using a by (auto simp: IsAbs_def prefix_def)
  have "comps (a @ ''/'' @ b) = comps a @ filter (\<lambda>c. c \<noteq> [] \<and> c \<noteq> ''.'') (Split b sep)"
    using abs a n by (simp add: comps_def Split_join clean_comps_append clean_comps_no_dotdot)
  moreover have "filter (\<lambda>c. c \<noteq> [] \<and> c \<noteq> ''.'') (Split [] sep) = []" by simp
  ultimately show ?thesis
    using a0 a abs by (cases "b = []") (auto simp: path_join_def comps_Clean IsAbs_Clean)
qed

lemma strip_common_prefix: "strip_common xs (xs @ ys) = ([], ys)"
  by (induction xs) (cases ys, simp_all)

lemma Join_append: "as \<noteq> [] \<Longrightarrow> bs \<noteq> [] \<Longrightarrow> Join (as @ bs) s = Join as s @ s @ Join bs s"
proof (induction as)
  case (Cons a as)
  then show ?case by (cases as) (simp_all add: Join_Cons)
qed simp

text \<open>A substring test covers every component.\<close>

lemma Split_substring: "c \<in> set (Split s x) \<Longrightarrow> Contains s c"
proof -
  have "\<exists>a b. s = a @ c @ b" if "c \<in> set (Split s x)" for c
    using that
  proof (induction s arbitrary: c)
    case Nil
    then show ?case by simp
  next
    case (Cons y ys)
    obtain f fs where f: "Split ys x = f # fs" using Split_not_Nil by (cases "Split ys x") auto
    show ?case
    proof (cases "y = x")
      case True
      with Cons.prems f consider "c = []" | "c \<in> set (Split ys x)" by auto
      then show ?thesis
      proof cases
        case 2
        with Cons.IH obtain a b where "ys = a @ c @ b" by blast
        then have "y # ys = (y # a) @ c @ b" by simp
        then show ?thesis by blast
      qed auto
    next
      case False
      with Cons.prems f consider "c = y # f" | "c \<in> set fs" by auto
      then show ?thesis
      proof cases
        case 1
        have "\<exists>b. ys = f @ b"
          using f
        proof (induction ys arbitrary: f fs)
          case (Cons z zs)
          then show ?case by (cases "z = x") (auto split: list.splits)
        qed simp
        with 1 have "\<exists>b. y # ys = [] @ c @ b" by simp
        then show ?thesis by blast
      next
        case 2
        with f have "c \<in> set (Split ys x)" by simp
        with Cons.IH obtain a b where "ys = a @ c @ b" by blast
        then have "y # ys = (y # a) @ c @ b" by simp
        then show ?thesis by blast
      qed
    qed
  qed
  then show "c \<in> set (Split s x) \<Longrightarrow> Contains s c" by (simp add: Contains_iff)
qed

end
