(* ===== verification/Deploy_Cache.thy ===== *)
theory Deploy_Cache
  imports Go_Path
begin

text \<open>
  The build cache (\<^verbatim>\<open>components/deploy/cache.go\<close>, \<^verbatim>\<open>cache_archive.go\<close>, the pruning handler of
  \<^verbatim>\<open>cache_api.go\<close>). The cache directory is two maps by cache key, the archives and the metadata files,
  plus the names of files that cannot be removed. An archive is the list of its tar entries; file trees
  are maps from clean relative paths to nodes, listed in the order \<^verbatim>\<open>filepath.Walk\<close> visits them; a target
  file system maps absolute paths to file contents (directories are implicit). Compression is the
  standard library's: only the size of an archive is an argument. \<^verbatim>\<open>sort.Slice\<close> is an argument with
  its documented contract (\<open>slice_sort\<close>). Times are integers of nanoseconds.
\<close>

record CacheEntry =
  Key :: string
  ce_SiteID :: string
  ce_RepoID :: string
  ce_Branch :: string
  Size :: int
  HitCount :: int
  ce_CreatedAt :: int

datatype meta_file = Meta CacheEntry | MetaBad

datatype node = Dir | File string

type_synonym tree = "(string \<times> node) list"

record Cache =
  archives :: "(string, tree) go_map"
  metas :: "(string, meta_file) go_map"
  rm_fails :: "string list"
  maxBytes :: int

definition NewCache :: "int \<Rightarrow> Cache" where
  "NewCache mx = \<lparr> archives = [], metas = [], rm_fails = [],
     maxBytes = (if mx \<le> 0 then 2 * 1073741824 else mx) \<rparr>"

definition SetMaxBytes :: "int \<Rightarrow> Cache \<Rightarrow> Cache" where
  "SetMaxBytes n c = (if n \<le> 0 then c else c\<lparr> maxBytes := n \<rparr>)"

section \<open>Keys\<close>

text \<open>\<open>sha\<close> is the hex SHA-256; \<open>files\<close> reads a file of the build directory.\<close>

definition lockfiles :: "string list" where
  "lockfiles = [''bun.lockb'', ''bun.lock'', ''pnpm-lock.yaml'', ''yarn.lock'', ''package-lock.json'', ''go.sum'',
     ''requirements.txt'', ''package.json'', ''go.mod'']"

fun first_hash :: "(string \<Rightarrow> string) \<Rightarrow> (string, string) go_map \<Rightarrow> string list \<Rightarrow> string option" where
  "first_hash sha files [] = None"
| "first_hash sha files (n # ns) = (case map_of files n of Some c \<Rightarrow> Some (sha c) | None \<Rightarrow> first_hash sha files ns)"

definition findLockfileHash :: "(string \<Rightarrow> string) \<Rightarrow> (string, string) go_map \<Rightarrow> string option" where
  "findLockfileHash sha files = first_hash sha files lockfiles"

definition CacheKey :: "(string \<Rightarrow> string) \<Rightarrow> (string, string) go_map \<Rightarrow> string \<Rightarrow> string \<Rightarrow> string option" where
  "CacheKey sha files repoID branch =
     map_option (\<lambda>h. take 32 (sha (repoID @ '':'' @ branch @ '':'' @ h))) (findLockfileHash sha files)"

section \<open>Metadata\<close>

definition writeMeta :: "string \<Rightarrow> CacheEntry \<Rightarrow> Cache \<Rightarrow> Cache" where
  "writeMeta key e c = c\<lparr> metas := map_put key (Meta e) (metas c) \<rparr>"

definition updateMeta :: "string \<Rightarrow> (CacheEntry \<Rightarrow> CacheEntry) \<Rightarrow> Cache \<Rightarrow> Cache" where
  "updateMeta key fn c = (case map_of (metas c) key of
     Some (Meta e) \<Rightarrow> writeMeta key (fn e) c
   | _ \<Rightarrow> c)"

fun entry_of :: "string \<times> meta_file \<Rightarrow> CacheEntry list" where
  "entry_of (k, Meta e) = [e]"
| "entry_of (k, MetaBad) = []"

definition listEntries :: "(CacheEntry list \<Rightarrow> CacheEntry list) \<Rightarrow> Cache \<Rightarrow> CacheEntry list" where
  "listEntries srt c = srt (concat (map entry_of (metas c)))"

text \<open>Both files are tried; the result says whether one of them could not be removed.\<close>

definition removeEntry :: "string \<Rightarrow> Cache \<Rightarrow> bool \<times> Cache" where
  "removeEntry key c =
     (let bad1 = (map_of (archives c) key \<noteq> None \<and> key @ ''.tar.gz'' \<in> set (rm_fails c));
          c1 = (if bad1 then c else c\<lparr> archives := map_del key (archives c) \<rparr>);
          bad2 = (map_of (metas c1) key \<noteq> None \<and> key @ ''.meta.json'' \<in> set (rm_fails c));
          c2 = (if bad2 then c1 else c1\<lparr> metas := map_del key (metas c1) \<rparr>)
      in (bad1 \<or> bad2, c2))"

section \<open>Eviction and removal\<close>

fun Evict_loop :: "int \<Rightarrow> CacheEntry list \<Rightarrow> Cache \<Rightarrow> bool \<times> Cache" where
  "Evict_loop tot [] c = (False, c)"
| "Evict_loop tot (e # es) c =
     (if tot \<le> maxBytes c then (False, c)
      else case removeEntry (Key e) c of
        (True, c') \<Rightarrow> (True, c')
      | (False, c') \<Rightarrow> Evict_loop (tot - Size e) es c')"

definition Evict :: "(CacheEntry list \<Rightarrow> CacheEntry list) \<Rightarrow> Cache \<Rightarrow> bool \<times> Cache" where
  "Evict srt c =
     (let entries = listEntries srt c; tot = sum_list (map Size entries) in
      if tot \<le> maxBytes c then (False, c) else Evict_loop tot entries c)"

definition SiteEntries :: "(CacheEntry list \<Rightarrow> CacheEntry list) \<Rightarrow> string \<Rightarrow> Cache \<Rightarrow> CacheEntry list" where
  "SiteEntries srt site c = filter (\<lambda>e. ce_SiteID e = site) (listEntries srt c)"

fun Clear_loop :: "CacheEntry list \<Rightarrow> bool \<Rightarrow> Cache \<Rightarrow> bool \<times> Cache" where
  "Clear_loop [] err c = (err, c)"
| "Clear_loop (e # es) err c = (case removeEntry (Key e) c of (b, c') \<Rightarrow> Clear_loop es (err \<or> b) c')"

definition Clear :: "(CacheEntry list \<Rightarrow> CacheEntry list) \<Rightarrow> Cache \<Rightarrow> bool \<times> Cache" where
  "Clear srt c = Clear_loop (listEntries srt c) False c"

fun Prune_loop :: "int \<Rightarrow> nat \<Rightarrow> CacheEntry list \<Rightarrow> Cache \<Rightarrow> nat \<times> bool \<times> Cache" where
  "Prune_loop cutoff n [] c = (n, False, c)"
| "Prune_loop cutoff n (e # es) c =
     (if ce_CreatedAt e < cutoff
      then (case removeEntry (Key e) c of
              (True, c') \<Rightarrow> (n, True, c')
            | (False, c') \<Rightarrow> Prune_loop cutoff (Suc n) es c')
      else Prune_loop cutoff n es c)"

definition Prune :: "(CacheEntry list \<Rightarrow> CacheEntry list) \<Rightarrow> int \<Rightarrow> int \<Rightarrow> Cache \<Rightarrow> nat \<times> bool \<times> Cache" where
  "Prune srt now maxAge c =
     (if maxAge \<le> 0 then (0, False, c) else Prune_loop (now - maxAge) 0 (listEntries srt c) c)"

fun PurgeSite_loop :: "string \<Rightarrow> CacheEntry list \<Rightarrow> Cache \<Rightarrow> bool \<times> Cache" where
  "PurgeSite_loop site [] c = (False, c)"
| "PurgeSite_loop site (e # es) c =
     (if ce_SiteID e = site
      then (case removeEntry (Key e) c of (True, c') \<Rightarrow> (True, c') | (False, c') \<Rightarrow> PurgeSite_loop site es c')
      else PurgeSite_loop site es c)"

definition PurgeSite :: "(CacheEntry list \<Rightarrow> CacheEntry list) \<Rightarrow> string \<Rightarrow> Cache \<Rightarrow> bool \<times> Cache" where
  "PurgeSite srt site c = PurgeSite_loop site (listEntries srt c) c"

definition Stats :: "(CacheEntry list \<Rightarrow> CacheEntry list) \<Rightarrow> Cache \<Rightarrow> nat \<times> int" where
  "Stats srt c = (length (listEntries srt c), sum_list (map Size (listEntries srt c)))"

section \<open>Archives\<close>

text \<open>A missing path contributes nothing, a directory everything below it, directories with a slash.\<close>

definition tar_entry :: "string \<times> node \<Rightarrow> string \<times> node" where
  "tar_entry p = (case snd p of Dir \<Rightarrow> (fst p @ ''/'', Dir) | File d \<Rightarrow> (fst p, File d))"

definition addPath :: "tree \<Rightarrow> string \<Rightarrow> tree" where
  "addPath src p = (case map_of src p of
     None \<Rightarrow> []
   | Some (File d) \<Rightarrow> [(p, File d)]
   | Some Dir \<Rightarrow> map tar_entry (filter (\<lambda>q. fst q = p \<or> HasPrefix (fst q) (p @ ''/'')) src))"

definition createTarGz :: "tree \<Rightarrow> string list \<Rightarrow> tree" where
  "createTarGz src paths = concat (map (addPath src) paths)"

definition isUnderDir :: "string \<Rightarrow> string \<Rightarrow> bool" where
  "isUnderDir path parent = (HasPrefix path (Clean parent @ ''/'') \<or> path = Clean parent)"

definition extract_target :: "string \<Rightarrow> string \<Rightarrow> string option" where
  "extract_target dstDir name =
     (if Contains name ''..'' \<or> IsAbs name then None
      else let target = path_join dstDir (Clean name) in
        case Rel dstDir target of
          None \<Rightarrow> None
        | Some rel \<Rightarrow>
            if HasPrefix rel ''..'' then None
            else if \<not> isUnderDir target dstDir then None else Some target)"

type_synonym fs = "(string, string) go_map"

definition extractEntry :: "string \<Rightarrow> string \<times> node \<Rightarrow> fs \<Rightarrow> (string, fs) res" where
  "extractEntry dstDir ent fs = (case extract_target dstDir (fst ent) of
     None \<Rightarrow> Inl (fst ent)
   | Some target \<Rightarrow> (case snd ent of Dir \<Rightarrow> Inr fs | File d \<Rightarrow> Inr (map_put target d fs)))"

fun extractTarGz :: "string \<Rightarrow> tree \<Rightarrow> fs \<Rightarrow> string option \<times> fs" where
  "extractTarGz dstDir [] fs = (None, fs)"
| "extractTarGz dstDir (x # xs) fs = (case extractEntry dstDir x fs of
     Inl e \<Rightarrow> (Some e, fs)
   | Inr fs' \<Rightarrow> extractTarGz dstDir xs fs')"

text \<open>\<open>gz\<close> is the compressed size of an archive, \<open>now\<close> the time of the call.\<close>

definition Save :: "(tree \<Rightarrow> int) \<Rightarrow> int \<Rightarrow> string \<Rightarrow> tree \<Rightarrow> string \<Rightarrow> string \<Rightarrow> string \<Rightarrow> string list \<Rightarrow> Cache \<Rightarrow> Cache" where
  "Save gz now key src siteID repoID branch paths c =
     (let ar = createTarGz src paths in
      writeMeta key \<lparr> Key = key, ce_SiteID = siteID, ce_RepoID = repoID, ce_Branch = branch, Size = gz ar,
          HitCount = 0, ce_CreatedAt = now \<rparr> (c\<lparr> archives := map_put key ar (archives c) \<rparr>))"

text \<open>The result: \<open>Inr\<close> hit or miss, \<open>Inl\<close> the name of the entry that was refused.\<close>

definition Restore :: "string \<Rightarrow> string \<Rightarrow> fs \<Rightarrow> Cache \<Rightarrow> (string, bool) res \<times> fs \<times> Cache" where
  "Restore key dstDir fs c = (case map_of (archives c) key of
     None \<Rightarrow> (Inr False, fs, c)
   | Some ar \<Rightarrow> (case extractTarGz dstDir ar fs of
       (Some e, fs') \<Rightarrow> (Inl e, fs', c)
     | (None, fs') \<Rightarrow> (Inr True, fs', updateMeta key (\<lambda>e. e\<lparr> HitCount := HitCount e + 1 \<rparr>) c)))"

section \<open>The pruning handler\<close>

text \<open>
  \<^verbatim>\<open>handleCachePrune\<close>: the age in days becomes a \<^verbatim>\<open>time.Duration\<close>, a signed 64-bit count of
  nanoseconds. \<open>Inl\<close> is the 400 response, \<open>Inr\<close> the age handed to \<open>Prune\<close>.
\<close>

definition prune_age :: "int option \<Rightarrow> (string, int) res" where
  "prune_age max_age_days =
     (let days = (case max_age_days of None \<Rightarrow> 7 | Some d \<Rightarrow> d) in
      if days < 1 then Inl ''max_age_days must be at least 1''
      else Inr (sint (word_of_int days * 24 * 3600000000000 :: 64 word)))"

section \<open>Removal\<close>

definition drop_keys :: "string list \<Rightarrow> Cache \<Rightarrow> Cache" where
  "drop_keys ks c = c\<lparr> archives := filter (\<lambda>p. fst p \<notin> set ks) (archives c),
     metas := filter (\<lambda>p. fst p \<notin> set ks) (metas c) \<rparr>"

definition entries :: "Cache \<Rightarrow> CacheEntry list" where
  "entries c = concat (map entry_of (metas c))"

definition wf_cache :: "Cache \<Rightarrow> bool" where
  "wf_cache c = (wf_map (archives c) \<and> wf_map (metas c) \<and> maxBytes c > 0
     \<and> (\<forall>(k, m) \<in> set (metas c). \<forall>e. m = Meta e \<longrightarrow> Key e = k \<and> Size e \<ge> 0))"

lemma drop_keys_simps [simp]:
  "maxBytes (drop_keys ks c) = maxBytes c" "rm_fails (drop_keys ks c) = rm_fails c"
  by (simp_all add: drop_keys_def)

lemma drop_keys_Nil [simp]: "drop_keys [] c = c"
  by (simp add: drop_keys_def)

lemma drop_keys_append: "drop_keys ks (drop_keys js c) = drop_keys (js @ ks) c"
  by (simp add: drop_keys_def conj_commute)

lemma removeEntry_ok: "rm_fails c = [] \<Longrightarrow> removeEntry k c = (False, drop_keys [k] c)"
  by (simp add: removeEntry_def drop_keys_def map_del_def Let_def)

lemma Clear_loop_ok: "rm_fails c = [] \<Longrightarrow> Clear_loop es err c = (err, drop_keys (map Key es) c)"
  by (induction es arbitrary: err c) (simp_all add: removeEntry_ok drop_keys_append)

lemma PurgeSite_loop_ok: "rm_fails c = [] \<Longrightarrow>
    PurgeSite_loop site es c = (False, drop_keys (map Key (filter (\<lambda>e. ce_SiteID e = site) es)) c)"
  by (induction es arbitrary: c) (simp_all add: removeEntry_ok drop_keys_append)

lemma Prune_loop_ok: "rm_fails c = [] \<Longrightarrow>
    Prune_loop cutoff n es c = (n + length (filter (\<lambda>e. ce_CreatedAt e < cutoff) es), False,
      drop_keys (map Key (filter (\<lambda>e. ce_CreatedAt e < cutoff) es)) c)"
  by (induction es arbitrary: n c) (simp_all add: removeEntry_ok drop_keys_append)

lemma Evict_loop_ok: "rm_fails c = [] \<Longrightarrow>
    \<exists>gone kept. es = gone @ kept \<and> Evict_loop tot es c = (False, drop_keys (map Key gone) c)
      \<and> (kept = [] \<or> tot - sum_list (map Size gone) \<le> maxBytes c)
      \<and> (gone \<noteq> [] \<longrightarrow> tot - sum_list (map Size (butlast gone)) > maxBytes c)"
proof (induction es arbitrary: tot c)
  case (Cons e es)
  show ?case
  proof (cases "tot \<le> maxBytes c")
    case True
    then show ?thesis by (intro exI [of _ "[]"] exI [of _ "e # es"]) simp
  next
    case False
    from Cons.IH [of "drop_keys [Key e] c" "tot - Size e"] Cons.prems
    obtain gone kept where g: "es = gone @ kept"
      "Evict_loop (tot - Size e) es (drop_keys [Key e] c) = (False, drop_keys (map Key (e # gone)) c)"
      "kept = [] \<or> tot - Size e - sum_list (map Size gone) \<le> maxBytes c"
      "gone \<noteq> [] \<longrightarrow> tot - Size e - sum_list (map Size (butlast gone)) > maxBytes c"
      by (auto simp: drop_keys_append)
    then have "e # es = (e # gone) @ kept" by simp
    moreover have "Evict_loop tot (e # es) c = (False, drop_keys (map Key (e # gone)) c)"
      using False g(2) Cons.prems by (simp add: removeEntry_ok)
    moreover have "tot - sum_list (map Size (butlast (e # gone))) > maxBytes c"
      using g(4) False by (cases gone) auto
    moreover have "kept = [] \<or> tot - sum_list (map Size (e # gone)) \<le> maxBytes c" using g(3) by (auto simp: diff_diff_eq)
    ultimately show ?thesis by blast
  qed
qed simp

text \<open>What a listing shows after keys were dropped.\<close>

lemma entries_drop: "wf_cache c \<Longrightarrow> entries (drop_keys ks c) = filter (\<lambda>e. Key e \<notin> set ks) (entries c)"
proof -
  have "\<forall>(k, m) \<in> set ms. \<forall>e. m = Meta e \<longrightarrow> Key e = k \<Longrightarrow>
      concat (map entry_of (filter (\<lambda>p. fst p \<notin> set ks) ms)) = filter (\<lambda>e. Key e \<notin> set ks) (concat (map entry_of ms))" for ms
  proof (induction ms)
    case (Cons p ms)
    obtain k m where "p = (k, m)" by force
    with Cons show ?case by (cases m) auto
  qed simp
  moreover assume "wf_cache c"
  ultimately show ?thesis by (fastforce simp: entries_def drop_keys_def wf_cache_def)
qed

lemma keys_subset: "\<forall>(k, m) \<in> set ms. \<forall>e. m = Meta e \<longrightarrow> Key e = k \<Longrightarrow> e \<in> set (concat (map entry_of ms)) \<Longrightarrow>
    Key e \<in> set (map fst ms)"
proof (induction ms)
  case (Cons p ms)
  obtain k m where "p = (k, m)" by force
  with Cons show ?case by (cases m) auto
qed simp

lemma keys_distinct: "wf_cache c \<Longrightarrow> distinct (map Key (entries c))"
proof -
  have "distinct (map fst ms) \<Longrightarrow> \<forall>(k, m) \<in> set ms. \<forall>e. m = Meta e \<longrightarrow> Key e = k \<Longrightarrow>
      distinct (map Key (concat (map entry_of ms)))" for ms
  proof (induction ms)
    case (Cons p ms)
    obtain k m where p: "p = (k, m)" by force
    have sub: "Key x \<in> set (map fst ms)" if "x \<in> set (concat (map entry_of ms))" for x
      using keys_subset [of ms x] Cons.prems(2) that by simp
    have ih: "distinct (map Key (concat (map entry_of ms)))" using Cons by simp
    show ?case
    proof (cases m)
      case (Meta e)
      then have "Key e = k" using Cons.prems(2) p by simp
      then have "Key e \<notin> Key ` set (concat (map entry_of ms))" using sub Cons.prems(1) p by force
      with ih Meta p show ?thesis by simp
    next
      case MetaBad
      with ih p show ?thesis by simp
    qed
  qed simp
  moreover assume "wf_cache c"
  then have "distinct (map fst (metas c))" "\<forall>(k, m) \<in> set (metas c). \<forall>e. m = Meta e \<longrightarrow> Key e = k"
    by (auto simp: wf_cache_def wf_map_def)
  ultimately show ?thesis by (simp add: entries_def)
qed

lemma sizes_nonneg: "wf_cache c \<Longrightarrow> e \<in> set (entries c) \<Longrightarrow> Size e \<ge> 0"
proof -
  assume w: "wf_cache c" and "e \<in> set (entries c)"
  then obtain k m where "(k, m) \<in> set (metas c)" "e \<in> set (entry_of (k, m))" by (auto simp: entries_def)
  with w show ?thesis by (cases m) (auto simp: wf_cache_def)
qed

lemma listEntries_set: "slice_sort srt ce_CreatedAt \<Longrightarrow> set (listEntries srt c) = set (entries c)"
  by (simp add: listEntries_def entries_def slice_sort.srt_set)

text \<open>
  Eviction. With no removal errors it removes a shortest run of oldest entries: the entries that stay
  fit in the limit, one entry fewer removed would not fit, no removed entry is newer than one that stays,
  and afterwards exactly the others are listed, with their archives.
\<close>

lemma Evict_oldest_first:
  assumes srt: "slice_sort srt ce_CreatedAt" and w: "wf_cache c" and nf: "rm_fails c = []"
  shows "\<exists>gone kept. listEntries srt c = gone @ kept \<and> Evict srt c = (False, drop_keys (map Key gone) c)
    \<and> sum_list (map Size kept) \<le> maxBytes c
    \<and> (gone \<noteq> [] \<longrightarrow> Size (last gone) + sum_list (map Size kept) > maxBytes c)
    \<and> (\<forall>g \<in> set gone. \<forall>k \<in> set kept. ce_CreatedAt g \<le> ce_CreatedAt k)
    \<and> mset (listEntries srt (drop_keys (map Key gone) c)) = mset kept"
proof -
  let ?L = "listEntries srt c" and ?T = "sum_list (map Size (listEntries srt c))"
  have L: "?L = srt (entries c)" by (simp add: listEntries_def entries_def)
  obtain gone kept where g: "?L = gone @ kept" "Evict srt c = (False, drop_keys (map Key gone) c)"
    "kept = [] \<or> ?T - sum_list (map Size gone) \<le> maxBytes c"
    "gone \<noteq> [] \<longrightarrow> ?T - sum_list (map Size (butlast gone)) > maxBytes c"
  proof (cases "?T \<le> maxBytes c")
    case True
    then show ?thesis by (intro that [of "[]" ?L]) (simp_all add: Evict_def Let_def)
  next
    case False
    then have "Evict srt c = Evict_loop ?T ?L c" by (simp add: Evict_def Let_def)
    with Evict_loop_ok [OF nf, of ?L ?T] that show ?thesis by metis
  qed
  have fit: "sum_list (map Size kept) \<le> maxBytes c"
    using g(1,3) w by (cases "kept = []") (auto simp: wf_cache_def)
  have tight: "Size (last gone) + sum_list (map Size kept) > maxBytes c" if ne: "gone \<noteq> []"
  proof -
    have "sum_list (map Size gone) = sum_list (map Size (butlast gone)) + Size (last gone)"
      using arg_cong [OF append_butlast_last_id [OF ne], of "\<lambda>xs. sum_list (map Size xs)"] by simp
    with g(1,4) ne show ?thesis by simp
  qed
  have old: "\<forall>g \<in> set gone. \<forall>k \<in> set kept. ce_CreatedAt g \<le> ce_CreatedAt k"
    using slice_sort.srt_sorted [OF srt, of "entries c"] g(1) L by (auto simp: sorted_append)
  have d: "distinct (map Key (gone @ kept))"
    using slice_sort.srt_distinct [OF srt keys_distinct [OF w]] g(1) L by simp
  have "mset (listEntries srt (drop_keys (map Key gone) c)) = mset (filter (\<lambda>e. Key e \<notin> set (map Key gone)) (entries c))"
    using entries_drop [OF w] by (simp add: listEntries_def entries_def slice_sort.srt_mset [OF srt])
  also have "\<dots> = mset (filter (\<lambda>e. Key e \<notin> set (map Key gone)) (gone @ kept))"
    using slice_sort.srt_mset [OF srt, of "entries c"] g(1) L by (metis mset_filter)
  also have "filter (\<lambda>e. Key e \<notin> set (map Key gone)) (gone @ kept) = kept"
  proof -
    have "filter (\<lambda>e. Key e \<notin> set (map Key gone)) gone = []" by (simp add: filter_empty_conv)
    moreover have "filter (\<lambda>e. Key e \<notin> set (map Key gone)) kept = kept"
      using d by (auto simp: filter_id_conv)
    ultimately show ?thesis by simp
  qed
  finally show ?thesis using g(1,2) fit tight old by blast
qed

definition sample_cache :: Cache where
  "sample_cache = \<lparr> archives = [(''a'', []), (''b'', [])],
     metas = [(''a'', Meta \<lparr> Key = ''a'', ce_SiteID = ''s1'', ce_RepoID = ''r'', ce_Branch = ''main'', Size = 60, HitCount = 0, ce_CreatedAt = 2 \<rparr>),
              (''b'', Meta \<lparr> Key = ''b'', ce_SiteID = ''s2'', ce_RepoID = ''r'', ce_Branch = ''main'', Size = 70, HitCount = 0, ce_CreatedAt = 1 \<rparr>)],
     rm_fails = [], maxBytes = 100 \<rparr>"

lemma wf_sample_cache: "wf_cache sample_cache" "rm_fails sample_cache = []"
  by (simp_all add: wf_cache_def sample_cache_def wf_map_def)

lemma Evict_oldest_first_witness:
  "\<exists>gone kept. listEntries (sort_key ce_CreatedAt) sample_cache = gone @ kept
    \<and> Evict (sort_key ce_CreatedAt) sample_cache = (False, drop_keys (map Key gone) sample_cache)
    \<and> sum_list (map Size kept) \<le> 100"
proof -
  have m: "maxBytes sample_cache = 100" by (simp add: sample_cache_def)
  show ?thesis
    using Evict_oldest_first [OF stable_sort.slice_sort_axioms wf_sample_cache(1) wf_sample_cache(2), unfolded m] by blast
qed

lemma entries_drop_where:
  assumes srt: "slice_sort srt ce_CreatedAt" and w: "wf_cache c"
  shows "entries (drop_keys (map Key (filter P (listEntries srt c))) c) = filter (\<lambda>e. \<not> P e) (entries c)"
proof -
  have "Key e \<in> set (map Key (filter P (listEntries srt c))) \<longleftrightarrow> P e" if e: "e \<in> set (entries c)" for e
  proof
    assume "Key e \<in> set (map Key (filter P (listEntries srt c)))"
    then obtain x where "x \<in> set (entries c)" "P x" "Key x = Key e" by (auto simp: listEntries_set [OF srt])
    with keys_distinct [OF w] e show "P e" by (metis distinct_map inj_onD)
  qed (use e listEntries_set [OF srt] in auto)
  then show ?thesis unfolding entries_drop [OF w] by (intro filter_cong) auto
qed

text \<open>
  The three bulk removals, without removal errors: purging a site removes exactly the entries of
  that site, pruning exactly those created before the cutoff and counts them (nothing for a
  non-positive age), clearing everything; what stays is listed unchanged.
\<close>

lemma bulk_removal_exact:
  assumes srt: "slice_sort srt ce_CreatedAt" and w: "wf_cache c" and nf: "rm_fails c = []"
  shows "(\<exists>c'. PurgeSite srt site c = (False, c') \<and> entries c' = filter (\<lambda>e. ce_SiteID e \<noteq> site) (entries c)
        \<and> SiteEntries srt site c' = [])
    \<and> (\<exists>c'. Clear srt c = (False, c') \<and> entries c' = [])
    \<and> (maxAge > 0 \<longrightarrow> (\<exists>c'. Prune srt now maxAge c =
          (length (filter (\<lambda>e. ce_CreatedAt e < now - maxAge) (entries c)), False, c')
        \<and> entries c' = filter (\<lambda>e. \<not> ce_CreatedAt e < now - maxAge) (entries c)))
    \<and> (maxAge \<le> 0 \<longrightarrow> Prune srt now maxAge c = (0, False, c))"
proof (intro conjI impI)
  note dw = entries_drop_where [OF srt w]
  let ?c1 = "drop_keys (map Key (filter (\<lambda>e. ce_SiteID e = site) (listEntries srt c))) c"
  have "SiteEntries srt site ?c1 = []"
    using dw [of "\<lambda>e. ce_SiteID e = site"]
    by (auto simp: SiteEntries_def listEntries_set [OF srt] filter_empty_conv)
  then show "\<exists>c'. PurgeSite srt site c = (False, c') \<and> entries c' = filter (\<lambda>e. ce_SiteID e \<noteq> site) (entries c)
        \<and> SiteEntries srt site c' = []"
    using dw [of "\<lambda>e. ce_SiteID e = site"] by (simp add: PurgeSite_def PurgeSite_loop_ok [OF nf])
  show "\<exists>c'. Clear srt c = (False, c') \<and> entries c' = []"
    using dw [of "\<lambda>e. True"] by (simp add: Clear_def Clear_loop_ok [OF nf])
  have "mset (filter Q (listEntries srt c)) = mset (filter Q (entries c))" for Q
    using slice_sort.srt_mset [OF srt, of "entries c"] by (metis listEntries_def entries_def mset_filter)
  then have len: "length (filter Q (listEntries srt c)) = length (filter Q (entries c))" for Q
    by (metis size_mset)
  show "\<exists>c'. Prune srt now maxAge c =
          (length (filter (\<lambda>e. ce_CreatedAt e < now - maxAge) (entries c)), False, c')
        \<and> entries c' = filter (\<lambda>e. \<not> ce_CreatedAt e < now - maxAge) (entries c)" if "maxAge > 0"
    using that dw [of "\<lambda>e. ce_CreatedAt e < now - maxAge"] len by (simp add: Prune_def Prune_loop_ok [OF nf])
  show "Prune srt now maxAge c = (0, False, c)" if "maxAge \<le> 0"
    using that by (simp add: Prune_def)
qed

lemma bulk_removal_exact_witness:
  "\<exists>c'. PurgeSite (sort_key ce_CreatedAt) ''s1'' sample_cache = (False, c')
     \<and> map Key (entries c') = [''b''] \<and> SiteEntries (sort_key ce_CreatedAt) ''s1'' c' = []"
  using bulk_removal_exact [OF stable_sort.slice_sort_axioms wf_sample_cache, of "''s1''" 0 0]
  by (auto simp: entries_def sample_cache_def)

section \<open>Extraction stays inside the directory\<close>

definition name_comps :: "string \<Rightarrow> string list" where
  "name_comps n = filter (\<lambda>c. c \<noteq> [] \<and> c \<noteq> ''.'') (Split n sep)"

lemma no_dotdot_comps: "\<not> Contains n ''..'' \<Longrightarrow> c \<in> set (Split n sep) \<Longrightarrow> \<not> Contains c ''..''"
proof
  assume n: "\<not> Contains n ''..''" and c: "c \<in> set (Split n sep)" and "Contains c ''..''"
  then obtain a b x y where "c = a @ ''..'' @ b" "n = x @ c @ y"
    using Split_substring [OF c] by (auto simp: Contains_iff)
  then have "n = (x @ a) @ ''..'' @ (b @ y)" by simp
  with n show False unfolding Contains_iff by blast
qed

lemma Split_Clean_name:
  assumes "\<not> Contains n ''..''" "\<not> IsAbs n"
  shows "''..'' \<notin> set (Split (Clean n) sep) \<and>
    filter (\<lambda>c. c \<noteq> [] \<and> c \<noteq> ''.'') (Split (Clean n) sep) = name_comps n"
proof -
  have nd: "''..'' \<notin> set (Split n sep)" using no_dotdot_comps [OF assms(1), of "''..''"] by (auto simp: Contains_iff)
  then have c: "comps n = name_comps n" by (simp add: comps_def name_comps_def clean_comps_no_dotdot)
  show ?thesis
  proof (cases "name_comps n = []")
    case True
    with c assms(2) show ?thesis by (simp add: Clean_def)
  next
    case False
    have "\<forall>x \<in> set (name_comps n). sep \<notin> set x" by (auto simp: name_comps_def dest: Split_fields)
    with False c assms(2) have "Split (Clean n) sep = name_comps n" by (simp add: Clean_def Split_Join_plain)
    with nd show ?thesis by (auto simp: name_comps_def)
  qed
qed

lemma rel_not_dotdot:
  assumes "\<not> Contains n ''..''" "name_comps n \<noteq> []"
  shows "\<not> HasPrefix (Join (name_comps n) ''/'') ''..''"
proof -
  obtain c cs where cs: "name_comps n = c # cs" using assms(2) by (cases "name_comps n") auto
  have cc: "c \<in> set (Split n sep)" "c \<noteq> []" "c \<noteq> ''.''"
    using arg_cong [OF cs, of set] by (auto simp: name_comps_def)
  have nc: "\<not> Contains c ''..''" using no_dotdot_comps [OF assms(1) cc(1)] .
  obtain x xs where c: "c = x # xs" using cc(2) by (cases c) auto
  show ?thesis
  proof (cases xs)
    case Nil
    then show ?thesis using c cs by (cases cs) (auto simp: prefix_def)
  next
    case (Cons y ys)
    then show ?thesis using c cs nc by (cases cs) (auto simp: prefix_def Contains_iff)
  qed
qed

lemma extract_target_eq:
  assumes d: "IsAbs dst" "comps dst \<noteq> []"
  shows "extract_target dst n = (if Contains n ''..'' \<or> IsAbs n then None
    else Some (''/'' @ Join (comps dst @ name_comps n) ''/''))"
proof (cases "Contains n ''..'' \<or> IsAbs n")
  case False
  then have n: "\<not> Contains n ''..''" "\<not> IsAbs n" by auto
  let ?t = "path_join dst (Clean n)"
  from comps_path_join [OF d(1), of "Clean n"] Split_Clean_name [OF n]
  have t: "IsAbs ?t" "comps ?t = comps dst @ name_comps n" by auto
  have "Clean ?t = ?t" using d(1) by (rule path_join_clean)
  then have teq: "?t = ''/'' @ Join (comps dst @ name_comps n) ''/''" using t Clean_abs by metis
  have "Rel dst ?t = Some (if name_comps n = [] then ''.'' else Join (name_comps n) ''/'')"
    using d(1) t by (simp add: Rel_def strip_common_prefix)
  moreover have "isUnderDir ?t dst"
    using teq d Join_append [OF d(2), of "name_comps n"]
    by (cases "name_comps n = []") (simp_all add: isUnderDir_def Clean_def prefix_def)
  ultimately show ?thesis
    using n rel_not_dotdot [OF n(1)] teq by (simp add: extract_target_def Let_def)
qed (simp add: extract_target_def)

text \<open>
  No path traversal: for an absolute destination below the root, a tar entry is written only when
  its name has no \<open>..\<close> and is not absolute, and then to a clean path whose components extend those of
  the destination; in particular a sibling directory that merely starts with the same characters is
  never reached.
\<close>

lemma extract_target_confined:
  assumes "IsAbs dst" "comps dst \<noteq> []" "extract_target dst name = Some target"
  shows "\<not> Contains name ''..'' \<and> \<not> IsAbs name \<and> IsAbs target
    \<and> comps target = comps dst @ name_comps name \<and> (\<forall>c \<in> set (comps target). plain c) \<and> isUnderDir target dst"
proof -
  have ok: "\<not> Contains name ''..''" "\<not> IsAbs name" "target = ''/'' @ Join (comps dst @ name_comps name) ''/''"
    using assms(3) unfolding extract_target_eq [OF assms(1,2)] by (auto split: if_splits)
  have "\<forall>c \<in> set (name_comps name). plain c"
    using no_dotdot_comps [OF ok(1)] Split_fields by (fastforce simp: name_comps_def plain_def Contains_iff)
  with comps_abs_plain [OF assms(1)] have p: "\<forall>c \<in> set (comps dst @ name_comps name). plain c" by auto
  moreover have "comps target = comps dst @ name_comps name" using comps_of_abs [OF p] ok(3) by simp
  moreover have "isUnderDir target dst"
    using assms(3) by (auto simp: extract_target_def Let_def split: if_splits option.splits)
  ultimately show ?thesis using ok by (simp add: IsAbs_def)
qed

lemma extract_target_confined_witness:
  "extract_target ''/srv/b1'' ''node_modules/x'' = Some ''/srv/b1/node_modules/x''
   \<and> comps ''/srv/b1/node_modules/x'' = comps ''/srv/b1'' @ name_comps ''node_modules/x''
   \<and> extract_target ''/srv/b1'' ''../b2/x'' = None"
proof -
  have a: "IsAbs ''/srv/b1''" "comps ''/srv/b1'' \<noteq> []" by code_simp+
  have b: "extract_target ''/srv/b1'' ''node_modules/x'' = Some ''/srv/b1/node_modules/x''" by code_simp
  have "extract_target ''/srv/b1'' ''../b2/x'' = None" by code_simp
  with b extract_target_confined [OF a b] show ?thesis by blast
qed

section \<open>Saving and restoring\<close>

definition good_name :: "string \<Rightarrow> bool" where
  "good_name n = ((\<forall>c \<in> set (Split n sep). plain c) \<and> \<not> Contains n ''..'')"

lemma good_nameD: "good_name n \<Longrightarrow> \<forall>c \<in> set (Split n sep). plain c" "good_name n \<Longrightarrow> \<not> Contains n ''..''"
  unfolding good_name_def by blast+

lemma good_name_comps: "good_name n \<Longrightarrow> name_comps n = Split n sep \<and> \<not> IsAbs n \<and> n \<noteq> []"
proof -
  assume "good_name n"
  note p = good_nameD(1) [OF this]
  have "filter (\<lambda>c. c \<noteq> [] \<and> c \<noteq> ''.'') xs = xs" if "\<forall>c \<in> set xs. plain c" for xs
    using that by (induction xs) (auto simp: plain_def)
  from this [OF p] have "filter (\<lambda>c. c \<noteq> [] \<and> c \<noteq> ''.'') (Split n sep) = Split n sep" .
  moreover have "n \<noteq> []"
  proof
    assume "n = []"
    with p show False by (simp add: plain_def)
  qed
  moreover have "\<not> IsAbs n"
  proof
    assume "IsAbs n"
    then obtain m where "n = sep # m" by (auto simp: IsAbs_def prefix_def)
    with p show False by (simp add: plain_def)
  qed
  ultimately show ?thesis by (simp add: name_comps_def)
qed

definition target_of :: "string \<Rightarrow> string \<Rightarrow> string" where
  "target_of dst n = ''/'' @ Join (comps dst @ name_comps n) ''/''"

lemma target_inj:
  assumes "IsAbs dst" "good_name n" "good_name n'" "target_of dst n = target_of dst n'"
  shows "n = n'"
proof -
  have p: "\<forall>c \<in> set (comps dst @ name_comps x). plain c" if "good_name x" for x
    using comps_abs_plain [OF assms(1)] good_name_comps [OF that] good_nameD(1) [OF that] by auto
  have "comps dst @ name_comps n = comps dst @ name_comps n'"
    using arg_cong [OF assms(4), of comps] comps_of_abs [OF p [OF assms(2)]] comps_of_abs [OF p [OF assms(3)]]
    by (simp add: target_of_def)
  then have "Split n sep = Split n' sep" using good_name_comps assms(2,3) by simp
  then show ?thesis by (metis Join_Split)
qed

lemma dir_entry_ok: "good_name q \<Longrightarrow> \<not> Contains (q @ ''/'') ''..'' \<and> \<not> IsAbs (q @ ''/'')"
proof -
  assume g: "good_name q"
  have "q \<noteq> []" "\<not> IsAbs q" using good_name_comps [OF g] by simp_all
  then have "\<not> IsAbs (q @ ''/'')" by (cases q) (auto simp: IsAbs_def)
  moreover have "\<not> Contains (q @ ''/'') ''..''"
  proof
    assume "Contains (q @ ''/'') ''..''"
    then obtain a b where ab: "q @ ''/'' = a @ ''..'' @ b" by (auto simp: Contains_iff)
    then have "b \<noteq> []" by (auto simp: append_eq_append_conv2 Cons_eq_append_conv)
    then obtain b' z where "b = b' @ [z]" by (metis rev_exhaust)
    with ab have "q = a @ ''..'' @ b'" by simp
    with good_nameD(2) [OF g] show False unfolding Contains_iff by blast
  qed
  ultimately show ?thesis by simp
qed

text \<open>Every entry of an archive comes from a node of the source tree.\<close>

lemma createTarGz_entries: "x \<in> set (createTarGz src paths) \<Longrightarrow> \<exists>q nd. (q, nd) \<in> set src \<and> x = tar_entry (q, nd)"
proof -
  assume "x \<in> set (createTarGz src paths)"
  then obtain p where "x \<in> set (addPath src p)" by (auto simp: createTarGz_def)
  then obtain nd where nd: "map_of src p = Some nd" "x \<in> set (addPath src p)"
    by (cases "map_of src p") (auto simp: addPath_def)
  show ?thesis
  proof (cases nd)
    case Dir
    with nd show ?thesis by (auto simp: addPath_def)
  next
    case (File d)
    with nd have "x = tar_entry (p, File d)" by (simp add: addPath_def tar_entry_def)
    with File nd(1) show ?thesis by (auto dest: map_of_SomeD)
  qed
qed

lemma extractTarGz_all:
  assumes d: "IsAbs dst" "comps dst \<noteq> []"
    and ok: "\<forall>x \<in> set ar. \<not> Contains (fst x) ''..'' \<and> \<not> IsAbs (fst x)"
  shows "\<exists>fs'. extractTarGz dst ar fs = (None, fs') \<and>
    (\<forall>p. (\<exists>n c. (n, File c) \<in> set ar \<and> target_of dst n = p \<and> map_of fs' p = Some c)
       \<or> (\<forall>n c. (n, File c) \<in> set ar \<longrightarrow> target_of dst n \<noteq> p) \<and> map_of fs' p = map_of fs p)"
  using ok
proof (induction ar arbitrary: fs)
  case (Cons x xs)
  have tx: "extract_target dst (fst x) = Some (target_of dst (fst x))"
    using Cons.prems by (simp add: extract_target_eq [OF d] target_of_def)
  define fs1 where "fs1 = (case snd x of Dir \<Rightarrow> fs | File c \<Rightarrow> map_put (target_of dst (fst x)) c fs)"
  have e: "extractEntry dst x fs = Inr fs1" by (simp add: extractEntry_def tx fs1_def split: node.splits)
  from Cons.IH [of fs1] Cons.prems obtain fs' where fs': "extractTarGz dst xs fs1 = (None, fs')"
    and P: "\<And>p. (\<exists>n c. (n, File c) \<in> set xs \<and> target_of dst n = p \<and> map_of fs' p = Some c)
       \<or> (\<forall>n c. (n, File c) \<in> set xs \<longrightarrow> target_of dst n \<noteq> p) \<and> map_of fs' p = map_of fs1 p" by auto
  have "(\<exists>n c. (n, File c) \<in> set (x # xs) \<and> target_of dst n = p \<and> map_of fs' p = Some c)
       \<or> (\<forall>n c. (n, File c) \<in> set (x # xs) \<longrightarrow> target_of dst n \<noteq> p) \<and> map_of fs' p = map_of fs p" for p
  proof (cases "\<exists>n c. (n, File c) \<in> set xs \<and> target_of dst n = p \<and> map_of fs' p = Some c")
    case False
    with P [of p] have q: "\<forall>n c. (n, File c) \<in> set xs \<longrightarrow> target_of dst n \<noteq> p" "map_of fs' p = map_of fs1 p" by auto
    obtain n nd where x: "x = (n, nd)" by force
    show ?thesis
      using q x by (cases nd) (auto simp: fs1_def)
  qed auto
  with fs' e show ?case by auto
qed simp



section \<open>Pruning by age\<close>

text \<open>
  The pruning handler multiplies the requested days in 64 bits. Up to 106751 days the age is the
  requested one; beyond, the product wraps, and for 213504 days it is less than half an hour: a request
  to drop entries older than five centuries drops everything older than 26 minutes.
\<close>

lemma prune_age_wraps:
  "(days < 1 \<longrightarrow> prune_age (Some days) = Inl ''max_age_days must be at least 1'')
   \<and> (1 \<le> days \<and> days \<le> 106751 \<longrightarrow> prune_age (Some days) = Inr (days * 86400000000000))
   \<and> prune_age (Some 213504) = Inr 1526290448384 \<and> prune_age None = Inr (7 * 86400000000000)"
proof (intro conjI impI)
  have eq: "(word_of_int d * 24 * 3600000000000 :: 64 word) = word_of_int (d * 86400000000000)" for d
  proof -
    have "(24 :: 64 word) = word_of_int 24" "(3600000000000 :: 64 word) = word_of_int 3600000000000" by simp_all
    then have "(word_of_int d * 24 * 3600000000000 :: 64 word) = word_of_int (d * 24 * 3600000000000)"
      by (simp only: wi_hom_mult)
    then show ?thesis by simp
  qed
  have small: "sint (word_of_int x :: 64 word) = x" if "0 \<le> x" "x < 2 ^ 63" for x
    using that by (simp add: sint_sbintrunc' signed_take_bit_int_eq_self)
  show "prune_age (Some days) = Inl ''max_age_days must be at least 1''" if "days < 1"
    using that by (simp add: prune_age_def)
  show "prune_age (Some days) = Inr (days * 86400000000000)" if "1 \<le> days \<and> days \<le> 106751"
    using that small [of "days * 86400000000000"] by (simp add: prune_age_def eq)
  show "prune_age (Some 213504) = Inr 1526290448384"
    by (simp add: prune_age_def)
  show "prune_age None = Inr (7 * 86400000000000)"
    by (simp add: prune_age_def)
qed

lemma prune_age_wraps_witness:
  "prune_age (Some 30) = Inr (30 * 86400000000000) \<and> prune_age (Some 0) = Inl ''max_age_days must be at least 1''"
  using prune_age_wraps [of 30] prune_age_wraps [of 0] by simp

end
