(* ===== verification/Deploy_Env.thy ===== *)
theory Deploy_Env
  imports BB_Prelude "HOL-Library.Char_ord" "HOL-Library.List_Lexorder"
begin

text \<open>
  Environment of a deployment and redaction of secrets: \<^verbatim>\<open>components/deploy/envresolver.go\<close>,
  \<^verbatim>\<open>env.go\<close>, \<^verbatim>\<open>db_env.go\<close> and \<^verbatim>\<open>components/internal/envcrypto\<close>. The process environment, the
  iteration order of Go maps, AES-GCM and base64 are arguments; the native secret store is the
  interface \<open>SecretResolver\<close> of the code, a record of functions. The database is the content of the
  four tables that are read, each possibly missing or failing. Strings compare bytewise.
\<close>

section \<open>Encryption envelope and masking\<close>

text \<open>\<open>seal\<close> and \<open>open\<close> are AES-256-GCM with the nonce prefixed, \<open>enc64\<close> and \<open>dec64\<close> base64.\<close>

record aead =
  seal :: "string \<Rightarrow> string \<Rightarrow> string \<Rightarrow> string"
  unseal :: "string \<Rightarrow> string \<Rightarrow> string \<Rightarrow> string option"
  enc64 :: "string \<Rightarrow> string"
  dec64 :: "string \<Rightarrow> string option"

definition nonceSize :: nat where
  "nonceSize = 12"

definition Encrypt :: "aead \<Rightarrow> string option \<Rightarrow> string \<Rightarrow> string \<Rightarrow> string" where
  "Encrypt A key nonce plain = (case key of
     None \<Rightarrow> plain
   | Some k \<Rightarrow> enc64 A (nonce @ seal A k nonce plain))"

definition Decrypt :: "aead \<Rightarrow> string option \<Rightarrow> string \<Rightarrow> string option" where
  "Decrypt A key stored = (case key of
     None \<Rightarrow> Some stored
   | Some k \<Rightarrow> (case dec64 A stored of
       None \<Rightarrow> None
     | Some d \<Rightarrow> if length d < nonceSize then None else unseal A k (take nonceSize d) (drop nonceSize d)))"

text \<open>Runes of a valid UTF-8 text: a continuation byte belongs to the byte before it.\<close>

definition is_cont :: "char \<Rightarrow> bool" where
  "is_cont c = (128 \<le> (of_char c :: nat) \<and> (of_char c :: nat) < 192)"

fun runes :: "string \<Rightarrow> string list" where
  "runes [] = []"
| "runes (c # cs) = (case runes cs of
     [] \<Rightarrow> [[c]]
   | r # rs \<Rightarrow> if (case r of [] \<Rightarrow> False | x # _ \<Rightarrow> is_cont x) then (c # r) # rs else [c] # r # rs)"

definition bullets :: string where
  "bullets = concat (replicate 4 [CHR 0xE2, CHR 0x80, CHR 0xA2])"

definition MaskValue :: "string \<Rightarrow> string" where
  "MaskValue v = (let r = runes v in
     if length r \<le> 4 then bullets else bullets @ concat (drop (length r - 4) r))"

section \<open>Environment lists and maps\<close>

type_synonym env_map = "(string, string) go_map"

fun keyValueMap_from :: "string list \<Rightarrow> env_map \<Rightarrow> env_map" where
  "keyValueMap_from [] m = m"
| "keyValueMap_from (kv # env) m = (case IndexByte kv (CHR ''='') of
     None \<Rightarrow> keyValueMap_from env (map_put kv [] m)
   | Some i \<Rightarrow> keyValueMap_from env (map_put (take i kv) (drop (Suc i) kv) m))"

definition keyValueMap :: "string list \<Rightarrow> env_map" where
  "keyValueMap env = keyValueMap_from env []"

text \<open>The insertion sort of \<open>mapToEnviron\<close>: each key moves left past greater ones.\<close>

fun sink :: "string \<Rightarrow> string list \<Rightarrow> string list" where
  "sink k [] = [k]"
| "sink k (x # xs) = (if x > k then x # sink k xs else k # x # xs)"

definition insertion_sort :: "string list \<Rightarrow> string list" where
  "insertion_sort ks = rev (foldl (\<lambda>acc k. sink k acc) [] ks)"

definition mapToEnviron :: "env_map \<Rightarrow> string list" where
  "mapToEnviron m = map (\<lambda>k. k @ ''='' @ the (map_of m k)) (insertion_sort (map fst m))"

definition withoutEnvKey :: "string list \<Rightarrow> string \<Rightarrow> string list" where
  "withoutEnvKey env key = filter (\<lambda>e. \<not> HasPrefix e (key @ ''='')) env"

definition BuildEnv :: "(string \<Rightarrow> string \<Rightarrow> string) \<Rightarrow> string list \<Rightarrow> string \<Rightarrow> string list" where
  "BuildEnv join environ home =
     (if home = [] then environ
      else withoutEnvKey (withoutEnvKey environ ''HOME'') ''NPM_CONFIG_CACHE''
        @ [''HOME='' @ home, ''NPM_CONFIG_CACHE='' @ join home ''.npm'',
           ''PUPPETEER_SKIP_DOWNLOAD=true'', ''PUPPETEER_SKIP_BROWSER_DOWNLOAD=true''])"

definition normalizeDBDriver :: "string \<Rightarrow> string" where
  "normalizeDBDriver driver = (let d = ToLower (TrimSpace driver) in if d = [] then ''sqlite'' else d)"

definition NativeDBEnv :: "(string \<Rightarrow> string option) \<Rightarrow> string \<Rightarrow> string \<Rightarrow> string list" where
  "NativeDBEnv abs_path driver dsn =
     (if dsn = [] then []
      else if normalizeDBDriver driver = ''postgres'' then [''DATABASE_URL='' @ dsn]
      else let path = (if dsn \<noteq> '':memory:'' then (case abs_path dsn of Some a \<Rightarrow> a | None \<Rightarrow> dsn) else dsn)
           in [''DB_PATH='' @ path])"

section \<open>The resolver\<close>

datatype EnvScope = ScopeBuild | ScopeRuntime

record site_var =
  sv_site :: string
  sv_key :: string
  sv_value :: string
  sv_build :: bool
  sv_runtime :: bool

record project_env =
  pe_id :: string
  pe_project :: string
  pe_slug :: string

text \<open>A table is missing (the code degrades), failing (the code reports) or readable.\<close>

datatype 'a table = Missing | Failing | Rows 'a

record env_db =
  t_sites :: "(string, string option) go_map table"
  t_projects :: "(string, int) go_map table"
  t_envs :: "project_env list table"
  t_vars :: "site_var list table"

record SecretResolver =
  ListFolders :: "int \<Rightarrow> string \<Rightarrow> string \<Rightarrow> (string list) option"
  ListSecrets :: "int \<Rightarrow> string \<Rightarrow> string \<Rightarrow> string \<Rightarrow> (string list) option"
  ReadSecretValue :: "int \<Rightarrow> string \<Rightarrow> string \<Rightarrow> string \<Rightarrow> string \<Rightarrow> string option"

datatype resolve_error =
    ESiteProject | EProjectOrg | EProjectEnvironment | EFolders | ESecretsIn string
  | ESecret string | ESiteVars | ESiteVar string

record ResolvedEnv =
  Environ :: "string list"
  secretKeys :: "string list"
  conflicts :: "string list"

record EnvResolver =
  r_db :: "env_db option"
  r_key :: "string option"
  r_buildHome :: string
  r_secrets :: "SecretResolver option"
  r_aead :: aead

record os_env =
  os_environ :: "string list"
  os_home :: string
  os_join :: "string \<Rightarrow> string \<Rightarrow> string"

definition defaultEnviron :: "os_env \<Rightarrow> EnvResolver \<Rightarrow> EnvScope \<Rightarrow> string list" where
  "defaultEnviron os r scope = (case scope of
     ScopeBuild \<Rightarrow> BuildEnv (os_join os) (os_environ os) (if r_buildHome r = [] then os_home os else r_buildHome r)
   | ScopeRuntime \<Rightarrow> os_environ os)"

text \<open>Rows come ordered by \<^verbatim>\<open>created_at, id\<close>.\<close>

definition productionEnvironmentID :: "env_db \<Rightarrow> string \<Rightarrow> (resolve_error, string) res" where
  "productionEnvironmentID db project = (case t_envs db of
     Failing \<Rightarrow> Inl EProjectEnvironment
   | Missing \<Rightarrow> Inr []
   | Rows es \<Rightarrow> (case filter (\<lambda>e. pe_project e = project \<and> pe_slug e = ''production'') es of
       e # _ \<Rightarrow> Inr (pe_id e)
     | [] \<Rightarrow> (case filter (\<lambda>e. pe_project e = project) es of e # _ \<Rightarrow> Inr (pe_id e) | [] \<Rightarrow> Inr [])))"

definition siteProjectEnvironment :: "env_db \<Rightarrow> string \<Rightarrow> (resolve_error, string \<times> string \<times> int) res" where
  "siteProjectEnvironment db site = (case t_sites db of
     Failing \<Rightarrow> Inl ESiteProject
   | Missing \<Rightarrow> Inr ([], [], 0)
   | Rows ss \<Rightarrow> (case map_of ss site of
       Some (Some project) \<Rightarrow>
         (if project = [] then Inr ([], [], 0)
          else (case t_projects db of
            Failing \<Rightarrow> Inl EProjectOrg
          | Missing \<Rightarrow> Inr ([], [], 0)
          | Rows ps \<Rightarrow> (case map_of ps project of
              None \<Rightarrow> Inr ([], [], 0)
            | Some org \<Rightarrow> (case productionEnvironmentID db project of
                Inl e \<Rightarrow> Inl e
              | Inr envID \<Rightarrow> Inr (project, envID, org)))))
     | _ \<Rightarrow> Inr ([], [], 0)))"

text \<open>The layers write the merged map and note which keys are secret and which collide.\<close>

record layers =
  l_merged :: env_map
  l_secret :: "string list"
  l_conflicts :: "string list"

definition put_secret :: "string \<Rightarrow> string \<Rightarrow> layers \<Rightarrow> layers" where
  "put_secret k v l = l\<lparr> l_merged := map_put k v (l_merged l), l_secret := List.insert k (l_secret l) \<rparr>"

definition read_secret :: "SecretResolver \<Rightarrow> int \<Rightarrow> string \<Rightarrow> string \<Rightarrow> string \<Rightarrow> string \<Rightarrow> layers
    \<Rightarrow> (resolve_error, layers) res" where
  "read_secret sr org project envID folder key l =
     (case ReadSecretValue sr org project envID folder key of
        None \<Rightarrow> Inl (ESecret key)
      | Some v \<Rightarrow> Inr (put_secret key v l))"

definition read_folder :: "SecretResolver \<Rightarrow> int \<Rightarrow> string \<Rightarrow> string \<Rightarrow> string \<Rightarrow> layers
    \<Rightarrow> (resolve_error, layers) res" where
  "read_folder sr org project envID folder l =
     (case ListSecrets sr org project envID folder of
        None \<Rightarrow> Inl (ESecretsIn folder)
      | Some keys \<Rightarrow> fold_res (read_secret sr org project envID folder) keys l)"

definition resolveProjectSecrets :: "EnvResolver \<Rightarrow> env_db \<Rightarrow> string \<Rightarrow> layers \<Rightarrow> (resolve_error, layers) res" where
  "resolveProjectSecrets r db site l = (case r_secrets r of
     None \<Rightarrow> Inr l
   | Some sr \<Rightarrow> (case siteProjectEnvironment db site of
       Inl e \<Rightarrow> Inl e
     | Inr (project, envID, org) \<Rightarrow>
         (if project = [] \<or> envID = [] then Inr l
          else (case ListFolders sr org project envID of
            None \<Rightarrow> Inl EFolders
          | Some folders \<Rightarrow> fold_res (read_folder sr org project envID) folders l))))"

definition site_row :: "EnvResolver \<Rightarrow> site_var \<Rightarrow> layers \<Rightarrow> (resolve_error, layers) res" where
  "site_row r v l = (case Decrypt (r_aead r) (r_key r) (sv_value v) of
     None \<Rightarrow> Inl (ESiteVar (sv_key v))
   | Some val \<Rightarrow>
       Inr (put_secret (sv_key v) val
         (if sv_key v \<in> set (l_secret l) then l\<lparr> l_conflicts := l_conflicts l @ [sv_key v] \<rparr> else l)))"

definition in_scope :: "EnvScope \<Rightarrow> string \<Rightarrow> site_var \<Rightarrow> bool" where
  "in_scope scope site v = (sv_site v = site \<and> (case scope of ScopeBuild \<Rightarrow> sv_build v | ScopeRuntime \<Rightarrow> sv_runtime v))"

definition resolveSiteEnvVars :: "EnvResolver \<Rightarrow> env_db \<Rightarrow> string \<Rightarrow> EnvScope \<Rightarrow> layers \<Rightarrow> (resolve_error, layers) res" where
  "resolveSiteEnvVars r db site scope l = (case t_vars db of
     Missing \<Rightarrow> Inr l
   | Failing \<Rightarrow> Inl ESiteVars
   | Rows vs \<Rightarrow> fold_res (site_row r) (filter (in_scope scope site) vs) l)"

fun put_all :: "(string \<times> string) list \<Rightarrow> env_map \<Rightarrow> env_map" where
  "put_all [] m = m"
| "put_all ((k, v) # kvs) m = put_all kvs (map_put k v m)"

fun put_reserved :: "string list \<Rightarrow> env_map \<Rightarrow> env_map" where
  "put_reserved [] m = m"
| "put_reserved (kv # kvs) m = (case IndexByte kv (CHR ''='') of
     None \<Rightarrow> put_reserved kvs m
   | Some i \<Rightarrow> put_reserved kvs (map_put (take i kv) (drop (Suc i) kv) m))"

text \<open>\<open>manifest\<close> is the manifest's map in the order Go iterates it.\<close>

definition ResolveOptions :: "os_env \<Rightarrow> EnvResolver \<Rightarrow> string \<Rightarrow> EnvScope \<Rightarrow> env_map \<Rightarrow> string list
    \<Rightarrow> (resolve_error, ResolvedEnv) res" where
  "ResolveOptions os r site scope manifest reserved =
     (let l0 = \<lparr> l_merged = put_all manifest (keyValueMap (defaultEnviron os r scope)), l_secret = [], l_conflicts = [] \<rparr>;
          layered = (case r_db r of
            None \<Rightarrow> Inr l0
          | Some db \<Rightarrow> (if site = [] then Inr l0
              else (case resolveProjectSecrets r db site l0 of
                 Inl e \<Rightarrow> Inl e
               | Inr l1 \<Rightarrow> resolveSiteEnvVars r db site scope l1)))
      in case layered of
           Inl e \<Rightarrow> Inl e
         | Inr l \<Rightarrow> Inr \<lparr> Environ = mapToEnviron (put_reserved reserved (l_merged l)),
                         secretKeys = l_secret l, conflicts = l_conflicts l \<rparr>)"

section \<open>Redaction\<close>

definition IsSecret :: "ResolvedEnv \<Rightarrow> string \<Rightarrow> bool" where
  "IsSecret r key = (key \<in> set (secretKeys r))"

definition redact_line :: "string list \<Rightarrow> string \<Rightarrow> string" where
  "redact_line keys kv = (case IndexByte kv (CHR ''='') of
     None \<Rightarrow> kv
   | Some i \<Rightarrow> if take i kv \<in> set keys then take i kv @ ''='' @ MaskValue (drop (Suc i) kv) else kv)"

definition Redact :: "string list \<Rightarrow> string list \<Rightarrow> string list" where
  "Redact env keys = (if keys = [] then env else map (redact_line keys) env)"

text \<open>\<^verbatim>\<open>strings.ReplaceAll\<close> for a non-empty pattern: leftmost matches, not overlapping.\<close>

function ReplaceAll :: "string \<Rightarrow> string \<Rightarrow> string \<Rightarrow> string" where
  "ReplaceAll s old new =
     (case s of
        [] \<Rightarrow> []
      | c # cs \<Rightarrow> if old \<noteq> [] \<and> HasPrefix s old then new @ ReplaceAll (drop (length old) s) old new
                 else c # ReplaceAll cs old new)"
  by pat_completeness auto
termination
  by (relation "measure (\<lambda>(s, old, new). length s)") (auto simp: prefix_def)

declare ReplaceAll.simps [simp del]

definition secret_pairs :: "ResolvedEnv \<Rightarrow> (string \<times> string) list" where
  "secret_pairs r = foldl (\<lambda>ps kv. case IndexByte kv (CHR ''='') of
       None \<Rightarrow> ps
     | Some i \<Rightarrow> (let v = drop (Suc i) kv in
         if \<not> IsSecret r (take i kv) \<or> v = [] \<or> v \<in> set (map fst ps) then ps else ps @ [(v, MaskValue v)]))
     [] (Environ r)"

fun sink_pair :: "string \<times> string \<Rightarrow> (string \<times> string) list \<Rightarrow> (string \<times> string) list" where
  "sink_pair p [] = [p]"
| "sink_pair p (q # qs) = (if length (fst q) < length (fst p) then q # sink_pair p qs else p # q # qs)"

text \<open>\<open>sortPairsByLenDesc\<close>: the same insertion, on descending lengths (the accumulator is reversed).\<close>

definition sortPairsByLenDesc :: "(string \<times> string) list \<Rightarrow> (string \<times> string) list" where
  "sortPairsByLenDesc ps = rev (foldl (\<lambda>acc p. sink_pair p acc) [] ps)"

definition RedactLogText :: "string \<Rightarrow> ResolvedEnv \<Rightarrow> string" where
  "RedactLogText txt r =
     (if secretKeys r = [] then txt
      else foldl (\<lambda>out p. ReplaceAll out (fst p) (snd p)) txt (sortPairsByLenDesc (secret_pairs r)))"

section \<open>Sorting and rendering\<close>

lemma set_sink [simp]: "set (sink k xs) = insert k (set xs)"
  by (induction xs) auto

lemma sink_sorted: "sorted (rev xs) \<Longrightarrow> sorted (rev (sink k xs))"
proof (induction xs)
  case (Cons x xs)
  then show ?case by (auto simp: sorted_append)
qed simp

lemma distinct_sink: "distinct xs \<Longrightarrow> k \<notin> set xs \<Longrightarrow> distinct (sink k xs)"
  by (induction xs) auto

lemma insertion_sort_acc:
  "sorted (rev acc) \<Longrightarrow> sorted (rev (foldl (\<lambda>acc k. sink k acc) acc ks))
   \<and> set (foldl (\<lambda>acc k. sink k acc) acc ks) = set acc \<union> set ks
   \<and> (distinct (acc @ ks) \<longrightarrow> distinct (foldl (\<lambda>acc k. sink k acc) acc ks))"
proof (induction ks arbitrary: acc)
  case (Cons k ks)
  from Cons.IH [OF sink_sorted [OF Cons.prems, of k]] show ?case by (auto simp: distinct_sink)
qed simp

lemma insertion_sort_spec:
  "sorted (insertion_sort ks)" "set (insertion_sort ks) = set ks" "distinct ks \<Longrightarrow> distinct (insertion_sort ks)"
  using insertion_sort_acc [of "[]" ks] by (simp_all add: insertion_sort_def)

lemma IndexByte_line: "CHR ''='' \<notin> set k \<Longrightarrow> IndexByte (k @ ''='' @ v) (CHR ''='') = Some (length k)"
  using IndexByte_append [of "CHR ''=''" k v] by simp

lemma kvm_lines:
  assumes "\<forall>k \<in> set ks. CHR ''='' \<notin> set k"
  shows "map_of (keyValueMap_from (map (\<lambda>k. k @ ''='' @ f k) ks) m) k =
    (if k \<in> set ks then Some (f k) else map_of m k)"
  using assms
proof (induction ks arbitrary: m)
  case (Cons x xs)
  have "IndexByte (x @ ''='' @ f x) (CHR ''='') = Some (length x)" by (rule IndexByte_line) (use Cons.prems in simp)
  with Cons show ?case by simp
qed simp

text \<open>Rendering a map and parsing it again loses nothing when no key contains \<open>=\<close>.\<close>

lemma keyValueMap_mapToEnviron:
  assumes "\<forall>k \<in> set (map fst m). CHR ''='' \<notin> set k"
  shows "map_of (keyValueMap (mapToEnviron m)) = map_of m"
proof
  fix k
  have "\<forall>k \<in> set (insertion_sort (map fst m)). CHR ''='' \<notin> set k" using assms by (simp add: insertion_sort_spec)
  from kvm_lines [OF this, of "\<lambda>k. the (map_of m k)" "[]" k]
  show "map_of (keyValueMap (mapToEnviron m)) k = map_of m k"
    using map_of_eq_None_iff [of m k] by (cases "map_of m k") (auto simp: keyValueMap_def mapToEnviron_def insertion_sort_spec image_iff)
qed

section \<open>What each layer contributes\<close>

lemma map_of_put_all: "map_of (put_all kvs m) = map_of m ++ map_of (rev kvs)"
proof (induction kvs arbitrary: m)
  case (Cons p kvs)
  then show ?case by (cases p) (simp add: map_add_def fun_eq_iff split: option.splits)
qed simp

fun reserved_pairs :: "string list \<Rightarrow> (string \<times> string) list" where
  "reserved_pairs [] = []"
| "reserved_pairs (kv # kvs) = (case IndexByte kv (CHR ''='') of
     None \<Rightarrow> reserved_pairs kvs
   | Some i \<Rightarrow> (take i kv, drop (Suc i) kv) # reserved_pairs kvs)"

lemma put_reserved_all: "put_reserved kvs m = put_all (reserved_pairs kvs) m"
  by (induction kvs arbitrary: m) (auto split: option.splits)

lemma keys_put_all: "set (map fst (put_all kvs m)) = set (map fst m) \<union> set (map fst kvs)"
proof (induction kvs arbitrary: m)
  case (Cons p kvs)
  obtain k v where "p = (k, v)" by force
  with Cons show ?case using map_keys_put [of k v m] by auto
qed simp

text \<open>Writing a list of secrets, the effect of a successful layer.\<close>

definition put_secrets :: "(string \<times> string) list \<Rightarrow> layers \<Rightarrow> layers" where
  "put_secrets kvs l = fold (\<lambda>(k, v). put_secret k v) kvs l"

lemma put_secrets_simps [simp]: "put_secrets [] l = l" "put_secrets ((k, v) # kvs) l = put_secrets kvs (put_secret k v l)"
  by (simp_all add: put_secrets_def)

lemma put_secrets_append: "put_secrets (as @ bs) l = put_secrets bs (put_secrets as l)"
  by (simp add: put_secrets_def)

lemma put_secrets_fields:
  "l_merged (put_secrets kvs l) = put_all kvs (l_merged l)
   \<and> set (l_secret (put_secrets kvs l)) = set (l_secret l) \<union> set (map fst kvs)
   \<and> l_conflicts (put_secrets kvs l) = l_conflicts l"
proof (induction kvs arbitrary: l)
  case (Cons p kvs)
  obtain k v where "p = (k, v)" by force
  with Cons show ?case by (auto simp: put_secret_def)
qed simp

definition folder_reads :: "SecretResolver \<Rightarrow> int \<Rightarrow> string \<Rightarrow> string \<Rightarrow> string \<Rightarrow> (string \<times> string) list" where
  "folder_reads sr org project envID folder =
     (case ListSecrets sr org project envID folder of
        None \<Rightarrow> []
      | Some keys \<Rightarrow> map (\<lambda>k. (k, the (ReadSecretValue sr org project envID folder k))) keys)"

text \<open>The secrets of the project layer, in the order they are read.\<close>

definition project_reads :: "EnvResolver \<Rightarrow> env_db \<Rightarrow> string \<Rightarrow> (string \<times> string) list" where
  "project_reads r db site = (case r_secrets r of
     None \<Rightarrow> []
   | Some sr \<Rightarrow> (case siteProjectEnvironment db site of
       Inl e \<Rightarrow> []
     | Inr (project, envID, org) \<Rightarrow>
         (if project = [] \<or> envID = [] then []
          else (case ListFolders sr org project envID of
            None \<Rightarrow> []
          | Some folders \<Rightarrow> concat (map (folder_reads sr org project envID) folders)))))"

definition site_reads :: "EnvResolver \<Rightarrow> env_db \<Rightarrow> string \<Rightarrow> EnvScope \<Rightarrow> (string \<times> string) list" where
  "site_reads r db site scope = (case t_vars db of
     Rows vs \<Rightarrow> map (\<lambda>v. (sv_key v, the (Decrypt (r_aead r) (r_key r) (sv_value v)))) (filter (in_scope scope site) vs)
   | _ \<Rightarrow> [])"

lemma read_keys: "fold_res (read_secret sr org p e f) keys l = Inr l' \<Longrightarrow>
    l' = put_secrets (map (\<lambda>k. (k, the (ReadSecretValue sr org p e f k))) keys) l"
  by (induction keys arbitrary: l) (auto simp: read_secret_def split: option.splits)

lemma read_folders: "fold_res (read_folder sr org p e) folders l = Inr l' \<Longrightarrow>
    l' = put_secrets (concat (map (folder_reads sr org p e) folders)) l"
proof (induction folders arbitrary: l)
  case (Cons f fs)
  then obtain l1 where l1: "read_folder sr org p e f l = Inr l1" "fold_res (read_folder sr org p e) fs l1 = Inr l'"
    by (auto split: sum.splits)
  from l1(1) have "l1 = put_secrets (folder_reads sr org p e f) l"
    by (auto simp: read_folder_def folder_reads_def read_keys split: option.splits)
  with Cons.IH [OF l1(2)] show ?case by (simp add: put_secrets_append)
qed simp

lemma project_layer: "resolveProjectSecrets r db site l = Inr l' \<Longrightarrow> l' = put_secrets (project_reads r db site) l"
  by (auto simp: resolveProjectSecrets_def project_reads_def read_folders split: option.splits sum.splits if_splits prod.splits)

lemma site_rows: "fold_res (site_row r) vs l = Inr l' \<Longrightarrow>
    l_merged l' = put_all (map (\<lambda>v. (sv_key v, the (Decrypt (r_aead r) (r_key r) (sv_value v)))) vs) (l_merged l)
    \<and> set (l_secret l') = set (l_secret l) \<union> sv_key ` set vs
    \<and> set (l_conflicts l) \<union> (set (l_secret l) \<inter> sv_key ` set vs) \<subseteq> set (l_conflicts l')
    \<and> set (l_conflicts l') \<subseteq> set (l_conflicts l) \<union> sv_key ` set vs
    \<and> (distinct (map sv_key vs) \<longrightarrow> set (l_conflicts l') = set (l_conflicts l) \<union> (set (l_secret l) \<inter> sv_key ` set vs))"
proof (induction vs arbitrary: l)
  case (Cons v vs)
  then obtain l1 where l1: "site_row r v l = Inr l1" "fold_res (site_row r) vs l1 = Inr l'" by (auto split: sum.splits)
  then obtain val where val: "Decrypt (r_aead r) (r_key r) (sv_value v) = Some val"
    by (auto simp: site_row_def split: option.splits)
  with l1(1) have f: "l_merged l1 = map_put (sv_key v) val (l_merged l)" "set (l_secret l1) = insert (sv_key v) (set (l_secret l))"
    "set (l_conflicts l1) = set (l_conflicts l) \<union> (if sv_key v \<in> set (l_secret l) then {sv_key v} else {})"
    by (auto simp: site_row_def put_secret_def split: if_splits)
  from Cons.IH [OF l1(2)] show ?case unfolding f by (auto simp: val f split: if_splits)
qed auto

lemma site_layer:
  assumes "resolveSiteEnvVars r db site scope l = Inr l'"
  shows "l_merged l' = put_all (site_reads r db site scope) (l_merged l)
    \<and> set (l_secret l') = set (l_secret l) \<union> set (map fst (site_reads r db site scope))
    \<and> (distinct (map fst (site_reads r db site scope)) \<and> l_conflicts l = [] \<longrightarrow>
         set (l_conflicts l') = set (l_secret l) \<inter> set (map fst (site_reads r db site scope)))"
proof (cases "t_vars db")
  case (Rows vs)
  have e: "map fst (site_reads r db site scope) = map sv_key (filter (in_scope scope site) vs)"
    by (simp add: site_reads_def Rows comp_def)
  from assms Rows have "fold_res (site_row r) (filter (in_scope scope site) vs) l = Inr l'"
    by (simp add: resolveSiteEnvVars_def)
  from site_rows [OF this] show ?thesis unfolding e by (simp add: site_reads_def Rows)
qed (use assms in \<open>auto simp: resolveSiteEnvVars_def site_reads_def\<close>)

text \<open>The first layer that binds a key, from the strongest to the weakest.\<close>

fun first_binding :: "(string \<times> string) list list \<Rightarrow> string \<Rightarrow> string option" where
  "first_binding [] k = None"
| "first_binding (l # ls) k = (case map_of (rev l) k of Some v \<Rightarrow> Some v | None \<Rightarrow> first_binding ls k)"

definition no_eq :: "(string \<times> string) list \<Rightarrow> bool" where
  "no_eq kvs = (\<forall>k \<in> set (map fst kvs). CHR ''='' \<notin> set k)"

lemma keyValueMap_no_eq: "no_eq (keyValueMap env)"
proof -
  have "no_eq m \<Longrightarrow> no_eq (keyValueMap_from env m)" for m
  proof (induction env arbitrary: m)
    case (Cons kv env)
    show ?case
    proof (cases "IndexByte kv (CHR ''='')")
      case None
      then have "no_eq (map_put kv [] m)"
        using Cons.prems map_keys_put [of kv "[]" m] by (auto simp: no_eq_def IndexByte_None_iff)
      with Cons.IH None show ?thesis by simp
    next
      case (Some i)
      then have "no_eq (map_put (take i kv) (drop (Suc i) kv) m)"
        using Cons.prems map_keys_put [of "take i kv" "drop (Suc i) kv" m] IndexByte_Some [OF Some] by (auto simp: no_eq_def)
      with Cons.IH Some show ?thesis by simp
    qed
  qed simp
  from this [of "[]"] show ?thesis by (simp add: keyValueMap_def) (simp add: no_eq_def)
qed

lemma reserved_no_eq: "no_eq (reserved_pairs kvs)"
  by (induction kvs) (auto simp: no_eq_def split: option.splits dest: IndexByte_Some)

lemma no_eq_put_all: "no_eq kvs \<Longrightarrow> no_eq m \<Longrightarrow> no_eq (put_all kvs m)"
  unfolding no_eq_def keys_put_all by auto

lemma Resolve_layers:
  assumes r: "ResolveOptions os r site scope manifest reserved = Inr out" and db: "r_db r = Some db" "site \<noteq> []"
  defines "P \<equiv> project_reads r db site" and "S \<equiv> site_reads r db site scope"
  shows "Environ out = mapToEnviron (put_all (reserved_pairs reserved) (put_all S (put_all P
        (put_all manifest (keyValueMap (defaultEnviron os r scope))))))
    \<and> set (secretKeys out) = set (map fst P) \<union> set (map fst S)
    \<and> (distinct (map fst S) \<longrightarrow> set (conflicts out) = set (map fst P) \<inter> set (map fst S))"
proof -
  let ?l0 = "\<lparr> l_merged = put_all manifest (keyValueMap (defaultEnviron os r scope)), l_secret = [], l_conflicts = [] \<rparr>"
  from r db obtain l1 l2 where l: "resolveProjectSecrets r db site ?l0 = Inr l1"
    "resolveSiteEnvVars r db site scope l1 = Inr l2"
    "out = \<lparr> Environ = mapToEnviron (put_reserved reserved (l_merged l2)), secretKeys = l_secret l2, conflicts = l_conflicts l2 \<rparr>"
    by (auto simp: ResolveOptions_def Let_def split: sum.splits)
  from project_layer [OF l(1)] have l1: "l1 = put_secrets P ?l0" by (simp add: P_def)
  note f = put_secrets_fields [of P ?l0]
  from site_layer [OF l(2)] f l1 show ?thesis by (auto simp: l(3) put_reserved_all S_def P_def)
qed


definition no_aead :: aead where
  "no_aead = \<lparr> seal = (\<lambda>k n p. p), unseal = (\<lambda>k n c. Some c), enc64 = (\<lambda>s. s), dec64 = Some \<rparr>"

definition sample_env_db :: "site_var list \<Rightarrow> env_db" where
  "sample_env_db vs = \<lparr> t_sites = Missing, t_projects = Missing, t_envs = Missing, t_vars = Rows vs \<rparr>"

definition sample_resolver :: "site_var list \<Rightarrow> EnvResolver" where
  "sample_resolver vs = \<lparr> r_db = Some (sample_env_db vs), r_key = None, r_buildHome = [], r_secrets = None, r_aead = no_aead \<rparr>"

definition sample_os :: os_env where
  "sample_os = \<lparr> os_environ = [''PORT=1'', ''PATH=/bin''], os_home = [], os_join = (\<lambda>a b. a @ ''/'' @ b) \<rparr>"

definition port_var :: site_var where
  "port_var = \<lparr> sv_site = ''s'', sv_key = ''PORT'', sv_value = ''80'', sv_build = False, sv_runtime = True \<rparr>"


section \<open>Failing closed\<close>

lemma fold_res_bad: "x \<in> set xs \<Longrightarrow> (\<And>s. \<exists>e. f x s = Inl e) \<Longrightarrow> \<exists>e. fold_res f xs s = Inl e"
proof (induction xs arbitrary: s)
  case (Cons y ys)
  show ?case
  proof (cases "f y s")
    case (Inr s')
    with Cons.prems(2) [of s] Cons.prems(1) have "x \<in> set ys" by auto
    from Cons.IH [OF this Cons.prems(2)] Inr show ?thesis by simp
  qed simp
qed simp

text \<open>A selected secret that cannot be delivered: an unreadable native secret or an undecryptable site value.\<close>

definition project_undeliverable :: "EnvResolver \<Rightarrow> env_db \<Rightarrow> string \<Rightarrow> bool" where
  "project_undeliverable r db site = (case r_secrets r of None \<Rightarrow> False
     | Some sr \<Rightarrow> (case siteProjectEnvironment db site of Inl e \<Rightarrow> True
         | Inr (project, envID, org) \<Rightarrow> project \<noteq> [] \<and> envID \<noteq> [] \<and>
             (case ListFolders sr org project envID of None \<Rightarrow> True
              | Some folders \<Rightarrow> list_ex (\<lambda>f. case ListSecrets sr org project envID f of None \<Rightarrow> True
                  | Some keys \<Rightarrow> list_ex (\<lambda>k. ReadSecretValue sr org project envID f k = None) keys) folders)))"

definition site_undeliverable :: "EnvResolver \<Rightarrow> env_db \<Rightarrow> string \<Rightarrow> EnvScope \<Rightarrow> bool" where
  "site_undeliverable r db site scope = (case t_vars db of Missing \<Rightarrow> False | Failing \<Rightarrow> True
     | Rows vs \<Rightarrow> list_ex (\<lambda>v. in_scope scope site v \<and> Decrypt (r_aead r) (r_key r) (sv_value v) = None) vs)"

lemma project_bad:
  assumes "r_secrets r = Some sr" "siteProjectEnvironment db site = Inr (project, envID, org)" "project \<noteq> []" "envID \<noteq> []"
    "ListFolders sr org project envID = Some folders" "f \<in> set folders"
    "case ListSecrets sr org project envID f of None \<Rightarrow> True
       | Some keys \<Rightarrow> list_ex (\<lambda>k. ReadSecretValue sr org project envID f k = None) keys"
  shows "\<exists>e. resolveProjectSecrets r db site l = Inl e"
proof -
  have "\<exists>e. read_folder sr org project envID f l' = Inl e" for l'
  proof (cases "ListSecrets sr org project envID f")
    case None
    then show ?thesis by (simp add: read_folder_def)
  next
    case (Some keys)
    with assms(7) obtain k where k: "k \<in> set keys" "ReadSecretValue sr org project envID f k = None"
      by (auto simp: list_ex_iff)
    have "\<exists>e. fold_res (read_secret sr org project envID f) keys l' = Inl e"
      by (rule fold_res_bad [OF k(1)]) (simp add: read_secret_def k(2))
    with Some show ?thesis by (simp add: read_folder_def)
  qed
  from fold_res_bad [OF assms(6), of "read_folder sr org project envID", OF this] assms(1-5)
  show ?thesis by (simp add: resolveProjectSecrets_def)
qed

lemma project_fails: "project_undeliverable r db site \<Longrightarrow> \<exists>e. resolveProjectSecrets r db site l = Inl e"
proof -
  assume u: "project_undeliverable r db site"
  then obtain sr where sr: "r_secrets r = Some sr" by (cases "r_secrets r") (auto simp: project_undeliverable_def)
  show ?thesis
  proof (cases "siteProjectEnvironment db site")
    case (Inl e)
    with sr show ?thesis by (simp add: resolveProjectSecrets_def)
  next
    case (Inr x)
    obtain project envID org where x: "x = (project, envID, org)" by (cases x) auto
    note pe = Inr [unfolded x]
    from u sr pe have ne: "project \<noteq> []" "envID \<noteq> []" by (auto simp: project_undeliverable_def)
    show ?thesis
    proof (cases "ListFolders sr org project envID")
      case None
      with sr pe ne show ?thesis by (simp add: resolveProjectSecrets_def)
    next
      case (Some folders)
      with u sr pe obtain f where "f \<in> set folders"
        "case ListSecrets sr org project envID f of None \<Rightarrow> True
           | Some keys \<Rightarrow> list_ex (\<lambda>k. ReadSecretValue sr org project envID f k = None) keys"
        by (auto simp: list_ex_iff project_undeliverable_def)
      with project_bad [OF sr pe ne Some] show ?thesis by blast
    qed
  qed
qed

lemma site_fails: "site_undeliverable r db site scope \<Longrightarrow> \<exists>e. resolveSiteEnvVars r db site scope l = Inl e"
proof (cases "t_vars db")
  case (Rows vs)
  assume "site_undeliverable r db site scope"
  with Rows obtain v where v: "v \<in> set (filter (in_scope scope site) vs)" "Decrypt (r_aead r) (r_key r) (sv_value v) = None"
    by (auto simp: list_ex_iff site_undeliverable_def)
  have "\<exists>e. fold_res (site_row r) (filter (in_scope scope site) vs) l = Inl e"
    by (rule fold_res_bad [OF v(1)]) (simp add: site_row_def v(2))
  with Rows show ?thesis by (simp add: resolveSiteEnvVars_def)
qed (auto simp: resolveSiteEnvVars_def site_undeliverable_def)

text \<open>
  Delivery fails closed: when the site's project chain, a folder, a listed native secret, the site
  table or a site value of the scope cannot be read or decrypted, resolution is an error, never an
  environment without that secret.
\<close>

lemma ResolveOptions_fails_closed:
  assumes "r_db r = Some db" and "site \<noteq> []"
    and "project_undeliverable r db site \<or> site_undeliverable r db site scope"
  shows "\<exists>e. ResolveOptions os r site scope manifest reserved = Inl e"
proof -
  let ?l0 = "\<lparr> l_merged = put_all manifest (keyValueMap (defaultEnviron os r scope)), l_secret = [], l_conflicts = [] \<rparr>"
  have "\<exists>e. (case resolveProjectSecrets r db site ?l0 of Inl e \<Rightarrow> Inl e | Inr l1 \<Rightarrow> resolveSiteEnvVars r db site scope l1) = Inl e"
  proof (cases "resolveProjectSecrets r db site ?l0")
    case (Inr l1)
    with project_fails [of r db site ?l0] assms(3) have "site_undeliverable r db site scope" by auto
    from site_fails [OF this] Inr show ?thesis by simp
  qed simp
  with assms(1,2) show ?thesis by (auto simp: ResolveOptions_def Let_def)
qed

lemma ResolveOptions_fails_closed_witness:
  "\<exists>e. ResolveOptions sample_os
        \<lparr> r_db = Some (sample_env_db [port_var]), r_key = Some ''k'', r_buildHome = [], r_secrets = None,
          r_aead = no_aead\<lparr> dec64 := (\<lambda>s. None) \<rparr> \<rparr> ''s'' ScopeRuntime [] [] = Inl e"
  by (rule ResolveOptions_fails_closed [where db = "sample_env_db [port_var]"])
    (simp_all add: site_undeliverable_def sample_env_db_def in_scope_def port_var_def Decrypt_def no_aead_def)

section \<open>Redaction removes every secret value\<close>

definition ascii :: "string \<Rightarrow> bool" where
  "ascii s = list_all (\<lambda>c. (of_char c :: nat) < 128) s"

lemma runes_ascii: "ascii s \<Longrightarrow> runes s = map (\<lambda>c. [c]) s"
proof (induction s)
  case (Cons c cs)
  then have "runes cs = map (\<lambda>c. [c]) cs" "ascii cs" by (auto simp: ascii_def)
  then show ?case by (cases cs) (auto simp: ascii_def is_cont_def)
qed simp

text \<open>What a mask shows of the value: nothing of a short one, the last four bytes of a longer one.\<close>

definition shown :: "string \<Rightarrow> string" where
  "shown v = (if length v \<le> 4 then [] else drop (length v - 4) v)"

lemma MaskValue_ascii: "ascii v \<Longrightarrow> MaskValue v = bullets @ shown v"
proof -
  assume "ascii v"
  moreover have "concat (map (\<lambda>c. [c]) xs) = xs" for xs :: string by (induction xs) auto
  ultimately show ?thesis by (simp add: MaskValue_def runes_ascii shown_def drop_map)
qed

lemma bullets_not_ascii: "c \<in> set bullets \<Longrightarrow> \<not> (of_char c :: nat) < 128"
  by (auto simp: bullets_def numeral_eq_Suc)

lemma bullets_ne: "bullets \<noteq> []"
  by (simp add: bullets_def numeral_eq_Suc)

text \<open>An occurrence of an ASCII text cannot straddle the bullets.\<close>

lemma Contains_around_bullets:
  assumes q: "ascii q" and c: "Contains (a @ bullets @ b) q"
  shows "Contains a q \<or> Contains b q"
proof -
  from c obtain x y where e: "a @ bullets @ b = x @ q @ y" by (auto simp: Contains_iff)
  consider (left) z where "a = x @ z" "z @ bullets @ b = q @ y"
    | (right) z where "x = a @ z" "bullets @ b = z @ q @ y"
    using iffD1 [OF append_eq_append_conv2 e] by metis
  then show ?thesis
  proof cases
    case left
    consider w where "z = q @ w" | w where "q = z @ w" "bullets @ b = w @ y"
      using iffD1 [OF append_eq_append_conv2 left(2)] by metis
    then show ?thesis
    proof cases
      case 1
      with left(1) have "a = x @ q @ w" by simp
      then show ?thesis unfolding Contains_iff by blast
    next
      case 2
      show ?thesis
      proof (cases "w = []")
        case True
        with 2 left(1) have "a = x @ q @ []" by simp
        then show ?thesis unfolding Contains_iff by blast
      next
        case False
        with 2 have "hd w \<in> set bullets" using bullets_ne by (metis hd_append2 hd_in_set)
        moreover have "hd w \<in> set q" using 2 False by auto
        ultimately show ?thesis using bullets_not_ascii q by (auto simp: ascii_def list_all_iff)
      qed
    qed
  next
    case right
    consider w where "z = bullets @ w" "b = w @ q @ y" | w where "bullets = z @ w" "w @ b = q @ y" "w \<noteq> []"
      using iffD1 [OF append_eq_append_conv2 right(2)] by (metis append_Nil append_Nil2)
    then show ?thesis
    proof cases
      case 1
      then show ?thesis unfolding Contains_iff by blast
    next
      case 2
      show ?thesis
      proof (cases "q = []")
        case True
        then show ?thesis by (cases a) simp_all
      next
        case False
        with 2(2,3) have "hd q = hd w" by (metis hd_append2)
        moreover have "hd w \<in> set bullets" unfolding 2(1) using 2(3) by simp
        ultimately have "hd q \<in> set bullets" by simp
        with False bullets_not_ascii [of "hd q"] q hd_in_set [OF False] show ?thesis
          by (simp add: ascii_def list_all_iff)
      qed
    qed
  qed
qed

lemma Contains_mono: "Contains s q \<Longrightarrow> Contains (a @ s @ b) q"
proof -
  assume "Contains s q"
  then obtain x y where "a @ s @ b = (a @ x) @ q @ (y @ b)" by (auto simp: Contains_iff)
  then show ?thesis unfolding Contains_iff by blast
qed

lemma ReplaceAll_match: "p \<noteq> [] \<Longrightarrow> ReplaceAll (p @ s) p new = new @ ReplaceAll s p new"
  by (subst ReplaceAll.simps) (cases p, auto)

lemma ReplaceAll_skip: "\<not> prefix p (c # cs) \<Longrightarrow> ReplaceAll (c # cs) p new = c # ReplaceAll cs p new"
  by (subst ReplaceAll.simps) simp

text \<open>Masking one secret never creates an occurrence of another text.\<close>

lemma ReplaceAll_no_new:
  assumes q: "ascii q" and p: "p \<noteq> []" and w: "suffix w p"
  shows "Contains (a @ ReplaceAll s p (bullets @ w)) q \<Longrightarrow> Contains (a @ s) q"
proof (induction s arbitrary: a rule: length_induct)
  case (1 s)
  show ?case
  proof (cases s)
    case Nil
    with 1 show ?thesis by (simp add: ReplaceAll.simps)
  next
    case (Cons c cs)
    show ?thesis
    proof (cases "prefix p s")
      case False
      with Cons have "ReplaceAll s p (bullets @ w) = c # ReplaceAll cs p (bullets @ w)"
        by (simp add: ReplaceAll_skip)
      with 1 Cons have "Contains ((a @ [c]) @ cs) q" by (metis append.assoc append_Cons append_Nil length_Cons lessI)
      with Cons show ?thesis by simp
    next
      case True
      then obtain s' where s': "s = p @ s'" by (auto simp: prefix_def)
      have "ReplaceAll s p (bullets @ w) = (bullets @ w) @ ReplaceAll s' p (bullets @ w)"
        using p s' by (simp add: ReplaceAll_match)
      with 1 have "Contains (a @ bullets @ (w @ ReplaceAll s' p (bullets @ w))) q" by simp
      from Contains_around_bullets [OF q this] consider "Contains a q" | "Contains (w @ ReplaceAll s' p (bullets @ w)) q" by blast
      then show ?thesis
      proof cases
        case 1
        then show ?thesis using Contains_mono [of a q "[]" s] by simp
      next
        case 2
        have "length s' < length s" using s' p by simp
        with 1 2 have "Contains (w @ s') q" by blast
        moreover obtain v where "p = v @ w" using w by (auto simp: suffix_def)
        ultimately show ?thesis using Contains_mono [of "w @ s'" q "a @ v" "[]"] s' by simp
      qed
    qed
  qed
qed

text \<open>A value that starts with one to four of its own last bytes can survive an overlapping repetition.\<close>

definition no_border :: "string \<Rightarrow> bool" where
  "no_border p = list_all (\<lambda>n. n < length p \<longrightarrow> take n p \<noteq> drop (length p - n) p) [1, 2, 3, 4]"

lemma no_border_shown:
  assumes b: "no_border p" and i: "i < length (shown p)"
  shows "\<not> prefix p (drop i (shown p @ s))"
proof
  assume pr: "prefix p (drop i (shown p @ s))"
  have len: "length p > 4" "length (shown p) = 4" using i by (auto simp: shown_def split: if_splits)
  define n where "n = 4 - i"
  have n: "1 \<le> n" "n \<le> 4" "n < length p" using i len by (auto simp: n_def)
  have d: "drop i (shown p) = drop (length p - n) p" using i len by (simp add: shown_def n_def add.commute)
  have "drop i (shown p @ s) = drop (length p - n) p @ s" using i len d by simp
  with pr obtain z where "drop (length p - n) p @ s = p @ z" by (auto simp: prefix_def)
  then have "take n (drop (length p - n) p @ s) = take n (p @ z)" by simp
  then have "drop (length p - n) p = take n p" using n by simp
  moreover have "n = 1 \<or> n = 2 \<or> n = 3 \<or> n = 4" using n by linarith
  ultimately show False using b n(3) by (auto simp: no_border_def)
qed

lemma ReplaceAll_removes:
  assumes q: "ascii p" and p: "p \<noteq> []" and b: "no_border p"
  shows "(\<forall>i < length a. \<not> prefix p (drop i (a @ s))) \<Longrightarrow> \<not> Contains (a @ ReplaceAll s p (bullets @ shown p)) p"
proof (induction s arbitrary: a rule: length_induct)
  case (1 s)
  let ?R = "\<lambda>s. ReplaceAll s p (bullets @ shown p)"
  have inside: "\<not> Contains a p"
  proof
    assume "Contains a p"
    then obtain x y where x: "a = x @ p @ y" by (auto simp: Contains_iff)
    then have "prefix p (drop (length x) (a @ s))" "length x < length a" using p by auto
    with 1(2) show False by blast
  qed
  show ?case
  proof (cases s)
    case Nil
    with inside show ?thesis by (simp add: ReplaceAll.simps)
  next
    case (Cons c cs)
    show ?thesis
    proof (cases "prefix p s")
      case False
      with Cons have r: "?R s = c # ?R cs" by (simp add: ReplaceAll_skip)
      have "\<forall>i < length (a @ [c]). \<not> prefix p (drop i ((a @ [c]) @ cs))"
        using 1(2) False Cons by (auto simp: less_Suc_eq)
      with 1(1) Cons have "\<not> Contains ((a @ [c]) @ ?R cs) p" by (metis length_Cons lessI)
      with r show ?thesis by simp
    next
      case True
      then obtain s' where s': "s = p @ s'" by (auto simp: prefix_def)
      have r: "?R s = bullets @ shown p @ ?R s'" using p s' by (simp add: ReplaceAll_match)
      have "length s' < length s" using s' p by simp
      with 1(1) no_border_shown [OF b] have "\<not> Contains (shown p @ ?R s') p" by blast
      with inside Contains_around_bullets [OF q, of a "shown p @ ?R s'"] r show ?thesis by auto
    qed
  qed
qed

lemma shown_suffix: "suffix (shown p) p"
  by (simp add: shown_def suffix_drop)

lemma mask_pairs:
  assumes "\<forall>p \<in> set ps. fst p \<noteq> [] \<and> ascii (fst p) \<and> no_border (fst p) \<and> snd p = MaskValue (fst p)"
  shows "p \<in> set ps \<Longrightarrow> \<not> Contains (foldl (\<lambda>out p. ReplaceAll out (fst p) (snd p)) txt ps) (fst p)"
  using assms
proof (induction ps rule: rev_induct)
  case (snoc r rs)
  let ?o = "foldl (\<lambda>out p. ReplaceAll out (fst p) (snd p)) txt rs"
  have r: "fst r \<noteq> []" "ascii (fst r)" "no_border (fst r)" "snd r = bullets @ shown (fst r)"
    using snoc.prems(2) by (auto simp: MaskValue_ascii)
  show ?case
  proof (cases "p = r")
    case True
    with ReplaceAll_removes [OF r(2,1,3), of "[]" ?o] r(4) show ?thesis by simp
  next
    case False
    with snoc have "\<not> Contains ?o (fst p)" "ascii (fst p)" by auto
    with ReplaceAll_no_new [OF _ r(1) shown_suffix, of "fst p" "[]" ?o] r(4) show ?thesis by auto
  qed
qed simp

lemma set_sink_pair: "set (sink_pair p ps) = insert p (set ps)"
  by (induction ps) auto

lemma set_sortPairs: "set (sortPairsByLenDesc ps) = set ps"
proof -
  have "set (foldl (\<lambda>acc p. sink_pair p acc) acc ps) = set acc \<union> set ps" for acc
    by (induction ps arbitrary: acc) (auto simp: set_sink_pair)
  then show ?thesis by (simp add: sortPairsByLenDesc_def)
qed

text \<open>The values a resolution has to keep out of logs.\<close>

definition secret_values :: "ResolvedEnv \<Rightarrow> string list" where
  "secret_values r = filter (\<lambda>v. v \<noteq> []) (map (\<lambda>kv. drop (Suc (the (IndexByte kv (CHR ''='')))) kv)
     (filter (\<lambda>kv. IndexByte kv (CHR ''='') \<noteq> None \<and> IsSecret r (take (the (IndexByte kv (CHR ''=''))) kv)) (Environ r)))"

lemma secret_pairs_set:
  "fst ` set (secret_pairs r) = set (secret_values r) \<and> (\<forall>p \<in> set (secret_pairs r). snd p = MaskValue (fst p))"
proof -
  let ?f = "\<lambda>ps kv. case IndexByte kv (CHR ''='') of None \<Rightarrow> ps
     | Some i \<Rightarrow> (let v = drop (Suc i) kv in
         if \<not> IsSecret r (take i kv) \<or> v = [] \<or> v \<in> set (map fst ps) then ps else ps @ [(v, MaskValue v)])"
  let ?vals = "\<lambda>env. set (filter (\<lambda>v. v \<noteq> []) (map (\<lambda>kv. drop (Suc (the (IndexByte kv (CHR ''='')))) kv)
     (filter (\<lambda>kv. IndexByte kv (CHR ''='') \<noteq> None \<and> IsSecret r (take (the (IndexByte kv (CHR ''=''))) kv)) env)))"
  have "(\<forall>p \<in> set ps. snd p = MaskValue (fst p)) \<Longrightarrow>
      fst ` set (foldl ?f ps env) = fst ` set ps \<union> ?vals env \<and> (\<forall>p \<in> set (foldl ?f ps env). snd p = MaskValue (fst p))" for ps env
  proof (induction env arbitrary: ps)
    case (Cons kv env)
    have "(\<forall>p \<in> set (?f ps kv). snd p = MaskValue (fst p)) \<and> fst ` set (?f ps kv) = fst ` set ps \<union> ?vals [kv]"
      using Cons.prems by (cases "IndexByte kv (CHR ''='')") (auto simp: Let_def)
    with Cons.IH [of "?f ps kv"] show ?case by auto
  qed simp
  from this [of "[]" "Environ r"] show ?thesis by (simp add: secret_pairs_def secret_values_def)
qed


definition sample_resolved :: "string \<Rightarrow> ResolvedEnv" where
  "sample_resolved v = \<lparr> Environ = [''TOKEN='' @ v, ''MODE=x''], secretKeys = [''TOKEN''], conflicts = [] \<rparr>"


text \<open>A value with such a border survives: the whole secret is still in the log line.\<close>

lemma RedactLogText_leak:
  "Contains (RedactLogText ''abcdXabcdXabcd'' (sample_resolved ''abcdXabcd'')) ''abcdXabcd''"
  by code_simp

text \<open>A manifest key with an equals sign overrides a reserved value in the process environment.\<close>

lemma manifest_key_hijacks_reserved:
  "case ResolveOptions sample_os (sample_resolver []) ''s'' ScopeRuntime [(''PORT=80'', ''x'')] [''PORT=9001''] of
     Inl e \<Rightarrow> False
   | Inr out \<Rightarrow> map_of (keyValueMap (Environ out)) ''PORT'' = Some ''80=x''"
  by code_simp

section \<open>The envelope\<close>

text \<open>Decryption undoes encryption when base64 and the cipher are inverse to themselves.\<close>

lemma Decrypt_Encrypt:
  assumes "\<And>s. dec64 A (enc64 A s) = Some s" "\<And>k n p. unseal A k n (seal A k n p) = Some p" "length nonce = nonceSize"
  shows "Decrypt A key (Encrypt A key nonce plain) = Some plain"
  using assms by (cases key) (simp_all add: Decrypt_def Encrypt_def)

end
