(* ===== verification/Deploy_Project.thy ===== *)
theory Deploy_Project
  imports Go_Path
begin

text \<open>
  What a checked-out project is and where its files are served from: package-manager and framework
  detection (\<^verbatim>\<open>node_pm.go\<close>, \<^verbatim>\<open>framework_mode.go\<close>), app types and roots (\<^verbatim>\<open>utils.go\<close>) and static
  serve directories (\<^verbatim>\<open>static_serve.go\<close>) of \<^verbatim>\<open>components/deploy\<close>. A project directory is the map of its
  readable files plus its \<^verbatim>\<open>package.json\<close>, which is absent, not decodable, or decoded (each function of the code
  decodes the fields it needs; the model decodes the file once, so a file with one ill-typed field is
  not decodable for all of them). The two regular
  expressions of the code are matched by hand. A file system for serve directories is a predicate on
  absolute paths.
\<close>

section \<open>Application types\<close>

abbreviation AppNode :: string where "AppNode \<equiv> ''node''"
abbreviation AppGo :: string where "AppGo \<equiv> ''go''"
abbreviation AppPython :: string where "AppPython \<equiv> ''python''"
abbreviation AppPHP :: string where "AppPHP \<equiv> ''php''"
abbreviation AppRust :: string where "AppRust \<equiv> ''rust''"
abbreviation AppJava :: string where "AppJava \<equiv> ''java''"
abbreviation AppRuby :: string where "AppRuby \<equiv> ''ruby''"
abbreviation AppStatic :: string where "AppStatic \<equiv> ''static''"
abbreviation AppStaticSidecar :: string where "AppStaticSidecar \<equiv> ''static-sidecar''"

definition AllAppTypes :: "string list" where
  "AllAppTypes = [AppNode, AppGo, AppPython, AppPHP, AppRust, AppJava, AppRuby, AppStatic, AppStaticSidecar]"

definition IsValid :: "string \<Rightarrow> bool" where
  "IsValid a = (a = AppNode \<or> a = AppGo \<or> a = AppPython \<or> a = AppPHP \<or> a = AppRust \<or> a = AppJava
     \<or> a = AppRuby \<or> a = AppStatic \<or> a = AppStaticSidecar)"

record CodedError =
  Code :: string
  Message :: string
  Hint :: string

definition Error :: "CodedError \<Rightarrow> string" where
  "Error e = (if Hint e = [] then Message e @ '' ('' @ Code e @ '')''
     else Message e @ '' ('' @ Code e @ ''): '' @ Hint e)"

definition codedErr :: "string \<Rightarrow> string \<Rightarrow> string \<Rightarrow> CodedError" where
  "codedErr c m h = \<lparr> Code = c, Message = m, Hint = h \<rparr>"

section \<open>Project directories\<close>

record package_json =
  packageManager :: string
  Dependencies :: "(string, string) go_map"
  DevDependencies :: "(string, string) go_map"
  Scripts :: "(string, string) go_map"

datatype package_file = PkgAbsent | PkgBad | Pkg package_json

record project =
  files :: "(string, string) go_map"
  pkg :: package_file
  pyproject :: bool

text \<open>\<open>pyproject\<close>: a \<^verbatim>\<open>pyproject.toml\<close> with a project section (\<open>HasPyProjectTOML\<close>).\<close>

definition fileExists :: "project \<Rightarrow> string \<Rightarrow> bool" where
  "fileExists p name = (if name = ''package.json'' then pkg p \<noteq> PkgAbsent else map_of (files p) name \<noteq> None)"

definition str_get :: "(string, string) go_map \<Rightarrow> string \<Rightarrow> string" where
  "str_get m k = (case map_of m k of None \<Rightarrow> [] | Some v \<Rightarrow> v)"

definition hasDep :: "(string, string) go_map \<Rightarrow> string \<Rightarrow> bool" where
  "hasDep deps name = (map_of deps name \<noteq> None)"

section \<open>Package managers\<close>

definition packageManagerFromPackageJSON :: "project \<Rightarrow> string" where
  "packageManagerFromPackageJSON p = (case pkg p of
     Pkg j \<Rightarrow> (if packageManager j = [] then []
       else let name = hd (Split (packageManager j) (CHR ''@'')) in
         if name = ''npm'' \<or> name = ''pnpm'' \<or> name = ''yarn'' \<or> name = ''bun'' then name else [])
   | _ \<Rightarrow> [])"

fun first_lockfile :: "project \<Rightarrow> (string \<times> string) list \<Rightarrow> string" where
  "first_lockfile p [] = ''npm''"
| "first_lockfile p ((f, pm) # fs) = (if fileExists p f then pm else first_lockfile p fs)"

definition DetectNodePackageManager :: "project \<Rightarrow> string" where
  "DetectNodePackageManager p =
     (let pm = packageManagerFromPackageJSON p in
      if pm \<noteq> [] then pm
      else first_lockfile p [(''bun.lockb'', ''bun''), (''bun.lock'', ''bun''), (''pnpm-lock.yaml'', ''pnpm''),
        (''yarn.lock'', ''yarn''), (''package-lock.json'', ''npm'')])"

text \<open>\<open>on_path\<close> looks a binary up; \<open>corepack\<close> is what the lookup finds after \<^verbatim>\<open>corepack enable\<close>, run once per
  process (\<open>tryCorepackEnable\<close>), when that command succeeds.\<close>

definition pm_missing :: "string \<Rightarrow> CodedError" where
  "pm_missing pm = codedErr ''tool_missing'' (pm @ '' not found on PATH'')
     (''Install '' @ pm @ '' (or enable Corepack for pnpm/yarn) on the deploy host. No silent package-manager fallback.'')"

definition ensureNodePackageManager :: "(string \<Rightarrow> bool) \<Rightarrow> (string \<Rightarrow> bool) option \<Rightarrow> string \<Rightarrow> CodedError option" where
  "ensureNodePackageManager on_path corepack pm =
     (if on_path pm then None
      else if pm = ''pnpm'' \<or> pm = ''yarn'' then
        (case corepack of
           None \<Rightarrow> Some (codedErr ''tool_missing'' (pm @ '' not found on PATH'')
             (''Install '' @ pm @ '' or run '' @ [CHR 0x60] @ ''corepack enable'' @ [CHR 0x60]
               @ '' on the deploy host. Do not substitute npm when the lockfile requires '' @ pm @ ''.''))
         | Some on_path' \<Rightarrow> if on_path' pm then None else Some (pm_missing pm))
      else if pm = ''bun'' then Some (codedErr ''tool_missing'' ''bun not found on PATH''
        ''Install bun on the deploy host, or switch the project to npm/pnpm/yarn with a matching lockfile.'')
      else Some (pm_missing pm))"

definition NodeInstallCommand :: "string \<Rightarrow> string \<times> string list" where
  "NodeInstallCommand pm =
     (if pm = ''pnpm'' then (''pnpm'', [''install''])
      else if pm = ''yarn'' then (''yarn'', [''install'', ''--frozen-lockfile''])
      else if pm = ''bun'' then (''bun'', [''install'']) else (''npm'', [''install'']))"

definition NodeBuildCommand :: "string \<Rightarrow> string \<times> string list" where
  "NodeBuildCommand pm = (pm, [''run'', ''build''])"

definition NodePMRunCommand :: "project \<Rightarrow> string \<Rightarrow> string" where
  "NodePMRunCommand p script = DetectNodePackageManager p @ '' run '' @ script"

definition NodePMStartCommand :: "project \<Rightarrow> string" where
  "NodePMStartCommand p = DetectNodePackageManager p @ '' start''"

definition GetStartCommand :: "project \<Rightarrow> string" where
  "GetStartCommand p = (case pkg p of
     Pkg j \<Rightarrow> (if str_get (Scripts j) ''start'' \<noteq> [] then str_get (Scripts j) ''start''
       else if fileExists p ''build/index.js'' then ''node build/index.js'' else ''node index.js'')
   | _ \<Rightarrow> ''node index.js'')"

text \<open>\<^verbatim>\<open>strings.Fields\<close>: the maximal runs of non-space bytes.\<close>

function Fields :: "string \<Rightarrow> string list" where
  "Fields s = (case dropWhile is_space s of
     [] \<Rightarrow> []
   | c # cs \<Rightarrow> (c # takeWhile (\<lambda>x. \<not> is_space x) cs) # Fields (dropWhile (\<lambda>x. \<not> is_space x) cs))"
  by pat_completeness auto
termination
proof (relation "measure length", simp)
  fix s c cs assume "dropWhile is_space s = c # cs"
  then have "length (c # cs) \<le> length s" by (metis length_dropWhile_le)
  then show "(dropWhile (\<lambda>x. \<not> is_space x) cs, s) \<in> measure length"
    using length_dropWhile_le [of "\<lambda>x. \<not> is_space x" cs] by simp
qed

declare Fields.simps [simp del]

definition NodeStartCommand :: "project \<Rightarrow> string \<times> string list" where
  "NodeStartCommand p =
     (let pm = DetectNodePackageManager p;
          parts0 = Fields (GetStartCommand p);
          parts = (if parts0 = [] then [''node'', ''index.js''] else parts0)
      in if pm = ''bun'' then (''bun'', parts)
         else if pm = ''npm'' \<or> pm = ''pnpm'' \<or> pm = ''yarn'' then (pm, [''exec'', ''--''] @ parts)
         else (''npm'', [''exec'', ''--''] @ parts))"

definition ensureManifestPackageManager :: "(string \<Rightarrow> bool) \<Rightarrow> (string \<Rightarrow> bool) option \<Rightarrow> string \<Rightarrow> CodedError option" where
  "ensureManifestPackageManager on_path corepack command = (case Fields command of
     [] \<Rightarrow> None
   | c # _ \<Rightarrow> if c = ''pnpm'' \<or> c = ''yarn'' \<or> c = ''bun'' \<or> c = ''npm''
             then ensureNodePackageManager on_path corepack c else None)"

definition quoted :: "string \<Rightarrow> string" where
  "quoted s = CHR 0x22 # s @ [CHR 0x22]"

text \<open>The wrapped reader and decoder errors are left out of the two messages that carry them.\<close>

definition ValidateNodeBuildScript :: "project \<Rightarrow> string option" where
  "ValidateNodeBuildScript p = (case pkg p of
     PkgAbsent \<Rightarrow> Some ''cannot read package.json''
   | PkgBad \<Rightarrow> Some ''invalid package.json''
   | Pkg j \<Rightarrow> if str_get (Scripts j) ''build'' = [] then Some (''no build script found in package.json: add a '' @ quoted ''build''
       @ '' entry to '' @ quoted ''scripts'' @ '' or set app_type to static'') else None)"

section \<open>Framework modes\<close>

record FrameworkMode =
  Framework :: string
  Mode :: string
  AppType :: string
  OutDir :: string
  Ambiguous :: bool
  Reason :: string
  PackageMgr :: string

definition no_mode :: FrameworkMode where
  "no_mode = \<lparr> Framework = [], Mode = [], AppType = [], OutDir = [], Ambiguous = False, Reason = [], PackageMgr = [] \<rparr>"

text \<open>\<^verbatim>\<open>key\s*:\s*['"]\<close> at the start of a text: what follows the quote.\<close>

definition is_quote :: "char \<Rightarrow> bool" where
  "is_quote c = (c = CHR 0x27 \<or> c = CHR 0x22)"

definition after_key :: "string \<Rightarrow> string \<Rightarrow> string option" where
  "after_key key s =
     (if HasPrefix s key then
        (case dropWhile is_space (drop (length key) s) of
           c # cs \<Rightarrow> if c = CHR '':'' then
               (case dropWhile is_space cs of q # rest \<Rightarrow> if is_quote q then Some rest else None | [] \<Rightarrow> None)
             else None
         | [] \<Rightarrow> None)
      else None)"

fun quoted_word :: "string list \<Rightarrow> string \<Rightarrow> string option" where
  "quoted_word [] s = None"
| "quoted_word (w # ws) s =
     (if HasPrefix s w \<and> (case drop (length w) s of q # _ \<Rightarrow> is_quote q | [] \<Rightarrow> False) then Some w else quoted_word ws s)"

definition quoted_text :: "string \<Rightarrow> string option" where
  "quoted_text s =
     (let v = takeWhile (\<lambda>c. \<not> is_quote c) s in
      if v \<noteq> [] \<and> drop (length v) s \<noteq> [] then Some v else None)"

text \<open>The leftmost match of \<open>reAstroOutput\<close> and of \<open>reSveltePages\<close>.\<close>

fun reAstroOutput :: "string \<Rightarrow> string option" where
  "reAstroOutput [] = None"
| "reAstroOutput (c # cs) =
     (case after_key ''output'' (c # cs) of
        Some rest \<Rightarrow> (case quoted_word [''static'', ''server'', ''hybrid''] rest of Some w \<Rightarrow> Some w | None \<Rightarrow> reAstroOutput cs)
      | None \<Rightarrow> reAstroOutput cs)"

fun reSveltePages :: "string \<Rightarrow> string option" where
  "reSveltePages [] = None"
| "reSveltePages (c # cs) =
     (case after_key ''pages'' (c # cs) of
        Some rest \<Rightarrow> (case quoted_text rest of Some w \<Rightarrow> Some w | None \<Rightarrow> reSveltePages cs)
      | None \<Rightarrow> reSveltePages cs)"

fun readFirstFile :: "project \<Rightarrow> string list \<Rightarrow> string" where
  "readFirstFile p [] = []"
| "readFirstFile p (n # ns) = (case map_of (files p) n of Some t \<Rightarrow> t | None \<Rightarrow> readFirstFile p ns)"

fun mergeDeps_into :: "(string, string) go_map \<Rightarrow> (string, string) go_map \<Rightarrow> (string, string) go_map" where
  "mergeDeps_into out [] = out"
| "mergeDeps_into out ((k, v) # m) = mergeDeps_into (map_put k v out) m"

definition mergeDeps :: "(string, string) go_map \<Rightarrow> (string, string) go_map \<Rightarrow> (string, string) go_map" where
  "mergeDeps a b = mergeDeps_into (mergeDeps_into [] a) b"

definition hasSvelteKit :: "(string, string) go_map \<Rightarrow> bool" where
  "hasSvelteKit deps = hasDep deps ''@sveltejs/kit''"

definition hasDepPrefix :: "(string, string) go_map \<Rightarrow> string \<Rightarrow> bool" where
  "hasDepPrefix deps pre = list_ex (\<lambda>k. HasPrefix k pre) (map fst deps)"

text \<open>The em dash of the messages, in UTF-8, between spaces.\<close>

definition dash :: string where
  "dash = '' '' @ [CHR 0xE2, CHR 0x80, CHR 0x94] @ '' ''"

definition detectAstroMode :: "project \<Rightarrow> (string, string) go_map \<Rightarrow> string \<Rightarrow> FrameworkMode" where
  "detectAstroMode p deps pm =
     (let cfg = readFirstFile p [''astro.config.mjs'', ''astro.config.js'', ''astro.config.ts'', ''astro.config.mts''];
          output = (case reAstroOutput cfg of Some w \<Rightarrow> w | None \<Rightarrow> ''static'');
          hasNodeAdapter = (hasDepPrefix deps ''@astrojs/node'' \<or> Contains cfg ''@astrojs/node'');
          fm = no_mode\<lparr> Framework := ''astro'', PackageMgr := pm, OutDir := ''dist'', Mode := output \<rparr>
      in if output = ''static'' then fm\<lparr> AppType := AppStatic, Reason := ''astro output static (or unset)'' \<rparr>
         else if output = ''server'' \<or> output = ''hybrid'' then
           (if \<not> hasNodeAdapter then fm\<lparr> Ambiguous := True, Mode := ''ambiguous'', Reason := ''astro '' @ output @ '' without @astrojs/node'' @ dash
             @ ''set app_type explicitly or add the node adapter'' \<rparr>
            else fm\<lparr> AppType := AppNode, Reason := ''astro output '' @ output @ '' with @astrojs/node'' \<rparr>)
         else fm\<lparr> Ambiguous := True, Mode := ''ambiguous'', Reason := ''unrecognized astro output'' \<rparr>)"

definition detectSvelteKitMode :: "project \<Rightarrow> (string, string) go_map \<Rightarrow> string \<Rightarrow> FrameworkMode" where
  "detectSvelteKitMode p deps pm =
     (let cfg = readFirstFile p [''svelte.config.js'', ''svelte.config.ts'', ''svelte.config.mjs''];
          hasStatic = (hasDep deps ''@sveltejs/adapter-static'' \<or> Contains cfg ''adapter-static'');
          hasNode = (hasDep deps ''@sveltejs/adapter-node'' \<or> Contains cfg ''adapter-node'');
          hasAuto = (hasDep deps ''@sveltejs/adapter-auto'' \<or> Contains cfg ''adapter-auto'');
          outDir = (case reSveltePages cfg of Some w \<Rightarrow> TrimPrefix w ''./'' | None \<Rightarrow> ''build'');
          fm = no_mode\<lparr> Framework := ''sveltekit'', PackageMgr := pm, OutDir := outDir \<rparr>;
          amb = (\<lambda>why. fm\<lparr> Ambiguous := True, Mode := ''ambiguous'', Reason := why \<rparr>)
      in if hasStatic \<and> \<not> hasNode then fm\<lparr> Mode := ''static'', AppType := AppStatic, Reason := ''sveltekit adapter-static'' \<rparr>
         else if hasNode \<and> \<not> hasStatic then fm\<lparr> Mode := ''server'', AppType := AppNode, Reason := ''sveltekit adapter-node'' \<rparr>
         else if hasStatic \<and> hasNode then amb (''both adapter-static and adapter-node present'' @ dash @ ''set app_type explicitly'')
         else if hasAuto then amb (''sveltekit adapter-auto only'' @ dash
           @ ''set app_type=static or app_type=node (or pin adapter-static/node)'')
         else if hasDep deps ''@sveltejs/kit'' then amb (''sveltekit without a resolved adapter'' @ dash @ ''set app_type explicitly'') else fm)"

definition DetectFrameworkMode :: "project \<Rightarrow> FrameworkMode" where
  "DetectFrameworkMode p = (case pkg p of
     Pkg j \<Rightarrow>
       (let deps = mergeDeps (Dependencies j) (DevDependencies j); pm = DetectNodePackageManager p in
        if hasDep deps ''astro'' then detectAstroMode p deps pm
        else if hasSvelteKit deps then detectSvelteKitMode p deps pm
        else no_mode\<lparr> PackageMgr := pm \<rparr>)
   | _ \<Rightarrow> no_mode)"

definition resolved_mode :: "FrameworkMode \<Rightarrow> bool" where
  "resolved_mode fm = (Framework fm \<noteq> [] \<and> \<not> Ambiguous fm \<and> AppType fm \<noteq> [])"

definition DetectAppType :: "project \<Rightarrow> string" where
  "DetectAppType p =
     (let fm = DetectFrameworkMode p in
      if resolved_mode fm then AppType fm
      else if fileExists p ''package.json'' then AppNode
      else if fileExists p ''go.mod'' then AppGo
      else if fileExists p ''Cargo.toml'' then AppRust
      else if fileExists p ''composer.json'' then AppPHP
      else if pyproject p then AppPython
      else if fileExists p ''app.py'' \<or> fileExists p ''main.py'' then AppPython
      else if fileExists p ''pom.xml'' \<or> fileExists p ''build.gradle'' \<or> fileExists p ''build.gradle.kts'' then AppJava
      else if fileExists p ''Gemfile'' then AppRuby
      else AppStatic)"

definition ResolveDeployAppType :: "project \<Rightarrow> string \<Rightarrow> (CodedError, string \<times> string) res" where
  "ResolveDeployAppType p explicit =
     (let fm = DetectFrameworkMode p in
      if Ambiguous fm \<and> explicit = []
      then Inl (codedErr ''framework_mode_ambiguous'' ''framework output mode is ambiguous''
        (Reason fm @ ''; pass app_type=static or app_type=node in the deploy action''))
      else
        (let detected0 = DetectAppType p;
             detected = (if resolved_mode fm then AppType fm else detected0)
         in if explicit \<noteq> [] then
              (if \<not> IsValid explicit then Inl (codedErr ''app_type_mismatch'' ''invalid app_type''
                 ''Use one of: static, node, go, python, php, rust, java, ruby, static-sidecar'')
               else if explicit = AppStaticSidecar then Inr (explicit, [])
               else if resolved_mode fm \<and> explicit \<noteq> AppType fm
               then Inl (codedErr ''app_type_mismatch'' ''explicit app_type does not match detected framework mode''
                 (''detected '' @ AppType fm @ '' for '' @ Framework fm @ ''/'' @ Mode fm @ ''; got app_type='' @ explicit
                  @ ''. Align CI app_type or adapters.''))
               else Inr (explicit, OutDir fm))
            else Inr (if detected = [] then AppStatic else detected, OutDir fm)))"

section \<open>Roots and serve directories\<close>

definition ResolveAppRoot :: "string \<Rightarrow> string \<Rightarrow> string" where
  "ResolveAppRoot buildDir rootPath0 =
     (let rootPath = TrimSpace rootPath0 in
      if rootPath = [] \<or> rootPath = ''.'' \<or> rootPath = ''./'' then buildDir
      else if IsAbs rootPath then buildDir
      else let c = Clean rootPath in
        if c = ''..'' \<or> HasPrefix c ''../'' then buildDir
        else let candidate = path_join buildDir c in
          (case Rel buildDir candidate of
             None \<Rightarrow> buildDir
           | Some rel \<Rightarrow> if rel = ''..'' \<or> HasPrefix rel ''../'' then buildDir else candidate))"

definition staticOutputMissing :: "string list \<Rightarrow> CodedError" where
  "staticOutputMissing tried = codedErr ''static_output_missing'' ''static site has no index.html under the serve directory''
     (''Tried: '' @ Join (if tried = [] then [''(none)''] else tried) '', ''
      @ ''. Run a framework build that emits index.html, set sites.root_path to the app package, or place public/index.html.'')"

fun first_with_index :: "(string \<Rightarrow> bool) \<Rightarrow> string list \<Rightarrow> string option" where
  "first_with_index ex [] = None"
| "first_with_index ex (c # cs) = (if ex (path_join c ''index.html'') then Some c else first_with_index ex cs)"

definition pure_candidates :: "string \<Rightarrow> string \<Rightarrow> string list" where
  "pure_candidates appRoot hint =
     foldl (\<lambda>cs c. if c = [] \<or> c \<in> set cs then cs else cs @ [c]) []
       ((if hint \<noteq> [] then [path_join appRoot hint] else []) @ [path_join appRoot ''public'', appRoot])"

definition ResolvePureStaticServeDir :: "(string \<Rightarrow> bool) \<Rightarrow> string \<Rightarrow> string \<Rightarrow> (CodedError, string) res" where
  "ResolvePureStaticServeDir ex appRoot hint =
     (case first_with_index ex (pure_candidates appRoot hint) of
        Some c \<Rightarrow> Inr c
      | None \<Rightarrow> Inl (staticOutputMissing (pure_candidates appRoot hint)))"

definition FindStaticServeDirAfterNodeBuild :: "(string \<Rightarrow> bool) \<Rightarrow> string \<Rightarrow> string \<Rightarrow> string option" where
  "FindStaticServeDirAfterNodeBuild ex appRoot hint =
     first_with_index ex (map (path_join appRoot)
       ((if hint \<noteq> [] then [hint] else []) @ filter (\<lambda>r. r \<noteq> hint) [''dist'', ''build'']))"

definition RequireStaticIndex :: "(string \<Rightarrow> bool) \<Rightarrow> string \<Rightarrow> string list \<Rightarrow> CodedError option" where
  "RequireStaticIndex ex serveDir tried =
     (if ex (path_join serveDir ''index.html'') then None
      else Some (staticOutputMissing (if serveDir \<noteq> [] \<and> serveDir \<notin> set tried then tried @ [serveDir] else tried)))"

section \<open>Application types are decided, and valid\<close>

lemma detectAstroMode_types: "AppType (detectAstroMode p deps pm) \<in> {[], AppStatic, AppNode}"
  by (simp add: detectAstroMode_def Let_def no_mode_def)

lemma detectSvelteKitMode_types: "AppType (detectSvelteKitMode p deps pm) \<in> {[], AppStatic, AppNode}"
  by (simp add: detectSvelteKitMode_def Let_def no_mode_def)

lemma DetectFrameworkMode_types: "AppType (DetectFrameworkMode p) \<in> {[], AppStatic, AppNode}"
  using detectAstroMode_types detectSvelteKitMode_types
  by (simp add: DetectFrameworkMode_def Let_def no_mode_def split: package_file.split)

lemma resolved_mode_valid: "resolved_mode (DetectFrameworkMode p) \<Longrightarrow>
    AppType (DetectFrameworkMode p) \<in> {AppStatic, AppNode}"
  using DetectFrameworkMode_types [of p] by (auto simp: resolved_mode_def)

lemma DetectAppType_valid: "IsValid (DetectAppType p)"
  using resolved_mode_valid [of p] by (auto simp: DetectAppType_def Let_def IsValid_def)

lemma IsValid_iff: "IsValid a \<longleftrightarrow> a \<in> set AllAppTypes"
  by (simp add: IsValid_def AllAppTypes_def)

text \<open>
  The application type of a deployment: an explicit type is honoured exactly when it is one of the
  known types and either the sidecar or not in conflict with a framework whose output mode was
  recognised; an explicit type is never replaced. Without one, an ambiguous framework mode is the coded
  error \<^verbatim>\<open>framework_mode_ambiguous\<close> and every other project gets a known type, that of its framework
  mode when that was recognised.
\<close>

lemma ResolveDeployAppType_decides:
  "(\<exists>t out. ResolveDeployAppType p explicit = Inr (t, out) \<and> t \<in> set AllAppTypes
      \<and> (if explicit = [] then \<not> Ambiguous (DetectFrameworkMode p)
           \<and> t = (if resolved_mode (DetectFrameworkMode p) then AppType (DetectFrameworkMode p) else DetectAppType p)
         else t = explicit \<and> (t = AppStaticSidecar \<or> \<not> resolved_mode (DetectFrameworkMode p)
           \<or> t = AppType (DetectFrameworkMode p))))
   \<or> (\<exists>e. ResolveDeployAppType p explicit = Inl e
      \<and> (if explicit = [] then Ambiguous (DetectFrameworkMode p) \<and> Code e = ''framework_mode_ambiguous''
         else Code e = ''app_type_mismatch'' \<and> (explicit \<notin> set AllAppTypes
           \<or> resolved_mode (DetectFrameworkMode p) \<and> explicit \<noteq> AppType (DetectFrameworkMode p))))"
proof (cases "explicit = []")
  case True
  have "DetectAppType p \<noteq> []" using DetectAppType_valid [of p] by (auto simp: IsValid_def)
  moreover have "resolved_mode (DetectFrameworkMode p) \<Longrightarrow> IsValid (AppType (DetectFrameworkMode p))"
    using resolved_mode_valid by (auto simp: IsValid_def)
  ultimately show ?thesis using True DetectAppType_valid [of p]
    by (auto simp: ResolveDeployAppType_def Let_def codedErr_def resolved_mode_def IsValid_iff [symmetric])
next
  case False
  then show ?thesis
    by (auto simp: ResolveDeployAppType_def Let_def codedErr_def IsValid_iff [symmetric])
qed

definition bare_project :: project where
  "bare_project = \<lparr> files = [], pkg = PkgAbsent, pyproject = False \<rparr>"

theorem ResolveDeployAppType_decides_witness:
  "\<exists>e. ResolveDeployAppType bare_project ''cobol'' = Inl e \<and> Code e = ''app_type_mismatch''"
  using ResolveDeployAppType_decides [where p = bare_project and explicit = "''cobol''"]
  by (simp add: AllAppTypes_def)

text \<open>A project never gets a package manager it did not ask for.\<close>

lemma DetectNodePackageManager_known: "DetectNodePackageManager p \<in> {''npm'', ''pnpm'', ''yarn'', ''bun''}"
  by (auto simp: DetectNodePackageManager_def packageManagerFromPackageJSON_def Let_def split: package_file.split)

lemma ensureNodePackageManager_None: "ensureNodePackageManager on_path corepack pm = None \<Longrightarrow>
    on_path pm \<or> (\<exists>f. corepack = Some f \<and> f pm)"
  by (auto simp: ensureNodePackageManager_def split: if_splits option.splits)

lemma Fields_words: "w \<in> set (Fields s) \<Longrightarrow> w \<noteq> [] \<and> (\<forall>c \<in> set w. \<not> is_space c)"
proof (induction s rule: Fields.induct)
  case (1 s)
  show ?case
  proof (cases "dropWhile is_space s")
    case Nil
    with "1.prems" show ?thesis by (simp add: Fields.simps)
  next
    case (Cons c cs)
    have "\<not> is_space c" using Cons hd_dropWhile [of is_space s] by simp
    moreover have "w = c # takeWhile (\<lambda>x. \<not> is_space x) cs \<or> w \<in> set (Fields (dropWhile (\<lambda>x. \<not> is_space x) cs))"
      using "1.prems" Cons by (subst (asm) Fields.simps) simp
    moreover have "\<forall>x \<in> set (takeWhile (\<lambda>x. \<not> is_space x) cs). \<not> is_space x"
      using set_takeWhileD by fastforce
    ultimately show ?thesis using "1.IH" [OF Cons] by (metis list.distinct(1) set_ConsD)
  qed
qed

section \<open>Roots stay inside the checkout\<close>

text \<open>Cleaning a relative path leaves leading \<open>..\<close> components followed by plain ones.\<close>

definition rel_shape :: "string list \<Rightarrow> bool" where
  "rel_shape cs = (\<exists>n ps. cs = replicate n ''..'' @ ps \<and> (\<forall>c \<in> set ps. plain c))"

lemma rel_shape_dotdot: "rel_shape (rev st) \<Longrightarrow> st = [] \<or> hd st = ''..'' \<Longrightarrow> rel_shape (rev (''..'' # st))"
proof -
  assume s: "rel_shape (rev st)" and h: "st = [] \<or> hd st = ''..''"
  from s obtain n ps where e: "rev st = replicate n ''..'' @ ps" and p: "\<forall>c \<in> set ps. plain c"
    unfolding rel_shape_def by blast
  have "ps = []"
  proof (rule ccontr)
    assume "ps \<noteq> []"
    then have "last (rev st) = last ps" "last ps \<in> set ps" "st \<noteq> []" using e by auto
    with h p show False by (auto simp: last_rev plain_def)
  qed
  then have "rev (''..'' # st) = replicate (Suc n) ''..'' @ []" using e by (simp add: replicate_append_same)
  then show ?thesis unfolding rel_shape_def by (metis empty_iff list.set(1))
qed

lemma rel_shape_pop: "rel_shape (rev (t # ts)) \<Longrightarrow> t \<noteq> ''..'' \<Longrightarrow> rel_shape (rev ts)"
proof -
  assume s: "rel_shape (rev (t # ts))" and t: "t \<noteq> ''..''"
  from s obtain n ps where e: "rev ts @ [t] = replicate n ''..'' @ ps" and p: "\<forall>c \<in> set ps. plain c"
    unfolding rel_shape_def by auto
  have "ps \<noteq> []" using e t by (metis append_Nil2 in_set_conv_decomp in_set_replicate)
  then have "rev ts = replicate n ''..'' @ butlast ps" using e by (metis butlast_append butlast_snoc)
  then show ?thesis using p unfolding rel_shape_def by (meson in_set_butlastD)
qed

lemma rel_shape_push: "rel_shape (rev st) \<Longrightarrow> plain c \<Longrightarrow> rel_shape (rev (c # st))"
proof -
  assume s: "rel_shape (rev st)" and c: "plain c"
  from s obtain n ps where e: "rev st = replicate n ''..'' @ ps" and p: "\<forall>c \<in> set ps. plain c"
    unfolding rel_shape_def by blast
  have "rev (c # st) = replicate n ''..'' @ (ps @ [c])" "\<forall>x \<in> set (ps @ [c]). plain x" using e p c by simp_all
  then show ?thesis unfolding rel_shape_def by blast
qed

lemma clean_comps_rel_shape: "\<forall>c \<in> set cs. sep \<notin> set c \<Longrightarrow> rel_shape (rev st) \<Longrightarrow> rel_shape (clean_comps False st cs)"
proof (induction cs arbitrary: st)
  case (Cons c cs)
  have ih: "rel_shape (rev st') \<Longrightarrow> rel_shape (clean_comps False st' cs)" for st'
    using Cons.IH [of st'] Cons.prems(1) by simp
  consider "c = [] \<or> c = ''.''" | "c = ''..''" | "plain c"
    using Cons.prems(1) by (auto simp: plain_def)
  then show ?case
  proof cases
    case 1
    with ih Cons.prems(2) show ?thesis by (simp only: clean_comps.simps if_True)
  next
    case 2
    have d: "st = [] \<or> hd st = ''..'' \<Longrightarrow> rel_shape (clean_comps False (''..'' # st) cs)"
      using ih rel_shape_dotdot Cons.prems(2) by blast
    have p: "st = t # ts \<Longrightarrow> t \<noteq> ''..'' \<Longrightarrow> rel_shape (clean_comps False ts cs)" for t ts
      using ih rel_shape_pop Cons.prems(2) by blast
    show ?thesis
    proof (cases st)
      case Nil
      with 2 d show ?thesis by simp
    next
      case (Cons t ts)
      with 2 d p show ?thesis by (cases "t = ''..''") simp_all
    qed
  next
    case 3
    then have "clean_comps False st (c # cs) = clean_comps False (c # st) cs" by (simp add: plain_def)
    with ih rel_shape_push [OF Cons.prems(2) 3] show ?thesis by simp
  qed
qed simp

lemma comps_rel_shape: "\<not> IsAbs p \<Longrightarrow> rel_shape (comps p)"
proof -
  assume "\<not> IsAbs p"
  moreover have "rel_shape (rev [])" unfolding rel_shape_def by (intro exI [of _ 0] exI [of _ "[]"]) simp
  ultimately show ?thesis unfolding comps_def using clean_comps_rel_shape Split_fields by metis
qed

text \<open>A relative path leaves its base exactly when its first clean component is \<open>..\<close>.\<close>

definition escapes :: "string \<Rightarrow> bool" where
  "escapes r = (IsAbs r \<or> ''..'' \<in> set (comps r))"

lemma Clean_escape:
  assumes r: "\<not> IsAbs r"
  shows "(Clean r = ''..'' \<or> HasPrefix (Clean r) ''../'') \<longleftrightarrow> ''..'' \<in> set (comps r)"
proof -
  from comps_rel_shape [OF r] obtain n ps where e: "comps r = replicate n ''..'' @ ps" and p: "\<forall>c \<in> set ps. plain c"
    unfolding rel_shape_def by blast
  show ?thesis
  proof (cases n)
    case 0
    then have c: "comps r = ps" using e by simp
    have nd: "''..'' \<notin> set ps" using p by (auto simp: plain_def)
    have sp: "Split (Clean r) sep = (if ps = [] then [''.''] else ps)"
      using c r p Split_Join_plain [of ps] by (simp add: Clean_def plain_def)
    have "''..'' \<in> set (Split (Clean r) sep)" if "Clean r = ''..'' \<or> HasPrefix (Clean r) ''../''"
    proof -
      from that consider "Clean r = ''..''" | z where "Clean r = ''..'' @ sep # z" by (auto simp: prefix_def)
      then show ?thesis by cases (simp_all add: Split_append)
    qed
    with sp nd c show ?thesis by (auto split: if_splits)
  next
    case (Suc k)
    then have c: "comps r = ''..'' # (replicate k ''..'' @ ps)" using e by simp
    then have "Clean r = ''..'' \<or> HasPrefix (Clean r) ''../''"
      using r by (cases "replicate k ''..'' @ ps") (simp_all add: Clean_def)
    with c show ?thesis by simp
  qed
qed

lemma Split_Clean_inside:
  assumes r: "\<not> escapes r"
  shows "''..'' \<notin> set (Split (Clean r) sep)
    \<and> filter (\<lambda>c. c \<noteq> [] \<and> c \<noteq> ''.'') (Split (Clean r) sep) = comps r"
proof -
  have na: "\<not> IsAbs r" and nd: "''..'' \<notin> set (comps r)" using r by (simp_all add: escapes_def)
  from comps_rel_shape [OF na] nd have p: "\<forall>c \<in> set (comps r). plain c"
    unfolding rel_shape_def by (auto simp: in_set_replicate)
  have "Split (Clean r) sep = (if comps r = [] then [''.''] else comps r)"
    using na p Split_Join_plain [of "comps r"] by (simp add: Clean_def plain_def)
  moreover have "filter (\<lambda>c. c \<noteq> [] \<and> c \<noteq> ''.'') (comps r) = comps r"
    using p by (auto simp: plain_def filter_id_conv)
  ultimately show ?thesis using nd by simp
qed

text \<open>A path built from a base is not reported outside it by \<open>Rel\<close>.\<close>

lemma Join_plain_not_dotdot:
  assumes p: "\<forall>c \<in> set cs. plain c" and ne: "cs \<noteq> []"
  shows "Join cs ''/'' \<noteq> ''..'' \<and> \<not> HasPrefix (Join cs ''/'') ''../''"
proof -
  have s: "Split (Join cs ''/'') sep = cs" using p ne by (simp add: Split_Join_plain plain_def)
  have "''..'' \<notin> set cs" using p by (auto simp: plain_def)
  moreover have "''..'' \<in> set (Split (Join cs ''/'') sep)" if "Join cs ''/'' = ''..'' \<or> HasPrefix (Join cs ''/'') ''../''"
  proof -
    from that consider "Join cs ''/'' = ''..''" | z where "Join cs ''/'' = ''..'' @ sep # z" by (auto simp: prefix_def)
    then show ?thesis by cases (simp_all add: Split_append)
  qed
  ultimately show ?thesis using s by auto
qed

lemma ResolveAppRoot_inside:
  assumes b: "IsAbs b" and r: "\<not> escapes (TrimSpace r)" and n: "comps (TrimSpace r) \<noteq> []"
  shows "ResolveAppRoot b r = path_join b (Clean (TrimSpace r))
    \<and> comps (ResolveAppRoot b r) = comps b @ comps (TrimSpace r)"
proof -
  let ?r = "TrimSpace r" and ?t = "path_join b (Clean (TrimSpace r))"
  note sp = Split_Clean_inside [OF r]
  from comps_path_join [OF b, of "Clean ?r"] sp have t: "IsAbs ?t" "comps ?t = comps b @ comps ?r" by auto
  have na: "\<not> IsAbs ?r" and nd: "''..'' \<notin> set (comps ?r)" using r by (simp_all add: escapes_def)
  have rel: "Rel b ?t = Some (Join (comps ?r) ''/'')"
    using b t n by (simp add: Rel_def strip_common_prefix)
  from comps_rel_shape [OF na] nd have p: "\<forall>c \<in> set (comps ?r). plain c"
    unfolding rel_shape_def by (auto simp: in_set_replicate)
  have x: "?r \<noteq> []" "?r \<noteq> ''.''" "?r \<noteq> ''./''"
    using n by (auto simp: comps_def IsAbs_def)
  have "ResolveAppRoot b r = ?t"
    using x na Clean_escape [OF na] nd rel Join_plain_not_dotdot [OF p n]
    by (simp add: ResolveAppRoot_def Let_def)
  with t show ?thesis by simp
qed

text \<open>
  The application root of a site stays in its checkout: for an absolute build directory the result
  is absolute and its components are those of the build directory followed by the clean components of
  the trimmed \<^verbatim>\<open>root_path\<close>; a root path that is absolute or climbs with \<open>..\<close> gives the build directory.
\<close>

lemma ResolveAppRoot_confined:
  assumes "IsAbs buildDir"
  shows "IsAbs (ResolveAppRoot buildDir rootPath)
    \<and> comps (ResolveAppRoot buildDir rootPath) =
        comps buildDir @ (if escapes (TrimSpace rootPath) then [] else comps (TrimSpace rootPath))"
proof (cases "escapes (TrimSpace rootPath) \<or> comps (TrimSpace rootPath) = []")
  case True
  let ?r = "TrimSpace rootPath"
  have *: "ResolveAppRoot buildDir rootPath = buildDir \<or> \<not> IsAbs ?r \<and> comps ?r = []
      \<and> ResolveAppRoot buildDir rootPath \<in> {buildDir, path_join buildDir (Clean ?r)}"
  proof (cases "IsAbs ?r")
    case True
    then show ?thesis by (simp add: ResolveAppRoot_def Let_def)
  next
    case False
    with True Clean_escape [OF False] show ?thesis
      by (cases "comps ?r = []") (simp_all add: escapes_def ResolveAppRoot_def Let_def split: option.split)
  qed
  have "IsAbs (path_join buildDir ''.'') \<and> comps (path_join buildDir ''.'') = comps buildDir"
    using comps_path_join [OF assms, of "''.''"] by simp
  then have "IsAbs (ResolveAppRoot buildDir rootPath) \<and> comps (ResolveAppRoot buildDir rootPath) = comps buildDir"
    using * assms by (auto simp: Clean_def)
  with True show ?thesis by auto
next
  case False
  with ResolveAppRoot_inside [OF assms, of rootPath] comps_path_join [OF assms, of "Clean (TrimSpace rootPath)"]
    Split_Clean_inside [of "TrimSpace rootPath"] show ?thesis by auto
qed

theorem ResolveAppRoot_confined_witness:
  "IsAbs (ResolveAppRoot ''/b/1'' '' ./apps/../web '') \<and> comps (ResolveAppRoot ''/b/1'' '' ./apps/../web '') = [''b'', ''1'', ''web'']
   \<and> comps (ResolveAppRoot ''/b/1'' ''../2'') = [''b'', ''1'']"
proof -
  have e: "IsAbs ''/b/1''" "comps ''/b/1'' = [''b'', ''1'']"
    "\<not> escapes (TrimSpace '' ./apps/../web '')" "comps (TrimSpace '' ./apps/../web '') = [''web'']"
    "escapes (TrimSpace ''../2'')"
    by (simp_all add: IsAbs_def escapes_def comps_def TrimSpace_def TrimLeftFn_def TrimRightFn_def is_space_def)
  show ?thesis
    using ResolveAppRoot_confined [OF e(1), of "'' ./apps/../web ''"] ResolveAppRoot_confined [OF e(1), of "''../2''"] e(2-5)
    by simp
qed

section \<open>Served directories\<close>

lemma first_with_index_Some: "first_with_index ex cs = Some d \<Longrightarrow>
    ex (path_join d ''index.html'') \<and> d \<in> set cs"
  by (induction cs) (auto split: if_splits)

lemma first_with_index_None: "first_with_index ex cs = None \<longleftrightarrow> (\<forall>c \<in> set cs. \<not> ex (path_join c ''index.html''))"
  by (induction cs) auto

text \<open>A served directory has an \<^verbatim>\<open>index.html\<close>: a source checkout is never listed.\<close>

lemma static_serve_has_index:
  "ResolvePureStaticServeDir ex a h = Inr d \<Longrightarrow> ex (path_join d ''index.html'')"
  "FindStaticServeDirAfterNodeBuild ex a h = Some d \<Longrightarrow> ex (path_join d ''index.html'')"
  "RequireStaticIndex ex d tried = None \<Longrightarrow> ex (path_join d ''index.html'')"
  by (auto simp: ResolvePureStaticServeDir_def FindStaticServeDirAfterNodeBuild_def RequireStaticIndex_def
      dest: first_with_index_Some split: option.splits if_splits)

text \<open>The output directory is taken from a configuration file of the project and joined without a
  check, so a checkout may serve a directory next to it.\<close>

lemma outDir_escapes:
  "reSveltePages (''pages: '' @ quoted ''../2'') = Some ''../2''"
  "ResolvePureStaticServeDir (\<lambda>f. f = ''/b/2/index.html'') ''/b/1'' ''../2'' = Inr ''/b/2''"
  by (simp_all add: ResolvePureStaticServeDir_def pure_candidates_def path_join_def Clean_def comps_def IsAbs_def
      after_key_def quoted_def quoted_text_def is_quote_def is_space_def)

end
