(* ===== verification/Deploy_Manifest.thy ===== *)
theory Deploy_Manifest
  imports Deploy_Project
begin

text \<open>
  Deployment manifests and health probes (\<^verbatim>\<open>manifest.go\<close>, \<^verbatim>\<open>health.go\<close> of \<^verbatim>\<open>components/deploy\<close>).

  A Go map is a reference, and \<open>MergeManifests\<close> copies a manifest struct and then writes into its
  \<open>Env\<close>: the field is an address of a heap of maps here, \<open>None\<close> being \<open>nil\<close>. The TOML and YAML parsers
  and the YAML printer are arguments, and so are the files and the answers of the probed server.
\<close>

section \<open>Manifests\<close>

record ManifestHealthCheck =
  Path :: string
  ExpectedStatus :: int
  ExpectedBodyContains :: string
  TimeoutSeconds :: int
  IntervalSeconds :: int
  MaxRetries :: int

definition WithDefaults :: "ManifestHealthCheck \<Rightarrow> ManifestHealthCheck" where
  "WithDefaults hc =
     (let h1 = (if Path hc = [] then hc\<lparr> Path := ''/'' \<rparr> else hc);
          h2 = (if ExpectedStatus h1 = 0 then h1\<lparr> ExpectedStatus := 200 \<rparr> else h1);
          h3 = (if TimeoutSeconds h2 = 0 then h2\<lparr> TimeoutSeconds := 30 \<rparr> else h2);
          h4 = (if IntervalSeconds h3 = 0 then h3\<lparr> IntervalSeconds := 2 \<rparr> else h3)
      in if MaxRetries h4 = 0 then h4\<lparr> MaxRetries := 5 \<rparr> else h4)"

record ManifestBuild =
  BuildCommand :: string
  Output :: string

record ManifestStart =
  StartCommand :: string
  Port :: int
  ASGIImport :: string

type_synonym env_map = "(string, string) go_map"
type_synonym env_heap = "env_map list"

record Manifest =
  Version :: int
  ManifestFramework :: string
  Build :: ManifestBuild
  Start :: ManifestStart
  Env :: "nat option"
  HealthCheck :: ManifestHealthCheck
  CSP :: string

record SiteDefaults =
  SiteAppType :: string
  SiteBuildCommand :: string
  SiteStartCommand :: string
  PassthroughPaths :: "string list"
  HealthPath :: string
  SiteEnv :: env_map
  CSPPolicy :: string

definition zero_check :: ManifestHealthCheck where
  "zero_check = \<lparr> Path = [], ExpectedStatus = 0, ExpectedBodyContains = [], TimeoutSeconds = 0, IntervalSeconds = 0, MaxRetries = 0 \<rparr>"

definition zero_manifest :: Manifest where
  "zero_manifest = \<lparr> Version = 0, ManifestFramework = [], Build = \<lparr> BuildCommand = [], Output = [] \<rparr>,
     Start = \<lparr> StartCommand = [], Port = 0, ASGIImport = [] \<rparr>, Env = None, HealthCheck = zero_check, CSP = [] \<rparr>"

definition validFrameworks :: "string list" where
  "validFrameworks = [''sveltekit'', ''astro'', ''next'', ''vue'', ''react'', ''static'', ''static-sidecar'', ''go'',
     ''python'', ''node'', ''php'', ''rust'', ''java'', ''ruby'']"

definition manifestToAppType :: "Manifest \<Rightarrow> string" where
  "manifestToAppType m = (let f = ManifestFramework m in
     if f = ''node'' \<or> f = ''sveltekit'' \<or> f = ''astro'' \<or> f = ''next'' \<or> f = ''vue'' \<or> f = ''react'' then AppNode
     else if f = ''go'' then AppGo
     else if f = ''python'' then AppPython
     else if f = ''php'' then AppPHP
     else if f = ''rust'' then AppRust
     else if f = ''java'' then AppJava
     else if f = ''ruby'' then AppRuby
     else if f = ''static'' then AppStatic
     else if f = ''static-sidecar'' then AppStaticSidecar
     else AppStatic)"

datatype manifest_error =
    PathTraversal string | PathEscapes string | ReadFailed string string | ParseFailed string string
  | VersionRequired | FrameworkRequired | InvalidFramework string | BuildCommandRequired
  | StartCommandRequired | BadPort int | Exists | NoPackageJSON

definition validate :: "Manifest \<Rightarrow> manifest_error option" where
  "validate m =
     (if Version m \<le> 0 then Some VersionRequired
      else if ManifestFramework m = [] then Some FrameworkRequired
      else if ManifestFramework m \<notin> set validFrameworks then Some (InvalidFramework (ManifestFramework m))
      else if BuildCommand (Build m) = [] then Some BuildCommandRequired
      else if StartCommand (Start m) = [] \<and> (ManifestFramework m \<noteq> ''python'' \<or> ASGIImport (Start m) = [])
      then Some StartCommandRequired
      else if Port (Start m) < 1 \<or> Port (Start m) > 65535 then Some (BadPort (Port (Start m)))
      else None)"

section \<open>Loading\<close>

datatype file_read = NotExist | Unreadable string | Data string

definition file_there :: "file_read \<Rightarrow> bool" where
  "file_there r = (r \<noteq> NotExist)"

text \<open>The project directory is given by its absolute path, as \<^verbatim>\<open>filepath.Abs\<close> returns it.\<close>

type_synonym manifest_parser = "string \<Rightarrow> (string, Manifest) res"

definition LoadManifestPath ::
    "manifest_parser \<Rightarrow> manifest_parser \<Rightarrow> (string \<Rightarrow> file_read) \<Rightarrow> string \<Rightarrow> string \<Rightarrow> (manifest_error, Manifest option) res" where
  "LoadManifestPath toml yaml fs absDir path0 =
     (let path = (if path0 = [] then (if file_there (fs (path_join absDir ''bigbase.toml'')) then ''bigbase.toml'' else ''bigbase.yaml'')
                  else path0);
          clean = Clean path in
      if Contains clean ''..'' \<or> IsAbs clean then Inl (PathTraversal path)
      else let absPath = path_join absDir clean in
        case Rel absDir absPath of
          None \<Rightarrow> Inl (PathEscapes path)
        | Some rel \<Rightarrow>
            if HasPrefix rel ''..'' \<or> rel = ''..'' then Inl (PathEscapes path)
            else if \<not> HasPrefix absPath (absDir @ ''/'') \<and> absPath \<noteq> absDir then Inl (PathEscapes path)
            else (case fs absPath of
                NotExist \<Rightarrow> Inr None
              | Unreadable e \<Rightarrow> Inl (ReadFailed path e)
              | Data d \<Rightarrow> (case (if HasSuffix path ''.toml'' then toml d else yaml d) of
                    Inl e \<Rightarrow> Inl (ParseFailed path e)
                  | Inr m \<Rightarrow> (case validate m of Some e \<Rightarrow> Inl e | None \<Rightarrow> Inr (Some m)))))"

definition LoadManifest ::
    "manifest_parser \<Rightarrow> manifest_parser \<Rightarrow> (string \<Rightarrow> file_read) \<Rightarrow> string \<Rightarrow> (manifest_error, Manifest option) res" where
  "LoadManifest toml yaml fs absDir = LoadManifestPath toml yaml fs absDir []"

text \<open>The YAML parser decodes into the struct the TOML parser has filled.\<close>

definition ValidateManifest ::
    "(string \<Rightarrow> Manifest \<Rightarrow> bool \<times> Manifest) \<Rightarrow> (string \<Rightarrow> Manifest \<Rightarrow> (string, Manifest) res) \<Rightarrow> string \<Rightarrow> manifest_error option" where
  "ValidateManifest toml yaml data =
     (let (ok, m) = toml data zero_manifest in
      if ok \<and> Version m > 0 then validate m
      else (case yaml data m of Inl e \<Rightarrow> Some (ParseFailed [] e) | Inr m' \<Rightarrow> validate m'))"

section \<open>Merging\<close>

definition env_at :: "env_heap \<Rightarrow> nat option \<Rightarrow> env_map" where
  "env_at h a = (case a of None \<Rightarrow> [] | Some i \<Rightarrow> if i < length h then h ! i else [])"

text \<open>\<^verbatim>\<open>if base.Env == nil { base.Env = make(...) }\<close>\<close>

definition ensure_env :: "env_heap \<Rightarrow> nat option \<Rightarrow> env_heap \<times> nat" where
  "ensure_env h a = (case a of None \<Rightarrow> (h @ [[]], length h) | Some i \<Rightarrow> (h, i))"

definition put_missing :: "string \<times> string \<Rightarrow> env_map \<Rightarrow> env_map" where
  "put_missing kv e = (if map_of e (fst kv) = None then map_put (fst kv) (snd kv) e else e)"

definition put_pair :: "string \<times> string \<Rightarrow> env_map \<Rightarrow> env_map" where
  "put_pair kv e = map_put (fst kv) (snd kv) e"

definition write_env :: "(string \<times> string \<Rightarrow> env_map \<Rightarrow> env_map) \<Rightarrow> env_map \<Rightarrow> env_heap \<Rightarrow> Manifest \<Rightarrow> env_heap \<times> Manifest" where
  "write_env f src h base =
     (if src = [] then (h, base)
      else let (h1, i) = ensure_env h (Env base) in
        (h1[i := fold f src (env_at h1 (Some i))], base\<lparr> Env := Some i \<rparr>))"

definition or_else :: "string \<Rightarrow> string \<Rightarrow> string" where
  "or_else s d = (if d \<noteq> [] \<and> s = [] then d else s)"

definition override :: "string \<Rightarrow> string \<Rightarrow> string" where
  "override s d = (if d \<noteq> [] then d else s)"

definition override_int :: "int \<Rightarrow> int \<Rightarrow> int" where
  "override_int s d = (if d > 0 then d else s)"

definition merge_site :: "SiteDefaults \<Rightarrow> env_heap \<Rightarrow> Manifest \<Rightarrow> env_heap \<times> Manifest" where
  "merge_site sd h base =
     (let b1 = base\<lparr> ManifestFramework := or_else (ManifestFramework base) (SiteAppType sd) \<rparr>;
          b2 = b1\<lparr> Build := (Build b1)\<lparr> BuildCommand := or_else (BuildCommand (Build b1)) (SiteBuildCommand sd) \<rparr> \<rparr>;
          b3 = b2\<lparr> Start := (Start b2)\<lparr> StartCommand := or_else (StartCommand (Start b2)) (SiteStartCommand sd) \<rparr> \<rparr>;
          b4 = b3\<lparr> HealthCheck := (HealthCheck b3)\<lparr> Path := or_else (Path (HealthCheck b3)) (HealthPath sd) \<rparr> \<rparr>;
          (h', b5) = write_env put_missing (SiteEnv sd) h b4
      in (h', b5\<lparr> CSP := or_else (CSP b5) (CSPPolicy sd) \<rparr>))"

definition merge_request :: "Manifest \<Rightarrow> env_heap \<Rightarrow> Manifest \<Rightarrow> env_heap \<times> Manifest" where
  "merge_request ro h base =
     (let b1 = base\<lparr> ManifestFramework := override (ManifestFramework base) (ManifestFramework ro) \<rparr>;
          b2 = b1\<lparr> Build := \<lparr> BuildCommand = override (BuildCommand (Build b1)) (BuildCommand (Build ro)),
                              Output = override (Output (Build b1)) (Output (Build ro)) \<rparr> \<rparr>;
          b3 = b2\<lparr> Start := \<lparr> StartCommand = override (StartCommand (Start b2)) (StartCommand (Start ro)),
                              Port = override_int (Port (Start b2)) (Port (Start ro)),
                              ASGIImport = override (ASGIImport (Start b2)) (ASGIImport (Start ro)) \<rparr> \<rparr>;
          hc = HealthCheck b3;
          b4 = b3\<lparr> HealthCheck := hc\<lparr> Path := override (Path hc) (Path (HealthCheck ro)),
                   ExpectedStatus := override_int (ExpectedStatus hc) (ExpectedStatus (HealthCheck ro)),
                   TimeoutSeconds := override_int (TimeoutSeconds hc) (TimeoutSeconds (HealthCheck ro)) \<rparr> \<rparr>
      in write_env put_pair (env_at h (Env ro)) h b4)"

definition MergeManifests :: "env_heap \<Rightarrow> Manifest option \<Rightarrow> SiteDefaults option \<Rightarrow> Manifest option \<Rightarrow> env_heap \<times> Manifest" where
  "MergeManifests h manifest siteDefaults requestOverrides =
     (let base = (case manifest of None \<Rightarrow> zero_manifest | Some m \<Rightarrow> m);
          (h1, b1) = (case siteDefaults of None \<Rightarrow> (h, base) | Some sd \<Rightarrow> merge_site sd h base)
      in case requestOverrides of None \<Rightarrow> (h1, b1) | Some ro \<Rightarrow> merge_request ro h1 b1)"

section \<open>Initialising\<close>

definition init_package :: "project \<Rightarrow> package_json \<Rightarrow> Manifest" where
  "init_package p j =
     (let m = zero_manifest\<lparr> Version := 1 \<rparr>;
          isSvelteKit = (str_get (Dependencies j) ''@sveltejs/kit'' \<noteq> [] \<or> str_get (DevDependencies j) ''@sveltejs/kit'' \<noteq> [])
      in if isSvelteKit then
           m\<lparr> ManifestFramework := ''sveltekit'', Build := \<lparr> BuildCommand = NodePMRunCommand p ''build'', Output = ''build/'' \<rparr>,
              Start := \<lparr> StartCommand = ''node build/index.js'', Port = 3000, ASGIImport = [] \<rparr> \<rparr>
         else
           m\<lparr> ManifestFramework := ''node'',
              Build := \<lparr> BuildCommand = (if str_get (Scripts j) ''build'' \<noteq> [] then str_get (Scripts j) ''build'' else ''echo build''), Output = [] \<rparr>,
              Start := \<lparr> StartCommand = (if str_get (Scripts j) ''start'' \<noteq> [] then NodePMStartCommand p else ''node index.js''),
                         Port = 3000, ASGIImport = [] \<rparr> \<rparr>)"

definition init_other :: "project \<Rightarrow> Manifest" where
  "init_other p =
     (let m = zero_manifest\<lparr> Version := 1 \<rparr> in
      if fileExists p ''go.mod'' then
        m\<lparr> ManifestFramework := ''go'', Build := \<lparr> BuildCommand = ''go build -o app .'', Output = [] \<rparr>,
           Start := \<lparr> StartCommand = ''./app'', Port = 8080, ASGIImport = [] \<rparr> \<rparr>
      else if fileExists p ''main.py'' \<or> fileExists p ''app.py'' then
        m\<lparr> ManifestFramework := ''python'',
           Build := \<lparr> BuildCommand = (if fileExists p ''requirements.txt'' then ''pip install -r requirements.txt''
             else ''echo '' @ [CHR 0x27] @ ''no requirements.txt'' @ [CHR 0x27]), Output = [] \<rparr>,
           Start := \<lparr> StartCommand = (if fileExists p ''main.py'' then ''python main.py'' else ''python app.py''),
                      Port = 8000, ASGIImport = [] \<rparr> \<rparr>
      else
        m\<lparr> ManifestFramework := ''static'', Build := \<lparr> BuildCommand = ''echo static'', Output = [] \<rparr>,
           Start := \<lparr> StartCommand = ''echo static'', Port = 3000, ASGIImport = [] \<rparr> \<rparr>)"

text \<open>The manifest that \<open>InitManifest\<close> writes; \<open>there\<close> says whether \<^verbatim>\<open>bigbase.yaml\<close> exists already.\<close>

definition InitManifest :: "bool \<Rightarrow> project \<Rightarrow> (manifest_error, Manifest) res" where
  "InitManifest there p =
     (if there then Inl Exists
      else (case pkg p of
          Pkg j \<Rightarrow> Inr (init_package p j)
        | PkgBad \<Rightarrow> Inl NoPackageJSON
        | PkgAbsent \<Rightarrow> Inr (init_other p)))"

section \<open>Health probes\<close>

datatype probe_reply = RequestFails string | DoFails string | Response int string

datatype failure_reason =
    NoReason | CreationFailed string | RequestFailed string | WrongStatus int int | BodyMissing string

record ProbeAttempt =
  Status :: int
  DurationMS :: nat
  ProbeErr :: string

record HealthResult =
  OK :: bool
  Attempts :: nat
  AvgResponseTimeMS :: nat
  FirstFailureReason :: failure_reason
  Probes :: "ProbeAttempt list"

definition statusOK :: "ManifestHealthCheck \<Rightarrow> int \<Rightarrow> bool" where
  "statusOK cfg st = (st = ExpectedStatus cfg)"

definition bodyOK :: "ManifestHealthCheck \<Rightarrow> string \<Rightarrow> bool" where
  "bodyOK cfg body = (ExpectedBodyContains cfg = [] \<or> Contains body (ExpectedBodyContains cfg))"

definition with_average :: "HealthResult \<Rightarrow> HealthResult" where
  "with_average r = (if Probes r = [] then r
     else r\<lparr> AvgResponseTimeMS := sum_list (map DurationMS (Probes r)) div length (Probes r) \<rparr>)"

definition add_probe :: "ProbeAttempt \<Rightarrow> HealthResult \<Rightarrow> HealthResult" where
  "add_probe a r = r\<lparr> Probes := Probes r @ [a], Attempts := Attempts r + 1 \<rparr>"

definition first_reason :: "failure_reason \<Rightarrow> HealthResult \<Rightarrow> HealthResult" where
  "first_reason why r = (if FirstFailureReason r = NoReason then r\<lparr> FirstFailureReason := why \<rparr> else r)"

text \<open>One turn of the loop on the reply of its attempt: the result, and whether it is returned.\<close>

definition probe_once :: "ManifestHealthCheck \<Rightarrow> probe_reply \<times> nat \<Rightarrow> HealthResult \<Rightarrow> HealthResult \<times> bool" where
  "probe_once cfg rd r = (case rd of (reply, d) \<Rightarrow> (case reply of
      RequestFails e \<Rightarrow> (first_reason (CreationFailed e) (add_probe \<lparr> Status = 0, DurationMS = d, ProbeErr = e \<rparr> r), False)
    | DoFails e \<Rightarrow> (first_reason (RequestFailed e) (add_probe \<lparr> Status = 0, DurationMS = d, ProbeErr = e \<rparr> r), False)
    | Response st body \<Rightarrow>
        (let r1 = add_probe \<lparr> Status = st, DurationMS = d, ProbeErr = [] \<rparr> r in
         if statusOK cfg st \<and> bodyOK cfg body then (with_average (r1\<lparr> OK := True \<rparr>), True)
         else (first_reason (if \<not> statusOK cfg st then WrongStatus (ExpectedStatus cfg) st
                 else BodyMissing (ExpectedBodyContains cfg)) r1, False))))"

text \<open>\<open>left\<close> attempts remain; the sleeps between attempts are collected in seconds.\<close>

fun probe_loop :: "ManifestHealthCheck \<Rightarrow> (nat \<Rightarrow> probe_reply \<times> nat) \<Rightarrow> nat \<Rightarrow> nat \<Rightarrow> HealthResult \<Rightarrow> HealthResult \<times> int list" where
  "probe_loop cfg w attempt 0 r = (with_average r, [])"
| "probe_loop cfg w attempt (Suc left) r =
     (case probe_once cfg (w attempt) r of
        (r', True) \<Rightarrow> (r', [])
      | (r', False) \<Rightarrow> (case probe_loop cfg w (attempt + 1) left r' of
            (r'', sl) \<Rightarrow> (r'', (if left > 0 then [IntervalSeconds cfg] else []) @ sl)))"

definition empty_result :: HealthResult where
  "empty_result = \<lparr> OK = False, Attempts = 0, AvgResponseTimeMS = 0, FirstFailureReason = NoReason, Probes = [] \<rparr>"

definition probeHealth :: "(nat \<Rightarrow> probe_reply \<times> nat) \<Rightarrow> ManifestHealthCheck \<Rightarrow> HealthResult \<times> int list" where
  "probeHealth w cfg = probe_loop cfg w 0 (nat (MaxRetries cfg)) empty_result"

section \<open>Probing ends with the first healthy answer\<close>

definition healthy :: "ManifestHealthCheck \<Rightarrow> probe_reply \<times> nat \<Rightarrow> bool" where
  "healthy cfg rd = (case fst rd of Response st body \<Rightarrow> statusOK cfg st \<and> bodyOK cfg body | _ \<Rightarrow> False)"

definition attempt_of :: "probe_reply \<times> nat \<Rightarrow> ProbeAttempt" where
  "attempt_of rd = (case fst rd of
      RequestFails e \<Rightarrow> \<lparr> Status = 0, DurationMS = snd rd, ProbeErr = e \<rparr>
    | DoFails e \<Rightarrow> \<lparr> Status = 0, DurationMS = snd rd, ProbeErr = e \<rparr>
    | Response st body \<Rightarrow> \<lparr> Status = st, DurationMS = snd rd, ProbeErr = [] \<rparr>)"

definition failure_of :: "ManifestHealthCheck \<Rightarrow> probe_reply \<times> nat \<Rightarrow> failure_reason" where
  "failure_of cfg rd = (case fst rd of
      RequestFails e \<Rightarrow> CreationFailed e
    | DoFails e \<Rightarrow> RequestFailed e
    | Response st body \<Rightarrow> (if \<not> statusOK cfg st then WrongStatus (ExpectedStatus cfg) st
        else BodyMissing (ExpectedBodyContains cfg)))"

lemma failure_of_reason [simp]: "failure_of cfg rd \<noteq> NoReason"
  by (simp add: failure_of_def split: probe_reply.split)

lemma probe_once_eq: "probe_once cfg rd r =
    (if healthy cfg rd then (with_average ((add_probe (attempt_of rd) r)\<lparr> OK := True \<rparr>), True)
     else (first_reason (failure_of cfg rd) (add_probe (attempt_of rd) r), False))"
  by (cases rd) (simp add: probe_once_def healthy_def attempt_of_def failure_of_def Let_def split: probe_reply.split)

text \<open>How many attempts a loop makes over the answers from \<open>a\<close> on.\<close>

fun tries :: "ManifestHealthCheck \<Rightarrow> (nat \<Rightarrow> probe_reply \<times> nat) \<Rightarrow> nat \<Rightarrow> nat \<Rightarrow> nat" where
  "tries cfg w a 0 = 0"
| "tries cfg w a (Suc n) = (if healthy cfg (w a) then 1 else Suc (tries cfg w (Suc a) n))"

lemma tries_none: "(\<And>i. i < n \<Longrightarrow> \<not> healthy cfg (w (a + i))) \<Longrightarrow> tries cfg w a n = n"
proof (induction n arbitrary: a)
  case (Suc n)
  have "\<not> healthy cfg (w (Suc a + i))" if "i < n" for i using Suc.prems [of "Suc i"] that by simp
  with Suc.IH Suc.prems [of 0] show ?case by simp
qed simp

lemma tries_first: "i < n \<Longrightarrow> healthy cfg (w (a + i)) \<Longrightarrow> (\<And>j. j < i \<Longrightarrow> \<not> healthy cfg (w (a + j))) \<Longrightarrow>
    tries cfg w a n = Suc i"
proof (induction n arbitrary: a i)
  case (Suc n)
  show ?case
  proof (cases i)
    case 0
    with Suc.prems show ?thesis by simp
  next
    case (Suc k)
    have "\<not> healthy cfg (w (Suc a + j))" if "j < k" for j using Suc.prems(3) [of "Suc j"] that Suc by simp
    with Suc.IH [of k "Suc a"] Suc.prems(1,2) Suc.prems(3) [of 0] Suc show ?thesis by simp
  qed
qed simp

lemma with_average_fields [simp]:
  "OK (with_average r) = OK r" "Attempts (with_average r) = Attempts r"
  "FirstFailureReason (with_average r) = FirstFailureReason r" "Probes (with_average r) = Probes r"
  by (simp_all add: with_average_def)

lemma with_average_avg: "Probes r \<noteq> [] \<or> AvgResponseTimeMS r = 0 \<Longrightarrow>
    AvgResponseTimeMS (with_average r) = sum_list (map DurationMS (Probes r)) div length (Probes r)"
  by (auto simp: with_average_def)

lemma first_reason_fields [simp]:
  "OK (first_reason w r) = OK r" "Attempts (first_reason w r) = Attempts r" "Probes (first_reason w r) = Probes r"
  "AvgResponseTimeMS (first_reason w r) = AvgResponseTimeMS r"
  "FirstFailureReason (first_reason w r) = (if FirstFailureReason r = NoReason then w else FirstFailureReason r)"
  by (simp_all add: first_reason_def)

lemma add_probe_fields [simp]:
  "OK (add_probe a r) = OK r" "Attempts (add_probe a r) = Suc (Attempts r)" "Probes (add_probe a r) = Probes r @ [a]"
  "AvgResponseTimeMS (add_probe a r) = AvgResponseTimeMS r" "FirstFailureReason (add_probe a r) = FirstFailureReason r"
  by (simp_all add: add_probe_def)

lemma upt_tries_Suc: "map f [a..<Suc (a + k)] = f a # map f [Suc a..<Suc (a + k)]"
  by (simp add: upt_conv_Cons del: upt_Suc)

lemma probe_loop_counts:
  assumes "probe_loop cfg w a n r = (r', sl)"
  shows "Attempts r' = Attempts r + tries cfg w a n
    \<and> Probes r' = Probes r @ map (attempt_of \<circ> w) [a..<a + tries cfg w a n]"
  using assms
proof (induction n arbitrary: a r r' sl)
  case (Suc n)
  show ?case
  proof (cases "healthy cfg (w a)")
    case True
    with Suc.prems show ?thesis by (auto simp: probe_once_eq)
  next
    case False
    obtain r1 sl1 where l: "probe_loop cfg w (Suc a) n (first_reason (failure_of cfg (w a)) (add_probe (attempt_of (w a)) r)) = (r1, sl1)"
      by force
    with Suc.prems False have "r' = r1" by (simp add: probe_once_eq)
    with Suc.IH [OF l] False show ?thesis by (simp add: upt_tries_Suc del: upt_Suc)
  qed
qed auto

lemma probe_loop_outcome:
  assumes "probe_loop cfg w a n r = (r', sl)" "\<not> OK r"
  shows "OK r' = (\<exists>i<n. healthy cfg (w (a + i)))
    \<and> sl = replicate (tries cfg w a n - 1) (IntervalSeconds cfg)
    \<and> FirstFailureReason r' = (if FirstFailureReason r \<noteq> NoReason \<or> n = 0 \<or> healthy cfg (w a) then FirstFailureReason r
        else failure_of cfg (w a))"
  using assms
proof (induction n arbitrary: a r r' sl)
  case (Suc n)
  show ?case
  proof (cases "healthy cfg (w a)")
    case True
    have "\<exists>i<Suc n. healthy cfg (w (a + i))" using True by (intro exI [of _ 0]) simp
    with True Suc.prems show ?thesis by (auto simp: probe_once_eq)
  next
    case False
    let ?r = "first_reason (failure_of cfg (w a)) (add_probe (attempt_of (w a)) r)"
    obtain r1 sl1 where l: "probe_loop cfg w (Suc a) n ?r = (r1, sl1)" by force
    with Suc.prems False have e: "r' = r1" "sl = (if n > 0 then [IntervalSeconds cfg] else []) @ sl1"
      by (simp_all add: probe_once_eq)
    have ih: "OK r1 = (\<exists>i<n. healthy cfg (w (Suc a + i)))" "sl1 = replicate (tries cfg w (Suc a) n - 1) (IntervalSeconds cfg)"
      "FirstFailureReason r1 = FirstFailureReason ?r"
      using Suc.IH [OF l] Suc.prems(2) by simp_all
    have "(\<exists>i<Suc n. healthy cfg (w (a + i))) = (\<exists>i<n. healthy cfg (w (Suc a + i)))"
      using False by (auto simp: less_Suc_eq_0_disj)
    moreover have "sl = replicate (tries cfg w (Suc a) n) (IntervalSeconds cfg)"
    proof (cases n)
      case (Suc m)
      then have "tries cfg w (Suc a) n > 0" by simp
      with e(2) ih(2) Suc show ?thesis by (cases "tries cfg w (Suc a) n") simp_all
    qed (use e(2) ih(2) in simp)
    ultimately show ?thesis using e(1) ih(1,3) False by simp
  qed
qed simp

lemma probe_loop_average:
  assumes "probe_loop cfg w a n r = (r', sl)" "AvgResponseTimeMS r = 0"
  shows "AvgResponseTimeMS r' = sum_list (map DurationMS (Probes r')) div length (Probes r')"
  using assms
proof (induction n arbitrary: a r r' sl)
  case (Suc n)
  show ?case
  proof (cases "healthy cfg (w a)")
    case True
    with Suc.prems have "r' = with_average ((add_probe (attempt_of (w a)) r)\<lparr> OK := True \<rparr>)" by (simp add: probe_once_eq)
    then show ?thesis using with_average_avg [of "(add_probe (attempt_of (w a)) r)\<lparr> OK := True \<rparr>"] by simp
  next
    case False
    let ?r = "first_reason (failure_of cfg (w a)) (add_probe (attempt_of (w a)) r)"
    obtain r1 sl1 where l: "probe_loop cfg w (Suc a) n ?r = (r1, sl1)" by force
    with Suc.prems False have "r' = r1" by (simp add: probe_once_eq)
    with Suc.IH [OF l] Suc.prems(2) show ?thesis by simp
  qed
qed (auto simp: with_average_avg)

text \<open>
  A health check of \<open>n\<close> permitted attempts is healthy exactly when one of the first \<open>n\<close> answers has
  the expected status and body. It stops at the first such answer, otherwise after \<open>n\<close> attempts; it
  sleeps the interval between attempts and never after the last; it keeps every attempt in order, the
  reason of the first failure, and the average duration of the attempts it made.
\<close>

lemma probeHealth_outcome:
  assumes n: "n = nat (MaxRetries cfg)" and r: "probeHealth w cfg = (r, sleeps)"
  shows "OK r = (\<exists>i<n. healthy cfg (w i))
    \<and> (\<forall>i<n. healthy cfg (w i) \<and> (\<forall>j<i. \<not> healthy cfg (w j)) \<longrightarrow> Attempts r = Suc i)
    \<and> (\<not> OK r \<longrightarrow> Attempts r = n)
    \<and> sleeps = replicate (Attempts r - 1) (IntervalSeconds cfg)
    \<and> Probes r = map (attempt_of \<circ> w) [0..<Attempts r]
    \<and> FirstFailureReason r = (if n = 0 \<or> healthy cfg (w 0) then NoReason else failure_of cfg (w 0))
    \<and> AvgResponseTimeMS r = sum_list (map DurationMS (Probes r)) div Attempts r"
proof -
  note l = r [unfolded probeHealth_def n [symmetric]]
  from probe_loop_counts [OF l] have c: "Attempts r = tries cfg w 0 n" "Probes r = map (attempt_of \<circ> w) [0..<tries cfg w 0 n]"
    by (simp_all add: empty_result_def)
  from probe_loop_outcome [OF l] have o1: "OK r = (\<exists>i<n. healthy cfg (w i))"
    "sleeps = replicate (tries cfg w 0 n - 1) (IntervalSeconds cfg)"
    "FirstFailureReason r = (if n = 0 \<or> healthy cfg (w 0) then NoReason else failure_of cfg (w 0))"
    by (simp_all add: empty_result_def)
  have "Attempts r = Suc i" if "i < n" "healthy cfg (w i)" "\<forall>j<i. \<not> healthy cfg (w j)" for i
    using tries_first [of i n cfg w 0] that c(1) by simp
  moreover have "Attempts r = n" if "\<not> OK r"
    using tries_none [of n cfg w 0] that o1(1) c(1) by simp
  moreover have "AvgResponseTimeMS r = sum_list (map DurationMS (Probes r)) div Attempts r"
    using probe_loop_average [OF l] c by (simp add: empty_result_def)
  ultimately show ?thesis using c o1 by simp
qed

theorem probeHealth_outcome_witness:
  "OK (fst (probeHealth (\<lambda>i. (if i = 0 then DoFails ''refused'' else Response 200 ''ok'', 10 + 10 * i)) (WithDefaults zero_check)))
   \<and> FirstFailureReason (fst (probeHealth (\<lambda>i. (if i = 0 then DoFails ''refused'' else Response 200 ''ok'', 10 + 10 * i)) (WithDefaults zero_check)))
       = RequestFailed ''refused''"
proof -
  let ?w = "\<lambda>i::nat. (if i = 0 then DoFails ''refused'' else Response 200 ''ok'', 10 + 10 * i)"
  let ?c = "WithDefaults zero_check"
  have h: "healthy ?c (?w 1)" "\<not> healthy ?c (?w 0)" "failure_of ?c (?w 0) = RequestFailed ''refused''" "nat (MaxRetries ?c) = 5"
    by (simp_all add: healthy_def failure_of_def statusOK_def bodyOK_def WithDefaults_def zero_check_def)
  obtain r sl where e: "probeHealth ?w ?c = (r, sl)" by force
  have "\<exists>i<5. healthy ?c (?w i)" using h(1) by (intro exI [of _ 1]) simp
  with probeHealth_outcome [OF h(4) [symmetric] e] h(2,3) show ?thesis unfolding e by simp
qed

text \<open>Defaults fill zero fields only; a negative retry count makes a check that never probes and fails
  without a reason.\<close>

lemma WithDefaults_fields:
  "Path (WithDefaults hc) = (if Path hc = [] then ''/'' else Path hc)"
  "ExpectedStatus (WithDefaults hc) = (if ExpectedStatus hc = 0 then 200 else ExpectedStatus hc)"
  "TimeoutSeconds (WithDefaults hc) = (if TimeoutSeconds hc = 0 then 30 else TimeoutSeconds hc)"
  "IntervalSeconds (WithDefaults hc) = (if IntervalSeconds hc = 0 then 2 else IntervalSeconds hc)"
  "MaxRetries (WithDefaults hc) = (if MaxRetries hc = 0 then 5 else MaxRetries hc)"
  "ExpectedBodyContains (WithDefaults hc) = ExpectedBodyContains hc"
  by (simp_all add: WithDefaults_def Let_def)

lemma WithDefaults_idem: "WithDefaults (WithDefaults hc) = WithDefaults hc"
  by (rule ManifestHealthCheck.equality) (simp_all add: WithDefaults_fields)

lemma negative_retries_never_probe:
  "MaxRetries (WithDefaults hc) < 0 \<Longrightarrow> probeHealth w (WithDefaults hc) = (empty_result, [])"
  by (simp add: probeHealth_def with_average_def empty_result_def)

section \<open>Three layers of configuration\<close>

definition env_ok :: "env_heap \<Rightarrow> nat option \<Rightarrow> bool" where
  "env_ok h a = (case a of None \<Rightarrow> True | Some i \<Rightarrow> i < length h)"

lemma map_of_put_missing: "map_of (put_missing kv e) k = (case map_of e k of Some v \<Rightarrow> Some v | None \<Rightarrow> map_of [kv] k)"
  by (cases kv) (auto simp: put_missing_def split: option.split)

lemma map_of_fold_missing:
  "map_of (fold put_missing src e) k = (case map_of e k of Some v \<Rightarrow> Some v | None \<Rightarrow> map_of src k)"
  by (induction src arbitrary: e) (auto simp: map_of_put_missing split: option.split)

lemma map_of_fold_put: "wf_map src \<Longrightarrow>
    map_of (fold put_pair src e) k = (case map_of src k of Some v \<Rightarrow> Some v | None \<Rightarrow> map_of e k)"
proof (induction src arbitrary: e)
  case (Cons kv src)
  then have "wf_map src" "fst kv \<notin> set (map fst src)" by (simp_all add: wf_map_def)
  moreover have "map_of src (fst kv) = None" using calculation(2) by (simp add: map_of_eq_None_iff)
  ultimately show ?case using Cons.IH [of "put_pair kv e"] by (cases kv) (auto simp: put_pair_def split: option.split)
qed simp

text \<open>Writing through the shared map: the address survives, other maps do not change.\<close>

lemma write_env_facts:
  assumes "write_env f src h b = (h', b')" "env_ok h (Env b)"
  shows "env_ok h' (Env b')" "length h \<le> length h'"
    "env_at h' (Env b') = fold f src (env_at h (Env b))"
    "Env b = Some i \<Longrightarrow> Env b' = Some i"
    "env_ok h c \<Longrightarrow> c \<noteq> Env b \<or> c = None \<Longrightarrow> env_at h' c = env_at h c"
    "b'\<lparr> Env := Env b \<rparr> = b"
  using assms
  by (auto simp: write_env_def ensure_env_def env_at_def env_ok_def Let_def nth_append split: if_splits option.splits prod.splits)

lemma write_env_frame:
  assumes "write_env f src h b = (h', b')"
  shows "ManifestFramework b' = ManifestFramework b" "Build b' = Build b" "Start b' = Start b"
    "HealthCheck b' = HealthCheck b" "CSP b' = CSP b" "Version b' = Version b"
  using assms by (auto simp: write_env_def Let_def split: if_splits prod.splits)

lemma merge_site_facts:
  assumes "merge_site sd h b = (h', b')" "env_ok h (Env b)"
  shows "env_ok h' (Env b')" "length h \<le> length h'"
    "env_at h' (Env b') = fold put_missing (SiteEnv sd) (env_at h (Env b))"
    "Env b = Some i \<Longrightarrow> Env b' = Some i"
    "env_ok h c \<Longrightarrow> c \<noteq> Env b \<or> c = None \<Longrightarrow> env_at h' c = env_at h c"
    "ManifestFramework b' = or_else (ManifestFramework b) (SiteAppType sd)"
    "BuildCommand (Build b') = or_else (BuildCommand (Build b)) (SiteBuildCommand sd)"
    "StartCommand (Start b') = or_else (StartCommand (Start b)) (SiteStartCommand sd)"
    "Port (Start b') = Port (Start b)"
    "Path (HealthCheck b') = or_else (Path (HealthCheck b)) (HealthPath sd)"
    "CSP b' = or_else (CSP b) (CSPPolicy sd)"
proof -
  let ?b = "b\<lparr> ManifestFramework := or_else (ManifestFramework b) (SiteAppType sd),
     Build := (Build b)\<lparr> BuildCommand := or_else (BuildCommand (Build b)) (SiteBuildCommand sd) \<rparr>,
     Start := (Start b)\<lparr> StartCommand := or_else (StartCommand (Start b)) (SiteStartCommand sd) \<rparr>,
     HealthCheck := (HealthCheck b)\<lparr> Path := or_else (Path (HealthCheck b)) (HealthPath sd) \<rparr> \<rparr>"
  obtain b5 where w: "write_env put_missing (SiteEnv sd) h ?b = (h', b5)" and b': "b' = b5\<lparr> CSP := or_else (CSP b5) (CSPPolicy sd) \<rparr>"
    using assms(1) by (auto simp: merge_site_def Let_def split: prod.splits)
  have ok: "env_ok h (Env ?b)" using assms(2) by simp
  note facts = write_env_facts(1-5) [OF w ok] write_env_frame [OF w]
  show "env_ok h' (Env b')" "length h \<le> length h'" "env_at h' (Env b') = fold put_missing (SiteEnv sd) (env_at h (Env b))"
    using facts(1-3) by (simp_all add: b')
  show "Env b = Some i \<Longrightarrow> Env b' = Some i" using facts(4) by (simp add: b')
  show "env_ok h c \<Longrightarrow> c \<noteq> Env b \<or> c = None \<Longrightarrow> env_at h' c = env_at h c" using facts(5) by simp
  show "ManifestFramework b' = or_else (ManifestFramework b) (SiteAppType sd)"
    "BuildCommand (Build b') = or_else (BuildCommand (Build b)) (SiteBuildCommand sd)"
    "StartCommand (Start b') = or_else (StartCommand (Start b)) (SiteStartCommand sd)" "Port (Start b') = Port (Start b)"
    "Path (HealthCheck b') = or_else (Path (HealthCheck b)) (HealthPath sd)" "CSP b' = or_else (CSP b) (CSPPolicy sd)"
    using facts(6-10) by (simp_all add: b')
qed

lemma merge_request_facts:
  assumes "merge_request ro h b = (h', b')" "env_ok h (Env b)"
  shows "env_at h' (Env b') = fold put_pair (env_at h (Env ro)) (env_at h (Env b))"
    "Env b = Some i \<Longrightarrow> Env b' = Some i"
    "ManifestFramework b' = override (ManifestFramework b) (ManifestFramework ro)"
    "BuildCommand (Build b') = override (BuildCommand (Build b)) (BuildCommand (Build ro))"
    "StartCommand (Start b') = override (StartCommand (Start b)) (StartCommand (Start ro))"
    "Port (Start b') = override_int (Port (Start b)) (Port (Start ro))"
    "Path (HealthCheck b') = override (Path (HealthCheck b)) (Path (HealthCheck ro))"
    "MaxRetries (HealthCheck b') = MaxRetries (HealthCheck b)" "CSP b' = CSP b"
proof -
  obtain b4 where w: "write_env put_pair (env_at h (Env ro)) h b4 = (h', b')" and ok: "env_ok h (Env b4)" and e: "Env b4 = Env b"
    "ManifestFramework b4 = override (ManifestFramework b) (ManifestFramework ro)"
    "BuildCommand (Build b4) = override (BuildCommand (Build b)) (BuildCommand (Build ro))"
    "StartCommand (Start b4) = override (StartCommand (Start b)) (StartCommand (Start ro))"
    "Port (Start b4) = override_int (Port (Start b)) (Port (Start ro))"
    "Path (HealthCheck b4) = override (Path (HealthCheck b)) (Path (HealthCheck ro))"
    "MaxRetries (HealthCheck b4) = MaxRetries (HealthCheck b)" "CSP b4 = CSP b"
    using assms by (simp add: merge_request_def Let_def)
  note facts = write_env_facts(3,4) [OF w ok] write_env_frame [OF w]
  show "Env b = Some i \<Longrightarrow> Env b' = Some i" using facts(2) e(1) by simp
  show "env_at h' (Env b') = fold put_pair (env_at h (Env ro)) (env_at h (Env b))"
    "ManifestFramework b' = override (ManifestFramework b) (ManifestFramework ro)"
    "BuildCommand (Build b') = override (BuildCommand (Build b)) (BuildCommand (Build ro))"
    "StartCommand (Start b') = override (StartCommand (Start b)) (StartCommand (Start ro))"
    "Port (Start b') = override_int (Port (Start b)) (Port (Start ro))"
    "Path (HealthCheck b') = override (Path (HealthCheck b)) (Path (HealthCheck ro))"
    "MaxRetries (HealthCheck b') = MaxRetries (HealthCheck b)" "CSP b' = CSP b"
    using facts(1,3-7) e by simp_all
qed

text \<open>
  The merged manifest takes each setting and each environment key from the request when it gives
  one, else from the manifest, else from the site's defaults. Retries and the content security policy of
  a request are ignored. The result shares its environment map with the manifest it was made from, so
  the manifest passed in is changed as well.
\<close>

lemma MergeManifests_layers:
  assumes m: "MergeManifests h (Some m) (Some sd) (Some ro) = (h', r)"
    and ok: "env_ok h (Env m)" "env_ok h (Env ro)" "wf_map (env_at h (Env ro))" "Env ro \<noteq> Env m \<or> Env ro = None"
  shows "map_of (env_at h' (Env r)) k = (case map_of (env_at h (Env ro)) k of Some v \<Rightarrow> Some v
        | None \<Rightarrow> (case map_of (env_at h (Env m)) k of Some v \<Rightarrow> Some v | None \<Rightarrow> map_of (SiteEnv sd) k))
    \<and> ManifestFramework r = override (or_else (ManifestFramework m) (SiteAppType sd)) (ManifestFramework ro)
    \<and> BuildCommand (Build r) = override (or_else (BuildCommand (Build m)) (SiteBuildCommand sd)) (BuildCommand (Build ro))
    \<and> StartCommand (Start r) = override (or_else (StartCommand (Start m)) (SiteStartCommand sd)) (StartCommand (Start ro))
    \<and> Port (Start r) = override_int (Port (Start m)) (Port (Start ro))
    \<and> Path (HealthCheck r) = override (or_else (Path (HealthCheck m)) (HealthPath sd)) (Path (HealthCheck ro))
    \<and> CSP r = or_else (CSP m) (CSPPolicy sd)
    \<and> (Env m \<noteq> None \<longrightarrow> Env r = Env m)"
proof -
  obtain h1 b1 where s: "merge_site sd h m = (h1, b1)" and q: "merge_request ro h1 b1 = (h', r)"
    using m by (auto simp: MergeManifests_def Let_def split: prod.splits)
  note sf = merge_site_facts [OF s ok(1)]
  note qf = merge_request_facts [OF q sf(1)]
  have ro: "env_at h1 (Env ro) = env_at h (Env ro)" using sf(5) [OF ok(2)] ok(4) by blast
  have "map_of (env_at h' (Env r)) k = (case map_of (env_at h (Env ro)) k of Some v \<Rightarrow> Some v
        | None \<Rightarrow> (case map_of (env_at h (Env m)) k of Some v \<Rightarrow> Some v | None \<Rightarrow> map_of (SiteEnv sd) k))"
    by (simp add: qf(1) sf(3) ro map_of_fold_put [OF ok(3)] map_of_fold_missing split: option.split)
  moreover have "Env r = Env m" if "Env m \<noteq> None" using that sf(4) qf(2) by auto
  ultimately show ?thesis by (simp add: qf(3-9) sf(6-11))
qed

definition sample_manifest :: Manifest where
  "sample_manifest = zero_manifest\<lparr> Version := 1, ManifestFramework := ''go'', Env := Some 0 \<rparr>"

definition sample_defaults :: SiteDefaults where
  "sample_defaults = \<lparr> SiteAppType = ''node'', SiteBuildCommand = ''make'', SiteStartCommand = [], PassthroughPaths = [],
     HealthPath = [], SiteEnv = [(''A'', ''site''), (''B'', ''site'')], CSPPolicy = [] \<rparr>"

definition sample_overrides :: Manifest where
  "sample_overrides = zero_manifest\<lparr> Env := Some 1 \<rparr>"

theorem MergeManifests_layers_witness:
  "let (h', r) = MergeManifests [[(''A'', ''manifest'')], [(''C'', ''request'')]] (Some sample_manifest) (Some sample_defaults) (Some sample_overrides)
   in map_of (env_at h' (Env r)) ''A'' = Some ''manifest'' \<and> ManifestFramework r = ''go'' \<and> Env r = Env sample_manifest
      \<and> h' ! 0 = [(''A'', ''manifest''), (''B'', ''site''), (''C'', ''request'')]"
proof -
  let ?h = "[[(''A'', ''manifest'')], [(''C'', ''request'')]]"
  obtain h' r where e: "MergeManifests ?h (Some sample_manifest) (Some sample_defaults) (Some sample_overrides) = (h', r)" by force
  have h': "h' ! 0 = [(''A'', ''manifest''), (''B'', ''site''), (''C'', ''request'')]"
    using e by (auto simp: MergeManifests_def merge_site_def merge_request_def write_env_def ensure_env_def env_at_def
        put_missing_def put_pair_def sample_manifest_def sample_defaults_def sample_overrides_def zero_manifest_def)
  have ok: "env_ok ?h (Env sample_manifest)" "env_ok ?h (Env sample_overrides)" "wf_map (env_at ?h (Env sample_overrides))"
    "Env sample_overrides \<noteq> Env sample_manifest \<or> Env sample_overrides = None"
    by (simp_all add: env_ok_def env_at_def wf_map_def sample_manifest_def sample_overrides_def)
  have v: "map_of (env_at ?h (Env sample_overrides)) ''A'' = None" "map_of (env_at ?h (Env sample_manifest)) ''A'' = Some ''manifest''"
    "ManifestFramework sample_manifest = ''go''" "ManifestFramework sample_overrides = []" "Env sample_manifest \<noteq> None"
    by (simp_all add: env_at_def sample_manifest_def sample_overrides_def zero_manifest_def)
  note l = MergeManifests_layers [OF e ok, of "''A''"]
  have "map_of (env_at h' (Env r)) ''A'' = Some ''manifest''" using conjunct1 [OF l] v(1,2) by simp
  moreover have "ManifestFramework r = ''go'' \<and> Env r = Env sample_manifest"
    using l v(3-5) by (simp add: override_def or_else_def)
  ultimately show ?thesis using h' by (simp only: e prod.case Let_def simp_thms)
qed

section \<open>A written manifest loads\<close>

lemma init_package_valid: "validate (init_package p j) = None"
  by (simp add: validate_def init_package_def Let_def zero_manifest_def validFrameworks_def NodePMRunCommand_def NodePMStartCommand_def)

lemma init_other_valid: "validate (init_other p) = None"
  by (simp add: validate_def init_other_def Let_def zero_manifest_def validFrameworks_def)

lemma InitManifest_valid: "InitManifest there p = Inr m \<Longrightarrow> validate m = None"
  using init_package_valid init_other_valid by (auto simp: InitManifest_def split: if_splits package_file.splits)

lemma Join_snoc: "cs \<noteq> [] \<Longrightarrow> Join (cs @ [c]) s = Join cs s @ s @ c"
proof (induction cs)
  case (Cons a cs)
  then show ?case by (cases cs) (simp_all add: Join_Cons)
qed simp

text \<open>A plain name below a clean directory other than the root.\<close>

lemma path_join_plain:
  assumes d: "IsAbs d" "Clean d = d" "comps d \<noteq> []" and c: "plain c"
  shows "path_join d c = d @ ''/'' @ c" "Rel d (path_join d c) = Some c"
proof -
  have n: "Split c sep = [c]" "c \<noteq> []" "c \<noteq> ''.''" "c \<noteq> ''..''" using c by (auto simp: plain_def Split_simple)
  from comps_path_join [OF d(1), of c] n have j: "IsAbs (path_join d c)" "comps (path_join d c) = comps d @ [c]" by simp_all
  have "path_join d c = ''/'' @ Join (comps d @ [c]) ''/''" using path_join_clean [OF d(1)] Clean_abs [OF j(1)] j(2) by metis
  moreover have "d = ''/'' @ Join (comps d) ''/''" using d(1,2) Clean_abs by metis
  ultimately show "path_join d c = d @ ''/'' @ c" using Join_snoc [OF d(3)] by simp
  show "Rel d (path_join d c) = Some c" using d(1) j by (simp add: Rel_def strip_common_prefix)
qed

text \<open>
  Initialising then loading: whatever kind of project a directory holds, the manifest written for
  it is accepted. With a YAML library that reads back what it printed and no TOML manifest in the way,
  \<open>LoadManifest\<close> on the directory returns exactly the manifest that \<open>InitManifest\<close> wrote.
\<close>

lemma LoadManifest_InitManifest:
  assumes i: "InitManifest False p = Inr m"
    and y: "yaml (print m) = Inr m"
    and d: "IsAbs dir" "Clean dir = dir" "comps dir \<noteq> []"
    and fs: "fs (path_join dir ''bigbase.toml'') = NotExist" "fs (path_join dir ''bigbase.yaml'') = Data (print m)"
  shows "LoadManifest toml yaml fs dir = Inr (Some m)"
proof -
  have c: "plain ''bigbase.yaml''" "Clean ''bigbase.yaml'' = ''bigbase.yaml''" "\<not> IsAbs ''bigbase.yaml''"
    "\<not> Contains ''bigbase.yaml'' ''..''" "\<not> HasPrefix ''bigbase.yaml'' ''..''" "\<not> HasSuffix ''bigbase.yaml'' ''.toml''"
    by (simp_all add: plain_def Clean_def comps_def IsAbs_def suffix_def)
  note j = path_join_plain [OF d c(1)]
  show ?thesis
    using fs y c j(2) InitManifest_valid [OF i]
    by (simp add: LoadManifest_def LoadManifestPath_def file_there_def Let_def) (simp add: j(1))
qed

definition go_project :: project where
  "go_project = \<lparr> files = [(''go.mod'', ''module x'')], pkg = PkgAbsent, pyproject = False \<rparr>"

definition go_manifest :: Manifest where
  "go_manifest = zero_manifest\<lparr> Version := 1, ManifestFramework := ''go'', Build := \<lparr> BuildCommand = ''go build -o app .'', Output = [] \<rparr>,
     Start := \<lparr> StartCommand = ''./app'', Port = 8080, ASGIImport = [] \<rparr> \<rparr>"

theorem LoadManifest_InitManifest_witness:
  "InitManifest False go_project = Inr go_manifest
   \<and> LoadManifest (\<lambda>_. Inl ''toml'') (\<lambda>s. if s = ''go'' then Inr go_manifest else Inl ''yaml'')
       (\<lambda>f. if f = ''/b/bigbase.yaml'' then Data ''go'' else NotExist) ''/b'' = Inr (Some go_manifest)"
proof -
  have i: "InitManifest False go_project = Inr go_manifest"
    by (simp add: InitManifest_def init_other_def go_project_def go_manifest_def fileExists_def)
  have d: "IsAbs ''/b''" "Clean ''/b'' = ''/b''" "comps ''/b'' \<noteq> []" by (simp_all add: IsAbs_def Clean_def comps_def)
  have f: "path_join ''/b'' ''bigbase.toml'' = ''/b/bigbase.toml''" "path_join ''/b'' ''bigbase.yaml'' = ''/b/bigbase.yaml''"
    by (simp_all add: path_join_def Clean_def comps_def IsAbs_def)
  show ?thesis using i
    LoadManifest_InitManifest [where print = "\<lambda>_. ''go''" and yaml = "\<lambda>s. if s = ''go'' then Inr go_manifest else Inl ''yaml''"
      and fs = "\<lambda>f. if f = ''/b/bigbase.yaml'' then Data ''go'' else NotExist" and toml = "\<lambda>_. Inl ''toml''", OF i _ d]
    by (simp add: f)
qed

text \<open>An accepted framework maps to a known application type.\<close>

lemma manifestToAppType_valid: "IsValid (manifestToAppType m)"
  by (simp add: manifestToAppType_def Let_def IsValid_def)

text \<open>A loaded manifest has passed validation.\<close>

lemma LoadManifestPath_validated: "LoadManifestPath toml yaml fs d q = Inr (Some m) \<Longrightarrow> validate m = None"
  by (auto simp: LoadManifestPath_def Let_def split: if_splits option.splits file_read.splits sum.splits)

end
