(* ===== verification/Go_Time.thy ===== *)
theory Go_Time
  imports BB_Prelude
begin

text \<open>
  Times and durations of Go's \<^verbatim>\<open>time\<close> package as integers of nanoseconds, the RFC 3339 text form that the
  stores keep times in (whole seconds), and a potential argument shared by the components that bound
  how often something may happen in a span of time.
\<close>

abbreviation Second :: int where "Second \<equiv> 1000000000"
abbreviation Minute :: int where "Minute \<equiv> 60 * Second"
abbreviation Hour :: int where "Hour \<equiv> 3600 * Second"

text \<open>A time through \<^verbatim>\<open>Format(time.RFC3339)\<close> and \<^verbatim>\<open>time.Parse\<close>: whole seconds.\<close>

definition rfc3339 :: "int \<Rightarrow> int" where
  "rfc3339 t = t div Second * Second"

lemma rfc3339_le: "rfc3339 t \<le> t"
proof -
  have "t = t div Second * Second + t mod Second" by simp
  moreover have "0 \<le> t mod Second" by simp
  ultimately show ?thesis unfolding rfc3339_def by linarith
qed

lemma rfc3339_gt: "t - Second < rfc3339 t"
proof -
  have "t = t div Second * Second + t mod Second" by simp
  moreover have "t mod Second < Second" by simp
  ultimately show ?thesis unfolding rfc3339_def by linarith
qed

lemma rfc3339_mono: "s \<le> t \<Longrightarrow> rfc3339 s \<le> rfc3339 t"
  unfolding rfc3339_def by (simp add: zdiv_mono1)

lemma rfc3339_add: "rfc3339 (t + k * Second) = rfc3339 t + k * Second"
  unfolding rfc3339_def by (simp add: distrib_right)

lemma rfc3339_idem: "rfc3339 (rfc3339 t) = rfc3339 t"
  unfolding rfc3339_def by simp

section \<open>Budgets\<close>

text \<open>
  A potential bounds the cost of a run: every permitted operation pays for itself out of the potential
  of the state. The cost here is the number of events that a guard lets through.
\<close>

locale budget =
  fixes step :: "'s \<Rightarrow> 'op \<Rightarrow> 's"
    and cost :: "'s \<Rightarrow> 'op \<Rightarrow> nat"
    and ok :: "'s \<Rightarrow> 'op \<Rightarrow> bool"
    and inv :: "'s \<Rightarrow> bool"
    and pot :: "'s \<Rightarrow> nat"
  assumes inv_step: "inv s \<Longrightarrow> ok s op \<Longrightarrow> inv (step s op)"
    and pays: "inv s \<Longrightarrow> ok s op \<Longrightarrow> cost s op + pot (step s op) \<le> pot s"
begin

fun total_cost :: "'s \<Rightarrow> 'op list \<Rightarrow> nat" where
  "total_cost s [] = 0"
| "total_cost s (op # ops) = cost s op + total_cost (step s op) ops"

fun ok_run :: "'s \<Rightarrow> 'op list \<Rightarrow> bool" where
  "ok_run s [] = True"
| "ok_run s (op # ops) = (ok s op \<and> ok_run (step s op) ops)"

lemma total_cost_bound: "inv s \<Longrightarrow> ok_run s ops \<Longrightarrow> total_cost s ops + pot (foldl step s ops) \<le> pot s"
proof (induction ops arbitrary: s)
  case (Cons op ops)
  then have "total_cost (step s op) ops + pot (foldl step (step s op) ops) \<le> pot (step s op)"
    using inv_step by simp
  with pays [of s op] Cons.prems show ?case by simp
qed simp

lemma total_cost_le_pot: "inv s \<Longrightarrow> ok_run s ops \<Longrightarrow> total_cost s ops \<le> pot s"
  using total_cost_bound by fastforce

end

end
