(* ===== verification/Auth_RateLimit.thy ===== *)
theory Auth_RateLimit
  imports Go_Time
begin

text \<open>
  The request rate limiter (\<^verbatim>\<open>components/auth/ratelimit.go\<close>): one token bucket per user or per address,
  refilled when its window has passed, pruned by a periodic cleanup. Times and durations are
  nanoseconds. A request looks its bucket up and uses it in one step; the cleanup goroutine runs between
  requests. The address of an anonymous request is given.
\<close>

section \<open>Buckets\<close>

record RateLimiterConfig =
  IPLimit :: int
  IPWindow :: int
  UserLimit :: int
  UserWindow :: int
  CleanupEvery :: int

definition DefaultRateLimiterConfig :: RateLimiterConfig where
  "DefaultRateLimiterConfig = \<lparr> IPLimit = 60, IPWindow = Minute, UserLimit = 300, UserWindow = Minute, CleanupEvery = 5 * Minute \<rparr>"

record bucket =
  tokens :: int
  limit :: int
  window :: int
  resetAt :: int
  lastSeen :: int

definition allow :: "int \<Rightarrow> bucket \<Rightarrow> bool \<times> bucket" where
  "allow now b0 =
     (let b = b0\<lparr> lastSeen := now \<rparr>;
          b = (if now > resetAt b then b\<lparr> tokens := limit b, resetAt := now + window b \<rparr> else b)
      in if tokens b \<le> 0 then (False, b) else (True, b\<lparr> tokens := tokens b - 1 \<rparr>))"

definition retryAfter :: "int \<Rightarrow> bucket \<Rightarrow> int" where
  "retryAfter now b = (let secs = (resetAt b - now) div Second in if secs < 1 then 1 else secs)"

section \<open>The limiter\<close>

record RateLimiter =
  cfg :: RateLimiterConfig
  ipMap :: "(string, bucket) go_map"
  userMap :: "(int, bucket) go_map"
  stopped :: bool

definition NewRateLimiter :: "RateLimiterConfig \<Rightarrow> RateLimiter" where
  "NewRateLimiter c = \<lparr> cfg = c, ipMap = [], userMap = [], stopped = False \<rparr>"

definition Reconfigure :: "RateLimiterConfig \<Rightarrow> RateLimiter \<Rightarrow> RateLimiter" where
  "Reconfigure c rl = rl\<lparr> cfg := c \<rparr>"

definition Stop :: "RateLimiter \<Rightarrow> RateLimiter" where
  "Stop rl = (if stopped rl then rl else rl\<lparr> stopped := True \<rparr>)"

text \<open>One tick of \<open>cleanup\<close>; a stopped limiter has no ticks.\<close>

definition cleanup :: "int \<Rightarrow> RateLimiter \<Rightarrow> RateLimiter" where
  "cleanup now rl =
     (if stopped rl then rl
      else let threshold = now - CleanupEvery (cfg rl) in
        rl\<lparr> ipMap := filter (\<lambda>kb. \<not> lastSeen (snd kb) < threshold) (ipMap rl),
            userMap := filter (\<lambda>kb. \<not> lastSeen (snd kb) < threshold) (userMap rl) \<rparr>)"

definition ipBucket :: "int \<Rightarrow> string \<Rightarrow> RateLimiter \<Rightarrow> bucket \<times> RateLimiter" where
  "ipBucket now ip rl = (case map_of (ipMap rl) ip of
     Some b \<Rightarrow> (b, rl)
   | None \<Rightarrow> (let c = cfg rl;
                  b = \<lparr> tokens = IPLimit c, limit = IPLimit c, window = IPWindow c, resetAt = now + IPWindow c, lastSeen = now \<rparr>
              in (b, rl\<lparr> ipMap := map_put ip b (ipMap rl) \<rparr>)))"

definition userBucket :: "int \<Rightarrow> int \<Rightarrow> RateLimiter \<Rightarrow> bucket \<times> RateLimiter" where
  "userBucket now uid rl = (case map_of (userMap rl) uid of
     Some b \<Rightarrow> (b, rl)
   | None \<Rightarrow> (let c = cfg rl;
                  b = \<lparr> tokens = UserLimit c, limit = UserLimit c, window = UserWindow c, resetAt = now + UserWindow c, lastSeen = now \<rparr>
              in (b, rl\<lparr> userMap := map_put uid b (userMap rl) \<rparr>)))"

datatype client = User int | IP string

datatype answer = Served | TooManyRequests int

text \<open>\<open>Middleware\<close>: the bucket is a pointer, so what \<open>allow\<close> does to it is seen in the map.\<close>

definition Middleware :: "int \<Rightarrow> client \<Rightarrow> RateLimiter \<Rightarrow> answer \<times> RateLimiter" where
  "Middleware now c rl =
     (let (b, rl1) = (case c of User uid \<Rightarrow> userBucket now uid rl | IP ip \<Rightarrow> ipBucket now ip rl);
          (ok, b') = allow now b;
          rl2 = (case c of User uid \<Rightarrow> rl1\<lparr> userMap := map_put uid b' (userMap rl1) \<rparr>
                         | IP ip \<Rightarrow> rl1\<lparr> ipMap := map_put ip b' (ipMap rl1) \<rparr>)
      in if ok then (Served, rl2) else (TooManyRequests (retryAfter now b'), rl2))"

datatype limiter_event = Request int client | Tick int

fun event_time :: "limiter_event \<Rightarrow> int" where
  "event_time (Request t c) = t"
| "event_time (Tick t) = t"

text \<open>The log of a run: who asked when, and the answer.\<close>

fun run_limiter :: "RateLimiter \<Rightarrow> limiter_event list \<Rightarrow> (int \<times> client \<times> answer) list" where
  "run_limiter rl [] = []"
| "run_limiter rl (Request t c # es) = (case Middleware t c rl of (a, rl') \<Rightarrow> (t, c, a) # run_limiter rl' es)"
| "run_limiter rl (Tick t # es) = run_limiter (cleanup t rl) es"

definition served_in :: "client \<Rightarrow> int \<Rightarrow> int \<Rightarrow> (int \<times> client \<times> answer) list \<Rightarrow> nat" where
  "served_in c a b log = length (filter (\<lambda>(t, c', r). c' = c \<and> r = Served \<and> a \<le> t \<and> t \<le> b) log)"

section \<open>One client's view\<close>

text \<open>
  The abstract machine of one client: its bucket if it has one. The limiter refines it for every client
  at once.
\<close>

definition client_limit :: "RateLimiterConfig \<Rightarrow> client \<Rightarrow> int" where
  "client_limit cf c = (case c of User _ \<Rightarrow> UserLimit cf | IP _ \<Rightarrow> IPLimit cf)"

definition client_window :: "RateLimiterConfig \<Rightarrow> client \<Rightarrow> int" where
  "client_window cf c = (case c of User _ \<Rightarrow> UserWindow cf | IP _ \<Rightarrow> IPWindow cf)"

definition bucket_of :: "client \<Rightarrow> RateLimiter \<Rightarrow> bucket option" where
  "bucket_of c rl = (case c of User u \<Rightarrow> map_of (userMap rl) u | IP i \<Rightarrow> map_of (ipMap rl) i)"

definition fresh :: "RateLimiterConfig \<Rightarrow> client \<Rightarrow> int \<Rightarrow> bucket" where
  "fresh cf c now = \<lparr> tokens = client_limit cf c, limit = client_limit cf c, window = client_window cf c,
     resetAt = now + client_window cf c, lastSeen = now \<rparr>"

definition current :: "RateLimiterConfig \<Rightarrow> client \<Rightarrow> int \<Rightarrow> bucket option \<Rightarrow> bucket" where
  "current cf c now ob = (case ob of Some b \<Rightarrow> b | None \<Rightarrow> fresh cf c now)"

definition prune :: "RateLimiterConfig \<Rightarrow> int \<Rightarrow> bucket option \<Rightarrow> bucket option" where
  "prune cf now ob = (case ob of Some b \<Rightarrow> if lastSeen b < now - CleanupEvery cf then None else Some b | None \<Rightarrow> None)"

definition limiter_ok :: "RateLimiter \<Rightarrow> bool" where
  "limiter_ok rl = (wf_map (ipMap rl) \<and> wf_map (userMap rl) \<and> \<not> stopped rl)"

lemma map_of_prune: "wf_map m \<Longrightarrow>
    map_of (filter (\<lambda>kb. \<not> lastSeen (snd kb) < th) m) k =
      (case map_of m k of Some b \<Rightarrow> if lastSeen b < th then None else Some b | None \<Rightarrow> None)"
proof (induction m)
  case (Cons kb m)
  then have w: "wf_map m" "fst kb \<notin> set (map fst m)" by (simp_all add: wf_map_def)
  then have "map_of m (fst kb) = None" by (simp add: map_of_eq_None_iff)
  with Cons.IH [OF w(1)] show ?case by (cases kb) (auto split: option.splits)
qed simp

lemma wf_map_filter: "wf_map m \<Longrightarrow> wf_map (filter P m)"
  by (simp add: wf_map_def distinct_map_filter)

lemma Middleware_client:
  assumes "limiter_ok rl" "Middleware now c rl = (a, rl')"
  shows "limiter_ok rl' \<and> cfg rl' = cfg rl
    \<and> (a = Served \<longleftrightarrow> fst (allow now (current (cfg rl) c now (bucket_of c rl))))
    \<and> bucket_of c rl' = Some (snd (allow now (current (cfg rl) c now (bucket_of c rl))))
    \<and> (\<forall>d. d \<noteq> c \<longrightarrow> bucket_of d rl' = bucket_of d rl)"
  using assms
  by (auto simp: Middleware_def limiter_ok_def userBucket_def ipBucket_def bucket_of_def current_def fresh_def
      client_limit_def client_window_def Let_def split: client.splits option.splits prod.splits if_splits)

lemma cleanup_client: "limiter_ok rl \<Longrightarrow>
    limiter_ok (cleanup now rl) \<and> cfg (cleanup now rl) = cfg rl
    \<and> bucket_of c (cleanup now rl) = prune (cfg rl) now (bucket_of c rl)"
  by (cases c) (simp_all add: limiter_ok_def cleanup_def Let_def bucket_of_def prune_def wf_map_filter map_of_prune)

fun client_run :: "RateLimiterConfig \<Rightarrow> client \<Rightarrow> bucket option \<Rightarrow> limiter_event list \<Rightarrow> (int \<times> bool) list" where
  "client_run cf c ob [] = []"
| "client_run cf c ob (Request t d # es) =
     (if d = c then (case allow t (current cf c t ob) of (ok, b) \<Rightarrow> (t, ok) # client_run cf c (Some b) es)
      else client_run cf c ob es)"
| "client_run cf c ob (Tick t # es) = client_run cf c (prune cf t ob) es"

text \<open>Refinement: what a client sees of the shared limiter is its own machine.\<close>

lemma run_limiter_refines: "limiter_ok rl \<Longrightarrow>
    map (\<lambda>(t, d, a). (t, a = Served)) (filter (\<lambda>(t, d, a). d = c) (run_limiter rl es)) = client_run (cfg rl) c (bucket_of c rl) es"
proof (induction rl es rule: run_limiter.induct)
  case (2 rl t d es)
  obtain a rl' where m: "Middleware t d rl = (a, rl')" by force
  note f = Middleware_client [OF "2.prems" m]
  note ih = "2.IH" [OF m [symmetric] conjunct1 [OF f]]
  show ?case
  proof (cases "d = c")
    case True
    with m f ih show ?thesis by (cases "allow t (current (cfg rl) c t (bucket_of c rl))") simp
  next
    case False
    with m f ih show ?thesis by simp
  qed
next
  case (3 rl t es)
  with cleanup_client [OF "3.prems", of t c] show ?case by simp
qed simp

text \<open>
  C38. The shared limiter implements one independent token bucket per client: what a client is answered in
  any run of the limiter is what a machine with that client's bucket alone answers, whatever other clients do.
\<close>

theorem limiter_refines_buckets:
  "map (\<lambda>(t, d, a). (t, a = Served)) (filter (\<lambda>(t, d, a). d = c) (run_limiter (NewRateLimiter cf) es)) = client_run cf c None es"
proof -
  have "limiter_ok (NewRateLimiter cf)" "cfg (NewRateLimiter cf) = cf" "bucket_of c (NewRateLimiter cf) = None"
    by (simp_all add: limiter_ok_def NewRateLimiter_def bucket_of_def split: client.split)
  then show ?thesis using run_limiter_refines [of "NewRateLimiter cf" c es] by simp
qed

section \<open>Bursts\<close>

definition granted :: "(int \<times> bool) list \<Rightarrow> nat" where
  "granted l = length (filter snd l)"

lemma granted_simps [simp]:
  "granted [] = 0" "granted ((t, True) # l) = Suc (granted l)" "granted ((t, False) # l) = granted l"
  by (simp_all add: granted_def)

definition within :: "int \<Rightarrow> int \<Rightarrow> limiter_event list \<Rightarrow> bool" where
  "within a b es = (\<forall>e \<in> set es. a \<le> event_time e \<and> event_time e \<le> b)"

lemma within_Cons [simp]: "within a b (e # es) \<longleftrightarrow> a \<le> event_time e \<and> event_time e \<le> b \<and> within a b es"
  by (auto simp: within_def)

lemma allow_no_refill: "t \<le> resetAt b \<Longrightarrow> allow t b =
    (tokens b > 0, b\<lparr> lastSeen := t, tokens := (if tokens b > 0 then tokens b - 1 else tokens b) \<rparr>)"
  by (cases b) (auto simp: allow_def Let_def)

lemma allow_refill: "resetAt b < t \<Longrightarrow> allow t b =
    (limit b > 0, b\<lparr> lastSeen := t, tokens := (if limit b > 0 then limit b - 1 else limit b), resetAt := t + window b \<rparr>)"
  by (cases b) (auto simp: allow_def Let_def)

lemma granted_request: "granted (client_run cf c ob (Request t c # es)) =
    (if fst (allow t (current cf c t ob)) then 1 else 0) + granted (client_run cf c (Some (snd (allow t (current cf c t ob)))) es)"
  by (cases "allow t (current cf c t ob)") auto

text \<open>A bucket seen in the interval and not due before its end only pays out what it has: it is neither
  refilled nor pruned.\<close>

lemma client_run_no_refill:
  assumes "within t0 (t0 + W) es" "W \<le> CleanupEvery cf" "t0 + W \<le> resetAt b" "t0 \<le> lastSeen b"
  shows "granted (client_run cf c (Some b) es) \<le> nat (tokens b)"
  using assms
proof (induction cf c "Some b" es arbitrary: b rule: client_run.induct)
  case (2 cf c t d es)
  let ?b = "b\<lparr> lastSeen := t, tokens := (if tokens b > 0 then tokens b - 1 else tokens b) \<rparr>"
  have al: "allow t (current cf c t (Some b)) = (tokens b > 0, ?b)"
    using 2 by (simp add: current_def allow_no_refill)
  show ?case
  proof (cases "d = c")
    case True
    have "granted (client_run cf c (Some ?b) es) \<le> nat (tokens ?b)"
      using "2.hyps"(1) [OF True al [symmetric]] 2 by simp
    with True al show ?thesis unfolding True granted_request al by (cases "tokens b > 0") auto
  qed (use 2 in auto)
next
  case (3 cf c t es)
  then have "prune cf t (Some b) = Some b" by (simp add: prune_def)
  with 3 show ?case by simp
qed simp

text \<open>Without a bucket the interval starts one: a full window from then on.\<close>

lemma client_run_fresh:
  assumes "within t0 (t0 + client_window cf c) es" "client_window cf c \<le> CleanupEvery cf" "0 \<le> client_window cf c"
  shows "granted (client_run cf c None es) \<le> nat (client_limit cf c)"
  using assms
proof (induction cf c "None :: bucket option" es rule: client_run.induct)
  case (2 cf c t d es)
  let ?b = "snd (allow t (fresh cf c t))"
  have al: "allow t (fresh cf c t) = (client_limit cf c > 0, ?b)" "resetAt ?b = t + client_window cf c" "lastSeen ?b = t"
    "tokens ?b = (if client_limit cf c > 0 then client_limit cf c - 1 else client_limit cf c)"
    using 2 by (simp_all add: allow_no_refill fresh_def)
  show ?case
  proof (cases "d = c")
    case True
    have "granted (client_run cf c (Some ?b) es) \<le> nat (tokens ?b)"
      using client_run_no_refill [of t0 "client_window cf c" es cf ?b c] 2 al by simp
    moreover have "current cf c t None = fresh cf c t" by (simp add: current_def)
    moreover have "fst (allow t (fresh cf c t)) = (client_limit cf c > 0)" using al(1) by (metis fst_conv)
    ultimately show ?thesis using al(4) unfolding True granted_request by (cases "client_limit cf c > 0") auto
  qed (use 2 in auto)
qed (simp_all add: prune_def)

definition bucket_ok :: "RateLimiterConfig \<Rightarrow> client \<Rightarrow> bucket \<Rightarrow> bool" where
  "bucket_ok cf c b = (limit b = client_limit cf c \<and> window b = client_window cf c \<and> tokens b \<le> client_limit cf c)"

lemma bucket_ok_allow: "bucket_ok cf c b \<Longrightarrow> bucket_ok cf c (snd (allow t b))"
  by (cases "t \<le> resetAt b") (auto simp: bucket_ok_def allow_no_refill allow_refill not_le)

lemma bucket_ok_fresh: "bucket_ok cf c (fresh cf c t)"
  by (simp add: bucket_ok_def fresh_def)

text \<open>A bucket that has been used holds less than its limit: the request that fills it takes a token.\<close>

definition bucket_used :: "RateLimiterConfig \<Rightarrow> client \<Rightarrow> bucket \<Rightarrow> bool" where
  "bucket_used cf c b = (bucket_ok cf c b \<and> nat (tokens b) \<le> nat (client_limit cf c) - 1)"

lemma bucket_used_allow: "bucket_ok cf c b \<Longrightarrow> bucket_used cf c (snd (allow t b))"
  using bucket_ok_allow [of cf c b t]
  by (cases "t \<le> resetAt b") (auto simp: bucket_used_def bucket_ok_def allow_no_refill allow_refill not_le)

lemma client_run_burst:
  assumes "within t0 (t0 + client_window cf c) es" "client_window cf c \<le> CleanupEvery cf" "0 \<le> client_window cf c" "bucket_ok cf c b"
  shows "granted (client_run cf c (Some b) es) \<le> nat (tokens b) + nat (client_limit cf c)"
  using assms
proof (induction cf c "Some b" es arbitrary: b rule: client_run.induct)
  case (2 cf c t d es)
  let ?b = "snd (allow t b)"
  have cur: "current cf c t (Some b) = b" by (simp add: current_def)
  show ?case
  proof (cases "d = c")
    case True
    show ?thesis
    proof (cases "t \<le> resetAt b")
      case le: True
      have e: "allow t b = (tokens b > 0, ?b)" "tokens ?b = (if tokens b > 0 then tokens b - 1 else tokens b)"
        using le by (simp_all add: allow_no_refill)
      have "granted (client_run cf c (Some ?b) es) \<le> nat (tokens ?b) + nat (client_limit cf c)"
        using "2.hyps"(1) [of "fst (allow t b)" ?b] 2 cur bucket_ok_allow [OF "2.prems"(4), of t] True by simp
      moreover have "fst (allow t b) = (tokens b > 0)" using e(1) by (metis fst_conv)
      ultimately show ?thesis using e(2) unfolding True granted_request cur by (cases "tokens b > 0") auto
    next
      case False
      then have e: "allow t b = (client_limit cf c > 0, ?b)" "resetAt ?b = t + client_window cf c" "lastSeen ?b = t"
        "tokens ?b = (if client_limit cf c > 0 then client_limit cf c - 1 else client_limit cf c)"
        using "2.prems"(4) by (simp_all add: allow_refill bucket_ok_def)
      have "granted (client_run cf c (Some ?b) es) \<le> nat (tokens ?b)"
        using client_run_no_refill [of t0 "client_window cf c" es cf ?b c] 2 e by simp
      moreover have "fst (allow t b) = (client_limit cf c > 0)" using e(1) by (metis fst_conv)
      ultimately show ?thesis using e(4) unfolding True granted_request cur by (cases "client_limit cf c > 0") auto
    qed
  qed (use 2 in auto)
next
  case (3 cf c t es)
  show ?case
  proof (cases "lastSeen b < t - CleanupEvery cf")
    case True
    with client_run_fresh [of t0 cf c es] 3 show ?thesis by (simp add: prune_def)
  next
    case False
    with 3 show ?thesis by (simp add: prune_def)
  qed
qed simp

text \<open>The whole run, cut at the interval.\<close>

fun client_state :: "RateLimiterConfig \<Rightarrow> client \<Rightarrow> bucket option \<Rightarrow> limiter_event list \<Rightarrow> bucket option" where
  "client_state cf c ob [] = ob"
| "client_state cf c ob (Request t d # es) =
     client_state cf c (if d = c then Some (snd (allow t (current cf c t ob))) else ob) es"
| "client_state cf c ob (Tick t # es) = client_state cf c (prune cf t ob) es"

lemma client_run_append: "client_run cf c ob (xs @ ys) = client_run cf c ob xs @ client_run cf c (client_state cf c ob xs) ys"
  by (induction cf c ob xs rule: client_state.induct) (auto split: prod.split)

lemma client_state_used: "(\<forall>b. ob = Some b \<longrightarrow> bucket_used cf c b) \<Longrightarrow> client_state cf c ob es = Some b \<Longrightarrow> bucket_used cf c b"
proof (induction cf c ob es rule: client_state.induct)
  case (2 cf c ob t d es)
  have "bucket_ok cf c (current cf c t ob)" using "2.prems"(1) bucket_ok_fresh by (auto simp: current_def bucket_used_def split: option.split)
  with 2 bucket_used_allow show ?case by auto
next
  case (3 cf c ob t es)
  have "\<forall>b. prune cf t ob = Some b \<longrightarrow> bucket_used cf c b" using "3.prems"(1) by (auto simp: prune_def split: option.splits if_splits)
  with 3 show ?case by simp
qed simp

lemma client_run_times: "(t, ok) \<in> set (client_run cf c ob es) \<Longrightarrow> \<exists>e \<in> set es. event_time e = t"
proof (induction cf c ob es rule: client_run.induct)
  case (2 cf c ob t' d es)
  obtain r b where al: "allow t' (current cf c t' ob) = (r, b)" by force
  show ?case
  proof (cases "d = c")
    case True
    with "2.prems" al have "t = t' \<or> (t, ok) \<in> set (client_run cf c (Some b) es)" by auto
    with "2.IH"(1) [OF True al [symmetric]] show ?thesis by auto
  next
    case False
    with "2.prems" "2.IH"(2) show ?thesis by auto
  qed
qed auto

lemma sorted_cut:
  assumes "sorted (map event_time es)"
  obtains pre mid post where "es = pre @ mid @ post" "\<forall>e \<in> set pre. event_time e < a"
    "within a b mid" "\<forall>e \<in> set post. b < event_time e"
proof
  let ?rest = "dropWhile (\<lambda>e. event_time e < a) es"
  have s: "sorted (map event_time ?rest)" using assms by (simp add: dropWhile_eq_drop drop_map [symmetric] sorted_wrt_drop)
  show "es = takeWhile (\<lambda>e. event_time e < a) es @ takeWhile (\<lambda>e. event_time e \<le> b) ?rest @ dropWhile (\<lambda>e. event_time e \<le> b) ?rest"
    by simp
  show "\<forall>e \<in> set (takeWhile (\<lambda>e. event_time e < a) es). event_time e < a" by (auto dest: set_takeWhileD)
  have ge: "\<forall>e \<in> set ?rest. a \<le> event_time e"
  proof (cases ?rest)
    case (Cons x xs)
    then have "\<not> event_time x < a" using hd_dropWhile [of "\<lambda>e. event_time e < a" es] by simp
    with s Cons show ?thesis by auto
  next
    case Nil
    then show ?thesis by (simp only: list.set ball_empty)
  qed
  then show "within a b (takeWhile (\<lambda>e. event_time e \<le> b) ?rest)" by (auto simp: within_def dest: set_takeWhileD)
  show "\<forall>e \<in> set (dropWhile (\<lambda>e. event_time e \<le> b) ?rest). b < event_time e"
  proof (cases "dropWhile (\<lambda>e. event_time e \<le> b) ?rest")
    case (Cons x xs)
    then have "\<not> event_time x \<le> b" using hd_dropWhile [of "\<lambda>e. event_time e \<le> b" ?rest] by simp
    moreover have "sorted (map event_time (x # xs))"
      unfolding Cons [symmetric] using s by (simp only: dropWhile_eq_drop [of _ ?rest] drop_map [symmetric] sorted_wrt_drop)
    ultimately show ?thesis using Cons by auto
  next
    case Nil
    then show ?thesis by (simp only: list.set ball_empty)
  qed
qed

lemma client_burst_bound:
  assumes "sorted (map event_time es)" "client_window cf c \<le> CleanupEvery cf" "0 \<le> client_window cf c"
  shows "length (filter (\<lambda>(t, ok). ok \<and> t0 \<le> t \<and> t \<le> t0 + client_window cf c) (client_run cf c None es))
    \<le> 2 * nat (client_limit cf c) - 1"
proof -
  obtain pre mid post where es: "es = pre @ mid @ post" and pre: "\<forall>e \<in> set pre. event_time e < t0"
    and mid: "within t0 (t0 + client_window cf c) mid" and post: "\<forall>e \<in> set post. t0 + client_window cf c < event_time e"
    using sorted_cut [OF assms(1)] by blast
  let ?in = "\<lambda>(t, ok). ok \<and> t0 \<le> t \<and> t \<le> t0 + client_window cf c"
  let ?s = "client_state cf c None pre" and ?s2 = "client_state cf c (client_state cf c None pre) mid"
  have z1: "filter ?in (client_run cf c None pre) = []"
    using pre by (auto simp: filter_empty_conv dest!: client_run_times)
  have z2: "filter ?in (client_run cf c ?s2 post) = []"
    using post by (auto simp: filter_empty_conv dest!: client_run_times)
  have "length (filter ?in (client_run cf c ?s mid)) \<le> granted (client_run cf c ?s mid)"
    unfolding granted_def by (induction "client_run cf c ?s mid" rule: list.induct) (auto simp: length_filter_conv_card intro!: card_mono)
  also have "\<dots> \<le> 2 * nat (client_limit cf c) - 1"
  proof (cases ?s)
    case None
    with client_run_fresh [OF mid assms(2,3)] show ?thesis by simp
  next
    case (Some b)
    then have "bucket_used cf c b" using client_state_used [of None cf c pre b] by simp
    then have ok: "bucket_ok cf c b" "nat (tokens b) \<le> nat (client_limit cf c) - 1" by (simp_all add: bucket_used_def)
    with client_run_burst [OF mid assms(2,3) ok(1)] Some show ?thesis by simp
  qed
  finally show ?thesis unfolding es client_run_append filter_append z1 z2 by simp
qed

text \<open>
  Rate limiting: whatever the interleaving of requests of all clients and cleanup ticks, no client
  is served as often as twice its limit in any span of one window, provided buckets are kept for at least
  a window. The default configuration has that, so an address gets at most 119 requests in any minute.
\<close>

lemma rate_limit_burst:
  assumes "sorted (map event_time es)" "client_window cf c \<le> CleanupEvery cf" "0 \<le> client_window cf c"
  shows "served_in c t0 (t0 + client_window cf c) (run_limiter (NewRateLimiter cf) es) \<le> 2 * nat (client_limit cf c) - 1"
proof -
  let ?log = "run_limiter (NewRateLimiter cf) es"
  have ok: "limiter_ok (NewRateLimiter cf)" by (simp add: limiter_ok_def NewRateLimiter_def)
  have "served_in c t0 (t0 + client_window cf c) ?log =
      length (filter (\<lambda>(t, ok). ok \<and> t0 \<le> t \<and> t \<le> t0 + client_window cf c)
        (map (\<lambda>(t, d, a). (t, a = Served)) (filter (\<lambda>(t, d, a). d = c) ?log)))"
    unfolding served_in_def by (induction ?log rule: list.induct) (auto simp: filter_map comp_def split_def intro!: arg_cong [where f = length] filter_cong)
  also have "\<dots> = length (filter (\<lambda>(t, ok). ok \<and> t0 \<le> t \<and> t \<le> t0 + client_window cf c) (client_run cf c None es))"
    unfolding run_limiter_refines [OF ok]
    by (simp add: NewRateLimiter_def bucket_of_def split: client.split)
  also have "\<dots> \<le> 2 * nat (client_limit cf c) - 1" by (rule client_burst_bound [OF assms])
  finally show ?thesis .
qed

theorem rate_limit_burst_witness:
  "served_in (IP ''1.2.3.4'') 0 Minute (run_limiter (NewRateLimiter DefaultRateLimiterConfig)
     [Request 0 (IP ''1.2.3.4''), Request 5 (User 7), Tick 9]) \<le> 119"
  using rate_limit_burst [where cf = DefaultRateLimiterConfig and c = "IP ''1.2.3.4''" and ?t0.0 = 0
      and es = "[Request 0 (IP ''1.2.3.4''), Request 5 (User 7), Tick 9]"]
  by (simp add: client_window_def client_limit_def DefaultRateLimiterConfig_def)

text \<open>The bound is reached: a bucket emptied at the end of one window is refilled just after it.\<close>

lemma rate_limit_burst_tight:
  "served_in (User 1) 10 20 (run_limiter (NewRateLimiter \<lparr> IPLimit = 0, IPWindow = 0, UserLimit = 2, UserWindow = 10, CleanupEvery = 10 \<rparr>)
     [Request 0 (User 1), Request 10 (User 1), Request 11 (User 1), Request 12 (User 1)]) = 3"
  by (simp add: served_in_def Middleware_def userBucket_def allow_def NewRateLimiter_def Let_def)

text \<open>Reconfiguring does not reach the buckets that exist: a refill uses the bucket's own limit.\<close>

lemma reconfigure_keeps_old_limit:
  assumes "bucket_of c rl = Some b" "resetAt b < now" "limit b > 0"
  shows "\<exists>b'. bucket_of c (Reconfigure cf rl) = Some b' \<and> tokens (snd (allow now b')) = limit b - 1 \<and> limit (snd (allow now b')) = limit b"
  using assms by (auto simp: Reconfigure_def bucket_of_def allow_refill split: client.splits)

text \<open>A refused request is told to wait at least a second.\<close>

lemma retryAfter_positive: "1 \<le> retryAfter now b"
  by (simp add: retryAfter_def Let_def)

text \<open>
  The limiter of the deploy-key route prunes buckets six times as often as their window ends, so the
  proviso fails there: a client that pauses for twenty minutes gets a new bucket. Thirty requests are
  served within an hour, where two windows of ten would allow nineteen.
\<close>

definition deployKeyLimiterConfig :: RateLimiterConfig where
  "deployKeyLimiterConfig = \<lparr> IPLimit = 3, IPWindow = Minute, UserLimit = 10, UserWindow = Hour, CleanupEvery = 10 * Minute \<rparr>"

lemma deploy_key_limit_bypassed:
  "served_in (User 1) 0 Hour (run_limiter (NewRateLimiter deployKeyLimiterConfig)
     (replicate 10 (Request 0 (User 1)) @ [Tick (20 * Minute)] @ replicate 10 (Request (20 * Minute) (User 1))
      @ [Tick (40 * Minute)] @ replicate 10 (Request (40 * Minute) (User 1)))) = 30"
  by (simp add: numeral_eq_Suc served_in_def Middleware_def userBucket_def cleanup_def allow_def NewRateLimiter_def deployKeyLimiterConfig_def Let_def)

end
