(* ===== verification/Auth_Refresh.thy ===== *)
theory Auth_Refresh
  imports Go_Time
begin

text \<open>
  Refresh tokens (\<^verbatim>\<open>components/auth/refreshtoken.go\<close>): rotation, replay detection and revocation.

  \<open>handleRefresh\<close> runs up to five database statements, and requests run concurrently. The handler is a
  program with one step per statement; a schedule lets any request take its next step at any time, and
  says for each step whether the statement fails, what the clock shows and what the random source
  returns. The table has unique tokens and never reuses an identifier, as its schema says.
\<close>

section \<open>The table\<close>

record refresh_row =
  rt_id :: nat
  rt_user :: int
  rt_token :: string
  rt_family :: string
  rt_used :: bool
  rt_expires :: int

record refresh_db =
  rt_rows :: "refresh_row list"
  rt_next :: nat

definition find_token :: "string \<Rightarrow> refresh_db \<Rightarrow> refresh_row option" where
  "find_token tk db = find (\<lambda>r. rt_token r = tk) (rt_rows db)"

text \<open>\<open>gen\<close> is the generated token, \<open>None\<close> when the random source fails.\<close>

definition issueRefreshToken ::
    "bool \<Rightarrow> int \<Rightarrow> int \<Rightarrow> string option \<Rightarrow> int \<Rightarrow> string \<Rightarrow> refresh_db \<Rightarrow> string option \<times> refresh_db" where
  "issueRefreshToken fault now expiry gen userID family db = (case gen of
     None \<Rightarrow> (None, db)
   | Some tk \<Rightarrow>
       if fault \<or> find_token tk db \<noteq> None then (None, db)
       else (Some tk, db\<lparr> rt_rows := rt_rows db @ [\<lparr> rt_id = rt_next db, rt_user = userID, rt_token = tk, rt_family = family,
               rt_used = False, rt_expires = rfc3339 (now + expiry) \<rparr>], rt_next := Suc (rt_next db) \<rparr>))"

definition invalidateFamily :: "bool \<Rightarrow> string \<Rightarrow> refresh_db \<Rightarrow> refresh_db" where
  "invalidateFamily fault family db = (if fault then db
     else db\<lparr> rt_rows := map (\<lambda>r. if rt_family r = family then r\<lparr> rt_used := True \<rparr> else r) (rt_rows db) \<rparr>)"

definition invalidateAllUserTokens :: "bool \<Rightarrow> int \<Rightarrow> refresh_db \<Rightarrow> bool \<times> refresh_db" where
  "invalidateAllUserTokens fault userID db = (if fault then (False, db)
     else (True, db\<lparr> rt_rows := map (\<lambda>r. if rt_user r = userID then r\<lparr> rt_used := True \<rparr> else r) (rt_rows db) \<rparr>))"

text \<open>\<^verbatim>\<open>UPDATE refresh_tokens SET used = 1 WHERE id = ? AND used = 0\<close>: rows affected.\<close>

definition rotate_row :: "nat \<Rightarrow> refresh_db \<Rightarrow> nat \<times> refresh_db" where
  "rotate_row i db =
     (length (filter (\<lambda>r. rt_id r = i \<and> \<not> rt_used r) (rt_rows db)),
      db\<lparr> rt_rows := map (\<lambda>r. if rt_id r = i \<and> \<not> rt_used r then r\<lparr> rt_used := True \<rparr> else r) (rt_rows db) \<rparr>)"

section \<open>handleRefresh\<close>

datatype refresh_answer = Refused nat string | Tokens string

datatype refresh_pc =
    Fetch string
  | ReplayInvalidate string string
  | Rotate string refresh_row
  | FetchUser string refresh_row
  | Issue string refresh_row
  | Done string refresh_answer

text \<open>What one step sees of the world: whether its statement fails, the clock, whether the user row
  exists, whether the access token can be signed, and the generated token.\<close>

record refresh_input =
  in_fault :: bool
  in_now :: int
  in_user_found :: bool
  in_jwt_ok :: bool
  in_gen :: "string option"

definition refresh_start :: "bool \<Rightarrow> string option \<Rightarrow> refresh_pc" where
  "refresh_start post body =
     (if \<not> post then Done [] (Refused 405 ''method not allowed'')
      else case body of
          None \<Rightarrow> Done [] (Refused 400 ''invalid json'')
        | Some tk \<Rightarrow> if tk = [] then Done [] (Refused 400 ''refresh_token required'') else Fetch tk)"

fun handleRefresh_step :: "int \<Rightarrow> refresh_input \<Rightarrow> refresh_pc \<Rightarrow> refresh_db \<Rightarrow> refresh_pc \<times> refresh_db" where
  "handleRefresh_step expiry i (Fetch tk) db =
     (case (if in_fault i then None else find_token tk db) of
        None \<Rightarrow> (Done tk (Refused 401 ''invalid refresh token''), db)
      | Some r \<Rightarrow>
          if rt_used r then (ReplayInvalidate tk (rt_family r), db)
          else if in_now i > rt_expires r then (Done tk (Refused 401 ''refresh token expired''), db)
          else (Rotate tk r, db))"
| "handleRefresh_step expiry i (ReplayInvalidate tk family) db =
     (Done tk (Refused 401 ''refresh token already used''), invalidateFamily (in_fault i) family db)"
| "handleRefresh_step expiry i (Rotate tk r) db =
     (if in_fault i then (Done tk (Refused 500 ''internal error''), db)
      else case rotate_row (rt_id r) db of
          (n, db') \<Rightarrow> if n = 0 then (ReplayInvalidate tk (rt_family r), db') else (FetchUser tk r, db'))"
| "handleRefresh_step expiry i (FetchUser tk r) db =
     (if in_fault i \<or> \<not> in_user_found i \<or> \<not> in_jwt_ok i then (Done tk (Refused 500 ''internal error''), db)
      else (Issue tk r, db))"
| "handleRefresh_step expiry i (Issue tk r) db =
     (case issueRefreshToken (in_fault i) (in_now i) expiry (in_gen i) (rt_user r) (rt_family r) db of
        (None, db') \<Rightarrow> (Done tk (Refused 500 ''internal error''), db')
      | (Some tk', db') \<Rightarrow> (Done tk (Tokens tk'), db'))"
| "handleRefresh_step expiry i (Done tk a) db = (Done tk a, db)"

text \<open>Requests side by side.\<close>

record refresh_state =
  rs_db :: refresh_db
  rs_requests :: "refresh_pc list"

definition refresh_step :: "int \<Rightarrow> refresh_state \<Rightarrow> nat \<times> refresh_input \<Rightarrow> refresh_state" where
  "refresh_step expiry s ti = (case ti of (t, i) \<Rightarrow>
     if t < length (rs_requests s) then
       (case handleRefresh_step expiry i (rs_requests s ! t) (rs_db s) of
          (pc, db) \<Rightarrow> \<lparr> rs_db = db, rs_requests = (rs_requests s)[t := pc] \<rparr>)
     else s)"

definition refresh_run :: "int \<Rightarrow> refresh_state \<Rightarrow> (nat \<times> refresh_input) list \<Rightarrow> refresh_state" where
  "refresh_run expiry s sched = foldl (refresh_step expiry) s sched"

section \<open>Single use\<close>

definition db_ok :: "refresh_db \<Rightarrow> bool" where
  "db_ok db = (distinct (map rt_token (rt_rows db)) \<and> distinct (map rt_id (rt_rows db)) \<and> (\<forall>r \<in> set (rt_rows db). rt_id r < rt_next db))"

text \<open>The request has rotated the token it was given.\<close>

fun winner :: "string \<Rightarrow> refresh_pc \<Rightarrow> bool" where
  "winner tk (FetchUser t r) = (t = tk)"
| "winner tk (Issue t r) = (t = tk)"
| "winner tk (Done t (Tokens _)) = (t = tk)"
| "winner tk _ = False"

definition winners :: "string \<Rightarrow> refresh_pc list \<Rightarrow> nat" where
  "winners tk ps = length (filter (winner tk) ps)"

definition unused :: "string \<Rightarrow> refresh_db \<Rightarrow> nat" where
  "unused tk db = length (filter (\<lambda>r. rt_token r = tk \<and> \<not> rt_used r) (rt_rows db))"

text \<open>A request holds a row of the table: the row under that identifier has its token and family.\<close>

fun holds :: "refresh_db \<Rightarrow> refresh_pc \<Rightarrow> bool" where
  "holds db (Rotate tk r) = (\<exists>r' \<in> set (rt_rows db). rt_id r' = rt_id r \<and> rt_token r' = tk \<and> rt_family r' = rt_family r)"
| "holds db (FetchUser tk r) = (\<exists>r' \<in> set (rt_rows db). rt_id r' = rt_id r \<and> rt_token r' = tk \<and> rt_family r' = rt_family r)"
| "holds db (Issue tk r) = (\<exists>r' \<in> set (rt_rows db). rt_id r' = rt_id r \<and> rt_token r' = tk \<and> rt_family r' = rt_family r)"
| "holds db (Done tk (Tokens tk')) = (\<exists>r' \<in> set (rt_rows db). rt_token r' = tk)"
| "holds db _ = True"

text \<open>What statements keep of the table: every row stays, with its identifier, token, family and user.\<close>

definition row_key :: "refresh_row \<Rightarrow> nat \<times> string \<times> string \<times> int" where
  "row_key r = (rt_id r, rt_token r, rt_family r, rt_user r)"

definition mark_used :: "(refresh_row \<Rightarrow> bool) \<Rightarrow> refresh_db \<Rightarrow> refresh_db" where
  "mark_used P db = db\<lparr> rt_rows := map (\<lambda>r. if P r then r\<lparr> rt_used := True \<rparr> else r) (rt_rows db) \<rparr>"

lemma updates_mark_used:
  "invalidateFamily fault family db = (if fault then db else mark_used (\<lambda>r. rt_family r = family) db)"
  "invalidateAllUserTokens fault u db = (if fault then (False, db) else (True, mark_used (\<lambda>r. rt_user r = u) db))"
  "rotate_row i db = (length (filter (\<lambda>r. rt_id r = i \<and> \<not> rt_used r) (rt_rows db)), mark_used (\<lambda>r. rt_id r = i \<and> \<not> rt_used r) db)"
  by (simp_all add: invalidateFamily_def invalidateAllUserTokens_def rotate_row_def mark_used_def)

lemma mark_used_keys: "map row_key (rt_rows (mark_used P db)) = map row_key (rt_rows db)" "rt_next (mark_used P db) = rt_next db"
  by (simp_all add: mark_used_def row_key_def)

lemma keys_determine:
  assumes "map row_key (rt_rows a) = map row_key (rt_rows b)"
  shows "map rt_token (rt_rows a) = map rt_token (rt_rows b)" "map rt_id (rt_rows a) = map rt_id (rt_rows b)"
proof -
  have "map (fst \<circ> snd) (map row_key (rt_rows a)) = map (fst \<circ> snd) (map row_key (rt_rows b))"
    "map fst (map row_key (rt_rows a)) = map fst (map row_key (rt_rows b))" using assms by simp_all
  then show "map rt_token (rt_rows a) = map rt_token (rt_rows b)" "map rt_id (rt_rows a) = map rt_id (rt_rows b)"
    by (simp_all add: comp_def row_key_def)
qed

lemma db_ok_iff: "db_ok db \<longleftrightarrow> distinct (map rt_token (rt_rows db)) \<and> distinct (map rt_id (rt_rows db))
    \<and> (\<forall>i \<in> set (map rt_id (rt_rows db)). i < rt_next db)"
  by (auto simp: db_ok_def)

lemma db_ok_unique:
  assumes "db_ok db" "a \<in> set (rt_rows db)" "b \<in> set (rt_rows db)"
  shows "rt_id a = rt_id b \<Longrightarrow> a = b" "rt_token a = rt_token b \<Longrightarrow> a = b"
  using assms unfolding db_ok_def distinct_map by (meson inj_onD)+

lemma mark_used_ok: "db_ok db \<Longrightarrow> db_ok (mark_used P db)"
  unfolding db_ok_iff keys_determine [OF mark_used_keys(1)] mark_used_keys(2) .

lemma unused_mark_used: "unused tk (mark_used P db) = length (filter (\<lambda>r. rt_token r = tk \<and> \<not> rt_used r \<and> \<not> P r) (rt_rows db))"
proof -
  have "filter (\<lambda>r. rt_token r = tk \<and> \<not> rt_used r) (map (\<lambda>r. if P r then r\<lparr> rt_used := True \<rparr> else r) rs) =
      filter (\<lambda>r. rt_token r = tk \<and> \<not> rt_used r \<and> \<not> P r) rs" for rs
    by (induction rs) auto
  then show ?thesis by (simp add: unused_def mark_used_def)
qed

lemma unused_mark_le: "unused tk (mark_used P db) \<le> unused tk db"
proof -
  have "filter (\<lambda>r. rt_token r = tk \<and> \<not> rt_used r \<and> \<not> P r) (rt_rows db) =
      filter (\<lambda>r. \<not> P r) (filter (\<lambda>r. rt_token r = tk \<and> \<not> rt_used r) (rt_rows db))"
    by (auto intro: filter_cong)
  then show ?thesis using length_filter_le [of "\<lambda>r. \<not> P r" "filter (\<lambda>r. rt_token r = tk \<and> \<not> rt_used r) (rt_rows db)"]
    unfolding unused_mark_used by (simp add: unused_def)
qed

lemma unused_le_1: "db_ok db \<Longrightarrow> unused tk db \<le> 1"
proof -
  have "distinct (map rt_token rs) \<Longrightarrow> length (filter (\<lambda>r. rt_token r = tk \<and> \<not> rt_used r) rs) \<le> 1" for rs
  proof (induction rs)
    case (Cons a rs)
    show ?case
    proof (cases "rt_token a = tk")
      case True
      with Cons.prems have "filter (\<lambda>r. rt_token r = tk \<and> \<not> rt_used r) rs = []"
        by (metis (mono_tags, lifting) distinct.simps(2) filter_empty_conv image_eqI list.set_map list.simps(9))
      then show ?thesis by simp
    next
      case False
      with Cons show ?thesis by simp
    qed
  qed simp
  then show "db_ok db \<Longrightarrow> unused tk db \<le> 1" unfolding unused_def db_ok_def by blast
qed

text \<open>Winning the rotation uses the token up.\<close>

lemma rotate_row_wins:
  assumes ok: "db_ok db" and r: "r' \<in> set (rt_rows db)" "rt_token r' = tk"
    and n: "fst (rotate_row (rt_id r') db) \<noteq> 0"
  shows "unused tk db = 1 \<and> unused tk (snd (rotate_row (rt_id r') db)) = 0"
proof -
  from n obtain q where q: "q \<in> set (rt_rows db)" "rt_id q = rt_id r'" "\<not> rt_used q"
    by (auto simp: rotate_row_def filter_empty_conv)
  have "q = r'" using db_ok_unique(1) [OF ok q(1) r(1) q(2)] .
  with q(3) r have "unused tk db \<noteq> 0" by (auto simp: unused_def filter_empty_conv)
  moreover have "\<not> (rt_token x = tk \<and> \<not> rt_used x \<and> \<not> (rt_id x = rt_id r' \<and> \<not> rt_used x))" if "x \<in> set (rt_rows db)" for x
  proof
    assume x: "rt_token x = tk \<and> \<not> rt_used x \<and> \<not> (rt_id x = rt_id r' \<and> \<not> rt_used x)"
    then have "x = r'" using db_ok_unique(2) [OF ok that r(1)] r(2) by simp
    with x show False by simp
  qed
  ultimately show ?thesis using unused_le_1 [OF ok, of tk]
    by (simp add: updates_mark_used(3) unused_mark_used filter_empty_conv)
qed

lemma find_token_None: "find_token tk db = None \<longleftrightarrow> tk \<notin> set (map rt_token (rt_rows db))"
  by (auto simp: find_token_def find_None_iff)

lemma find_token_Some: "find_token tk db = Some r \<Longrightarrow> r \<in> set (rt_rows db) \<and> rt_token r = tk"
  by (auto simp: find_token_def find_Some_iff)

lemma issue_facts:
  assumes "issueRefreshToken f now ex gen u fam db = (res, db')" "db_ok db"
  shows "db_ok db'" "set (map row_key (rt_rows db)) \<subseteq> set (map row_key (rt_rows db'))"
    "res = None \<Longrightarrow> db' = db"
    "res = Some tk \<Longrightarrow> find_token tk db = None \<and> tk \<in> set (map rt_token (rt_rows db'))"
    "res = Some tk \<Longrightarrow> unused x db' = unused x db + (if x = tk then 1 else 0)"
proof -
  have new: "db_ok (db\<lparr> rt_rows := rt_rows db @ [r], rt_next := Suc (rt_next db) \<rparr>)"
    if "rt_id r = rt_next db" "rt_token r \<notin> set (map rt_token (rt_rows db))" for r
  proof -
    have "rt_next db \<notin> rt_id ` set (rt_rows db)" using assms(2) unfolding db_ok_def by (metis imageE less_irrefl)
    moreover have "\<forall>x \<in> set (rt_rows db). rt_id x < Suc (rt_next db)" using assms(2) unfolding db_ok_def by (metis less_SucI)
    ultimately show ?thesis using assms(2) that by (simp add: db_ok_def)
  qed
  then show "db_ok db'" using assms by (auto simp: issueRefreshToken_def find_token_None split: option.splits if_splits)
  show "set (map row_key (rt_rows db)) \<subseteq> set (map row_key (rt_rows db'))" "res = None \<Longrightarrow> db' = db"
    "res = Some tk \<Longrightarrow> find_token tk db = None \<and> tk \<in> set (map rt_token (rt_rows db'))"
    "res = Some tk \<Longrightarrow> unused x db' = unused x db + (if x = tk then 1 else 0)"
    using assms(1) by (auto simp: issueRefreshToken_def unused_def split: option.splits if_splits)
qed

definition keys_kept :: "refresh_db \<Rightarrow> refresh_db \<Rightarrow> bool" where
  "keys_kept db db' = (set (map row_key (rt_rows db)) \<subseteq> set (map row_key (rt_rows db')))"

lemma holds_mono:
  assumes k: "keys_kept db db'" and h: "holds db p"
  shows "holds db' p"
proof -
  have ex: "\<exists>r' \<in> set (rt_rows db'). row_key r' = row_key r" if "r \<in> set (rt_rows db)" for r
    using k that by (fastforce simp: keys_kept_def)
  show ?thesis
  proof (cases "(db, p)" rule: holds.cases)
    case (4 db tk tk')
    with h obtain r where "r \<in> set (rt_rows db)" "rt_token r = tk" by auto
    with ex 4 show ?thesis by (fastforce simp: row_key_def)
  qed (use h ex in \<open>fastforce simp: row_key_def\<close>)+
qed

lemma handleRefresh_step_keeps:
  assumes "handleRefresh_step ex i p db = (p', db')" "db_ok db" "holds db p"
  shows "db_ok db' \<and> keys_kept db db' \<and> holds db' p'"
proof (cases p)
  case (Fetch tk)
  with assms find_token_Some [of tk db] show ?thesis
    by (cases "find_token tk db") (auto simp: keys_kept_def split: if_splits)
next
  case (ReplayInvalidate tk fam)
  with assms show ?thesis
    by (auto simp: updates_mark_used keys_kept_def mark_used_ok mark_used_keys(1) simp del: set_map)
next
  case (Rotate tk r)
  have k: "keys_kept db (mark_used (\<lambda>x. rt_id x = rt_id r \<and> \<not> rt_used x) db)"
    by (simp add: keys_kept_def mark_used_keys(1) del: set_map)
  have "holds (mark_used (\<lambda>x. rt_id x = rt_id r \<and> \<not> rt_used x) db) (FetchUser tk r)"
    using holds_mono [OF k, of "FetchUser tk r"] assms(3) Rotate by simp
  with Rotate k assms mark_used_ok [OF assms(2)] show ?thesis
    by (auto simp: updates_mark_used keys_kept_def split: if_splits)
next
  case (FetchUser tk r)
  with assms show ?thesis by (auto simp: keys_kept_def split: if_splits)
next
  case (Issue tk r)
  obtain res where i: "issueRefreshToken (in_fault i) (in_now i) ex (in_gen i) (rt_user r) (rt_family r) db = (res, db')"
    and p': "p' = (case res of None \<Rightarrow> Done tk (Refused 500 ''internal error'') | Some tk' \<Rightarrow> Done tk (Tokens tk'))"
    using assms(1) Issue by (auto split: prod.splits option.splits)
  have k: "keys_kept db db'" using issue_facts(2) [OF i assms(2)] by (simp add: keys_kept_def del: set_map)
  have "holds db' (Issue tk r)" using holds_mono [OF k, of p] assms(3) Issue by (simp only:)
  then have "holds db' p'" by (auto simp: p' split: option.split)
  with k issue_facts(1) [OF i assms(2)] show ?thesis by simp
next
  case (Done tk a)
  with assms show ?thesis by (auto simp: keys_kept_def)
qed

lemma winners_update: "t < length ps \<Longrightarrow>
    winners tk (ps[t := p]) + of_bool (winner tk (ps ! t)) = winners tk ps + of_bool (winner tk p)"
proof (induction ps arbitrary: t)
  case (Cons a ps)
  then show ?case by (cases t) (auto simp: winners_def)
qed simp

lemma winner_holds: "winner tk p \<Longrightarrow> holds db p \<Longrightarrow> tk \<in> set (map rt_token (rt_rows db))"
  by (cases "(tk, p)" rule: winner.cases) auto

text \<open>A step never creates a second claim on a token, except for a token nobody has seen.\<close>

lemma handleRefresh_step_claims:
  assumes s: "handleRefresh_step ex i p db = (p', db')" and ok: "db_ok db" "holds db p"
  shows "of_bool (winner tk p') + unused tk db' \<le> of_bool (winner tk p) + unused tk db
    \<or> find_token tk db = None \<and> \<not> winner tk p' \<and> unused tk db' \<le> 1"
proof (cases p)
  case (Fetch x)
  with s show ?thesis by (auto split: option.splits if_splits)
next
  case (ReplayInvalidate x fam)
  with s unused_mark_le [of tk "\<lambda>r. rt_family r = fam" db] show ?thesis
    by (cases "in_fault i") (auto simp: updates_mark_used)
next
  case (Rotate x r)
  show ?thesis
  proof (cases "in_fault i \<or> fst (rotate_row (rt_id r) db) = 0")
    case True
    then have "unused tk db' \<le> unused tk db \<and> \<not> winner tk p'"
      using s Rotate unused_mark_le [of tk _ db] by (auto simp: updates_mark_used split: if_splits)
    then show ?thesis by simp
  next
    case False
    then have e: "p' = FetchUser x r" "db' = snd (rotate_row (rt_id r) db)" using s Rotate by (auto split: prod.splits)
    from ok(2) Rotate obtain r' where "r' \<in> set (rt_rows db)" "rt_id r' = rt_id r" "rt_token r' = x" by auto
    with rotate_row_wins [OF ok(1) this(1,3)] False have "unused x db = 1" "unused x db' = 0" by (simp_all add: e)
    moreover have "unused tk db' \<le> unused tk db" using unused_mark_le by (simp add: e updates_mark_used)
    ultimately show ?thesis using e(1) by (cases "x = tk") simp_all
  qed
next
  case (FetchUser x r)
  with s show ?thesis by (auto split: if_splits)
next
  case (Issue x r)
  obtain res where i: "issueRefreshToken (in_fault i) (in_now i) ex (in_gen i) (rt_user r) (rt_family r) db = (res, db')"
    and p': "p' = (case res of None \<Rightarrow> Done x (Refused 500 ''internal error'') | Some tk' \<Rightarrow> Done x (Tokens tk'))"
    using s Issue by (auto split: prod.splits option.splits)
  have x: "x \<in> set (map rt_token (rt_rows db))" using ok(2) Issue by auto
  show ?thesis
  proof (cases "res = Some tk")
    case True
    then have n: "find_token tk db = None" using issue_facts(4) [OF i ok(1)] by blast
    then have "x \<noteq> tk" using x by (auto simp: find_token_None simp del: set_map)
    with n True unused_le_1 [OF issue_facts(1) [OF i ok(1)], of tk] show ?thesis by (simp add: p')
  next
    case False
    with issue_facts(3) [OF i ok(1)] issue_facts(5) [OF i ok(1), where x = tk] show ?thesis
      using Issue by (cases res) (auto simp: p')
  qed
next
  case (Done x a)
  with s show ?thesis by auto
qed

definition refresh_inv :: "refresh_state \<Rightarrow> bool" where
  "refresh_inv s = (db_ok (rs_db s) \<and> (\<forall>p \<in> set (rs_requests s). holds (rs_db s) p)
     \<and> (\<forall>tk. winners tk (rs_requests s) + unused tk (rs_db s) \<le> 1))"

lemma refresh_step_inv: "refresh_inv s \<Longrightarrow> refresh_inv (refresh_step ex s ti)"
proof -
  assume inv: "refresh_inv s"
  obtain t i where ti: "ti = (t, i)" by force
  show ?thesis
  proof (cases "t < length (rs_requests s)")
    case True
    let ?p = "rs_requests s ! t"
    obtain p' db' where st: "handleRefresh_step ex i ?p (rs_db s) = (p', db')" by force
    have ok: "db_ok (rs_db s)" "holds (rs_db s) ?p" and pot: "\<And>tk. winners tk (rs_requests s) + unused tk (rs_db s) \<le> 1"
      and all: "\<forall>p \<in> set (rs_requests s). holds (rs_db s) p" using inv True by (simp_all add: refresh_inv_def)
    from handleRefresh_step_keeps [OF st ok] have k: "db_ok db'" "keys_kept (rs_db s) db'" "holds db' p'" by auto
    have "\<forall>p \<in> set ((rs_requests s)[t := p']). holds db' p"
      using k(3) holds_mono [OF k(2)] all set_update_subset_insert [of "rs_requests s" t p'] by blast
    moreover have "winners tk ((rs_requests s)[t := p']) + unused tk db' \<le> 1" for tk
    proof -
      note u = winners_update [OF True, of tk p']
      have none: "winners tk (rs_requests s) = 0" if "find_token tk (rs_db s) = None"
        using that all winner_holds by (fastforce simp: winners_def filter_empty_conv find_token_None simp del: set_map)
      from handleRefresh_step_claims [OF st ok, of tk] show ?thesis
      proof
        assume "of_bool (winner tk p') + unused tk db' \<le> of_bool (winner tk ?p) + unused tk (rs_db s)"
        with u pot [of tk] show ?thesis by linarith
      next
        assume "find_token tk (rs_db s) = None \<and> \<not> winner tk p' \<and> unused tk db' \<le> 1"
        with u none show ?thesis by simp
      qed
    qed
    ultimately show ?thesis using k(1) True st by (simp add: refresh_inv_def refresh_step_def ti)
  qed (use inv ti in \<open>simp add: refresh_step_def\<close>)
qed

interpretation refresh_requests: step_invariant "refresh_step ex" refresh_inv for ex
  by unfold_locales (rule refresh_step_inv)

text \<open>Requests that have not started hold nothing.\<close>

definition fresh_requests :: "refresh_pc list \<Rightarrow> bool" where
  "fresh_requests ps = list_all (\<lambda>p. case p of Fetch _ \<Rightarrow> True | Done _ (Refused _ _) \<Rightarrow> True | _ \<Rightarrow> False) ps"

lemma refresh_inv_init: "db_ok db \<Longrightarrow> fresh_requests ps \<Longrightarrow> refresh_inv \<lparr> rs_db = db, rs_requests = ps \<rparr>"
proof -
  assume db: "db_ok db" and ps: "fresh_requests ps"
  have h: "holds db p \<and> \<not> winner tk p" if "p \<in> set ps" for p tk
  proof -
    have "case p of Fetch _ \<Rightarrow> True | Done _ (Refused _ _) \<Rightarrow> True | _ \<Rightarrow> False"
      using ps that by (simp add: fresh_requests_def list_all_iff)
    then show ?thesis by (cases p) (auto split: refresh_answer.splits)
  qed
  then have "winners tk ps = 0" for tk by (simp add: winners_def filter_empty_conv)
  with h db unused_le_1 [OF db] show ?thesis by (simp add: refresh_inv_def)
qed

text \<open>
  C39. Refresh tokens are single use under concurrency: however requests interleave, whichever statements
  fail, and whatever tokens the requests present, at most one request ever gets new tokens for a given
  refresh token, and none for a token that is not live when they start.
\<close>

theorem refresh_single_use:
  assumes "db_ok db" "fresh_requests ps"
  shows "length (filter (\<lambda>p. \<exists>new. p = Done tk (Tokens new))
      (rs_requests (refresh_run ex \<lparr> rs_db = db, rs_requests = ps \<rparr> sched))) \<le> 1"
proof -
  let ?ps = "rs_requests (refresh_run ex \<lparr> rs_db = db, rs_requests = ps \<rparr> sched)"
  have "refresh_inv (refresh_run ex \<lparr> rs_db = db, rs_requests = ps \<rparr> sched)"
    unfolding refresh_run_def by (rule refresh_requests.run_inv [OF refresh_inv_init [OF assms]])
  then have "winners tk ?ps \<le> 1" unfolding refresh_inv_def by (metis add_leD1)
  moreover have "length (filter (\<lambda>p. \<exists>new. p = Done tk (Tokens new)) qs) \<le> length (filter (winner tk) qs)" for qs
    by (induction qs) auto
  ultimately show ?thesis unfolding winners_def by (meson order_trans)
qed

definition sample_refresh_db :: refresh_db where
  "sample_refresh_db = \<lparr> rt_rows = [
     \<lparr> rt_id = 0, rt_user = 7, rt_token = ''a'', rt_family = ''f'', rt_used = True, rt_expires = 100 \<rparr>,
     \<lparr> rt_id = 1, rt_user = 7, rt_token = ''b'', rt_family = ''f'', rt_used = False, rt_expires = 100 \<rparr>], rt_next = 2 \<rparr>"

lemma sample_refresh_db_ok: "db_ok sample_refresh_db"
  by (simp add: db_ok_def sample_refresh_db_def)

definition step_input :: "string \<Rightarrow> refresh_input" where
  "step_input tk = \<lparr> in_fault = False, in_now = 50, in_user_found = True, in_jwt_ok = True, in_gen = Some tk \<rparr>"

theorem refresh_single_use_witness:
  "length (filter (\<lambda>p. \<exists>new. p = Done ''b'' (Tokens new))
     (rs_requests (refresh_run 10 \<lparr> rs_db = sample_refresh_db, rs_requests = [Fetch ''b'', Fetch ''b''] \<rparr>
       (map (\<lambda>t. (t, step_input ''c'')) [0, 1, 1, 0, 1, 1, 0])))) \<le> 1"
  using refresh_single_use [OF sample_refresh_db_ok, of "[Fetch ''b'', Fetch ''b'']" "''b''" 10 "map (\<lambda>t. (t, step_input ''c'')) [0, 1, 1, 0, 1, 1, 0]"]
  by (simp add: fresh_requests_def)

section \<open>Replay kills the family\<close>

fun minting :: "string \<Rightarrow> refresh_pc \<Rightarrow> bool" where
  "minting fam (FetchUser tk r) = (rt_family r = fam)"
| "minting fam (Issue tk r) = (rt_family r = fam)"
| "minting fam _ = False"

definition in_family :: "refresh_db \<Rightarrow> string \<Rightarrow> string \<Rightarrow> bool" where
  "in_family db fam tk = (\<exists>r \<in> set (rt_rows db). rt_token r = tk \<and> rt_family r = fam)"

fun granted_from :: "refresh_db \<Rightarrow> string \<Rightarrow> refresh_pc \<Rightarrow> bool" where
  "granted_from db fam (Done tk (Tokens new)) = in_family db fam tk"
| "granted_from db fam _ = False"

definition family_dead :: "string \<Rightarrow> refresh_state \<Rightarrow> bool" where
  "family_dead fam s = (refresh_inv s \<and> (\<forall>r \<in> set (rt_rows (rs_db s)). rt_family r = fam \<longrightarrow> rt_used r)
     \<and> (\<forall>p \<in> set (rs_requests s). \<not> minting fam p \<and> \<not> granted_from (rs_db s) fam p))"

definition all_used :: "string \<Rightarrow> refresh_db \<Rightarrow> bool" where
  "all_used fam db = (\<forall>r \<in> set (rt_rows db). rt_family r = fam \<longrightarrow> rt_used r)"

lemma all_used_mark: "all_used fam db \<Longrightarrow> all_used fam (mark_used P db)"
  by (auto simp: all_used_def mark_used_def)

text \<open>A dead family stays dead under every step of every request.\<close>

lemma in_family_kept:
  assumes ok: "db_ok db'" and k: "keys_kept db db'" and tk: "tk \<in> set (map rt_token (rt_rows db))" and f: "in_family db' fam tk"
  shows "in_family db fam tk"
proof -
  from tk obtain r where r: "r \<in> set (rt_rows db)" "rt_token r = tk" by auto
  then obtain r1 where r1: "r1 \<in> set (rt_rows db')" "row_key r1 = row_key r" using k by (fastforce simp: keys_kept_def)
  from f obtain r2 where r2: "r2 \<in> set (rt_rows db')" "rt_token r2 = tk" "rt_family r2 = fam" by (auto simp: in_family_def)
  have "r1 = r2" using db_ok_unique(2) [OF ok r1(1) r2(1)] r1(2) r2(2) r(2) by (simp add: row_key_def)
  with r r1 r2(3) show ?thesis by (auto simp: in_family_def row_key_def)
qed

lemma handleRefresh_step_dead:
  assumes s: "handleRefresh_step ex i p db = (p', db')" and ok: "db_ok db" "holds db p"
    and d: "all_used fam db" "\<not> minting fam p" "\<not> granted_from db fam p"
  shows "all_used fam db' \<and> \<not> minting fam p' \<and> \<not> granted_from db' fam p'"
proof (cases p)
  case (Fetch x)
  with s d show ?thesis by (auto split: option.splits if_splits)
next
  case (ReplayInvalidate x fam')
  with s d all_used_mark [OF d(1)] show ?thesis by (auto simp: updates_mark_used)
next
  case (Rotate x r)
  from ok(2) Rotate obtain r' where r': "r' \<in> set (rt_rows db)" "rt_id r' = rt_id r" "rt_family r' = rt_family r" by auto
  show ?thesis
  proof (cases "rt_family r = fam")
    case True
    have "\<not> (rt_id q = rt_id r \<and> \<not> rt_used q)" if q: "q \<in> set (rt_rows db)" for q
    proof
      assume a: "rt_id q = rt_id r \<and> \<not> rt_used q"
      then have "q = r'" using db_ok_unique(1) [OF ok(1) q r'(1)] r'(2) by simp
      with a r' True d(1) show False by (auto simp: all_used_def)
    qed
    then have "fst (rotate_row (rt_id r) db) = 0" by (simp add: rotate_row_def filter_empty_conv)
    with s Rotate d(1) all_used_mark [OF d(1)] show ?thesis by (auto simp: updates_mark_used split: if_splits)
  next
    case False
    with s Rotate d all_used_mark [OF d(1)] show ?thesis by (auto simp: updates_mark_used split: if_splits)
  qed
next
  case (FetchUser x r)
  with s d show ?thesis by (auto split: if_splits)
next
  case (Issue x r)
  obtain res where i: "issueRefreshToken (in_fault i) (in_now i) ex (in_gen i) (rt_user r) (rt_family r) db = (res, db')"
    and p': "p' = (case res of None \<Rightarrow> Done x (Refused 500 ''internal error'') | Some tk' \<Rightarrow> Done x (Tokens tk'))"
    using s Issue by (auto split: prod.splits option.splits)
  have a: "all_used fam db'" using i d(1,2) Issue by (auto simp: issueRefreshToken_def all_used_def split: option.splits if_splits)
  have k: "keys_kept db db'" "db_ok db'" using issue_facts(1,2) [OF i ok(1)] by (simp_all add: keys_kept_def del: set_map)
  have x: "x \<in> set (map rt_token (rt_rows db))" "in_family db (rt_family r) x" using ok(2) Issue by (auto simp: in_family_def)
  have "\<not> in_family db' fam x"
  proof
    assume "in_family db' fam x"
    then have "in_family db fam x" using in_family_kept [OF k(2,1) x(1)] by blast
    with x(2) obtain a b where "a \<in> set (rt_rows db)" "b \<in> set (rt_rows db)" "rt_token a = rt_token b" "rt_family a = fam" "rt_family b = rt_family r"
      unfolding in_family_def by metis
    moreover from this(1-3) have "a = b" by (rule db_ok_unique(2) [OF ok(1)])
    ultimately show False using d(2) Issue by simp
  qed
  with a show ?thesis by (auto simp: p' split: option.split)
next
  case (Done x a)
  with s d show ?thesis by auto
qed

lemma family_dead_step: "family_dead fam s \<Longrightarrow> family_dead fam (refresh_step ex s ti)"
proof -
  assume d: "family_dead fam s"
  then have inv: "refresh_inv s" and au: "all_used fam (rs_db s)"
    and ps: "\<And>p. p \<in> set (rs_requests s) \<Longrightarrow> \<not> minting fam p \<and> \<not> granted_from (rs_db s) fam p \<and> holds (rs_db s) p"
    by (simp_all add: family_dead_def all_used_def refresh_inv_def)
  obtain t i where ti: "ti = (t, i)" by force
  show ?thesis
  proof (cases "t < length (rs_requests s)")
    case True
    let ?p = "rs_requests s ! t"
    have p: "?p \<in> set (rs_requests s)" using True by simp
    obtain p' db' where st: "handleRefresh_step ex i ?p (rs_db s) = (p', db')" by force
    have ok: "db_ok (rs_db s)" using inv by (simp add: refresh_inv_def)
    from handleRefresh_step_keeps [OF st ok] ps [OF p] have k: "db_ok db'" "keys_kept (rs_db s) db'" by auto
    have new: "all_used fam db'" "\<not> minting fam p'" "\<not> granted_from db' fam p'"
      using handleRefresh_step_dead [OF st ok _ au] ps [OF p] by auto
    have "\<not> granted_from db' fam q" if q: "q \<in> set (rs_requests s)" for q
    proof
      assume "granted_from db' fam q"
      then obtain tk n where e: "q = Done tk (Tokens n)" "in_family db' fam tk" by (cases "(db', fam, q)" rule: granted_from.cases) auto
      then have "tk \<in> set (map rt_token (rt_rows (rs_db s)))" using ps [OF q] by auto
      then have "in_family (rs_db s) fam tk" using in_family_kept [OF k _ e(2)] by blast
      with ps [OF q] e show False by simp
    qed
    with new ps set_update_subset_insert [of "rs_requests s" t p']
    have "\<forall>q \<in> set ((rs_requests s)[t := p']). \<not> minting fam q \<and> \<not> granted_from db' fam q" by blast
    moreover have "refresh_inv (refresh_step ex s ti)" using refresh_step_inv [OF inv] .
    ultimately show ?thesis using new(1) True st by (simp add: family_dead_def all_used_def refresh_step_def ti)
  qed (use d ti in \<open>simp add: refresh_step_def\<close>)
qed

interpretation dead_family: step_invariant "refresh_step ex" "family_dead fam" for ex fam
  by unfold_locales (rule family_dead_step)

lemma invalidated_dead:
  assumes inv: "refresh_inv s" and ps: "\<forall>p \<in> set (rs_requests s). \<not> minting fam p \<and> \<not> granted_from (rs_db s) fam p"
    and t: "t < length (rs_requests s)" "rs_requests s ! t = ReplayInvalidate tk fam" "\<not> in_fault i"
  shows "family_dead fam (refresh_step ex s (t, i))"
proof -
  let ?db = "mark_used (\<lambda>r. rt_family r = fam) (rs_db s)"
  have st: "refresh_step ex s (t, i) = \<lparr> rs_db = ?db, rs_requests = (rs_requests s)[t := Done tk (Refused 401 ''refresh token already used'')] \<rparr>"
    using t by (simp add: refresh_step_def updates_mark_used)
  have "all_used fam ?db" unfolding all_used_def mark_used_def by (simp add: ball_Un)
  moreover have "granted_from ?db fam q = granted_from (rs_db s) fam q" for q
  proof -
    have "in_family ?db fam x = in_family (rs_db s) fam x" for x
    proof -
      have "(\<exists>k \<in> set (map row_key (rt_rows ?db)). fst (snd k) = x \<and> fst (snd (snd k)) = fam)
          = (\<exists>k \<in> set (map row_key (rt_rows (rs_db s))). fst (snd k) = x \<and> fst (snd (snd k)) = fam)"
        unfolding mark_used_keys ..
      then show ?thesis by (simp add: in_family_def row_key_def)
    qed
    then show ?thesis by (cases "(?db, fam, q)" rule: granted_from.cases) auto
  qed
  moreover have "\<forall>q \<in> set ((rs_requests s)[t := Done tk (Refused 401 ''refresh token already used'')]). \<not> minting fam q \<and> \<not> granted_from (rs_db s) fam q"
    by (rule ball_list_update [OF ps]) simp
  moreover have "refresh_inv (refresh_step ex s (t, i))" using refresh_step_inv [OF inv] .
  ultimately show ?thesis by (simp add: st family_dead_def all_used_def)
qed

text \<open>
  Replay detection: when a used refresh token is presented again and its request completes, every
  refresh token of that login is dead from then on. Whatever requests follow, in any interleaving and
  with any failures, no token of the family ever yields new tokens again, and the family has no live
  token. (No other request may be between its rotation and its insert at that moment.)
\<close>

lemma refresh_replay_revokes_family:
  assumes db: "db_ok db" and ps: "fresh_requests ps" and t: "t < length ps" "ps ! t = Fetch tk"
    and row: "find_token tk db = Some row" "rt_used row" and io: "\<not> in_fault i1" "\<not> in_fault i2"
  shows "family_dead (rt_family row) (refresh_run ex \<lparr> rs_db = db, rs_requests = ps \<rparr> ((t, i1) # (t, i2) # sched))"
proof -
  let ?s = "\<lparr> rs_db = db, rs_requests = ps[t := ReplayInvalidate tk (rt_family row)] \<rparr>"
  have s1: "refresh_step ex \<lparr> rs_db = db, rs_requests = ps \<rparr> (t, i1) = ?s"
    using t row io(1) by (simp add: refresh_step_def)
  have inv: "refresh_inv ?s" using refresh_step_inv [OF refresh_inv_init [OF db ps], of ex "(t, i1)"] s1 by simp
  have quiet: "\<not> minting fam q \<and> \<not> granted_from db fam q" if "q \<in> set ps" for q fam
  proof -
    have "case q of Fetch _ \<Rightarrow> True | Done _ (Refused _ _) \<Rightarrow> True | _ \<Rightarrow> False"
      using ps that by (simp add: fresh_requests_def list_all_iff)
    then show ?thesis by (cases q) (auto split: refresh_answer.splits)
  qed
  then have "\<forall>q \<in> set ps. \<not> minting (rt_family row) q \<and> \<not> granted_from db (rt_family row) q" by blast
  then have "\<forall>q \<in> set (ps[t := ReplayInvalidate tk (rt_family row)]). \<not> minting (rt_family row) q \<and> \<not> granted_from db (rt_family row) q"
    by (rule ball_list_update) simp
  then have "family_dead (rt_family row) (refresh_step ex ?s (t, i2))"
    using invalidated_dead [OF inv, where t = t and tk = tk and i = i2] t io(2) by simp
  then show ?thesis unfolding refresh_run_def by (simp add: s1 dead_family.run_inv)
qed

theorem refresh_replay_revokes_family_witness:
  "family_dead ''f'' (refresh_run 10 \<lparr> rs_db = sample_refresh_db, rs_requests = [Fetch ''a'', Fetch ''b''] \<rparr>
     ([(0, step_input ''c''), (0, step_input ''c'')] @ map (\<lambda>t. (t, step_input ''c'')) [1, 1, 1]))"
  using refresh_replay_revokes_family [OF sample_refresh_db_ok, where ps = "[Fetch ''a'', Fetch ''b'']" and t = 0 and tk = "''a''"
      and row = "\<lparr> rt_id = 0, rt_user = 7, rt_token = ''a'', rt_family = ''f'', rt_used = True, rt_expires = 100 \<rparr>"
      and ?i1.0 = "step_input ''c''" and ?i2.0 = "step_input ''c''" and ex = 10 and sched = "map (\<lambda>t. (t, step_input ''c'')) [1, 1, 1]"]
  by (simp add: fresh_requests_def find_token_def sample_refresh_db_def step_input_def)

text \<open>The proviso is needed. A request that has rotated its token inserts the successor after the family
  was invalidated, and that successor is live.\<close>

lemma refresh_race_leaves_live_token:
  "let s = refresh_run 100 \<lparr> rs_db = sample_refresh_db, rs_requests = [Fetch ''b'', Fetch ''b''] \<rparr>
       (map (\<lambda>t. (t, step_input ''c'')) [0, 1, 0, 1, 1, 0, 0])
   in rs_requests s = [Done ''b'' (Tokens ''c''), Done ''b'' (Refused 401 ''refresh token already used'')]
      \<and> (\<exists>r \<in> set (rt_rows (rs_db s)). rt_token r = ''c'' \<and> rt_family r = ''f'' \<and> \<not> rt_used r)"
  by (simp add: refresh_run_def refresh_step_def sample_refresh_db_def step_input_def find_token_def rotate_row_def
      invalidateFamily_def issueRefreshToken_def Let_def)

end
