(* ===== verification/Auth_Users.thy ===== *)
theory Auth_Users
  imports Go_Time "HOL-Library.Char_ord"
begin

text \<open>
  Accounts and organizations of \<^verbatim>\<open>components/auth\<close>: registration and passwordless account creation
  (\<^verbatim>\<open>credentials.go\<close>, \<^verbatim>\<open>oauth_handlers.go\<close>), organizations (\<^verbatim>\<open>orgs.go\<close>, \<^verbatim>\<open>org_http.go\<close>), invites and membership
  (\<^verbatim>\<open>membership.go\<close>), e-mail verification (\<^verbatim>\<open>emailverify.go\<close>) and the backfill of personal organizations
  (\<^verbatim>\<open>auth.go\<close>).

  Tables are lists of rows with the unique columns of the schema, identifiers come from counters that
  never go back (\<^verbatim>\<open>AUTOINCREMENT\<close>), and \<open>f n\<close> says that the \<open>n\<close>-th statement of an operation fails.
\<close>

section \<open>Tables\<close>

record user_row =
  u_id :: nat
  u_email :: string
  u_hash :: string
  u_role :: string
  u_org :: nat
  u_google :: string
  u_avatar :: string
  u_phone :: string
  u_verified :: bool
  u_vtoken :: string
  u_vexpires :: int

record Organization =
  o_id :: nat
  o_name :: string
  o_slug :: string
  o_owner :: nat

record OrgInvite =
  i_id :: nat
  i_org :: nat
  i_email :: string
  i_role :: string
  i_token :: string
  i_accepted :: "int option"
  i_expires :: int

record OrgMember =
  m_org :: nat
  m_user :: nat
  m_role :: string
  m_joined :: int

record directory =
  users :: "user_row list"
  next_user :: nat
  orgs :: "Organization list"
  next_org :: nat
  invites :: "OrgInvite list"
  next_invite :: nat
  members :: "OrgMember list"

type_synonym faults = "nat \<Rightarrow> bool"

section \<open>Organizations\<close>

definition GetOrgByID :: "bool \<Rightarrow> nat \<Rightarrow> directory \<Rightarrow> (unit, Organization option) res" where
  "GetOrgByID fault oid d = (if fault then Inl () else Inr (find (\<lambda>x. o_id x = oid) (orgs d)))"

text \<open>\<open>Inl True\<close> is the unique-slug violation, \<open>Inl False\<close> any other failure.\<close>

definition CreateOrg :: "faults \<Rightarrow> string \<Rightarrow> string \<Rightarrow> nat \<Rightarrow> directory \<Rightarrow> (bool, Organization option) res \<times> directory" where
  "CreateOrg f name slug owner d =
     (if f 0 then (Inl False, d)
      else if slug \<in> set (map o_slug (orgs d)) then (Inl True, d)
      else let d' = d\<lparr> orgs := orgs d @ [\<lparr> o_id = next_org d, o_name = name, o_slug = slug, o_owner = owner \<rparr>], next_org := Suc (next_org d) \<rparr>
        in (case GetOrgByID (f 1) (next_org d) d' of Inl _ \<Rightarrow> (Inl False, d') | Inr x \<Rightarrow> (Inr x, d')))"

definition ListOrgsByOwner :: "bool \<Rightarrow> nat \<Rightarrow> directory \<Rightarrow> (unit, Organization list) res" where
  "ListOrgsByOwner fault owner d = (if fault then Inl () else Inr (filter (\<lambda>x. o_owner x = owner) (orgs d)))"

definition UpdateOrg :: "faults \<Rightarrow> nat \<Rightarrow> string \<Rightarrow> string \<Rightarrow> directory \<Rightarrow> (bool, Organization option) res \<times> directory" where
  "UpdateOrg f oid name slug d =
     (if f 0 then (Inl False, d)
      else if oid \<notin> set (map o_id (orgs d)) then (Inl False, d)
      else if \<exists>x \<in> set (orgs d). o_id x \<noteq> oid \<and> o_slug x = slug then (Inl True, d)
      else let d' = d\<lparr> orgs := map (\<lambda>x. if o_id x = oid then x\<lparr> o_name := name, o_slug := slug \<rparr> else x) (orgs d) \<rparr>
        in (case GetOrgByID (f 1) oid d' of Inl _ \<Rightarrow> (Inl False, d') | Inr x \<Rightarrow> (Inr x, d')))"

definition DeleteOrg :: "bool \<Rightarrow> nat \<Rightarrow> directory \<Rightarrow> bool \<times> directory" where
  "DeleteOrg fault oid d = (if fault then (False, d) else (True, d\<lparr> orgs := filter (\<lambda>x. o_id x \<noteq> oid) (orgs d) \<rparr>))"

section \<open>Accounts\<close>

definition new_user :: "nat \<Rightarrow> string \<Rightarrow> string \<Rightarrow> string \<Rightarrow> user_row" where
  "new_user uid email hash role = \<lparr> u_id = uid, u_email = email, u_hash = hash, u_role = role, u_org = 0, u_google = [], u_avatar = [],
     u_phone = [], u_verified = False, u_vtoken = [], u_vexpires = 0 \<rparr>"

definition find_user :: "(user_row \<Rightarrow> bool) \<Rightarrow> directory \<Rightarrow> user_row option" where
  "find_user P d = find P (users d)"

definition update_user :: "nat \<Rightarrow> (user_row \<Rightarrow> user_row) \<Rightarrow> directory \<Rightarrow> directory" where
  "update_user uid g d = d\<lparr> users := map (\<lambda>u. if u_id u = uid then g u else u) (users d) \<rparr>"

text \<open>\<^verbatim>\<open>INSERT INTO users\<close>: the e-mail column is unique.\<close>

definition insert_user_row :: "bool \<Rightarrow> (nat \<Rightarrow> user_row) \<Rightarrow> directory \<Rightarrow> (bool, nat) res \<times> directory" where
  "insert_user_row fault mk d =
     (if fault then (Inl False, d)
      else if u_email (mk (next_user d)) \<in> set (map u_email (users d)) then (Inl True, d)
      else (Inr (next_user d), d\<lparr> users := users d @ [mk (next_user d)], next_user := Suc (next_user d) \<rparr>))"

text \<open>The personal organization of a new account: failures leave the account without one.\<close>

definition personal_org :: "faults \<Rightarrow> string \<Rightarrow> nat \<Rightarrow> directory \<Rightarrow> nat \<times> directory" where
  "personal_org f email uid d = (case CreateOrg f email email uid d of
     (Inr (Some x), d') \<Rightarrow> (o_id x, if f 2 then d' else update_user uid (\<lambda>u. u\<lparr> u_org := o_id x \<rparr>) d')
   | (_, d') \<Rightarrow> (0, d'))"

text \<open>\<open>insertUser\<close>: statement 0 counts the users, 1 inserts, 2 to 4 make the organization. A failed count
  is logged and leaves the count at zero.\<close>

definition insertUser :: "faults \<Rightarrow> string \<Rightarrow> string \<Rightarrow> directory \<Rightarrow> (bool, nat \<times> string \<times> nat) res \<times> directory" where
  "insertUser f email hash d =
     (let count = (if f 0 then 0 else length (users d));
          role = (if count = 0 then ''admin'' else ''user'')
      in case insert_user_row (f 1) (\<lambda>uid. new_user uid email hash role) d of
           (Inl e, d') \<Rightarrow> (Inl e, d')
         | (Inr uid, d') \<Rightarrow> (case personal_org (\<lambda>n. f (n + 2)) email uid d' of (oid, d'') \<Rightarrow> (Inr (uid, role, oid), d'')))"

definition findOrCreateEmailUser :: "faults \<Rightarrow> string \<Rightarrow> string \<Rightarrow> directory \<Rightarrow> (unit, nat \<times> nat) res \<times> directory" where
  "findOrCreateEmailUser f hash email d =
     (case (if f 0 then None else find_user (\<lambda>u. u_email u = email) d) of
        Some u \<Rightarrow> (Inr (u_id u, u_org u), d)
      | None \<Rightarrow> (case insert_user_row (f 1) (\<lambda>uid. new_user uid email hash ''user'') d of
            (Inl _, d') \<Rightarrow> (Inl (), d')
          | (Inr uid, d') \<Rightarrow> (case personal_org (\<lambda>n. f (n + 2)) email uid d' of (oid, d'') \<Rightarrow> (Inr (uid, oid), d''))))"

definition phone_email :: "string \<Rightarrow> string" where
  "phone_email phone = ''phone-'' @ phone @ ''@bigbase.local''"

definition findOrCreatePhoneUser :: "faults \<Rightarrow> string \<Rightarrow> string \<Rightarrow> directory \<Rightarrow> (unit, nat \<times> nat) res \<times> directory" where
  "findOrCreatePhoneUser f hash phone d =
     (case (if f 0 then None else find_user (\<lambda>u. u_phone u = phone) d) of
        Some u \<Rightarrow> (Inr (u_id u, u_org u), d)
      | None \<Rightarrow> (case insert_user_row (f 1) (\<lambda>uid. (new_user uid (phone_email phone) hash ''user'')\<lparr> u_phone := phone \<rparr>) d of
            (Inl _, d') \<Rightarrow> (Inl (), d')
          | (Inr uid, d') \<Rightarrow> (case personal_org (\<lambda>n. f (n + 2)) (phone_email phone) uid d' of (oid, d'') \<Rightarrow> (Inr (uid, oid), d''))))"

record GoogleUser =
  g_id :: string
  g_email :: string
  g_avatar :: string

definition findOrCreateGoogleUser :: "faults \<Rightarrow> string \<Rightarrow> GoogleUser \<Rightarrow> directory \<Rightarrow> (unit, nat \<times> nat) res \<times> directory" where
  "findOrCreateGoogleUser f hash gu d =
     (case (if g_id gu = [] \<or> f 0 then None else find_user (\<lambda>u. u_google u = g_id gu) d) of
        Some u \<Rightarrow> (Inr (u_id u, u_org u), d)
      | None \<Rightarrow> (case (if g_email gu = [] \<or> f 1 then None else find_user (\<lambda>u. u_email u = g_email gu) d) of
            Some u \<Rightarrow> (Inr (u_id u, u_org u),
              if (u_google u = [] \<or> u_google u \<noteq> g_id gu) \<and> \<not> f 2
              then update_user (u_id u) (\<lambda>x. x\<lparr> u_google := g_id gu, u_avatar := g_avatar gu \<rparr>) d else d)
          | None \<Rightarrow> (case insert_user_row (f 3) (\<lambda>uid. (new_user uid (g_email gu) hash ''user'')\<lparr> u_google := g_id gu, u_avatar := g_avatar gu \<rparr>) d of
                (Inl _, d') \<Rightarrow> (Inl (), d')
              | (Inr uid, d') \<Rightarrow> (case personal_org (\<lambda>n. f (n + 4)) (g_email gu) uid d' of (oid, d'') \<Rightarrow> (Inr (uid, oid), d'')))))"

text \<open>Deleting an account: \<open>handleUserByID\<close> after its permission check.\<close>

definition handleUserByID :: "bool \<Rightarrow> nat \<Rightarrow> bool \<Rightarrow> nat \<Rightarrow> directory \<Rightarrow> nat \<times> directory" where
  "handleUserByID fault requester is_admin uid d =
     (if \<not> is_admin \<and> requester \<noteq> uid then (403, d)
      else if fault then (500, d)
      else if uid \<notin> set (map u_id (users d)) then (404, d)
      else (200, d\<lparr> users := filter (\<lambda>u. u_id u \<noteq> uid) (users d) \<rparr>))"

text \<open>\<open>BackfillDefaultOrgs\<close>: a personal organization for every account that has none.\<close>

fun backfill_one :: "(nat \<Rightarrow> faults) \<Rightarrow> user_row list \<Rightarrow> directory \<Rightarrow> directory" where
  "backfill_one f [] d = d"
| "backfill_one f (u # us) d =
     (let (r, d1) = CreateOrg (\<lambda>n. n = 0 \<and> f (u_id u) 0) (u_email u) (u_email u) (u_id u) d in
      backfill_one f us (case r of Inl _ \<Rightarrow> d1 | Inr _ \<Rightarrow> if f (u_id u) 1 then d1 else update_user (u_id u) (\<lambda>x. x\<lparr> u_org := next_org d \<rparr>) d1))"

definition BackfillDefaultOrgs :: "(nat \<Rightarrow> faults) \<Rightarrow> bool \<Rightarrow> directory \<Rightarrow> directory" where
  "BackfillDefaultOrgs f fault d = (if fault then d else backfill_one f (filter (\<lambda>u. u_org u = 0) (users d)) d)"

section \<open>E-mail verification\<close>

definition storeVerifyToken :: "bool \<Rightarrow> int \<Rightarrow> nat \<Rightarrow> string \<Rightarrow> directory \<Rightarrow> bool \<times> directory" where
  "storeVerifyToken fault now uid tok d = (if fault then (False, d)
     else (True, update_user uid (\<lambda>u. u\<lparr> u_vtoken := tok, u_vexpires := rfc3339 (now + 86400 * Second) \<rparr>) d))"

definition isEmailVerified :: "bool \<Rightarrow> bool \<Rightarrow> nat \<Rightarrow> directory \<Rightarrow> (unit, bool) res" where
  "isEmailVerified sender fault uid d = (if \<not> sender then Inr True
     else if fault then Inl ()
     else (case find_user (\<lambda>u. u_id u = uid) d of None \<Rightarrow> Inl () | Some u \<Rightarrow> Inr (u_verified u)))"

definition handleVerifyEmail :: "faults \<Rightarrow> int \<Rightarrow> bool \<Rightarrow> string \<Rightarrow> directory \<Rightarrow> nat \<times> directory" where
  "handleVerifyEmail f now get tok d =
     (if \<not> get then (405, d)
      else if tok = [] then (400, d)
      else (case (if f 0 then None else find_user (\<lambda>u. u_vtoken u = tok) d) of
          None \<Rightarrow> (400, d)
        | Some u \<Rightarrow>
            if now > u_vexpires u then (400, d)
            else if f 1 then (500, d)
            else (200, update_user (u_id u) (\<lambda>x. x\<lparr> u_verified := True, u_vtoken := [], u_vexpires := 0 \<rparr>) d)))"

section \<open>Invites\<close>

definition validMemberRoles :: "string list" where
  "validMemberRoles = [''admin'', ''member'']"

definition CreateInvite :: "bool \<Rightarrow> string option \<Rightarrow> int \<Rightarrow> nat \<Rightarrow> string \<Rightarrow> string \<Rightarrow> directory \<Rightarrow> (bool, OrgInvite) res \<times> directory" where
  "CreateInvite fault gen now oid email role d = (case gen of
     None \<Rightarrow> (Inl False, d)
   | Some tok \<Rightarrow>
       if fault then (Inl False, d)
       else if tok \<in> set (map i_token (invites d)) \<or> (\<exists>i \<in> set (invites d). i_org i = oid \<and> i_email i = email \<and> i_accepted i = None)
       then (Inl True, d)
       else let i = \<lparr> i_id = next_invite d, i_org = oid, i_email = email, i_role = role, i_token = tok, i_accepted = None,
                      i_expires = rfc3339 (now + 168 * Hour) \<rparr>
         in (Inr i, d\<lparr> invites := invites d @ [i], next_invite := Suc (next_invite d) \<rparr>))"

definition GetInviteByToken :: "bool \<Rightarrow> nat \<Rightarrow> string \<Rightarrow> directory \<Rightarrow> (unit, OrgInvite option) res" where
  "GetInviteByToken fault oid tok d = (if fault then Inl ()
     else Inr (find (\<lambda>i. i_org i = oid \<and> i_token i = tok \<and> i_accepted i = None) (invites d)))"

definition AcceptInvite :: "faults \<Rightarrow> int \<Rightarrow> OrgInvite \<Rightarrow> nat \<Rightarrow> directory \<Rightarrow> bool \<times> directory" where
  "AcceptInvite f now invite uid d =
     (if f 0 then (False, d)
      else let d1 = d\<lparr> invites := map (\<lambda>i. if i_id i = i_id invite then i\<lparr> i_accepted := Some (rfc3339 now) \<rparr> else i) (invites d) \<rparr> in
        if f 1 then (False, d1)
        else if \<exists>m \<in> set (members d1). m_org m = i_org invite \<and> m_user m = uid then (True, d1)
        else (True, d1\<lparr> members := members d1 @ [\<lparr> m_org = i_org invite, m_user = uid, m_role = i_role invite, m_joined = rfc3339 now \<rparr>] \<rparr>))"

definition ListOrgMembers :: "bool \<Rightarrow> nat \<Rightarrow> directory \<Rightarrow> (unit, OrgMember list) res" where
  "ListOrgMembers fault oid d = (if fault then Inl ()
     else Inr (sort_key m_joined (filter (\<lambda>m. m_org m = oid \<and> m_user m \<in> set (map u_id (users d))) (members d))))"

definition lookupOwnedOrg :: "bool \<Rightarrow> nat \<Rightarrow> nat \<Rightarrow> directory \<Rightarrow> (nat, Organization) res" where
  "lookupOwnedOrg fault oid uid d = (case GetOrgByID fault oid d of
     Inl _ \<Rightarrow> Inl 500
   | Inr None \<Rightarrow> Inl 404
   | Inr (Some x) \<Rightarrow> if o_owner x \<noteq> uid then Inl 403 else Inr x)"

definition isValidSlug :: "string \<Rightarrow> bool" where
  "isValidSlug s = (list_all (\<lambda>c. (CHR ''a'' \<le> c \<and> c \<le> CHR ''z'') \<or> (CHR ''0'' \<le> c \<and> c \<le> CHR ''9'') \<or> c = CHR ''-'') s \<and> s \<noteq> [])"

section \<open>Handlers\<close>

text \<open>\<open>scanned\<close> is the number that \<^verbatim>\<open>fmt.Sscanf\<close> reads from the path; \<open>body\<close> is \<open>None\<close> when it is not JSON. The
  caller of an organization API key has no user in its context and acts as user 0.\<close>

definition parseOrgID :: "int option \<Rightarrow> nat option" where
  "parseOrgID scanned = (case scanned of None \<Rightarrow> None | Some n \<Rightarrow> if n \<le> 0 then None else Some (nat n))"

definition handleCreateOrg :: "faults \<Rightarrow> nat \<Rightarrow> (string \<times> string) option \<Rightarrow> directory \<Rightarrow> nat \<times> directory" where
  "handleCreateOrg f uid body d = (case body of
     None \<Rightarrow> (400, d)
   | Some (name, slug) \<Rightarrow>
       if name = [] \<or> slug = [] then (400, d)
       else if \<not> isValidSlug slug then (400, d)
       else (case CreateOrg f name slug uid d of
           (Inl True, d') \<Rightarrow> (409, d') | (Inl False, d') \<Rightarrow> (500, d') | (Inr _, d') \<Rightarrow> (201, d')))"

definition with_owned_org :: "bool \<Rightarrow> nat \<Rightarrow> int option \<Rightarrow> (nat \<Rightarrow> directory \<Rightarrow> nat \<times> directory) \<Rightarrow> directory \<Rightarrow> nat \<times> directory" where
  "with_owned_org fault uid scanned k d = (case parseOrgID scanned of
     None \<Rightarrow> (400, d)
   | Some oid \<Rightarrow> (case lookupOwnedOrg fault oid uid d of Inl code \<Rightarrow> (code, d) | Inr _ \<Rightarrow> k oid d))"

definition handleUpdateOrg :: "faults \<Rightarrow> nat \<Rightarrow> int option \<Rightarrow> (string \<times> string) option \<Rightarrow> directory \<Rightarrow> nat \<times> directory" where
  "handleUpdateOrg f uid scanned body = with_owned_org (f 0) uid scanned (\<lambda>oid d. case body of
     None \<Rightarrow> (400, d)
   | Some (name, slug) \<Rightarrow>
       if name = [] \<and> slug = [] then (400, d)
       else if slug \<noteq> [] \<and> \<not> isValidSlug slug then (400, d)
       else (case UpdateOrg (\<lambda>n. f (Suc n)) oid name slug d of
           (Inl True, d') \<Rightarrow> (409, d') | (Inl False, d') \<Rightarrow> (500, d') | (Inr _, d') \<Rightarrow> (200, d')))"

definition handleDeleteOrg :: "faults \<Rightarrow> nat \<Rightarrow> int option \<Rightarrow> directory \<Rightarrow> nat \<times> directory" where
  "handleDeleteOrg f uid scanned = with_owned_org (f 0) uid scanned (\<lambda>oid d.
     case DeleteOrg (f 1) oid d of (ok, d') \<Rightarrow> (if ok then 200 else 500, d'))"

definition handleCreateInvite :: "faults \<Rightarrow> string option \<Rightarrow> int \<Rightarrow> nat \<Rightarrow> int option \<Rightarrow> (string \<times> string) option \<Rightarrow> directory \<Rightarrow> nat \<times> directory" where
  "handleCreateInvite f gen now uid scanned body = with_owned_org (f 0) uid scanned (\<lambda>oid d. case body of
     None \<Rightarrow> (400, d)
   | Some (email, role) \<Rightarrow>
       if email = [] \<or> \<not> Contains email ''@'' then (400, d)
       else if role \<notin> set validMemberRoles then (400, d)
       else (case CreateInvite (f 1) gen now oid (ToLower email) role d of
           (Inl True, d') \<Rightarrow> (409, d') | (Inl False, d') \<Rightarrow> (500, d') | (Inr _, d') \<Rightarrow> (201, d')))"

definition handleAcceptInvite :: "faults \<Rightarrow> int \<Rightarrow> nat \<Rightarrow> int option \<Rightarrow> string \<Rightarrow> directory \<Rightarrow> nat \<times> directory" where
  "handleAcceptInvite f now uid scanned tok d = (case parseOrgID scanned of
     None \<Rightarrow> (400, d)
   | Some oid \<Rightarrow> (case GetInviteByToken (f 0) oid tok d of
         Inl _ \<Rightarrow> (500, d)
       | Inr None \<Rightarrow> (404, d)
       | Inr (Some invite) \<Rightarrow> (case AcceptInvite (\<lambda>n. f (Suc n)) now invite uid d of (ok, d') \<Rightarrow> (if ok then 200 else 500, d'))))"

section \<open>The directory stays well formed\<close>

datatype directory_op =
    Register faults string string
  | EmailLogin faults string string
  | PhoneLogin faults string string
  | GoogleLogin faults string GoogleUser
  | NewOrg faults nat "(string \<times> string) option"
  | EditOrg faults nat "int option" "(string \<times> string) option"
  | DropOrg faults nat "int option"
  | DropUser bool nat bool nat
  | Backfill "nat \<Rightarrow> faults" bool
  | StoreToken bool int nat string
  | VerifyEmail faults int bool string
  | Invite faults "string option" int nat "int option" "(string \<times> string) option"
  | Accept faults int nat "int option" string

fun directory_step :: "directory \<Rightarrow> directory_op \<Rightarrow> directory" where
  "directory_step d (Register f email hash) = snd (insertUser f email hash d)"
| "directory_step d (EmailLogin f hash email) = snd (findOrCreateEmailUser f hash email d)"
| "directory_step d (PhoneLogin f hash phone) = snd (findOrCreatePhoneUser f hash phone d)"
| "directory_step d (GoogleLogin f hash gu) = snd (findOrCreateGoogleUser f hash gu d)"
| "directory_step d (NewOrg f uid body) = snd (handleCreateOrg f uid body d)"
| "directory_step d (EditOrg f uid scanned body) = snd (handleUpdateOrg f uid scanned body d)"
| "directory_step d (DropOrg f uid scanned) = snd (handleDeleteOrg f uid scanned d)"
| "directory_step d (DropUser fault requester is_admin uid) = snd (handleUserByID fault requester is_admin uid d)"
| "directory_step d (Backfill f fault) = BackfillDefaultOrgs f fault d"
| "directory_step d (StoreToken fault now uid tok) = snd (storeVerifyToken fault now uid tok d)"
| "directory_step d (VerifyEmail f now get tok) = snd (handleVerifyEmail f now get tok d)"
| "directory_step d (Invite f gen now uid scanned body) = snd (handleCreateInvite f gen now uid scanned body d)"
| "directory_step d (Accept f now uid scanned tok) = snd (handleAcceptInvite f now uid scanned tok d)"

definition users_ok :: "directory \<Rightarrow> bool" where
  "users_ok d = (distinct (map u_id (users d)) \<and> distinct (map u_email (users d))
     \<and> (\<forall>u \<in> set (users d). u_id u < next_user d \<and> u_role u \<in> {''admin'', ''user''} \<and> u_org u < next_org d))"

definition orgs_ok :: "directory \<Rightarrow> bool" where
  "orgs_ok d = (distinct (map o_id (orgs d)) \<and> distinct (map o_slug (orgs d)) \<and> 0 < next_org d
     \<and> (\<forall>x \<in> set (orgs d). 0 < o_id x \<and> o_id x < next_org d))"

text \<open>The default organization of an account, while it exists, is the account's own.\<close>

definition tenancy_ok :: "directory \<Rightarrow> bool" where
  "tenancy_ok d = (\<forall>u \<in> set (users d). \<forall>x \<in> set (orgs d). u_org u = o_id x \<longrightarrow> o_owner x = u_id u)"

definition members_ok :: "directory \<Rightarrow> bool" where
  "members_ok d = (distinct (map (\<lambda>m. (m_org m, m_user m)) (members d))
     \<and> (\<forall>m \<in> set (members d). m_role m \<in> set validMemberRoles) \<and> (\<forall>i \<in> set (invites d). i_role i \<in> set validMemberRoles))"

definition directory_ok :: "directory \<Rightarrow> bool" where
  "directory_ok d = (users_ok d \<and> orgs_ok d \<and> tenancy_ok d \<and> members_ok d)"

lemmas directory_defs = users_ok_def orgs_ok_def tenancy_ok_def members_ok_def directory_ok_def

text \<open>What the invariant looks at.\<close>

definition user_key :: "user_row \<Rightarrow> nat \<times> string \<times> string \<times> nat" where
  "user_key u = (u_id u, u_email u, u_role u, u_org u)"

lemma directory_ok_cong:
  assumes "map user_key (users d') = map user_key (users d)" "next_user d' = next_user d" "orgs d' = orgs d" "next_org d' = next_org d"
    "members d' = members d" "invites d' = invites d"
  shows "directory_ok d' = directory_ok d"
proof -
  have m: "map u_id (users d') = map u_id (users d)" "map u_email (users d') = map u_email (users d)"
    using arg_cong [OF assms(1), of "map fst"] arg_cong [OF assms(1), of "map (fst \<circ> snd)"] by (simp_all add: user_key_def comp_def)
  have s: "user_key ` set (users d') = user_key ` set (users d)" using assms(1) by (metis list.set_map)
  have q: "(\<forall>u \<in> set (users e). P (u_id u) (u_role u) (u_org u)) = (\<forall>k \<in> user_key ` set (users e). P (fst k) (fst (snd (snd k))) (snd (snd (snd k))))" for e P
    by (simp add: user_key_def)
  show ?thesis
    unfolding directory_defs m assms(2-) q [of _ "\<lambda>i r ok. i < next_user d \<and> r \<in> {''admin'', ''user''} \<and> ok < next_org d"]
      q [of _ "\<lambda>i r ok. \<forall>x \<in> set (orgs d). ok = o_id x \<longrightarrow> o_owner x = i"] s ..
qed

lemma update_user_ok:
  assumes "directory_ok d" "\<And>u. user_key (g u) = user_key u"
  shows "directory_ok (update_user uid g d)"
  using assms directory_ok_cong [of "update_user uid g d" d] by (simp add: update_user_def)

lemma insert_user_row_ok:
  assumes i: "insert_user_row fault mk d = (r, d')" and ok: "directory_ok d"
    and mk: "\<And>n. u_id (mk n) = n" "\<And>n. u_role (mk n) \<in> {''admin'', ''user''}" "\<And>n. u_org (mk n) = 0"
  shows "directory_ok d'"
proof (cases "d' = d")
  case False
  let ?w = "mk (next_user d)"
  have d': "d' = d\<lparr> users := users d @ [?w], next_user := Suc (next_user d) \<rparr>" "u_email ?w \<notin> set (map u_email (users d))"
    using i False by (auto simp: insert_user_row_def split: if_splits)
  have u: "users_ok d" "orgs_ok d" "tenancy_ok d" "members_ok d" using ok by (simp_all add: directory_ok_def)
  have lt: "next_user d \<notin> u_id ` set (users d)" using u(1) unfolding users_ok_def by (metis imageE less_irrefl)
  have "users_ok d'" unfolding users_ok_def d'(1)
    using u(1,2) lt d'(2) mk(1,3) mk(2) [of "next_user d"] by (auto simp: users_ok_def orgs_ok_def less_SucI)
  moreover have "orgs_ok d'" "members_ok d'" using u(2,4) by (simp_all add: d'(1) orgs_ok_def members_ok_def)
  moreover have "tenancy_ok d'" using u(2,3) mk(3) by (auto simp: tenancy_ok_def orgs_ok_def d'(1))
  ultimately show ?thesis by (simp add: directory_ok_def)
qed (use ok in simp)

lemma insert_user_row_Inr: "insert_user_row fault mk d = (Inr uid, d') \<Longrightarrow> uid = next_user d \<and> mk (next_user d) \<in> set (users d')"
  by (auto simp: insert_user_row_def split: if_splits)

lemma find_snoc: "\<forall>y \<in> set xs. \<not> P y \<Longrightarrow> find P (xs @ [x]) = (if P x then Some x else None)"
  by (induction xs) auto

lemma CreateOrg_ok:
  assumes c: "CreateOrg f name slug owner d = (r, d')" and ok: "directory_ok d"
  shows "directory_ok d'" "users d' = users d" "r = Inr (Some x) \<Longrightarrow> o_id x = next_org d \<and> o_owner x = owner \<and> x \<in> set (orgs d') \<and> next_org d' = Suc (next_org d)"
    "\<forall>y \<in> set (orgs d'). o_id y = next_org d \<longrightarrow> o_owner y = owner" "next_org d \<le> next_org d'"
proof -
  have u: "users_ok d" "orgs_ok d" "tenancy_ok d" "members_ok d" using ok by (simp_all add: directory_ok_def)
  let ?x = "\<lparr> o_id = next_org d, o_name = name, o_slug = slug, o_owner = owner \<rparr>"
  have cases: "d' = d \<or> d' = d\<lparr> orgs := orgs d @ [?x], next_org := Suc (next_org d) \<rparr> \<and> slug \<notin> set (map o_slug (orgs d))"
    using c by (auto simp: CreateOrg_def Let_def split: if_splits sum.splits)
  have old: "\<forall>y \<in> set (orgs d). o_id y \<noteq> next_org d" using u(2) unfolding orgs_ok_def by (metis less_irrefl)
  have "directory_ok d'" if d': "d' = d\<lparr> orgs := orgs d @ [?x], next_org := Suc (next_org d) \<rparr>" "slug \<notin> set (map o_slug (orgs d))"
  proof -
    have "orgs_ok d'" using u(2) old d'(2) unfolding orgs_ok_def d'(1) by (auto simp: less_SucI)
    moreover have "users_ok d'" using u(1) unfolding users_ok_def d'(1) by (auto simp: less_SucI)
    moreover have "tenancy_ok d'" using u(1,3) unfolding tenancy_ok_def users_ok_def d'(1) by (auto dest!: bspec)
    ultimately show ?thesis using u(4) by (simp add: directory_ok_def members_ok_def d'(1))
  qed
  then show "directory_ok d'" using cases ok by auto
  show "users d' = users d" "next_org d \<le> next_org d'" using cases by auto
  show "\<forall>y \<in> set (orgs d'). o_id y = next_org d \<longrightarrow> o_owner y = owner" using cases old by auto
  show "r = Inr (Some x) \<Longrightarrow> o_id x = next_org d \<and> o_owner x = owner \<and> x \<in> set (orgs d') \<and> next_org d' = Suc (next_org d)"
    using c find_snoc [OF old, of ?x] by (auto simp: CreateOrg_def GetOrgByID_def Let_def split: if_splits sum.splits)
qed

text \<open>Pointing an account at an organization it owns.\<close>

lemma set_org_ok:
  assumes ok: "directory_ok d" and oid: "oid < next_org d" and own: "\<forall>y \<in> set (orgs d). o_id y = oid \<longrightarrow> o_owner y = uid"
  shows "directory_ok (update_user uid (\<lambda>u. u\<lparr> u_org := oid \<rparr>) d)"
proof -
  let ?g = "\<lambda>u. if u_id u = uid then u\<lparr> u_org := oid \<rparr> else u"
  have d': "update_user uid (\<lambda>u. u\<lparr> u_org := oid \<rparr>) d = d\<lparr> users := map ?g (users d) \<rparr>" by (simp add: update_user_def)
  have u: "users_ok d" "orgs_ok d" "tenancy_ok d" "members_ok d" using ok by (simp_all add: directory_ok_def)
  have m: "u_id \<circ> ?g = u_id" "u_email \<circ> ?g = u_email" by auto
  have "users_ok (d\<lparr> users := map ?g (users d) \<rparr>)" using u(1) oid unfolding users_ok_def by (simp add: m ball_Un) blast
  moreover have "tenancy_ok (d\<lparr> users := map ?g (users d) \<rparr>)" using u(3) own unfolding tenancy_ok_def by auto
  ultimately show ?thesis using u(2,4) by (simp add: d' directory_ok_def orgs_ok_def members_ok_def)
qed

lemma personal_org_ok: "directory_ok d \<Longrightarrow> directory_ok (snd (personal_org f email uid d))"
proof -
  assume ok: "directory_ok d"
  obtain r d1 where c: "CreateOrg f email email uid d = (r, d1)" by force
  note facts = CreateOrg_ok [OF c ok]
  show ?thesis
  proof (cases "\<exists>x. r = Inr (Some x)")
    case True
    then obtain x where x: "r = Inr (Some x)" by blast
    with facts(3) have "o_id x = next_org d" "next_org d1 = Suc (next_org d)" by auto
    with facts(1,4) x c show ?thesis by (simp add: personal_org_def set_org_ok)
  next
    case False
    with c facts(1) show ?thesis by (auto simp: personal_org_def split: sum.splits option.splits)
  qed
qed

lemma new_user_fields [simp]:
  "u_id (new_user uid email hash role) = uid" "u_role (new_user uid email hash role) = role" "u_org (new_user uid email hash role) = 0"
  "u_email (new_user uid email hash role) = email"
  by (simp_all add: new_user_def)

text \<open>Insert an account, then make its organization: the shape of every account creation.\<close>

lemma create_account_ok:
  assumes "directory_ok d" "\<And>n. u_id (mk n) = n" "\<And>n. u_role (mk n) \<in> {''admin'', ''user''}" "\<And>n. u_org (mk n) = 0"
    and "insert_user_row fault mk d = (r, d1)"
  shows "directory_ok d1" "directory_ok (snd (personal_org f email uid d1))"
  using insert_user_row_ok [OF assms(5,1-4)] personal_org_ok by auto

lemma insertUser_ok: "directory_ok d \<Longrightarrow> directory_ok (snd (insertUser f email hash d))"
proof -
  assume ok: "directory_ok d"
  let ?role = "if (if f 0 then 0 else length (users d)) = 0 then ''admin'' else ''user''"
  obtain r d1 where i: "insert_user_row (f 1) (\<lambda>uid. new_user uid email hash ?role) d = (r, d1)" by force
  note ok1 = create_account_ok [OF ok _ _ _ i]
  show ?thesis using ok1 i by (auto simp: insertUser_def Let_def split: sum.splits prod.splits) (metis snd_conv)+
qed

lemma findOrCreateEmailUser_ok: "directory_ok d \<Longrightarrow> directory_ok (snd (findOrCreateEmailUser f hash email d))"
proof -
  assume ok: "directory_ok d"
  obtain r d1 where i: "insert_user_row (f 1) (\<lambda>uid. new_user uid email hash ''user'') d = (r, d1)" by force
  note ok1 = create_account_ok [OF ok _ _ _ i]
  show ?thesis using ok ok1 i by (auto simp: findOrCreateEmailUser_def split: sum.splits prod.splits option.splits) (metis snd_conv)+
qed

lemma findOrCreatePhoneUser_ok: "directory_ok d \<Longrightarrow> directory_ok (snd (findOrCreatePhoneUser f hash phone d))"
proof -
  assume ok: "directory_ok d"
  obtain r d1 where i: "insert_user_row (f 1) (\<lambda>uid. (new_user uid (phone_email phone) hash ''user'')\<lparr> u_phone := phone \<rparr>) d = (r, d1)" by force
  note ok1 = create_account_ok [OF ok _ _ _ i]
  show ?thesis using ok ok1 i by (auto simp: findOrCreatePhoneUser_def split: sum.splits prod.splits option.splits) (metis snd_conv)+
qed

lemma findOrCreateGoogleUser_ok: "directory_ok d \<Longrightarrow> directory_ok (snd (findOrCreateGoogleUser f hash gu d))"
proof -
  assume ok: "directory_ok d"
  let ?mk = "\<lambda>uid. (new_user uid (g_email gu) hash ''user'')\<lparr> u_google := g_id gu, u_avatar := g_avatar gu \<rparr>"
  obtain r d1 where i: "insert_user_row (f 3) ?mk d = (r, d1)" by force
  note ok1 = create_account_ok [OF ok _ _ _ i]
  have "directory_ok (update_user x (\<lambda>u. u\<lparr> u_google := gid, u_avatar := av \<rparr>) d)" for x gid av
    using update_user_ok [OF ok] by (simp add: user_key_def)
  note linked = this
  define created where "created = (case insert_user_row (f 3) ?mk d of (Inl _, d') \<Rightarrow> (Inl (), d')
      | (Inr uid, d') \<Rightarrow> (case personal_org (\<lambda>n. f (n + 4)) (g_email gu) uid d' of (oid, d'') \<Rightarrow> (Inr (uid, oid), d'')))"
  have "directory_ok (snd created)"
    unfolding i created_def using ok1 by (cases r) (simp_all add: case_prod_beta)
  then show ?thesis unfolding findOrCreateGoogleUser_def created_def [symmetric]
    using ok linked by (simp split: option.split)
qed

lemma backfill_one_ok: "directory_ok d \<Longrightarrow> directory_ok (backfill_one f us d)"
proof (induction us arbitrary: d)
  case (Cons u us)
  obtain r d1 where c: "CreateOrg (\<lambda>n. n = 0 \<and> f (u_id u) 0) (u_email u) (u_email u) (u_id u) d = (r, d1)" by force
  note facts = CreateOrg_ok [OF c Cons.prems]
  have "directory_ok (update_user (u_id u) (\<lambda>x. x\<lparr> u_org := next_org d \<rparr>) d1)" if "r = Inr y" for y
  proof -
    have "next_org d < next_org d1" using c that by (auto simp: CreateOrg_def Let_def split: if_splits sum.splits)
    with facts(1,4) show ?thesis by (metis set_org_ok)
  qed
  with Cons.IH facts(1) c show ?case by (simp split: sum.split)
qed simp

lemma DeleteOrg_ok: "directory_ok d \<Longrightarrow> directory_ok (snd (DeleteOrg fault oid d))"
  by (auto simp: DeleteOrg_def directory_defs distinct_map_filter)

lemma UpdateOrg_ok:
  assumes ok: "directory_ok d"
  shows "directory_ok (snd (UpdateOrg f oid name slug d))"
proof -
  let ?g = "\<lambda>x. if o_id x = oid then x\<lparr> o_name := name, o_slug := slug \<rparr> else x"
  let ?d = "d\<lparr> orgs := map ?g (orgs d) \<rparr>"
  have "directory_ok ?d" if clash: "\<not> (\<exists>x \<in> set (orgs d). o_id x \<noteq> oid \<and> o_slug x = slug)"
  proof -
    have u: "users_ok d" "orgs_ok d" "tenancy_ok d" "members_ok d" using ok by (simp_all add: directory_ok_def)
    have m: "o_id \<circ> ?g = o_id" by auto
    have inj: "inj_on o_id (set (orgs d))" "inj_on o_slug (set (orgs d))" "distinct (orgs d)"
      using u(2) unfolding orgs_ok_def distinct_map by auto
    have "inj_on (o_slug \<circ> ?g) (set (orgs d))"
    proof (rule inj_onI)
      fix x y assume xy: "x \<in> set (orgs d)" "y \<in> set (orgs d)" and e: "(o_slug \<circ> ?g) x = (o_slug \<circ> ?g) y"
      show "x = y"
      proof (cases "o_id x = oid")
        case True
        with e clash xy have "o_id y = oid" by (auto split: if_splits)
        with True inj(1) xy show ?thesis by (metis inj_onD)
      next
        case False
        with e clash xy have "o_id y \<noteq> oid" "o_slug x = o_slug y" by (auto split: if_splits)
        with inj(2) xy show ?thesis by (metis inj_onD)
      qed
    qed
    then have "orgs_ok ?d" using u(2) inj(3) unfolding orgs_ok_def by (simp add: m distinct_map ball_Un) blast
    moreover have "tenancy_ok ?d" using u(3) unfolding tenancy_ok_def by (simp add: ball_Un)
    ultimately show ?thesis using u(1,4) by (simp add: directory_ok_def users_ok_def members_ok_def)
  qed
  with ok show ?thesis by (simp add: UpdateOrg_def Let_def split: sum.split)
qed

lemma members_only_ok:
  assumes "directory_ok d" "users d' = users d" "next_user d' = next_user d" "orgs d' = orgs d" "next_org d' = next_org d" "members_ok d'"
  shows "directory_ok d'"
  using assms by (simp add: directory_ok_def users_ok_def orgs_ok_def tenancy_ok_def)

lemma CreateInvite_ok: "directory_ok d \<Longrightarrow> role \<in> set validMemberRoles \<Longrightarrow> directory_ok (snd (CreateInvite fault gen now oid email role d))"
proof (rule members_only_ok [where d = d])
  assume "directory_ok d" "role \<in> set validMemberRoles"
  then show "members_ok (snd (CreateInvite fault gen now oid email role d))"
    by (auto simp: CreateInvite_def Let_def directory_ok_def members_ok_def split: option.split)
qed (auto simp: CreateInvite_def Let_def split: option.split)

lemma AcceptInvite_ok:
  assumes "directory_ok d" "invite \<in> set (invites d)"
  shows "directory_ok (snd (AcceptInvite f now invite uid d))"
proof (rule members_only_ok [OF assms(1)])
  have "i_role invite \<in> set validMemberRoles" using assms by (simp add: directory_ok_def members_ok_def)
  with assms(1) show "members_ok (snd (AcceptInvite f now invite uid d))"
    by (auto simp: AcceptInvite_def Let_def directory_ok_def members_ok_def)
qed (auto simp: AcceptInvite_def Let_def)

lemma with_owned_org_ok: "directory_ok d \<Longrightarrow> (\<And>oid. directory_ok (snd (k oid d))) \<Longrightarrow> directory_ok (snd (with_owned_org fault uid scanned k d))"
  by (auto simp: with_owned_org_def split: option.split sum.split)

lemma directory_step_ok: "directory_ok d \<Longrightarrow> directory_ok (directory_step d op)"
proof (cases op)
  case (NewOrg f uid body)
  assume ok: "directory_ok d"
  have "directory_ok (snd (CreateOrg f name slug uid d))" for name slug
    using CreateOrg_ok(1) [OF _ ok] by (metis prod.collapse)
  with NewOrg ok show ?thesis by (auto simp: handleCreateOrg_def split: option.split prod.splits sum.split bool.split) (metis snd_conv)+
next
  case (EditOrg f uid scanned body)
  assume ok: "directory_ok d"
  have "directory_ok (snd (UpdateOrg g oid name slug d))" for g oid name slug using UpdateOrg_ok [OF ok] .
  with EditOrg ok show ?thesis
    by (auto simp: handleUpdateOrg_def intro!: with_owned_org_ok split: option.split prod.splits sum.split bool.split) (metis snd_conv)+
next
  case (DropOrg f uid scanned)
  assume ok: "directory_ok d"
  have "directory_ok (snd (DeleteOrg g oid d))" for g oid using DeleteOrg_ok [OF ok] .
  with DropOrg ok show ?thesis by (auto simp: handleDeleteOrg_def intro!: with_owned_org_ok split: prod.splits) (metis snd_conv)+
next
  case (DropUser fault requester is_admin uid)
  assume "directory_ok d"
  with DropUser show ?thesis by (auto simp: handleUserByID_def directory_defs distinct_map_filter)
next
  case (Invite f gen now uid scanned body)
  assume ok: "directory_ok d"
  have "directory_ok (snd (CreateInvite g gen now oid email role d))" if "role \<in> set validMemberRoles" for g oid email role
    using CreateInvite_ok [OF ok that] .
  with Invite ok show ?thesis
    by (auto simp: handleCreateInvite_def intro!: with_owned_org_ok split: option.split prod.splits sum.split bool.split) (metis snd_conv)+
next
  case (Accept f now uid scanned tok)
  assume ok: "directory_ok d"
  have "directory_ok (snd (AcceptInvite g now i uid d))" if "find P (invites d) = Some i" for g i P
    using AcceptInvite_ok [OF ok] that by (auto simp: find_Some_iff)
  with Accept ok show ?thesis
    by (auto simp: handleAcceptInvite_def GetInviteByToken_def split: option.splits prod.splits sum.split if_splits) (metis snd_conv)+
qed (simp_all add: insertUser_ok findOrCreateEmailUser_ok findOrCreatePhoneUser_ok findOrCreateGoogleUser_ok BackfillDefaultOrgs_def
    backfill_one_ok storeVerifyToken_def handleVerifyEmail_def update_user_ok user_key_def split: option.split)

interpretation accounts: step_invariant directory_step directory_ok
  by unfold_locales (rule directory_step_ok)

definition empty_directory :: directory where
  "empty_directory = \<lparr> users = [], next_user = 1, orgs = [], next_org = 1, invites = [], next_invite = 1, members = [] \<rparr>"

lemma empty_directory_ok: "directory_ok empty_directory"
  by (simp add: empty_directory_def directory_defs)

text \<open>
  C40. Types of the account tables: after any sequence of registrations, passwordless and Google logins,
  organization changes, deletions, backfills, verifications and invites, whichever statements fail,
  identifiers, e-mails and slugs are unique, every role is a known role, nobody is twice a member of an
  organization, and the default organization of an account, where it still exists, is owned by that
  very account: deleting organizations or accounts never makes one tenant's default another's.
\<close>

theorem directory_well_formed: "directory_ok (foldl directory_step empty_directory ops)"
  by (rule accounts.run_inv [OF empty_directory_ok])

text \<open>Only the first account is an administrator, provided the count can be read.\<close>

lemma insertUser_role:
  "insertUser f email hash d = (Inr (uid, role, oid), d') \<Longrightarrow> \<not> f 0 \<Longrightarrow> role = ''admin'' \<longleftrightarrow> users d = []"
  by (auto simp: insertUser_def Let_def split: prod.splits sum.splits if_splits)

text \<open>A registration whose count query fails makes an administrator next to the existing accounts.\<close>

lemma failed_count_grants_admin:
  "\<exists>oid d'. insertUser (\<lambda>n. n = 0) ''b@x'' ''h2'' (snd (insertUser (\<lambda>_. False) ''a@x'' ''h1'' empty_directory)) = (Inr (2, ''admin'', oid), d')
     \<and> length (users d') = 2"
  by (simp add: insertUser_def empty_directory_def insert_user_row_def new_user_def personal_org_def CreateOrg_def GetOrgByID_def update_user_def Let_def)

text \<open>An update of the slug alone blanks the name.\<close>

lemma update_slug_blanks_name:
  "map (\<lambda>x. (o_name x, o_slug x)) (orgs (snd (handleUpdateOrg (\<lambda>_. False) 1 (Some 1) (Some ([], ''new''))
     (snd (handleCreateOrg (\<lambda>_. False) 1 (Some (''Acme'', ''acme'')) empty_directory))))) = [([], ''new'')]"
  by (simp add: handleUpdateOrg_def handleCreateOrg_def with_owned_org_def parseOrgID_def lookupOwnedOrg_def GetOrgByID_def UpdateOrg_def
      CreateOrg_def isValidSlug_def less_eq_char_def empty_directory_def Let_def)

text \<open>An invite is accepted after its expiry, and by an account with another e-mail.\<close>

lemma expired_invite_accepted:
  "fst (handleAcceptInvite (\<lambda>_. False) (1000 * Hour) 9 (Some 1) ''tok''
     (snd (handleCreateInvite (\<lambda>_. False) (Some ''tok'') 0 1 (Some 1) (Some (''a@x'', ''admin''))
       (snd (handleCreateOrg (\<lambda>_. False) 1 (Some (''Acme'', ''acme'')) empty_directory))))) = 200"
  by (simp add: handleAcceptInvite_def handleCreateInvite_def GetInviteByToken_def AcceptInvite_def CreateInvite_def validMemberRoles_def
      handleCreateOrg_def with_owned_org_def parseOrgID_def lookupOwnedOrg_def GetOrgByID_def
      CreateOrg_def isValidSlug_def less_eq_char_def empty_directory_def Let_def)

text \<open>Callers with an organization API key all act as user 0: an organization that one of them creates
  can be deleted by every other.\<close>

lemma api_key_callers_share_orgs:
  "let d = snd (handleCreateOrg (\<lambda>_. False) 0 (Some (''Acme'', ''acme'')) empty_directory)
   in map o_owner (orgs d) = [0] \<and> fst (handleDeleteOrg (\<lambda>_. False) 0 (Some 1) d) = 200"
  by (simp add: handleDeleteOrg_def DeleteOrg_def handleCreateOrg_def with_owned_org_def parseOrgID_def lookupOwnedOrg_def GetOrgByID_def
      CreateOrg_def isValidSlug_def less_eq_char_def empty_directory_def Let_def)

text \<open>A handler for an organization runs only for its owner.\<close>

lemma with_owned_org_owner:
  assumes "snd (with_owned_org fault uid scanned k d) \<noteq> d"
  shows "\<exists>x \<in> set (orgs d). o_owner x = uid \<and> parseOrgID scanned = Some (o_id x)"
  using assms by (auto simp: with_owned_org_def lookupOwnedOrg_def GetOrgByID_def find_Some_iff split: option.splits sum.splits if_splits)

end
