(* ===== verification/Auth_Login.thy ===== *)
theory Auth_Login
  imports Auth_Users Auth_Refresh
begin

text \<open>
  Password sign-in of \<^verbatim>\<open>components/auth\<close>: the lockout store (\<^verbatim>\<open>loginlockout.go\<close>), registration and login
  (\<^verbatim>\<open>credentials.go\<close>, \<open>respondLoginFailure\<close> of \<^verbatim>\<open>auth.go\<close>).

  bcrypt and the JWT signature are arguments: \<open>cmp hash password\<close> is the comparison, \<open>hash_pw\<close> the hash of
  a password (bcrypt refuses long ones), \<open>sign\<close> the signed token of claims. A request has a clock reading
  for each store call and says which statements fail. Audit records and the cookie are left out.
\<close>

section \<open>Lockouts\<close>

abbreviation maxFailedLoginAttempts :: nat where "maxFailedLoginAttempts \<equiv> 5"
abbreviation loginLockoutDuration :: int where "loginLockoutDuration \<equiv> 15 * Minute"
abbreviation loginFailureWindow :: int where "loginFailureWindow \<equiv> 15 * Minute"

record loginLockoutRow =
  failedCount :: nat
  lockedUntil :: int
  windowStart :: int
  hasLocked :: bool

type_synonym lockout_table = "(string, loginLockoutRow) go_map"

definition load_lockout :: "bool \<Rightarrow> string \<Rightarrow> lockout_table \<Rightarrow> (unit, loginLockoutRow option) res" where
  "load_lockout fault email tbl = (if fault then Inl () else Inr (map_of tbl email))"

definition CheckLocked :: "bool \<Rightarrow> int \<Rightarrow> string \<Rightarrow> lockout_table \<Rightarrow> (unit, bool \<times> int) res" where
  "CheckLocked fault now email tbl = (case load_lockout fault email tbl of
     Inl _ \<Rightarrow> Inl ()
   | Inr None \<Rightarrow> Inr (False, 0)
   | Inr (Some row) \<Rightarrow> if hasLocked row \<and> now < lockedUntil row then Inr (True, lockedUntil row - now) else Inr (False, 0))"

text \<open>The decision of \<open>RecordFailure\<close> on the row it has read: \<open>Inl\<close> while the lock holds, else the row to write.\<close>

definition RecordFailure_decide :: "int \<Rightarrow> loginLockoutRow option \<Rightarrow> int + loginLockoutRow" where
  "RecordFailure_decide now row =
     (case row of
        Some r \<Rightarrow> if hasLocked r \<and> now < lockedUntil r then Inl (lockedUntil r - now)
          else (let (n, ws) = (if now - windowStart r < loginFailureWindow then (failedCount r + 1, windowStart r) else (1, now)) in
            Inr \<lparr> failedCount = n, lockedUntil = (if n \<ge> maxFailedLoginAttempts then rfc3339 (now + loginLockoutDuration) else 0),
                   windowStart = rfc3339 ws, hasLocked = n \<ge> maxFailedLoginAttempts \<rparr>)
      | None \<Rightarrow> Inr \<lparr> failedCount = 1, lockedUntil = 0, windowStart = rfc3339 now, hasLocked = False \<rparr>)"

definition RecordFailure :: "bool \<Rightarrow> bool \<Rightarrow> int \<Rightarrow> string \<Rightarrow> lockout_table \<Rightarrow> (unit, bool \<times> int) res \<times> lockout_table" where
  "RecordFailure fault_load fault_exec now email tbl = (case load_lockout fault_load email tbl of
     Inl _ \<Rightarrow> (Inl (), tbl)
   | Inr row \<Rightarrow> (case RecordFailure_decide now row of
         Inl retry \<Rightarrow> (Inr (True, retry), tbl)
       | Inr r \<Rightarrow> if fault_exec then (Inl (), tbl)
           else (Inr (if hasLocked r then (True, loginLockoutDuration) else (False, 0)), map_put email r tbl)))"

definition ClearFailures :: "bool \<Rightarrow> string \<Rightarrow> lockout_table \<Rightarrow> bool \<times> lockout_table" where
  "ClearFailures fault email tbl = (if fault then (False, tbl) else (True, map_del email tbl))"

definition retryAfterHeader :: "int \<Rightarrow> int" where
  "retryAfterHeader d = (let secs = d div Second in if secs < 1 then 1 else secs)"

section \<open>Sessions\<close>

record Claims =
  c_user :: nat
  c_email :: string
  c_role :: string
  c_org :: nat
  c_expires :: int
  c_issued :: int

definition createJWT :: "(Claims \<Rightarrow> string option) \<Rightarrow> int \<Rightarrow> nat \<Rightarrow> string \<Rightarrow> string \<Rightarrow> nat \<Rightarrow> int \<Rightarrow> string option" where
  "createJWT sign now uid email role org ttl = sign \<lparr> c_user = uid, c_email = email, c_role = role, c_org = org, c_expires = now + ttl, c_issued = now \<rparr>"

record auth_state =
  lockouts :: lockout_table
  dir :: directory
  refresh :: refresh_db
  outbox :: "(string \<times> string) list"

record auth_env =
  fault :: faults
  clock :: "nat \<Rightarrow> int"
  cmp :: "string \<Rightarrow> string \<Rightarrow> bool"
  hash_pw :: "string \<Rightarrow> string option"
  sign :: "Claims \<Rightarrow> string option"
  accessExpiry :: int
  refreshExpiry :: int
  sender :: bool
  gen_token :: "string option"
  gen_family :: "string option"
  gen_verify :: "string option"

datatype answer =
    Reply nat string
  | LockedOut int
  | Session nat nat string string string

text \<open>\<open>writeAuthResponse\<close>: a session always answers, with an empty refresh token when none could be issued.\<close>

definition writeAuthResponse :: "auth_env \<Rightarrow> nat \<Rightarrow> nat \<Rightarrow> string \<Rightarrow> string \<Rightarrow> auth_state \<Rightarrow> answer \<times> auth_state" where
  "writeAuthResponse e status uid email tok s =
     (case gen_family e of
        None \<Rightarrow> (Session status uid email tok [], s)
      | Some fam \<Rightarrow> (case issueRefreshToken (fault e 20) (clock e 20) (refreshExpiry e) (gen_token e) (int uid) fam (refresh s) of
            (None, db) \<Rightarrow> (Session status uid email tok [], s\<lparr> refresh := db \<rparr>)
          | (Some rt, db) \<Rightarrow> (Session status uid email tok rt, s\<lparr> refresh := db \<rparr>)))"

definition decodeBody :: "(string \<times> string) option \<Rightarrow> (answer, string \<times> string) res" where
  "decodeBody body = (case body of
     None \<Rightarrow> Inl (Reply 400 ''invalid json'')
   | Some (email, password) \<Rightarrow>
       if email = [] \<or> password = [] then Inl (Reply 400 ''email and password required'')
       else if \<not> Contains email ''@'' then Inl (Reply 400 ''invalid email'')
       else Inr (email, password))"

definition respondLoginFailure :: "auth_env \<Rightarrow> string \<Rightarrow> auth_state \<Rightarrow> answer \<times> auth_state" where
  "respondLoginFailure e email s =
     (case RecordFailure (fault e 2) (fault e 3) (clock e 1) email (lockouts s) of
        (Inr (True, retry), tbl) \<Rightarrow> (LockedOut (retryAfterHeader retry), s\<lparr> lockouts := tbl \<rparr>)
      | (_, tbl) \<Rightarrow> (Reply 401 ''invalid email or password'', s\<lparr> lockouts := tbl \<rparr>))"

text \<open>The account whose password was given, if the lookup finds one and the comparison accepts.\<close>

definition authenticated :: "auth_env \<Rightarrow> string \<Rightarrow> string \<Rightarrow> auth_state \<Rightarrow> user_row option" where
  "authenticated e email password s =
     (case (if fault e 1 then None else find_user (\<lambda>u. u_email u = email) (dir s)) of
        None \<Rightarrow> None
      | Some u \<Rightarrow> if cmp e (u_hash u) password then Some u else None)"

definition handleLogin :: "auth_env \<Rightarrow> bool \<Rightarrow> (string \<times> string) option \<Rightarrow> auth_state \<Rightarrow> answer \<times> auth_state" where
  "handleLogin e post body s =
     (if \<not> post then (Reply 405 ''method not allowed'', s)
      else (case decodeBody body of
          Inl a \<Rightarrow> (a, s)
        | Inr (email0, password) \<Rightarrow>
            (let email = ToLower email0 in
             case CheckLocked (fault e 0) (clock e 0) email (lockouts s) of
               Inl _ \<Rightarrow> (Reply 500 ''internal error'', s)
             | Inr (True, retry) \<Rightarrow> (LockedOut (retryAfterHeader retry), s)
             | Inr (False, _) \<Rightarrow> (case authenticated e email password s of
                   None \<Rightarrow> respondLoginFailure e email s
                 | Some u \<Rightarrow>
                     (let s1 = s\<lparr> lockouts := snd (ClearFailures (fault e 4) email (lockouts s)) \<rparr> in
                      case createJWT (sign e) (clock e 2) (u_id u) email (u_role u) (u_org u) (accessExpiry e) of
                        None \<Rightarrow> (Reply 500 ''internal error'', s1)
                      | Some tok \<Rightarrow> writeAuthResponse e 200 (u_id u) email tok s1)))))"

abbreviation minPasswordLen :: nat where "minPasswordLen \<equiv> 6"

text \<open>Registration. A verification token is stored and mailed when a sender is configured.\<close>

definition send_verification :: "auth_env \<Rightarrow> nat \<Rightarrow> string \<Rightarrow> auth_state \<Rightarrow> auth_state" where
  "send_verification e uid email s = (if \<not> sender e then s
     else (case gen_verify e of
         None \<Rightarrow> s
       | Some tok \<Rightarrow> (case storeVerifyToken (fault e 10) (clock e 10) uid tok (dir s) of
             (False, d) \<Rightarrow> s\<lparr> dir := d \<rparr>
           | (True, d) \<Rightarrow> s\<lparr> dir := d, outbox := outbox s @ [(email, tok)] \<rparr>)))"

definition handleRegister :: "auth_env \<Rightarrow> bool \<Rightarrow> (string \<times> string) option \<Rightarrow> auth_state \<Rightarrow> answer \<times> auth_state" where
  "handleRegister e post body s =
     (if \<not> post then (Reply 405 ''method not allowed'', s)
      else (case decodeBody body of
          Inl a \<Rightarrow> (a, s)
        | Inr (email0, password) \<Rightarrow>
            (let email = ToLower email0 in
             if length password < minPasswordLen then (Reply 400 ''password must be at least 6 characters'', s)
             else (case hash_pw e password of
                 None \<Rightarrow> (Reply 500 ''internal error'', s)
               | Some h \<Rightarrow> (case insertUser (fault e) email h (dir s) of
                     (Inl True, d) \<Rightarrow> (Reply 409 ''email already registered'', s\<lparr> dir := d \<rparr>)
                   | (Inl False, d) \<Rightarrow> (Reply 500 ''internal error'', s\<lparr> dir := d \<rparr>)
                   | (Inr (uid, role, org), d) \<Rightarrow>
                       (let s1 = send_verification e uid email (s\<lparr> dir := d \<rparr>) in
                        case createJWT (sign e) (clock e 11) uid email role org (accessExpiry e) of
                          None \<Rightarrow> (Reply 500 ''internal error'', s1)
                        | Some tok \<Rightarrow> writeAuthResponse e 201 uid email tok s1))))))"

section \<open>The lockout store as an interface\<close>

text \<open>What a sign-in handler relies on: accounts are independent, and clearing unlocks.\<close>

locale login_lockout_store =
  fixes check :: "'s \<Rightarrow> int \<Rightarrow> string \<Rightarrow> bool"
    and record_failure :: "int \<Rightarrow> string \<Rightarrow> 's \<Rightarrow> 's"
    and clear :: "string \<Rightarrow> 's \<Rightarrow> 's"
  assumes record_other: "e \<noteq> e' \<Longrightarrow> check (record_failure t e s) t' e' = check s t' e'"
    and clear_other: "e \<noteq> e' \<Longrightarrow> check (clear e s) t' e' = check s t' e'"
    and clear_unlocks: "\<not> check (clear e s) t' e"
begin

lemma failures_isolated: "e' \<notin> snd ` set fs \<Longrightarrow> check (fold (\<lambda>(t, e). record_failure t e) fs s) t' e' = check s t' e'"
  by (induction fs arbitrary: s) (auto simp: record_other)

lemma clear_after_failures: "\<not> check (clear e (fold (\<lambda>(t, e). record_failure t e) fs s)) t' e"
  by (rule clear_unlocks)

end

definition is_locked :: "lockout_table \<Rightarrow> int \<Rightarrow> string \<Rightarrow> bool" where
  "is_locked tbl now email = (case CheckLocked False now email tbl of Inr (b, _) \<Rightarrow> b | Inl _ \<Rightarrow> False)"

lemma is_locked_iff: "is_locked tbl now email \<longleftrightarrow> (\<exists>r. map_of tbl email = Some r \<and> hasLocked r \<and> now < lockedUntil r)"
  by (auto simp: is_locked_def CheckLocked_def load_lockout_def split: option.splits)

lemma RecordFailure_table: "snd (RecordFailure fl fe now email tbl) = tbl
    \<or> (\<exists>r. RecordFailure_decide now (map_of tbl email) = Inr r \<and> snd (RecordFailure fl fe now email tbl) = map_put email r tbl)"
  by (auto simp: RecordFailure_def load_lockout_def split: sum.splits if_splits)

interpretation db_lockouts: login_lockout_store is_locked "\<lambda>t e s. snd (RecordFailure False False t e s)" "\<lambda>e s. snd (ClearFailures False e s)"
proof (unfold_locales, goal_cases)
  case (1 e e' t s t')
  with RecordFailure_table [of False False t e s] show ?case by (auto simp: is_locked_iff)
qed (auto simp: is_locked_iff ClearFailures_def)

text \<open>While an account is locked the answer of a login does not depend on the password or the stored hash.\<close>

lemma handleLogin_locked_blind:
  assumes "decodeBody body = Inr (email, pw)" "\<not> fault e 0" "is_locked (lockouts s) (clock e 0) (ToLower email)"
  shows "\<exists>n. handleLogin e True body s = (LockedOut n, s) \<and> handleLogin (e\<lparr> cmp := c \<rparr>) True body s = (LockedOut n, s)"
  using assms by (auto simp: handleLogin_def Let_def is_locked_iff CheckLocked_def load_lockout_def)

section \<open>How many passwords can be tried\<close>

record login_request =
  lg_env :: auth_env
  lg_email :: string
  lg_password :: string

definition lg_body :: "login_request \<Rightarrow> (string \<times> string) option" where
  "lg_body q = Some (lg_email q, lg_password q)"

text \<open>The time of the last request for the watched account, and the state.\<close>

type_synonym guess_state = "int \<times> auth_state"

definition guess_step :: "string \<Rightarrow> guess_state \<Rightarrow> login_request \<Rightarrow> guess_state" where
  "guess_step em st q = (if ToLower (lg_email q) = em then clock (lg_env q) 1 else fst st, snd (handleLogin (lg_env q) True (lg_body q) (snd st)))"

text \<open>A request tries a password when it is well formed and the account is not locked.\<close>

definition tries_password :: "string \<Rightarrow> guess_state \<Rightarrow> login_request \<Rightarrow> nat" where
  "tries_password em st q = (if ToLower (lg_email q) = em \<and> is_ok (decodeBody (lg_body q)) \<and> \<not> fault (lg_env q) 0
      \<and> \<not> is_locked (lockouts (snd st)) (clock (lg_env q) 0) em then 1 else 0)"

abbreviation guess_span :: int where "guess_span \<equiv> loginFailureWindow - Second"

text \<open>Requests for the account come in order, inside the span, with wrong passwords, and their failures can
  be recorded. Requests for other accounts are unrestricted.\<close>

definition wrong_guess :: "string \<Rightarrow> int \<Rightarrow> guess_state \<Rightarrow> login_request \<Rightarrow> bool" where
  "wrong_guess em t0 st q = (ToLower (lg_email q) = em \<longrightarrow>
     (let e = lg_env q in fst st \<le> clock e 0 \<and> t0 \<le> clock e 0 \<and> clock e 0 \<le> clock e 1 \<and> clock e 1 \<le> t0 + guess_span
       \<and> \<not> fault e 2 \<and> \<not> fault e 3 \<and> (\<forall>u \<in> set (users (dir (snd st))). u_email u = em \<longrightarrow> \<not> cmp e (u_hash u) (lg_password q))))"

definition row_ok :: "int \<Rightarrow> loginLockoutRow \<Rightarrow> bool" where
  "row_ok since r = (1 \<le> failedCount r \<and> failedCount r \<le> 5 \<and> (hasLocked r \<longleftrightarrow> failedCount r = 5)
     \<and> (hasLocked r \<longrightarrow> windowStart r + loginFailureWindow \<le> lockedUntil r) \<and> windowStart r \<le> since \<and> rfc3339 (windowStart r) = windowStart r)"

definition lockout_ok :: "string \<Rightarrow> guess_state \<Rightarrow> bool" where
  "lockout_ok em st = (\<forall>r. map_of (lockouts (snd st)) em = Some r \<longrightarrow> row_ok (fst st) r)"

text \<open>What is left of the budget: a window opened in the span lasts beyond it.\<close>

definition row_budget :: "int \<Rightarrow> loginLockoutRow option \<Rightarrow> nat" where
  "row_budget t0 row = (case row of
     None \<Rightarrow> 5
   | Some r \<Rightarrow> if hasLocked r \<and> t0 + guess_span < lockedUntil r then 0
       else if t0 - Second < windowStart r then 5 - failedCount r
       else if hasLocked r then 5 else 9 - failedCount r)"

definition guess_budget :: "string \<Rightarrow> int \<Rightarrow> guess_state \<Rightarrow> nat" where
  "guess_budget em t0 st = row_budget t0 (map_of (lockouts (snd st)) em)"

lemma row_budget_le: "(\<And>r. row = Some r \<Longrightarrow> row_ok since r) \<Longrightarrow> row_budget t0 row \<le> 8"
  by (auto simp: row_budget_def row_ok_def split: option.split)

lemma RecordFailure_decide_pays:
  assumes row: "\<And>r. row = Some r \<Longrightarrow> row_ok since r \<and> \<not> (hasLocked r \<and> c0 < lockedUntil r)"
    and t: "since \<le> c0" "t0 \<le> c0" "c0 \<le> c1" "c1 \<le> t0 + guess_span"
  shows "\<exists>r'. RecordFailure_decide c1 row = Inr r' \<and> row_ok c1 r' \<and> 1 + row_budget t0 (Some r') \<le> row_budget t0 row"
proof -
  have lock: "rfc3339 (c1 + loginLockoutDuration) = rfc3339 c1 + loginLockoutDuration"
    using rfc3339_add [of c1 900] by simp
  have beyond: "t0 + guess_span < rfc3339 c1 + loginLockoutDuration" and new: "t0 - Second < rfc3339 c1"
    using rfc3339_gt [of c1] t by simp_all
  have le: "rfc3339 c1 \<le> c1" by (rule rfc3339_le)
  show ?thesis
  proof (cases row)
    case None
    then show ?thesis using new le by (simp add: RecordFailure_decide_def row_ok_def row_budget_def rfc3339_idem)
  next
    case (Some r)
    note r = row [OF Some]
    have ok: "row_ok since r" and free: "\<not> (hasLocked r \<and> c1 < lockedUntil r)" using r t(3) by auto
    show ?thesis
    proof (cases "c1 - windowStart r < loginFailureWindow")
      case True
      have n: "failedCount r \<le> 4"
      proof (rule ccontr)
        assume "\<not> failedCount r \<le> 4"
        with ok have "hasLocked r" "windowStart r + loginFailureWindow \<le> lockedUntil r" by (auto simp: row_ok_def)
        with free True show False by auto
      qed
      then have nl: "\<not> hasLocked r" using ok by (auto simp: row_ok_def)
      have ws: "windowStart r \<le> rfc3339 c1" using ok t rfc3339_mono [of "windowStart r" c1] by (auto simp: row_ok_def)
      show ?thesis
      proof (cases "failedCount r = 4")
        case True
        with \<open>c1 - windowStart r < loginFailureWindow\<close> Some free nl ok lock beyond ws le show ?thesis
          by (simp add: RecordFailure_decide_def row_ok_def row_budget_def)
      next
        case False
        with n have "failedCount r \<le> 3" by simp
        with True Some nl ok ws le show ?thesis
          by (auto simp: RecordFailure_decide_def row_ok_def row_budget_def)
      qed
    next
      case False
      then have d: "RecordFailure_decide c1 row = Inr \<lparr> failedCount = 1, lockedUntil = 0, windowStart = rfc3339 c1, hasLocked = False \<rparr>"
        using Some free by (simp add: RecordFailure_decide_def)
      have "5 \<le> row_budget t0 row"
      proof -
        have old: "\<not> t0 - Second < windowStart r" using False t(4) by simp
        have "\<not> (hasLocked r \<and> t0 + guess_span < lockedUntil r)" using free t(4) by auto
        with old Some ok show ?thesis by (auto simp: row_budget_def row_ok_def)
      qed
      with d new le show ?thesis by (simp add: row_ok_def row_budget_def rfc3339_idem)
    qed
  qed
qed

lemma writeAuthResponse_lockouts [simp]: "lockouts (snd (writeAuthResponse e st uid email tok s)) = lockouts s"
  by (auto simp: writeAuthResponse_def split: option.split prod.split)

lemma writeAuthResponse_answer: "\<exists>rt. fst (writeAuthResponse e st uid email tok s) = Session st uid email tok rt"
  by (auto simp: writeAuthResponse_def split: option.split prod.split)

lemma respondLoginFailure_lockouts:
  "lockouts (snd (respondLoginFailure e email s)) = snd (RecordFailure (fault e 2) (fault e 3) (clock e 1) email (lockouts s))"
  by (auto simp: respondLoginFailure_def split: prod.split sum.split bool.split)

lemma handleLogin_other:
  assumes "ToLower em0 \<noteq> em"
  shows "map_of (lockouts (snd (handleLogin e True (Some (em0, pw)) s))) em = map_of (lockouts s) em"
proof -
  have "map_of (snd (RecordFailure fl fe now (ToLower em0) (lockouts s))) em = map_of (lockouts s) em" for fl fe now
    using RecordFailure_table [of fl fe now "ToLower em0" "lockouts s"] assms by auto
  with assms show ?thesis
    by (auto simp: handleLogin_def decodeBody_def Let_def ClearFailures_def respondLoginFailure_lockouts
      split: sum.split prod.split bool.split option.split)
qed

lemma authenticated_wrong:
  assumes "\<forall>u \<in> set (users (dir s)). u_email u = em \<longrightarrow> \<not> cmp e (u_hash u) pw"
  shows "authenticated e em pw s = None"
  using assms by (auto simp: authenticated_def find_user_def find_Some_iff split: option.split)

lemma handleLogin_wrong:
  assumes "authenticated e em pw s = None" "ToLower em0 = em"
  shows "lockouts (snd (handleLogin e True (Some (em0, pw)) s)) =
    (if is_ok (decodeBody (Some (em0, pw))) \<and> \<not> fault e 0 \<and> \<not> is_locked (lockouts s) (clock e 0) em
     then snd (RecordFailure (fault e 2) (fault e 3) (clock e 1) em (lockouts s)) else lockouts s)"
  using assms by (auto simp: handleLogin_def decodeBody_def Let_def respondLoginFailure_lockouts is_locked_def CheckLocked_def
      load_lockout_def split: sum.splits prod.splits bool.splits option.splits if_splits)

lemma row_ok_later: "row_ok t r \<Longrightarrow> t \<le> t' \<Longrightarrow> row_ok t' r"
  by (auto simp: row_ok_def)

lemma guess_step_pays:
  assumes inv: "lockout_ok em st" and ok: "wrong_guess em t0 st q"
  shows "lockout_ok em (guess_step em st q) \<and> tries_password em st q + guess_budget em t0 (guess_step em st q) \<le> guess_budget em t0 st"
proof (cases "ToLower (lg_email q) = em")
  case False
  then show ?thesis using inv handleLogin_other [OF False]
    by (simp add: guess_step_def tries_password_def guess_budget_def lockout_ok_def lg_body_def)
next
  case True
  define tbl where "tbl = lockouts (snd st)"
  define e where "e = lg_env q"
  from ok True have t: "fst st \<le> clock e 0" "t0 \<le> clock e 0" "clock e 0 \<le> clock e 1" "clock e 1 \<le> t0 + guess_span"
    and nf: "\<not> fault e 2" "\<not> fault e 3" and wrong: "\<forall>u \<in> set (users (dir (snd st))). u_email u = em \<longrightarrow> \<not> cmp e (u_hash u) (lg_password q)"
    by (simp_all add: wrong_guess_def Let_def e_def)
  note after = handleLogin_wrong [OF authenticated_wrong [OF wrong] True]
  show ?thesis
  proof (cases "tries_password em st q = 0")
    case True
    with \<open>ToLower (lg_email q) = em\<close> have "lockouts (snd (guess_step em st q)) = tbl"
      using after by (auto simp: guess_step_def tries_password_def lg_body_def e_def tbl_def split: if_splits)
    moreover have "fst (guess_step em st q) = clock e 1" using \<open>ToLower (lg_email q) = em\<close> by (simp add: guess_step_def e_def)
    ultimately show ?thesis using True inv t
      by (auto simp: lockout_ok_def guess_budget_def tbl_def intro: row_ok_later)
  next
    case False
    then have tried: "is_ok (decodeBody (Some (lg_email q, lg_password q)))" "\<not> fault e 0" "\<not> is_locked tbl (clock e 0) em" "tries_password em st q = 1"
      by (auto simp: tries_password_def lg_body_def e_def tbl_def split: if_splits)
    have "row_ok (fst st) r \<and> \<not> (hasLocked r \<and> clock e 0 < lockedUntil r)" if "map_of tbl em = Some r" for r
      using that inv tried(3) by (auto simp: lockout_ok_def tbl_def is_locked_iff)
    from RecordFailure_decide_pays [OF this t(1-4)]
    obtain r' where r': "RecordFailure_decide (clock e 1) (map_of tbl em) = Inr r'" "row_ok (clock e 1) r'"
      "1 + row_budget t0 (Some r') \<le> row_budget t0 (map_of tbl em)" by auto
    have "snd (RecordFailure (fault e 2) (fault e 3) (clock e 1) em tbl) = map_put em r' tbl"
      using nf r'(1) by (simp add: RecordFailure_def load_lockout_def)
    with after tried True have "lockouts (snd (guess_step em st q)) = map_put em r' tbl" "fst (guess_step em st q) = clock e 1"
      by (simp_all add: guess_step_def lg_body_def e_def tbl_def)
    with r' tried(4) show ?thesis by (simp add: lockout_ok_def guess_budget_def tbl_def)
  qed
qed

interpretation guessing: budget "guess_step em" "tries_password em" "wrong_guess em t0" "lockout_ok em" "guess_budget em t0" for em t0
  using guess_step_pays by unfold_locales blast+

text \<open>The number of passwords that a run of login requests tries against an account, and the runs of wrong guesses.\<close>

fun passwords_tried :: "string \<Rightarrow> guess_state \<Rightarrow> login_request list \<Rightarrow> nat" where
  "passwords_tried em st [] = 0"
| "passwords_tried em st (q # qs) = tries_password em st q + passwords_tried em (guess_step em st q) qs"

fun wrong_guesses :: "string \<Rightarrow> int \<Rightarrow> guess_state \<Rightarrow> login_request list \<Rightarrow> bool" where
  "wrong_guesses em t0 st [] = True"
| "wrong_guesses em t0 st (q # qs) = (wrong_guess em t0 st q \<and> wrong_guesses em t0 (guess_step em st q) qs)"

lemma passwords_tried_total: "passwords_tried em st qs = guessing.total_cost em st qs"
  by (induction qs arbitrary: st) simp_all

lemma wrong_guesses_run: "wrong_guesses em t0 st qs = guessing.ok_run em t0 st qs"
  by (induction qs arbitrary: st) simp_all

text \<open>
  C1. Whatever other accounts do, no more than 8 passwords are tried against an account in any span of
  \<open>guess_span\<close> (one second less than a window) of wrong guesses whose failures are recorded: three
  that complete an older window without filling it, and five in a window of their own, the last of which locks.
\<close>

theorem login_guess_bound:
  assumes "lockout_ok em st" "wrong_guesses em t0 st qs"
  shows "passwords_tried em st qs \<le> 8"
proof -
  have "guess_budget em t0 st \<le> 8"
    using assms(1) row_budget_le [of "map_of (lockouts (snd st)) em" "fst st" t0] by (auto simp: guess_budget_def lockout_ok_def)
  then show ?thesis
    using guessing.total_cost_le_pot [of em st t0 qs] assms by (simp add: passwords_tried_total wrong_guesses_run)
qed

definition sample_env :: "int \<Rightarrow> auth_env" where
  "sample_env t = \<lparr> fault = (\<lambda>_. False), clock = (\<lambda>_. t), cmp = (\<lambda>h p. h = p), hash_pw = (\<lambda>p. Some p), sign = (\<lambda>c. Some (c_email c)),
     accessExpiry = Hour, refreshExpiry = 24 * Hour, sender = False, gen_token = Some ''rt'', gen_family = Some ''fam'', gen_verify = None \<rparr>"

definition sample_state :: auth_state where
  "sample_state = \<lparr> lockouts = [], dir = empty_directory\<lparr> users := [new_user 1 ''a@b'' ''secret'' ''admin''], next_user := 2 \<rparr>,
     refresh = \<lparr> rt_rows = [], rt_next = 1 \<rparr>, outbox = [] \<rparr>"

definition sample_guess :: "int \<Rightarrow> string \<Rightarrow> login_request" where
  "sample_guess t pw = \<lparr> lg_env = sample_env t, lg_email = ''A@b'', lg_password = pw \<rparr>"

text \<open>Six wrong passwords for one account in six seconds: five are tried, the sixth is refused.\<close>

definition sample_guesses :: "login_request list" where
  "sample_guesses = map (\<lambda>t. sample_guess (t * Second) ''wrong'') [1, 2, 3, 4, 5, 6]"

lemma login_guess_bound_witness:
  "passwords_tried ''a@b'' (0, sample_state) sample_guesses \<le> 8 \<and> passwords_tried ''a@b'' (0, sample_state) sample_guesses = 5"
proof
  have "lockout_ok ''a@b'' (0, sample_state)" by (simp add: lockout_ok_def sample_state_def)
  moreover have "wrong_guesses ''a@b'' 0 (0, sample_state) sample_guesses" by code_simp
  ultimately show "passwords_tried ''a@b'' (0, sample_state) sample_guesses \<le> 8" by (rule login_guess_bound)
qed code_simp

section \<open>Where the bound stops\<close>

text \<open>
  \<open>RecordFailure\<close> reads the row and writes it back in two statements. Two failures that both read before
  either writes are counted once, so requests sent in parallel are not bounded by the lockout.
\<close>

lemma parallel_failures_counted_once:
  assumes "map_of tbl em = Some r" "\<not> hasLocked r" "now - windowStart r < loginFailureWindow" "failedCount r < 4"
  shows "\<exists>r'. RecordFailure_decide now (map_of tbl em) = Inr r' \<and> map_put em r' (map_put em r' tbl) = map_put em r' tbl
    \<and> failedCount r' = Suc (failedCount r) \<and> \<not> hasLocked r'"
  using assms by (auto simp: RecordFailure_decide_def)

text \<open>A failure that cannot be recorded is answered like any other, and the account keeps its count.\<close>

lemma unrecorded_failure_uncounted:
  "fault e 3 \<Longrightarrow> lockouts (snd (respondLoginFailure e email s)) = lockouts s"
  by (simp add: respondLoginFailure_lockouts RecordFailure_def split: sum.split)

text \<open>A registration that succeeds makes an account that can sign in with its password, and no other password
  is accepted for it unless the hash accepts it.\<close>

lemma authenticated_iff:
  assumes "distinct (map u_email (users (dir s)))" "\<not> fault e 1" "u \<in> set (users (dir s))" "u_email u = email"
  shows "authenticated e email pw s = (if cmp e (u_hash u) pw then Some u else None)"
proof -
  have "find (\<lambda>x. u_email x = email) (users (dir s)) = Some u"
    using find_by_key [OF assms(1) assms(3)] assms(4) by simp
  then show ?thesis using assms(2) by (simp add: authenticated_def find_user_def)
qed

end
