(* ===== verification/Auth_Reset.thy ===== *)
theory Auth_Reset
  imports Auth_Login
begin

text \<open>
  Password reset (\<^verbatim>\<open>components/auth/passwordreset.go\<close>): requesting a token and spending it. The token
  column is unique, and a request has its clock, its random token, the hash function and its failing
  statements as inputs. Audit records are left out.
\<close>

section \<open>Tokens\<close>

record reset_row =
  rp_id :: nat
  rp_user :: nat
  rp_token :: string
  rp_expires :: int
  rp_used :: bool

record reset_state =
  rs_dir :: directory
  rs_rows :: "reset_row list"
  rs_next :: nat
  rs_mail :: "(string \<times> string) list"

abbreviation resetTokenExpiry :: int where "resetTokenExpiry \<equiv> Hour"

definition storeResetToken :: "bool \<Rightarrow> int \<Rightarrow> nat \<Rightarrow> string \<Rightarrow> reset_state \<Rightarrow> bool \<times> reset_state" where
  "storeResetToken bad now uid tok s =
     (if bad \<or> tok \<in> set (map rp_token (rs_rows s)) then (False, s)
      else (True, s\<lparr> rs_rows := rs_rows s @ [\<lparr> rp_id = rs_next s, rp_user = uid, rp_token = tok, rp_expires = rfc3339 (now + resetTokenExpiry), rp_used = False \<rparr>],
                     rs_next := Suc (rs_next s) \<rparr>))"

definition sendResetEmail :: "bool \<Rightarrow> string \<Rightarrow> string \<Rightarrow> reset_state \<Rightarrow> reset_state" where
  "sendResetEmail configured email tok s = (if configured then s\<lparr> rs_mail := rs_mail s @ [(email, tok)] \<rparr> else s)"

text \<open>The text of the mail, and the parser that tests use on it.\<close>

definition reset_link :: string where
  "reset_link = ''reset-password?token=''"

definition reset_mail_body :: "string \<Rightarrow> string" where
  "reset_mail_body tok = ''Click the link to reset your password:'' @ [CHR 0x0A] @ ''/api/auth/'' @ reset_link @ tok @ [CHR 0x0A, CHR 0x0A]
     @ ''Or use the token: '' @ tok"

fun after_first :: "string \<Rightarrow> string \<Rightarrow> string option" where
  "after_first p [] = (if p = [] then Some [] else None)"
| "after_first p (x # xs) = (if prefix p (x # xs) then Some (drop (length p) (x # xs)) else after_first p xs)"

definition ExtractResetToken :: "string \<Rightarrow> string" where
  "ExtractResetToken body = (case after_first reset_link body of
     None \<Rightarrow> []
   | Some rest \<Rightarrow> TrimSpace (takeWhile (\<lambda>c. c \<noteq> CHR 0x0A) rest))"

section \<open>The handlers\<close>

abbreviation forgot_ok :: answer where
  "forgot_ok \<equiv> Reply 200 ''if that email exists, a reset link has been sent''"

definition handleForgotPassword :: "auth_env \<Rightarrow> bool \<Rightarrow> string option \<Rightarrow> reset_state \<Rightarrow> answer \<times> reset_state" where
  "handleForgotPassword e post body s =
     (if \<not> post then (Reply 405 ''method not allowed'', s)
      else (case body of
          None \<Rightarrow> (Reply 400 ''invalid json'', s)
        | Some email0 \<Rightarrow>
            if email0 = [] then (Reply 400 ''email required'', s)
            else (let email = ToLower email0 in
              case (if fault e 0 then None else find_user (\<lambda>u. u_email u = email) (rs_dir s)) of
                None \<Rightarrow> (forgot_ok, s)
              | Some u \<Rightarrow> (case gen_token e of
                    None \<Rightarrow> (Reply 500 ''internal error'', s)
                  | Some tok \<Rightarrow> (case storeResetToken (fault e 1) (clock e 0) (u_id u) tok s of
                        (False, s') \<Rightarrow> (Reply 500 ''internal error'', s')
                      | (True, s') \<Rightarrow> (forgot_ok, sendResetEmail (sender e) email tok s'))))))"

text \<open>Spending a token: the checks on the row read, then the two updates. The second one may fail: the
  password is changed by then, and the answer is the same.\<close>

definition reset_check :: "auth_env \<Rightarrow> string \<Rightarrow> string \<Rightarrow> reset_state \<Rightarrow> (answer, reset_row \<times> string) res" where
  "reset_check e tok pw s = (case (if fault e 0 then None else find (\<lambda>r. rp_token r = tok) (rs_rows s)) of
     None \<Rightarrow> Inl (Reply 400 ''invalid or expired token'')
   | Some r \<Rightarrow>
       if rp_used r then Inl (Reply 400 ''invalid or expired token'')
       else if rp_expires r < clock e 0 then Inl (Reply 400 ''invalid or expired token'')
       else (case hash_pw e pw of None \<Rightarrow> Inl (Reply 500 ''internal error'') | Some h \<Rightarrow> Inr (r, h)))"

definition reset_write :: "auth_env \<Rightarrow> reset_row \<times> string \<Rightarrow> reset_state \<Rightarrow> answer \<times> reset_state" where
  "reset_write e rh s = (case rh of (r, h) \<Rightarrow>
     if fault e 1 then (Reply 500 ''internal error'', s)
     else (Reply 200 ''password updated'',
       s\<lparr> rs_dir := update_user (rp_user r) (\<lambda>u. u\<lparr> u_hash := h \<rparr>) (rs_dir s),
          rs_rows := (if fault e 2 then rs_rows s else map (\<lambda>x. if rp_id x = rp_id r then x\<lparr> rp_used := True \<rparr> else x) (rs_rows s)) \<rparr>))"

definition handleResetPassword :: "auth_env \<Rightarrow> bool \<Rightarrow> (string \<times> string) option \<Rightarrow> reset_state \<Rightarrow> answer \<times> reset_state" where
  "handleResetPassword e post body s =
     (if \<not> post then (Reply 405 ''method not allowed'', s)
      else (case body of
          None \<Rightarrow> (Reply 400 ''invalid json'', s)
        | Some (tok, pw) \<Rightarrow>
            if tok = [] then (Reply 400 ''token required'', s)
            else if length pw < minPasswordLen then (Reply 400 ''password must be at least 6 characters'', s)
            else (case reset_check e tok pw s of Inl a \<Rightarrow> (a, s) | Inr rh \<Rightarrow> reset_write e rh s)))"

section \<open>The mail round trip\<close>

definition is_hex :: "char \<Rightarrow> bool" where
  "is_hex c = (c \<in> set ''0123456789abcdef'')"

lemma is_hex_plain: "is_hex c \<Longrightarrow> \<not> is_space c \<and> c \<noteq> CHR 0x0A"
  by (auto simp: is_space_def is_hex_def)

lemma TrimSpace_plain: "list_all (\<lambda>c. \<not> is_space c) s \<Longrightarrow> TrimSpace s = s"
proof -
  assume "list_all (\<lambda>c. \<not> is_space c) s"
  then have "dropWhile is_space s = s" "dropWhile is_space (rev s) = rev s"
    by (auto simp: dropWhile_eq_self_iff list_all_iff hd_rev)
  then show ?thesis by (simp add: TrimSpace_def TrimLeftFn_def TrimRightFn_def)
qed

lemma ExtractResetToken_mail:
  assumes "list_all is_hex tok"
  shows "ExtractResetToken (reset_mail_body tok) = tok"
proof -
  have plain: "\<forall>c \<in> set tok. c \<noteq> CHR 0x0A" "list_all (\<lambda>c. \<not> is_space c) tok"
    using assms is_hex_plain unfolding list_all_iff by blast+
  have "after_first reset_link (reset_mail_body tok) = Some (tok @ [CHR 0x0A, CHR 0x0A] @ ''Or use the token: '' @ tok)"
    by (simp add: reset_mail_body_def reset_link_def)
  then show ?thesis using plain by (simp add: ExtractResetToken_def takeWhile_append2 TrimSpace_plain)
qed

section \<open>A token is spent once\<close>

datatype reset_op = Forgot auth_env "string option" | Reset auth_env "(string \<times> string) option"

fun reset_step :: "reset_state \<Rightarrow> reset_op \<Rightarrow> reset_state" where
  "reset_step s (Forgot e body) = snd (handleForgotPassword e True body s)"
| "reset_step s (Reset e body) = snd (handleResetPassword e True body s)"

definition spends :: "string \<Rightarrow> reset_state \<Rightarrow> reset_op \<Rightarrow> nat" where
  "spends tok s op = (case op of
     Reset e (Some (tk, pw)) \<Rightarrow> if tk = tok \<and> fst (handleResetPassword e True (Some (tk, pw)) s) = Reply 200 ''password updated'' then 1 else 0
   | _ \<Rightarrow> 0)"

definition marks :: "reset_state \<Rightarrow> reset_op \<Rightarrow> bool" where
  "marks s op = (case op of Reset e _ \<Rightarrow> \<not> fault e 2 | _ \<Rightarrow> True)"

definition resets_ok :: "reset_state \<Rightarrow> bool" where
  "resets_ok s = (distinct (map rp_token (rs_rows s)) \<and> distinct (map rp_id (rs_rows s)) \<and> (\<forall>r \<in> set (rs_rows s). rp_id r < rs_next s))"

definition unspent :: "string \<Rightarrow> reset_state \<Rightarrow> nat" where
  "unspent tok s = (if \<exists>r \<in> set (rs_rows s). rp_token r = tok \<and> rp_used r then 0 else 1)"

lemma handleForgotPassword_rows:
  "rs_rows (snd (handleForgotPassword e post body s)) = rs_rows s \<and> rs_next (snd (handleForgotPassword e post body s)) = rs_next s
   \<or> (\<exists>r. rs_rows (snd (handleForgotPassword e post body s)) = rs_rows s @ [r] \<and> rs_next (snd (handleForgotPassword e post body s)) = Suc (rs_next s)
        \<and> rp_token r \<notin> set (map rp_token (rs_rows s)) \<and> rp_id r = rs_next s \<and> \<not> rp_used r)"
  by (auto simp: handleForgotPassword_def Let_def storeResetToken_def sendResetEmail_def split: option.split)

lemma handleResetPassword_cases:
  obtains (refused) a where "handleResetPassword e post body s = (a, s)" "a \<noteq> Reply 200 ''password updated''"
  | (spent) tok pw r h where "body = Some (tok, pw)" "post" "minPasswordLen \<le> length pw" "r \<in> set (rs_rows s)" "rp_token r = tok" "\<not> rp_used r"
      "clock e 0 \<le> rp_expires r" "hash_pw e pw = Some h" "handleResetPassword e post body s = reset_write e (r, h) s" "\<not> fault e 1"
proof (cases "reset_check e (fst (the body)) (snd (the body)) s")
  case (Inl a)
  then have "a \<noteq> Reply 200 ''password updated''" by (auto simp: reset_check_def split: option.splits if_splits)
  with Inl show thesis by (intro refused [of "fst (handleResetPassword e post body s)"])
      (auto simp: handleResetPassword_def split: option.split)
next
  case (Inr rh)
  obtain r h where rh: "rh = (r, h)" by force
  with Inr have r: "find (\<lambda>r. rp_token r = fst (the body)) (rs_rows s) = Some r" "\<not> rp_used r" "clock e 0 \<le> rp_expires r" "hash_pw e (snd (the body)) = Some h"
    by (auto simp: reset_check_def split: option.splits if_splits)
  from r(1) have mem: "r \<in> set (rs_rows s)" "rp_token r = fst (the body)" by (auto simp: find_Some_iff)
  show thesis
  proof (cases "post \<and> body \<noteq> None \<and> fst (the body) \<noteq> [] \<and> minPasswordLen \<le> length (snd (the body)) \<and> \<not> fault e 1")
    case True
    then obtain tok pw where b: "body = Some (tok, pw)" by force
    show thesis by (rule spent [of tok pw r h]) (use True b r mem Inr rh in \<open>auto simp: handleResetPassword_def\<close>)
  next
    case False
    with Inr rh show thesis by (intro refused [of "fst (handleResetPassword e post body s)"])
      (auto simp: handleResetPassword_def reset_write_def split: option.splits if_splits)
  qed
qed

lemma mark_keeps_keys:
  "map rp_token (map (\<lambda>x. if rp_id x = i then x\<lparr> rp_used := True \<rparr> else x) xs) = map rp_token xs"
  "map rp_id (map (\<lambda>x. if rp_id x = i then x\<lparr> rp_used := True \<rparr> else x) xs) = map rp_id xs"
  by simp_all

lemma mark_spends: "(\<exists>x \<in> set (map (\<lambda>x. if rp_id x = i then x\<lparr> rp_used := True \<rparr> else x) xs). rp_token x = tok \<and> rp_used x)
    \<longleftrightarrow> (\<exists>x \<in> set xs. rp_token x = tok \<and> (rp_used x \<or> rp_id x = i))"
  by (induction xs) auto

lemma spends_Reset_refused: "handleResetPassword e True body s = (a, s) \<Longrightarrow> a \<noteq> Reply 200 ''password updated'' \<Longrightarrow> spends tok s (Reset e body) = 0"
  by (auto simp: spends_def split: option.split)

lemma reset_step_ok:
  assumes ok: "resets_ok s" and op: "marks s op"
  shows "resets_ok (reset_step s op) \<and> spends tok s op + unspent tok (reset_step s op) \<le> unspent tok s"
proof (cases op)
  case (Forgot e body)
  then have z: "spends tok s op = 0" by (simp add: spends_def)
  from handleForgotPassword_rows [of e True body s] consider
      "rs_rows (reset_step s op) = rs_rows s" "rs_next (reset_step s op) = rs_next s"
    | r where "rs_rows (reset_step s op) = rs_rows s @ [r]" "rs_next (reset_step s op) = Suc (rs_next s)"
        "rp_token r \<notin> set (map rp_token (rs_rows s))" "rp_id r = rs_next s" "\<not> rp_used r"
    using Forgot by auto
  then show ?thesis using ok z by cases (auto simp: resets_ok_def unspent_def less_SucI)
next
  case (Reset e body)
  show ?thesis
  proof (cases rule: handleResetPassword_cases [of e True body s])
    case (refused a)
    then show ?thesis using ok Reset spends_Reset_refused [OF refused] by simp
  next
    case (spent tk pw r h)
    have f: "\<not> fault e 2" using op Reset by (simp add: marks_def)
    have rows: "rs_rows (reset_step s op) = map (\<lambda>x. if rp_id x = rp_id r then x\<lparr> rp_used := True \<rparr> else x) (rs_rows s)"
      and "next": "rs_next (reset_step s op) = rs_next s"
      using spent f Reset by (simp_all add: reset_write_def)
    have "resets_ok (reset_step s op)" using ok spent(4) "next" rows by (simp add: resets_ok_def mark_keeps_keys ball_Un del: map_map)
    moreover have "unspent tok (reset_step s op) \<le> unspent tok s" unfolding unspent_def rows mark_spends by auto
    moreover have "unspent tk (reset_step s op) = 0" using spent unfolding unspent_def rows mark_spends by auto
    moreover have "unspent tk s = 1"
      using ok spent by (auto simp: unspent_def resets_ok_def distinct_map inj_on_def)
    moreover have "spends tok s op \<le> 1" "tok \<noteq> tk \<Longrightarrow> spends tok s op = 0" using Reset spent(1) by (auto simp: spends_def)
    ultimately show ?thesis by (cases "tok = tk") auto
  qed
qed

interpretation reset_tokens: budget reset_step "spends tok" marks resets_ok "unspent tok" for tok
  using reset_step_ok by unfold_locales blast+

fun times_spent :: "string \<Rightarrow> reset_state \<Rightarrow> reset_op list \<Rightarrow> nat" where
  "times_spent tok s [] = 0"
| "times_spent tok s (op # ops) = spends tok s op + times_spent tok (reset_step s op) ops"

lemma times_spent_total: "times_spent tok s ops = reset_tokens.total_cost tok s ops"
  by (induction ops arbitrary: s) simp_all

lemma marks_run: "list_all (marks s0) ops \<Longrightarrow> reset_tokens.ok_run s ops"
  by (induction ops arbitrary: s) (auto simp: marks_def)

text \<open>
  However forgot-password and reset requests follow each other, a reset token changes a password at
  most once, as long as the statements that mark tokens as used do not fail.
\<close>

lemma reset_token_single_use:
  assumes "resets_ok s" "list_all (marks s) ops"
  shows "times_spent tok s ops \<le> 1"
proof -
  have "unspent tok s \<le> 1" by (simp add: unspent_def)
  then show ?thesis using reset_tokens.total_cost_le_pot [OF assms(1) marks_run [OF assms(2)], of tok] by (simp add: times_spent_total)
qed

definition reset_sample :: reset_state where
  "reset_sample = \<lparr> rs_dir = dir sample_state, rs_rows = [], rs_next = 1, rs_mail = [] \<rparr>"

lemma reset_token_single_use_witness:
  "let ops = [Forgot (sample_env 0) (Some ''A@b''), Reset (sample_env Second) (Some (''rt'', ''longer'')), Reset (sample_env Second) (Some (''rt'', ''again'' @ ''1''))] in
   times_spent ''rt'' reset_sample ops \<le> 1 \<and> times_spent ''rt'' reset_sample ops = 1"
proof -
  let ?ops = "[Forgot (sample_env 0) (Some ''A@b''), Reset (sample_env Second) (Some (''rt'', ''longer'')), Reset (sample_env Second) (Some (''rt'', ''again'' @ ''1''))]"
  have "resets_ok reset_sample" "list_all (marks reset_sample) ?ops" by code_simp+
  then have "times_spent ''rt'' reset_sample ?ops \<le> 1" by (rule reset_token_single_use)
  moreover have "times_spent ''rt'' reset_sample ?ops = 1" by code_simp
  ultimately show ?thesis by simp
qed

text \<open>A reset changes the hash of the token's account and of no other, and nothing else of the directory.\<close>

lemma handleResetPassword_effect:
  assumes "fst (handleResetPassword e True (Some (tok, pw)) s) = Reply 200 ''password updated''"
  obtains r h where "r \<in> set (rs_rows s)" "rp_token r = tok" "\<not> rp_used r" "clock e 0 \<le> rp_expires r" "hash_pw e pw = Some h"
    "rs_dir (snd (handleResetPassword e True (Some (tok, pw)) s)) = update_user (rp_user r) (\<lambda>u. u\<lparr> u_hash := h \<rparr>) (rs_dir s)"
proof (cases rule: handleResetPassword_cases [of e True "Some (tok, pw)" s])
  case (refused a)
  with assms show thesis by simp
next
  case (spent tk pw' r h)
  then show thesis by (intro that [of r h]) (auto simp: reset_write_def)
qed

section \<open>Where single use stops\<close>

text \<open>
  The check and the update are separate statements: two requests that both check before either writes
  both change the password. The same token also works again when marking it fails.
\<close>

lemma parallel_resets_both_succeed:
  assumes "reset_check e tok p1 s = Inr rh1" "reset_check e' tok p2 s = Inr rh2" "\<not> fault e 1" "\<not> fault e' 1"
  shows "fst (reset_write e rh1 s) = Reply 200 ''password updated'' \<and> fst (reset_write e' rh2 (snd (reset_write e rh1 s))) = Reply 200 ''password updated''"
  using assms by (simp add: reset_write_def split: prod.split)

lemma unmarked_token_stays_live:
  assumes "fault e 2" "reset_check e tok pw s = Inr rh"
  shows "reset_check e tok pw' (snd (reset_write e rh s)) = reset_check e tok pw' s"
  using assms by (auto simp: reset_write_def reset_check_def split: prod.split)

end
