(* ===== verification/Auth_Codes.thy ===== *)
theory Auth_Codes
  imports Auth_Login "HOL-Library.Word"
begin

text \<open>
  Passwordless sign-in of \<^verbatim>\<open>components/auth\<close>: the stores of one-time codes and send limits (\<^verbatim>\<open>store.go\<close>), codes by
  e-mail (\<^verbatim>\<open>otp.go\<close>) and by phone (\<^verbatim>\<open>phone.go\<close>), and magic links (\<^verbatim>\<open>magiclink.go\<close>).

  SHA-256, the HMAC and the random bytes are inputs of a request. Statement numbers of a request: 0 and 1
  for the send limit, 2 for storing a code, 3 and 4 for reading and consuming one, 10 to 14 for the account.
  The redirect that ends a magic link and audit records are left out.
\<close>

section \<open>The stores\<close>

record otpRecord =
  codeHash :: string
  expiresAt :: int
  attempts :: nat

type_synonym otp_table = "(string, otpRecord) go_map"
type_synonym rate_table = "(string, nat \<times> int) go_map"

definition OTP_Store :: "bool \<Rightarrow> string \<Rightarrow> string \<Rightarrow> int \<Rightarrow> otp_table \<Rightarrow> bool \<times> otp_table" where
  "OTP_Store bad key h exp tbl = (if bad then (False, tbl)
     else (True, map_put key \<lparr> codeHash = h, expiresAt = rfc3339 exp, attempts = 0 \<rparr> tbl))"

definition OTP_Get :: "bool \<Rightarrow> string \<Rightarrow> otp_table \<Rightarrow> (unit, otpRecord option) res" where
  "OTP_Get bad key tbl = (if bad then Inl () else Inr (map_of tbl key))"

definition RecordAttempt :: "bool \<Rightarrow> string \<Rightarrow> otp_table \<Rightarrow> otp_table" where
  "RecordAttempt bad key tbl = (case map_of tbl key of
     Some r \<Rightarrow> if bad then tbl else map_put key (r\<lparr> attempts := attempts r + 1 \<rparr>) tbl
   | None \<Rightarrow> tbl)"

definition OTP_Delete :: "bool \<Rightarrow> string \<Rightarrow> otp_table \<Rightarrow> otp_table" where
  "OTP_Delete bad key tbl = (if bad then tbl else map_del key tbl)"

definition Increment :: "bool \<Rightarrow> bool \<Rightarrow> string \<Rightarrow> int \<Rightarrow> nat \<Rightarrow> int \<Rightarrow> rate_table \<Rightarrow> (unit, bool) res \<times> rate_table" where
  "Increment bad_query bad_exec key win mx now tbl =
     (if bad_query then (Inl (), tbl)
      else (case map_of tbl key of
          None \<Rightarrow> if bad_exec then (Inl (), tbl) else (Inr True, map_put key (1, rfc3339 win) tbl)
        | Some (n, stored) \<Rightarrow>
            if now - stored < Hour then
              (if bad_exec then (Inl (), tbl)
               else if n < mx then (Inr True, map_put key (n + 1, stored) tbl) else (Inr False, tbl))
            else if bad_exec then (Inl (), tbl) else (Inr True, map_put key (1, rfc3339 win) tbl)))"

section \<open>Codes\<close>

abbreviation otpTTL :: int where "otpTTL \<equiv> 5 * Minute"
abbreviation maxOTPAttempts :: nat where "maxOTPAttempts \<equiv> 3"
abbreviation maxOTPsPerHour :: nat where "maxOTPsPerHour \<equiv> 3"

text \<open>\<^verbatim>\<open>%06d\<close> of a number below a million.\<close>

definition six_digits :: "int \<Rightarrow> string" where
  "six_digits n = map (\<lambda>p. char_of (48 + n div 10 ^ p mod 10 :: int)) [5, 4, 3, 2, 1, 0]"

text \<open>A 64-bit integer holds four bytes without a sign, so the negation of the code is never taken.\<close>

definition generateOTP :: "(8 word \<times> 8 word \<times> 8 word \<times> 8 word) option \<Rightarrow> string" where
  "generateOTP bytes = (case bytes of
     None \<Rightarrow> ''000000''
   | Some (b0, b1, b2, b3) \<Rightarrow> six_digits ((uint b0 * 2 ^ 24 + uint b1 * 2 ^ 16 + uint b2 * 2 ^ 8 + uint b3) mod 1000000))"

record magicLinkRecord =
  ml_email :: string
  ml_hash :: string
  ml_expires :: int
  ml_used :: bool

record codes_state =
  otpStore :: otp_table
  rateLimits :: rate_table
  mlStore :: "(string, magicLinkRecord) go_map"
  accounts :: auth_state
  sent :: "(string \<times> string) list"

record code_env =
  ce :: auth_env
  sha256 :: "string \<Rightarrow> string"
  mac :: "string \<Rightarrow> string"
  rand4 :: "(8 word \<times> 8 word \<times> 8 word \<times> 8 word) option"
  rand_magic :: "string option"
  rand_pw :: string

text \<open>The send limit in front of the three send handlers.\<close>

definition limit_send :: "code_env \<Rightarrow> string \<Rightarrow> codes_state \<Rightarrow> (answer, unit) res \<times> codes_state" where
  "limit_send e key s =
     (case Increment (fault (ce e) 0) (fault (ce e) 1) key (clock (ce e) 0) maxOTPsPerHour (clock (ce e) 1) (rateLimits s) of
        (Inl _, r) \<Rightarrow> (Inl (Reply 500 ''internal server error''), s\<lparr> rateLimits := r \<rparr>)
      | (Inr False, r) \<Rightarrow> (Inl (Reply 429 ''too many requests''), s\<lparr> rateLimits := r \<rparr>)
      | (Inr True, r) \<Rightarrow> (Inr (), s\<lparr> rateLimits := r \<rparr>))"

definition issue_code :: "code_env \<Rightarrow> string \<Rightarrow> string \<Rightarrow> codes_state \<Rightarrow> answer \<times> codes_state" where
  "issue_code e key address s =
     (case limit_send e key s of
        (Inl a, s1) \<Rightarrow> (a, s1)
      | (Inr _, s1) \<Rightarrow>
          (let code = generateOTP (rand4 e) in
           case OTP_Store (fault (ce e) 2) key (sha256 e code) (clock (ce e) 0 + otpTTL) (otpStore s1) of
             (False, o1) \<Rightarrow> (Reply 500 ''internal server error'', s1\<lparr> otpStore := o1 \<rparr>)
           | (True, o1) \<Rightarrow> (Reply 200 ''ok'', s1\<lparr> otpStore := o1, sent := sent s1 @ [(address, code)] \<rparr>)))"

definition handleSendOTP :: "code_env \<Rightarrow> bool \<Rightarrow> string option \<Rightarrow> codes_state \<Rightarrow> answer \<times> codes_state" where
  "handleSendOTP e post body s =
     (if \<not> post then (Reply 405 ''method not allowed'', s)
      else if \<not> sender (ce e) then (Reply 404 ''OTP not configured'', s)
      else (case body of
          None \<Rightarrow> (Reply 400 ''email required'', s)
        | Some email0 \<Rightarrow> if email0 = [] then (Reply 400 ''email required'', s)
            else issue_code e (ToLower email0) (ToLower email0) s))"

definition phone_key :: "string \<Rightarrow> string" where
  "phone_key phone = ''phone:'' @ TrimSpace phone"

definition handleSendPhoneOTP :: "code_env \<Rightarrow> bool \<Rightarrow> string option \<Rightarrow> codes_state \<Rightarrow> answer \<times> codes_state" where
  "handleSendPhoneOTP e post body s =
     (if \<not> post then (Reply 405 ''method not allowed'', s)
      else if \<not> sender (ce e) then (Reply 404 ''phone auth not configured'', s)
      else (case body of
          None \<Rightarrow> (Reply 400 ''phone required'', s)
        | Some phone0 \<Rightarrow> if phone0 = [] then (Reply 400 ''phone required'', s)
            else issue_code e (phone_key phone0) (TrimSpace phone0) s))"

text \<open>Checking a code: the record must exist, have attempts left and be in date, and the hashes must agree.\<close>

definition live_record :: "code_env \<Rightarrow> string \<Rightarrow> otp_table \<Rightarrow> otpRecord option" where
  "live_record e key tbl = (case OTP_Get (fault (ce e) 3) key tbl of
     Inr (Some r) \<Rightarrow> if attempts r \<ge> maxOTPAttempts \<or> expiresAt r < clock (ce e) 0 then None else Some r
   | _ \<Rightarrow> None)"

definition consume_code :: "code_env \<Rightarrow> string \<Rightarrow> string \<Rightarrow> codes_state \<Rightarrow> (answer, unit) res \<times> codes_state" where
  "consume_code e key code s = (case OTP_Get (fault (ce e) 3) key (otpStore s) of
     Inl _ \<Rightarrow> (Inl (Reply 500 ''internal server error''), s)
   | Inr None \<Rightarrow> (Inl (Reply 401 ''invalid code''), s)
   | Inr (Some r) \<Rightarrow>
       if attempts r \<ge> maxOTPAttempts \<or> expiresAt r < clock (ce e) 0
       then (Inl (Reply 410 ''code expired''), s\<lparr> otpStore := OTP_Delete (fault (ce e) 4) key (otpStore s) \<rparr>)
       else if codeHash r \<noteq> sha256 e code
       then (Inl (Reply 401 ''invalid code''), s\<lparr> otpStore := RecordAttempt (fault (ce e) 4) key (otpStore s) \<rparr>)
       else (Inr (), s\<lparr> otpStore := OTP_Delete (fault (ce e) 4) key (otpStore s) \<rparr>))"

text \<open>The account and the session after a code or link has been accepted.\<close>

definition open_session :: "code_env \<Rightarrow> string \<Rightarrow> (unit, nat \<times> nat) res \<times> directory \<Rightarrow> codes_state \<Rightarrow> answer \<times> codes_state" where
  "open_session e email found s = (case found of
     (Inl _, d) \<Rightarrow> (Reply 500 ''internal error'', s\<lparr> accounts := (accounts s)\<lparr> dir := d \<rparr> \<rparr>)
   | (Inr (uid, oid), d) \<Rightarrow>
       (let a = (accounts s)\<lparr> dir := d \<rparr> in
        case createJWT (sign (ce e)) (clock (ce e) 2) uid email ''user'' oid (accessExpiry (ce e)) of
          None \<Rightarrow> (Reply 500 ''internal error'', s\<lparr> accounts := a \<rparr>)
        | Some tok \<Rightarrow> (case writeAuthResponse (ce e) 200 uid email tok a of (ans, a') \<Rightarrow> (ans, s\<lparr> accounts := a' \<rparr>))))"

definition handleVerifyOTP :: "code_env \<Rightarrow> bool \<Rightarrow> (string \<times> string) option \<Rightarrow> codes_state \<Rightarrow> answer \<times> codes_state" where
  "handleVerifyOTP e post body s =
     (if \<not> post then (Reply 405 ''method not allowed'', s)
      else (case body of
          None \<Rightarrow> (Reply 400 ''email and code required'', s)
        | Some (email0, code) \<Rightarrow> if email0 = [] \<or> code = [] then (Reply 400 ''email and code required'', s)
            else (let email = ToLower email0 in
              case consume_code e email code s of
                (Inl a, s1) \<Rightarrow> (a, s1)
              | (Inr _, s1) \<Rightarrow> open_session e email (findOrCreateEmailUser (\<lambda>n. fault (ce e) (n + 10)) (rand_pw e) email (dir (accounts s1))) s1)))"

definition handleVerifyPhoneOTP :: "code_env \<Rightarrow> bool \<Rightarrow> (string \<times> string) option \<Rightarrow> codes_state \<Rightarrow> answer \<times> codes_state" where
  "handleVerifyPhoneOTP e post body s =
     (if \<not> post then (Reply 405 ''method not allowed'', s)
      else (case body of
          None \<Rightarrow> (Reply 400 ''phone and code required'', s)
        | Some (phone0, code) \<Rightarrow> if phone0 = [] \<or> code = [] then (Reply 400 ''phone and code required'', s)
            else (let phone = TrimSpace phone0 in
              case consume_code e (phone_key phone0) code s of
                (Inl a, s1) \<Rightarrow> (a, s1)
              | (Inr _, s1) \<Rightarrow> open_session e (phone_email phone)
                  (findOrCreatePhoneUser (\<lambda>n. fault (ce e) (n + 10)) (rand_pw e) phone (dir (accounts s1))) s1)))"

section \<open>Magic links\<close>

definition handleSendMagicLink :: "code_env \<Rightarrow> bool \<Rightarrow> string option \<Rightarrow> codes_state \<Rightarrow> answer \<times> codes_state" where
  "handleSendMagicLink e post body s =
     (if \<not> post then (Reply 405 ''method not allowed'', s)
      else if \<not> sender (ce e) then (Reply 404 ''magic link not configured'', s)
      else (case body of
          None \<Rightarrow> (Reply 400 ''email required'', s)
        | Some email0 \<Rightarrow> if email0 = [] then (Reply 400 ''email required'', s)
            else (let email = ToLower email0 in
              case limit_send e email s of
                (Inl a, s1) \<Rightarrow> (a, s1)
              | (Inr _, s1) \<Rightarrow> (case rand_magic e of
                    None \<Rightarrow> (Reply 500 ''internal error'', s1)
                  | Some tok \<Rightarrow> (Reply 200 ''ok'',
                      s1\<lparr> mlStore := map_put tok \<lparr> ml_email = email, ml_hash = mac e tok, ml_expires = clock (ce e) 0 + 15 * Minute, ml_used = False \<rparr> (mlStore s1),
                          sent := sent s1 @ [(email, tok)] \<rparr>)))))"

text \<open>The token of a session opened by a link is delivered by a redirect, without a refresh token.\<close>

definition handleVerifyMagicLink :: "code_env \<Rightarrow> string \<Rightarrow> codes_state \<Rightarrow> answer \<times> codes_state" where
  "handleVerifyMagicLink e tok s =
     (if tok = [] then (Reply 400 ''token required'', s)
      else (case map_of (mlStore s) tok of
          None \<Rightarrow> (Reply 401 ''invalid or expired token'', s)
        | Some r \<Rightarrow>
            if ml_used r \<or> ml_expires r < clock (ce e) 0 then (Reply 401 ''invalid or expired token'', s)
            else if ml_hash r \<noteq> mac e tok then (Reply 401 ''invalid token'', s)
            else (let s1 = s\<lparr> mlStore := map_put tok (r\<lparr> ml_used := True \<rparr>) (mlStore s) \<rparr>; email = ml_email r in
              case findOrCreateEmailUser (\<lambda>n. fault (ce e) (n + 10)) (rand_pw e) email (dir (accounts s1)) of
                (Inl _, d) \<Rightarrow> (Reply 500 ''internal error'', s1\<lparr> accounts := (accounts s1)\<lparr> dir := d \<rparr> \<rparr>)
              | (Inr (uid, oid), d) \<Rightarrow>
                  (let s2 = s1\<lparr> accounts := (accounts s1)\<lparr> dir := d \<rparr> \<rparr> in
                   case createJWT (sign (ce e)) (clock (ce e) 2) uid email ''user'' oid (accessExpiry (ce e)) of
                     None \<Rightarrow> (Reply 500 ''internal error'', s2)
                   | Some jwt \<Rightarrow> (Session 302 uid email jwt [], s2)))))"

section \<open>The code store as an interface\<close>

locale otp_store =
  fixes store :: "string \<Rightarrow> string \<Rightarrow> int \<Rightarrow> 's \<Rightarrow> 's"
    and get :: "'s \<Rightarrow> string \<Rightarrow> otpRecord option"
    and attempt :: "string \<Rightarrow> 's \<Rightarrow> 's"
    and delete :: "string \<Rightarrow> 's \<Rightarrow> 's"
  assumes get_store: "get (store k h x s) k' = (if k' = k then Some \<lparr> codeHash = h, expiresAt = rfc3339 x, attempts = 0 \<rparr> else get s k')"
    and get_attempt: "get (attempt k s) k' = (if k' = k then map_option (\<lambda>r. r\<lparr> attempts := attempts r + 1 \<rparr>) (get s k) else get s k')"
    and get_delete: "get (delete k s) k' = (if k' = k then None else get s k')"
begin

text \<open>A new code starts its attempts from zero and replaces the old code.\<close>

lemma attempts_counted: "get ((attempt k ^^ n) (store k h x s)) k = Some \<lparr> codeHash = h, expiresAt = rfc3339 x, attempts = n \<rparr>"
  by (induction n) (simp_all add: get_store get_attempt)

lemma others_untouched: "k' \<noteq> k \<Longrightarrow> get ((attempt k ^^ n) (store k h x s)) k' = get s k'"
  by (induction n) (simp_all add: get_store get_attempt)

end

interpretation db_codes: otp_store "\<lambda>k h x s. snd (OTP_Store False k h x s)" map_of "RecordAttempt False" "OTP_Delete False"
  by unfold_locales (auto simp: OTP_Store_def RecordAttempt_def OTP_Delete_def split: option.split)

section \<open>How many codes can be guessed\<close>

datatype code_op =
    SendOTP code_env "string option"
  | VerifyOTP code_env "(string \<times> string) option"
  | SendPhone code_env "string option"
  | VerifyPhone code_env "(string \<times> string) option"
  | SendMagic code_env "string option"
  | VerifyMagic code_env string

fun code_step :: "codes_state \<Rightarrow> code_op \<Rightarrow> codes_state" where
  "code_step s (SendOTP e b) = snd (handleSendOTP e True b s)"
| "code_step s (VerifyOTP e b) = snd (handleVerifyOTP e True b s)"
| "code_step s (SendPhone e b) = snd (handleSendPhoneOTP e True b s)"
| "code_step s (VerifyPhone e b) = snd (handleVerifyPhoneOTP e True b s)"
| "code_step s (SendMagic e b) = snd (handleSendMagicLink e True b s)"
| "code_step s (VerifyMagic e tok) = snd (handleVerifyMagicLink e tok s)"

text \<open>A request guesses wrong against a key when it reaches the comparison and the hashes differ.\<close>

definition misses :: "code_env \<Rightarrow> string \<Rightarrow> string \<Rightarrow> codes_state \<Rightarrow> bool" where
  "misses e k code s = (case live_record e k (otpStore s) of None \<Rightarrow> False | Some r \<Rightarrow> codeHash r \<noteq> sha256 e code)"

fun wrong_code :: "string \<Rightarrow> codes_state \<Rightarrow> code_op \<Rightarrow> nat" where
  "wrong_code k s (VerifyOTP e (Some (email, code))) =
     (if email \<noteq> [] \<and> code \<noteq> [] \<and> ToLower email = k \<and> misses e k code s then 1 else 0)"
| "wrong_code k s (VerifyPhone e (Some (phone, code))) =
     (if phone \<noteq> [] \<and> code \<noteq> [] \<and> phone_key phone = k \<and> misses e k code s then 1 else 0)"
| "wrong_code k s _ = 0"

fun op_env :: "code_op \<Rightarrow> code_env" where
  "op_env (SendOTP e b) = e"
| "op_env (VerifyOTP e b) = e"
| "op_env (SendPhone e b) = e"
| "op_env (VerifyPhone e b) = e"
| "op_env (SendMagic e b) = e"
| "op_env (VerifyMagic e b) = e"

abbreviation code_span :: int where "code_span \<equiv> Hour - Second"

text \<open>Requests inside the span whose attempts are recorded.\<close>

definition code_op_ok :: "int \<Rightarrow> codes_state \<Rightarrow> code_op \<Rightarrow> bool" where
  "code_op_ok t0 s op = (let e = ce (op_env op) in t0 \<le> clock e 0 \<and> clock e 1 \<le> t0 + code_span \<and> \<not> fault e 4)"

definition rate_row_ok :: "(nat \<times> int) option \<Rightarrow> bool" where
  "rate_row_ok row = (case row of None \<Rightarrow> True | Some (n, _) \<Rightarrow> 1 \<le> n \<and> n \<le> maxOTPsPerHour)"

definition rates_ok :: "string \<Rightarrow> codes_state \<Rightarrow> bool" where
  "rates_ok k s = rate_row_ok (map_of (rateLimits s) k)"

definition sends_left :: "int \<Rightarrow> (nat \<times> int) option \<Rightarrow> nat" where
  "sends_left t0 row = (case row of None \<Rightarrow> 3 | Some (n, w) \<Rightarrow> if t0 - Second < w then 3 - n else 6 - n)"

definition attempts_left :: "otpRecord option \<Rightarrow> nat" where
  "attempts_left r = (case r of None \<Rightarrow> 0 | Some x \<Rightarrow> maxOTPAttempts - attempts x)"

definition code_budget :: "string \<Rightarrow> int \<Rightarrow> codes_state \<Rightarrow> nat" where
  "code_budget k t0 s = attempts_left (map_of (otpStore s) k) + 3 * sends_left t0 (map_of (rateLimits s) k)"

lemma code_budget_le: "rates_ok k s \<Longrightarrow> code_budget k t0 s \<le> 18"
proof -
  assume "rates_ok k s"
  then have "sends_left t0 (map_of (rateLimits s) k) \<le> 5"
    by (auto simp: sends_left_def rates_ok_def rate_row_ok_def split: option.split)
  moreover have "attempts_left (map_of (otpStore s) k) \<le> 3" by (simp add: attempts_left_def split: option.split)
  ultimately show ?thesis by (simp add: code_budget_def)
qed

lemma Increment_pays:
  assumes "rate_row_ok (map_of tbl k)" "t0 \<le> win" "now \<le> t0 + code_span"
  shows "rate_row_ok (map_of (snd (Increment b1 b2 key win maxOTPsPerHour now tbl)) k)
    \<and> (if key = k \<and> fst (Increment b1 b2 key win maxOTPsPerHour now tbl) = Inr True then 1 else 0)
      + sends_left t0 (map_of (snd (Increment b1 b2 key win maxOTPsPerHour now tbl)) k) \<le> sends_left t0 (map_of tbl k)"
proof -
  have "t0 - Second < rfc3339 win" using rfc3339_gt [of win] assms(2) by linarith
  with assms show ?thesis
    by (auto simp: Increment_def sends_left_def rate_row_ok_def split: option.splits)
qed

lemma limit_send_pays:
  assumes "rates_ok k s" "t0 \<le> clock (ce e) 0" "clock (ce e) 1 \<le> t0 + code_span"
  shows "rates_ok k (snd (limit_send e key s)) \<and> otpStore (snd (limit_send e key s)) = otpStore s
    \<and> (if key = k \<and> fst (limit_send e key s) = Inr () then 1 else 0) + sends_left t0 (map_of (rateLimits (snd (limit_send e key s))) k)
      \<le> sends_left t0 (map_of (rateLimits s) k)"
  using Increment_pays [of "rateLimits s" k t0 "clock (ce e) 0" "clock (ce e) 1" "fault (ce e) 0" "fault (ce e) 1" key] assms
  by (auto simp: limit_send_def rates_ok_def split: prod.splits sum.splits bool.splits)

lemma issue_code_pays:
  assumes "rates_ok k s" "t0 \<le> clock (ce e) 0" "clock (ce e) 1 \<le> t0 + code_span"
  shows "rates_ok k (snd (issue_code e key addr s)) \<and> code_budget k t0 (snd (issue_code e key addr s)) \<le> code_budget k t0 s"
  using limit_send_pays [OF assms, of key]
  by (cases "limit_send e key s")
    (auto simp: issue_code_def Let_def OTP_Store_def code_budget_def attempts_left_def rates_ok_def split: sum.splits if_splits)

lemma consume_code_pays:
  assumes "\<not> fault (ce e) 4"
  shows "rateLimits (snd (consume_code e key code s)) = rateLimits s
    \<and> (if key = k \<and> misses e k code s then 1 else 0) + code_budget k t0 (snd (consume_code e key code s)) \<le> code_budget k t0 s"
  using assms
  by (auto simp: consume_code_def misses_def live_record_def OTP_Get_def OTP_Delete_def RecordAttempt_def code_budget_def attempts_left_def
      split: option.splits)

lemma open_session_stores [simp]:
  "otpStore (snd (open_session e email found s)) = otpStore s" "rateLimits (snd (open_session e email found s)) = rateLimits s"
  by (auto simp: open_session_def Let_def split: prod.split sum.split option.split)

lemma handleVerifyMagicLink_stores [simp]:
  "otpStore (snd (handleVerifyMagicLink e tok s)) = otpStore s" "rateLimits (snd (handleVerifyMagicLink e tok s)) = rateLimits s"
  by (auto simp: handleVerifyMagicLink_def Let_def split: prod.split sum.split option.split)

lemma budget_ext: "otpStore s' = otpStore s \<Longrightarrow> rateLimits s' = rateLimits s \<Longrightarrow> code_budget k t0 s' = code_budget k t0 s \<and> rates_ok k s' = rates_ok k s"
  by (simp add: code_budget_def rates_ok_def)

lemma consume_session_pays:
  assumes "rates_ok k s" "\<not> fault (ce e) 4"
    and u: "u = snd (case consume_code e key code s of (Inl a, s1) \<Rightarrow> (a, s1) | (Inr _, s1) \<Rightarrow> open_session e em (f s1) s1)"
  shows "rates_ok k u" "(if key = k \<and> misses e k code s then 1 else 0) + code_budget k t0 u \<le> code_budget k t0 s"
proof -
  have "otpStore u = otpStore (snd (consume_code e key code s))" "rateLimits u = rateLimits (snd (consume_code e key code s))"
    unfolding u by (auto split: prod.split sum.split)
  with budget_ext [OF this] consume_code_pays [OF assms(2), of key code s k t0] assms(1)
  show "rates_ok k u" "(if key = k \<and> misses e k code s then 1 else 0) + code_budget k t0 u \<le> code_budget k t0 s"
    by (auto simp: rates_ok_def)
qed

lemma verify_pays:
  assumes "rates_ok k s" "\<not> fault (ce e) 4"
  shows "rates_ok k (snd (handleVerifyOTP e True b s)) \<and> wrong_code k s (VerifyOTP e b) + code_budget k t0 (snd (handleVerifyOTP e True b s)) \<le> code_budget k t0 s"
    and "rates_ok k (snd (handleVerifyPhoneOTP e True b s)) \<and> wrong_code k s (VerifyPhone e b) + code_budget k t0 (snd (handleVerifyPhoneOTP e True b s)) \<le> code_budget k t0 s"
proof -
  note pays = consume_session_pays [OF assms refl]
  show "rates_ok k (snd (handleVerifyOTP e True b s)) \<and> wrong_code k s (VerifyOTP e b) + code_budget k t0 (snd (handleVerifyOTP e True b s)) \<le> code_budget k t0 s"
  proof (cases "\<exists>em c. b = Some (em, c) \<and> em \<noteq> [] \<and> c \<noteq> []")
    case True
    then obtain em c where "b = Some (em, c)" "em \<noteq> []" "c \<noteq> []" by blast
    with pays [where key = "ToLower em" and code = c] show ?thesis by (simp add: handleVerifyOTP_def Let_def)
  qed (use assms in \<open>auto simp: handleVerifyOTP_def split: option.split\<close>)
  show "rates_ok k (snd (handleVerifyPhoneOTP e True b s)) \<and> wrong_code k s (VerifyPhone e b) + code_budget k t0 (snd (handleVerifyPhoneOTP e True b s)) \<le> code_budget k t0 s"
  proof (cases "\<exists>ph c. b = Some (ph, c) \<and> ph \<noteq> [] \<and> c \<noteq> []")
    case True
    then obtain ph c where "b = Some (ph, c)" "ph \<noteq> []" "c \<noteq> []" by blast
    with pays [where key = "phone_key ph" and code = c] show ?thesis by (simp add: handleVerifyPhoneOTP_def Let_def)
  qed (use assms in \<open>auto simp: handleVerifyPhoneOTP_def split: option.split\<close>)
qed

lemma send_pays:
  assumes "rates_ok k s" "t0 \<le> clock (ce e) 0" "clock (ce e) 1 \<le> t0 + code_span"
  shows "rates_ok k (snd (handleSendOTP e True b s)) \<and> code_budget k t0 (snd (handleSendOTP e True b s)) \<le> code_budget k t0 s"
    and "rates_ok k (snd (handleSendPhoneOTP e True b s)) \<and> code_budget k t0 (snd (handleSendPhoneOTP e True b s)) \<le> code_budget k t0 s"
  using assms issue_code_pays [OF assms] by (auto simp: handleSendOTP_def handleSendPhoneOTP_def split: option.split)

lemma magic_send_pays:
  assumes "rates_ok k s" "t0 \<le> clock (ce e) 0" "clock (ce e) 1 \<le> t0 + code_span"
  shows "rates_ok k (snd (handleSendMagicLink e True b s)) \<and> code_budget k t0 (snd (handleSendMagicLink e True b s)) \<le> code_budget k t0 s"
proof (cases "sender (ce e) \<and> (\<exists>em. b = Some em \<and> em \<noteq> [])")
  case True
  then obtain em where b: "b = Some em" "em \<noteq> []" by blast
  then show ?thesis using limit_send_pays [OF assms, of "ToLower em"] True
    by (cases "limit_send e (ToLower em) s")
      (auto simp: handleSendMagicLink_def Let_def code_budget_def rates_ok_def split: sum.split option.split if_splits)
qed (use assms in \<open>auto simp: handleSendMagicLink_def split: option.split\<close>)

lemma code_step_pays:
  assumes "rates_ok k s" "code_op_ok t0 s op"
  shows "rates_ok k (code_step s op) \<and> wrong_code k s op + code_budget k t0 (code_step s op) \<le> code_budget k t0 s"
  using assms verify_pays [of k s] send_pays [of k s t0] magic_send_pays [of k s t0] budget_ext [of "code_step s op" s k t0]
  by (cases op) (simp_all add: code_op_ok_def Let_def)

interpretation code_guessing: budget code_step "wrong_code k" "code_op_ok t0" "rates_ok k" "code_budget k t0" for k t0
  using code_step_pays by unfold_locales blast+

fun wrong_codes :: "string \<Rightarrow> codes_state \<Rightarrow> code_op list \<Rightarrow> nat" where
  "wrong_codes k s [] = 0"
| "wrong_codes k s (op # ops) = wrong_code k s op + wrong_codes k (code_step s op) ops"

lemma wrong_codes_total: "wrong_codes k s ops = code_guessing.total_cost k s ops"
  by (induction ops arbitrary: s) simp_all

lemma code_ops_run: "list_all (code_op_ok t0 s0) ops \<Longrightarrow> code_guessing.ok_run t0 s ops"
  by (induction ops arbitrary: s) (auto simp: code_op_ok_def)


definition sample_code_env :: "int \<Rightarrow> code_env" where
  "sample_code_env t = \<lparr> ce = (sample_env t)\<lparr> sender := True \<rparr>, sha256 = (\<lambda>c. c), mac = (\<lambda>c. c), rand4 = Some (0, 0, 1, 2), rand_magic = Some ''ml'', rand_pw = ''pw'' \<rparr>"

definition sample_codes :: codes_state where
  "sample_codes = \<lparr> otpStore = [], rateLimits = [], mlStore = [], accounts = sample_state, sent = [] \<rparr>"

definition sample_code_ops :: "code_op list" where
  "sample_code_ops = SendOTP (sample_code_env 0) (Some ''a@b'') # replicate 5 (VerifyOTP (sample_code_env Second) (Some (''a@b'', ''123456'')))"


section \<open>Single use\<close>

text \<open>A magic link opens at most one session: the flag is checked and set under one lock, and stays set.\<close>

lemma magic_link_spent:
  assumes "fst (handleVerifyMagicLink e tok s) = Session st uid em jwt rt"
  shows "\<exists>r. map_of (mlStore (snd (handleVerifyMagicLink e tok s))) tok = Some r \<and> ml_used r"
  using assms by (auto simp: handleVerifyMagicLink_def Let_def split: option.splits if_splits sum.splits prod.splits)

lemma spent_magic_link_refused:
  assumes "map_of (mlStore s) tok = Some r" "ml_used r" "tok \<noteq> []"
  shows "handleVerifyMagicLink e tok s = (Reply 401 ''invalid or expired token'', s)"
  using assms by (simp add: handleVerifyMagicLink_def)

text \<open>A code is deleted when it is accepted, so it opens one session unless the deletion fails.\<close>

lemma accepted_code_deleted:
  "fst (consume_code e key code s) = Inr () \<Longrightarrow> \<not> fault (ce e) 4 \<Longrightarrow> map_of (otpStore (snd (consume_code e key code s))) key = None"
  by (auto simp: consume_code_def OTP_Delete_def split: sum.splits option.splits if_splits)

section \<open>Where addresses get mixed up\<close>

text \<open>
  The phone handlers test for an empty number before they trim it, and the phone column of every account
  without a number is the empty string: a blank number signs in to the first such account.
\<close>

lemma blank_phone_signs_in:
  assumes "list_all is_space ph" "ph \<noteq> []" "code \<noteq> []" "fst (consume_code e ''phone:'' code s) = Inr ()"
    and "users (dir (accounts s)) = u # us" "u_phone u = []" "\<not> fault (ce e) 10" "\<And>c. sign (ce e) c \<noteq> None"
  shows "\<exists>em tok rt. fst (handleVerifyPhoneOTP e True (Some (ph, code)) s) = Session 200 (u_id u) em tok rt"
proof -
  have "dropWhile is_space ph = []" using assms(1) by (simp add: list_all_iff)
  then have trim: "TrimSpace ph = []" by (simp only: TrimSpace_def TrimLeftFn_def TrimRightFn_def) simp
  obtain s1 where s1: "consume_code e ''phone:'' code s = (Inr (), s1)" using assms(4) by (metis prod.collapse)
  have "accounts s1 = accounts s" using s1 by (auto simp: consume_code_def split: sum.splits option.splits if_splits)
  then have "findOrCreatePhoneUser (\<lambda>n. fault (ce e) (n + 10)) (rand_pw e) [] (dir (accounts s1)) = (Inr (u_id u, u_org u), dir (accounts s1))"
    using assms(5-7) by (simp add: findOrCreatePhoneUser_def find_user_def)
  moreover obtain tok where "createJWT (sign (ce e)) (clock (ce e) 2) (u_id u) (phone_email []) ''user'' (u_org u) (accessExpiry (ce e)) = Some tok"
    using assms(8) by (auto simp: createJWT_def)
  moreover obtain rt where "fst (writeAuthResponse (ce e) 200 (u_id u) (phone_email []) tok (accounts s1)) = Session 200 (u_id u) (phone_email []) tok rt"
    using writeAuthResponse_answer by blast
  ultimately show ?thesis using s1 assms(2,3) trim
    by (auto simp: handleVerifyPhoneOTP_def phone_key_def open_session_def Let_def split: prod.split)
qed

text \<open>An e-mail address of the form of a phone key names the same code and the same send limit.\<close>

lemma email_and_phone_share_keys:
  assumes "sender (ce e)" "ToLower (phone_key ph) = phone_key ph" "ph \<noteq> []"
  shows "otpStore (snd (handleSendOTP e True (Some (phone_key ph)) s)) = otpStore (snd (handleSendPhoneOTP e True (Some ph) s))"
proof -
  have "otpStore (snd (issue_code e k a s)) = otpStore (snd (issue_code e k a' s))" for k a a'
    by (auto simp: issue_code_def Let_def split: prod.split sum.split bool.split)
  then show ?thesis using assms by (simp add: handleSendOTP_def handleSendPhoneOTP_def phone_key_def)
qed

end
