(* ===== verification/Auth_Keys.thy ===== *)
theory Auth_Keys
  imports Auth_Users Go_Path
begin

text \<open>
  API keys of \<^verbatim>\<open>components/auth\<close> (\<^verbatim>\<open>apikeys.go\<close> and their handlers in \<^verbatim>\<open>org_http.go\<close>): keys of organizations
  (\<^verbatim>\<open>bb_\<close>) and deployment keys of sites (\<^verbatim>\<open>bb_dep_\<close>), kept in one table by their keyed hash.

  The HMAC is an argument \<open>h\<close>; the raw key of a new row is an input, as it comes from the random source.
  The table of sites belongs to another component: \<open>site_org\<close> gives the organization of a site. Statement
  faults are as in the accounts theory.
\<close>

section \<open>Scopes\<close>

definition joinScopes :: "string list \<Rightarrow> string" where
  "joinScopes scopes = Join scopes '',''"

text \<open>The loop over the bytes: \<open>cur\<close> is \<^verbatim>\<open>s[start:i]\<close>.\<close>

fun splitScopes_loop :: "string \<Rightarrow> string \<Rightarrow> string list" where
  "splitScopes_loop cur [] = (if cur \<noteq> [] then [cur] else [])"
| "splitScopes_loop cur (c # cs) =
     (if c = CHR '','' then (if cur \<noteq> [] then [cur] else []) @ splitScopes_loop [] cs else splitScopes_loop (cur @ [c]) cs)"

definition splitScopes :: "string \<Rightarrow> string list" where
  "splitScopes s = (if s = [] then [] else splitScopes_loop [] s)"

section \<open>The table\<close>

record api_key =
  k_id :: nat
  k_org :: nat
  k_site :: "string option"
  k_hash :: string
  k_name :: string
  k_scopes :: string
  k_revoked :: bool
  k_prefix :: string
  k_created :: int
  k_used :: "int option"

record key_state =
  keys :: "api_key list"
  next_key :: nat
  site_org :: "(string, nat) go_map"
  kdir :: directory

definition insert_key :: "bool \<Rightarrow> api_key \<Rightarrow> key_state \<Rightarrow> nat option \<times> key_state" where
  "insert_key bad k s = (if bad \<or> k_hash k \<in> set (map k_hash (keys s)) then (None, s)
     else (Some (next_key s), s\<lparr> keys := keys s @ [k\<lparr> k_id := next_key s \<rparr>], next_key := Suc (next_key s) \<rparr>))"

definition touch_key :: "bool \<Rightarrow> int \<Rightarrow> nat \<Rightarrow> key_state \<Rightarrow> key_state" where
  "touch_key bad now i s = (if bad then s else s\<lparr> keys := map (\<lambda>k. if k_id k = i then k\<lparr> k_used := Some (rfc3339 now) \<rparr> else k) (keys s) \<rparr>)"

definition CreateAPIKey :: "(string \<Rightarrow> string) \<Rightarrow> bool \<Rightarrow> string option \<Rightarrow> int \<Rightarrow> nat \<Rightarrow> string \<Rightarrow> string list \<Rightarrow> key_state
    \<Rightarrow> (nat \<times> string) option \<times> key_state" where
  "CreateAPIKey h bad raw now org name scopes s = (case raw of
     None \<Rightarrow> (None, s)
   | Some key \<Rightarrow> (case insert_key bad \<lparr> k_id = 0, k_org = org, k_site = None, k_hash = h key, k_name = name, k_scopes = joinScopes scopes,
         k_revoked = False, k_prefix = [], k_created = rfc3339 now, k_used = None \<rparr> s of
         (None, s') \<Rightarrow> (None, s') | (Some i, s') \<Rightarrow> (Some (i, key), s')))"

definition ListAPIKeys :: "bool \<Rightarrow> nat \<Rightarrow> key_state \<Rightarrow> (nat \<times> string \<times> string list) list option" where
  "ListAPIKeys bad org s = (if bad then None
     else Some (map (\<lambda>k. (k_id k, k_name k, splitScopes (k_scopes k))) (sort_key k_id (filter (\<lambda>k. k_org k = org) (keys s)))))"

definition DeleteAPIKey :: "bool \<Rightarrow> nat \<Rightarrow> nat \<Rightarrow> key_state \<Rightarrow> bool \<times> key_state" where
  "DeleteAPIKey bad org i s = (if bad then (False, s) else (True, s\<lparr> keys := filter (\<lambda>k. \<not> (k_id k = i \<and> k_org k = org)) (keys s) \<rparr>))"

definition ResolveOrgKey :: "(string \<Rightarrow> string) \<Rightarrow> faults \<Rightarrow> int \<Rightarrow> string \<Rightarrow> key_state \<Rightarrow> (nat \<times> string list) option \<times> key_state" where
  "ResolveOrgKey h f now raw s =
     (if \<not> HasPrefix raw ''bb_'' \<or> HasPrefix raw ''bb_dep_'' then (None, s)
      else (case (if f 0 then None else find (\<lambda>k. k_hash k = h raw \<and> k_site k = None \<and> \<not> k_revoked k) (keys s)) of
          None \<Rightarrow> (None, s)
        | Some k \<Rightarrow> (Some (k_org k, splitScopes (k_scopes k)), touch_key (f 1) now (k_id k) s)))"

definition ResolveAPIKey :: "(string \<Rightarrow> string) \<Rightarrow> faults \<Rightarrow> int \<Rightarrow> string \<Rightarrow> key_state \<Rightarrow> nat option \<times> key_state" where
  "ResolveAPIKey h f now raw s =
     (case (if f 0 then None else find (\<lambda>k. k_hash k = h raw \<and> \<not> k_revoked k) (keys s)) of
        None \<Rightarrow> (None, s)
      | Some k \<Rightarrow> (Some (k_org k), touch_key (f 1) now (k_id k) s))"

section \<open>Deployment keys\<close>

definition rawPrefix :: "string \<Rightarrow> string" where
  "rawPrefix raw = (if length raw > 13 then take 13 raw else raw)"

definition createSiteKeyRecord :: "(string \<Rightarrow> string) \<Rightarrow> faults \<Rightarrow> string option \<Rightarrow> int \<Rightarrow> string \<Rightarrow> string \<Rightarrow> string list \<Rightarrow> key_state
    \<Rightarrow> (nat \<times> string) option \<times> key_state" where
  "createSiteKeyRecord h f raw now site name0 scopes s =
     (if site = [] then (None, s)
      else (let name = (if name0 = [] then ''ci-bot'' else name0) in
        if f 0 \<or> map_of (site_org s) site = None then (None, s)
        else (case raw of
            None \<Rightarrow> (None, s)
          | Some key \<Rightarrow>
              (let sc = joinScopes scopes in
               case insert_key (f 1) \<lparr> k_id = 0, k_org = 0, k_site = Some site, k_hash = h key, k_name = name, k_scopes = (if sc = [] then ''deploy'' else sc),
                   k_revoked = False, k_prefix = rawPrefix key, k_created = rfc3339 now, k_used = None \<rparr> s of
                 (None, s') \<Rightarrow> (None, s') | (Some i, s') \<Rightarrow> (Some (i, key), s')))))"

definition ListSiteKeys :: "faults \<Rightarrow> string \<Rightarrow> key_state \<Rightarrow> api_key list option" where
  "ListSiteKeys f site s = (if site = [] then None else if f 0 \<or> map_of (site_org s) site = None then None else if f 1 then None
     else Some (sort_key k_id (filter (\<lambda>k. k_site k = Some site) (keys s))))"

definition lookupSiteOrgID :: "bool \<Rightarrow> string \<Rightarrow> key_state \<Rightarrow> nat option" where
  "lookupSiteOrgID bad site s = (if bad then None else map_of (site_org s) site)"

text \<open>\<open>i\<close> is the parsed key id, \<open>None\<close> when it is not a number.\<close>

definition RevokeSiteKey :: "bool \<Rightarrow> string \<Rightarrow> nat option \<Rightarrow> key_state \<Rightarrow> bool \<times> key_state" where
  "RevokeSiteKey bad site i s =
     (if site = [] then (False, s)
      else (case i of
          None \<Rightarrow> (False, s)
        | Some n \<Rightarrow> if bad then (False, s)
            else (\<exists>k \<in> set (keys s). k_id k = n \<and> k_site k = Some site,
                  s\<lparr> keys := map (\<lambda>k. if k_id k = n \<and> k_site k = Some site then k\<lparr> k_revoked := True \<rparr> else k) (keys s) \<rparr>)))"

definition ResolveSiteKeyScopes :: "(string \<Rightarrow> string) \<Rightarrow> faults \<Rightarrow> int \<Rightarrow> string \<Rightarrow> key_state \<Rightarrow> (string \<times> string list) option \<times> key_state" where
  "ResolveSiteKeyScopes h f now raw s =
     (case (if f 0 then None else find (\<lambda>k. k_hash k = h raw \<and> \<not> k_revoked k \<and> k_site k \<noteq> None) (keys s)) of
        None \<Rightarrow> (None, s)
      | Some k \<Rightarrow> (case k_site k of
            None \<Rightarrow> (None, s)
          | Some site \<Rightarrow> if site = [] then (None, s) else (Some (site, splitScopes (k_scopes k)), touch_key (f 1) now (k_id k) s)))"

definition ResolveSiteKey :: "(string \<Rightarrow> string) \<Rightarrow> faults \<Rightarrow> int \<Rightarrow> string \<Rightarrow> key_state \<Rightarrow> string option \<times> key_state" where
  "ResolveSiteKey h f now raw s = (case ResolveSiteKeyScopes h f now raw s of (r, s') \<Rightarrow> (map_option fst r, s'))"

section \<open>Handlers\<close>

text \<open>Statement 0 checks the owner of the organization, and the rest follow. The answer is the status and the raw key.\<close>

definition handleCreateAPIKey :: "(string \<Rightarrow> string) \<Rightarrow> faults \<Rightarrow> string option \<Rightarrow> int \<Rightarrow> nat \<Rightarrow> int option \<Rightarrow> (string \<times> string list) option \<Rightarrow> key_state
    \<Rightarrow> (nat \<times> string option) \<times> key_state" where
  "handleCreateAPIKey h f raw now uid scanned body s = (case parseOrgID scanned of
     None \<Rightarrow> ((400, None), s)
   | Some oid \<Rightarrow> (case lookupOwnedOrg (f 0) oid uid (kdir s) of
         Inl code \<Rightarrow> ((code, None), s)
       | Inr _ \<Rightarrow> (case body of
             None \<Rightarrow> ((400, None), s)
           | Some (name, scopes) \<Rightarrow> if name = [] then ((400, None), s)
               else (case CreateAPIKey h (f 1) raw now oid name scopes s of
                   (None, s') \<Rightarrow> ((500, None), s') | (Some (_, key), s') \<Rightarrow> ((201, Some key), s')))))"

definition handleDeleteAPIKey :: "faults \<Rightarrow> nat \<Rightarrow> int option \<Rightarrow> int option \<Rightarrow> key_state \<Rightarrow> nat \<times> key_state" where
  "handleDeleteAPIKey f uid scanned kscanned s = (case parseOrgID scanned of
     None \<Rightarrow> (400, s)
   | Some oid \<Rightarrow> (case lookupOwnedOrg (f 0) oid uid (kdir s) of
         Inl code \<Rightarrow> (code, s)
       | Inr _ \<Rightarrow> (case parseOrgID kscanned of
             None \<Rightarrow> (400, s)
           | Some i \<Rightarrow> (case DeleteAPIKey (f 1) oid i s of (ok, s') \<Rightarrow> (if ok then 200 else 500, s')))))"

definition handleListAPIKeys :: "faults \<Rightarrow> nat \<Rightarrow> int option \<Rightarrow> key_state \<Rightarrow> nat \<times> (nat \<times> string \<times> string list) list" where
  "handleListAPIKeys f uid scanned s = (case parseOrgID scanned of
     None \<Rightarrow> (400, [])
   | Some oid \<Rightarrow> (case lookupOwnedOrg (f 0) oid uid (kdir s) of
         Inl code \<Rightarrow> (code, [])
       | Inr _ \<Rightarrow> (case ListAPIKeys (f 1) oid s of None \<Rightarrow> (500, []) | Some ks \<Rightarrow> (200, ks))))"

text \<open>The site handlers need a user and the ownership of the site's organization.\<close>

definition with_owned_site :: "faults \<Rightarrow> nat option \<Rightarrow> string \<Rightarrow> key_state \<Rightarrow> nat option" where
  "with_owned_site f user site s = (case user of
     None \<Rightarrow> Some 401
   | Some uid \<Rightarrow> (case lookupSiteOrgID (f 0) site s of
         None \<Rightarrow> Some 404
       | Some oid \<Rightarrow> (case lookupOwnedOrg (f 1) oid uid (kdir s) of Inl code \<Rightarrow> Some code | Inr _ \<Rightarrow> None)))"

definition key_name_char :: "char \<Rightarrow> bool" where
  "key_name_char c = ((CHR ''a'' \<le> c \<and> c \<le> CHR ''z'') \<or> (CHR ''0'' \<le> c \<and> c \<le> CHR ''9'') \<or> c \<in> {CHR ''-'', CHR ''_'', CHR '' ''})"

definition handleCreateSiteKey :: "(string \<Rightarrow> string) \<Rightarrow> faults \<Rightarrow> string option \<Rightarrow> int \<Rightarrow> nat option \<Rightarrow> string \<Rightarrow> (string \<times> string list) option \<Rightarrow> key_state
    \<Rightarrow> (nat \<times> string option) \<times> key_state" where
  "handleCreateSiteKey h f raw now user site body s = (case with_owned_site f user site s of
     Some code \<Rightarrow> ((code, None), s)
   | None \<Rightarrow> (case body of
         None \<Rightarrow> ((400, None), s)
       | Some (name, scopes) \<Rightarrow>
           if name \<noteq> [] \<and> (length name > 100 \<or> \<not> list_all key_name_char name) then ((400, None), s)
           else if \<not> list_all (\<lambda>x. x = ''deploy'') scopes then ((400, None), s)
           else (case createSiteKeyRecord h (\<lambda>n. f (n + 2)) raw now site name scopes s of
               (None, s') \<Rightarrow> ((500, None), s') | (Some (_, key), s') \<Rightarrow> ((201, Some key), s'))))"

definition handleListSiteKeys :: "faults \<Rightarrow> nat option \<Rightarrow> string \<Rightarrow> key_state \<Rightarrow> nat \<times> (nat \<times> string \<times> string \<times> int \<times> int option) list" where
  "handleListSiteKeys f user site s = (case with_owned_site f user site s of
     Some code \<Rightarrow> (code, [])
   | None \<Rightarrow> (case ListSiteKeys (\<lambda>n. f (n + 2)) site s of
         None \<Rightarrow> (500, []) | Some ks \<Rightarrow> (200, map (\<lambda>k. (k_id k, k_name k, k_prefix k, k_created k, k_used k)) ks)))"

definition handleRevokeSiteKey :: "faults \<Rightarrow> nat option \<Rightarrow> string \<Rightarrow> nat option \<Rightarrow> key_state \<Rightarrow> nat \<times> key_state" where
  "handleRevokeSiteKey f user site i s = (case with_owned_site f user site s of
     Some code \<Rightarrow> (code, s)
   | None \<Rightarrow> (case RevokeSiteKey (f 2) site i s of (ok, s') \<Rightarrow> (if ok then 200 else 500, s')))"

section \<open>Scopes through the database\<close>

lemma splitScopes_loop_Split: "CHR '','' \<notin> set cur \<Longrightarrow> splitScopes_loop cur s = filter (\<lambda>x. x \<noteq> []) (Split (cur @ s) (CHR '',''))"
proof (induction cur s rule: splitScopes_loop.induct)
  case (1 cur)
  then show ?case by (simp add: Split_simple)
next
  case (2 cur c cs)
  show ?case
  proof (cases "c = CHR '',''")
    case True
    with 2 show ?thesis by (simp add: Split_append)
  next
    case False
    with 2 show ?thesis by simp
  qed
qed

lemma splitScopes_eq: "splitScopes s = filter (\<lambda>x. x \<noteq> []) (Split s (CHR '',''))"
  by (simp add: splitScopes_def splitScopes_loop_Split)

lemma splitScopes_plain: "x \<in> set (splitScopes s) \<Longrightarrow> x \<noteq> [] \<and> CHR '','' \<notin> set x"
  by (auto simp: splitScopes_eq dest: Split_fields)

lemma Split_Join_fields: "\<forall>x \<in> set xs. c \<notin> set x \<Longrightarrow> xs \<noteq> [] \<Longrightarrow> Split (Join xs [c]) c = xs"
  by (induction xs "[c]" rule: Join.induct) (auto simp: Split_simple Split_append)

text \<open>
  The scopes of a key survive the comma-separated column exactly when each of them is a nonempty
  string without a comma.
\<close>

lemma scopes_roundtrip: "splitScopes (joinScopes xs) = xs \<longleftrightarrow> list_all (\<lambda>x. x \<noteq> [] \<and> CHR '','' \<notin> set x) xs"
proof
  assume "splitScopes (joinScopes xs) = xs"
  then show "list_all (\<lambda>x. x \<noteq> [] \<and> CHR '','' \<notin> set x) xs"
    using splitScopes_plain [of _ "joinScopes xs"] by (simp add: list_all_iff)
next
  assume "list_all (\<lambda>x. x \<noteq> [] \<and> CHR '','' \<notin> set x) xs"
  then show "splitScopes (joinScopes xs) = xs"
    using Split_Join_fields [of xs "CHR '',''"] by (cases "xs = []") (auto simp: splitScopes_eq joinScopes_def list_all_iff filter_id_conv)
qed

text \<open>Scopes without a letter vanish: such a key has no scopes at all.\<close>

lemma blank_scopes_vanish: "list_all (\<lambda>x. list_all (\<lambda>c. c = CHR '','') x) xs \<Longrightarrow> splitScopes (joinScopes xs) = []"
proof -
  assume "list_all (\<lambda>x. list_all (\<lambda>c. c = CHR '','') x) xs"
  then have *: "set (joinScopes xs) \<subseteq> {CHR '',''}"
    unfolding joinScopes_def by (induction xs "'',''" rule: Join.induct) (auto simp: list_all_iff)
  have "splitScopes_loop [] s = []" if "set s \<subseteq> {CHR '',''}" for s using that by (induction s) auto
  with * show ?thesis by (simp add: splitScopes_def)
qed

section \<open>Keys keep their meaning\<close>

datatype key_op =
    KCreate "string \<Rightarrow> string" faults "string option" int nat "int option" "(string \<times> string list) option"
  | KDelete faults nat "int option" "int option"
  | KSite "string \<Rightarrow> string" faults "string option" int "nat option" string "(string \<times> string list) option"
  | KRevoke faults "nat option" string "nat option"
  | KOrgUse "string \<Rightarrow> string" faults int string
  | KSiteUse "string \<Rightarrow> string" faults int string
  | KUse "string \<Rightarrow> string" faults int string
  | KSites "(string, nat) go_map" directory

fun key_step :: "key_state \<Rightarrow> key_op \<Rightarrow> key_state" where
  "key_step s (KCreate h f raw now uid oid body) = snd (handleCreateAPIKey h f raw now uid oid body s)"
| "key_step s (KDelete f uid oid kid) = snd (handleDeleteAPIKey f uid oid kid s)"
| "key_step s (KSite h f raw now u site body) = snd (handleCreateSiteKey h f raw now u site body s)"
| "key_step s (KRevoke f u site i) = snd (handleRevokeSiteKey f u site i s)"
| "key_step s (KOrgUse h f now raw) = snd (ResolveOrgKey h f now raw s)"
| "key_step s (KSiteUse h f now raw) = snd (ResolveSiteKeyScopes h f now raw s)"
| "key_step s (KUse h f now raw) = snd (ResolveAPIKey h f now raw s)"
| "key_step s (KSites so d) = s\<lparr> site_org := so, kdir := d \<rparr>"

text \<open>Unique hashes and identifiers; keys of sites belong to organization 0.\<close>

definition keys_ok :: "key_state \<Rightarrow> bool" where
  "keys_ok s = (distinct (map k_hash (keys s)) \<and> distinct (map k_id (keys s))
     \<and> list_all (\<lambda>k. k_id k < next_key s \<and> (k_site k \<noteq> None \<longrightarrow> k_org k = 0)) (keys s))"

text \<open>What of a row only its revocation may change.\<close>

definition key_core :: "api_key \<Rightarrow> nat \<times> nat \<times> string option \<times> string \<times> string" where
  "key_core k = (k_id k, k_org k, k_site k, k_hash k, k_scopes k)"

text \<open>How a step changes the table: rows are added with a new hash, updated in place keeping their core and
  their revocation, or deleted when they belong to an organization.\<close>

inductive key_change :: "key_state \<Rightarrow> key_state \<Rightarrow> bool" where
  same: "keys s' = keys s \<Longrightarrow> next_key s' = next_key s \<Longrightarrow> key_change s s'"
| added: "keys s' = keys s @ [k] \<Longrightarrow> next_key s' = Suc (next_key s) \<Longrightarrow> k_id k = next_key s \<Longrightarrow> k_hash k \<notin> set (map k_hash (keys s))
    \<Longrightarrow> (k_site k \<noteq> None \<longrightarrow> k_org k = 0) \<Longrightarrow> key_change s s'"
| updated: "keys s' = map g (keys s) \<Longrightarrow> next_key s' = next_key s \<Longrightarrow> (\<And>k. key_core (g k) = key_core k \<and> (k_revoked k \<longrightarrow> k_revoked (g k)))
    \<Longrightarrow> key_change s s'"
| deleted: "keys s' = filter P (keys s) \<Longrightarrow> next_key s' = next_key s \<Longrightarrow> (\<And>k. \<not> P k \<Longrightarrow> 0 < k_org k) \<Longrightarrow> key_change s s'"

lemma key_change_refl [simp]: "key_change s s"
  by (rule same) simp_all

lemma insert_key_change:
  assumes "k_site k \<noteq> None \<longrightarrow> k_org k = 0"
  shows "key_change s (snd (insert_key bad k s))"
proof (cases "bad \<or> k_hash k \<in> set (map k_hash (keys s))")
  case False
  with assms show ?thesis by (intro added [where k = "k\<lparr> k_id := next_key s \<rparr>"]) (auto simp: insert_key_def)
qed (simp add: insert_key_def)

lemma touch_key_change: "key_change s (touch_key bad now i s)"
proof (cases bad)
  case False
  then show ?thesis by (intro updated [where g = "\<lambda>k. if k_id k = i then k\<lparr> k_used := Some (rfc3339 now) \<rparr> else k"]) (simp_all add: touch_key_def key_core_def)
qed (simp add: touch_key_def)

lemma DeleteAPIKey_change: "0 < org \<Longrightarrow> key_change s (snd (DeleteAPIKey bad org i s))"
  by (cases bad) (auto simp: DeleteAPIKey_def intro!: deleted [where P = "\<lambda>k. \<not> (k_id k = i \<and> k_org k = org)"] simp del: de_Morgan_conj)

lemma RevokeSiteKey_change: "key_change s (snd (RevokeSiteKey bad site i s))"
proof (cases "site \<noteq> [] \<and> i \<noteq> None \<and> \<not> bad")
  case True
  then show ?thesis
    by (intro updated [where g = "\<lambda>k. if k_id k = the i \<and> k_site k = Some site then k\<lparr> k_revoked := True \<rparr> else k"])
      (auto simp: RevokeSiteKey_def key_core_def)
qed (auto simp: RevokeSiteKey_def split: option.split)

lemma snd_created: "snd (case r of (None, s') \<Rightarrow> (None, s') | (Some i, s') \<Rightarrow> (Some (i, key), s')) = snd r"
  by (auto split: prod.split option.split)

lemma CreateAPIKey_change: "key_change s (snd (CreateAPIKey h bad raw now org name scopes s))"
  by (cases raw) (simp_all add: CreateAPIKey_def snd_created insert_key_change)

lemma createSiteKeyRecord_change: "key_change s (snd (createSiteKeyRecord h f raw now site name scopes s))"
  by (cases raw) (simp_all add: createSiteKeyRecord_def Let_def snd_created insert_key_change)

lemma parseOrgID_pos: "parseOrgID x = Some n \<Longrightarrow> 0 < n"
  by (auto simp: parseOrgID_def split: option.splits if_splits)

lemma handleDeleteAPIKey_change: "key_change s (snd (handleDeleteAPIKey f uid oid kid s))"
proof (cases "\<exists>n i. parseOrgID oid = Some n \<and> parseOrgID kid = Some i")
  case True
  then obtain n i where "parseOrgID oid = Some n" "parseOrgID kid = Some i" by blast
  with DeleteAPIKey_change [OF parseOrgID_pos, of oid n s "f 1" i] show ?thesis
    by (auto simp: handleDeleteAPIKey_def split: sum.split prod.split)
qed (auto simp: handleDeleteAPIKey_def split: option.split sum.split)

lemma key_step_change: "key_change s (key_step s op)"
proof (cases op)
  case (KCreate h f raw now uid oid body)
  show ?thesis
  proof (cases "\<exists>n x nm sc. parseOrgID oid = Some n \<and> body = Some (nm, sc) \<and> nm \<noteq> [] \<and> lookupOwnedOrg (f 0) n uid (kdir s) = Inr x")
    case True
    then obtain n x nm sc where "parseOrgID oid = Some n" "body = Some (nm, sc)" "nm \<noteq> []" "lookupOwnedOrg (f 0) n uid (kdir s) = Inr x" by blast
    with KCreate CreateAPIKey_change [of s h "f 1" raw now n nm sc] show ?thesis
      by (auto simp: handleCreateAPIKey_def split: prod.splits option.splits)
  qed (use KCreate in \<open>auto simp: handleCreateAPIKey_def split: option.split sum.split\<close>)
next
  case (KSite h f raw now u site body)
  show ?thesis
  proof (cases body)
    case (Some b)
    with KSite createSiteKeyRecord_change [of s h "\<lambda>n. f (n + 2)" raw now site "fst b" "snd b"] show ?thesis
      by (cases b) (auto simp: handleCreateSiteKey_def split: prod.splits option.splits)
  qed (use KSite in \<open>auto simp: handleCreateSiteKey_def split: option.split\<close>)
next
  case (KRevoke f u site i)
  with RevokeSiteKey_change [of s "f 2" site i] show ?thesis by (auto simp: handleRevokeSiteKey_def split: option.splits prod.splits)
next
  case (KSites so d)
  then show ?thesis by (auto intro: same)
qed (auto simp: handleDeleteAPIKey_change ResolveOrgKey_def ResolveSiteKeyScopes_def ResolveAPIKey_def touch_key_change split: option.split)

lemma key_core_eqs: "key_core a = key_core b \<longleftrightarrow> k_id a = k_id b \<and> k_org a = k_org b \<and> k_site a = k_site b \<and> k_hash a = k_hash b \<and> k_scopes a = k_scopes b"
  by (simp add: key_core_def)

lemma keys_ok_change: "key_change s s' \<Longrightarrow> keys_ok s \<Longrightarrow> keys_ok s'"
proof (induction rule: key_change.induct)
  case (updated s' g s)
  then have "map k_hash (map g (keys s)) = map k_hash (keys s)" "map k_id (map g (keys s)) = map k_id (keys s)"
    by (simp_all add: key_core_eqs)
  moreover have "list_all (\<lambda>k. k_id k < next_key s \<and> (k_site k \<noteq> None \<longrightarrow> k_org k = 0)) (map g (keys s))"
    using updated by (auto simp: list_all_iff keys_ok_def key_core_eqs)
  moreover have "distinct (map k_hash (keys s))" "distinct (map k_id (keys s))" using updated(4) by (simp_all add: keys_ok_def)
  ultimately show ?case unfolding keys_ok_def updated(1,2) by (simp only: simp_thms)
next
  case (deleted s' P s)
  then show ?case by (auto simp: keys_ok_def distinct_map_filter list_all_iff)
next
  case (added s' s k)
  then show ?case by (auto simp: keys_ok_def list_all_iff less_Suc_eq)
qed (simp_all add: keys_ok_def)

definition dead_hash :: "string \<Rightarrow> key_state \<Rightarrow> bool" where
  "dead_hash H s = list_ex (\<lambda>k. k_hash k = H \<and> k_revoked k \<and> k_site k \<noteq> None) (keys s)"

lemma dead_hash_change: "key_change s s' \<Longrightarrow> keys_ok s \<Longrightarrow> dead_hash H s \<Longrightarrow> dead_hash H s'"
proof (induction rule: key_change.induct)
  case (updated s' g s)
  then show ?case by (fastforce simp: dead_hash_def list_ex_iff key_core_eqs)
next
  case (deleted s' P s)
  then obtain k where k: "k \<in> set (keys s)" "k_hash k = H" "k_revoked k" "k_site k \<noteq> None" by (auto simp: dead_hash_def list_ex_iff)
  with deleted(4) have "k_org k = 0" by (simp add: keys_ok_def list_all_iff)
  with deleted(3) [of k] k deleted(1) show ?case by (auto simp: dead_hash_def list_ex_iff)
qed (auto simp: dead_hash_def)

interpretation key_table: step_invariant key_step keys_ok
  by unfold_locales (rule keys_ok_change [OF key_step_change])

interpretation dead_keys: step_invariant key_step "\<lambda>s. keys_ok s \<and> dead_hash H s" for H
  by unfold_locales (blast intro: keys_ok_change dead_hash_change key_step_change)

lemma same_hash_same_key: "keys_ok s \<Longrightarrow> k \<in> set (keys s) \<Longrightarrow> k' \<in> set (keys s) \<Longrightarrow> k_hash k = k_hash k' \<Longrightarrow> k = k'"
  by (auto simp: keys_ok_def distinct_map inj_on_def)

text \<open>A key resolves as a key of an organization or as a key of a site, never as both.\<close>

lemma key_kinds_disjoint:
  assumes "keys_ok s" "fst (ResolveOrgKey h f now raw s) \<noteq> None"
  shows "fst (ResolveSiteKeyScopes h f' now' raw s) = None"
proof -
  from assms(2) obtain k where k: "k \<in> set (keys s)" "k_hash k = h raw" "k_site k = None"
    by (auto simp: ResolveOrgKey_def dest!: find_SomeD split: if_splits option.splits)
  then have "k_site x = None" if "x \<in> set (keys s)" "k_hash x = h raw" for x using that same_hash_same_key [OF assms(1), of k x] by simp
  then show ?thesis by (auto simp: ResolveSiteKeyScopes_def dest!: find_SomeD split: option.split)
qed

lemma dead_hash_refused:
  assumes "keys_ok s" "dead_hash (h raw) s"
  shows "fst (ResolveSiteKeyScopes h f now raw s) = None" "fst (ResolveOrgKey h f now raw s) = None" "fst (ResolveAPIKey h f now raw s) = None"
proof -
  from assms(2) obtain k where k: "k \<in> set (keys s)" "k_hash k = h raw" "k_revoked k" by (auto simp: dead_hash_def list_ex_iff)
  then have "k_revoked x" if "x \<in> set (keys s)" "k_hash x = h raw" for x using that same_hash_same_key [OF assms(1), of k x] by simp
  then show "fst (ResolveSiteKeyScopes h f now raw s) = None" "fst (ResolveOrgKey h f now raw s) = None" "fst (ResolveAPIKey h f now raw s) = None"
    by (auto simp: ResolveSiteKeyScopes_def ResolveOrgKey_def ResolveAPIKey_def dest!: find_SomeD split: option.split)
qed

lemma handleRevokeSiteKey_dead:
  assumes "keys_ok s" "k \<in> set (keys s)" "k_site k = Some site" "handleRevokeSiteKey f user site (Some (k_id k)) s = (200, s')"
  shows "dead_hash (k_hash k) s'"
proof -
  have "with_owned_site f user site s = None" using assms(4)
    by (auto simp: handleRevokeSiteKey_def with_owned_site_def lookupOwnedOrg_def split: option.splits sum.splits if_splits)
  with assms(4) have s': "keys s' = map (\<lambda>x. if k_id x = k_id k \<and> k_site x = Some site then x\<lparr> k_revoked := True \<rparr> else x) (keys s)" (is "_ = map ?g _")
    by (cases "site = [] \<or> f 2") (auto simp: handleRevokeSiteKey_def RevokeSiteKey_def split: if_splits)
  have "?g k \<in> set (keys s')" unfolding s' set_map by (rule imageI [OF assms(2)])
  then show ?thesis using assms(3) by (auto simp: dead_hash_def list_ex_iff intro!: bexI [of _ "k\<lparr> k_revoked := True \<rparr>"])
qed

text \<open>
  C12. Revocation is final: once a deployment key has been revoked through the API, no sequence of key
  requests, by whatever callers, with whatever failures, makes its token resolve again, as a site key or
  as an organization key.
\<close>

theorem revoked_key_stays_dead:
  assumes "keys_ok s" "k \<in> set (keys s)" "k_site k = Some site" "k_hash k = h raw"
    and "handleRevokeSiteKey f user site (Some (k_id k)) s = (200, s1)"
  shows "let s' = foldl key_step s1 ops in
    fst (ResolveSiteKeyScopes h g now raw s') = None \<and> fst (ResolveOrgKey h g now raw s') = None \<and> fst (ResolveAPIKey h g now raw s') = None"
proof -
  have "s1 = key_step s (KRevoke f user site (Some (k_id k)))" using assms(5) by simp
  then have "keys_ok s1" using keys_ok_change [OF key_step_change] assms(1) by blast
  moreover have "dead_hash (h raw) s1" using handleRevokeSiteKey_dead [OF assms(1-3,5)] assms(4) by simp
  ultimately have "keys_ok (foldl key_step s1 ops) \<and> dead_hash (h raw) (foldl key_step s1 ops)" by (intro dead_keys.run_inv) simp
  then show ?thesis using dead_hash_refused by (simp add: Let_def)
qed

definition sample_key :: api_key where
  "sample_key = \<lparr> k_id = 1, k_org = 0, k_site = Some ''blog'', k_hash = ''bb_dep_1'', k_name = ''ci-bot'', k_scopes = ''deploy'', k_revoked = False,
     k_prefix = ''bb_dep_1'', k_created = 0, k_used = None \<rparr>"

definition sample_keys :: key_state where
  "sample_keys = \<lparr> keys = [sample_key], next_key = 2, site_org = [(''blog'', 1)],
     kdir = empty_directory\<lparr> orgs := [\<lparr> o_id = 1, o_name = ''Acme'', o_slug = ''acme'', o_owner = 7 \<rparr>], next_org := 2 \<rparr> \<rparr>"

lemma revoked_key_stays_dead_witness:
  "fst (ResolveSiteKeyScopes (\<lambda>r. r) (\<lambda>_. False) 0 ''bb_dep_1'' sample_keys) = Some (''blog'', [''deploy''])
   \<and> fst (ResolveSiteKeyScopes (\<lambda>r. r) (\<lambda>_. False) 5 ''bb_dep_1''
       (foldl key_step (snd (handleRevokeSiteKey (\<lambda>_. False) (Some 7) ''blog'' (Some 1) sample_keys)) [KSiteUse (\<lambda>r. r) (\<lambda>_. False) 3 ''bb_dep_1''])) = None"
proof
  show "fst (ResolveSiteKeyScopes (\<lambda>r. r) (\<lambda>_. False) 0 ''bb_dep_1'' sample_keys) = Some (''blog'', [''deploy''])" by code_simp
  have "keys_ok sample_keys" "sample_key \<in> set (keys sample_keys)" "k_site sample_key = Some ''blog''" "k_hash sample_key = (\<lambda>r. r) ''bb_dep_1''" by code_simp+
  moreover have "handleRevokeSiteKey (\<lambda>_. False) (Some 7) ''blog'' (Some (k_id sample_key)) sample_keys
      = (200, snd (handleRevokeSiteKey (\<lambda>_. False) (Some 7) ''blog'' (Some (k_id sample_key)) sample_keys))"
    by (simp add: handleRevokeSiteKey_def with_owned_site_def lookupSiteOrgID_def lookupOwnedOrg_def GetOrgByID_def sample_keys_def RevokeSiteKey_def sample_key_def)
  ultimately show "fst (ResolveSiteKeyScopes (\<lambda>r. r) (\<lambda>_. False) 5 ''bb_dep_1''
       (foldl key_step (snd (handleRevokeSiteKey (\<lambda>_. False) (Some 7) ''blog'' (Some 1) sample_keys)) [KSiteUse (\<lambda>r. r) (\<lambda>_. False) 3 ''bb_dep_1''])) = None"
    using revoked_key_stays_dead [where g = "\<lambda>_. False" and now = 5 and ops = "[KSiteUse (\<lambda>r. r) (\<lambda>_. False) 3 ''bb_dep_1'']"]
    by (simp add: Let_def sample_key_def)
qed

text \<open>A site handler acts only for the owner of the site's organization.\<close>

lemma with_owned_site_owner:
  assumes "with_owned_site f user site s = None"
  shows "\<exists>uid x. user = Some uid \<and> x \<in> set (orgs (kdir s)) \<and> o_owner x = uid \<and> map_of (site_org s) site = Some (o_id x)"
  using assms by (auto simp: with_owned_site_def lookupSiteOrgID_def lookupOwnedOrg_def GetOrgByID_def dest!: find_SomeD
      split: option.splits sum.splits if_splits)

section \<open>Where the documentation differs\<close>

text \<open>The prefix of a key is the first 13 characters: \<^verbatim>\<open>bb_dep_\<close> and six more.\<close>

lemma rawPrefix_six: "length hex = 64 \<Longrightarrow> rawPrefix (''bb_dep_'' @ hex) = ''bb_dep_'' @ take 6 hex"
  by (simp add: rawPrefix_def)

text \<open>Capital letters are refused in the name of a deployment key.\<close>

lemma capital_names_refused: "\<not> list_all key_name_char ''CI''"
  by (simp add: key_name_char_def less_eq_char_def)

end
