(* ===== verification/Auth_Access.thy ===== *)
theory Auth_Access
  imports Auth_Login Auth_Keys
begin

text \<open>
  Who may run a handler: the authentication middleware and the scope check (\<^verbatim>\<open>middleware.go\<close>), the declarative
  policy gate (\<^verbatim>\<open>policy.go\<close>) and the policy of secrets (\<^verbatim>\<open>secret_policy.go\<close>) of \<^verbatim>\<open>components/auth\<close>.

  A request context is a record of the values that the middleware puts there. Verification of a JWT is an
  argument \<open>verify\<close>, as its package is not part of the repository. A gate answers with a status or lets the
  request through with its context.
\<close>

section \<open>The context of a request\<close>

record req_ctx =
  cx_user :: "nat option"
  cx_email :: "string option"
  cx_role :: "string option"
  cx_org :: "nat option"
  cx_korg :: "nat option"
  cx_scopes :: "string list option"
  cx_site :: "string option"
  cx_prole :: "string option"

definition background :: req_ctx where
  "background = \<lparr> cx_user = None, cx_email = None, cx_role = None, cx_org = None, cx_korg = None, cx_scopes = None, cx_site = None, cx_prole = None \<rparr>"

datatype gate = Deny nat string | Pass req_ctx

definition extractBearerToken :: "string \<Rightarrow> string" where
  "extractBearerToken hdr = (if hdr = [] then [] else if length hdr < 7 \<or> take 7 hdr \<noteq> ''Bearer '' then [] else drop 7 hdr)"

record access_env =
  ax_fault :: faults
  ax_now :: int
  ax_hash :: "string \<Rightarrow> string"
  ax_verify :: "string \<Rightarrow> Claims option"
  ax_sender :: bool

text \<open>\<open>Middleware\<close>: statements 0 and 1 resolve a key, 2 reads the verification flag. The result includes the key
  table, as resolving a key records its use.\<close>

definition request_token :: "string \<Rightarrow> string option \<Rightarrow> string" where
  "request_token hdr cookie = (let t = extractBearerToken hdr in if t = [] then (case cookie of Some c \<Rightarrow> c | None \<Rightarrow> []) else t)"

definition jwt_ctx :: "Claims \<Rightarrow> req_ctx" where
  "jwt_ctx c = background\<lparr> cx_user := Some (c_user c), cx_email := Some (c_email c), cx_role := Some (c_role c), cx_org := Some (c_org c),
     cx_korg := (if c_org c \<noteq> 0 then Some (c_org c) else None) \<rparr>"

definition jwt_gate :: "access_env \<Rightarrow> string \<Rightarrow> Claims \<Rightarrow> directory \<Rightarrow> gate" where
  "jwt_gate e meth c d =
     (if c_role c = ''anonymous'' then
        (if meth \<in> {''GET'', ''HEAD'', ''OPTIONS''} then Pass (jwt_ctx c) else Deny 403 ''write access not allowed for anonymous users'')
      else (case isEmailVerified (ax_sender e) (ax_fault e 2) (c_user c) d of
          Inl _ \<Rightarrow> Deny 500 ''internal error''
        | Inr v \<Rightarrow> if \<not> v then Deny 403 ''email not verified''
            else if c_org c = 0 then Deny 403 ''no organization''
            else Pass (jwt_ctx c)))"

definition Auth_Middleware :: "access_env \<Rightarrow> string \<Rightarrow> string \<Rightarrow> string option \<Rightarrow> key_state \<Rightarrow> gate \<times> key_state" where
  "Auth_Middleware e meth hdr cookie s =
     (let token = request_token hdr cookie in
      if token = [] then (Deny 401 ''authorization required'', s)
      else if HasPrefix token ''bb_'' then
        (if HasPrefix token ''bb_dep_'' then
           (case ResolveSiteKey (ax_hash e) (ax_fault e) (ax_now e) token s of
              (None, s') \<Rightarrow> (Deny 401 ''invalid site key'', s')
            | (Some site, s') \<Rightarrow> (Pass (background\<lparr> cx_site := Some site \<rparr>), s'))
         else (case ResolveOrgKey (ax_hash e) (ax_fault e) (ax_now e) token s of
              (None, s') \<Rightarrow> (Deny 401 ''invalid api key'', s')
            | (Some (org, scopes), s') \<Rightarrow> (Pass (background\<lparr> cx_org := Some org, cx_korg := Some org, cx_scopes := Some scopes \<rparr>), s')))
      else (case ax_verify e token of
          None \<Rightarrow> (Deny 401 ''invalid token'', s)
        | Some c \<Rightarrow> (jwt_gate e meth c (kdir s), s)))"

section \<open>Scopes and policies\<close>

fun hasAnyScope :: "string list \<Rightarrow> string list \<Rightarrow> bool" where
  "hasAnyScope [] required = False"
| "hasAnyScope (h # have) required = (if h \<in> set required then True else hasAnyScope have required)"

definition RequireScopes :: "string list \<Rightarrow> req_ctx \<Rightarrow> gate" where
  "RequireScopes required ctx = (case cx_scopes ctx of
     None \<Rightarrow> Pass ctx
   | Some scopes \<Rightarrow> if scopes = [] then Pass ctx
       else if \<exists>have \<in> set scopes. \<exists>need \<in> set required. have = need then Pass ctx
       else Deny 403 ''insufficient scopes'')"

datatype authLevel = authNone | authRequired | authAdmin

record Policy =
  p_level :: authLevel
  p_orgScoped :: bool
  p_scopes :: "string list"

definition PolicyNone :: Policy where
  "PolicyNone = \<lparr> p_level = authNone, p_orgScoped = False, p_scopes = [] \<rparr>"

definition PolicyAuth :: Policy where
  "PolicyAuth = \<lparr> p_level = authRequired, p_orgScoped = False, p_scopes = [] \<rparr>"

definition PolicyAdmin :: Policy where
  "PolicyAdmin = \<lparr> p_level = authAdmin, p_orgScoped = False, p_scopes = [] \<rparr>"

definition PolicyOrgScoped :: Policy where
  "PolicyOrgScoped = \<lparr> p_level = authRequired, p_orgScoped = True, p_scopes = [] \<rparr>"

definition PolicyScopes :: "string list \<Rightarrow> Policy" where
  "PolicyScopes required = \<lparr> p_level = authNone, p_orgScoped = False, p_scopes = required \<rparr>"

definition WithScopes :: "string list \<Rightarrow> Policy \<Rightarrow> Policy" where
  "WithScopes required p = p\<lparr> p_scopes := p_scopes p @ required \<rparr>"

definition Wrap :: "Policy \<Rightarrow> req_ctx \<Rightarrow> gate" where
  "Wrap p ctx =
     (let authenticated = (case cx_user ctx of Some uid \<Rightarrow> uid \<noteq> 0 | None \<Rightarrow> False) in
      if p_level p \<noteq> authNone \<and> \<not> authenticated then Deny 401 ''authorization required''
      else if p_level p = authAdmin \<and> cx_role ctx \<noteq> Some ''admin'' then Deny 403 ''forbidden''
      else if p_orgScoped p \<and> (case cx_org ctx of Some org \<Rightarrow> org = 0 | None \<Rightarrow> True) then Deny 403 ''no organization''
      else if p_scopes p \<noteq> [] \<and> (case cx_scopes ctx of Some scopes \<Rightarrow> scopes \<noteq> [] \<and> \<not> hasAnyScope scopes (p_scopes p) | None \<Rightarrow> False)
      then Deny 403 ''insufficient scopes''
      else Pass ctx)"

section \<open>The policy of secrets\<close>

datatype SecretAction = describe_secret | read_secret_value | create_secret | update_secret | delete_secret | list_secret_versions

datatype secret_error = OrganizationRequired | ProjectNotFound | ActionForbidden | LookupFailed

abbreviation RoleOrgAdmin :: string where "RoleOrgAdmin \<equiv> ''org_admin''"
abbreviation RoleProjectOperator :: string where "RoleProjectOperator \<equiv> ''project_operator''"
abbreviation RoleProjectMember :: string where "RoleProjectMember \<equiv> ''project_member''"

definition secretActionMatrix :: "(string, SecretAction list) go_map" where
  "secretActionMatrix =
     [(RoleOrgAdmin, [describe_secret, read_secret_value, create_secret, update_secret, delete_secret, list_secret_versions]),
      (RoleProjectOperator, [describe_secret, read_secret_value, create_secret, update_secret, delete_secret, list_secret_versions]),
      (RoleProjectMember, [describe_secret, list_secret_versions])]"

definition secretActionAllowed :: "string \<Rightarrow> SecretAction \<Rightarrow> bool" where
  "secretActionAllowed role action = (case map_of secretActionMatrix role of None \<Rightarrow> False | Some actions \<Rightarrow> action \<in> set actions)"

definition requireProjectOwnership :: "bool \<Rightarrow> (string, nat) go_map \<Rightarrow> nat \<Rightarrow> string \<Rightarrow> secret_error option" where
  "requireProjectOwnership bad projects org pid = (if bad then Some LookupFailed
     else (case map_of projects pid of
         None \<Rightarrow> Some ProjectNotFound
       | Some porg \<Rightarrow> if porg \<noteq> org then Some ProjectNotFound else None))"

definition resolveOrgMembershipRole :: "faults \<Rightarrow> directory \<Rightarrow> req_ctx \<Rightarrow> (secret_error, string) res" where
  "resolveOrgMembershipRole f d ctx = (case cx_prole ctx of
     Some role \<Rightarrow> Inr role
   | None \<Rightarrow> (case cx_org ctx of
         None \<Rightarrow> Inl OrganizationRequired
       | Some org \<Rightarrow> if org = 0 then Inl OrganizationRequired
           else (case cx_user ctx of
               None \<Rightarrow> Inr RoleProjectOperator
             | Some uid \<Rightarrow> (case GetOrgByID (f 1) org d of
                   Inl _ \<Rightarrow> Inl LookupFailed
                 | Inr None \<Rightarrow> Inl LookupFailed
                 | Inr (Some x) \<Rightarrow> if o_owner x = uid then Inr RoleOrgAdmin
                     else if f 2 then Inl LookupFailed
                     else (case find (\<lambda>m. m_org m = org \<and> m_user m = uid) (members d) of
                         None \<Rightarrow> Inl ActionForbidden
                       | Some m \<Rightarrow> if m_role m = ''admin'' then Inr RoleOrgAdmin
                           else if m_role m = ''member'' then Inr RoleProjectOperator
                           else Inl ActionForbidden)))))"

definition Authorize :: "faults \<Rightarrow> (string, nat) go_map \<Rightarrow> directory \<Rightarrow> req_ctx \<Rightarrow> string \<Rightarrow> SecretAction \<Rightarrow> secret_error option" where
  "Authorize f projects d ctx pid action = (case cx_org ctx of
     None \<Rightarrow> Some OrganizationRequired
   | Some org \<Rightarrow> if org = 0 then Some OrganizationRequired
       else (case requireProjectOwnership (f 0) projects org pid of
           Some er \<Rightarrow> Some er
         | None \<Rightarrow> (case resolveOrgMembershipRole f d ctx of
               Inl er \<Rightarrow> Some er
             | Inr role \<Rightarrow> if secretActionAllowed role action then None else Some ActionForbidden)))"

section \<open>Listing users\<close>

definition fetchUsers :: "bool \<Rightarrow> req_ctx \<Rightarrow> directory \<Rightarrow> (nat \<times> string) list option" where
  "fetchUsers bad ctx d = (if bad then None
     else (let visible = (case cx_org ctx of
             Some org \<Rightarrow> if org > 0
               then filter (\<lambda>u. (\<exists>x \<in> set (orgs d). o_id x = org \<and> o_owner x = u_id u) \<or> (\<exists>m \<in> set (members d). m_org m = org \<and> m_user m = u_id u)) (users d)
               else users d
           | None \<Rightarrow> users d)
       in Some (map (\<lambda>u. (u_id u, u_email u)) (sort_key u_id visible))))"

definition handleUsers :: "bool \<Rightarrow> req_ctx \<Rightarrow> directory \<Rightarrow> nat \<times> (nat \<times> string) list" where
  "handleUsers bad ctx d = (if cx_role ctx \<noteq> Some ''admin'' then (403, [])
     else (case fetchUsers bad ctx d of None \<Rightarrow> (500, []) | Some us \<Rightarrow> (200, us)))"

definition handleAnonymousToken :: "auth_env \<Rightarrow> bool \<Rightarrow> bool \<Rightarrow> answer" where
  "handleAnonymousToken e google post =
     (if \<not> post then Reply 405 ''method not allowed''
      else if \<not> google \<and> \<not> sender e then Reply 404 ''anonymous auth not configured''
      else (case sign e \<lparr> c_user = 0, c_email = [], c_role = ''anonymous'', c_org = 0, c_expires = clock e 0 + Hour, c_issued = clock e 0 \<rparr> of
          None \<Rightarrow> Reply 500 ''internal error''
        | Some tok \<Rightarrow> Reply 200 tok))"

section \<open>What the middleware admits\<close>

text \<open>The credential that entitles a request to its context.\<close>

definition live_key :: "access_env \<Rightarrow> string \<Rightarrow> api_key \<Rightarrow> key_state \<Rightarrow> bool" where
  "live_key e tok k s = (k \<in> set (keys s) \<and> k_hash k = ax_hash e tok \<and> \<not> k_revoked k)"

inductive entitled :: "access_env \<Rightarrow> string \<Rightarrow> string \<Rightarrow> key_state \<Rightarrow> req_ctx \<Rightarrow> bool" for e meth tok s where
  site_key: "live_key e tok k s \<Longrightarrow> k_site k = Some site \<Longrightarrow> HasPrefix tok ''bb_dep_'' \<Longrightarrow> entitled e meth tok s (background\<lparr> cx_site := Some site \<rparr>)"
| org_key: "live_key e tok k s \<Longrightarrow> k_site k = None \<Longrightarrow>
    entitled e meth tok s (background\<lparr> cx_org := Some (k_org k), cx_korg := Some (k_org k), cx_scopes := Some (splitScopes (k_scopes k)) \<rparr>)"
| anonymous: "ax_verify e tok = Some c \<Longrightarrow> c_role c = ''anonymous'' \<Longrightarrow> meth \<in> {''GET'', ''HEAD'', ''OPTIONS''} \<Longrightarrow> entitled e meth tok s (jwt_ctx c)"
| member: "ax_verify e tok = Some c \<Longrightarrow> c_role c \<noteq> ''anonymous'' \<Longrightarrow> c_org c \<noteq> 0
    \<Longrightarrow> \<not> ax_sender e \<or> (\<exists>u \<in> set (users (kdir s)). u_id u = c_user c \<and> u_verified u) \<Longrightarrow> entitled e meth tok s (jwt_ctx c)"

inductive_cases entitledE: "entitled e meth tok s ctx"

lemma jwt_gate_entitled:
  assumes "ax_verify e tok = Some c" "jwt_gate e meth c (kdir s) = Pass ctx"
  shows "entitled e meth tok s ctx"
proof (cases "c_role c = ''anonymous''")
  case True
  with assms show ?thesis by (auto simp: jwt_gate_def split: if_splits intro: anonymous)
next
  case False
  with assms(2) have "c_org c \<noteq> 0" "ctx = jwt_ctx c" "isEmailVerified (ax_sender e) (ax_fault e 2) (c_user c) (kdir s) = Inr True"
    by (auto simp: jwt_gate_def split: sum.splits if_splits)
  with False assms(1) show ?thesis
    by (auto simp: isEmailVerified_def find_user_def split: if_splits option.splits dest!: find_SomeD intro!: member)
qed

lemma Auth_Middleware_Pass:
  assumes "fst (Auth_Middleware e meth hdr cookie s) = Pass ctx"
  shows "request_token hdr cookie \<noteq> [] \<and> entitled e meth (request_token hdr cookie) s ctx"
proof -
  let ?t = "request_token hdr cookie"
  have ne: "?t \<noteq> []" using assms by (auto simp: Auth_Middleware_def Let_def)
  show ?thesis
  proof (cases "HasPrefix ?t ''bb_''")
    case False
    with assms ne show ?thesis by (auto simp: Auth_Middleware_def Let_def intro: jwt_gate_entitled split: option.splits)
  next
    case key: True
    show ?thesis
    proof (cases "HasPrefix ?t ''bb_dep_''")
      case True
      with assms ne key show ?thesis
        by (auto simp: Auth_Middleware_def Let_def ResolveSiteKey_def ResolveSiteKeyScopes_def live_key_def dest!: find_SomeD
            split: option.splits if_splits intro!: site_key)
    next
      case False
      with assms ne key show ?thesis
        by (auto simp: Auth_Middleware_def Let_def ResolveOrgKey_def live_key_def dest!: find_SomeD
            split: option.splits if_splits intro!: org_key)
    qed
  qed
qed

text \<open>
  C9. The middleware runs a handler only for a request that carries a credential: a live deployment key, a
  live organization key, a valid token of a member whose e-mail is verified where that is required, or an
  anonymous token on a read-only method; and the handler then sees exactly the identity of that credential.
\<close>

theorem middleware_entitles:
  assumes "fst (Auth_Middleware e meth hdr cookie s) = Pass ctx"
  shows "request_token hdr cookie \<noteq> [] \<and> entitled e meth (request_token hdr cookie) s ctx
    \<and> (meth \<notin> {''GET'', ''HEAD'', ''OPTIONS''} \<longrightarrow> cx_role ctx \<noteq> Some ''anonymous'')"
  using Auth_Middleware_Pass [OF assms] by (auto simp: background_def jwt_ctx_def elim!: entitledE)

definition sample_claims :: Claims where
  "sample_claims = \<lparr> c_user = 7, c_email = ''o@x'', c_role = ''user'', c_org = 1, c_expires = 0, c_issued = 0 \<rparr>"

definition sample_access :: access_env where
  "sample_access = \<lparr> ax_fault = (\<lambda>_. False), ax_now = 0, ax_hash = (\<lambda>r. r),
     ax_verify = (\<lambda>t. if t = ''jwt'' then Some sample_claims else None), ax_sender = False \<rparr>"

lemma middleware_entitles_witness:
  "\<exists>ctx. fst (Auth_Middleware sample_access ''POST'' ''Bearer jwt'' None sample_keys) = Pass ctx \<and> cx_role ctx = Some ''user'' \<and> entitled sample_access ''POST'' ''jwt'' sample_keys ctx"
proof -
  have "fst (Auth_Middleware sample_access ''POST'' ''Bearer jwt'' None sample_keys) =
      Pass (jwt_ctx sample_claims)"
    by (simp add: Auth_Middleware_def request_token_def extractBearerToken_def Let_def sample_access_def jwt_gate_def isEmailVerified_def sample_claims_def)
  from this middleware_entitles [OF this] show ?thesis
    by (auto simp: request_token_def extractBearerToken_def Let_def jwt_ctx_def background_def sample_claims_def)
qed

section \<open>The policy gate\<close>

lemma hasAnyScope_iff: "hasAnyScope have required \<longleftrightarrow> (\<exists>h \<in> set have. h \<in> set required)"
  by (induction "have") auto

text \<open>
  C11. The policy that replaces the scope middleware decides like it for every request, except where no
  scope is required: there the middleware refuses every scoped key and the policy admits all of them.
\<close>

theorem policy_scopes_equivalence:
  "(Wrap (PolicyScopes required) ctx \<noteq> RequireScopes required ctx) = (required = [] \<and> (\<exists>x xs. cx_scopes ctx = Some (x # xs)))"
proof (cases "cx_scopes ctx")
  case None
  then show ?thesis by (simp add: Wrap_def PolicyScopes_def RequireScopes_def)
next
  case (Some sc)
  then show ?thesis by (cases sc) (auto simp: Wrap_def PolicyScopes_def RequireScopes_def hasAnyScope_iff)
qed

text \<open>A key without scopes passes every scope check.\<close>

lemma unscoped_key_unrestricted:
  "cx_scopes ctx = Some [] \<Longrightarrow> RequireScopes required ctx = Pass ctx \<and> Wrap (PolicyScopes required) ctx = Pass ctx"
  by (simp add: RequireScopes_def Wrap_def PolicyScopes_def)

text \<open>A policy that needs a user refuses every API key, so its scope clause decides nothing.\<close>

lemma scope_clause_dead:
  assumes "entitled e meth tok s ctx"
  shows "Wrap (WithScopes required PolicyOrgScoped) ctx = Wrap PolicyOrgScoped ctx"
    and "cx_scopes ctx \<noteq> None \<Longrightarrow> Wrap PolicyOrgScoped ctx = Deny 401 ''authorization required''"
  using assms by (cases; simp add: Wrap_def WithScopes_def PolicyOrgScoped_def background_def jwt_ctx_def)+

text \<open>A deployment key is not restricted by the scopes it was created with.\<close>

lemma site_key_scopes_ignored: "entitled e meth tok s ctx \<Longrightarrow> cx_site ctx = Some site \<Longrightarrow> RequireScopes required ctx = Pass ctx"
  by (erule entitledE) (simp_all add: RequireScopes_def background_def jwt_ctx_def)

section \<open>Secrets\<close>

lemma Authorize_owns:
  assumes "Authorize f projects d ctx pid action = None"
  obtains org role where "cx_org ctx = Some org" "org \<noteq> 0" "map_of projects pid = Some org"
    "resolveOrgMembershipRole f d ctx = Inr role" "secretActionAllowed role action"
  using assms by (auto simp: Authorize_def requireProjectOwnership_def split: option.splits if_splits sum.splits)

lemma resolveOrgMembershipRole_member:
  assumes "resolveOrgMembershipRole f d ctx = Inr role" "cx_prole ctx = None" "cx_org ctx = Some org" "cx_user ctx = Some uid"
  shows "(\<exists>x \<in> set (orgs d). o_id x = org \<and> o_owner x = uid) \<or> (\<exists>m \<in> set (members d). m_org m = org \<and> m_user m = uid \<and> m_role m \<in> set validMemberRoles)"
  using assms by (auto simp: resolveOrgMembershipRole_def GetOrgByID_def validMemberRoles_def dest!: find_SomeD
      split: option.splits sum.splits if_splits)

text \<open>
  C10. A request that the middleware admitted may act on the secrets of a project only if the project belongs
  to the organization of its credential: a live key of that organization, or a token of a user who owns the
  organization or is a member of it. For every other project the answer is the one for a missing project.
\<close>

theorem secret_access_needs_standing:
  assumes "fst (Auth_Middleware e meth hdr cookie s) = Pass ctx"
  shows "(Authorize f projects d ctx pid action = None \<longrightarrow>
      (\<exists>org. org \<noteq> 0 \<and> map_of projects pid = Some org \<and>
        ((\<exists>k. live_key e (request_token hdr cookie) k s \<and> k_site k = None \<and> k_org k = org)
         \<or> (\<exists>c. ax_verify e (request_token hdr cookie) = Some c \<and> c_org c = org \<and>
             ((\<exists>x \<in> set (orgs d). o_id x = org \<and> o_owner x = c_user c)
              \<or> (\<exists>m \<in> set (members d). m_org m = org \<and> m_user m = c_user c \<and> m_role m \<in> set validMemberRoles))))))
    \<and> (map_of projects pid \<noteq> cx_org ctx \<longrightarrow> Authorize f projects d ctx pid action = Authorize f (map_del pid projects) d ctx pid action)"
proof (intro conjI impI)
  assume ok: "Authorize f projects d ctx pid action = None"
  then obtain org role where a: "cx_org ctx = Some org" "org \<noteq> 0" "map_of projects pid = Some org" "resolveOrgMembershipRole f d ctx = Inr role"
    by (rule Authorize_owns)
  from Auth_Middleware_Pass [OF assms] have "entitled e meth (request_token hdr cookie) s ctx" by simp
  then show "\<exists>org. org \<noteq> 0 \<and> map_of projects pid = Some org \<and>
        ((\<exists>k. live_key e (request_token hdr cookie) k s \<and> k_site k = None \<and> k_org k = org)
         \<or> (\<exists>c. ax_verify e (request_token hdr cookie) = Some c \<and> c_org c = org \<and>
             ((\<exists>x \<in> set (orgs d). o_id x = org \<and> o_owner x = c_user c)
              \<or> (\<exists>m \<in> set (members d). m_org m = org \<and> m_user m = c_user c \<and> m_role m \<in> set validMemberRoles))))"
  proof cases
    case (site_key k site)
    with a(1) show ?thesis by (simp add: background_def)
  next
    case (org_key k)
    with a show ?thesis by (auto simp: background_def)
  next
    case (anonymous c)
    with a resolveOrgMembershipRole_member [OF a(4), of org "c_user c"] show ?thesis by (auto simp: jwt_ctx_def background_def)
  next
    case (member c)
    with a resolveOrgMembershipRole_member [OF a(4), of org "c_user c"] show ?thesis by (auto simp: jwt_ctx_def background_def)
  qed
next
  assume "map_of projects pid \<noteq> cx_org ctx"
  then show "Authorize f projects d ctx pid action = Authorize f (map_del pid projects) d ctx pid action"
    by (auto simp: Authorize_def requireProjectOwnership_def split: option.split)
qed

text \<open>The first answer depends on nothing but the caller's organization, whether the project is missing or foreign.\<close>

lemma secret_access_needs_standing_witness:
  "let ctx = jwt_ctx sample_claims in
   Authorize (\<lambda>_. False) [(''p'', 1), (''q'', 2)] (kdir sample_keys) ctx ''p'' read_secret_value = None
   \<and> Authorize (\<lambda>_. False) [(''p'', 1), (''q'', 2)] (kdir sample_keys) ctx ''q'' read_secret_value
     = Authorize (\<lambda>_. False) (map_del ''q'' [(''p'', 1), (''q'', 2)]) (kdir sample_keys) ctx ''q'' read_secret_value"
proof -
  let ?ctx = "jwt_ctx sample_claims"
  have pass: "fst (Auth_Middleware sample_access ''POST'' ''Bearer jwt'' None sample_keys) = Pass ?ctx"
    by (simp add: Auth_Middleware_def request_token_def extractBearerToken_def Let_def sample_access_def jwt_gate_def isEmailVerified_def sample_claims_def)
  have "map_of [(''p'', 1), (''q'', 2)] ''q'' \<noteq> cx_org ?ctx" by (simp add: jwt_ctx_def sample_claims_def)
  from secret_access_needs_standing [OF pass, of "\<lambda>_. False" "[(''p'', 1), (''q'', 2)]" "kdir sample_keys" "''q''" read_secret_value] this
  have "Authorize (\<lambda>_. False) [(''p'', 1), (''q'', 2)] (kdir sample_keys) ?ctx ''q'' read_secret_value
     = Authorize (\<lambda>_. False) (map_del ''q'' [(''p'', 1), (''q'', 2)]) (kdir sample_keys) ?ctx ''q'' read_secret_value" by blast
  moreover have "Authorize (\<lambda>_. False) [(''p'', 1), (''q'', 2)] (kdir sample_keys) ?ctx ''p'' read_secret_value = None" by code_simp
  ultimately show ?thesis by (simp only: Let_def simp_thms)
qed

section \<open>Callers without a user\<close>

text \<open>
  An anonymous token carries user 0. An organization created with an API key is owned by user 0, so its
  API keys can be listed with an anonymous token.
\<close>

lemma anonymous_lists_keys_of_api_orgs:
  assumes "ax_verify e tok = Some c" "c_role c = ''anonymous''" "c_user c = 0" "\<not> HasPrefix tok ''bb_''" "tok \<noteq> []"
    and "orgs (kdir s) = [\<lparr> o_id = 1, o_name = n, o_slug = sl, o_owner = 0 \<rparr>]"
  shows "\<exists>ctx. fst (Auth_Middleware e ''GET'' (''Bearer '' @ tok) None s) = Pass ctx \<and> cx_user ctx = Some 0
    \<and> fst (handleListAPIKeys (\<lambda>_. False) 0 (Some 1) s) = 200"
  using assms by (simp add: Auth_Middleware_def request_token_def extractBearerToken_def Let_def jwt_gate_def jwt_ctx_def background_def
      handleListAPIKeys_def parseOrgID_def lookupOwnedOrg_def GetOrgByID_def ListAPIKeys_def)

text \<open>Users without an organization in their context see every account; a token of a member always has one.\<close>

lemma handleUsers_scoped:
  assumes "handleUsers bad ctx d = (200, us)" "cx_org ctx = Some org" "0 < org" "(uid, em) \<in> set us"
  shows "(\<exists>x \<in> set (orgs d). o_id x = org \<and> o_owner x = uid) \<or> (\<exists>m \<in> set (members d). m_org m = org \<and> m_user m = uid)"
  using assms by (auto simp: handleUsers_def fetchUsers_def Let_def split: if_splits)

end
