(* ===== verification/Go_Strconv.thy ===== *)
theory Go_Strconv
  imports BB_Prelude
begin

text \<open>
  Decimal numbers as \<^verbatim>\<open>strconv\<close> reads and writes them.
\<close>

section \<open>Writing\<close>

text \<open>\<^verbatim>\<open>strconv.Itoa\<close> of a number that is not negative.\<close>

definition digit :: "nat \<Rightarrow> char" where
  "digit n = char_of (48 + n mod 10)"

fun Itoa :: "nat \<Rightarrow> string" where
  "Itoa n = (if n < 10 then [digit n] else Itoa (n div 10) @ [digit n])"

declare Itoa.simps [simp del]

lemma of_digit: "of_char (digit n) = (48 + n mod 10 :: nat)"
proof -
  have "48 + n mod 10 < 256" using mod_less_divisor [of 10 n] by simp
  then show ?thesis by (simp add: digit_def)
qed

lemma digit_eq: "digit a = digit b \<Longrightarrow> a mod 10 = b mod 10"
  using of_digit [of a] of_digit [of b] by simp

lemma Itoa_not_Nil [simp]: "Itoa n \<noteq> []" "[] \<noteq> Itoa n"
  by (subst Itoa.simps, simp)+

lemma Itoa_digits: "c \<in> set (Itoa n) \<Longrightarrow> \<exists>d. c = digit d"
proof (induction n rule: Itoa.induct)
  case (1 n)
  show ?case
  proof (cases "n < 10")
    case True
    then have "c = digit n" using "1.prems" by (simp add: Itoa.simps [of n])
    then show ?thesis by blast
  next
    case False
    then have "c = digit n \<or> c \<in> set (Itoa (n div 10))" using "1.prems" by (simp add: Itoa.simps [of n])
    then show ?thesis using "1.IH" [OF False] by blast
  qed
qed

lemma Itoa_inj: "Itoa m = Itoa n \<Longrightarrow> m = n"
proof (induction m arbitrary: n rule: less_induct)
  case (less m)
  show ?case
  proof (cases "m < 10")
    case True
    with less.prems have "n < 10 \<and> digit m = digit n"
      by (simp add: Itoa.simps [of m] Itoa.simps [of n] append_eq_Cons_conv split: if_splits)
    with digit_eq [of m n] True show ?thesis by simp
  next
    case False
    with less.prems have n: "\<not> n < 10" "Itoa (m div 10) = Itoa (n div 10)" "digit m = digit n"
      by (auto simp: Itoa.simps [of m] Itoa.simps [of n] Cons_eq_append_conv split: if_splits)
    have "m div 10 = n div 10" using less.IH [OF _ n(2)] False by simp
    with digit_eq [OF n(3)] show ?thesis by (metis div_mod_decomp)
  qed
qed

lemma digit_neq: "digit d \<noteq> CHR '':''" "digit d \<noteq> CHR ''b''"
proof -
  have "of_char (CHR '':'') = (58 :: nat)" "of_char (CHR ''b'') = (98 :: nat)" by simp_all
  moreover have "of_char (digit d) < (58 :: nat)" using of_digit [of d] mod_less_divisor [of 10 d] by simp
  ultimately show "digit d \<noteq> CHR '':''" "digit d \<noteq> CHR ''b''" by auto
qed

lemma Itoa_no_colon: "CHR '':'' \<notin> set (Itoa n)"
  using Itoa_digits digit_neq(1) by metis

section \<open>Reading\<close>

definition is_digit :: "char \<Rightarrow> bool" where
  "is_digit c = (let n = of_char c :: nat in 48 \<le> n \<and> n \<le> 57)"

definition digit_val :: "char \<Rightarrow> nat" where
  "digit_val c = of_char c - 48"

definition digits_val :: "string \<Rightarrow> nat" where
  "digits_val s = foldl (\<lambda>n c. 10 * n + digit_val c) 0 s"

text \<open>\<^verbatim>\<open>strconv.Atoi\<close> and \<^verbatim>\<open>ParseInt(s, 10, 64)\<close>: an optional sign, at least one digit, and a value in the range of 64 bits.\<close>

definition Atoi :: "string \<Rightarrow> int option" where
  "Atoi s = (let neg = HasPrefix s ''-''; ds = (if HasPrefix s ''-'' \<or> HasPrefix s ''+'' then tl s else s);
       v = (if neg then - int (digits_val ds) else int (digits_val ds))
     in if ds = [] \<or> \<not> list_all is_digit ds then None else if - (2 ^ 63) \<le> v \<and> v < 2 ^ 63 then Some v else None)"

lemma is_digit_digit [simp]: "is_digit (digit n)"
proof -
  have "n mod 10 < 10" by simp
  then show ?thesis by (simp add: is_digit_def Let_def of_digit)
qed

lemma digit_val_digit [simp]: "digit_val (digit n) = n mod 10"
  by (simp add: digit_val_def of_digit)

lemma digits_val_snoc: "digits_val (s @ [c]) = 10 * digits_val s + digit_val c"
  by (simp add: digits_val_def)

lemma digits_val_Itoa: "digits_val (Itoa n) = n"
proof (induction n rule: Itoa.induct)
  case (1 n)
  show ?case
  proof (cases "n < 10")
    case True
    then show ?thesis by (simp add: Itoa.simps [of n] digits_val_def)
  next
    case False
    then show ?thesis using "1.IH" [OF False] by (simp add: Itoa.simps [of n] digits_val_snoc)
  qed
qed

lemma Itoa_all_digits: "list_all is_digit (Itoa n)"
  using Itoa_digits is_digit_digit by (fastforce simp: list_all_iff)

lemma hd_Itoa: "is_digit (hd (Itoa n))"
  using Itoa_all_digits [of n] by (cases "Itoa n") simp_all

lemma Itoa_unsigned: "\<not> HasPrefix (Itoa n) ''-''" "\<not> HasPrefix (Itoa n) ''+''"
proof -
  obtain c cs where i: "Itoa n = c # cs" by (cases "Itoa n") simp_all
  then have "c \<noteq> CHR ''-''" "c \<noteq> CHR ''+''" using hd_Itoa [of n] by (auto simp: is_digit_def)
  then show "\<not> HasPrefix (Itoa n) ''-''" "\<not> HasPrefix (Itoa n) ''+''" by (simp_all add: i)
qed

lemma Atoi_Itoa_any: "Atoi (Itoa n) = (if n < 2 ^ 63 then Some (int n) else None)"
proof -
  have "(int n < 2 ^ 63) = (n < 2 ^ 63)" by (metis of_nat_less_iff of_nat_numeral of_nat_power)
  then show ?thesis using Itoa_all_digits [of n] Itoa_unsigned [of n] by (simp add: Atoi_def Let_def digits_val_Itoa)
qed

lemma Atoi_Itoa: "n < 2 ^ 63 \<Longrightarrow> Atoi (Itoa n) = Some (int n)"
  by (simp add: Atoi_Itoa_any)

end
