(* ===== verification/Secrets_Keys.thy ===== *)
theory Secrets_Keys
  imports Go_Strconv
begin

text \<open>
  The key hierarchy of \<^verbatim>\<open>components/secrets/keys.go\<close>: the root key wraps a data key per project, and a data
  key seals the versions of secrets under authenticated data that names their place.

  AES-256-GCM and base64 are fields of a record \<open>crypto\<close>; \<open>crypto_ok\<close> states what the code relies on: opening
  what was sealed under the same key, nonce and authenticated data gives the plaintext, a sealed text is
  16 bytes longer than its plaintext, and decoding undoes encoding. Bytes are characters.
\<close>

section \<open>Scopes and authenticated data\<close>

record Scope =
  ProjectID :: string
  EnvironmentID :: string
  FolderID :: string
  SecretID :: string
  Version :: nat

definition aad_field :: "string \<Rightarrow> string" where
  "aad_field i = Itoa (length i) @ '':'' @ i"

definition AAD :: "Scope \<Rightarrow> string" where
  "AAD s = aad_field (ProjectID s) @ aad_field (EnvironmentID s) @ aad_field (FolderID s) @ aad_field (SecretID s) @ ''v:'' @ Itoa (Version s)"

definition keyRecordAAD :: "string \<Rightarrow> string" where
  "keyRecordAAD projectID = ''bigbase:key-record:'' @ aad_field projectID"

section \<open>Envelopes\<close>

record crypto =
  gcm_seal :: "string \<Rightarrow> string \<Rightarrow> string \<Rightarrow> string \<Rightarrow> string"
  gcm_open :: "string \<Rightarrow> string \<Rightarrow> string \<Rightarrow> string \<Rightarrow> string option"
  b64 :: "string \<Rightarrow> string"
  unb64 :: "string \<Rightarrow> string option"

abbreviation rootKeyLen :: nat where "rootKeyLen \<equiv> 32"
abbreviation NonceSize :: nat where "NonceSize \<equiv> 12"
abbreviation Overhead :: nat where "Overhead \<equiv> 16"

definition crypto_ok :: "crypto \<Rightarrow> bool" where
  "crypto_ok c = ((\<forall>k aad n p. length k = rootKeyLen \<longrightarrow> length n = NonceSize \<longrightarrow> gcm_open c k aad n (gcm_seal c k aad n p) = Some p)
     \<and> (\<forall>k aad n p. length (gcm_seal c k aad n p) = length p + Overhead) \<and> (\<forall>x. unb64 c (b64 c x) = Some x))"

abbreviation AlgorithmAES256GCM :: string where "AlgorithmAES256GCM \<equiv> ''aes-256-gcm''"

definition NewKeyHierarchy :: "string \<Rightarrow> string option" where
  "NewKeyHierarchy rootKey = (if length rootKey \<noteq> rootKeyLen then None else Some rootKey)"

text \<open>\<^verbatim>\<open>aes.NewCipher\<close> takes keys of 16, 24 and 32 bytes; \<open>n\<close> is the nonce read from the random source.\<close>

definition aes_key :: "string \<Rightarrow> bool" where
  "aes_key k = (length k \<in> {16, 24, 32})"

definition sealAESGCM :: "crypto \<Rightarrow> string option \<Rightarrow> string \<Rightarrow> string \<Rightarrow> string \<Rightarrow> (string \<times> string) option" where
  "sealAESGCM c n key aad plaintext = (if \<not> aes_key key then None
     else (case n of None \<Rightarrow> None | Some nonce \<Rightarrow> Some (nonce, gcm_seal c key aad nonce plaintext)))"

definition openAESGCM :: "crypto \<Rightarrow> string \<Rightarrow> string \<Rightarrow> string \<Rightarrow> string option" where
  "openAESGCM c key aad blob = (if \<not> aes_key key then None
     else if length blob < NonceSize + Overhead then None
     else gcm_open c key aad (take NonceSize blob) (drop NonceSize blob))"

text \<open>\<open>dk\<close>, \<open>kid\<close> and \<open>n\<close> are the random data key, key identifier and nonce.\<close>

definition GenerateProjectDataKey :: "crypto \<Rightarrow> string \<Rightarrow> string option \<Rightarrow> string option \<Rightarrow> string option \<Rightarrow> string \<Rightarrow> (string \<times> string \<times> string) option" where
  "GenerateProjectDataKey c root dk kid n projectID = (case dk of
     None \<Rightarrow> None
   | Some dataKey \<Rightarrow> (case kid of
         None \<Rightarrow> None
       | Some keyID \<Rightarrow> (case sealAESGCM c n root (keyRecordAAD projectID) dataKey of
             None \<Rightarrow> None
           | Some (nonce, sealed) \<Rightarrow> Some (keyID, AlgorithmAES256GCM, b64 c (nonce @ sealed)))))"

definition UnwrapProjectDataKey :: "crypto \<Rightarrow> string \<Rightarrow> string \<Rightarrow> string \<Rightarrow> string \<Rightarrow> string option" where
  "UnwrapProjectDataKey c root projectID algorithm encryptedKey =
     (if algorithm \<noteq> AlgorithmAES256GCM then None
      else (case unb64 c encryptedKey of
          None \<Rightarrow> None
        | Some blob \<Rightarrow> (case openAESGCM c root (keyRecordAAD projectID) blob of
              None \<Rightarrow> None
            | Some dataKey \<Rightarrow> if length dataKey \<noteq> rootKeyLen then None else Some dataKey)))"

definition Seal :: "crypto \<Rightarrow> string option \<Rightarrow> string \<Rightarrow> Scope \<Rightarrow> string \<Rightarrow> (string \<times> string) option" where
  "Seal c n dataKey scope plaintext = (case sealAESGCM c n dataKey (AAD scope) plaintext of
     None \<Rightarrow> None
   | Some (nonce, sealed) \<Rightarrow> Some (b64 c nonce, b64 c sealed))"

definition Open :: "crypto \<Rightarrow> string \<Rightarrow> Scope \<Rightarrow> string \<Rightarrow> string \<Rightarrow> string option" where
  "Open c dataKey scope nonce ciphertext = (case unb64 c nonce of
     None \<Rightarrow> None
   | Some nonceBytes \<Rightarrow> (case unb64 c ciphertext of
         None \<Rightarrow> None
       | Some sealed \<Rightarrow> openAESGCM c dataKey (AAD scope) (nonceBytes @ sealed)))"

section \<open>The authenticated data is injective\<close>

lemma split_at_colon: "a @ '':'' @ x = b @ '':'' @ y \<Longrightarrow> CHR '':'' \<notin> set a \<Longrightarrow> CHR '':'' \<notin> set b \<Longrightarrow> a = b \<and> x = y"
  by (induction a b rule: list_induct2') auto

lemma aad_field_inj: "aad_field i @ x = aad_field j @ y \<Longrightarrow> i = j \<and> x = y"
proof -
  assume "aad_field i @ x = aad_field j @ y"
  then have "Itoa (length i) @ '':'' @ (i @ x) = Itoa (length j) @ '':'' @ (j @ y)" by (simp add: aad_field_def)
  from split_at_colon [OF this Itoa_no_colon Itoa_no_colon] have "length i = length j" "i @ x = j @ y" by (auto dest: Itoa_inj)
  then show ?thesis by simp
qed

text \<open>
  Two scopes with the same authenticated data are the same scope, for arbitrary identifiers, and no
  scope has the authenticated data of a wrapped data key: a ciphertext is bound to its exact place.
\<close>

lemma AAD_injective: "(AAD s = AAD t) = (s = t) \<and> AAD s \<noteq> keyRecordAAD p \<and> (keyRecordAAD p = keyRecordAAD q) = (p = q)"
proof (intro conjI)
  show "(AAD s = AAD t) = (s = t)"
  proof
    assume "AAD s = AAD t"
    then have "ProjectID s = ProjectID t \<and> EnvironmentID s = EnvironmentID t \<and> FolderID s = FolderID t \<and> SecretID s = SecretID t \<and> Itoa (Version s) = Itoa (Version t)"
      unfolding AAD_def by (auto dest!: aad_field_inj)
    then show "s = t" by (auto dest: Itoa_inj intro: Scope.equality)
  qed simp
  show "AAD s \<noteq> keyRecordAAD p"
  proof
    assume a: "AAD s = keyRecordAAD p"
    have "hd (AAD s) \<in> set (Itoa (length (ProjectID s)))" by (simp add: AAD_def aad_field_def)
    then have "hd (AAD s) \<noteq> CHR ''b''" using Itoa_digits digit_neq(2) by metis
    with a show False by (simp add: keyRecordAAD_def)
  qed
  show "(keyRecordAAD p = keyRecordAAD q) = (p = q)"
    using aad_field_inj [of p "[]" q "[]"] by (auto simp: keyRecordAAD_def)
qed

section \<open>Round trips of the envelopes\<close>

lemma openAESGCM_seal:
  assumes "crypto_ok c" "length key = rootKeyLen" "length n = NonceSize" "sealAESGCM c (Some n) key aad p = Some (n', sealed)"
  shows "openAESGCM c key aad (n' @ sealed) = Some p"
  using assms by (auto simp: crypto_ok_def sealAESGCM_def openAESGCM_def aes_key_def)

lemma Unwrap_Generate:
  assumes "crypto_ok c" "length root = rootKeyLen" "\<And>x. n = Some x \<Longrightarrow> length x = NonceSize" "\<And>x. dk = Some x \<Longrightarrow> length x = rootKeyLen"
    and "GenerateProjectDataKey c root dk kid n pid = Some (keyID, alg, wrapped)"
  shows "UnwrapProjectDataKey c root pid alg wrapped = dk \<and> dk \<noteq> None \<and> kid = Some keyID"
proof -
  from assms(5) obtain dataKey nonce where g: "dk = Some dataKey" "kid = Some keyID" "n = Some nonce" "alg = AlgorithmAES256GCM"
      "wrapped = b64 c (nonce @ gcm_seal c root (keyRecordAAD pid) nonce dataKey)"
    by (auto simp: GenerateProjectDataKey_def sealAESGCM_def split: option.splits if_splits)
  then have "length nonce = NonceSize" "length dataKey = rootKeyLen" using assms(3,4) by simp_all
  then show ?thesis using openAESGCM_seal [OF assms(1,2), of nonce "keyRecordAAD pid" dataKey] assms(1,2) g
    by (auto simp: UnwrapProjectDataKey_def crypto_ok_def sealAESGCM_def aes_key_def)
qed

lemma Open_Seal:
  assumes "crypto_ok c" "length dataKey = rootKeyLen" "\<And>x. n = Some x \<Longrightarrow> length x = NonceSize" "Seal c n dataKey scope p = Some (nonce, ct)"
  shows "Open c dataKey scope nonce ct = Some p"
proof -
  from assms(4) obtain nb where s: "n = Some nb" "nonce = b64 c nb" "ct = b64 c (gcm_seal c dataKey (AAD scope) nb p)"
    by (auto simp: Seal_def sealAESGCM_def split: option.splits if_splits)
  then show ?thesis using openAESGCM_seal [OF assms(1,2), of nb "AAD scope" p] assms(1-3)
    by (auto simp: Open_def crypto_ok_def sealAESGCM_def aes_key_def)
qed

end
