(* ===== verification/Secrets_Vault.thy ===== *)
theory Secrets_Vault
  imports Secrets_Keys Deploy_Env
begin

text \<open>
  The store of secrets (\<^verbatim>\<open>components/secrets\<close>: \<^verbatim>\<open>manager.go\<close>, \<^verbatim>\<open>store.go\<close>, \<^verbatim>\<open>rotation.go\<close>): folders, secrets with
  immutable versions, data keys of projects and their rotation.

  Tables are lists of rows. A call has an input record: the organization of its context, the statements
  that fail (by number), the identifiers, nonces and key material it draws, and whether the database
  enforces foreign keys, which SQLite does only on request. A transaction that fails leaves the tables as
  they were. Rows of projects and environments belong to another component, which may change them at any time. The order in which a rotation visits rows only pairs them with nonces; it is table order here.
\<close>

section \<open>Tables\<close>

datatype secrets_error =
    ErrOrganizationRequired | ErrProjectNotFound | ErrEnvironmentNotFound | ErrFolderNotFound | ErrSecretNotFound
  | ErrSecretAlreadyExists | ErrVersionNotFound | ErrActiveKeyNotFound | ErrInvalidKeyMaterial | ErrDecryptionFailed
  | ErrInvalid | ErrFailed | ErrRotationIncomplete

datatype key_phase = KeyStateActive | KeyStateRotating | KeyStateRetired

record SecretFolder =
  fo_id :: string
  fo_project :: string
  fo_env :: string
  fo_name :: string

record keyRecord =
  kr_id :: string
  kr_project :: string
  kr_key :: string
  kr_alg :: string
  kr_enc :: string
  kr_state :: key_phase

record secretRow =
  sr_id :: string
  sr_project :: string
  sr_env :: string
  sr_folder :: string
  sr_key :: string
  sr_cur :: nat

record versionRow =
  v_id :: string
  v_secret :: string
  v_no :: nat
  v_record :: string
  v_key :: string
  v_alg :: string
  v_nonce :: string
  v_ct :: string

record vault =
  projects :: "(string, nat) go_map"
  environments :: "(string, string) go_map"
  folders :: "SecretFolder list"
  key_records :: "keyRecord list"
  secrets :: "secretRow list"
  versions :: "versionRow list"

record vault_cfg =
  vc_crypto :: crypto
  vc_root :: string

record vault_in =
  in_org :: "nat option"
  in_bad :: "nat \<Rightarrow> bool"
  in_id :: "nat \<Rightarrow> string option"
  in_nonce :: "nat \<Rightarrow> string option"
  in_dk :: "string option"
  in_kid :: "string option"
  in_fk :: bool

section \<open>Validation\<close>

definition validateSecretKey :: "string \<Rightarrow> bool" where
  "validateSecretKey key = (key \<noteq> [] \<and> length key \<le> 128 \<and> CHR ''A'' \<le> hd key \<and> hd key \<le> CHR ''Z''
     \<and> list_all (\<lambda>c. (CHR ''A'' \<le> c \<and> c \<le> CHR ''Z'') \<or> (CHR ''0'' \<le> c \<and> c \<le> CHR ''9'') \<or> c = CHR ''_'') key)"

definition validateSecretValue :: "string \<Rightarrow> bool" where
  "validateSecretValue value = (length value \<le> 64 * 1024)"

definition validateFolderName :: "string \<Rightarrow> string option" where
  "validateFolderName name0 = (let name = TrimSpace name0 in if name = [] then None else if length name > 200 then None else Some name)"

definition requireProject :: "vault_in \<Rightarrow> string \<Rightarrow> vault \<Rightarrow> secrets_error option" where
  "requireProject i pid s = (case in_org i of
     None \<Rightarrow> Some ErrOrganizationRequired
   | Some org \<Rightarrow> if org = 0 then Some ErrOrganizationRequired
       else if in_bad i 0 then Some ErrFailed
       else (case map_of (projects s) pid of
           None \<Rightarrow> Some ErrProjectNotFound
         | Some porg \<Rightarrow> if porg \<noteq> org then Some ErrProjectNotFound else None))"

definition verifyScope :: "vault_in \<Rightarrow> string \<Rightarrow> string \<Rightarrow> string \<Rightarrow> vault \<Rightarrow> secrets_error option" where
  "verifyScope i pid env folder s = (case requireProject i pid s of
     Some er \<Rightarrow> Some er
   | None \<Rightarrow>
       if in_bad i 1 then Some ErrFailed
       else (case map_of (environments s) env of
           None \<Rightarrow> Some ErrEnvironmentNotFound
         | Some ep \<Rightarrow> if ep \<noteq> pid then Some ErrEnvironmentNotFound
             else if folder = [] then None
             else if in_bad i 2 then Some ErrFailed
             else (case find (\<lambda>f. fo_id f = folder) (folders s) of
                 None \<Rightarrow> Some ErrFolderNotFound
               | Some f \<Rightarrow> if fo_project f \<noteq> pid \<or> fo_env f \<noteq> env then Some ErrFolderNotFound else None)))"

section \<open>Reading rows\<close>

definition getFolder :: "bool \<Rightarrow> string \<Rightarrow> string \<Rightarrow> string \<Rightarrow> vault \<Rightarrow> (secrets_error, SecretFolder) res" where
  "getFolder bad pid env name s = (if bad then Inl ErrFailed
     else (case find (\<lambda>f. fo_project f = pid \<and> fo_env f = env \<and> fo_name f = name) (folders s) of
         None \<Rightarrow> Inl ErrFolderNotFound | Some f \<Rightarrow> Inr f))"

definition loadSecret :: "bool \<Rightarrow> string \<Rightarrow> string \<Rightarrow> string \<Rightarrow> string \<Rightarrow> vault \<Rightarrow> (secrets_error, secretRow) res" where
  "loadSecret bad pid env folder key s = (if bad then Inl ErrFailed
     else (case find (\<lambda>r. sr_folder r = folder \<and> sr_key r = key) (secrets s) of
         None \<Rightarrow> Inl ErrSecretNotFound
       | Some r \<Rightarrow> if sr_project r \<noteq> pid \<or> sr_env r \<noteq> env \<or> sr_folder r \<noteq> folder then Inl ErrSecretNotFound else Inr r))"

definition loadVersion :: "bool \<Rightarrow> string \<Rightarrow> nat \<Rightarrow> vault \<Rightarrow> (secrets_error, versionRow) res" where
  "loadVersion bad sid n s = (if bad then Inl ErrFailed
     else (case (if n > 0 then find (\<lambda>v. v_secret v = sid \<and> v_no v = n) (versions s)
                 else (case find (\<lambda>r. sr_id r = sid) (secrets s) of
                     None \<Rightarrow> None | Some r \<Rightarrow> find (\<lambda>v. v_secret v = sid \<and> v_no v = sr_cur r) (versions s))) of
         None \<Rightarrow> Inl ErrVersionNotFound | Some v \<Rightarrow> Inr v))"

definition loadKeyRecord :: "string \<Rightarrow> vault \<Rightarrow> keyRecord option" where
  "loadKeyRecord kid s = find (\<lambda>r. kr_id r = kid) (key_records s)"

definition loadActiveKeyQuery :: "bool \<Rightarrow> string \<Rightarrow> vault \<Rightarrow> (secrets_error, keyRecord) res" where
  "loadActiveKeyQuery bad pid s = (if bad then Inl ErrFailed
     else (case find (\<lambda>r. kr_project r = pid \<and> kr_state r = KeyStateActive) (key_records s) of
         None \<Rightarrow> Inl ErrActiveKeyNotFound | Some r \<Rightarrow> Inr r))"

definition loadRotatingKey :: "bool \<Rightarrow> string \<Rightarrow> vault \<Rightarrow> (secrets_error, keyRecord) res" where
  "loadRotatingKey bad pid s = (if bad then Inl ErrFailed
     else (case find (\<lambda>r. kr_project r = pid \<and> kr_state r = KeyStateRotating) (key_records s) of
         None \<Rightarrow> Inl ErrFailed | Some r \<Rightarrow> Inr r))"

definition unwrap :: "vault_cfg \<Rightarrow> string \<Rightarrow> keyRecord \<Rightarrow> string option" where
  "unwrap c pid r = UnwrapProjectDataKey (vc_crypto c) (vc_root c) pid (kr_alg r) (kr_enc r)"

definition decryptVersion :: "vault_cfg \<Rightarrow> bool \<Rightarrow> Scope \<Rightarrow> versionRow \<Rightarrow> vault \<Rightarrow> (secrets_error, string) res" where
  "decryptVersion c bad scope ver s =
     (if v_alg ver \<noteq> AlgorithmAES256GCM then Inl ErrInvalidKeyMaterial
      else (case (if bad then None else loadKeyRecord (v_record ver) s) of
          None \<Rightarrow> Inl ErrInvalidKeyMaterial
        | Some r \<Rightarrow> if kr_key r \<noteq> v_key ver then Inl ErrInvalidKeyMaterial
            else (case unwrap c (ProjectID scope) r of
                None \<Rightarrow> Inl ErrDecryptionFailed
              | Some dataKey \<Rightarrow> (case Open (vc_crypto c) dataKey scope (v_nonce ver) (v_ct ver) of
                    None \<Rightarrow> Inl ErrDecryptionFailed | Some p \<Rightarrow> Inr p))))"

definition secret_scope :: "secretRow \<Rightarrow> nat \<Rightarrow> Scope" where
  "secret_scope r n = \<lparr> ProjectID = sr_project r, EnvironmentID = sr_env r, FolderID = sr_folder r, SecretID = sr_id r, Version = n \<rparr>"

text \<open>The preview of a secret: empty before its first version, a marker when it cannot be read, else the mask.\<close>

definition previewDecryptError :: string where
  "previewDecryptError = ''<decrypt error>''"

definition metadataFor :: "vault_cfg \<Rightarrow> vault_in \<Rightarrow> secretRow \<Rightarrow> vault \<Rightarrow> secretRow \<times> string" where
  "metadataFor c i r s = (r, if sr_cur r = 0 then []
     else (case loadVersion (in_bad i 30) (sr_id r) (sr_cur r) s of
         Inl _ \<Rightarrow> previewDecryptError
       | Inr v \<Rightarrow> (case decryptVersion c (in_bad i 31) (secret_scope r (v_no v)) v s of
             Inl _ \<Rightarrow> previewDecryptError | Inr p \<Rightarrow> MaskValue p)))"

definition GetSecretMetadata :: "vault_cfg \<Rightarrow> vault_in \<Rightarrow> string \<Rightarrow> string \<Rightarrow> string \<Rightarrow> string \<Rightarrow> vault \<Rightarrow> (secrets_error, secretRow \<times> string) res" where
  "GetSecretMetadata c i pid env folder key s = (case verifyScope i pid env folder s of
     Some er \<Rightarrow> Inl er
   | None \<Rightarrow> (case loadSecret (in_bad i 3) pid env folder key s of Inl er \<Rightarrow> Inl er | Inr r \<Rightarrow> Inr (metadataFor c i r s)))"

definition ListSecrets :: "vault_cfg \<Rightarrow> vault_in \<Rightarrow> string \<Rightarrow> string \<Rightarrow> string \<Rightarrow> vault \<Rightarrow> (secrets_error, (secretRow \<times> string) list) res" where
  "ListSecrets c i pid env folder s = (case verifyScope i pid env folder s of
     Some er \<Rightarrow> Inl er
   | None \<Rightarrow> if in_bad i 3 then Inl ErrFailed
       else Inr (map (\<lambda>r. metadataFor c i r s) (filter (\<lambda>r. sr_folder r = folder) (secrets s))))"

definition ListFolders :: "vault_in \<Rightarrow> string \<Rightarrow> string \<Rightarrow> vault \<Rightarrow> (secrets_error, SecretFolder list) res" where
  "ListFolders i pid env s = (case verifyScope i pid env [] s of
     Some er \<Rightarrow> Inl er
   | None \<Rightarrow> if in_bad i 3 then Inl ErrFailed else Inr (filter (\<lambda>f. fo_project f = pid \<and> fo_env f = env) (folders s)))"

definition ListVersions :: "vault_in \<Rightarrow> string \<Rightarrow> string \<Rightarrow> string \<Rightarrow> string \<Rightarrow> vault \<Rightarrow> (secrets_error, (nat \<times> string) list) res" where
  "ListVersions i pid env folder key s = (case verifyScope i pid env folder s of
     Some er \<Rightarrow> Inl er
   | None \<Rightarrow> (case loadSecret (in_bad i 3) pid env folder key s of
         Inl er \<Rightarrow> Inl er
       | Inr r \<Rightarrow> if in_bad i 4 then Inl ErrFailed
           else Inr (map (\<lambda>v. (v_no v, v_key v)) (sort_key v_no (filter (\<lambda>v. v_secret v = sr_id r) (versions s))))))"

definition readSecretValue :: "vault_cfg \<Rightarrow> vault_in \<Rightarrow> string \<Rightarrow> string \<Rightarrow> string \<Rightarrow> string \<Rightarrow> nat \<Rightarrow> vault \<Rightarrow> (secrets_error, nat \<times> string) res" where
  "readSecretValue c i pid env folder key n s = (case verifyScope i pid env folder s of
     Some er \<Rightarrow> Inl er
   | None \<Rightarrow> (case loadSecret (in_bad i 3) pid env folder key s of
         Inl er \<Rightarrow> Inl er
       | Inr r \<Rightarrow> (case loadVersion (in_bad i 4) (sr_id r) n s of
             Inl er \<Rightarrow> Inl er
           | Inr v \<Rightarrow> (case decryptVersion c (in_bad i 5) (secret_scope r (v_no v)) v s of
                 Inl er \<Rightarrow> Inl er | Inr p \<Rightarrow> Inr (v_no v, p)))))"

definition ReadSecretValue :: "vault_cfg \<Rightarrow> vault_in \<Rightarrow> string \<Rightarrow> string \<Rightarrow> string \<Rightarrow> string \<Rightarrow> vault \<Rightarrow> (secrets_error, nat \<times> string) res" where
  "ReadSecretValue c i pid env folder key s = readSecretValue c i pid env folder key 0 s"

definition ReadSecretVersionValue :: "vault_cfg \<Rightarrow> vault_in \<Rightarrow> string \<Rightarrow> string \<Rightarrow> string \<Rightarrow> string \<Rightarrow> int \<Rightarrow> vault \<Rightarrow> (secrets_error, nat \<times> string) res" where
  "ReadSecretVersionValue c i pid env folder key n s = (if n \<le> 0 then Inl ErrInvalid else readSecretValue c i pid env folder key (nat n) s)"

section \<open>Folders and secrets\<close>

definition EnsureFolder :: "vault_in \<Rightarrow> string \<Rightarrow> string \<Rightarrow> string \<Rightarrow> vault \<Rightarrow> (secrets_error, SecretFolder) res \<times> vault" where
  "EnsureFolder i pid env name0 s = (case validateFolderName name0 of
     None \<Rightarrow> (Inl ErrInvalid, s)
   | Some name \<Rightarrow> (case verifyScope i pid env [] s of
         Some er \<Rightarrow> (Inl er, s)
       | None \<Rightarrow> (case in_id i 0 of
             None \<Rightarrow> (Inl ErrFailed, s)
           | Some fid \<Rightarrow> if in_bad i 3 then (Inl ErrFailed, s)
               else (let s1 = (if fid \<in> set (map fo_id (folders s)) \<or> (\<exists>f \<in> set (folders s). fo_project f = pid \<and> fo_env f = env \<and> fo_name f = name) then s
                       else s\<lparr> folders := folders s @ [\<lparr> fo_id = fid, fo_project = pid, fo_env = env, fo_name = name \<rparr>] \<rparr>)
                 in (getFolder (in_bad i 4) pid env name s1, s1)))))"

text \<open>\<^verbatim>\<open>INSERT INTO project_key_records ... ON CONFLICT DO NOTHING\<close>: identifiers are unique, and a project has at most
  one active and one rotating key.\<close>

definition insert_key_record :: "keyRecord \<Rightarrow> vault \<Rightarrow> vault" where
  "insert_key_record r s =
     (if kr_id r \<in> set (map kr_id (key_records s)) \<or> (\<exists>x \<in> set (key_records s). kr_project x = kr_project r \<and> kr_key x = kr_key r)
         \<or> (kr_state r \<noteq> KeyStateRetired \<and> (\<exists>x \<in> set (key_records s). kr_project x = kr_project r \<and> kr_state x = kr_state r))
      then s else s\<lparr> key_records := key_records s @ [r] \<rparr>)"

text \<open>Statements 6 to 9: look up the key, begin, insert and commit, and look it up again. Random values have numbers
  of their own: identifier 8 and nonce 8 are those of the key.\<close>

definition new_key_record :: "vault_cfg \<Rightarrow> vault_in \<Rightarrow> key_phase \<Rightarrow> string \<Rightarrow> keyRecord option" where
  "new_key_record c i ph pid = (case GenerateProjectDataKey (vc_crypto c) (vc_root c) (in_dk i) (in_kid i) (in_nonce i 8) pid of
     None \<Rightarrow> None
   | Some (keyID, alg, wrapped) \<Rightarrow> (case in_id i 8 of
         None \<Rightarrow> None
       | Some rid \<Rightarrow> Some \<lparr> kr_id = rid, kr_project = pid, kr_key = keyID, kr_alg = alg, kr_enc = wrapped, kr_state = ph \<rparr>))"

definition ensureActiveKey :: "vault_cfg \<Rightarrow> vault_in \<Rightarrow> string \<Rightarrow> vault \<Rightarrow> (secrets_error, keyRecord) res \<times> vault" where
  "ensureActiveKey c i pid s = (case loadActiveKeyQuery (in_bad i 6) pid s of
     Inr r \<Rightarrow> (Inr r, s)
   | Inl er \<Rightarrow> if er \<noteq> ErrActiveKeyNotFound then (Inl er, s)
       else (case new_key_record c i KeyStateActive pid of
           None \<Rightarrow> (Inl ErrFailed, s)
         | Some r \<Rightarrow> if in_bad i 7 \<or> in_bad i 8 then (Inl ErrFailed, s)
             else (let s1 = insert_key_record r s in (loadActiveKeyQuery (in_bad i 9) pid s1, s1))))"

definition insert_version :: "versionRow \<Rightarrow> vault \<Rightarrow> vault option" where
  "insert_version v s = (if v_id v \<in> set (map v_id (versions s)) \<or> (\<exists>x \<in> set (versions s). v_secret x = v_secret v \<and> v_no x = v_no v) then None
     else Some (s\<lparr> versions := versions s @ [v] \<rparr>))"

definition insert_secret :: "secretRow \<Rightarrow> vault \<Rightarrow> vault option" where
  "insert_secret r s = (if sr_id r \<in> set (map sr_id (secrets s)) \<or> (\<exists>x \<in> set (secrets s). sr_folder x = sr_folder r \<and> sr_key x = sr_key r) then None
     else Some (s\<lparr> secrets := secrets s @ [r] \<rparr>))"

text \<open>The sealed version of a value under a key record.\<close>

definition seal_version :: "vault_cfg \<Rightarrow> vault_in \<Rightarrow> keyRecord \<Rightarrow> secretRow \<Rightarrow> nat \<Rightarrow> string \<Rightarrow> (secrets_error, versionRow) res" where
  "seal_version c i r sec n value = (case unwrap c (sr_project sec) r of
     None \<Rightarrow> Inl ErrDecryptionFailed
   | Some dataKey \<Rightarrow> (case Seal (vc_crypto c) (in_nonce i 0) dataKey (secret_scope sec n) value of
         None \<Rightarrow> Inl ErrFailed
       | Some (nonce, ct) \<Rightarrow> (case in_id i 1 of
             None \<Rightarrow> Inl ErrFailed
           | Some vid \<Rightarrow> Inr \<lparr> v_id = vid, v_secret = sr_id sec, v_no = n, v_record = kr_id r, v_key = kr_key r, v_alg = kr_alg r, v_nonce = nonce, v_ct = ct \<rparr>)))"

text \<open>Creation up to its commit.\<close>

definition create_tx :: "vault_cfg \<Rightarrow> vault_in \<Rightarrow> string \<Rightarrow> string \<Rightarrow> string \<Rightarrow> string \<Rightarrow> string \<Rightarrow> vault \<Rightarrow> (secrets_error, unit) res \<times> vault" where
  "create_tx c i pid env folder key value s =
     (if \<not> validateSecretKey key \<or> \<not> validateSecretValue value then (Inl ErrInvalid, s)
      else (case verifyScope i pid env folder s of
          Some er \<Rightarrow> (Inl er, s)
        | None \<Rightarrow> (case ensureActiveKey c i pid s of
              (Inl er, s1) \<Rightarrow> (Inl er, s1)
            | (Inr rec, s1) \<Rightarrow> (case unwrap c pid rec of
                  None \<Rightarrow> (Inl ErrDecryptionFailed, s1)
                | Some _ \<Rightarrow> (case in_id i 0 of
                      None \<Rightarrow> (Inl ErrFailed, s1)
                    | Some sid \<Rightarrow>
                        (let sec = \<lparr> sr_id = sid, sr_project = pid, sr_env = env, sr_folder = folder, sr_key = key, sr_cur = 1 \<rparr> in
                         case seal_version c i rec sec 1 value of
                           Inl er \<Rightarrow> (Inl er, s1)
                         | Inr v \<Rightarrow>
                             if in_bad i 10 then (Inl ErrFailed, s1)
                             else (case insert_secret sec s1 of
                                 None \<Rightarrow> (Inl ErrSecretAlreadyExists, s1)
                               | Some s2 \<Rightarrow> if in_fk i \<and> folder \<notin> set (map fo_id (folders s2)) then (Inl ErrFailed, s1)
                                   else (case insert_version v s2 of
                                     None \<Rightarrow> (Inl ErrFailed, s1)
                                   | Some s3 \<Rightarrow> if in_bad i 11 then (Inl ErrFailed, s1) else (Inr (), s3)))))))))"

definition bump :: "string \<Rightarrow> vault \<Rightarrow> vault" where
  "bump sid s = s\<lparr> secrets := map (\<lambda>r. if sr_id r = sid then r\<lparr> sr_cur := sr_cur r + 1 \<rparr> else r) (secrets s) \<rparr>"

text \<open>An update up to its commit: the row is bumped first, and the new number read back.\<close>

definition update_tx :: "vault_cfg \<Rightarrow> vault_in \<Rightarrow> string \<Rightarrow> string \<Rightarrow> string \<Rightarrow> string \<Rightarrow> string \<Rightarrow> vault \<Rightarrow> (secrets_error, unit) res \<times> vault" where
  "update_tx c i pid env folder key value s =
     (if \<not> validateSecretKey key \<or> \<not> validateSecretValue value then (Inl ErrInvalid, s)
      else (case verifyScope i pid env folder s of
          Some er \<Rightarrow> (Inl er, s)
        | None \<Rightarrow> (case loadSecret (in_bad i 3) pid env folder key s of
              Inl er \<Rightarrow> (Inl er, s)
            | Inr sec \<Rightarrow>
                if in_bad i 4 then (Inl ErrFailed, s)
                else (let s1 = bump (sr_id sec) s in
                  case find (\<lambda>r. sr_id r = sr_id sec) (secrets s1) of
                    None \<Rightarrow> (Inl ErrFailed, s)
                  | Some sec' \<Rightarrow> (case loadActiveKeyQuery (in_bad i 6) pid s1 of
                        Inl er \<Rightarrow> (Inl er, s)
                      | Inr rec \<Rightarrow> (case seal_version c i rec sec (sr_cur sec') value of
                            Inl er \<Rightarrow> (Inl er, s)
                          | Inr v \<Rightarrow> (case insert_version v s1 of
                                None \<Rightarrow> (Inl ErrFailed, s)
                              | Some s2 \<Rightarrow> if in_bad i 10 then (Inl ErrFailed, s) else (Inr (), s2))))))))"

text \<open>Both answer with the metadata read back after the commit, by statements from number 40 on.\<close>

definition after_commit :: "vault_cfg \<Rightarrow> vault_in \<Rightarrow> string \<Rightarrow> string \<Rightarrow> string \<Rightarrow> string \<Rightarrow> (secrets_error, unit) res \<times> vault
    \<Rightarrow> (secrets_error, secretRow \<times> string) res \<times> vault" where
  "after_commit c i pid env folder key r = (case r of
     (Inl er, s) \<Rightarrow> (Inl er, s)
   | (Inr _, s) \<Rightarrow> (GetSecretMetadata c (i\<lparr> in_bad := \<lambda>n. in_bad i (n + 40) \<rparr>) pid env folder key s, s))"

definition CreateSecret :: "vault_cfg \<Rightarrow> vault_in \<Rightarrow> string \<Rightarrow> string \<Rightarrow> string \<Rightarrow> string \<Rightarrow> string \<Rightarrow> vault \<Rightarrow> (secrets_error, secretRow \<times> string) res \<times> vault" where
  "CreateSecret c i pid env folder key value s = after_commit c i pid env folder key (create_tx c i pid env folder key value s)"

definition UpdateSecret :: "vault_cfg \<Rightarrow> vault_in \<Rightarrow> string \<Rightarrow> string \<Rightarrow> string \<Rightarrow> string \<Rightarrow> string \<Rightarrow> vault \<Rightarrow> (secrets_error, secretRow \<times> string) res \<times> vault" where
  "UpdateSecret c i pid env folder key value s = after_commit c i pid env folder key (update_tx c i pid env folder key value s)"

text \<open>Deleting the row removes the versions only where foreign keys are enforced.\<close>

definition DeleteSecret :: "vault_in \<Rightarrow> string \<Rightarrow> string \<Rightarrow> string \<Rightarrow> string \<Rightarrow> vault \<Rightarrow> (secrets_error, unit) res \<times> vault" where
  "DeleteSecret i pid env folder key s = (case verifyScope i pid env folder s of
     Some er \<Rightarrow> (Inl er, s)
   | None \<Rightarrow> (case loadSecret (in_bad i 3) pid env folder key s of
         Inl er \<Rightarrow> (Inl er, s)
       | Inr sec \<Rightarrow> if in_bad i 4 then (Inl ErrFailed, s)
           else (Inr (), s\<lparr> secrets := filter (\<lambda>r. sr_id r \<noteq> sr_id sec) (secrets s),
                            versions := (if in_fk i then filter (\<lambda>v. v_secret v \<noteq> sr_id sec) (versions s) else versions s) \<rparr>)))"

section \<open>Rotation of data keys\<close>

definition BeginKeyRotation :: "vault_cfg \<Rightarrow> vault_in \<Rightarrow> string \<Rightarrow> vault \<Rightarrow> (secrets_error, keyRecord) res \<times> vault" where
  "BeginKeyRotation c i pid s = (case requireProject i pid s of
     Some er \<Rightarrow> (Inl er, s)
   | None \<Rightarrow> (case loadRotatingKey (in_bad i 6) pid s of
         Inr r \<Rightarrow> (Inr r, s)
       | Inl _ \<Rightarrow> (case new_key_record c i KeyStateRotating pid of
             None \<Rightarrow> (Inl ErrFailed, s)
           | Some r \<Rightarrow> if in_bad i 7 \<or> in_bad i 8 then (Inl ErrFailed, s)
               else (let s1 = insert_key_record r s in (loadRotatingKey (in_bad i 9) pid s1, s1)))))"

definition current_versions :: "string \<Rightarrow> vault \<Rightarrow> (versionRow \<times> secretRow) list" where
  "current_versions pid s = concat (map (\<lambda>v. map (\<lambda>r. (v, r)) (filter (\<lambda>r. sr_id r = v_secret v \<and> sr_project r = pid \<and> v_no v = sr_cur r) (secrets s))) (versions s))"

definition set_envelope :: "string \<Rightarrow> keyRecord \<Rightarrow> string \<times> string \<Rightarrow> vault \<Rightarrow> vault" where
  "set_envelope vid rot env s = s\<lparr> versions := map (\<lambda>x. if v_id x = vid then x\<lparr> v_record := kr_id rot, v_key := kr_key rot, v_nonce := fst env, v_ct := snd env \<rparr> else x) (versions s) \<rparr>"

fun rotate_loop :: "vault_cfg \<Rightarrow> vault_in \<Rightarrow> keyRecord \<Rightarrow> string \<Rightarrow> nat \<Rightarrow> (versionRow \<times> secretRow) list \<Rightarrow> vault \<Rightarrow> (secrets_error, vault) res" where
  "rotate_loop c i rot rotKey k [] s = Inr s"
| "rotate_loop c i rot rotKey k ((v, r) # ts) s =
     (case decryptVersion c (in_bad i (20 + 2 * k)) (secret_scope r (v_no v)) v s of
        Inl er \<Rightarrow> Inl er
      | Inr p \<Rightarrow> (case Seal (vc_crypto c) (in_nonce i (20 + k)) rotKey (secret_scope r (v_no v)) p of
            None \<Rightarrow> Inl ErrFailed
          | Some env \<Rightarrow> if in_bad i (21 + 2 * k) then Inl ErrFailed
              else rotate_loop c i rot rotKey (Suc k) ts (set_envelope (v_id v) rot env s)))"

definition RotateCurrentVersions :: "vault_cfg \<Rightarrow> vault_in \<Rightarrow> string \<Rightarrow> vault \<Rightarrow> (secrets_error, nat) res \<times> vault" where
  "RotateCurrentVersions c i pid s = (case requireProject i pid s of
     Some er \<Rightarrow> (Inl er, s)
   | None \<Rightarrow> (case loadActiveKeyQuery (in_bad i 6) pid s of
         Inl er \<Rightarrow> (Inl er, s)
       | Inr _ \<Rightarrow> (case loadRotatingKey (in_bad i 7) pid s of
             Inl er \<Rightarrow> (Inl er, s)
           | Inr rot \<Rightarrow> (case unwrap c pid rot of
                 None \<Rightarrow> (Inl ErrDecryptionFailed, s)
               | Some rotKey \<Rightarrow> if in_bad i 8 then (Inl ErrFailed, s)
                   else (case rotate_loop c i rot rotKey 0 (current_versions pid s) s of
                       Inl er \<Rightarrow> (Inl er, s)
                     | Inr s' \<Rightarrow> if in_bad i 9 then (Inl ErrFailed, s) else (Inr (length (current_versions pid s)), s'))))))"

definition set_phase :: "string \<Rightarrow> key_phase \<Rightarrow> vault \<Rightarrow> vault" where
  "set_phase rid ph s = s\<lparr> key_records := map (\<lambda>r. if kr_id r = rid then r\<lparr> kr_state := ph \<rparr> else r) (key_records s) \<rparr>"

text \<open>What is verified before the switch: the number of versions under the new key, and one of them opens.\<close>

definition rotation_verified :: "vault_cfg \<Rightarrow> string \<Rightarrow> keyRecord \<Rightarrow> vault \<Rightarrow> secrets_error option" where
  "rotation_verified c pid rot s =
     (if length (filter (\<lambda>r. sr_project r = pid) (secrets s)) \<noteq> length (filter (\<lambda>(v, r). v_record v = kr_id rot) (current_versions pid s)) then Some ErrRotationIncomplete
      else if filter (\<lambda>r. sr_project r = pid) (secrets s) = [] then None
      else (case current_versions pid s of
          [] \<Rightarrow> Some ErrFailed
        | (v, r) # _ \<Rightarrow> (case unwrap c pid rot of
              None \<Rightarrow> Some ErrDecryptionFailed
            | Some rotKey \<Rightarrow> (case Open (vc_crypto c) rotKey (secret_scope r (v_no v)) (v_nonce v) (v_ct v) of
                  None \<Rightarrow> Some ErrDecryptionFailed | Some _ \<Rightarrow> None))))"

text \<open>The switch: the old key retires first, so that the index of active keys never sees two.\<close>

definition switch_keys :: "string \<Rightarrow> keyRecord \<Rightarrow> keyRecord \<Rightarrow> vault \<Rightarrow> vault option" where
  "switch_keys pid active rot s =
     (let s1 = set_phase (kr_id active) KeyStateRetired s in
      if \<exists>x \<in> set (key_records s1). kr_project x = pid \<and> kr_state x = KeyStateActive \<and> kr_id x \<noteq> kr_id rot then None
      else Some (set_phase (kr_id rot) KeyStateActive s1))"

definition CompleteKeyRotation :: "vault_cfg \<Rightarrow> vault_in \<Rightarrow> string \<Rightarrow> vault \<Rightarrow> (secrets_error, unit) res \<times> vault" where
  "CompleteKeyRotation c i pid s = (case requireProject i pid s of
     Some er \<Rightarrow> (Inl er, s)
   | None \<Rightarrow> (case loadActiveKeyQuery (in_bad i 6) pid s of
         Inl er \<Rightarrow> (Inl er, s)
       | Inr active \<Rightarrow> (case loadRotatingKey (in_bad i 7) pid s of
             Inl er \<Rightarrow> (Inl er, s)
           | Inr rot \<Rightarrow> if in_bad i 8 then (Inl ErrFailed, s)
               else (case rotation_verified c pid rot s of
                   Some er \<Rightarrow> (Inl er, s)
                 | None \<Rightarrow> if in_bad i 9 then (Inl ErrFailed, s)
                     else (case switch_keys pid active rot s of None \<Rightarrow> (Inl ErrFailed, s) | Some s' \<Rightarrow> (Inr (), s'))))))"

end
