(* ===== verification/Secrets_Refine.thy ===== *)
theory Secrets_Refine
  imports Secrets_Vault
begin

text \<open>
  What the store of secrets promises: every version ever written stays readable, through updates, failures
  and rotations of the data key. The abstract store maps a folder and a key to the list of values written
  there; the tables refine it, and reading returns its entries.
\<close>

section \<open>The abstract store\<close>

definition cfg_ok :: "vault_cfg \<Rightarrow> bool" where
  "cfg_ok c = (crypto_ok (vc_crypto c) \<and> length (vc_root c) = rootKeyLen)"

definition in_ok :: "vault_in \<Rightarrow> bool" where
  "in_ok i = ((\<forall>k x. in_nonce i k = Some x \<longrightarrow> length x = NonceSize) \<and> (\<forall>x. in_dk i = Some x \<longrightarrow> length x = rootKeyLen))"

definition version_of :: "string \<Rightarrow> nat \<Rightarrow> vault \<Rightarrow> versionRow option" where
  "version_of sid n s = find (\<lambda>v. v_secret v = sid \<and> v_no v = n) (versions s)"

definition plain :: "vault_cfg \<Rightarrow> vault \<Rightarrow> secretRow \<Rightarrow> nat \<Rightarrow> string option" where
  "plain c s r n = (case version_of (sr_id r) n s of
     None \<Rightarrow> None
   | Some v \<Rightarrow> (case decryptVersion c False (secret_scope r n) v s of Inl _ \<Rightarrow> None | Inr p \<Rightarrow> Some p))"

definition secret_at :: "string \<Rightarrow> string \<Rightarrow> vault \<Rightarrow> secretRow option" where
  "secret_at folder key s = find (\<lambda>r. sr_folder r = folder \<and> sr_key r = key) (secrets s)"

type_synonym store = "string \<times> string \<Rightarrow> string list option"

definition values_of :: "vault_cfg \<Rightarrow> vault \<Rightarrow> secretRow \<Rightarrow> string list" where
  "values_of c s r = map (\<lambda>n. the (plain c s r n)) [1..<Suc (sr_cur r)]"

definition hist :: "vault_cfg \<Rightarrow> vault \<Rightarrow> store" where
  "hist c s = (\<lambda>(folder, key). map_option (values_of c s) (secret_at folder key s))"

section \<open>Well-formed tables\<close>

definition records_ok :: "vault_cfg \<Rightarrow> vault \<Rightarrow> bool" where
  "records_ok c s = (distinct (map kr_id (key_records s)) \<and> (\<forall>r \<in> set (key_records s). unwrap c (kr_project r) r \<noteq> None)
     \<and> (\<forall>a \<in> set (key_records s). \<forall>b \<in> set (key_records s). kr_project a = kr_project b \<and> kr_state a = kr_state b \<and> kr_state a \<noteq> KeyStateRetired \<longrightarrow> a = b))"

definition secrets_ok :: "vault \<Rightarrow> bool" where
  "secrets_ok s = (distinct (map sr_id (secrets s)) \<and> distinct (map (\<lambda>r. (sr_folder r, sr_key r)) (secrets s)) \<and> (\<forall>r \<in> set (secrets s). 1 \<le> sr_cur r))"

definition versions_ok :: "vault \<Rightarrow> bool" where
  "versions_ok s = (distinct (map v_id (versions s)) \<and> distinct (map (\<lambda>v. (v_secret v, v_no v)) (versions s))
     \<and> (\<forall>v \<in> set (versions s). 1 \<le> v_no v \<and> (v_secret v, 1) \<in> set (map (\<lambda>v. (v_secret v, v_no v)) (versions s)))
     \<and> (\<forall>v \<in> set (versions s). \<forall>r \<in> set (secrets s). v_secret v = sr_id r \<longrightarrow> v_no v \<le> sr_cur r))"

definition readable :: "vault_cfg \<Rightarrow> vault \<Rightarrow> bool" where
  "readable c s = (\<forall>r \<in> set (secrets s). \<forall>n. 1 \<le> n \<and> n \<le> sr_cur r \<longrightarrow> plain c s r n \<noteq> None)"

definition vault_ok :: "vault_cfg \<Rightarrow> vault \<Rightarrow> bool" where
  "vault_ok c s = (records_ok c s \<and> secrets_ok s \<and> versions_ok s \<and> readable c s)"

section \<open>Key records keep their meaning\<close>

definition same_key :: "keyRecord \<Rightarrow> keyRecord \<Rightarrow> bool" where
  "same_key a b = (kr_id a = kr_id b \<and> kr_project a = kr_project b \<and> kr_key a = kr_key b \<and> kr_alg a = kr_alg b \<and> kr_enc a = kr_enc b)"

definition keys_kept :: "vault \<Rightarrow> vault \<Rightarrow> bool" where
  "keys_kept s s' = (\<forall>rid r. loadKeyRecord rid s = Some r \<longrightarrow> (\<exists>r'. loadKeyRecord rid s' = Some r' \<and> same_key r r'))"

lemma keys_kept_same: "key_records s' = key_records s \<Longrightarrow> keys_kept s s'"
  by (simp add: keys_kept_def loadKeyRecord_def same_key_def)

lemma decryptVersion_kept:
  assumes "keys_kept s s'" "decryptVersion c False sc v s = Inr p"
  shows "decryptVersion c False sc v s' = Inr p"
proof -
  from assms(2) obtain r where r: "v_alg v = AlgorithmAES256GCM" "loadKeyRecord (v_record v) s = Some r" "kr_key r = v_key v"
      "(case unwrap c (ProjectID sc) r of None \<Rightarrow> Inl ErrDecryptionFailed
        | Some dataKey \<Rightarrow> (case Open (vc_crypto c) dataKey sc (v_nonce v) (v_ct v) of None \<Rightarrow> Inl ErrDecryptionFailed | Some p \<Rightarrow> Inr p)) = Inr p"
    by (auto simp: decryptVersion_def split: if_splits option.splits)
  then obtain r' where "loadKeyRecord (v_record v) s' = Some r'" "same_key r r'" using assms(1) by (auto simp: keys_kept_def)
  then show ?thesis using r by (simp add: decryptVersion_def same_key_def unwrap_def)
qed

lemma plain_kept:
  assumes "keys_kept s s'" "\<And>v. version_of (sr_id r) n s = Some v \<Longrightarrow> version_of (sr_id r) n s' = Some v" "plain c s r n = Some p"
  shows "plain c s' r n = Some p"
  using assms decryptVersion_kept [OF assms(1)] by (auto simp: plain_def split: option.splits sum.splits)

lemma values_of_eq: "(\<And>n. 1 \<le> n \<Longrightarrow> n \<le> sr_cur r \<Longrightarrow> plain c s' r n = plain c s r n) \<Longrightarrow> values_of c s' r = values_of c s r"
  unfolding values_of_def by (rule map_cong) auto

text \<open>Changes that leave the secrets and versions alone change nothing that can be read.\<close>

lemma keys_change:
  assumes "vault_ok c s" "keys_kept s s'" "secrets s' = secrets s" "versions s' = versions s" "records_ok c s'"
  shows "vault_ok c s' \<and> hist c s' = hist c s"
proof -
  have p: "plain c s' r n = plain c s r n" if "r \<in> set (secrets s)" "1 \<le> n" "n \<le> sr_cur r" for r n
  proof -
    from that assms(1) obtain q where "plain c s r n = Some q" by (auto simp: vault_ok_def readable_def)
    then show ?thesis using plain_kept [OF assms(2)] assms(4) by (simp add: version_of_def)
  qed
  have "values_of c s' r = values_of c s r" if "r \<in> set (secrets s)" for r
    using p that by (intro values_of_eq) simp
  then have "hist c s' = hist c s" using assms(3)
    by (auto simp: hist_def secret_at_def fun_eq_iff dest: find_SomeD intro!: option.map_cong)
  moreover have "vault_ok c s'" using assms p by (simp add: vault_ok_def secrets_ok_def versions_ok_def readable_def)
  ultimately show ?thesis by simp
qed

lemma find_append_Some: "find P xs = Some x \<Longrightarrow> find P (xs @ ys) = Some x"
  by (induction xs) auto

lemma find_append_None: "find P xs = None \<Longrightarrow> find P (xs @ ys) = find P ys"
  by (induction xs) (auto split: if_splits)

lemma find_map_keeps: "(\<And>x. P (g x) = P x) \<Longrightarrow> find P (map g xs) = map_option g (find P xs)"
  by (induction xs) auto

lemma find_filter_keeps: "(\<And>x. P x \<Longrightarrow> Q x) \<Longrightarrow> find P (filter Q xs) = find P xs"
  by (induction xs) auto

lemma insert_key_record_ok:
  assumes "records_ok c s" "unwrap c (kr_project r) r \<noteq> None" "kr_state r \<noteq> KeyStateRetired"
  shows "records_ok c (insert_key_record r s) \<and> keys_kept s (insert_key_record r s)
    \<and> secrets (insert_key_record r s) = secrets s \<and> versions (insert_key_record r s) = versions s"
proof (cases "insert_key_record r s = s")
  case False
  then have i: "insert_key_record r s = s\<lparr> key_records := key_records s @ [r] \<rparr>" "kr_id r \<notin> set (map kr_id (key_records s))"
      "\<forall>x \<in> set (key_records s). kr_project r = kr_project x \<longrightarrow> kr_state r \<noteq> kr_state x"
    using assms(3) by (auto simp: insert_key_record_def split: if_splits)
  have "keys_kept s (insert_key_record r s)"
    unfolding i(1) by (auto simp: keys_kept_def loadKeyRecord_def find_append_Some same_key_def)
  moreover have "records_ok c (insert_key_record r s)"
    using assms i(2,3) unfolding i(1) records_ok_def by (simp add: ball_Un) fastforce
  ultimately show ?thesis by (simp add: i(1))
qed (use assms in \<open>simp add: keys_kept_same\<close>)

lemma new_key_record_ok:
  assumes "cfg_ok c" "in_ok i" "new_key_record c i ph pid = Some r"
  shows "kr_project r = pid \<and> kr_state r = ph \<and> unwrap c pid r \<noteq> None"
proof -
  from assms(3) obtain keyID alg wrapped rid where g: "GenerateProjectDataKey (vc_crypto c) (vc_root c) (in_dk i) (in_kid i) (in_nonce i 8) pid = Some (keyID, alg, wrapped)"
      "r = \<lparr> kr_id = rid, kr_project = pid, kr_key = keyID, kr_alg = alg, kr_enc = wrapped, kr_state = ph \<rparr>"
    by (auto simp: new_key_record_def split: option.splits)
  have "UnwrapProjectDataKey (vc_crypto c) (vc_root c) pid alg wrapped = in_dk i \<and> in_dk i \<noteq> None \<and> in_kid i = Some keyID"
    using assms(1,2) by (intro Unwrap_Generate [OF _ _ _ _ g(1)]) (auto simp: cfg_ok_def in_ok_def)
  then show ?thesis by (simp add: g(2) unwrap_def)
qed

lemma loadActiveKeyQuery_mem: "loadActiveKeyQuery bad pid s = Inr r \<Longrightarrow> r \<in> set (key_records s) \<and> kr_project r = pid \<and> kr_state r = KeyStateActive"
  by (auto simp: loadActiveKeyQuery_def dest!: find_SomeD split: if_splits option.splits)

lemma loadRotatingKey_mem: "loadRotatingKey bad pid s = Inr r \<Longrightarrow> r \<in> set (key_records s) \<and> kr_project r = pid \<and> kr_state r = KeyStateRotating"
  by (auto simp: loadRotatingKey_def dest!: find_SomeD split: if_splits option.splits)

lemma insert_key_record_change:
  assumes "cfg_ok c" "in_ok i" "vault_ok c s" "new_key_record c i ph pid = Some r" "ph \<noteq> KeyStateRetired"
  shows "vault_ok c (insert_key_record r s) \<and> hist c (insert_key_record r s) = hist c s"
proof -
  note r = new_key_record_ok [OF assms(1,2,4)]
  have "records_ok c s" using assms(3) by (simp add: vault_ok_def)
  with insert_key_record_ok [of c s r] r assms(5) show ?thesis by (intro keys_change [OF assms(3)]) auto
qed

lemma ensureActiveKey_ok:
  assumes "cfg_ok c" "in_ok i" "vault_ok c s" "ensureActiveKey c i pid s = (res, s')"
  shows "vault_ok c s' \<and> hist c s' = hist c s \<and> (\<forall>r. res = Inr r \<longrightarrow> r \<in> set (key_records s') \<and> kr_project r = pid)"
  using assms insert_key_record_change [OF assms(1-3)]
  by (auto simp: ensureActiveKey_def Let_def dest: loadActiveKeyQuery_mem split: sum.splits option.splits if_splits)

section \<open>New versions\<close>

lemma loadKeyRecord_mem: "records_ok c s \<Longrightarrow> r \<in> set (key_records s) \<Longrightarrow> loadKeyRecord (kr_id r) s = Some r"
  unfolding loadKeyRecord_def records_ok_def by (rule find_by_key) auto

lemma unwrap_length: "unwrap c pid r = Some k \<Longrightarrow> length k = rootKeyLen \<and> kr_alg r = AlgorithmAES256GCM"
  by (auto simp: unwrap_def UnwrapProjectDataKey_def split: if_splits option.splits)

text \<open>A version sealed under a stored key opens to its value.\<close>

lemma seal_version_opens:
  assumes "cfg_ok c" "in_ok i" "records_ok c s" "r \<in> set (key_records s)" "seal_version c i r sec n value = Inr v"
  shows "v_secret v = sr_id sec \<and> v_no v = n \<and> decryptVersion c False (secret_scope sec n) v s = Inr value"
proof -
  from assms(5) obtain dk nonce ct vid where v: "unwrap c (sr_project sec) r = Some dk" "Seal (vc_crypto c) (in_nonce i 0) dk (secret_scope sec n) value = Some (nonce, ct)"
      "v = \<lparr> v_id = vid, v_secret = sr_id sec, v_no = n, v_record = kr_id r, v_key = kr_key r, v_alg = kr_alg r, v_nonce = nonce, v_ct = ct \<rparr>"
    by (auto simp: seal_version_def split: option.splits)
  have "Open (vc_crypto c) dk (secret_scope sec n) nonce ct = Some value"
    using assms(1,2) unwrap_length [OF v(1)] by (intro Open_Seal [OF _ _ _ v(2)]) (auto simp: cfg_ok_def in_ok_def)
  then show ?thesis using v unwrap_length [OF v(1)] loadKeyRecord_mem [OF assms(3,4)]
    by (simp add: decryptVersion_def secret_scope_def)
qed

lemma version_of_unique:
  assumes "versions_ok s" "v \<in> set (versions s)"
  shows "version_of (v_secret v) (v_no v) s = Some v"
  using find_by_key [of "\<lambda>v. (v_secret v, v_no v)" "versions s" v] assms by (simp add: version_of_def versions_ok_def)

lemma plain_append:
  assumes "plain c s r n = Some p"
  shows "plain c (s\<lparr> secrets := xs, versions := versions s @ ys \<rparr>) r n = Some p"
  by (rule plain_kept [OF _ _ assms]) (auto intro!: keys_kept_same simp: version_of_def find_append_Some)

lemma hist_upd:
  assumes "\<And>f k. (f, k) \<noteq> (folder, key) \<Longrightarrow> map_option (values_of c s') (secret_at f k s') = map_option (values_of c s) (secret_at f k s)"
    and "map_option (values_of c s') (secret_at folder key s') = h"
  shows "hist c s' = (hist c s)((folder, key) := h)"
  using assms by (auto simp: hist_def fun_eq_iff)

lemma create_change:
  assumes ok: "vault_ok c s"
    and sec: "sr_id sec \<notin> set (map sr_id (secrets s))" "(sr_folder sec, sr_key sec) \<notin> set (map (\<lambda>r. (sr_folder r, sr_key r)) (secrets s))" "sr_cur sec = 1"
    and v: "v_id v \<notin> set (map v_id (versions s))" "(v_secret v, v_no v) \<notin> set (map (\<lambda>v. (v_secret v, v_no v)) (versions s))"
      "v_secret v = sr_id sec" "v_no v = 1" "decryptVersion c False (secret_scope sec 1) v s = Inr value"
    and s': "s' = s\<lparr> secrets := secrets s @ [sec], versions := versions s @ [v] \<rparr>"
  shows "vault_ok c s' \<and> hist c s' = (hist c s)((sr_folder sec, sr_key sec) \<mapsto> [value])"
proof -
  have fresh: "v_secret w \<noteq> sr_id sec" if "w \<in> set (versions s)" for w
  proof
    assume "v_secret w = sr_id sec"
    with ok that have "(sr_id sec, 1) \<in> set (map (\<lambda>v. (v_secret v, v_no v)) (versions s))" unfolding vault_ok_def versions_ok_def by metis
    with v(2-4) show False by simp
  qed
  have p_old: "plain c s' r n = plain c s r n" if "r \<in> set (secrets s)" "1 \<le> n" "n \<le> sr_cur r" for r n
  proof -
    from that ok obtain q where "plain c s r n = Some q" by (auto simp: vault_ok_def readable_def)
    then show ?thesis using plain_append s' by simp
  qed
  have "version_of (sr_id sec) 1 s = None" using fresh by (auto simp: version_of_def find_None_iff)
  then have "version_of (sr_id sec) 1 s' = Some v" using v by (simp add: version_of_def s' find_append_None)
  moreover have "decryptVersion c False (secret_scope sec 1) v s' = Inr value"
    by (rule decryptVersion_kept [OF _ v(5)]) (simp add: s' keys_kept_same)
  ultimately have p_new: "plain c s' sec 1 = Some value" by (simp add: plain_def)
  have "records_ok c s'" using ok unfolding vault_ok_def records_ok_def s' by auto
  moreover have "secrets_ok s'" using ok sec by (auto simp: vault_ok_def secrets_ok_def s')
  moreover have "versions_ok s'" using ok sec v fresh by (auto simp: vault_ok_def versions_ok_def s')
  moreover have "readable c s'" using ok p_old p_new sec(3) by (auto simp: vault_ok_def readable_def s' le_Suc_eq)
  moreover have "hist c s' = (hist c s)((sr_folder sec, sr_key sec) \<mapsto> [value])"
  proof (rule hist_upd)
    fix f k assume ne: "(f, k) \<noteq> (sr_folder sec, sr_key sec)"
    then have "secret_at f k s' = secret_at f k s"
      by (cases "secret_at f k s") (auto simp: secret_at_def s' find_append_None find_append_Some)
    then show "map_option (values_of c s') (secret_at f k s') = map_option (values_of c s) (secret_at f k s)"
      using p_old by (auto simp: secret_at_def dest!: find_SomeD intro!: option.map_cong values_of_eq)
  next
    have "secret_at (sr_folder sec) (sr_key sec) s = None" using sec(2) by (auto simp: secret_at_def find_None_iff image_iff)
    then show "map_option (values_of c s') (secret_at (sr_folder sec) (sr_key sec) s') = Some [value]"
      using p_new sec(3) by (simp add: secret_at_def s' find_append_None values_of_def)
  qed
  ultimately show ?thesis by (simp add: vault_ok_def)
qed

lemma create_tx_ok:
  assumes "cfg_ok c" "in_ok i" "vault_ok c s" "create_tx c i pid env folder key value s = (res, s')"
  shows "vault_ok c s' \<and> hist c s' = (if res = Inr () then (hist c s)((folder, key) \<mapsto> [value]) else hist c s)
    \<and> (res = Inr () \<longrightarrow> hist c s (folder, key) = None)"
proof -
  consider (early) "(\<exists>er. res = Inl er) \<and> (s' = s \<or> (\<exists>r. ensureActiveKey c i pid s = (r, s')))"
    | (committed) rec s1 sid v where "ensureActiveKey c i pid s = (Inr rec, s1)" "res = Inr ()"
        "seal_version c i rec \<lparr> sr_id = sid, sr_project = pid, sr_env = env, sr_folder = folder, sr_key = key, sr_cur = 1 \<rparr> 1 value = Inr v"
        "insert_secret \<lparr> sr_id = sid, sr_project = pid, sr_env = env, sr_folder = folder, sr_key = key, sr_cur = 1 \<rparr> s1 =
           Some (s1\<lparr> secrets := secrets s1 @ [\<lparr> sr_id = sid, sr_project = pid, sr_env = env, sr_folder = folder, sr_key = key, sr_cur = 1 \<rparr>] \<rparr>)"
        "insert_version v (s1\<lparr> secrets := secrets s1 @ [\<lparr> sr_id = sid, sr_project = pid, sr_env = env, sr_folder = folder, sr_key = key, sr_cur = 1 \<rparr>] \<rparr>) = Some s'"
    using assms(4)
    by (auto simp: create_tx_def Let_def insert_secret_def split: if_splits option.splits prod.splits sum.splits)
  then show ?thesis
  proof cases
    case early
    then show ?thesis using assms(3) ensureActiveKey_ok [OF assms(1-3)] by auto
  next
    case (committed rec s1 sid v)
    let ?sec = "\<lparr> sr_id = sid, sr_project = pid, sr_env = env, sr_folder = folder, sr_key = key, sr_cur = 1 \<rparr>"
    note k = ensureActiveKey_ok [OF assms(1-3) committed(1)]
    have v: "v_secret v = sid \<and> v_no v = 1 \<and> decryptVersion c False (secret_scope ?sec 1) v s1 = Inr value"
      using seal_version_opens [OF assms(1,2) _ _ committed(3), of s1] k by (auto simp: vault_ok_def)
    have f: "sid \<notin> set (map sr_id (secrets s1))" "(folder, key) \<notin> set (map (\<lambda>r. (sr_folder r, sr_key r)) (secrets s1))"
      using committed(4) by (auto simp: insert_secret_def split: if_splits)
    have w: "v_id v \<notin> set (map v_id (versions s1))" "(v_secret v, v_no v) \<notin> set (map (\<lambda>v. (v_secret v, v_no v)) (versions s1))"
        "s' = s1\<lparr> secrets := secrets s1 @ [?sec], versions := versions s1 @ [v] \<rparr>"
      using committed(5) by (auto simp: insert_version_def split: if_splits)
    have "vault_ok c s' \<and> hist c s' = (hist c s1)((folder, key) \<mapsto> [value])"
      using create_change [of c s1 ?sec v "value" s'] k v f w by simp
    moreover have "hist c s1 (folder, key) = None" using f(2) by (auto simp: hist_def secret_at_def find_None_iff image_iff)
    ultimately show ?thesis using k committed(2) by simp
  qed
qed

lemma plain_cur: "plain c s (r\<lparr> sr_cur := n \<rparr>) = plain c s r"
proof
  have "secret_scope (r\<lparr> sr_cur := n \<rparr>) = secret_scope r" by (simp add: secret_scope_def fun_eq_iff)
  then show "plain c s (r\<lparr> sr_cur := n \<rparr>) m = plain c s r m" for m by (simp add: plain_def split: option.split)
qed

lemma values_of_append: "values_of c s (r\<lparr> sr_cur := Suc (sr_cur r) \<rparr>) = values_of c s r @ [the (plain c s r (Suc (sr_cur r)))]"
  by (simp add: values_of_def plain_cur)

lemma update_change:
  assumes ok: "vault_ok c s" and sec: "secret_at folder key s = Some sec"
    and v: "v_id v \<notin> set (map v_id (versions s))" "v_secret v = sr_id sec" "v_no v = Suc (sr_cur sec)"
      "decryptVersion c False (secret_scope sec (Suc (sr_cur sec))) v s = Inr value"
    and s': "s' = (bump (sr_id sec) s)\<lparr> versions := versions s @ [v] \<rparr>"
  shows "vault_ok c s' \<and> hist c s' = (hist c s)((folder, key) \<mapsto> values_of c s sec @ [value])"
proof -
  let ?g = "\<lambda>r. if sr_id r = sr_id sec then r\<lparr> sr_cur := sr_cur r + 1 \<rparr> else r"
  have mem: "sec \<in> set (secrets s)" "sr_folder sec = folder" "sr_key sec = key" using sec by (auto simp: secret_at_def dest!: find_SomeD)
  have uniq: "r = sec" if "r \<in> set (secrets s)" "sr_id r = sr_id sec" for r
    using ok mem(1) that by (auto simp: vault_ok_def secrets_ok_def distinct_map inj_on_def)
  have secs: "secrets s' = map ?g (secrets s)" "key_records s' = key_records s" "versions s' = versions s @ [v]" by (simp_all add: s' bump_def)
  have kept: "keys_kept s s'" by (simp add: keys_kept_same secs)
  have none: "version_of (sr_id sec) (Suc (sr_cur sec)) s = None"
    using ok mem(1) by (auto simp: version_of_def find_None_iff vault_ok_def versions_ok_def) (metis Suc_n_not_le_n)
  have p_old: "plain c s' r n = plain c s r n" if "r \<in> set (secrets s)" "1 \<le> n" "n \<le> sr_cur r" for r n
  proof -
    from that ok obtain q where "plain c s r n = Some q" by (auto simp: vault_ok_def readable_def)
    then show ?thesis using plain_kept [OF kept, of r n c q] by (simp add: version_of_def secs find_append_Some)
  qed
  have "version_of (sr_id sec) (Suc (sr_cur sec)) s' = Some v" using none v by (simp add: version_of_def secs find_append_None)
  then have p_new: "plain c s' sec (Suc (sr_cur sec)) = Some value" using decryptVersion_kept [OF kept v(4)] by (simp add: plain_def)
  have at: "secret_at f k s' = map_option ?g (secret_at f k s)" for f k
    unfolding secret_at_def secs by (rule find_map_keeps) simp
  have "records_ok c s'" using ok unfolding vault_ok_def records_ok_def secs by auto
  moreover have "secrets_ok s'"
  proof -
    have "map sr_id (map ?g (secrets s)) = map sr_id (secrets s)" "map (\<lambda>r. (sr_folder r, sr_key r)) (map ?g (secrets s)) = map (\<lambda>r. (sr_folder r, sr_key r)) (secrets s)"
      by simp_all
    moreover have "\<forall>r \<in> set (map ?g (secrets s)). 1 \<le> sr_cur r" using ok by (auto simp: vault_ok_def secrets_ok_def)
    ultimately show ?thesis using ok unfolding vault_ok_def secrets_ok_def secs by (simp only: simp_thms)
  qed
  moreover have "versions_ok s'"
  proof -
    have fr: "(v_secret v, v_no v) \<notin> set (map (\<lambda>v. (v_secret v, v_no v)) (versions s))" using none v by (auto simp: version_of_def find_None_iff)
    have one: "(sr_id sec, 1) \<in> set (map (\<lambda>v. (v_secret v, v_no v)) (versions s))"
    proof -
      have "1 \<le> sr_cur sec" using ok mem(1) by (simp add: vault_ok_def secrets_ok_def)
      then have "plain c s sec 1 \<noteq> None" using ok mem(1) by (simp add: vault_ok_def readable_def)
      then obtain w where "version_of (sr_id sec) 1 s = Some w" by (auto simp: plain_def split: option.splits)
      then have "w \<in> set (versions s)" "(v_secret w, v_no w) = (sr_id sec, 1)" by (auto simp: version_of_def dest!: find_SomeD)
      then show ?thesis by (metis (mono_tags, lifting) image_eqI set_map)
    qed
    have le_old: "v_no w \<le> sr_cur (?g r)" if "w \<in> set (versions s)" "r \<in> set (secrets s)" "v_secret w = sr_id r" for w r
      using ok that by (auto simp: vault_ok_def versions_ok_def intro: le_SucI)
    have le_new: "v_no v \<le> sr_cur (?g r)" if "r \<in> set (secrets s)" "v_secret v = sr_id r" for r
      using that v uniq [of r] by simp
    have old: "versions_ok s" using ok by (simp add: vault_ok_def)
    have "v_no w \<le> sr_cur r'" if "w \<in> set (versions s @ [v])" "r' \<in> set (map ?g (secrets s))" "v_secret w = sr_id r'" for w r'
    proof -
      from that(2) obtain r where r: "r \<in> set (secrets s)" "r' = ?g r" by auto
      moreover have "v_secret w = sr_id r" using that(3) r(2) by (simp split: if_splits)
      ultimately show ?thesis using that(1) le_old [of w r] le_new [of r] by auto
    qed
    moreover have "distinct (map v_id (versions s @ [v]))" "distinct (map (\<lambda>v. (v_secret v, v_no v)) (versions s @ [v]))"
      using old v(1) fr by (simp_all add: versions_ok_def)
    moreover have "\<forall>w \<in> set (versions s @ [v]). 1 \<le> v_no w \<and> (v_secret w, 1) \<in> set (map (\<lambda>v. (v_secret v, v_no v)) (versions s @ [v]))"
      using old one v(2,3) by (simp add: versions_ok_def ball_Un)
    ultimately show ?thesis unfolding versions_ok_def secs by blast
  qed
  moreover have "readable c s'"
  proof -
    have "plain c s' (?g r) n \<noteq> None" if r: "r \<in> set (secrets s)" "1 \<le> n" "n \<le> sr_cur (?g r)" for r n
    proof (cases "n \<le> sr_cur r")
      case True
      with r ok have "plain c s' r n \<noteq> None" using p_old [of r n] by (simp add: vault_ok_def readable_def)
      then show ?thesis by (simp add: plain_cur)
    next
      case False
      with r have "sr_id r = sr_id sec" "n = Suc (sr_cur r)" by (auto split: if_splits)
      with uniq [OF r(1)] p_new show ?thesis by (simp add: plain_cur)
    qed
    then show ?thesis unfolding readable_def secs set_map by blast
  qed
  moreover have "hist c s' = (hist c s)((folder, key) \<mapsto> values_of c s sec @ [value])"
  proof (rule hist_upd)
    fix f k assume ne: "(f, k) \<noteq> (folder, key)"
    show "map_option (values_of c s') (secret_at f k s') = map_option (values_of c s) (secret_at f k s)"
    proof (cases "secret_at f k s")
      case (Some r)
      then have r: "r \<in> set (secrets s)" "sr_folder r = f" "sr_key r = k" by (auto simp: secret_at_def dest!: find_SomeD)
      then have "sr_id r \<noteq> sr_id sec" using uniq mem(2,3) ne by blast
      then show ?thesis using Some at values_of_eq [of r c s' s] p_old [OF r(1)] by simp
    qed (simp add: at)
  next
    have "values_of c s' (sec\<lparr> sr_cur := Suc (sr_cur sec) \<rparr>) = values_of c s sec @ [value]"
      using p_new values_of_eq [of sec c s' s] p_old [OF mem(1)] by (simp add: values_of_append)
    then show "map_option (values_of c s') (secret_at folder key s') = Some (values_of c s sec @ [value])" using sec at by simp
  qed
  ultimately show ?thesis by (simp add: vault_ok_def)
qed

lemma secret_at_load: "loadSecret bad pid env folder key s = Inr r \<Longrightarrow> secret_at folder key s = Some r \<and> sr_project r = pid \<and> sr_env r = env"
  by (auto simp: loadSecret_def secret_at_def split: if_splits option.splits)

lemma find_bump:
  assumes "secrets_ok s" "r \<in> set (secrets s)"
  shows "find (\<lambda>x. sr_id x = sr_id r) (secrets (bump (sr_id r) s)) = Some (r\<lparr> sr_cur := Suc (sr_cur r) \<rparr>)"
proof -
  have "find (\<lambda>x. sr_id x = sr_id r) (secrets s) = Some r" using assms by (intro find_by_key) (simp_all add: secrets_ok_def)
  then show ?thesis by (simp add: bump_def find_map_keeps)
qed

lemma update_tx_ok:
  assumes "cfg_ok c" "in_ok i" "vault_ok c s" "update_tx c i pid env folder key value s = (res, s')"
  shows "vault_ok c s' \<and> hist c s' = (if res = Inr () then (hist c s)((folder, key) \<mapsto> the (hist c s (folder, key)) @ [value]) else hist c s)
    \<and> (res = Inr () \<longrightarrow> hist c s (folder, key) \<noteq> None)"
proof (cases "res = Inr ()")
  case False
  with assms(4) have "s' = s" by (auto simp: update_tx_def Let_def split: if_splits option.splits sum.splits)
  with False assms(3) show ?thesis by simp
next
  case True
  with assms(4) obtain sec sec' rec v where u: "loadSecret (in_bad i 3) pid env folder key s = Inr sec"
      "find (\<lambda>r. sr_id r = sr_id sec) (secrets (bump (sr_id sec) s)) = Some sec'" "loadActiveKeyQuery (in_bad i 6) pid (bump (sr_id sec) s) = Inr rec"
      "seal_version c i rec sec (sr_cur sec') value = Inr v" "insert_version v (bump (sr_id sec) s) = Some s'"
    by (auto simp: update_tx_def Let_def split: if_splits option.splits sum.splits)
  note at = secret_at_load [OF u(1)]
  have mem: "sec \<in> set (secrets s)" using at by (auto simp: secret_at_def dest!: find_SomeD)
  have cur: "sr_cur sec' = Suc (sr_cur sec)" using find_bump [OF _ mem] assms(3) u(2) by (auto simp: vault_ok_def)
  have b: "key_records (bump (sr_id sec) s) = key_records s" "versions (bump (sr_id sec) s) = versions s" by (simp_all add: bump_def)
  have "rec \<in> set (key_records s)" using loadActiveKeyQuery_mem [OF u(3)] b by simp
  then have v: "v_secret v = sr_id sec" "v_no v = Suc (sr_cur sec)" "decryptVersion c False (secret_scope sec (Suc (sr_cur sec))) v s = Inr value"
    using seal_version_opens [OF assms(1,2) _ _ u(4), of s] assms(3) cur by (auto simp: vault_ok_def)
  have "v_id v \<notin> set (map v_id (versions s))" "s' = (bump (sr_id sec) s)\<lparr> versions := versions s @ [v] \<rparr>"
    using u(5) b by (auto simp: insert_version_def split: if_splits)
  with update_change [OF assms(3) conjunct1 [OF at] _ v] have "vault_ok c s' \<and> hist c s' = (hist c s)((folder, key) \<mapsto> values_of c s sec @ [value])" by blast
  then show ?thesis using True at by (simp add: hist_def)
qed

lemma first_version:
  assumes "versions_ok s" "v \<in> set (versions s)"
  obtains w where "w \<in> set (versions s)" "v_secret w = v_secret v" "v_no w = 1"
proof -
  have "(v_secret v, 1) \<in> (\<lambda>v. (v_secret v, v_no v)) ` set (versions s)" using assms by (simp add: versions_ok_def)
  then show thesis by (rule imageE) (use that in simp)
qed

section \<open>Deletion\<close>

lemma delete_change:
  assumes ok: "vault_ok c s" and sec: "secret_at folder key s = Some sec"
    and s': "s' = s\<lparr> secrets := filter (\<lambda>r. sr_id r \<noteq> sr_id sec) (secrets s),
                    versions := (if fk then filter (\<lambda>v. v_secret v \<noteq> sr_id sec) (versions s) else versions s) \<rparr>"
  shows "vault_ok c s' \<and> hist c s' = (hist c s)((folder, key) := None)"
proof -
  have mem: "sec \<in> set (secrets s)" "sr_folder sec = folder" "sr_key sec = key" using sec by (auto simp: secret_at_def dest!: find_SomeD)
  have uniq: "sr_id r = sr_id sec \<longleftrightarrow> (sr_folder r, sr_key r) = (folder, key)" if "r \<in> set (secrets s)" for r
    using ok mem that by (auto simp: vault_ok_def secrets_ok_def distinct_map inj_on_def)
  have secs: "set (secrets s') \<subseteq> set (secrets s)" "\<And>r. r \<in> set (secrets s') \<Longrightarrow> sr_id r \<noteq> sr_id sec" "key_records s' = key_records s"
    by (auto simp: s')
  have vers: "set (versions s') \<subseteq> set (versions s)" by (auto simp: s')
  have ver: "version_of sid n s' = version_of sid n s" if "sid \<noteq> sr_id sec" for sid n
    using that by (auto simp: version_of_def s' intro!: find_filter_keeps)
  have "plain c s' r n = plain c s r n" if "r \<in> set (secrets s')" for r n
  proof -
    have "decryptVersion c False sc v s' = decryptVersion c False sc v s" for sc v by (simp add: decryptVersion_def loadKeyRecord_def secs(3))
    then show ?thesis using ver [of "sr_id r"] secs(2) [OF that] by (simp add: plain_def split: option.split)
  qed
  note p = this
  have "records_ok c s'" using ok unfolding vault_ok_def records_ok_def secs(3) by blast
  moreover have "secrets_ok s'" using ok secs(1) by (auto simp: vault_ok_def secrets_ok_def s' distinct_map_filter)
  moreover have "versions_ok s'"
  proof -
    have "(v_secret v, 1) \<in> set (map (\<lambda>v. (v_secret v, v_no v)) (versions s'))" if "v \<in> set (versions s')" for v
    proof -
      from that vers ok obtain w where "w \<in> set (versions s)" "v_secret w = v_secret v" "v_no w = 1" by (auto simp: vault_ok_def elim!: first_version)
      moreover from this(1,2) that have "w \<in> set (versions s')" by (auto simp: s' split: if_splits)
      ultimately show ?thesis by (metis (mono_tags, lifting) image_eqI set_map)
    qed
    moreover have "distinct (map v_id (versions s'))" "distinct (map (\<lambda>v. (v_secret v, v_no v)) (versions s'))"
      using ok by (auto simp: vault_ok_def versions_ok_def s' distinct_map_filter)
    ultimately show ?thesis using ok vers secs(1) unfolding vault_ok_def versions_ok_def by blast
  qed
  moreover have "readable c s'" using ok p secs(1) unfolding vault_ok_def readable_def by (metis subsetD)
  moreover have "hist c s' = (hist c s)((folder, key) := None)"
  proof (rule hist_upd)
    fix f k assume ne: "(f, k) \<noteq> (folder, key)"
    have "find (\<lambda>r. sr_folder r = f \<and> sr_key r = k) (secrets s') = find (\<lambda>r. sr_folder r = f \<and> sr_key r = k) (secrets s)"
    proof -
      have "filter (\<lambda>r. sr_id r \<noteq> sr_id sec) (secrets s) = filter (\<lambda>r. (sr_folder r, sr_key r) \<noteq> (folder, key)) (secrets s)"
        using uniq by (intro filter_cong) auto
      then show ?thesis using ne by (simp add: s') (rule find_filter_keeps, auto)
    qed
    then have same: "secret_at f k s' = secret_at f k s" by (simp add: secret_at_def)
    show "map_option (values_of c s') (secret_at f k s') = map_option (values_of c s) (secret_at f k s)"
    proof (cases "secret_at f k s'")
      case (Some r)
      then have "r \<in> set (secrets s')" by (auto simp: secret_at_def dest!: find_SomeD)
      then show ?thesis using Some same p by (simp add: values_of_def)
    qed (simp add: same [symmetric])
  next
    have "secret_at folder key s' = None" using uniq by (auto simp: secret_at_def s' find_None_iff)
    then show "map_option (values_of c s') (secret_at folder key s') = None" by simp
  qed
  ultimately show ?thesis by (simp add: vault_ok_def)
qed

lemma DeleteSecret_ok:
  assumes "vault_ok c s" "DeleteSecret i pid env folder key s = (res, s')"
  shows "vault_ok c s' \<and> hist c s' = (if res = Inr () then (hist c s)((folder, key) := None) else hist c s)
    \<and> (res = Inr () \<longrightarrow> hist c s (folder, key) \<noteq> None)"
proof (cases "res = Inr ()")
  case True
  with assms(2) obtain sec where d: "loadSecret (in_bad i 3) pid env folder key s = Inr sec"
      "s' = s\<lparr> secrets := filter (\<lambda>r. sr_id r \<noteq> sr_id sec) (secrets s), versions := (if in_fk i then filter (\<lambda>v. v_secret v \<noteq> sr_id sec) (versions s) else versions s) \<rparr>"
    by (auto simp: DeleteSecret_def split: option.splits sum.splits if_splits)
  note at = conjunct1 [OF secret_at_load [OF d(1)]]
  show ?thesis using delete_change [OF assms(1) at d(2)] True at by (simp add: hist_def)
qed (use assms in \<open>auto simp: DeleteSecret_def split: option.splits sum.splits if_splits\<close>)

section \<open>Rotation\<close>

lemma decryptVersion_fault: "decryptVersion c bad sc v s = Inr p \<Longrightarrow> decryptVersion c False sc v s = Inr p"
  by (cases bad) (simp_all add: decryptVersion_def split: if_splits)

lemma set_envelope_ok:
  assumes cfg: "cfg_ok c" and ok: "vault_ok c s" and v: "v \<in> set (versions s)" "r \<in> set (secrets s)" "v_secret v = sr_id r"
    and rot: "rot \<in> set (key_records s)" "unwrap c (sr_project r) rot = Some rk"
    and d: "decryptVersion c bad (secret_scope r (v_no v)) v s = Inr p"
    and seal: "Seal (vc_crypto c) n rk (secret_scope r (v_no v)) p = Some env" "\<And>x. n = Some x \<Longrightarrow> length x = NonceSize"
    and s': "s' = set_envelope (v_id v) rot env s"
  shows "vault_ok c s' \<and> hist c s' = hist c s"
proof -
  let ?g = "\<lambda>x. if v_id x = v_id v then x\<lparr> v_record := kr_id rot, v_key := kr_key rot, v_nonce := fst env, v_ct := snd env \<rparr> else x"
  have tabs: "versions s' = map ?g (versions s)" "secrets s' = secrets s" "key_records s' = key_records s" by (simp_all add: s' set_envelope_def)
  have rec: "records_ok c s" "secrets_ok s" "versions_ok s" using ok by (simp_all add: vault_ok_def)
  have ver: "version_of sid m s' = map_option ?g (version_of sid m s)" for sid m
    unfolding version_of_def tabs by (rule find_map_keeps) simp
  have open_new: "decryptVersion c False (secret_scope r (v_no v)) (?g v) s' = Inr p"
  proof -
    have "Open (vc_crypto c) rk (secret_scope r (v_no v)) (fst env) (snd env) = Some p"
      using cfg unwrap_length [OF rot(2)] seal by (intro Open_Seal [of _ _ n]) (auto simp: cfg_ok_def)
    moreover have "v_alg v = AlgorithmAES256GCM" using d by (simp add: decryptVersion_def split: if_splits)
    moreover have "loadKeyRecord (kr_id rot) s' = Some rot" using loadKeyRecord_mem [OF rec(1) rot(1)] by (simp add: loadKeyRecord_def tabs)
    ultimately show ?thesis using rot(2) by (simp add: decryptVersion_def secret_scope_def)
  qed
  have same: "plain c s' q m = plain c s q m" if q: "q \<in> set (secrets s)" "1 \<le> m" "m \<le> sr_cur q" for q m
  proof -
    from q ok obtain old where old: "plain c s q m = Some old" by (auto simp: vault_ok_def readable_def)
    then obtain w where w: "version_of (sr_id q) m s = Some w" "decryptVersion c False (secret_scope q m) w s = Inr old"
      by (auto simp: plain_def split: option.splits sum.splits)
    then have wm: "w \<in> set (versions s)" "v_secret w = sr_id q" "v_no w = m" by (auto simp: version_of_def dest!: find_SomeD)
    show ?thesis
    proof (cases "v_id w = v_id v")
      case True
      then have "w = v" using rec(3) wm(1) v(1) by (auto simp: versions_ok_def distinct_map inj_on_def)
      then have "q = r" "m = v_no v" using wm v(2,3) q(1) rec(2) by (auto simp: secrets_ok_def distinct_map inj_on_def)
      then have "old = p" using w(2) decryptVersion_fault [OF d] \<open>w = v\<close> by simp
      then show ?thesis using old open_new w(1) ver \<open>w = v\<close> \<open>q = r\<close> \<open>m = v_no v\<close> by (simp add: plain_def)
    next
      case False
      have "decryptVersion c False (secret_scope q m) w s' = Inr old" by (rule decryptVersion_kept [OF _ w(2)]) (simp add: keys_kept_same tabs)
      then show ?thesis using old w(1) ver False by (simp add: plain_def)
    qed
  qed
  have "records_ok c s'" using rec(1) unfolding records_ok_def tabs(3) by blast
  moreover have "secrets_ok s'" using rec(2) by (simp add: secrets_ok_def tabs)
  moreover have "versions_ok s'"
  proof -
    have m: "map v_id (map ?g (versions s)) = map v_id (versions s)" "map (\<lambda>v. (v_secret v, v_no v)) (map ?g (versions s)) = map (\<lambda>v. (v_secret v, v_no v)) (versions s)"
      by simp_all
    have e: "v_secret (?g x) = v_secret x" "v_no (?g x) = v_no x" for x by simp_all
    have "(\<forall>x \<in> set (map ?g (versions s)). Q (v_secret x) (v_no x)) = (\<forall>x \<in> set (versions s). Q (v_secret x) (v_no x))" for Q
      unfolding set_map ball_simps(9) e ..
    note b = this
    show ?thesis using rec(3) unfolding versions_ok_def tabs(1,2) m
      using b [of "\<lambda>a n. 1 \<le> n \<and> (a, 1) \<in> set (map (\<lambda>v. (v_secret v, v_no v)) (versions s))"] b [of "\<lambda>a n. \<forall>r \<in> set (secrets s). a = sr_id r \<longrightarrow> n \<le> sr_cur r"]
      by blast
  qed
  moreover have "readable c s'" using ok same unfolding vault_ok_def readable_def tabs(2) by simp
  moreover have "hist c s' = hist c s"
    using values_of_eq [of _ c s' s] same by (auto simp: hist_def secret_at_def fun_eq_iff tabs dest: find_SomeD intro!: option.map_cong)
  ultimately show ?thesis by (simp add: vault_ok_def)
qed

lemma rotate_loop_ok:
  assumes "cfg_ok c" "in_ok i" "vault_ok c s" "rot \<in> set (key_records s)" "unwrap c pid rot = Some rk"
    and "\<forall>(v, r) \<in> set ts. v \<in> set (versions s) \<and> r \<in> set (secrets s) \<and> v_secret v = sr_id r \<and> sr_project r = pid" "distinct (map (v_id \<circ> fst) ts)"
    and "rotate_loop c i rot rk k ts s = Inr s'"
  shows "vault_ok c s' \<and> hist c s' = hist c s"
  using assms(3-8)
proof (induction ts arbitrary: k s)
  case (Cons t ts)
  obtain v r where t: "t = (v, r)" by force
  from Cons.prems(6) t obtain p env where step: "decryptVersion c (in_bad i (20 + 2 * k)) (secret_scope r (v_no v)) v s = Inr p"
      "Seal (vc_crypto c) (in_nonce i (20 + k)) rk (secret_scope r (v_no v)) p = Some env"
      "rotate_loop c i rot rk (Suc k) ts (set_envelope (v_id v) rot env s) = Inr s'"
    by (auto split: sum.splits option.splits if_splits)
  let ?s = "set_envelope (v_id v) rot env s"
  have one: "vault_ok c ?s \<and> hist c ?s = hist c s"
    by (rule set_envelope_ok [OF assms(1) Cons.prems(1) _ _ _ Cons.prems(2) _ step(1,2) _ refl])
      (use Cons.prems(3,4) t assms(2) in \<open>auto simp: in_ok_def\<close>)
  have "\<forall>(v', r') \<in> set ts. v' \<in> set (versions ?s) \<and> r' \<in> set (secrets ?s) \<and> v_secret v' = sr_id r' \<and> sr_project r' = pid"
  proof clarify
    fix v' r' assume m: "(v', r') \<in> set ts"
    then have "v_id v' \<noteq> v_id v" using Cons.prems(5) t by (auto simp: image_iff)
    moreover have old: "v' \<in> set (versions s)" "r' \<in> set (secrets s)" "v_secret v' = sr_id r'" "sr_project r' = pid" using Cons.prems(4) m by auto
    ultimately have "v' \<in> set (versions ?s)"
      unfolding set_envelope_def by (auto simp: image_iff intro!: bexI [of _ v'])
    then show "v' \<in> set (versions ?s) \<and> r' \<in> set (secrets ?s) \<and> v_secret v' = sr_id r' \<and> sr_project r' = pid"
      using old by (simp add: set_envelope_def)
  qed
  then have "vault_ok c s' \<and> hist c s' = hist c ?s"
    by (intro Cons.IH [of ?s "Suc k"]) (use one Cons.prems t step in \<open>auto simp: set_envelope_def\<close>)
  with one show ?case by simp
qed simp

lemma filter_one: "distinct (map f xs) \<Longrightarrow> filter (\<lambda>x. f x = a \<and> Q x) xs = [] \<or> (\<exists>x. filter (\<lambda>x. f x = a \<and> Q x) xs = [x])"
  by (induction xs) (auto simp: filter_empty_conv image_iff)

lemma current_versions_mem: "(v, r) \<in> set (current_versions pid s) \<Longrightarrow> v \<in> set (versions s) \<and> r \<in> set (secrets s) \<and> v_secret v = sr_id r \<and> sr_project r = pid \<and> v_no v = sr_cur r"
  by (auto simp: current_versions_def)

lemma current_versions_distinct:
  assumes "secrets_ok s" "versions_ok s"
  shows "distinct (map (v_id \<circ> fst) (current_versions pid s))"
proof -
  let ?b = "\<lambda>v :: versionRow. map (\<lambda>r. (v, r)) (filter (\<lambda>r. sr_id r = v_secret v \<and> sr_project r = pid \<and> v_no v = sr_cur r) (secrets s))"
  have one: "?b v = [] \<or> (\<exists>r. ?b v = [(v, r)])" for v
    using filter_one [of sr_id "secrets s" "v_secret v" "\<lambda>r. sr_project r = pid \<and> v_no v = sr_cur r"] assms(1) by (auto simp: secrets_ok_def)
  have "set (map (v_id \<circ> fst) (concat (map ?b vs))) \<subseteq> v_id ` set vs" for vs by auto
  note sub = this
  have "distinct (map v_id vs) \<Longrightarrow> distinct (map (v_id \<circ> fst) (concat (map ?b vs)))" for vs
  proof (induction vs)
    case (Cons v vs)
    from one [of v] show ?case
    proof
      assume "?b v = []"
      with Cons show ?thesis by simp
    next
      assume "\<exists>r. ?b v = [(v, r)]"
      then obtain r where "?b v = [(v, r)]" by auto
      moreover have "v_id v \<notin> set (map (v_id \<circ> fst) (concat (map ?b vs)))" using Cons.prems sub [of vs] by auto
      ultimately show ?thesis using Cons by simp
    qed
  qed simp
  then show ?thesis using assms(2) by (simp add: current_versions_def versions_ok_def)
qed

lemma RotateCurrentVersions_ok:
  assumes "cfg_ok c" "in_ok i" "vault_ok c s" "RotateCurrentVersions c i pid s = (res, s')"
  shows "vault_ok c s' \<and> hist c s' = hist c s"
proof (cases "s' = s")
  case False
  with assms(4) obtain rot rk where "loadRotatingKey (in_bad i 7) pid s = Inr rot" "unwrap c pid rot = Some rk"
      "rotate_loop c i rot rk 0 (current_versions pid s) s = Inr s'"
    by (auto simp: RotateCurrentVersions_def split: option.splits sum.splits if_splits)
  moreover have "distinct (map (v_id \<circ> fst) (current_versions pid s))" using current_versions_distinct assms(3) by (simp add: vault_ok_def)
  ultimately show ?thesis using loadRotatingKey_mem current_versions_mem
    by (intro rotate_loop_ok [OF assms(1-3), of rot pid rk "current_versions pid s" 0]) auto
qed (use assms in simp)

lemma set_phase_records: "key_records (set_phase rid ph s) = map (\<lambda>r. if kr_id r = rid then r\<lparr> kr_state := ph \<rparr> else r) (key_records s)"
  by (simp add: set_phase_def)

lemma switch_keys_ok:
  assumes ok: "vault_ok c s" and a: "active \<in> set (key_records s)" "kr_project active = pid" "kr_state active = KeyStateActive"
    and r: "rot \<in> set (key_records s)" "kr_project rot = pid" "kr_state rot = KeyStateRotating" and sw: "switch_keys pid active rot s = Some s'"
  shows "vault_ok c s' \<and> hist c s' = hist c s"
proof -
  let ?h = "\<lambda>x. if kr_id x = kr_id rot then x\<lparr> kr_state := KeyStateActive \<rparr> else if kr_id x = kr_id active then x\<lparr> kr_state := KeyStateRetired \<rparr> else x"
  have rec: "records_ok c s" using ok by (simp add: vault_ok_def)
  have ident: "x = y" if "x \<in> set (key_records s)" "y \<in> set (key_records s)" "kr_id x = kr_id y" for x y
    using rec that by (auto simp: records_ok_def distinct_map inj_on_def)
  have s': "s' = set_phase (kr_id rot) KeyStateActive (set_phase (kr_id active) KeyStateRetired s)"
    using sw by (simp add: switch_keys_def Let_def split: if_splits)
  have "key_records s' = map ?h (key_records s)"
    unfolding s' set_phase_records map_map by (rule map_cong) simp_all
  then have tabs: "key_records s' = map ?h (key_records s)" "secrets s' = secrets s" "versions s' = versions s"
    by (simp_all add: s' set_phase_def)
  have none: "\<not> (kr_project x = pid \<and> kr_state x = KeyStateActive)" if "x \<in> set (key_records s)" "kr_id x \<noteq> kr_id rot" "kr_id x \<noteq> kr_id active" for x
  proof -
    have "x \<in> set (key_records (set_phase (kr_id active) KeyStateRetired s))"
      using that by (auto simp: set_phase_def image_iff intro!: bexI [of _ x])
    then show ?thesis using sw that by (auto simp: switch_keys_def Let_def split: if_splits)
  qed
  have load: "loadKeyRecord rid s' = map_option ?h (loadKeyRecord rid s)" for rid
    unfolding loadKeyRecord_def tabs by (rule find_map_keeps) simp
  have kept: "keys_kept s s'" by (auto simp: keys_kept_def load same_key_def)
  have "x = y" if x: "x \<in> set (key_records s)" "y \<in> set (key_records s)" "kr_project x = kr_project y" "kr_state (?h x) = kr_state (?h y)" "kr_state (?h x) \<noteq> KeyStateRetired" for x y
    using rec ident [OF x(1) r(1)] ident [OF x(2) r(1)] none [OF x(1)] none [OF x(2)] r(2) x
    by (auto simp: records_ok_def split: if_splits)
  note uniq = this
  have core: "kr_id (?h x) = kr_id x" "kr_project (?h x) = kr_project x" "unwrap c p (?h x) = unwrap c p x" for x p by (simp_all add: unwrap_def)
  have "records_ok c s'" unfolding records_ok_def
  proof (intro conjI ballI impI)
    have "map kr_id (map ?h (key_records s)) = map kr_id (key_records s)" by simp
    then show "distinct (map kr_id (key_records s'))" unfolding tabs using rec by (simp only: records_ok_def)
  next
    fix x assume "x \<in> set (key_records s')"
    then obtain y where "y \<in> set (key_records s)" "x = ?h y" unfolding tabs by auto
    then show "unwrap c (kr_project x) x \<noteq> None" using rec by (simp only: core records_ok_def) blast
  next
    fix x y assume "x \<in> set (key_records s')" "y \<in> set (key_records s')"
      and xy: "kr_project x = kr_project y \<and> kr_state x = kr_state y \<and> kr_state x \<noteq> KeyStateRetired"
    then obtain x0 y0 where m: "x0 \<in> set (key_records s)" "x = ?h x0" "y0 \<in> set (key_records s)" "y = ?h y0" unfolding tabs set_map by blast
    from xy have q: "kr_project (?h x0) = kr_project (?h y0)" "kr_state (?h x0) = kr_state (?h y0)" "kr_state (?h x0) \<noteq> KeyStateRetired"
      unfolding m(2,4) by blast+
    have "x0 = y0" by (rule uniq [OF m(1,3) q(1) [unfolded core(2)] q(2,3)])
    with m show "x = y" by simp
  qed
  then show ?thesis by (intro keys_change [OF ok kept tabs(2,3)])
qed

lemma CompleteKeyRotation_ok:
  assumes "vault_ok c s" "CompleteKeyRotation c i pid s = (res, s')"
  shows "vault_ok c s' \<and> hist c s' = hist c s"
proof (cases "s' = s")
  case False
  with assms(2) obtain active rot where "loadActiveKeyQuery (in_bad i 6) pid s = Inr active" "loadRotatingKey (in_bad i 7) pid s = Inr rot"
      "switch_keys pid active rot s = Some s'"
    by (auto simp: CompleteKeyRotation_def split: option.splits sum.splits if_splits)
  then show ?thesis using loadActiveKeyQuery_mem loadRotatingKey_mem switch_keys_ok [OF assms(1)] by metis
qed (use assms in simp)

lemma BeginKeyRotation_ok:
  assumes "cfg_ok c" "in_ok i" "vault_ok c s" "BeginKeyRotation c i pid s = (res, s')"
  shows "vault_ok c s' \<and> hist c s' = hist c s"
  using assms(3,4) insert_key_record_change [OF assms(1-3)]
  by (auto simp: BeginKeyRotation_def Let_def split: option.splits sum.splits if_splits)

section \<open>The store is refined\<close>

datatype vault_op =
    VFolder vault_in string string string
  | VCreate vault_in string string string string string
  | VUpdate vault_in string string string string string
  | VDelete vault_in string string string string
  | VBegin vault_in string
  | VRotate vault_in string
  | VComplete vault_in string
  | VProjects "(string, nat) go_map" "(string, string) go_map"

fun vault_step :: "vault_cfg \<Rightarrow> vault \<Rightarrow> vault_op \<Rightarrow> vault" where
  "vault_step c s (VFolder i pid env name) = snd (EnsureFolder i pid env name s)"
| "vault_step c s (VCreate i pid env folder key val) = snd (CreateSecret c i pid env folder key val s)"
| "vault_step c s (VUpdate i pid env folder key val) = snd (UpdateSecret c i pid env folder key val s)"
| "vault_step c s (VDelete i pid env folder key) = snd (DeleteSecret i pid env folder key s)"
| "vault_step c s (VBegin i pid) = snd (BeginKeyRotation c i pid s)"
| "vault_step c s (VRotate i pid) = snd (RotateCurrentVersions c i pid s)"
| "vault_step c s (VComplete i pid) = snd (CompleteKeyRotation c i pid s)"
| "vault_step c s (VProjects ps es) = s\<lparr> projects := ps, environments := es \<rparr>"

text \<open>Whether a call commits a change of the secrets, and what the abstract store does then.\<close>

fun commits :: "vault_cfg \<Rightarrow> vault \<Rightarrow> vault_op \<Rightarrow> bool" where
  "commits c s (VCreate i pid env folder key val) = (fst (create_tx c i pid env folder key val s) = Inr ())"
| "commits c s (VUpdate i pid env folder key val) = (fst (update_tx c i pid env folder key val s) = Inr ())"
| "commits c s (VDelete i pid env folder key) = (fst (DeleteSecret i pid env folder key s) = Inr ())"
| "commits c s _ = False"

fun store_step :: "store \<Rightarrow> vault_op \<Rightarrow> store" where
  "store_step h (VCreate i pid env folder key val) = h((folder, key) \<mapsto> [val])"
| "store_step h (VUpdate i pid env folder key val) = h((folder, key) \<mapsto> the (h (folder, key)) @ [val])"
| "store_step h (VDelete i pid env folder key) = h((folder, key) := None)"
| "store_step h _ = h"

text \<open>The abstract store lets a key be created once, and updated or deleted only while it exists.\<close>

fun store_enabled :: "store \<Rightarrow> vault_op \<Rightarrow> bool" where
  "store_enabled h (VCreate i pid env folder key val) = (h (folder, key) = None)"
| "store_enabled h (VUpdate i pid env folder key val) = (h (folder, key) \<noteq> None)"
| "store_enabled h (VDelete i pid env folder key) = (h (folder, key) \<noteq> None)"
| "store_enabled h _ = True"

fun op_in_ok :: "vault_op \<Rightarrow> bool" where
  "op_in_ok (VFolder i _ _ _) = in_ok i"
| "op_in_ok (VCreate i _ _ _ _ _) = in_ok i"
| "op_in_ok (VUpdate i _ _ _ _ _) = in_ok i"
| "op_in_ok (VDelete i _ _ _ _) = in_ok i"
| "op_in_ok (VBegin i _) = in_ok i"
| "op_in_ok (VRotate i _) = in_ok i"
| "op_in_ok (VComplete i _) = in_ok i"
| "op_in_ok (VProjects _ _) = True"

lemma after_commit_state: "snd (after_commit c i pid env folder key r) = snd r"
  by (auto simp: after_commit_def split: prod.split sum.split)

lemma frame_change:
  assumes "vault_ok c s" "key_records s' = key_records s" "secrets s' = secrets s" "versions s' = versions s"
  shows "vault_ok c s' \<and> hist c s' = hist c s"
proof (rule keys_change [OF assms(1) keys_kept_same [OF assms(2)] assms(3,4)])
  show "records_ok c s'" using assms(1) unfolding vault_ok_def records_ok_def assms(2) by blast
qed

lemma EnsureFolder_frame:
  "key_records (snd (EnsureFolder i pid env name s)) = key_records s" "secrets (snd (EnsureFolder i pid env name s)) = secrets s"
  "versions (snd (EnsureFolder i pid env name s)) = versions s"
  by (auto simp: EnsureFolder_def Let_def split: option.split)

lemma vault_step_refines:
  assumes "cfg_ok c" "vault_ok c s" "op_in_ok op"
  shows "vault_ok c (vault_step c s op) \<and> hist c (vault_step c s op) = (if commits c s op then store_step (hist c s) op else hist c s)
    \<and> (commits c s op \<longrightarrow> store_enabled (hist c s) op)"
proof (cases op)
  case (VFolder i pid env name)
  note f = frame_change [OF assms(2) EnsureFolder_frame, of i pid env name]
  show ?thesis unfolding VFolder vault_step.simps commits.simps if_False using f by blast
next
  case (VCreate i pid env folder key val)
  then have i: "in_ok i" using assms(3) by simp
  note f = create_tx_ok [OF assms(1) i assms(2) surjective_pairing, of pid env folder key val]
  show ?thesis
    unfolding VCreate vault_step.simps commits.simps store_step.simps store_enabled.simps CreateSecret_def after_commit_state by (rule f)
next
  case (VUpdate i pid env folder key val)
  then have i: "in_ok i" using assms(3) by simp
  note f = update_tx_ok [OF assms(1) i assms(2) surjective_pairing, of pid env folder key val]
  show ?thesis
    unfolding VUpdate vault_step.simps commits.simps store_step.simps store_enabled.simps UpdateSecret_def after_commit_state by (rule f)
next
  case (VDelete i pid env folder key)
  note f = DeleteSecret_ok [OF assms(2) surjective_pairing, of i pid env folder key]
  show ?thesis unfolding VDelete vault_step.simps commits.simps store_step.simps store_enabled.simps by (rule f)
next
  case (VBegin i pid)
  then have i: "in_ok i" using assms(3) by simp
  note f = BeginKeyRotation_ok [OF assms(1) i assms(2) surjective_pairing, of pid]
  show ?thesis unfolding VBegin vault_step.simps commits.simps if_False using f by blast
next
  case (VRotate i pid)
  then have i: "in_ok i" using assms(3) by simp
  note f = RotateCurrentVersions_ok [OF assms(1) i assms(2) surjective_pairing, of pid]
  show ?thesis unfolding VRotate vault_step.simps commits.simps if_False using f by blast
next
  case (VComplete i pid)
  note f = CompleteKeyRotation_ok [OF assms(2) surjective_pairing, of i pid]
  show ?thesis unfolding VComplete vault_step.simps commits.simps if_False using f by blast
next
  case (VProjects ps es)
  have f: "vault_ok c (s\<lparr> projects := ps, environments := es \<rparr>) \<and> hist c (s\<lparr> projects := ps, environments := es \<rparr>) = hist c s"
    by (rule frame_change [OF assms(2)]) simp_all
  show ?thesis unfolding VProjects vault_step.simps commits.simps if_False using f by blast
qed

text \<open>A run of calls, with the log of those that committed, and the same log on the abstract store.\<close>

fun vault_run :: "vault_cfg \<Rightarrow> vault \<Rightarrow> vault_op list \<Rightarrow> vault \<times> vault_op list" where
  "vault_run c s [] = (s, [])"
| "vault_run c s (op # ops) = (case vault_run c (vault_step c s op) ops of (s', log) \<Rightarrow> (s', if commits c s op then op # log else log))"

fun store_run :: "store \<Rightarrow> vault_op list \<Rightarrow> store option" where
  "store_run h [] = Some h"
| "store_run h (op # ops) = (if store_enabled h op then store_run (store_step h op) ops else None)"

lemma vault_run_refines:
  assumes "cfg_ok c" "vault_ok c s" "list_all op_in_ok ops" "vault_run c s ops = (s', log)"
  shows "vault_ok c s' \<and> store_run (hist c s) log = Some (hist c s')"
  using assms(2-4)
proof (induction ops arbitrary: s log)
  case (Cons op ops)
  obtain log1 where r: "vault_run c (vault_step c s op) ops = (s', log1)" "log = (if commits c s op then op # log1 else log1)"
    using Cons.prems(3) by (auto split: prod.splits)
  have i: "op_in_ok op" "list_all op_in_ok ops" using Cons.prems(2) by simp_all
  note step = vault_step_refines [OF assms(1) Cons.prems(1) i(1)]
  have "vault_ok c s' \<and> store_run (hist c (vault_step c s op)) log1 = Some (hist c s')"
    by (rule Cons.IH [OF conjunct1 [OF step] i(2) r(1)])
  then show ?case using step r(2) by (cases "commits c s op") simp_all
qed simp

section \<open>Reading returns the entries of the store\<close>

lemma loadVersion_of:
  assumes "secrets_ok s" "r \<in> set (secrets s)"
  shows "loadVersion False (sr_id r) n s = (case version_of (sr_id r) (if n = 0 then sr_cur r else n) s of None \<Rightarrow> Inl ErrVersionNotFound | Some v \<Rightarrow> Inr v)"
proof -
  have "find (\<lambda>x. sr_id x = sr_id r) (secrets s) = Some r"
    using find_by_key [of sr_id "secrets s" r] assms by (simp add: secrets_ok_def)
  then show ?thesis by (simp add: loadVersion_def version_of_def)
qed

lemma read_version:
  assumes ok: "vault_ok c s" and scope: "verifyScope i pid env folder s = None" "\<not> in_bad i 3" "\<not> in_bad i 4" "\<not> in_bad i 5"
    and r: "secret_at folder key s = Some r" "sr_project r = pid" "sr_env r = env" and m: "m = (if n = 0 then sr_cur r else n)"
  shows "readSecretValue c i pid env folder key n s = (if m \<le> sr_cur r then Inr (m, values_of c s r ! (m - 1)) else Inl ErrVersionNotFound)"
proof -
  have mem: "r \<in> set (secrets s)" "sr_folder r = folder" using r(1) by (auto simp: secret_at_def dest!: find_SomeD)
  have load: "loadSecret (in_bad i 3) pid env folder key s = Inr r"
    using r scope mem by (simp add: loadSecret_def secret_at_def)
  have sok: "secrets_ok s" "versions_ok s" "1 \<le> sr_cur r" using ok mem by (auto simp: vault_ok_def secrets_ok_def)
  note lv = loadVersion_of [OF sok(1) mem(1), of n]
  show ?thesis
  proof (cases "m \<le> sr_cur r")
    case True
    have pos: "1 \<le> m" using m sok(3) by (simp split: if_splits)
    with True ok mem obtain p where "plain c s r m = Some p" unfolding vault_ok_def readable_def by blast
    moreover from this obtain v where v: "version_of (sr_id r) m s = Some v" "decryptVersion c False (secret_scope r m) v s = Inr p"
      by (auto simp: plain_def split: option.splits sum.splits)
    moreover have "v_no v = m" using v(1) by (auto simp: version_of_def dest!: find_SomeD)
    moreover have "values_of c s r ! (m - 1) = the (plain c s r m)" using True pos
      unfolding values_of_def by (subst nth_map) (simp_all del: upt_Suc)
    ultimately show ?thesis using True scope load lv m by (simp add: readSecretValue_def)
  next
    case False
    have "version_of (sr_id r) m s = None"
    proof (rule ccontr)
      assume "version_of (sr_id r) m s \<noteq> None"
      then obtain v where "v \<in> set (versions s)" "v_secret v = sr_id r" "v_no v = m" by (auto simp: version_of_def dest!: find_SomeD)
      with sok(2) mem(1) False show False by (auto simp: versions_ok_def)
    qed
    then show ?thesis using False scope load lv m by (simp add: readSecretValue_def)
  qed
qed

lemma length_values_of [simp]: "length (values_of c s r) = sr_cur r"
  by (simp add: values_of_def)

end
