(* ===== verification/Secrets_Store.thy ===== *)
theory Secrets_Store
  imports Secrets_Refine
begin

text \<open>
  The theorems about the store of secrets: the tables refine the abstract store over every sequence of
  calls, reading returns what was written, and a completed rotation leaves the current versions of a
  project under its one active key.
\<close>

section \<open>A concrete vault\<close>

definition toy_crypto :: crypto where
  "toy_crypto = \<lparr> gcm_seal = (\<lambda>k aad n p. p @ replicate 16 CHR ''t''), gcm_open = (\<lambda>k aad n ct. Some (take (length ct - 16) ct)), b64 = (\<lambda>x. x), unb64 = Some \<rparr>"

definition toy_cfg :: vault_cfg where
  "toy_cfg = \<lparr> vc_crypto = toy_crypto, vc_root = replicate 32 CHR ''r'' \<rparr>"

definition toy_in :: "char \<Rightarrow> vault_in" where
  "toy_in x = \<lparr> in_org = Some 1, in_bad = (\<lambda>_. False), in_id = (\<lambda>n. Some [x, char_of n]), in_nonce = (\<lambda>_. Some (replicate 12 x)),
     in_dk = Some (replicate 32 x), in_kid = Some [x], in_fk = True \<rparr>"

definition toy_vault :: vault where
  "toy_vault = \<lparr> projects = [(''p'', 1)], environments = [(''e'', ''p'')],
     folders = [\<lparr> fo_id = ''f'', fo_project = ''p'', fo_env = ''e'', fo_name = ''main'' \<rparr>], key_records = [], secrets = [], versions = [] \<rparr>"

definition toy_ops :: "vault_op list" where
  "toy_ops = [VCreate (toy_in CHR ''a'') ''p'' ''e'' ''f'' ''KEY'' ''one'', VBegin (toy_in CHR ''b'') ''p'', VRotate (toy_in CHR ''c'') ''p'',
     VComplete (toy_in CHR ''d'') ''p'', VUpdate (toy_in CHR ''e'') ''p'' ''e'' ''f'' ''KEY'' ''two'']"

lemma toy_cfg_ok: "cfg_ok toy_cfg"
  by (simp add: cfg_ok_def toy_cfg_def crypto_ok_def toy_crypto_def)

lemma toy_in_ok: "in_ok (toy_in x)"
  by (simp add: in_ok_def toy_in_def)

lemma toy_vault_ok: "vault_ok c toy_vault"
  by (simp add: vault_ok_def records_ok_def secrets_ok_def versions_ok_def readable_def toy_vault_def)

lemma toy_ops_ok: "list_all op_in_ok toy_ops"
  by (simp add: toy_ops_def toy_in_ok)

lemmas toy_defs = toy_cfg_def toy_crypto_def toy_in_def toy_vault_def

lemma toy_validate: "validateSecretKey ''KEY''" "validateSecretValue ''one''" "validateSecretValue ''two''"
  by (simp_all add: validateSecretKey_def validateSecretValue_def)

lemmas vault_eval = CreateSecret_def UpdateSecret_def after_commit_state create_tx_def update_tx_def verifyScope_def requireProject_def ensureActiveKey_def
  loadActiveKeyQuery_def new_key_record_def GenerateProjectDataKey_def sealAESGCM_def aes_key_def insert_key_record_def unwrap_def UnwrapProjectDataKey_def
  openAESGCM_def seal_version_def Seal_def Open_def insert_secret_def insert_version_def BeginKeyRotation_def loadRotatingKey_def RotateCurrentVersions_def
  current_versions_def decryptVersion_def loadKeyRecord_def set_envelope_def CompleteKeyRotation_def rotation_verified_def switch_keys_def set_phase_def
  loadSecret_def bump_def

text \<open>
  C13. Over every sequence of calls, with any failures, the tables stay well-formed (every version opens, at
  most one active and one rotating key per project) and behave as the abstract store on the calls that
  committed: an entry is created where there was none, an update appends a value and keeps the earlier
  ones, a deletion removes the entry, and rotations, folders and failed calls change nothing.
\<close>

theorem vault_refines_store:
  assumes "cfg_ok c" "vault_ok c s" "list_all op_in_ok ops"
  shows "vault_ok c (fst (vault_run c s ops)) \<and> store_run (hist c s) (snd (vault_run c s ops)) = Some (hist c (fst (vault_run c s ops)))"
  by (rule vault_run_refines [OF assms surjective_pairing])

lemma toy_run_hist: "hist toy_cfg (fst (vault_run toy_cfg toy_vault toy_ops)) (''f'', ''KEY'') = Some [''one'', ''two'']"
  by (simp add: toy_ops_def vault_eval toy_validate toy_defs hist_def secret_at_def values_of_def plain_def version_of_def secret_scope_def upt_rec)

theorem vault_refines_store_witness:
  "vault_ok toy_cfg (fst (vault_run toy_cfg toy_vault toy_ops)) \<and> length (snd (vault_run toy_cfg toy_vault toy_ops)) = 2
   \<and> (\<exists>h. store_run (hist toy_cfg toy_vault) (snd (vault_run toy_cfg toy_vault toy_ops)) = Some h \<and> h (''f'', ''KEY'') = Some [''one'', ''two''])"
proof -
  have "length (snd (vault_run toy_cfg toy_vault toy_ops)) = 2"
    by (simp add: toy_ops_def vault_eval toy_validate toy_defs)
  with vault_refines_store [OF toy_cfg_ok toy_vault_ok toy_ops_ok] toy_run_hist show ?thesis by blast
qed

section \<open>Reading after any history\<close>

text \<open>
  After any sequence of calls, a permitted read without faults returns exactly what the calls that
  committed wrote: the newest value by default, any earlier one by its number, and the error for a version
  that was never written; and a key the abstract store does not have is not found.
\<close>

lemma read_after_run:
  fixes c s ops
  defines "s' \<equiv> fst (vault_run c s ops)"
  assumes "cfg_ok c" "vault_ok c s" "list_all op_in_ok ops"
    and scope: "verifyScope i pid env folder s' = None" "\<not> in_bad i 3" "\<not> in_bad i 4" "\<not> in_bad i 5"
    and owner: "\<And>r. secret_at folder key s' = Some r \<Longrightarrow> sr_project r = pid \<and> sr_env r = env"
  shows "\<exists>h. store_run (hist c s) (snd (vault_run c s ops)) = Some h \<and>
    readSecretValue c i pid env folder key n s' = (case h (folder, key) of
        None \<Rightarrow> Inl ErrSecretNotFound
      | Some vals \<Rightarrow> if n = 0 then Inr (length vals, last vals)
          else if n \<le> length vals then Inr (n, vals ! (n - 1)) else Inl ErrVersionNotFound)"
proof -
  have run: "vault_ok c s' \<and> store_run (hist c s) (snd (vault_run c s ops)) = Some (hist c s')"
    unfolding s'_def by (rule vault_run_refines [OF assms(2-4) surjective_pairing])
  have "readSecretValue c i pid env folder key n s' = (case hist c s' (folder, key) of
        None \<Rightarrow> Inl ErrSecretNotFound
      | Some vals \<Rightarrow> if n = 0 then Inr (length vals, last vals)
          else if n \<le> length vals then Inr (n, vals ! (n - 1)) else Inl ErrVersionNotFound)"
  proof (cases "secret_at folder key s'")
    case None
    then show ?thesis using scope by (simp add: readSecretValue_def loadSecret_def secret_at_def hist_def)
  next
    case (Some r)
    have "r \<in> set (secrets s')" using Some by (auto simp: secret_at_def dest!: find_SomeD)
    then have "values_of c s' r \<noteq> []" using run by (auto simp: vault_ok_def secrets_ok_def values_of_def)
    then show ?thesis using read_version [OF conjunct1 [OF run] scope Some _ _ refl, of n] owner [OF Some] Some
      by (simp add: hist_def last_conv_nth)
  qed
  with run show ?thesis by blast
qed

theorem read_after_run_witness:
  "ReadSecretVersionValue toy_cfg (toy_in CHR ''z'') ''p'' ''e'' ''f'' ''KEY'' 1 (fst (vault_run toy_cfg toy_vault toy_ops)) = Inr (1, ''one'')"
proof -
  have run: "store_run (hist toy_cfg toy_vault) (snd (vault_run toy_cfg toy_vault toy_ops)) = Some (hist toy_cfg (fst (vault_run toy_cfg toy_vault toy_ops)))"
    using vault_run_refines [OF toy_cfg_ok toy_vault_ok toy_ops_ok surjective_pairing] by blast
  have "\<exists>h. store_run (hist toy_cfg toy_vault) (snd (vault_run toy_cfg toy_vault toy_ops)) = Some h \<and>
    readSecretValue toy_cfg (toy_in CHR ''z'') ''p'' ''e'' ''f'' ''KEY'' 1 (fst (vault_run toy_cfg toy_vault toy_ops)) = (case h (''f'', ''KEY'') of
        None \<Rightarrow> Inl ErrSecretNotFound
      | Some vals \<Rightarrow> if (1 :: nat) = 0 then Inr (length vals, last vals)
          else if 1 \<le> length vals then Inr (1, vals ! (1 - 1)) else Inl ErrVersionNotFound)"
    by (rule read_after_run [OF toy_cfg_ok toy_vault_ok toy_ops_ok])
      (auto simp: toy_ops_def vault_eval toy_validate toy_defs secret_at_def)
  then show ?thesis using run toy_run_hist by (simp add: ReadSecretVersionValue_def)
qed

section \<open>A completed rotation\<close>

lemma current_version_ex:
  assumes "vault_ok c s" "r \<in> set (secrets s)" "sr_project r = pid"
  shows "\<exists>v. version_of (sr_id r) (sr_cur r) s = Some v \<and> (v, r) \<in> set (current_versions pid s)"
proof -
  have "1 \<le> sr_cur r" using assms by (simp add: vault_ok_def secrets_ok_def)
  then obtain p where "plain c s r (sr_cur r) = Some p" using assms by (auto simp: vault_ok_def readable_def)
  then obtain v where v: "version_of (sr_id r) (sr_cur r) s = Some v" by (auto simp: plain_def split: option.splits)
  then have "v \<in> set (versions s)" "v_secret v = sr_id r" "v_no v = sr_cur r" by (auto simp: version_of_def dest!: find_SomeD)
  then have "(v, r) \<in> set (current_versions pid s)" using assms(2,3) unfolding current_versions_def by force
  with v show ?thesis by blast
qed

lemma filter_full: "length (filter P xs) = length xs \<Longrightarrow> x \<in> set xs \<Longrightarrow> P x"
  by (metis length_filter_less less_irrefl)

lemma current_versions_all:
  assumes "vault_ok c s"
  shows "length (current_versions pid s) = length (filter (\<lambda>r. sr_project r = pid) (secrets s))"
proof -
  let ?cv = "current_versions pid s" and ?rs = "filter (\<lambda>r. sr_project r = pid) (secrets s)"
  have ok: "secrets_ok s" "versions_ok s" using assms by (simp_all add: vault_ok_def)
  have d: "distinct (map snd ?cv)"
  proof -
    have "distinct ?cv" using current_versions_distinct [OF ok(1,2)] by (simp add: distinct_map)
    moreover have "inj_on snd (set ?cv)"
    proof (rule inj_onI, clarsimp)
      fix v w r assume "(v, r) \<in> set ?cv" "(w, r) \<in> set ?cv"
      then show "v = w" using version_of_unique [OF ok(2), of v] version_of_unique [OF ok(2), of w]
        by (auto dest!: current_versions_mem)
    qed
    ultimately show ?thesis by (simp add: distinct_map)
  qed
  have "snd ` set ?cv = set ?rs"
  proof (intro equalityI subsetI)
    fix r assume "r \<in> set ?rs"
    then show "r \<in> snd ` set ?cv" using current_version_ex [OF assms, of r pid] by force
  qed (auto dest!: current_versions_mem)
  moreover have "distinct ?rs" using ok(1) by (simp add: secrets_ok_def distinct_map)
  ultimately show ?thesis using d by (metis distinct_card length_map set_map)
qed

lemma rotation_verified_all:
  assumes "vault_ok c s" "rotation_verified c pid rot s = None" "r \<in> set (secrets s)" "sr_project r = pid"
  shows "\<exists>v. version_of (sr_id r) (sr_cur r) s = Some v \<and> v_record v = kr_id rot"
proof -
  have full: "length (filter (\<lambda>(v, r). v_record v = kr_id rot) (current_versions pid s)) = length (current_versions pid s)"
    using assms(2) current_versions_all [OF assms(1)] by (simp add: rotation_verified_def split: if_splits)
  from current_version_ex [OF assms(1,3,4)] obtain v where v: "version_of (sr_id r) (sr_cur r) s = Some v" "(v, r) \<in> set (current_versions pid s)"
    by blast
  from filter_full [OF full v(2)] v(1) show ?thesis by simp
qed

lemma switch_keys_eq: "switch_keys pid active rot s = Some s' \<Longrightarrow> s' = set_phase (kr_id rot) KeyStateActive (set_phase (kr_id active) KeyStateRetired s)"
  by (simp add: switch_keys_def Let_def split: if_splits)

text \<open>The states of the keys after the switch.\<close>

lemma switch_keys_active:
  assumes "records_ok c s" "active \<in> set (key_records s)" "kr_state active = KeyStateActive"
    and "rot \<in> set (key_records s)" "kr_project rot = pid" "kr_state rot = KeyStateRotating" "switch_keys pid active rot s = Some s'"
  shows "rot\<lparr> kr_state := KeyStateActive \<rparr> \<in> set (key_records s') \<and> (\<forall>x \<in> set (key_records s'). kr_project x = pid \<longrightarrow> kr_state x \<noteq> KeyStateRotating)"
proof -
  note s' = switch_keys_eq [OF assms(7)]
  have ne: "kr_id rot \<noteq> kr_id active" using assms(1-4,6) by (auto simp: records_ok_def distinct_map inj_on_def)
  have mem: "rot \<in> set (key_records (set_phase (kr_id active) KeyStateRetired s))"
    unfolding set_phase_records set_map using assms(4) ne by (intro image_eqI [of _ _ rot]) simp_all
  have "rot\<lparr> kr_state := KeyStateActive \<rparr> \<in> set (key_records s')"
    unfolding s' set_phase_records [of "kr_id rot"] set_map using mem by (intro image_eqI [of _ _ rot]) simp_all
  moreover have "kr_state x \<noteq> KeyStateRotating" if x: "x \<in> set (key_records s')" "kr_project x = pid" for x
  proof
    assume r: "kr_state x = KeyStateRotating"
    with x(1) have "x \<in> set (key_records s)" "kr_id x \<noteq> kr_id rot" unfolding s' set_phase_records by (auto split: if_splits)
    moreover from this have "x = rot" using assms(1,4-6) x(2) r by (simp add: records_ok_def)
    ultimately show False by simp
  qed
  ultimately show ?thesis by blast
qed

text \<open>
  C14. When a rotation completes, the project has exactly one active key and no rotating key, every secret's
  current version is sealed under the active key, and what can be read is unchanged.
\<close>

theorem rotation_complete:
  assumes "vault_ok c s" "CompleteKeyRotation c i pid s = (Inr (), s')"
  shows "hist c s' = hist c s \<and> (\<exists>a \<in> set (key_records s'). kr_project a = pid \<and> kr_state a = KeyStateActive
    \<and> (\<forall>b \<in> set (key_records s'). kr_project b = pid \<and> kr_state b \<noteq> KeyStateRetired \<longrightarrow> b = a)
    \<and> (\<forall>r \<in> set (secrets s'). sr_project r = pid \<longrightarrow> (\<exists>v. version_of (sr_id r) (sr_cur r) s' = Some v \<and> v_record v = kr_id a)))"
proof -
  from assms(2) obtain active rot where k: "loadActiveKeyQuery (in_bad i 6) pid s = Inr active" "loadRotatingKey (in_bad i 7) pid s = Inr rot"
      "rotation_verified c pid rot s = None" "switch_keys pid active rot s = Some s'"
    by (auto simp: CompleteKeyRotation_def split: option.splits sum.splits if_splits)
  note a = loadActiveKeyQuery_mem [OF k(1)] and r = loadRotatingKey_mem [OF k(2)]
  have rec: "records_ok c s" using assms(1) by (simp add: vault_ok_def)
  note after = CompleteKeyRotation_ok [OF assms]
  then have uniq: "records_ok c s'" by (simp add: vault_ok_def)
  let ?a = "rot\<lparr> kr_state := KeyStateActive \<rparr>"
  have sw: "?a \<in> set (key_records s')" "\<forall>x \<in> set (key_records s'). kr_project x = pid \<longrightarrow> kr_state x \<noteq> KeyStateRotating"
    using switch_keys_active [OF rec _ _ _ _ _ k(4)] a r by blast+
  have tabs: "secrets s' = secrets s" "versions s' = versions s" unfolding switch_keys_eq [OF k(4)] by (simp_all add: set_phase_def)
  have "b = ?a" if "b \<in> set (key_records s')" "kr_project b = pid" "kr_state b \<noteq> KeyStateRetired" for b
  proof -
    have "kr_state b = KeyStateActive" using that sw(2) by (cases "kr_state b") auto
    moreover have "kr_project ?a = pid" "kr_state ?a = KeyStateActive" using r by simp_all
    ultimately show ?thesis using uniq sw(1) that(1,2) unfolding records_ok_def by (metis key_phase.distinct(3))
  qed
  moreover have "\<exists>v. version_of (sr_id q) (sr_cur q) s' = Some v \<and> v_record v = kr_id ?a" if "q \<in> set (secrets s')" "sr_project q = pid" for q
  proof -
    have "q \<in> set (secrets s)" using that(1) tabs(1) by simp
    from rotation_verified_all [OF assms(1) k(3) this that(2)] show ?thesis by (simp add: tabs(2) version_of_def)
  qed
  moreover have "kr_project ?a = pid" "kr_state ?a = KeyStateActive" using r by simp_all
  ultimately show ?thesis using conjunct2 [OF after] sw(1) by blast
qed

definition toy_rotated :: vault where
  "toy_rotated = fst (vault_run toy_cfg toy_vault (take 3 toy_ops))"

theorem rotation_complete_witness:
  "\<exists>a \<in> set (key_records (snd (CompleteKeyRotation toy_cfg (toy_in CHR ''d'') ''p'' toy_rotated))). kr_key a = ''b'' \<and> kr_state a = KeyStateActive"
proof -
  have ok: "vault_ok toy_cfg toy_rotated" unfolding toy_rotated_def
    by (rule conjunct1 [OF vault_run_refines [OF toy_cfg_ok toy_vault_ok _ surjective_pairing]]) (simp add: toy_ops_def toy_in_ok)
  have "fst (CompleteKeyRotation toy_cfg (toy_in CHR ''d'') ''p'' toy_rotated) = Inr ()"
    by (simp add: toy_rotated_def toy_ops_def vault_eval toy_validate toy_defs)
  then have e: "CompleteKeyRotation toy_cfg (toy_in CHR ''d'') ''p'' toy_rotated = (Inr (), snd (CompleteKeyRotation toy_cfg (toy_in CHR ''d'') ''p'' toy_rotated))"
    by (metis prod.collapse)
  have "\<forall>x \<in> set (key_records (snd (CompleteKeyRotation toy_cfg (toy_in CHR ''d'') ''p'' toy_rotated))). kr_state x = KeyStateActive \<longrightarrow> kr_key x = ''b''"
    by (simp add: toy_rotated_def toy_ops_def vault_eval toy_validate toy_defs)
  with rotation_complete [OF ok e] show ?thesis by metis
qed

section \<open>Deletion and foreign keys\<close>

text \<open>Where the database does not enforce foreign keys, deleting a secret leaves every version row behind.\<close>

lemma DeleteSecret_leaves_versions:
  assumes "\<not> in_fk i" "DeleteSecret i pid env folder key s = (Inr (), s')"
  shows "versions s' = versions s"
  using assms by (auto simp: DeleteSecret_def split: option.splits sum.splits if_splits)

lemma DeleteSecret_removes_versions:
  assumes "in_fk i" "DeleteSecret i pid env folder key s = (Inr (), s')" "secret_at folder key s = Some r"
  shows "\<forall>v \<in> set (versions s'). v_secret v \<noteq> sr_id r"
  using assms by (auto simp: DeleteSecret_def dest!: secret_at_load split: option.splits sum.splits if_splits)

end
