(* ===== verification/Host_Registry.thy ===== *)
theory Host_Registry
  imports BB_Prelude
begin

text \<open>
  The contract between the deployment engine and the proxy (the interface \<^verbatim>\<open>DeploymentHostRegistry\<close> of
  \<^verbatim>\<open>components/deploy/deploy.go\<close>): what a registered host leads to. The proxy provides it in Proxy_Hosts; the engine's
  proofs use only these laws.
\<close>

locale host_registry =
  fixes reg :: "string \<Rightarrow> int \<Rightarrow> string \<Rightarrow> 'p \<Rightarrow> 'p"
    and unreg :: "string \<Rightarrow> 'p \<Rightarrow> 'p"
    and leads_to :: "'p \<Rightarrow> string \<Rightarrow> (int \<times> string) option"
    and norm :: "string \<Rightarrow> string"
    and ok :: "string \<Rightarrow> int \<Rightarrow> bool"
  assumes reg_ok: "ok h n \<Longrightarrow> leads_to (reg h n s p) h' = (if norm h' = norm h then Some (n, s) else leads_to p h')"
    and reg_refused: "\<not> ok h n \<Longrightarrow> leads_to (reg h n s p) h' = leads_to p h'"
    and unreg: "leads_to (unreg h p) h' = (if norm h' = norm h then None else leads_to p h')"
begin

lemma reg_keeps: "leads_to p h = Some (n, s) \<Longrightarrow> leads_to (reg h' n s p) h = Some (n, s)"
  by (cases "ok h' n") (simp_all add: reg_ok reg_refused)

lemma regs_keep: "leads_to p h = Some (n, s) \<Longrightarrow> leads_to (fold (\<lambda>x. reg x n s) hs p) h = Some (n, s)"
  by (induction hs arbitrary: p) (simp_all add: reg_keeps)

lemma regs_route: "h \<in> set hs \<Longrightarrow> ok h n \<Longrightarrow> leads_to (fold (\<lambda>x. reg x n s) hs p) h = Some (n, s)"
proof (induction hs arbitrary: p)
  case (Cons x hs)
  show ?case
  proof (cases "x = h")
    case True
    then show ?thesis using Cons.prems regs_keep [of "reg h n s p" h n s hs] by (simp add: reg_ok)
  next
    case False
    then show ?thesis using Cons by simp
  qed
qed simp

lemma unreg_keeps: "leads_to p h = None \<Longrightarrow> leads_to (unreg h' p) h = None"
  by (simp add: unreg)

lemma replace: "ok h n \<Longrightarrow> norm h' \<noteq> norm h \<Longrightarrow> leads_to (unreg h' (reg h n s p)) h = Some (n, s)"
  by (simp add: unreg reg_ok)

end

end
