(* ===== verification/Proxy_Hosts.thy ===== *)
theory Proxy_Hosts
  imports Go_Strconv Host_Registry
begin

text \<open>
  The reverse proxy in front of the deployments (\<^verbatim>\<open>components/proxy\<close>: \<^verbatim>\<open>hosts.go\<close>, \<^verbatim>\<open>proxy.go\<close>,
  \<^verbatim>\<open>securityheaders.go\<close>): the table of hosts, the policies of sites, and the chain of middleware that decides
  what happens to a request.

  A middleware takes the handler behind it, as in the source. An answer says what the chain decided; what
  happens after a request is handed to the mux or to a backend is not modelled. JSON decoding, the rows of
  the sites table as a request sees them, the validators and the random request id are inputs. Header names
  are in canonical form; one value per header is kept.
\<close>

section \<open>State\<close>

record AuthPolicy =
  ap_Default :: string
  ap_ProtectedPaths :: "string list"
  ap_PublicPaths :: "string list"
  ap_Accept :: "string list"

record hostInfo =
  hi_Port :: int
  hi_SiteID :: string
  hi_PassthroughPaths :: "string list"
  hi_Metadata :: "(string, string) go_map"
  hi_AuthPolicy :: "AuthPolicy option"
  hi_CSPPolicy :: string

record Proxy =
  deployHosts :: "(string, hostInfo) go_map"
  serviceHosts :: "(string, int) go_map"
  authPolicies :: "(string, AuthPolicy) go_map"
  cspPolicies :: "(string, string) go_map"

type_synonym headers = "(string, string) go_map"

text \<open>\<open>site_row\<close> is the result of reading the policy columns of a site: \<open>None\<close> for no database, no row or an error.\<close>

record proxy_env =
  site_row :: "string \<Rightarrow> (string \<times> string) option"
  dec_policy :: "string \<Rightarrow> AuthPolicy option"
  dec_csp :: "string \<Rightarrow> string option"
  validateToken :: "(string \<Rightarrow> (string, int) res) option"
  validateSiteKey :: "(string \<Rightarrow> string \<Rightarrow> string option) option"
  fresh_rid :: string

record proxy_cfg =
  httpsPort :: string
  corsAllowedOrigins :: "string list"

record http_request =
  rq_method :: string
  rq_host :: string
  rq_path :: string
  rq_uri :: string
  rq_tls :: bool
  rq_hdr :: headers
  rq_cookie :: "string option"

datatype answer =
    Mux http_request
  | Reply nat string
  | Redirect nat string
  | ToService int http_request
  | ToDeployment int http_request hostInfo

type_synonym handler = "http_request \<Rightarrow> headers \<Rightarrow> Proxy \<Rightarrow> answer \<times> headers \<times> Proxy"

definition Get :: "headers \<Rightarrow> string \<Rightarrow> string" where
  "Get h k = (case map_of h k of None \<Rightarrow> [] | Some v \<Rightarrow> v)"

section \<open>Host names\<close>

definition normalizeHost :: "string \<Rightarrow> string" where
  "normalizeHost host = (let h = ToLower (TrimSpace host) in
     case IndexByte h (CHR '':'') of Some i \<Rightarrow> take i h | None \<Rightarrow> h)"

definition loopbackHosts :: "string list" where
  "loopbackHosts = [''localhost'', ''127.0.0.1'', ''::1'']"

definition allowedHosts :: "string list" where
  "allowedHosts = [''mcp.bigbase.click'']"

definition defaultServiceHosts :: "(string, int) go_map" where
  "defaultServiceHosts = [(''mcp.bigbase.click'', 3900)]"

definition serviceExcludePaths :: "string list" where
  "serviceExcludePaths = [''/.well-known/mcp.json'']"

text \<open>\<^verbatim>\<open>net.ParseIP\<close> on a name without colons: four decimal fields up to 255 without leading zeros.\<close>

definition ipv4_field :: "string \<Rightarrow> bool" where
  "ipv4_field s = (s \<noteq> [] \<and> length s \<le> 3 \<and> list_all is_digit s \<and> (length s = 1 \<or> hd s \<noteq> CHR ''0'') \<and> digits_val s \<le> 255)"

definition is_IP :: "string \<Rightarrow> bool" where
  "is_IP host = (let fs = Split host (CHR ''.'') in length fs = 4 \<and> list_all ipv4_field fs)"

section \<open>Policies of sites\<close>

definition getSiteAuthPolicy :: "proxy_env \<Rightarrow> string \<Rightarrow> Proxy \<Rightarrow> AuthPolicy option \<times> Proxy" where
  "getSiteAuthPolicy e siteID p = (case map_of (authPolicies p) siteID of
     Some pol \<Rightarrow> (Some pol, p)
   | None \<Rightarrow> (case site_row e siteID of
         None \<Rightarrow> (None, p)
       | Some (policyStr, _) \<Rightarrow> if policyStr = [] then (None, p)
           else (case dec_policy e policyStr of
               None \<Rightarrow> (None, p)
             | Some pol \<Rightarrow> (Some pol, p\<lparr> authPolicies := map_put siteID pol (authPolicies p) \<rparr>))))"

definition SetSiteAuthPolicy :: "proxy_env \<Rightarrow> string \<Rightarrow> string \<Rightarrow> Proxy \<Rightarrow> Proxy" where
  "SetSiteAuthPolicy e siteID policyJSON p =
     (if policyJSON = [] \<or> policyJSON = ''{}'' then p\<lparr> authPolicies := map_del siteID (authPolicies p) \<rparr>
      else (case dec_policy e policyJSON of
          None \<Rightarrow> p | Some pol \<Rightarrow> p\<lparr> authPolicies := map_put siteID pol (authPolicies p) \<rparr>))"

definition getSiteCSP :: "proxy_env \<Rightarrow> string \<Rightarrow> Proxy \<Rightarrow> string \<times> Proxy" where
  "getSiteCSP e siteID p = (case map_of (cspPolicies p) siteID of
     Some csp \<Rightarrow> (csp, p)
   | None \<Rightarrow> (case site_row e siteID of
         None \<Rightarrow> ([], p)
       | Some (_, ddStr) \<Rightarrow> if ddStr = [] \<or> ddStr = ''{}'' then ([], p)
           else (case dec_csp e ddStr of
               None \<Rightarrow> ([], p)
             | Some csp \<Rightarrow> if csp = [] then ([], p) else (csp, p\<lparr> cspPolicies := map_put siteID csp (cspPolicies p) \<rparr>))))"

definition SetSiteCSP :: "string \<Rightarrow> string \<Rightarrow> Proxy \<Rightarrow> Proxy" where
  "SetSiteCSP siteID csp p = (if csp = [] then p\<lparr> cspPolicies := map_del siteID (cspPolicies p) \<rparr>
     else p\<lparr> cspPolicies := map_put siteID csp (cspPolicies p) \<rparr>)"

section \<open>The table of hosts\<close>

text \<open>A failed read leaves both columns empty.\<close>

definition RegisterDeploymentHost :: "proxy_env \<Rightarrow> string \<Rightarrow> int \<Rightarrow> string \<Rightarrow> string list \<Rightarrow> (string, string) go_map \<Rightarrow> Proxy \<Rightarrow> bool \<times> Proxy" where
  "RegisterDeploymentHost e host0 port siteID passthroughPaths metadata p =
     (let host = normalizeHost host0 in
      if host = [] \<or> port < 1 \<or> port > 65535 then (False, p)
      else if host \<in> set loopbackHosts \<or> is_IP host then (False, p)
      else
        (let (policyStr, ddStr) = (case site_row e siteID of None \<Rightarrow> ([], []) | Some x \<Rightarrow> x);
             policy = (if policyStr = [] then None else dec_policy e policyStr);
             csp = (if ddStr = [] \<or> ddStr = ''{}'' then [] else (case dec_csp e ddStr of None \<Rightarrow> [] | Some c \<Rightarrow> c));
             p1 = (case policy of None \<Rightarrow> p | Some pol \<Rightarrow> p\<lparr> authPolicies := map_put siteID pol (authPolicies p) \<rparr>);
             p2 = (if csp = [] then p1 else p1\<lparr> cspPolicies := map_put siteID csp (cspPolicies p1) \<rparr>)
         in (True, p2\<lparr> deployHosts := map_put host \<lparr> hi_Port = port, hi_SiteID = siteID, hi_PassthroughPaths = passthroughPaths,
               hi_Metadata = metadata, hi_AuthPolicy = policy, hi_CSPPolicy = csp \<rparr> (deployHosts p2) \<rparr>)))"

definition UnregisterDeploymentHost :: "string \<Rightarrow> Proxy \<Rightarrow> Proxy" where
  "UnregisterDeploymentHost host p = p\<lparr> deployHosts := map_del (normalizeHost host) (deployHosts p) \<rparr>"

definition isDeploymentHostRegistered :: "string \<Rightarrow> Proxy \<Rightarrow> bool" where
  "isDeploymentHostRegistered host p = (map_of (deployHosts p) (normalizeHost host) \<noteq> None)"

definition GetDeploymentHostInfo :: "string \<Rightarrow> Proxy \<Rightarrow> hostInfo option" where
  "GetDeploymentHostInfo host p = map_of (deployHosts p) (normalizeHost host)"

definition AddServiceHost :: "string \<Rightarrow> int \<Rightarrow> Proxy \<Rightarrow> Proxy" where
  "AddServiceHost host port p = p\<lparr> serviceHosts := map_put (normalizeHost host) port (serviceHosts p) \<rparr>"

definition RemoveServiceHost :: "string \<Rightarrow> Proxy \<Rightarrow> Proxy" where
  "RemoveServiceHost host p = p\<lparr> serviceHosts := map_del (normalizeHost host) (serviceHosts p) \<rparr>"

text \<open>What \<^verbatim>\<open>Start\<close> does to the state: the default services are added where a name is free.\<close>

definition seed_service_hosts :: "Proxy \<Rightarrow> Proxy" where
  "seed_service_hosts p = fold (\<lambda>(h, port) p. if map_of (serviceHosts p) h = None then p\<lparr> serviceHosts := map_put h port (serviceHosts p) \<rparr> else p) defaultServiceHosts p"

section \<open>Certificates\<close>

definition handleCaddyAllow :: "string \<Rightarrow> string \<Rightarrow> Proxy \<Rightarrow> nat" where
  "handleCaddyAllow meth asked p =
     (if meth \<noteq> ''GET'' then 405
      else let domain = normalizeHost asked in
        if domain = [] then 400
        else if domain \<in> set allowedHosts then 200
        else if isDeploymentHostRegistered domain p then 200 else 403)"

definition acmeHostPolicy :: "string \<Rightarrow> Proxy \<Rightarrow> bool" where
  "acmeHostPolicy host0 p = (let host = normalizeHost host0 in
     if host = [] then False
     else if host \<in> set loopbackHosts \<or> is_IP host then False
     else if host \<in> set allowedHosts then True
     else isDeploymentHostRegistered host p)"

section \<open>Paths\<close>

definition matchPath :: "string \<Rightarrow> string \<Rightarrow> bool" where
  "matchPath pattern path = (if HasSuffix pattern ''/*'' then HasPrefix path (TrimSuffix pattern ''/*'') else pattern = path)"

definition isPathProtected :: "AuthPolicy \<Rightarrow> string \<Rightarrow> bool" where
  "isPathProtected pol path =
     (if \<exists>q \<in> set (ap_PublicPaths pol). matchPath q path then False
      else if \<exists>q \<in> set (ap_ProtectedPaths pol). matchPath q path then True
      else ap_Default pol = ''protected'')"

definition is_passthrough :: "hostInfo \<Rightarrow> string \<Rightarrow> bool" where
  "is_passthrough info path = (\<exists>pp \<in> set (hi_PassthroughPaths info). HasPrefix path (TrimSuffix pp ''/*''))"

section \<open>Credentials\<close>

definition proxy_token :: "http_request \<Rightarrow> string" where
  "proxy_token r = (let authHeader = Get (rq_hdr r) ''Authorization'' in
     if HasPrefix (ToLower authHeader) ''bearer '' then drop 7 authHeader
     else (case rq_cookie r of Some c \<Rightarrow> c | None \<Rightarrow> []))"

definition accepts :: "AuthPolicy \<Rightarrow> string \<Rightarrow> bool" where
  "accepts pol kind = (if ap_Accept pol = [] then kind = ''jwt'' else kind \<in> set (ap_Accept pol))"

text \<open>A protected path: the user id of the request (0 for a key), or the error the response carries, empty when there is none.\<close>

definition protected_auth :: "proxy_env \<Rightarrow> AuthPolicy \<Rightarrow> string \<Rightarrow> string \<Rightarrow> (string, int) res" where
  "protected_auth e pol siteID token =
     (if token = [] then Inl []
      else if accepts pol ''site_key'' \<and> HasPrefix token ''bb_dep_'' then
        (case validateSiteKey e of
           None \<Rightarrow> Inl [] | Some f \<Rightarrow> (case f siteID token of None \<Rightarrow> Inr 0 | Some er \<Rightarrow> Inl er))
      else if accepts pol ''jwt'' \<and> \<not> HasPrefix token ''bb_dep_'' then
        (case validateToken e of
           None \<Rightarrow> Inl [] | Some f \<Rightarrow> (case f token of Inr uid \<Rightarrow> Inr uid | Inl er \<Rightarrow> Inl er))
      else Inl [])"

text \<open>A public path: a token is looked at but never required.\<close>

definition public_user :: "proxy_env \<Rightarrow> string \<Rightarrow> int" where
  "public_user e token = (if token = [] \<or> HasPrefix token ''bb_dep_'' then 0
     else (case validateToken e of None \<Rightarrow> 0 | Some f \<Rightarrow> (case f token of Inr uid \<Rightarrow> uid | Inl _ \<Rightarrow> 0)))"

section \<open>Middleware\<close>

abbreviation UserHdr :: string where "UserHdr \<equiv> ''X-Bigbase-User-Id''"
abbreviation SiteHdr :: string where "SiteHdr \<equiv> ''X-Bigbase-Site-Id''"

definition drop_identity :: "headers \<Rightarrow> headers" where
  "drop_identity h = map_del SiteHdr (map_del UserHdr h)"

text \<open>Handing a request to its deployment: the site's own content policy, and the headers the rewrite sets.\<close>

definition forward :: "proxy_env \<Rightarrow> hostInfo \<Rightarrow> int \<Rightarrow> handler" where
  "forward e info userID r w p = (case getSiteCSP e (hi_SiteID info) p of
     (csp, p1) \<Rightarrow>
       (let w1 = (if csp = [] then w else map_put ''Content-Security-Policy'' csp w);
            h = map_put SiteHdr (hi_SiteID info) (drop_identity (rq_hdr r));
            h1 = (if userID > 0 then map_put UserHdr (Itoa (nat userID)) h else h)
        in (ToDeployment (hi_Port info) (r\<lparr> rq_hdr := h1 \<rparr>) info, w1, p1)))"

definition unauthorized :: "string \<Rightarrow> string" where
  "unauthorized er = (if er = [] then ''unauthorized'' else ''unauthorized: '' @ er)"

definition serve_deployment :: "proxy_env \<Rightarrow> hostInfo \<Rightarrow> handler" where
  "serve_deployment e info r0 w p = (case getSiteAuthPolicy e (hi_SiteID info) p of
     (policy, p1) \<Rightarrow>
       (let r = r0\<lparr> rq_hdr := drop_identity (rq_hdr r0) \<rparr> in
        case policy of
          None \<Rightarrow> forward e info 0 r w p1
        | Some pol \<Rightarrow>
            if isPathProtected pol (rq_path r) then
              (case protected_auth e pol (hi_SiteID info) (proxy_token r) of
                 Inl er \<Rightarrow> (Reply 401 (unauthorized er), map_put ''Content-Type'' ''application/json'' w, p1)
               | Inr uid \<Rightarrow> forward e info uid r w p1)
            else forward e info (public_user e (proxy_token r)) r w p1))"

definition deploymentHostMiddleware :: "proxy_env \<Rightarrow> handler \<Rightarrow> handler" where
  "deploymentHostMiddleware e next r w p = (let host = normalizeHost (rq_host r) in
     if host \<in> set loopbackHosts then next r w p
     else if is_IP host then next r w p
     else (case map_of (serviceHosts p) host of
         Some backendPort \<Rightarrow> if rq_path r \<in> set serviceExcludePaths then next r w p else (ToService backendPort r, w, p)
       | None \<Rightarrow> (case GetDeploymentHostInfo host p of
             None \<Rightarrow> next r w p
           | Some info \<Rightarrow> if \<not> is_passthrough info (rq_path r) \<and> HasPrefix (rq_path r) ''/api/'' then next r w p
               else serve_deployment e info r w p)))"

definition gitPathBlockMiddleware :: "handler \<Rightarrow> handler" where
  "gitPathBlockMiddleware next r w p = (let lowerPath = ToLower (rq_path r) in
     if Contains lowerPath ''/.git'' \<or> Contains lowerPath (CHR 0x5C # ''.git'') then (Reply 404 ''404 page not found'', w, p) else next r w p)"

definition requestIDMiddleware :: "proxy_env \<Rightarrow> handler \<Rightarrow> handler" where
  "requestIDMiddleware e next r w p =
     (let rid = (if Get (rq_hdr r) ''X-Request-Id'' = [] then fresh_rid e else Get (rq_hdr r) ''X-Request-Id'') in
      next r (map_put ''X-Request-Id'' rid w) p)"

abbreviation strictCSP :: string where
  "strictCSP \<equiv> ''default-src 'self'; script-src 'self'; connect-src 'self'; frame-ancestors 'none'' @ [CHR 0x27]"

abbreviation permissiveCSP :: string where
  "permissiveCSP \<equiv> ''default-src 'self'; script-src 'self' 'unsafe-inline' https://cdn.tailwindcss.com https://unpkg.com; connect-src 'self'; style-src 'self' 'unsafe-inline' https://fonts.googleapis.com https://cdn.jsdelivr.net https://cdnjs.cloudflare.com; font-src 'self' https://fonts.gstatic.com https://cdnjs.cloudflare.com https://cdn.jsdelivr.net; frame-ancestors 'none'' @ [CHR 0x27]"

abbreviation restrictivePermissionsPolicy :: string where
  "restrictivePermissionsPolicy \<equiv> ''accelerometer=(), camera=(), geolocation=(), gyroscope=(), magnetometer=(), microphone=(), payment=(), usb=()''"

definition security_headers :: "string \<Rightarrow> headers \<Rightarrow> headers" where
  "security_headers path w =
     (let w1 = (if HasPrefix path ''/api/'' then w else map_put ''Content-Security-Policy'' (if path = ''/health'' then strictCSP else permissiveCSP) w);
          w2 = map_put ''Strict-Transport-Security'' ''max-age=63072000; includeSubDomains'' w1;
          w3 = map_put ''X-Frame-Options'' ''DENY'' w2;
          w4 = map_put ''X-Content-Type-Options'' ''nosniff'' w3;
          w5 = map_put ''Referrer-Policy'' ''strict-origin-when-cross-origin'' w4;
          w6 = map_put ''Permissions-Policy'' restrictivePermissionsPolicy w5
      in if HasPrefix path ''/api/'' \<or> path = ''/health'' then map_put ''Cache-Control'' ''no-store, no-cache, must-revalidate'' w6 else w6)"

definition securityHeadersMiddleware :: "handler \<Rightarrow> handler" where
  "securityHeadersMiddleware next r w p = next r (security_headers (rq_path r) w) p"

definition httpsRedirectMiddleware :: "proxy_cfg \<Rightarrow> handler \<Rightarrow> handler" where
  "httpsRedirectMiddleware c next r w p = (let host = normalizeHost (rq_host r) in
     if httpsPort c \<noteq> [] \<and> host \<noteq> [] \<and> host \<notin> set loopbackHosts \<and> \<not> is_IP host \<and> isDeploymentHostRegistered host p
     then (Redirect 301 (''https://'' @ host @ rq_uri r), w, p)
     else next r w p)"

definition authSameOrigin :: "http_request \<Rightarrow> string \<Rightarrow> bool" where
  "authSameOrigin r origin =
     (let scheme = (if rq_tls r \<or> ToLower (Get (rq_hdr r) ''X-Forwarded-Proto'') = ''https'' then ''https'' else ''http'')
      in origin = scheme @ ''://'' @ rq_host r)"

definition cors_headers :: "string \<Rightarrow> headers \<Rightarrow> headers" where
  "cors_headers origin w = map_put ''Vary'' ''Origin'' (map_put ''Access-Control-Allow-Credentials'' ''true'' (map_put ''Access-Control-Allow-Origin'' origin w))"

definition preflight_headers :: "string \<Rightarrow> headers \<Rightarrow> headers" where
  "preflight_headers origin w =
     map_put ''Vary'' ''Origin'' (map_put ''Access-Control-Max-Age'' ''86400''
       (map_put ''Access-Control-Allow-Headers'' ''Authorization, Content-Type''
         (map_put ''Access-Control-Allow-Methods'' ''GET, POST, PUT, PATCH, DELETE, OPTIONS''
           (map_put ''Access-Control-Allow-Credentials'' ''true'' (map_put ''Access-Control-Allow-Origin'' origin w)))))"

definition deny_origin :: handler where
  "deny_origin r w p = (Reply 403 ''origin not allowed'', map_put ''Content-Type'' ''application/json'' w, p)"

definition corsMiddleware :: "proxy_cfg \<Rightarrow> handler \<Rightarrow> handler" where
  "corsMiddleware c next r w p = (let origin = Get (rq_hdr r) ''Origin'' in
     if origin = [] then next r w p
     else if corsAllowedOrigins c = [] then (if \<not> authSameOrigin r origin then deny_origin r w p else next r w p)
     else if origin \<notin> set (corsAllowedOrigins c) then deny_origin r w p
     else if rq_method r = ''OPTIONS'' then (Reply 204 [], preflight_headers origin w, p)
     else next r (cors_headers origin w) p)"

text \<open>The whole chain; \<open>serve_mux\<close> is where the mux takes over.\<close>

definition serve_mux :: handler where
  "serve_mux r w p = (Mux r, w, p)"

definition Handler :: "proxy_cfg \<Rightarrow> proxy_env \<Rightarrow> handler" where
  "Handler c e = corsMiddleware c (httpsRedirectMiddleware c (securityHeadersMiddleware (requestIDMiddleware e
     (gitPathBlockMiddleware (deploymentHostMiddleware e serve_mux)))))"

section \<open>The table stays well-formed\<close>

datatype host_op =
    HRegister proxy_env string int string "string list" "(string, string) go_map"
  | HUnregister string
  | HAddService string int
  | HRemoveService string
  | HSetPolicy proxy_env string string
  | HSetCSP string string
  | HRequest proxy_cfg proxy_env http_request headers

fun host_step :: "Proxy \<Rightarrow> host_op \<Rightarrow> Proxy" where
  "host_step p (HRegister e h n sid pp md) = snd (RegisterDeploymentHost e h n sid pp md p)"
| "host_step p (HUnregister h) = UnregisterDeploymentHost h p"
| "host_step p (HAddService h n) = AddServiceHost h n p"
| "host_step p (HRemoveService h) = RemoveServiceHost h p"
| "host_step p (HSetPolicy e sid j) = SetSiteAuthPolicy e sid j p"
| "host_step p (HSetCSP sid s) = SetSiteCSP sid s p"
| "host_step p (HRequest c e r w) = snd (snd (Handler c e r w p))"

definition good_host :: "string \<times> hostInfo \<Rightarrow> bool" where
  "good_host x = (case x of (h, info) \<Rightarrow> h \<noteq> [] \<and> CHR '':'' \<notin> set h \<and> h \<notin> set loopbackHosts \<and> \<not> is_IP h \<and> 1 \<le> hi_Port info \<and> hi_Port info \<le> 65535)"

definition hosts_ok :: "Proxy \<Rightarrow> bool" where
  "hosts_ok p = (wf_map (deployHosts p) \<and> list_all good_host (deployHosts p))"

lemma normalizeHost_no_colon: "CHR '':'' \<notin> set (normalizeHost h)"
  by (auto simp: normalizeHost_def Let_def IndexByte_None_iff dest: IndexByte_Some split: option.split)

lemma getSiteAuthPolicy_hosts [simp]:
  "deployHosts (snd (getSiteAuthPolicy e sid p)) = deployHosts p" "serviceHosts (snd (getSiteAuthPolicy e sid p)) = serviceHosts p"
  by (auto simp: getSiteAuthPolicy_def split: option.split prod.split)

lemma getSiteCSP_hosts [simp]:
  "deployHosts (snd (getSiteCSP e sid p)) = deployHosts p" "serviceHosts (snd (getSiteCSP e sid p)) = serviceHosts p"
  by (auto simp: getSiteCSP_def split: option.split prod.split)

lemma forward_hosts [simp]: "deployHosts (snd (snd (forward e info uid r w p))) = deployHosts p"
  by (simp add: forward_def Let_def case_prod_beta)

lemma serve_deployment_hosts [simp]: "deployHosts (snd (snd (serve_deployment e info r w p))) = deployHosts p"
  by (simp add: serve_deployment_def Let_def case_prod_beta split: option.split sum.split)

definition keeps_hosts :: "handler \<Rightarrow> bool" where
  "keeps_hosts f = (\<forall>r w p. deployHosts (snd (snd (f r w p))) = deployHosts p)"

lemma keeps_mux: "keeps_hosts serve_mux"
  by (simp add: keeps_hosts_def serve_mux_def)

lemma keeps_deploymentHost: "keeps_hosts f \<Longrightarrow> keeps_hosts (deploymentHostMiddleware e f)"
  by (simp add: keeps_hosts_def deploymentHostMiddleware_def Let_def split: option.split)

lemma keeps_outer:
  assumes "keeps_hosts f"
  shows "keeps_hosts (gitPathBlockMiddleware f)" "keeps_hosts (requestIDMiddleware e f)" "keeps_hosts (securityHeadersMiddleware f)"
    "keeps_hosts (httpsRedirectMiddleware c f)" "keeps_hosts (corsMiddleware c f)"
proof -
  have f: "deployHosts (snd (snd (f r w p))) = deployHosts p" for r w p using assms by (simp add: keeps_hosts_def)
  show "keeps_hosts (gitPathBlockMiddleware f)" unfolding keeps_hosts_def gitPathBlockMiddleware_def Let_def using f by simp
  show "keeps_hosts (requestIDMiddleware e f)" unfolding keeps_hosts_def requestIDMiddleware_def Let_def using f by blast
  show "keeps_hosts (securityHeadersMiddleware f)" unfolding keeps_hosts_def securityHeadersMiddleware_def using f by blast
  show "keeps_hosts (httpsRedirectMiddleware c f)" unfolding keeps_hosts_def httpsRedirectMiddleware_def Let_def using f by simp
  show "keeps_hosts (corsMiddleware c f)" unfolding keeps_hosts_def corsMiddleware_def deny_origin_def Let_def using f by simp
qed

lemma Handler_hosts: "deployHosts (snd (snd (Handler c e r w p))) = deployHosts p"
proof -
  have "keeps_hosts (Handler c e)" unfolding Handler_def by (intro keeps_outer keeps_deploymentHost keeps_mux)
  then show ?thesis by (simp add: keeps_hosts_def)
qed

lemma hosts_ok_cong: "deployHosts p' = deployHosts p \<Longrightarrow> hosts_ok p' = hosts_ok p"
  by (simp add: hosts_ok_def)

lemma RegisterDeploymentHost_table:
  "deployHosts (snd (RegisterDeploymentHost e h n sid pp md p)) = deployHosts p \<or>
   (\<exists>info. deployHosts (snd (RegisterDeploymentHost e h n sid pp md p)) = map_put (normalizeHost h) info (deployHosts p) \<and> good_host (normalizeHost h, info))"
  using normalizeHost_no_colon [of h]
  by (auto simp: RegisterDeploymentHost_def Let_def good_host_def split: prod.split option.split)

lemma list_all_map_put: "list_all P m \<Longrightarrow> P (k, v) \<Longrightarrow> list_all P (map_put k v m)"
  using set_map_put [of k v m] by (auto simp: list_all_iff)

lemma host_step_ok: "hosts_ok p \<Longrightarrow> hosts_ok (host_step p op)"
proof (cases op)
  case (HRegister e h n sid pp md)
  assume ok: "hosts_ok p"
  from RegisterDeploymentHost_table [of e h n sid pp md p] show ?thesis
  proof
    assume "\<exists>info. deployHosts (snd (RegisterDeploymentHost e h n sid pp md p)) = map_put (normalizeHost h) info (deployHosts p) \<and> good_host (normalizeHost h, info)"
    then show ?thesis using ok HRegister by (auto simp: hosts_ok_def intro: list_all_map_put wf_map_put)
  qed (use ok HRegister in \<open>simp add: hosts_ok_def\<close>)
next
  case (HUnregister h)
  assume "hosts_ok p"
  then show ?thesis using HUnregister by (simp add: hosts_ok_def UnregisterDeploymentHost_def wf_map_del) (auto simp: list_all_iff map_del_def)
qed (auto simp: hosts_ok_def AddServiceHost_def RemoveServiceHost_def SetSiteAuthPolicy_def SetSiteCSP_def Handler_hosts split: option.split)

text \<open>
  Whatever is registered, removed, configured or requested, the table of deployment hosts names each
  host once, never the empty name, a loopback name or an IP address, and only ports from 1 to 65535.
\<close>

lemma hosts_stay_well_formed:
  assumes "hosts_ok p"
  shows "hosts_ok (foldl host_step p ops)"
  using assms by (induction ops arbitrary: p) (auto intro: host_step_ok)

definition no_hosts :: Proxy where
  "no_hosts = \<lparr> deployHosts = [], serviceHosts = [], authPolicies = [], cspPolicies = [] \<rparr>"

theorem hosts_stay_well_formed_witness:
  "hosts_ok (foldl host_step no_hosts [HAddService ''mcp.example'' 3900, HUnregister ''app.example''])"
  by (rule hosts_stay_well_formed) (simp add: hosts_ok_def no_hosts_def)

section \<open>The contract with the deployment engine\<close>

definition routable :: "string \<Rightarrow> int \<Rightarrow> bool" where
  "routable host port = (normalizeHost host \<noteq> [] \<and> normalizeHost host \<notin> set loopbackHosts \<and> \<not> is_IP (normalizeHost host) \<and> 1 \<le> port \<and> port \<le> 65535)"

definition host_target :: "Proxy \<Rightarrow> string \<Rightarrow> (int \<times> string) option" where
  "host_target p host = map_option (\<lambda>info. (hi_Port info, hi_SiteID info)) (map_of (deployHosts p) (normalizeHost host))"

interpretation host_table: host_registry "\<lambda>h n s p. snd (RegisterDeploymentHost e h n s pp md p)" UnregisterDeploymentHost host_target normalizeHost routable for e pp md
proof
  fix h n s p h'
  show "routable h n \<Longrightarrow> host_target (snd (RegisterDeploymentHost e h n s pp md p)) h' = (if normalizeHost h' = normalizeHost h then Some (n, s) else host_target p h')"
    by (auto simp: RegisterDeploymentHost_def routable_def host_target_def Let_def split: option.split prod.split)
  show "\<not> routable h n \<Longrightarrow> host_target (snd (RegisterDeploymentHost e h n s pp md p)) h' = host_target p h'"
    by (auto simp: RegisterDeploymentHost_def routable_def Let_def split: prod.split)
  show "host_target (UnregisterDeploymentHost h p) h' = (if normalizeHost h' = normalizeHost h then None else host_target p h')"
    by (simp add: UnregisterDeploymentHost_def host_target_def)
qed

end
