(* ===== verification/Proxy_Gate.thy ===== *)
theory Proxy_Gate
  imports Proxy_Hosts
begin

text \<open>
  What the chain of middleware guarantees to a deployment: it gets a request only for its own host, past
  the policy of its site, and with identity headers that the proxy and not the client wrote.
\<close>

section \<open>Through the chain\<close>

lemma corsMiddleware_to:
  assumes "fst (corsMiddleware c f r w p) = ToDeployment n out info"
  shows "\<exists>w'. fst (f r w' p) = ToDeployment n out info"
  using assms unfolding corsMiddleware_def deny_origin_def Let_def by (auto split: if_splits)

lemma httpsRedirectMiddleware_to:
  assumes "fst (httpsRedirectMiddleware c f r w p) = ToDeployment n out info"
  shows "fst (f r w p) = ToDeployment n out info \<and> \<not> (httpsPort c \<noteq> [] \<and> normalizeHost (rq_host r) \<noteq> [] \<and> normalizeHost (rq_host r) \<notin> set loopbackHosts
    \<and> \<not> is_IP (normalizeHost (rq_host r)) \<and> isDeploymentHostRegistered (normalizeHost (rq_host r)) p)"
  using assms unfolding httpsRedirectMiddleware_def Let_def by (auto split: if_splits)

lemma gitPathBlockMiddleware_to:
  assumes "fst (gitPathBlockMiddleware f r w p) = ToDeployment n out info"
  shows "fst (f r w p) = ToDeployment n out info \<and> \<not> Contains (ToLower (rq_path r)) ''/.git''"
  using assms unfolding gitPathBlockMiddleware_def Let_def by (auto split: if_splits)

lemma deploymentHostMiddleware_to:
  assumes "fst (deploymentHostMiddleware e serve_mux r w p) = ToDeployment n out info"
  shows "normalizeHost (rq_host r) \<notin> set loopbackHosts \<and> \<not> is_IP (normalizeHost (rq_host r)) \<and> map_of (serviceHosts p) (normalizeHost (rq_host r)) = None
    \<and> (\<exists>info'. GetDeploymentHostInfo (normalizeHost (rq_host r)) p = Some info' \<and> fst (serve_deployment e info' r w p) = ToDeployment n out info
         \<and> (HasPrefix (rq_path r) ''/api/'' \<longrightarrow> is_passthrough info' (rq_path r)))"
  using assms unfolding deploymentHostMiddleware_def serve_mux_def Let_def by (auto split: if_splits option.splits)

text \<open>A credential the policy of a site admits.\<close>

definition admitted :: "proxy_env \<Rightarrow> AuthPolicy \<Rightarrow> string \<Rightarrow> string \<Rightarrow> bool" where
  "admitted e pol siteID token =
     (token \<noteq> [] \<and> (if HasPrefix token ''bb_dep_'' then accepts pol ''site_key'' \<and> (\<exists>f. validateSiteKey e = Some f \<and> f siteID token = None)
        else accepts pol ''jwt'' \<and> (\<exists>f uid. validateToken e = Some f \<and> f token = Inr uid)))"

lemma protected_auth_admits: "protected_auth e pol sid tok = Inr uid \<Longrightarrow>
    admitted e pol sid tok \<and> (uid > 0 \<longrightarrow> (\<exists>f. validateToken e = Some f \<and> f tok = Inr uid))"
  by (auto simp: protected_auth_def admitted_def split: if_splits option.splits sum.splits)

lemma public_user_validated: "public_user e tok > 0 \<Longrightarrow> \<exists>f. validateToken e = Some f \<and> f tok = Inr (public_user e tok)"
  by (auto simp: public_user_def split: if_splits option.splits sum.splits)

lemma map_of_identity: "map_of (drop_identity h) UserHdr = None" "map_of (drop_identity h) SiteHdr = None"
  by (simp_all add: drop_identity_def map_of_del)

lemma drop_identity_other: "k \<noteq> UserHdr \<Longrightarrow> k \<noteq> SiteHdr \<Longrightarrow> map_of (drop_identity h) k = map_of h k"
  by (simp add: drop_identity_def map_of_del)

lemma proxy_token_clean: "proxy_token (r\<lparr> rq_hdr := drop_identity (rq_hdr r) \<rparr>) = proxy_token r"
  by (simp add: proxy_token_def Get_def drop_identity_other Let_def)

lemma forward_to:
  assumes "fst (forward e info' uid r w p) = ToDeployment n out info"
  shows "info = info' \<and> n = hi_Port info \<and> map_of (rq_hdr out) SiteHdr = Some (hi_SiteID info)
    \<and> map_of (rq_hdr out) UserHdr = (if uid > 0 then Some (Itoa (nat uid)) else None) \<and> rq_path out = rq_path r"
  using assms by (auto simp: forward_def Let_def map_of_put map_of_identity split: prod.splits if_splits)

text \<open>What a deployment may rely on when it gets a request.\<close>

definition sound_forward :: "proxy_env \<Rightarrow> hostInfo \<Rightarrow> http_request \<Rightarrow> Proxy \<Rightarrow> http_request \<Rightarrow> bool" where
  "sound_forward e info r p out =
     (map_of (rq_hdr out) SiteHdr = Some (hi_SiteID info)
      \<and> (case map_of (rq_hdr out) UserHdr of None \<Rightarrow> True
         | Some u \<Rightarrow> \<exists>f uid. validateToken e = Some f \<and> f (proxy_token r) = Inr uid \<and> uid > 0 \<and> u = Itoa (nat uid))
      \<and> (case fst (getSiteAuthPolicy e (hi_SiteID info) p) of None \<Rightarrow> True
         | Some pol \<Rightarrow> isPathProtected pol (rq_path r) \<longrightarrow> admitted e pol (hi_SiteID info) (proxy_token r)))"

lemma serve_deployment_to:
  assumes "fst (serve_deployment e info' r w p) = ToDeployment n out info"
  shows "info = info' \<and> n = hi_Port info \<and> rq_path out = rq_path r \<and> sound_forward e info r p out"
proof -
  let ?r = "r\<lparr> rq_hdr := drop_identity (rq_hdr r) \<rparr>"
  obtain policy p1 where g: "getSiteAuthPolicy e (hi_SiteID info') p = (policy, p1)" by force
  show ?thesis
  proof (cases policy)
    case None
    with assms g have "fst (forward e info' 0 ?r w p1) = ToDeployment n out info" by (simp add: serve_deployment_def)
    from forward_to [OF this] g None show ?thesis by (simp add: sound_forward_def)
  next
    case (Some pol)
    show ?thesis
    proof (cases "isPathProtected pol (rq_path r)")
      case True
      with assms g Some obtain uid where u: "protected_auth e pol (hi_SiteID info') (proxy_token r) = Inr uid" "fst (forward e info' uid ?r w p1) = ToDeployment n out info"
        by (auto simp: serve_deployment_def proxy_token_clean split: sum.splits)
      from forward_to [OF u(2)] protected_auth_admits [OF u(1)] g Some show ?thesis by (auto simp: sound_forward_def)
    next
      case False
      with assms g Some have "fst (forward e info' (public_user e (proxy_token r)) ?r w p1) = ToDeployment n out info"
        by (simp add: serve_deployment_def proxy_token_clean)
      from forward_to [OF this] public_user_validated [of e "proxy_token r"] g Some False show ?thesis by (auto simp: sound_forward_def)
    qed
  qed
qed

text \<open>
  C8. A request that reaches a deployment through the whole chain came for a host registered to that
  deployment (never a loopback name, an IP address or a service host) and not for a path with
  \<^verbatim>\<open>/.git\<close>. The site header names the site of that host, the user header is absent or the positive id the token
  validator gave for the token of this request, whatever headers the client sent, and where the policy of
  the site protects the path the request carried a credential that policy admits. It also happens only
  while no HTTPS port is configured.
\<close>

theorem deployment_gate_sound:
  assumes "fst (Handler c e r w p) = ToDeployment n out info"
  shows "normalizeHost (rq_host r) \<notin> set loopbackHosts \<and> \<not> is_IP (normalizeHost (rq_host r)) \<and> map_of (serviceHosts p) (normalizeHost (rq_host r)) = None
    \<and> GetDeploymentHostInfo (normalizeHost (rq_host r)) p = Some info \<and> n = hi_Port info \<and> \<not> Contains (ToLower (rq_path r)) ''/.git''
    \<and> (HasPrefix (rq_path r) ''/api/'' \<longrightarrow> is_passthrough info (rq_path r))
    \<and> sound_forward e info r p out \<and> (normalizeHost (rq_host r) \<noteq> [] \<longrightarrow> httpsPort c = [])"
proof -
  let ?g = "deploymentHostMiddleware e serve_mux"
  from corsMiddleware_to [OF assms [unfolded Handler_def]] obtain w1 where
    "fst (httpsRedirectMiddleware c (securityHeadersMiddleware (requestIDMiddleware e (gitPathBlockMiddleware ?g))) r w1 p) = ToDeployment n out info" by blast
  note h = httpsRedirectMiddleware_to [OF this]
  then obtain w2 where "fst (gitPathBlockMiddleware ?g r w2 p) = ToDeployment n out info"
    by (auto simp: securityHeadersMiddleware_def requestIDMiddleware_def Let_def)
  note g = gitPathBlockMiddleware_to [OF this]
  note d = deploymentHostMiddleware_to [OF conjunct1 [OF g]]
  then obtain info' where i: "GetDeploymentHostInfo (normalizeHost (rq_host r)) p = Some info'" "fst (serve_deployment e info' r w2 p) = ToDeployment n out info"
      "HasPrefix (rq_path r) ''/api/'' \<longrightarrow> is_passthrough info' (rq_path r)" by blast
  note s = serve_deployment_to [OF i(2)]
  have "isDeploymentHostRegistered (normalizeHost (rq_host r)) p" using i(1) by (simp add: isDeploymentHostRegistered_def GetDeploymentHostInfo_def)
  with d g h i s show ?thesis by blast
qed

definition demo_proxy :: Proxy where
  "demo_proxy = \<lparr> deployHosts = [(''app.example'', \<lparr> hi_Port = 4001, hi_SiteID = ''s1'', hi_PassthroughPaths = [], hi_Metadata = [], hi_AuthPolicy = None, hi_CSPPolicy = [] \<rparr>)],
     serviceHosts = [], authPolicies = [(''s1'', \<lparr> ap_Default = ''protected'', ap_ProtectedPaths = [], ap_PublicPaths = [], ap_Accept = [] \<rparr>)], cspPolicies = [] \<rparr>"

definition demo_env :: proxy_env where
  "demo_env = \<lparr> site_row = (\<lambda>_. None), dec_policy = (\<lambda>_. None), dec_csp = (\<lambda>_. None), validateToken = Some (\<lambda>t. if t = ''good'' then Inr 7 else Inl ''bad token''),
     validateSiteKey = None, fresh_rid = ''rid'' \<rparr>"

definition demo_request :: "string \<Rightarrow> http_request" where
  "demo_request tok = \<lparr> rq_method = ''GET'', rq_host = ''App.Example:80'', rq_path = ''/x'', rq_uri = ''/x'', rq_tls = False,
     rq_hdr = [(''Authorization'', ''Bearer '' @ tok), (UserHdr, ''1'')], rq_cookie = None \<rparr>"

lemmas proxy_eval = Handler_def corsMiddleware_def httpsRedirectMiddleware_def securityHeadersMiddleware_def requestIDMiddleware_def gitPathBlockMiddleware_def
  deploymentHostMiddleware_def serve_deployment_def forward_def getSiteAuthPolicy_def getSiteCSP_def GetDeploymentHostInfo_def isDeploymentHostRegistered_def
  isPathProtected_def protected_auth_def accepts_def proxy_token_def Get_def drop_identity_def map_del_def is_passthrough_def

lemma demo_host: "normalizeHost ''App.Example:80'' = ''app.example''" "normalizeHost ''app.example'' = ''app.example''"
    "''app.example'' \<notin> set loopbackHosts" "\<not> is_IP ''app.example''"
  by (code_simp, code_simp, code_simp, code_simp)

lemma demo_lower: "ToLower ''Bearer good'' = ''bearer good''" "ToLower ''/x'' = ''/x''"
  by (code_simp, code_simp)

theorem deployment_gate_sound_witness:
  "\<exists>out info. fst (Handler \<lparr> httpsPort = [], corsAllowedOrigins = [] \<rparr> demo_env (demo_request ''good'') [] demo_proxy) = ToDeployment 4001 out info
     \<and> sound_forward demo_env info (demo_request ''good'') demo_proxy out \<and> map_of (rq_hdr out) UserHdr = Some (Itoa 7)"
proof -
  have "\<exists>out info. fst (Handler \<lparr> httpsPort = [], corsAllowedOrigins = [] \<rparr> demo_env (demo_request ''good'') [] demo_proxy) = ToDeployment 4001 out info
     \<and> map_of (rq_hdr out) UserHdr = Some (Itoa 7)"
    by (simp add: proxy_eval demo_env_def demo_request_def demo_proxy_def demo_host demo_lower Let_def)
  then obtain out info where o: "fst (Handler \<lparr> httpsPort = [], corsAllowedOrigins = [] \<rparr> demo_env (demo_request ''good'') [] demo_proxy) = ToDeployment 4001 out info"
      "map_of (rq_hdr out) UserHdr = Some (Itoa 7)" by blast
  with deployment_gate_sound [OF o(1)] show ?thesis by blast
qed

section \<open>Cross-origin rules\<close>

text \<open>The middleware of the auth component (\<^verbatim>\<open>auth/cors.go\<close>) next to the one of the proxy.\<close>

fun isAllowed :: "string list \<Rightarrow> string \<Rightarrow> bool" where
  "isAllowed [] origin = False"
| "isAllowed (a # as) origin = (if a = origin then True else isAllowed as origin)"

definition isSameOriginRequest :: "http_request \<Rightarrow> string \<Rightarrow> bool" where
  "isSameOriginRequest r origin =
     (let scheme = (if rq_tls r \<or> ToLower (Get (rq_hdr r) ''X-Forwarded-Proto'') = ''https'' then ''https'' else ''http'')
      in origin = scheme @ ''://'' @ rq_host r)"

definition CORS :: "string list \<Rightarrow> handler \<Rightarrow> handler" where
  "CORS allowedOrigins next r w p = (let origin = Get (rq_hdr r) ''Origin'' in
     if origin = [] then next r w p
     else if allowedOrigins = [] then (if isSameOriginRequest r origin then next r w p else deny_origin r w p)
     else if \<not> isAllowed allowedOrigins origin then deny_origin r w p
     else if rq_method r = ''OPTIONS'' then (Reply 204 [], preflight_headers origin w, p)
     else next r (cors_headers origin w) p)"

lemma isAllowed_iff: "isAllowed as origin = (origin \<in> set as)"
  by (induction as) auto

text \<open>The two copies decide alike, so running both is running the proxy's twice.\<close>

lemma CORS_eq: "CORS (corsAllowedOrigins c) f = corsMiddleware c f"
  unfolding CORS_def corsMiddleware_def isAllowed_iff isSameOriginRequest_def authSameOrigin_def by (auto simp: fun_eq_iff Let_def)

lemma cors_closed:
  assumes "corsMiddleware c f r w p \<noteq> deny_origin r w p"
  shows "Get (rq_hdr r) ''Origin'' = [] \<or> Get (rq_hdr r) ''Origin'' \<in> set (corsAllowedOrigins c)
    \<or> (corsAllowedOrigins c = [] \<and> authSameOrigin r (Get (rq_hdr r) ''Origin''))"
  using assms unfolding corsMiddleware_def Let_def by (auto split: if_splits)

section \<open>Deviations\<close>

text \<open>The redirect does not look at the connection: a request that already uses TLS is redirected to itself.\<close>

lemma https_redirects_to_itself:
  assumes "httpsPort c \<noteq> []" "normalizeHost (rq_host r) = rq_host r" "rq_host r \<noteq> []" "rq_host r \<notin> set loopbackHosts" "\<not> is_IP (rq_host r)"
    and "isDeploymentHostRegistered (rq_host r) p" "Get (rq_hdr r) ''Origin'' = []"
  shows "fst (Handler c e r w p) = Redirect 301 (''https://'' @ rq_host r @ rq_uri r)"
  using assms by (simp add: Handler_def corsMiddleware_def httpsRedirectMiddleware_def Let_def)

text \<open>A policy that is neither cached nor readable admits every request.\<close>

lemma unreadable_policy_admits_all:
  assumes "map_of (authPolicies p) (hi_SiteID info) = None" "site_row e (hi_SiteID info) = None"
  shows "\<exists>out w' p'. serve_deployment e info r w p = (ToDeployment (hi_Port info) out info, w', p')"
  using assms by (simp add: serve_deployment_def getSiteAuthPolicy_def forward_def Let_def case_prod_beta)

text \<open>A pattern ending in \<^verbatim>\<open>/*\<close> also matches paths outside the directory it names.\<close>

lemma wildcard_leaves_directory: "matchPath ''/pub/*'' ''/publish/drafts''"
  by code_simp

lemma public_wildcard_opens_sibling:
  "\<not> isPathProtected \<lparr> ap_Default = ''protected'', ap_ProtectedPaths = [], ap_PublicPaths = [''/pub/*''], ap_Accept = [] \<rparr> ''/publish/drafts''"
  by code_simp

end
