(* ===== verification/Proxy_Inject.thy ===== *)
theory Proxy_Inject
  imports Proxy_Gate
begin

text \<open>
  The metadata script the proxy adds to HTML pages of deployments (\<^verbatim>\<open>injectMetadata\<close> of \<^verbatim>\<open>proxy/hosts.go\<close>). Bytes are
  characters. The gzip reader and writer are arguments: opening a stream may fail and then leaves a rest of
  the body, reading gives data and whether it failed.
\<close>

section \<open>The script\<close>

definition escape_rune :: "char \<Rightarrow> string" where
  "escape_rune c =
     (if c = CHR 0x22 then [CHR 0x5C, CHR 0x22]
      else if c = CHR 0x5C then [CHR 0x5C, CHR 0x5C]
      else if c = CHR 0x0A then [CHR 0x5C, CHR ''n'']
      else if c = CHR 0x0D then [CHR 0x5C, CHR ''r'']
      else if c = CHR 0x09 then [CHR 0x5C, CHR ''t'']
      else [c])"

definition escapeJSON :: "string \<Rightarrow> string" where
  "escapeJSON s = concat (map escape_rune s)"

definition metadata_entry :: "string \<times> string \<Rightarrow> string" where
  "metadata_entry kv = [CHR 0x22] @ fst kv @ [CHR 0x22] @ '':'' @ [CHR 0x22] @ escapeJSON (snd kv) @ [CHR 0x22]"

text \<open>\<open>metadata\<close> lists the map in the order it is ranged over.\<close>

definition metadata_script :: "(string, string) go_map \<Rightarrow> string" where
  "metadata_script metadata = ''<script>window.__BIGBASE_METADATA__ = {'' @ Join (map metadata_entry metadata) '','' @ ''};</script>''"

section \<open>Insertion\<close>

text \<open>\<^verbatim>\<open>bytes.LastIndex\<close>.\<close>

fun LastIndex :: "string \<Rightarrow> string \<Rightarrow> nat option" where
  "LastIndex [] p = (if p = [] then Some 0 else None)"
| "LastIndex (x # xs) p = (case LastIndex xs p of Some i \<Rightarrow> Some (Suc i) | None \<Rightarrow> if HasPrefix (x # xs) p then Some 0 else None)"

definition insert_script :: "string \<Rightarrow> string \<Rightarrow> string" where
  "insert_script script body = (case LastIndex body ''</head>'' of
     Some i \<Rightarrow> take (i + 7) body @ script @ drop (i + 7) body
   | None \<Rightarrow> (case LastIndex body ''</body>'' of
         Some i \<Rightarrow> take i body @ script @ drop i body
       | None \<Rightarrow> script @ body))"

record http_response =
  rs_hdr :: headers
  rs_body :: string
  rs_broken :: bool
  rs_length :: int

record gzip_lib =
  gz_bad :: "string \<Rightarrow> string option"
  gz_read :: "string \<Rightarrow> string \<times> bool"
  gz_write :: "string \<Rightarrow> string option"

text \<open>\<open>rs_broken\<close> says that reading the body fails after the given bytes; a broken connection breaks the stream above it too.\<close>

definition read_body :: "gzip_lib \<Rightarrow> http_response \<Rightarrow> string \<times> bool" where
  "read_body g resp = (if Get (rs_hdr resp) ''Content-Encoding'' = ''gzip'' then
       (case gz_read g (rs_body resp) of (d, failed) \<Rightarrow> (d, failed \<or> rs_broken resp))
     else (rs_body resp, rs_broken resp))"

definition injectMetadata :: "gzip_lib \<Rightarrow> (string, string) go_map \<Rightarrow> http_response \<Rightarrow> http_response" where
  "injectMetadata g metadata resp =
     (if metadata = [] then resp
      else if \<not> Contains (Get (rs_hdr resp) ''Content-Type'') ''text/html'' then resp
      else (let gz = (Get (rs_hdr resp) ''Content-Encoding'' = ''gzip'') in
        case (if gz then gz_bad g (rs_body resp) else None) of
          Some rest \<Rightarrow> resp\<lparr> rs_body := rest \<rparr>
        | None \<Rightarrow> (case read_body g resp of
              (body, failed) \<Rightarrow>
                if failed \<or> body = [] then resp\<lparr> rs_body := body, rs_broken := False \<rparr>
                else (let injected = insert_script (metadata_script metadata) body in
                  case (if gz then gz_write g injected else Some injected) of
                    None \<Rightarrow> resp\<lparr> rs_body := [], rs_broken := True \<rparr>
                  | Some out \<Rightarrow> resp\<lparr> rs_body := out, rs_length := int (length out),
                        rs_hdr := map_put ''Content-Length'' (Itoa (length out)) (rs_hdr resp) \<rparr>))))"

section \<open>The page survives\<close>

lemma LastIndex_Some: "LastIndex s p = Some i \<Longrightarrow> i \<le> length s \<and> HasPrefix (drop i s) p"
  by (induction s arbitrary: i) (auto split: if_splits option.splits)

lemma LastIndex_last: "LastIndex s p = Some i \<Longrightarrow> i < j \<Longrightarrow> j \<le> length s \<Longrightarrow> \<not> HasPrefix (drop j s) p"
proof (induction s arbitrary: i j)
  case (Cons x xs)
  then obtain k where j: "j = Suc k" by (cases j) simp_all
  show ?case
  proof (cases "LastIndex xs p")
    case None
    have "\<not> HasPrefix (drop k xs) p" if "LastIndex xs p = None" "k \<le> length xs" for k xs
      using that by (induction xs arbitrary: k) (auto simp: drop_Cons' split: if_splits option.splits)
    then show ?thesis using None Cons.prems j by simp
  next
    case (Some m)
    then show ?thesis using Cons j by simp
  qed
qed simp

lemma insert_script_split: "\<exists>a b. body = a @ b \<and> insert_script script body = a @ script @ b"
  unfolding insert_script_def by (cases "LastIndex body ''</head>''"; cases "LastIndex body ''</body>''")
    (metis append_Nil append_take_drop_id option.simps(4,5))+

text \<open>Reading a string literal back: the escapes the script uses.\<close>

fun unescape :: "string \<Rightarrow> string option" where
  "unescape [] = Some []"
| "unescape (c # s) =
     (if c = CHR 0x22 \<or> c = CHR 0x0A \<or> c = CHR 0x0D then None
      else if c = CHR 0x5C then
        (case s of [] \<Rightarrow> None
         | d # s' \<Rightarrow> map_option ((#) (if d = CHR ''n'' then CHR 0x0A else if d = CHR ''r'' then CHR 0x0D else if d = CHR ''t'' then CHR 0x09 else d)) (unescape s'))
      else map_option ((#) c) (unescape s))"

lemma unescape_escapeJSON: "unescape (escapeJSON s) = Some s"
  by (induction s) (auto simp: escapeJSON_def escape_rune_def)

text \<open>
  A page that carries metadata is changed by inserting one script and nothing else, compressed pages
  included; the declared length is that of the body sent; and every metadata value is a string literal that
  reads back as the value, so no value ends its literal early. Other responses are left alone.
\<close>

lemma injection_keeps_page:
  assumes "read_body g resp = (page, False)" "page \<noteq> []" "metadata \<noteq> []" "Contains (Get (rs_hdr resp) ''Content-Type'') ''text/html''"
    and gz: "Get (rs_hdr resp) ''Content-Encoding'' = ''gzip'' \<Longrightarrow> gz_bad g (rs_body resp) = None"
    and rt: "\<And>x. \<exists>y. gz_write g x = Some y \<and> gz_read g y = (x, False)"
  shows "\<exists>a b. page = a @ b \<and> fst (read_body g (injectMetadata g metadata resp)) = a @ metadata_script metadata @ b
    \<and> rs_length (injectMetadata g metadata resp) = int (length (rs_body (injectMetadata g metadata resp)))
    \<and> Atoi (Get (rs_hdr (injectMetadata g metadata resp)) ''Content-Length'') = (if length (rs_body (injectMetadata g metadata resp)) < 2 ^ 63 then Some (rs_length (injectMetadata g metadata resp)) else None)
    \<and> (\<forall>(k, v) \<in> set metadata. unescape (escapeJSON v) = Some v)"
proof -
  obtain a b where ab: "page = a @ b" "insert_script (metadata_script metadata) page = a @ metadata_script metadata @ b"
    using insert_script_split by blast
  obtain y where y: "gz_write g (a @ metadata_script metadata @ b) = Some y" "gz_read g y = (a @ metadata_script metadata @ b, False)" using rt by blast
  let ?out = "if Get (rs_hdr resp) ''Content-Encoding'' = ''gzip'' then y else a @ metadata_script metadata @ b"
  have r: "injectMetadata g metadata resp = resp\<lparr> rs_body := ?out, rs_length := int (length ?out), rs_hdr := map_put ''Content-Length'' (Itoa (length ?out)) (rs_hdr resp) \<rparr>"
    using assms(1-4) gz ab(2) y(1) by (simp add: injectMetadata_def Let_def)
  have enc: "Get (map_put ''Content-Length'' z h) ''Content-Encoding'' = Get h ''Content-Encoding''" for z h by (simp add: Get_def map_of_put)
  have "fst (read_body g (injectMetadata g metadata resp)) = a @ metadata_script metadata @ b"
    unfolding r read_body_def using y(2) by (simp add: enc)
  moreover have "Get (rs_hdr (injectMetadata g metadata resp)) ''Content-Length'' = Itoa (length ?out)" unfolding r by (simp add: Get_def map_of_put)
  ultimately show ?thesis using ab(1) unescape_escapeJSON by (intro exI [of _ a] exI [of _ b]) (simp add: r Atoi_Itoa_any)
qed

definition demo_gzip :: gzip_lib where
  "demo_gzip = \<lparr> gz_bad = (\<lambda>_. None), gz_read = (\<lambda>s. (tl s, False)), gz_write = (\<lambda>s. Some (CHR ''z'' # s)) \<rparr>"

definition demo_page :: http_response where
  "demo_page = \<lparr> rs_hdr = [(''Content-Type'', ''text/html''), (''Content-Encoding'', ''gzip'')], rs_body = ''z<p>hi</p></body>'', rs_broken = False, rs_length = 17 \<rparr>"

theorem injection_keeps_page_witness:
  "\<exists>a b. ''<p>hi</p></body>'' = a @ b \<and> fst (read_body demo_gzip (injectMetadata demo_gzip [(''version'', ''1'')] demo_page)) = a @ metadata_script [(''version'', ''1'')] @ b"
proof -
  have r: "read_body demo_gzip demo_page = (''<p>hi</p></body>'', False)" by (simp add: demo_gzip_def demo_page_def read_body_def Get_def)
  have c: "Contains (Get (rs_hdr demo_page) ''Content-Type'') ''text/html''" by code_simp
  have z: "gz_bad demo_gzip x = None" "\<exists>y. gz_write demo_gzip x = Some y \<and> gz_read demo_gzip y = (x, False)" for x by (simp_all add: demo_gzip_def)
  have m: "[(''version'', ''1'')] \<noteq> []" "''<p>hi</p></body>'' \<noteq> []" by simp_all
  from injection_keeps_page [OF r m(2) m(1) c z] show ?thesis by blast
qed

text \<open>The script has no escape for markup: a value with a closing tag ends the script element, and keys are not escaped at all.\<close>

lemma value_closes_script: "Contains (escapeJSON ''</script><script>x'') ''</script>''"
  by code_simp

lemma key_closes_literal: "metadata_entry (k @ [CHR 0x22], v) = [CHR 0x22] @ k @ [CHR 0x22, CHR 0x22] @ '':'' @ [CHR 0x22] @ escapeJSON v @ [CHR 0x22]"
  by (simp add: metadata_entry_def)

end
