(* ===== verification/Deploy_Build.thy ===== *)
theory Deploy_Build
  imports Deploy_Manifest Deploy_Env Go_Strconv
begin

text \<open>
  Building and starting an application (\<^verbatim>\<open>runtimes.go\<close>, \<^verbatim>\<open>python.go\<close> and the build and start
  commands of \<^verbatim>\<open>engine.go\<close>, all of \<^verbatim>\<open>components/deploy\<close>). The tools on the path, the directory listings, the
  decoded \<^verbatim>\<open>pyproject.toml\<close> and the outcome of every command are inputs; the model keeps the list of commands run.
  Deploy log lines are left out. A Go map that is iterated is a list in the order of the iteration.
\<close>

section \<open>Runtimes\<close>

type_synonym cmd = "string \<times> string list"

record dir_entry =
  de_name :: string
  de_dir :: bool
  de_exec :: "bool option"

text \<open>\<open>de_exec\<close>: one of the execute bits, \<open>None\<close> when the file information cannot be read.\<close>

record ManifestProfile =
  mp_AppType :: string
  mp_BuildCmd :: string
  mp_RunCmd :: string
  mp_Port :: int

definition profile :: "string \<Rightarrow> string \<Rightarrow> string \<Rightarrow> int \<Rightarrow> ManifestProfile" where
  "profile a b r p = \<lparr> mp_AppType = a, mp_BuildCmd = b, mp_RunCmd = r, mp_Port = p \<rparr>"

definition DefaultProfile :: "string \<Rightarrow> ManifestProfile" where
  "DefaultProfile appType =
     (if appType = AppRust then profile AppRust ''cargo build --release'' ''./target/release/app'' 8080
      else if appType = AppPHP then profile AppPHP ''composer install --no-dev'' ''php -S 0.0.0.0:$PORT'' 8080
      else if appType = AppJava then profile AppJava ''mvn package -DskipTests'' ''java -jar target/app.jar'' 8080
      else if appType = AppRuby then profile AppRuby ''bundle install --deployment'' ''bundle exec ruby app.rb'' 8080
      else if appType = AppGo then profile AppGo ''go build -o app .'' ''./app'' 8080
      else if appType = AppNode then profile AppNode ''npm install && npm run build'' ''npm start'' 3000
      else if appType = AppPython then profile AppPython ''pip install -r requirements.txt'' ''python main.py'' 8000
      else profile AppStatic [] [] 80)"

definition RustBuildCommand :: cmd where
  "RustBuildCommand = (''cargo'', [''build'', ''--release''])"

definition rust_binary :: "dir_entry \<Rightarrow> bool" where
  "rust_binary e = (\<not> de_dir e \<and> \<not> (HasSuffix (de_name e) ''.d'' \<or> HasSuffix (de_name e) ''.rlib'' \<or> HasPrefix (de_name e) ''.'')
     \<and> (case de_exec e of None \<Rightarrow> False | Some x \<Rightarrow> x \<or> \<not> Contains (de_name e) ''.''))"

text \<open>A directory that cannot be read is the empty listing.\<close>

definition rustBinaryPath :: "dir_entry list \<Rightarrow> string \<Rightarrow> string" where
  "rustBinaryPath release dir =
     (let releaseDir = path_join (path_join dir ''target'') ''release'' in
      path_join releaseDir (case filter rust_binary release of e # _ \<Rightarrow> de_name e | [] \<Rightarrow> ''app''))"

definition RustStartCommand :: "dir_entry list \<Rightarrow> string \<Rightarrow> cmd" where
  "RustStartCommand release dir = (rustBinaryPath release dir, [])"

definition PHPBuildCommand :: cmd where
  "PHPBuildCommand = (''composer'', [''install'', ''--no-dev'', ''--optimize-autoloader'', ''--no-interaction''])"

definition PHPStartCommand :: "bool \<Rightarrow> string \<Rightarrow> nat \<Rightarrow> cmd" where
  "PHPStartCommand public dir port = (''php'', [''-S'', ''0.0.0.0:'' @ Itoa port, ''-t'', if public then path_join dir ''public'' else dir])"

definition JavaBuildCommand :: "project \<Rightarrow> cmd" where
  "JavaBuildCommand p =
     (if fileExists p ''pom.xml'' then (''mvn'', [''package'', ''-DskipTests''])
      else if fileExists p ''gradlew'' then (''./gradlew'', [''build'', ''-x'', ''test''])
      else (''gradle'', [''build'', ''-x'', ''test'']))"

definition app_jar :: "dir_entry \<Rightarrow> bool" where
  "app_jar e = (\<not> de_dir e \<and> HasSuffix (de_name e) ''.jar'' \<and> \<not> HasSuffix (de_name e) ''-sources.jar''
     \<and> \<not> HasSuffix (de_name e) ''-javadoc.jar'' \<and> \<not> HasSuffix (de_name e) ''-plain.jar'')"

definition javaJarPath :: "project \<Rightarrow> dir_entry list \<Rightarrow> dir_entry list \<Rightarrow> string \<Rightarrow> string" where
  "javaJarPath p targets libs dir =
     (if fileExists p ''app.jar'' then path_join dir ''app.jar''
      else (case filter app_jar targets of
          e # _ \<Rightarrow> path_join (path_join dir ''target'') (de_name e)
        | [] \<Rightarrow> (case filter app_jar libs of
            e # _ \<Rightarrow> path_join (path_join (path_join dir ''build'') ''libs'') (de_name e)
          | [] \<Rightarrow> path_join (path_join dir ''target'') ''app.jar'')))"

definition JavaStartCommand :: "project \<Rightarrow> dir_entry list \<Rightarrow> dir_entry list \<Rightarrow> string \<Rightarrow> cmd" where
  "JavaStartCommand p targets libs dir = (''java'', [''-jar'', javaJarPath p targets libs dir])"

definition RubyBuildCommand :: cmd where
  "RubyBuildCommand = (''bundle'', [''install'', ''--deployment''])"

definition RubyStartCommand :: "project \<Rightarrow> nat \<Rightarrow> cmd" where
  "RubyStartCommand p port =
     (if fileExists p ''config.ru'' then (''bundle'', [''exec'', ''rackup'', ''-p'', Itoa port, ''-o'', ''0.0.0.0''])
      else (''bundle'', [''exec'', ''ruby'', ''app.rb'']))"

section \<open>Python\<close>

record PyProjectTOML =
  py_name :: string
  py_dependencies :: "string list"
  py_scripts :: "(string \<times> string) list"
  py_uv :: bool
  py_system_deps :: "string list"

definition HasPyProjectTOML :: "PyProjectTOML option \<Rightarrow> bool" where
  "HasPyProjectTOML f = (case f of None \<Rightarrow> False | Some pp \<Rightarrow> py_name pp \<noteq> [] \<or> py_scripts pp \<noteq> [] \<or> py_uv pp)"

definition isUvicornDep :: "string \<Rightarrow> bool" where
  "isUvicornDep dep = (takeWhile (\<lambda>c. c \<notin> set ''><=~![;'') dep = ''uvicorn'')"

definition HasUvicorn :: "PyProjectTOML \<Rightarrow> bool" where
  "HasUvicorn pp = list_ex isUvicornDep (py_dependencies pp)"

text \<open>Split at the last colon.\<close>

definition splitEntryPoint :: "string \<Rightarrow> string \<times> string" where
  "splitEntryPoint entry =
     (let after = rev (takeWhile (\<lambda>c. c \<noteq> CHR '':'') (rev entry)) in
      if length after = length entry then (entry, ''app'') else (take (length entry - Suc (length after)) entry, after))"

definition EntryPoint :: "PyProjectTOML \<Rightarrow> string \<times> string" where
  "EntryPoint pp = (case py_scripts pp of [] \<Rightarrow> ([], []) | (_, val) # _ \<Rightarrow> splitEntryPoint val)"

definition isCLIScriptEntry :: "string \<Rightarrow> string \<Rightarrow> bool" where
  "isCLIScriptEntry module appVar = (HasSuffix module ''__main__'' \<or> appVar \<in> {''main'', ''cli'', ''entrypoint'', ''run''})"

definition parseASGIImport :: "string \<Rightarrow> string \<times> string list" where
  "parseASGIImport raw = (case IndexByte raw (CHR '' '') of None \<Rightarrow> (raw, []) | Some i \<Rightarrow> (take i raw, Fields (drop (Suc i) raw)))"

definition allowedSystemDeps :: "string list" where
  "allowedSystemDeps = [''git'', ''curl'', ''ssh'', ''libpq-dev'', ''libssl-dev'', ''build-essential'', ''ffmpeg'', ''imagemagick'', ''wget'', ''unzip'', ''ca-certificates'']"

definition allowedSystemDep :: "string \<Rightarrow> bool" where
  "allowedSystemDep name = (name \<in> set allowedSystemDeps)"

definition SystemDeps :: "PyProjectTOML \<Rightarrow> string list" where
  "SystemDeps pp = filter allowedSystemDep (py_system_deps pp)"

definition resolvePythonBin :: "(string \<Rightarrow> bool) \<Rightarrow> string" where
  "resolvePythonBin on_path = (if on_path ''python3'' then ''python3'' else ''python'')"

definition or_app :: "string \<times> string \<Rightarrow> string \<times> string" where
  "or_app e = (if fst e = [] then ''app'' else fst e, if snd e = [] then ''app'' else snd e)"

text \<open>The import and the extra arguments for uvicorn.\<close>

definition asgi_target :: "PyProjectTOML \<Rightarrow> Manifest option \<Rightarrow> (string \<times> string) \<times> string list" where
  "asgi_target pp manifest =
     (let e = or_app (EntryPoint pp);
          e1 = (if isCLIScriptEntry (fst e) (snd e) then (''app'', ''app'') else e)
      in case manifest of
           None \<Rightarrow> (e1, [])
         | Some m \<Rightarrow> if ASGIImport (Start m) = [] then (e1, [])
             else (case parseASGIImport (ASGIImport (Start m)) of (imp, extra) \<Rightarrow> (or_app (splitEntryPoint imp), extra)))"

definition pythonStartCommand :: "(string \<Rightarrow> bool) \<Rightarrow> PyProjectTOML option \<Rightarrow> nat \<Rightarrow> Manifest option \<Rightarrow> cmd" where
  "pythonStartCommand on_path f port manifest =
     (let uv = on_path ''uv''; py = resolvePythonBin on_path in
      case f of
        None \<Rightarrow> (py, [''app.py''])
      | Some pp \<Rightarrow>
          if HasUvicorn pp then
            (case asgi_target pp manifest of ((module, appVar), extra) \<Rightarrow>
               (let base = [module @ '':'' @ appVar] @ extra @ [''--host'', ''0.0.0.0'', ''--port'', Itoa port] in
                if uv then (''uv'', [''run'', ''uvicorn''] @ base) else (py, [''-m'', ''uvicorn''] @ base)))
          else
            (let script = fst (EntryPoint pp) in
             if script \<noteq> [] then (if uv then (''uv'', [''run'', ''python'', ''-m'', script]) else (py, [''-m'', script]))
             else if uv then (''uv'', [''run'', ''python'', ''app.py'']) else (py, [''app.py''])))"

section \<open>Building\<close>

record cmd_failure =
  cf_err :: string
  cf_stderr :: string
  cf_stdout :: string

text \<open>
  The host a build runs on: \<open>bh_hit\<close> tells whether the cached \<^verbatim>\<open>node_modules\<close> were restored, \<open>bh_run\<close> the outcome of a
  command after the ones run before it (\<open>None\<close>: it succeeded).
\<close>

record build_host =
  bh_path :: "string \<Rightarrow> bool"
  bh_corepack :: "(string \<Rightarrow> bool) option"
  bh_os :: os_env
  bh_resolver :: EnvResolver
  bh_project :: project
  bh_py :: "PyProjectTOML option"
  bh_hit :: bool
  bh_run :: "cmd list \<Rightarrow> cmd \<Rightarrow> cmd_failure option"

datatype build_error = EnvFailed resolve_error | Coded CodedError | Failed string

type_synonym build_result = "build_error option \<times> cmd list"

definition command_error :: "ResolvedEnv option \<Rightarrow> cmd_failure \<Rightarrow> string" where
  "command_error resolved f =
     (let d0 = TrimSpace (cf_stderr f);
          d1 = (if d0 = [] then TrimSpace (cf_stdout f) else d0);
          d = (case resolved of None \<Rightarrow> d1 | Some r \<Rightarrow> RedactLogText d1 r)
      in if d \<noteq> [] then cf_err f @ '': '' @ d else cf_err f)"

definition runBuildCommand :: "build_host \<Rightarrow> ResolvedEnv option \<Rightarrow> cmd \<Rightarrow> cmd list \<Rightarrow> build_result" where
  "runBuildCommand h resolved c hist =
     (map_option (\<lambda>f. Failed (command_error resolved f)) (bh_run h hist c), hist @ [c])"

definition wrap :: "string \<Rightarrow> build_result \<Rightarrow> build_result" where
  "wrap pre r = (case r of (Some (Failed t), hist) \<Rightarrow> (Some (Failed (pre @ t)), hist) | _ \<Rightarrow> r)"

definition nodeInstall :: "build_host \<Rightarrow> cmd list \<Rightarrow> build_result" where
  "nodeInstall h hist =
     (let pm = DetectNodePackageManager (bh_project h) in
      case ensureNodePackageManager (bh_path h) (bh_corepack h) pm of
        Some err \<Rightarrow> (Some (Coded err), hist)
      | None \<Rightarrow> if bh_hit h then (None, hist) else wrap (pm @ '' install: '') (runBuildCommand h None (NodeInstallCommand pm) hist))"

definition build_node :: "build_host \<Rightarrow> ResolvedEnv \<Rightarrow> build_result" where
  "build_node h resolved =
     (let pm = DetectNodePackageManager (bh_project h) in
      case ensureNodePackageManager (bh_path h) (bh_corepack h) pm of
        Some err \<Rightarrow> (Some (Coded err), [])
      | None \<Rightarrow> (case nodeInstall h [] of
          (Some err, hist) \<Rightarrow> (Some err, hist)
        | (None, hist) \<Rightarrow> (case ValidateNodeBuildScript (bh_project h) of
            Some err \<Rightarrow> (Some (Failed err), hist)
          | None \<Rightarrow> wrap (pm @ '' run build: '') (runBuildCommand h (Some resolved) (NodeBuildCommand pm) hist))))"

definition tool_missing :: "string \<Rightarrow> string \<Rightarrow> build_result" where
  "tool_missing tool hint = (Some (Coded (codedErr ''tool_missing'' (tool @ '' not found on PATH'') hint)), [])"

text \<open>System packages are installed if they can be; their failure does not stop the build.\<close>

definition apt_install :: "build_host \<Rightarrow> ResolvedEnv \<Rightarrow> cmd list" where
  "apt_install h resolved = (case bh_py h of
     None \<Rightarrow> []
   | Some pp \<Rightarrow>
       (let deps = SystemDeps pp in
        if deps = [] then []
        else (case runBuildCommand h (Some resolved) (''apt-get'', [''update'']) [] of
            (Some _, hist) \<Rightarrow> hist
          | (None, hist) \<Rightarrow> snd (runBuildCommand h (Some resolved) (''apt-get'', [''install'', ''-y''] @ deps) hist))))"

definition build_python :: "build_host \<Rightarrow> ResolvedEnv \<Rightarrow> build_result" where
  "build_python h resolved =
     (if \<not> bh_path h ''python3'' \<and> \<not> bh_path h ''python''
      then tool_missing ''python3'' ''Install Python 3 on the deploy host before deploying AppType=python.''
      else if HasPyProjectTOML (bh_py h)
      then (let hist = apt_install h resolved in
            if bh_path h ''uv'' then runBuildCommand h (Some resolved) (''uv'', [''sync'', ''--frozen'']) hist
            else runBuildCommand h (Some resolved) (''pip'', [''install'', ''--break-system-packages'', ''.'']) hist)
      else runBuildCommand h (Some resolved) (''pip'', [''install'', ''--break-system-packages'', ''-r'', ''requirements.txt'']) [])"

definition build_java :: "build_host \<Rightarrow> ResolvedEnv \<Rightarrow> build_result" where
  "build_java h resolved =
     (let p = bh_project h; run = runBuildCommand h (Some resolved) (JavaBuildCommand p) [] in
      if fileExists p ''pom.xml''
      then (if \<not> bh_path h ''mvn'' then tool_missing ''mvn'' ''Install Maven (mvn) on the deploy host before deploying AppType=java.'' else run)
      else if fileExists p ''build.gradle'' \<or> fileExists p ''build.gradle.kts''
      then (if \<not> fileExists p ''gradlew'' \<and> \<not> bh_path h ''gradle''
            then tool_missing ''gradle'' ''Install Gradle on the deploy host before deploying AppType=java.'' else run)
      else run)"

definition build_type :: "build_host \<Rightarrow> ResolvedEnv \<Rightarrow> string \<Rightarrow> build_result" where
  "build_type h resolved appType =
     (let run = (\<lambda>c. runBuildCommand h (Some resolved) c []); has = bh_path h in
      if appType = AppNode then build_node h resolved
      else if appType = AppGo
      then (if \<not> has ''go'' then tool_missing ''go'' ''Install Go on the deploy host (matching go.mod) before deploying AppType=go.''
            else run (''go'', [''build'', ''-o'', ''app'', ''.'']))
      else if appType = AppRust
      then (if \<not> has ''cargo'' then tool_missing ''cargo'' ''Install Rust toolchain (cargo) on the deploy host before deploying AppType=rust.''
            else run RustBuildCommand)
      else if appType = AppPHP
      then (if \<not> has ''composer'' then tool_missing ''composer'' ''Install Composer (and PHP) on the deploy host before deploying AppType=php.''
            else if \<not> has ''php'' then tool_missing ''php'' ''Install PHP on the deploy host before deploying AppType=php.''
            else run PHPBuildCommand)
      else if appType = AppJava then build_java h resolved
      else if appType = AppRuby
      then (if \<not> has ''bundle'' then tool_missing ''bundle'' ''Install Bundler (bundle) on the deploy host before deploying AppType=ruby.''
            else run RubyBuildCommand)
      else if appType = AppPython then build_python h resolved
      else (None, []))"

text \<open>\<open>menv\<close> is the environment of the manifest, empty without one.\<close>

definition buildApp :: "build_host \<Rightarrow> string \<Rightarrow> string \<Rightarrow> Manifest option \<Rightarrow> env_map \<Rightarrow> build_result" where
  "buildApp h siteID appType manifest menv =
     (case ResolveOptions (bh_os h) (bh_resolver h) siteID ScopeBuild menv [] of
        Inl err \<Rightarrow> (Some (EnvFailed err), [])
      | Inr resolved \<Rightarrow>
          (case manifest of
             Some m \<Rightarrow>
               if BuildCommand (Build m) \<noteq> []
               then (case ensureManifestPackageManager (bh_path h) (bh_corepack h) (BuildCommand (Build m)) of
                   Some err \<Rightarrow> (Some (Coded err), [])
                 | None \<Rightarrow> (case Fields (BuildCommand (Build m)) of
                     name # args \<Rightarrow> runBuildCommand h (Some resolved) (name, args) []
                   | [] \<Rightarrow> build_type h resolved appType))
               else build_type h resolved appType
           | None \<Rightarrow> build_type h resolved appType))"

section \<open>Starting\<close>

record start_dirs =
  st_release :: "dir_entry list"
  st_target :: "dir_entry list"
  st_libs :: "dir_entry list"
  st_public :: bool

text \<open>\<open>Inr None\<close>: there is no command for the type.\<close>

definition start_command :: "build_host \<Rightarrow> start_dirs \<Rightarrow> string \<Rightarrow> nat \<Rightarrow> string \<Rightarrow> Manifest option \<Rightarrow> (CodedError, cmd option) res" where
  "start_command h sd dir port appType manifest =
     (let p = bh_project h;
          auto = (if appType = AppNode
            then (case ensureNodePackageManager (bh_path h) (bh_corepack h) (DetectNodePackageManager p) of
                Some err \<Rightarrow> Inl err | None \<Rightarrow> Inr (Some (NodeStartCommand p)))
            else if appType = AppGo then Inr (Some (path_join dir ''app'', []))
            else if appType = AppPython then Inr (Some (pythonStartCommand (bh_path h) (bh_py h) port manifest))
            else if appType = AppPHP then Inr (Some (PHPStartCommand (st_public sd) dir port))
            else if appType = AppRust then Inr (Some (RustStartCommand (st_release sd) dir))
            else if appType = AppJava then Inr (Some (JavaStartCommand p (st_target sd) (st_libs sd) dir))
            else if appType = AppRuby then Inr (Some (RubyStartCommand p port))
            else Inr None)
      in case manifest of
           None \<Rightarrow> auto
         | Some m \<Rightarrow>
             if StartCommand (Start m) = [] then auto
             else (case ensureManifestPackageManager (bh_path h) (bh_corepack h) (StartCommand (Start m)) of
                 Some err \<Rightarrow> Inl err
               | None \<Rightarrow> Inr (case Fields (StartCommand (Start m)) of [] \<Rightarrow> None | name # args \<Rightarrow> Some (name, args))))"

text \<open>The reserved values of the runtime environment; \<open>writable\<close> is the directory if it could be made.\<close>

definition reserved_env :: "nat \<Rightarrow> string option \<Rightarrow> string list \<Rightarrow> string list" where
  "reserved_env port writable db =
     [''PORT='' @ Itoa port, ''SERVER_PORT='' @ Itoa port] @ (case writable of None \<Rightarrow> [] | Some d \<Rightarrow> [''WRITABLE_DIR='' @ d]) @ db"

section \<open>Which commands a build runs\<close>

lemma first_lockfile_pm: "first_lockfile p fs \<in> insert ''npm'' (snd ` set fs)"
  by (induction p fs rule: first_lockfile.induct) (simp, simp split: if_split, blast)

lemma DetectNodePackageManager_range: "DetectNodePackageManager p \<in> {''npm'', ''pnpm'', ''yarn'', ''bun''}"
proof (cases "packageManagerFromPackageJSON p = []")
  case True
  then show ?thesis
    using first_lockfile_pm [of p "[(''bun.lockb'', ''bun''), (''bun.lock'', ''bun''), (''pnpm-lock.yaml'', ''pnpm''), (''yarn.lock'', ''yarn''), (''package-lock.json'', ''npm'')]"]
    by (auto simp: DetectNodePackageManager_def)
next
  case False
  then show ?thesis by (auto simp: DetectNodePackageManager_def packageManagerFromPackageJSON_def Let_def split: package_file.splits if_splits)
qed

lemma snd_wrap [simp]: "snd (wrap pre r) = snd r"
  by (auto simp: wrap_def split: prod.split option.split build_error.split)

lemma fst_wrap [simp]: "fst (wrap pre r) = None \<longleftrightarrow> fst r = None"
  by (auto simp: wrap_def split: prod.split option.split build_error.split)

lemma runBuildCommand_simps [simp]:
  "snd (runBuildCommand h r c hist) = hist @ [c]" "fst (runBuildCommand h r c hist) = None \<longleftrightarrow> bh_run h hist c = None"
  by (simp_all add: runBuildCommand_def)

lemma tool_missing_simps [simp]: "snd (tool_missing t h) = []" "fst (tool_missing t h) \<noteq> None"
  by (simp_all add: tool_missing_def)

text \<open>A command a build without a manifest command may run, by the type of the application.\<close>

definition build_command_ok :: "build_host \<Rightarrow> string \<Rightarrow> cmd \<Rightarrow> bool" where
  "build_command_ok h appType c =
     (if appType = AppNode then c = NodeInstallCommand (DetectNodePackageManager (bh_project h)) \<or> c = NodeBuildCommand (DetectNodePackageManager (bh_project h))
      else if appType = AppPython
      then c = (''apt-get'', [''update'']) \<or> (\<exists>ds. c = (''apt-get'', [''install'', ''-y''] @ ds) \<and> set ds \<subseteq> set allowedSystemDeps)
        \<or> c = (''uv'', [''sync'', ''--frozen'']) \<or> (fst c = ''pip'' \<and> take 2 (snd c) = [''install'', ''--break-system-packages''])
      else if appType = AppJava then c = JavaBuildCommand (bh_project h)
      else c \<in> {(''go'', [''build'', ''-o'', ''app'', ''.'']), RustBuildCommand, PHPBuildCommand, RubyBuildCommand})"

lemma apt_install_ok:
  assumes "c \<in> set (apt_install h r)"
  shows "c = (''apt-get'', [''update'']) \<or> (\<exists>ds. c = (''apt-get'', [''install'', ''-y''] @ ds) \<and> set ds \<subseteq> set allowedSystemDeps)"
proof (cases "bh_py h")
  case (Some pp)
  have "set (SystemDeps pp) \<subseteq> set allowedSystemDeps" by (auto simp: SystemDeps_def allowedSystemDep_def)
  then show ?thesis using assms Some
    by (cases "SystemDeps pp = []"; cases "bh_run h [] (''apt-get'', [''update''])") (auto simp: apt_install_def runBuildCommand_def)
qed (use assms in \<open>simp add: apt_install_def\<close>)

lemma nodeInstall_trace: "set (snd (nodeInstall h [])) \<subseteq> {NodeInstallCommand (DetectNodePackageManager (bh_project h))}"
  by (simp add: nodeInstall_def Let_def split: option.split)

lemma build_node_trace: "set (snd (build_node h r)) \<subseteq> {NodeInstallCommand (DetectNodePackageManager (bh_project h)), NodeBuildCommand (DetectNodePackageManager (bh_project h))}"
proof -
  obtain e hist where n: "nodeInstall h [] = (e, hist)" by force
  then have "set hist \<subseteq> {NodeInstallCommand (DetectNodePackageManager (bh_project h))}" using nodeInstall_trace [of h] by simp
  then show ?thesis by (auto simp: build_node_def Let_def n split: option.split)
qed

definition ran_ok :: "build_host \<Rightarrow> string \<Rightarrow> build_result \<Rightarrow> bool" where
  "ran_ok h t r = (\<forall>c \<in> set (snd r). build_command_ok h t c)"

lemma ran_ok_if: "ran_ok h t a \<Longrightarrow> ran_ok h t b \<Longrightarrow> ran_ok h t (if P then a else b)"
  by simp

lemma ran_ok_run: "build_command_ok h t c \<Longrightarrow> \<forall>x \<in> set hist. build_command_ok h t x \<Longrightarrow> ran_ok h t (runBuildCommand h r c hist)"
  by (auto simp: ran_ok_def)

lemma ran_ok_none: "ran_ok h t (tool_missing a b)" "ran_ok h t (None, [])"
  by (simp_all add: ran_ok_def)

lemma python_ok:
  "build_command_ok h AppPython (''uv'', [''sync'', ''--frozen''])" "build_command_ok h AppPython (''pip'', ''install'' # ''--break-system-packages'' # xs)"
  "\<forall>x \<in> set (apt_install h r). build_command_ok h AppPython x" "\<forall>x \<in> set []. build_command_ok h AppPython x"
  using apt_install_ok [of _ h r] by (simp_all add: build_command_ok_def) blast

lemma build_python_trace: "ran_ok h AppPython (build_python h r)"
  unfolding build_python_def Let_def by (intro ran_ok_if ran_ok_run ran_ok_none python_ok)

lemma build_java_trace: "set (snd (build_java h r)) \<subseteq> {JavaBuildCommand (bh_project h)}"
  by (simp add: build_java_def Let_def)

lemma build_type_trace:
  assumes c: "c \<in> set (snd (build_type h r t))"
  shows "build_command_ok h t c"
proof -
  consider "t = AppNode" | "t = AppPython" | "t = AppJava" | "t \<noteq> AppNode" "t \<noteq> AppPython" "t \<noteq> AppJava" by blast
  then show ?thesis
  proof cases
    case 1
    then have "c \<in> set (snd (build_node h r))" using c by (simp add: build_type_def Let_def)
    with build_node_trace [of h r] have "c = NodeInstallCommand (DetectNodePackageManager (bh_project h)) \<or> c = NodeBuildCommand (DetectNodePackageManager (bh_project h))" by blast
    with 1 show ?thesis by (simp add: build_command_ok_def)
  next
    case 2
    then show ?thesis using c build_python_trace [of h r] by (simp add: build_type_def Let_def ran_ok_def)
  next
    case 3
    then have "c \<in> set (snd (build_java h r))" using c by (simp add: build_type_def Let_def)
    with build_java_trace [of h r] have "c = JavaBuildCommand (bh_project h)" by blast
    with 3 show ?thesis by (simp add: build_command_ok_def)
  next
    case 4
    then have "snd (build_type h r t) = [] \<or> (\<exists>c' \<in> {(''go'', [''build'', ''-o'', ''app'', ''.'']), RustBuildCommand, PHPBuildCommand, RubyBuildCommand}. snd (build_type h r t) = [c'])"
      by (simp add: build_type_def Let_def)
    with c 4 show ?thesis unfolding build_command_ok_def by auto
  qed
qed

definition ends_well :: "build_host \<Rightarrow> build_result \<Rightarrow> bool" where
  "ends_well h r = (fst r = None \<and> snd r \<noteq> [] \<longrightarrow> (\<exists>hist c. snd r = hist @ [c] \<and> bh_run h hist c = None))"

lemma ends_well_run [simp]: "ends_well h (runBuildCommand h r c hist)" "ends_well h (wrap pre (runBuildCommand h r c hist))"
  by (auto simp: ends_well_def)

lemma ends_well_other [simp]: "ends_well h (tool_missing a b)" "ends_well h (Some e, hist)" "ends_well h (None, [])"
  by (simp_all add: ends_well_def)

lemma ends_well_if: "ends_well h a \<Longrightarrow> ends_well h b \<Longrightarrow> ends_well h (if P then a else b)"
  by simp

lemma ends_well_node: "ends_well h (build_node h r)"
  by (auto simp: build_node_def Let_def split: option.split prod.split)

lemma build_type_done: "ends_well h (build_type h r t)"
  unfolding build_type_def build_java_def build_python_def Let_def
  by (intro ends_well_if ends_well_node ends_well_run ends_well_other)

text \<open>
  What a build may run. Without a build command of its own an application is built only by the commands
  of its runtime: a Node project only with the package manager its lock file or \<^verbatim>\<open>package.json\<close> names, a Python
  project with at most the system packages of the allow list. If the environment cannot be resolved nothing
  runs, and a build that succeeds ended with a command that succeeded.
\<close>

lemma build_commands_confined:
  assumes "buildApp h site t m menv = (err, trace)" "m = None \<or> (\<exists>x. m = Some x \<and> Fields (BuildCommand (Build x)) = [])"
  shows "(\<forall>c \<in> set trace. build_command_ok h t c) \<and> (t = AppNode \<longrightarrow> (\<forall>c \<in> set trace. fst c = DetectNodePackageManager (bh_project h)))
    \<and> (\<forall>e. ResolveOptions (bh_os h) (bh_resolver h) site ScopeBuild menv [] = Inl e \<longrightarrow> err = Some (EnvFailed e) \<and> trace = [])
    \<and> (err = None \<and> trace \<noteq> [] \<longrightarrow> (\<exists>hist c. trace = hist @ [c] \<and> bh_run h hist c = None))"
proof (cases "ResolveOptions (bh_os h) (bh_resolver h) site ScopeBuild menv []")
  case (Inl e)
  then show ?thesis using assms(1) by (auto simp: buildApp_def)
next
  case (Inr r)
  have "buildApp h site t m menv = build_type h r t" using assms(2) Inr by (auto simp: buildApp_def ensureManifestPackageManager_def)
  then have b: "build_type h r t = (err, trace)" using assms(1) by simp
  have ok: "\<forall>c \<in> set trace. build_command_ok h t c" using build_type_trace [of _ h r t] b by simp
  have "fst c = DetectNodePackageManager (bh_project h)" if "build_command_ok h AppNode c" for c
    using that DetectNodePackageManager_range [of "bh_project h"] by (auto simp: build_command_ok_def NodeInstallCommand_def NodeBuildCommand_def)
  moreover have "err = None \<and> trace \<noteq> [] \<longrightarrow> (\<exists>hist c. trace = hist @ [c] \<and> bh_run h hist c = None)"
    using build_type_done [of h r t] b by (simp add: ends_well_def)
  ultimately show ?thesis using ok Inr by auto
qed

definition py_host :: build_host where
  "py_host = \<lparr> bh_path = (\<lambda>n. n = ''python3''), bh_corepack = None, bh_os = sample_os, bh_resolver = sample_resolver [],
     bh_project = \<lparr> files = [], pkg = PkgAbsent, pyproject = True \<rparr>,
     bh_py = Some \<lparr> py_name = ''p'', py_dependencies = [], py_scripts = [], py_uv = False, py_system_deps = [''git'', ''netcat''] \<rparr>,
     bh_hit = False, bh_run = (\<lambda>hist c. None) \<rparr>"

lemma py_host_run: "buildApp py_host [] AppPython None [] =
    (None, [(''apt-get'', [''update'']), (''apt-get'', [''install'', ''-y'', ''git'']), (''pip'', [''install'', ''--break-system-packages'', ''.''])])"
  by (simp add: buildApp_def ResolveOptions_def py_host_def sample_resolver_def build_type_def build_python_def HasPyProjectTOML_def apt_install_def
      SystemDeps_def allowedSystemDep_def allowedSystemDeps_def runBuildCommand_def Let_def)

theorem build_commands_confined_witness:
  "build_command_ok py_host AppPython (''apt-get'', [''install'', ''-y'', ''git''])"
  using build_commands_confined [OF py_host_run] by simp

text \<open>A Python project recognised by its \<^verbatim>\<open>main.py\<close> is started as \<^verbatim>\<open>app.py\<close>, and a sidecar has no command to start it with.\<close>

lemma main_py_is_not_started:
  "DetectAppType \<lparr> files = [(''main.py'', [])], pkg = PkgAbsent, pyproject = False \<rparr> = AppPython
   \<and> pythonStartCommand on_path None port m = (resolvePythonBin on_path, [''app.py''])"
  by (simp add: DetectAppType_def DetectFrameworkMode_def resolved_mode_def no_mode_def fileExists_def pythonStartCommand_def Let_def)

lemma sidecar_has_no_start: "IsValid AppStaticSidecar \<and> start_command h sd dir port AppStaticSidecar None = Inr None"
  by (simp add: IsValid_def start_command_def Let_def)

text \<open>With several scripts, the one that is served is the first of the iteration, which Go does not fix.\<close>

lemma entry_point_depends_on_order:
  "EntryPoint (pp\<lparr> py_scripts := [(''web'', ''web:app''), (''job'', ''job:main'')] \<rparr>) = (''web'', ''app'')
   \<and> EntryPoint (pp\<lparr> py_scripts := [(''job'', ''job:main''), (''web'', ''web:app'')] \<rparr>) = (''job'', ''main'')"
  by (simp add: EntryPoint_def splitEntryPoint_def)

lemma splitEntryPoint_colon: "CHR '':'' \<notin> set v \<Longrightarrow> splitEntryPoint (m @ '':'' @ v) = (m, v)"
proof -
  assume v: "CHR '':'' \<notin> set v"
  have "takeWhile (\<lambda>c. c \<noteq> CHR '':'') (rev v @ CHR '':'' # rev m) = rev v" using v by (auto simp: takeWhile_append)
  then show ?thesis by (simp add: splitEntryPoint_def Let_def)
qed

end
