(* ===== verification/Deploy_Hosts.thy ===== *)
theory Deploy_Hosts
  imports Go_Strconv
begin

text \<open>
  Names and ports of deployments (\<^verbatim>\<open>components/deploy/urls.go\<close>, \<^verbatim>\<open>port_allocator.go\<close>). Text is bytes; bytes of
  other runes than ASCII are dropped from slugs like the runes they belong to.
\<close>

section \<open>Host names\<close>

definition slug_char :: "char \<Rightarrow> string" where
  "slug_char c = (let n = of_char c :: nat in
     if (97 \<le> n \<and> n \<le> 122) \<or> (48 \<le> n \<and> n \<le> 57) then [c]
     else if c = CHR ''-'' then [c]
     else if c = CHR ''_'' \<or> c = CHR '' '' \<or> c = CHR ''.'' \<or> c = CHR ''/'' then ''-''
     else [])"

definition SiteSlug :: "string \<Rightarrow> string" where
  "SiteSlug name = (let slug = TrimChar (CHR ''-'') (concat (map slug_char (ToLower name))) in
     if slug = [] then ''site'' else slug)"

definition deploymentHost :: "string \<Rightarrow> string \<Rightarrow> string" where
  "deploymentHost publicDomain repoName = (if publicDomain = [] then [] else SiteSlug repoName @ ''.'' @ publicDomain)"

definition deploymentURL :: "string \<Rightarrow> bool \<Rightarrow> string \<Rightarrow> nat \<Rightarrow> string" where
  "deploymentURL publicDomain useHTTPS repoName port =
     (if publicDomain = [] then ''http://localhost:'' @ Itoa port
      else (if useHTTPS then ''https'' else ''http'') @ ''://'' @ deploymentHost publicDomain repoName)"

text \<open>
  \<^verbatim>\<open>url.Parse\<close> and \<^verbatim>\<open>Hostname\<close> on absolute URLs: a scheme of letters, digits, \<^verbatim>\<open>+\<close>, \<^verbatim>\<open>-\<close> and \<^verbatim>\<open>.\<close> that starts with a letter, an authority
  that ends at a slash, a question mark or a hash, user information up to the last \<^verbatim>\<open>@\<close>, and a port of digits.
  Names in brackets and percent escapes are not used by the platform and are refused here.
\<close>

definition is_letter :: "char \<Rightarrow> bool" where
  "is_letter c = (let n = of_char c :: nat in (97 \<le> n \<and> n \<le> 122) \<or> (65 \<le> n \<and> n \<le> 90))"

definition scheme_ok :: "string \<Rightarrow> bool" where
  "scheme_ok s = (s \<noteq> [] \<and> is_letter (hd s) \<and> list_all (\<lambda>c. is_letter c \<or> is_digit c \<or> c = CHR ''+'' \<or> c = CHR ''-'' \<or> c = CHR ''.'') s)"

definition host_char :: "char \<Rightarrow> bool" where
  "host_char c = (is_letter c \<or> is_digit c \<or> c = CHR ''-'' \<or> c = CHR ''.'' \<or> c = CHR ''_'')"

definition url_hostname :: "string \<Rightarrow> string option" where
  "url_hostname raw = (case IndexByte raw (CHR '':'') of
     None \<Rightarrow> None
   | Some i \<Rightarrow>
       (let scheme = take i raw; rest = drop (Suc i) raw in
        if \<not> scheme_ok scheme \<or> \<not> HasPrefix rest ''//'' then None
        else
          (let auth = takeWhile (\<lambda>c. c \<noteq> CHR ''/'' \<and> c \<noteq> CHR ''?'' \<and> c \<noteq> CHR 0x23) (drop 2 rest);
               hp = rev (takeWhile (\<lambda>c. c \<noteq> CHR ''@'') (rev auth));
               host = takeWhile (\<lambda>c. c \<noteq> CHR '':'') hp;
               port = drop (Suc (length host)) hp
           in if list_all host_char host \<and> list_all is_digit port then Some host else None)))"

definition HostFromDeploymentURL :: "string \<Rightarrow> string" where
  "HostFromDeploymentURL raw0 = (let raw = TrimSpace raw0 in
     if raw = [] then []
     else if \<not> Contains raw ''://'' then ToLower raw
     else (case url_hostname raw of None \<Rightarrow> [] | Some h \<Rightarrow> ToLower h))"

definition extractRepoName :: "string \<Rightarrow> string" where
  "extractRepoName host = (if host = [] then [] else hd (Split host (CHR ''.'')))"

section \<open>Slugs\<close>

definition slug_ok :: "char \<Rightarrow> bool" where
  "slug_ok c = (let n = of_char c :: nat in (97 \<le> n \<and> n \<le> 122) \<or> (48 \<le> n \<and> n \<le> 57) \<or> c = CHR ''-'')"

lemma slug_char_cases: "slug_char x = [] \<or> slug_char x = ''-'' \<or> (slug_char x = [x] \<and> slug_ok x)"
  unfolding slug_char_def slug_ok_def Let_def by presburger

lemma set_slug_char: "c \<in> set (slug_char x) \<Longrightarrow> slug_ok c"
  using slug_char_cases [of x] by (auto simp: slug_ok_def)

lemma set_TrimChar: "set (TrimChar c s) \<subseteq> set s"
  unfolding TrimChar_def TrimRightFn_def TrimLeftFn_def by (auto dest!: set_dropWhileD)

lemma TrimChar_ends:
  assumes "TrimChar c s \<noteq> []"
  shows "hd (TrimChar c s) \<noteq> c" "last (TrimChar c s) \<noteq> c"
proof -
  let ?l = "dropWhile (\<lambda>x. x = c) s"
  have t: "TrimChar c s = rev (dropWhile (\<lambda>x. x = c) (rev ?l))" by (simp add: TrimChar_def TrimRightFn_def TrimLeftFn_def)
  have ne: "dropWhile (\<lambda>x. x = c) (rev ?l) \<noteq> []" using assms t by auto
  show "last (TrimChar c s) \<noteq> c" unfolding t using hd_dropWhile [OF ne] by (simp add: last_rev)
  have "?l \<noteq> []" using ne by (metis dropWhile.simps(1) rev.simps(1))
  then have h: "hd ?l \<noteq> c" by (rule hd_dropWhile)
  have "prefix (TrimChar c s) ?l" unfolding t by (metis rev_rev_ident suffix_dropWhile suffix_to_prefix)
  then obtain r where "?l = TrimChar c s @ r" by (auto simp: prefix_def)
  then show "hd (TrimChar c s) \<noteq> c" using h assms by (metis hd_append2)
qed

lemma SiteSlug_chars: "SiteSlug n \<noteq> [] \<and> (\<forall>c \<in> set (SiteSlug n). slug_ok c) \<and> hd (SiteSlug n) \<noteq> CHR ''-'' \<and> last (SiteSlug n) \<noteq> CHR ''-''"
proof -
  let ?s = "concat (map slug_char (ToLower n))"
  have "\<forall>c \<in> set (TrimChar (CHR ''-'') ?s). slug_ok c"
    using set_TrimChar [of "CHR ''-''" ?s] set_slug_char by fastforce
  then show ?thesis using TrimChar_ends [of "CHR ''-''" ?s]
    by (auto simp: SiteSlug_def Let_def slug_ok_def)
qed

lemma takeWhile_all: "(\<And>c. c \<in> set xs \<Longrightarrow> P c) \<Longrightarrow> takeWhile P xs = xs"
  by (simp add: takeWhile_eq_all_conv)

lemma slug_ok_host_char: "slug_ok c \<Longrightarrow> host_char c"
  by (auto simp: slug_ok_def host_char_def is_letter_def is_digit_def Let_def)

lemma lower_host:
  assumes "\<And>c. c \<in> set s \<Longrightarrow> slug_ok c \<or> c = CHR ''.''"
  shows "ToLower s = s"
  unfolding ToLower_def
proof (rule map_idI)
  fix c assume "c \<in> set s"
  from assms [OF this] show "lower_char c = c" by (auto simp: lower_char_def slug_ok_def Let_def)
qed

lemma dropWhile_none: "s \<noteq> [] \<Longrightarrow> \<not> P (hd s) \<Longrightarrow> dropWhile P s = s"
  by (cases s) simp_all

lemma trim_none: "s \<noteq> [] \<Longrightarrow> \<not> P (hd s) \<Longrightarrow> \<not> P (last s) \<Longrightarrow> TrimRightFn P (TrimLeftFn P s) = s"
  by (simp add: TrimRightFn_def TrimLeftFn_def dropWhile_none hd_rev)

lemma TrimSpace_id: "s \<noteq> [] \<Longrightarrow> \<not> is_space (hd s) \<Longrightarrow> \<not> is_space (last s) \<Longrightarrow> TrimSpace s = s"
  unfolding TrimSpace_def by (rule trim_none)

lemma slug_char_ok: "slug_ok c \<Longrightarrow> slug_char c = [c]"
  unfolding slug_char_def slug_ok_def Let_def by presburger

lemma SiteSlug_idem: "SiteSlug (SiteSlug n) = SiteSlug n"
proof -
  let ?s = "SiteSlug n"
  note s = SiteSlug_chars [of n]
  have "concat (map slug_char ?s) = ?s"
  proof -
    have "concat (map slug_char ?s) = concat (map (\<lambda>c. [c]) ?s)"
      using s slug_char_ok by (intro arg_cong [where f = concat] map_cong) auto
    also have "\<dots> = ?s" by simp
    finally show ?thesis .
  qed
  moreover have "ToLower ?s = ?s" using s by (intro lower_host) blast
  moreover have "TrimChar (CHR ''-'') ?s = ?s"
    unfolding TrimChar_def using s by (intro trim_none) auto
  ultimately show ?thesis using s by (simp add: SiteSlug_def [of "SiteSlug n"])
qed

lemma Split_head: "CHR ''.'' \<notin> set a \<Longrightarrow> hd (Split (a @ CHR ''.'' # b) (CHR ''.'')) = a"
proof (induction a)
  case (Cons x a)
  obtain f fs where f: "Split (a @ CHR ''.'' # b) (CHR ''.'') = f # fs" by (cases "Split (a @ CHR ''.'' # b) (CHR ''.'')") simp_all
  then show ?case using Cons by auto
qed simp

text \<open>
  The host name of a deployment survives its journey through the database: read back from the stored
  URL it is the name that was registered, the label in front of it gives the same name again, and that
  label is a nonempty DNS label of lower-case letters, digits and inner hyphens.
\<close>

lemma deployment_host_roundtrip:
  assumes d: "d \<noteq> []" "\<And>c. c \<in> set d \<Longrightarrow> slug_ok c \<or> c = CHR ''.''" and last: "slug_ok (last d)"
  shows "HostFromDeploymentURL (deploymentURL d https repo port) = deploymentHost d repo
    \<and> deploymentHost d (extractRepoName (deploymentHost d repo)) = deploymentHost d repo
    \<and> SiteSlug repo \<noteq> [] \<and> (\<forall>c \<in> set (SiteSlug repo). slug_ok c) \<and> hd (SiteSlug repo) \<noteq> CHR ''-'' \<and> List.last (SiteSlug repo) \<noteq> CHR ''-''"
proof -
  note s = SiteSlug_chars [of repo]
  let ?h = "deploymentHost d repo" and ?sch = "if https then ''https'' else ''http''"
  let ?raw = "?sch @ CHR '':'' # ''//'' @ ?h"
  have h: "?h = SiteSlug repo @ CHR ''.'' # d" using d(1) by (simp add: deploymentHost_def)
  have hc: "slug_ok c \<or> c = CHR ''.''" if "c \<in> set ?h" for c using that s d(2) by (auto simp: h)
  have dot: "\<not> slug_ok (CHR ''.'')" "\<not> slug_ok (CHR ''/'')" "\<not> slug_ok (CHR ''?'')" "\<not> slug_ok (CHR 0x23)" "\<not> slug_ok (CHR ''@'')" "\<not> slug_ok (CHR '':'')"
    by (simp_all add: slug_ok_def)
  have url: "deploymentURL d https repo port = ?raw" using d(1) by (simp add: deploymentURL_def)
  have sp: "\<not> is_space c" if "slug_ok c" for c using that by (auto simp: is_space_def slug_ok_def)
  have "TrimSpace ?raw = ?raw" using sp [OF last] d(1) h by (intro TrimSpace_id) (auto simp: is_space_def)
  moreover have "Contains ?raw ''://''" unfolding Contains_iff by (rule exI [of _ ?sch], rule exI [of _ ?h]) simp
  moreover have "url_hostname ?raw = Some ?h"
  proof -
    have ix: "IndexByte ?raw (CHR '':'') = Some (length ?sch)" by (rule IndexByte_append) auto
    have no: "c \<noteq> CHR ''/'' \<and> c \<noteq> CHR ''?'' \<and> c \<noteq> CHR 0x23 \<and> c \<noteq> CHR ''@'' \<and> c \<noteq> CHR '':''" if "c \<in> set ?h" for c using hc [OF that] dot by auto
    have a: "takeWhile (\<lambda>c. c \<noteq> CHR ''/'' \<and> c \<noteq> CHR ''?'' \<and> c \<noteq> CHR 0x23) ?h = ?h" using no by (intro takeWhile_all) blast
    have u: "takeWhile (\<lambda>c. c \<noteq> CHR ''@'') (rev ?h) = rev ?h" using no by (intro takeWhile_all) (metis set_rev)
    have p: "takeWhile (\<lambda>c. c \<noteq> CHR '':'') ?h = ?h" using no by (intro takeWhile_all) blast
    have ok: "list_all host_char ?h" unfolding list_all_iff using hc slug_ok_host_char by (auto simp: host_char_def)
    have sc: "scheme_ok ?sch" by (auto simp: scheme_ok_def is_letter_def)
    have parts: "take (length ?sch) ?raw = ?sch" "drop (Suc (length ?sch)) ?raw = ''//'' @ ?h" by auto
    have d2: "drop 2 (''//'' @ ?h) = ?h" by simp
    show ?thesis unfolding url_hostname_def ix option.case Let_def parts d2 a u rev_rev_ident p using sc ok by simp
  qed
  ultimately have "HostFromDeploymentURL ?raw = ToLower ?h" by (simp add: HostFromDeploymentURL_def Let_def)
  moreover have "ToLower ?h = ?h" using hc by (rule lower_host)
  moreover have "extractRepoName ?h = SiteSlug repo" using s dot(1) unfolding extractRepoName_def h by (subst Split_head) auto
  ultimately show ?thesis using s d(1) SiteSlug_idem [of repo] by (simp add: url deploymentHost_def)
qed

theorem deployment_host_roundtrip_witness:
  "HostFromDeploymentURL (deploymentURL ''bigbase.click'' True ''My App'' 4000) = ''my-app.bigbase.click''"
proof -
  have "deploymentHost ''bigbase.click'' ''My App'' = ''my-app.bigbase.click''" by code_simp
  moreover have c: "slug_ok c \<or> c = CHR ''.''" if "c \<in> set ''bigbase.click''" for c using that by (auto simp: slug_ok_def)
  moreover have l: "slug_ok (last ''bigbase.click'')" by (simp add: slug_ok_def)
  ultimately show ?thesis using deployment_host_roundtrip [OF _ c l, of True "''My App''" 4000] by simp
qed

text \<open>Different names share a host, and a label may be longer than DNS allows.\<close>

lemma slugs_collide: "SiteSlug ''my.app'' = SiteSlug ''my-app'' \<and> SiteSlug ''my_app'' = SiteSlug ''my-app''"
  by code_simp

lemma slug_not_bounded: "length (SiteSlug (replicate 64 (CHR ''a''))) = 64"
  by code_simp

section \<open>Ports\<close>

text \<open>\<open>free\<close> is the answer of \<^verbatim>\<open>portIsFree\<close> during the call; the second component is the counter of the process.\<close>

fun pickPortWithLimit :: "(int \<Rightarrow> bool) \<Rightarrow> int \<Rightarrow> nat \<Rightarrow> int \<Rightarrow> int option \<times> int" where
  "pickPortWithLimit free base 0 counter = (None, counter)"
| "pickPortWithLimit free base (Suc attempts) counter =
     (let candidate = base + (counter + 1) in
      if free candidate then (Some candidate, counter + 1) else pickPortWithLimit free base attempts (counter + 1))"

text \<open>The port the system gave and whether it could be closed; the probes afterwards change nothing.\<close>

definition GetFreePort :: "int option \<Rightarrow> bool \<Rightarrow> int option" where
  "GetFreePort listened closed = (case listened of None \<Rightarrow> None | Some port \<Rightarrow> if \<not> closed then None else Some port)"

abbreviation maxPickPortAttempts :: nat where "maxPickPortAttempts \<equiv> 1000"

definition pickPort :: "(int \<Rightarrow> bool) \<Rightarrow> int option \<Rightarrow> bool \<Rightarrow> int \<Rightarrow> int \<Rightarrow> int option \<times> int" where
  "pickPort free listened closed base counter =
     (if base \<le> 0 then (GetFreePort listened closed, counter) else pickPortWithLimit free base maxPickPortAttempts counter)"

lemma pickPortWithLimit_outcome:
  "case pickPortWithLimit free base n counter of
     (Some p, c) \<Rightarrow> p = base + c \<and> free p \<and> counter < c \<and> c \<le> counter + int n \<and> (\<forall>k. counter < k \<and> k < c \<longrightarrow> \<not> free (base + k))
   | (None, c) \<Rightarrow> c = counter + int n \<and> (\<forall>k. counter < k \<and> k \<le> counter + int n \<longrightarrow> \<not> free (base + k))"
proof (induction n arbitrary: counter)
  case (Suc n)
  show ?case
  proof (cases "free (base + (counter + 1))")
    case False
    obtain r c where rc: "pickPortWithLimit free base n (counter + 1) = (r, c)" by force
    have one: "\<not> free (base + k)" if "counter < k" "\<not> counter + 1 < k" for k
    proof -
      have "k = counter + 1" using that by linarith
      then show ?thesis using False by simp
    qed
    show ?thesis using Suc.IH [of "counter + 1"] False rc one
      by (cases r) (simp_all, metis add.assoc add.commute, metis)
  qed auto
qed auto

text \<open>A run of allocations, each with its own answers of the system.\<close>

fun pick_run :: "int \<Rightarrow> (int \<Rightarrow> bool) list \<Rightarrow> int \<Rightarrow> int option list \<times> int" where
  "pick_run base [] counter = ([], counter)"
| "pick_run base (free # fs) counter =
     (case pickPort free None True base counter of (p, c) \<Rightarrow> (case pick_run base fs c of (ps, c') \<Rightarrow> (p # ps, c')))"

lemma pick_run_increasing:
  assumes "0 < base" "pick_run base fs counter = (ps, c)"
  shows "counter \<le> c \<and> sorted_wrt (<) (List.map_filter id ps) \<and> (\<forall>p \<in> set (List.map_filter id ps). base + counter < p \<and> p \<le> base + c)"
  using assms(2)
proof (induction fs arbitrary: counter ps)
  case (Cons free fs)
  obtain p c1 where p: "pickPortWithLimit free base maxPickPortAttempts counter = (p, c1)" by force
  obtain qs where q: "pick_run base fs c1 = (qs, c)" "ps = p # qs" using Cons.prems p assms(1) by (auto simp: pickPort_def split: prod.splits)
  note ih = Cons.IH [OF q(1)]
  have "counter \<le> c1 \<and> (\<forall>x. p = Some x \<longrightarrow> x = base + c1 \<and> counter < c1)"
    using pickPortWithLimit_outcome [where free = free and base = base and n = maxPickPortAttempts and counter = counter] p by (auto split: option.splits)
  then show ?case using ih q(2) by (cases p) (auto simp: List.map_filter_simps)
qed (simp add: List.map_filter_simps)

text \<open>
  C36. Allocation always ends after at most 1000 probes. The ports a process hands out are strictly
  increasing, so no port is ever handed out twice, each was free when it was probed, and allocation fails
  only when the next 1000 candidates are all taken.
\<close>

theorem pickPort_fresh:
  assumes "0 < base"
  shows "(case pickPort free listened closed base counter of
      (Some p, c) \<Rightarrow> free p \<and> p = base + c \<and> c \<le> counter + 1000
    | (None, c) \<Rightarrow> c = counter + 1000 \<and> (\<forall>k. counter < k \<and> k \<le> counter + 1000 \<longrightarrow> \<not> free (base + k)))
    \<and> distinct (List.map_filter id (fst (pick_run base fs counter)))"
proof
  show "case pickPort free listened closed base counter of
      (Some p, c) \<Rightarrow> free p \<and> p = base + c \<and> c \<le> counter + 1000
    | (None, c) \<Rightarrow> c = counter + 1000 \<and> (\<forall>k. counter < k \<and> k \<le> counter + 1000 \<longrightarrow> \<not> free (base + k))"
    using pickPortWithLimit_outcome [where free = free and base = base and n = maxPickPortAttempts and counter = counter] assms
    by (auto simp: pickPort_def split: prod.splits option.splits)
  have "sorted_wrt (<) (List.map_filter id (fst (pick_run base fs counter)))"
    using pick_run_increasing [OF assms, of fs counter] by (metis prod.collapse)
  then show "distinct (List.map_filter id (fst (pick_run base fs counter)))" by (simp add: strict_sorted_iff)
qed

theorem pickPort_fresh_witness:
  "(case pickPort (\<lambda>p. p > 3002) None True 3000 1 of (Some p, c) \<Rightarrow> p = 3000 + c \<and> c \<le> 1001 | (None, c) \<Rightarrow> False)
   \<and> distinct (List.map_filter id (fst (pick_run 3000 [\<lambda>p. True, \<lambda>p. True] 1)))"
proof -
  have s: "(1000 :: nat) = Suc (Suc 998)" by simp
  have e: "pickPort (\<lambda>p. p > 3002) None True 3000 1 = (Some 3003, 3)" unfolding pickPort_def s pickPortWithLimit.simps by simp
  show ?thesis using pickPort_fresh [where base = 3000 and free = "\<lambda>p. p > 3002" and listened = None and closed = True and counter = 1 and fs = "[\<lambda>p. True, \<lambda>p. True]"]
    by (simp add: e)
qed

text \<open>The counter is never reset: once it has passed the last port, every allocation fails.\<close>

lemma ports_run_out:
  assumes "0 < base" "65535 \<le> base + counter" "\<And>p. 65535 < p \<Longrightarrow> \<not> free p"
  shows "fst (pickPort free listened closed base counter) = None"
  using pickPortWithLimit_outcome [where free = free and base = base and n = maxPickPortAttempts and counter = counter] assms by (auto simp: pickPort_def split: prod.splits option.splits)

end
