(* ===== verification/Deploy_Engine.thy ===== *)
theory Deploy_Engine
  imports Deploy_Manifest Deploy_Hosts Proxy_Hosts Deploy_Transition "HOL-Library.Char_ord" "HOL-Library.List_Lexorder"
begin

text \<open>
  The engine that runs deployments (\<^verbatim>\<open>components/deploy\<close>: \<^verbatim>\<open>engine.go\<close>, \<^verbatim>\<open>orchestrator.go\<close>, \<^verbatim>\<open>rollback.go\<close>, \<^verbatim>\<open>reconcile.go\<close>,
  \<^verbatim>\<open>domain_routing.go\<close>): triggering, the build pipeline, zero-downtime replacement, stopping, rollback, boot
  reconciliation and the routing of hosts.

  The state holds the database with its environment (\<open>world\<close> of Deploy_Transition), the apps of this process,
  the host table of the proxy, and a record of the effects on processes: supervisor stops, killed process
  groups, closed servers and started goroutines (\<open>en_tasks\<close>). A goroutine is a task of its own; drains are
  modelled, the ones that serve an app are not. Deploy log lines are left out. Commands, files, clocks and
  random identifiers are inputs. Among rows of equal age a query picks the first.
\<close>

section \<open>State\<close>

record runningApp =
  ra_pid :: int
  ra_server :: bool
  ra_host :: string
  ra_port :: int

datatype task =
    DrainTask string
  | StaticTask string string string
  | StartTask string string string string
  | SupervisedTask string string

record RollbackEvent =
  rb_id :: string
  rb_site :: string
  rb_from :: string
  rb_to :: string

record site_domain =
  sd_domain :: string
  sd_site :: string
  sd_verified :: bool

record engine =
  en_w :: world
  en_apps :: "(string, runningApp) go_map"
  en_old :: "(string, string list) go_map"
  en_draining :: "string list"
  en_proxy :: Proxy
  en_domains :: "site_domain list"
  en_rollbacks :: "RollbackEvent list"
  en_stops :: "string list"
  en_killed :: "int list"
  en_closed :: "string list"
  en_tasks :: "task list"
  en_counter :: int

record engine_cfg =
  ec_domain :: string
  ec_https :: bool
  ec_router :: bool
  ec_supervised :: bool
  ec_sm :: "StateMachine option"
  ec_builds :: string

abbreviation on_w :: "(world \<Rightarrow> world) \<Rightarrow> engine \<Rightarrow> engine" where
  "on_w f en \<equiv> en\<lparr> en_w := f (en_w en) \<rparr>"

text \<open>An \<^verbatim>\<open>UPDATE ... WHERE id = ?\<close> whose error is ignored, and a transition whose error is ignored.\<close>

definition exec_row :: "env \<Rightarrow> string \<Rightarrow> (Deployment \<Rightarrow> Deployment) \<Rightarrow> world \<Rightarrow> world" where
  "exec_row e did f w = (if failing e w then stmt e w else update_row did f (stmt e w))"

definition transition :: "env \<Rightarrow> engine_cfg \<Rightarrow> string \<Rightarrow> string \<Rightarrow> engine \<Rightarrow> engine" where
  "transition e c did status en = on_w (updateStatus e (ec_sm c) did status) en"

definition register :: "proxy_env \<Rightarrow> engine_cfg \<Rightarrow> string \<Rightarrow> int \<Rightarrow> string \<Rightarrow> string list \<Rightarrow> (string, string) go_map \<Rightarrow> engine \<Rightarrow> engine" where
  "register pe c host port siteID pp md en = en\<lparr> en_proxy := snd (RegisterDeploymentHost pe host port siteID pp md (en_proxy en)) \<rparr>"

section \<open>Stopping\<close>

definition supervisor_stop :: "engine_cfg \<Rightarrow> string \<Rightarrow> engine \<Rightarrow> engine" where
  "supervisor_stop c did en = (if ec_supervised c then en\<lparr> en_stops := en_stops en @ [did] \<rparr> else en)"

text \<open>Taking an app out of the registry, ending its process or server, and removing its host.\<close>

definition release_app :: "engine_cfg \<Rightarrow> string \<Rightarrow> runningApp \<Rightarrow> engine \<Rightarrow> engine" where
  "release_app c did a en =
     (let en1 = en\<lparr> en_apps := map_del did (en_apps en),
            en_killed := (if ra_pid a > 0 then en_killed en @ [ra_pid a] else en_killed en),
            en_closed := (if ra_server a then en_closed en @ [did] else en_closed en) \<rparr>
      in if ec_router c \<and> ra_host a \<noteq> [] then en1\<lparr> en_proxy := UnregisterDeploymentHost (ra_host a) (en_proxy en1) \<rparr> else en1)"

definition kill_orphan :: "env \<Rightarrow> string \<Rightarrow> engine \<Rightarrow> engine" where
  "kill_orphan e did en =
     (let w1 = stmt e (en_w en) in
      case (if failing e (en_w en) then None else map_of (w_rows w1) did) of
        None \<Rightarrow> en\<lparr> en_w := w1 \<rparr>
      | Some r \<Rightarrow> en\<lparr> en_w := w1, en_killed := (if PID r > 0 then en_killed en @ [PID r] else en_killed en) \<rparr>)"

definition stopDeployment :: "env \<Rightarrow> engine_cfg \<Rightarrow> string \<Rightarrow> string \<Rightarrow> engine \<Rightarrow> engine" where
  "stopDeployment e c did newStatus en0 =
     (let en = supervisor_stop c did en0;
          en1 = (case map_of (en_apps en) did of Some a \<Rightarrow> release_app c did a en | None \<Rightarrow> kill_orphan e did en)
      in if newStatus \<noteq> [] then on_w (forceStatus e did newStatus) en1 else en1)"

definition stopDeploymentWithTransition :: "env \<Rightarrow> engine_cfg \<Rightarrow> string \<Rightarrow> string \<Rightarrow> engine \<Rightarrow> engine" where
  "stopDeploymentWithTransition e c did newStatus en0 =
     (let en = supervisor_stop c did en0;
          en1 = (case map_of (en_apps en) did of Some a \<Rightarrow> release_app c did a en | None \<Rightarrow> en)
      in if newStatus \<noteq> [] then transition e c did newStatus en1 else en1)"

section \<open>Replacing old deployments\<close>

definition ids_where :: "(Deployment \<Rightarrow> bool) \<Rightarrow> rows \<Rightarrow> string list" where
  "ids_where P rs = map fst (filter (\<lambda>(did, r). P r) rs)"

definition get_list :: "(string, string list) go_map \<Rightarrow> string \<Rightarrow> string list" where
  "get_list m k = (case map_of m k of None \<Rightarrow> [] | Some v \<Rightarrow> v)"

definition collectPreviousDeployments :: "env \<Rightarrow> string \<Rightarrow> string \<Rightarrow> engine \<Rightarrow> engine" where
  "collectPreviousDeployments e siteID repoID en =
     (if siteID = [] \<and> repoID = [] then en
      else
        (let w1 = stmt e (en_w en); en1 = en\<lparr> en_w := w1 \<rparr> in
         if failing e (en_w en) then en1
         else
           (let ids = ids_where (\<lambda>r. (if siteID \<noteq> [] then SiteID r = siteID else RepoID r = repoID) \<and> Deployment.Status r = ''running'') (w_rows w1) in
            if ids = [] then en1 else en1\<lparr> en_old := map_put siteID (get_list (en_old en) siteID @ ids) (en_old en) \<rparr>)))"

definition drainOldDeployments :: "string \<Rightarrow> engine \<Rightarrow> engine" where
  "drainOldDeployments siteID en =
     en\<lparr> en_old := map_del siteID (en_old en), en_tasks := en_tasks en @ map DrainTask (get_list (en_old en) siteID) \<rparr>"

text \<open>\<open>sigterm\<close>: the signal could be sent; \<open>graceful\<close>: the app was gone before the drain timeout.\<close>

definition end_app :: "bool \<Rightarrow> bool \<Rightarrow> string \<Rightarrow> runningApp \<Rightarrow> engine \<Rightarrow> engine" where
  "end_app sigterm graceful did a en =
     (if ra_server a then en\<lparr> en_closed := en_closed en @ [did], en_killed := (if \<not> graceful \<and> ra_pid a > 0 then en_killed en @ [ra_pid a] else en_killed en) \<rparr>
      else if ra_pid a > 0 then (if sigterm \<and> graceful then en else en\<lparr> en_killed := en_killed en @ [ra_pid a] \<rparr>)
      else en)"

definition drainDeployment :: "env \<Rightarrow> engine_cfg \<Rightarrow> bool \<Rightarrow> bool \<Rightarrow> string \<Rightarrow> engine \<Rightarrow> engine" where
  "drainDeployment e c sigterm graceful did en =
     (if did \<in> set (en_draining en) then en
      else
        (let app = map_of (en_apps en) did;
             en1 = transition e c did ''draining'' (en\<lparr> en_draining := did # en_draining en \<rparr>);
             en2 = (case app of
                 None \<Rightarrow> stopDeployment e c did ''stopped'' en1
               | Some a \<Rightarrow>
                   (let en3 = end_app sigterm graceful did a (supervisor_stop c did en1);
                        en4 = en3\<lparr> en_apps := map_del did (en_apps en3) \<rparr>
                    in transition e c did (str StateStopped) en4))
         in en2\<lparr> en_draining := removeAll did (en_draining en2) \<rparr>))"

section \<open>Hosts\<close>

definition metadata_of :: "string \<Rightarrow> string \<Rightarrow> (string, string) go_map" where
  "metadata_of now sha = (''deployedAt'', now) # (if sha \<noteq> [] then [(''version'', sha)] else [])"

text \<open>\<open>parsed\<close> is the decoder of the stored passthrough paths.\<close>

definition finalizeDeploymentURL :: "env \<Rightarrow> proxy_env \<Rightarrow> engine_cfg \<Rightarrow> string \<Rightarrow> string \<Rightarrow> string list \<Rightarrow> Deployment \<Rightarrow> string \<Rightarrow> engine \<Rightarrow> engine" where
  "finalizeDeploymentURL e pe c now did pp d repoName en =
     (let url = deploymentURL (ec_domain c) (ec_https c) repoName (nat (Port d));
          host = deploymentHost (ec_domain c) repoName;
          en1 = on_w (exec_row e did (\<lambda>r. r\<lparr> URL := url, Port := Port d \<rparr>)) en
      in if ec_router c \<and> host \<noteq> [] then register pe c host (Port d) (SiteID d) pp (metadata_of now (CommitSHA d)) en1 else en1)"

text \<open>\<open>bad\<close>: the query failed. Registration errors of single domains are only logged.\<close>

definition RegisterCustomDomainHosts :: "proxy_env \<Rightarrow> engine_cfg \<Rightarrow> bool \<Rightarrow> string \<Rightarrow> int \<Rightarrow> engine \<Rightarrow> engine" where
  "RegisterCustomDomainHosts pe c bad siteID port en =
     (if \<not> ec_router c \<or> siteID = [] \<or> bad then en
      else fold (\<lambda>x. register pe c (sd_domain x) port siteID [] []) (filter (\<lambda>x. sd_site x = siteID \<and> sd_verified x) (en_domains en)) en)"

fun newest :: "(string \<times> Deployment) list \<Rightarrow> (string \<times> Deployment) option" where
  "newest [] = None"
| "newest (x # xs) = (case newest xs of None \<Rightarrow> Some x | Some y \<Rightarrow> if CreatedAt (snd x) < CreatedAt (snd y) then Some y else Some x)"

definition ActivateCustomDomain :: "env \<Rightarrow> proxy_env \<Rightarrow> engine_cfg \<Rightarrow> string \<Rightarrow> string \<Rightarrow> engine \<Rightarrow> bool \<times> engine" where
  "ActivateCustomDomain e pe c siteID domain en =
     (if \<not> ec_router c \<or> siteID = [] \<or> domain = [] then (True, en)
      else
        (let w1 = stmt e (en_w en); en1 = en\<lparr> en_w := w1 \<rparr> in
         case (if failing e (en_w en) then None
               else newest (filter (\<lambda>(did, r). SiteID r = siteID \<and> Deployment.Status r = ''running'' \<and> Port r > 0) (w_rows w1))) of
           None \<Rightarrow> (True, en1)
         | Some (did, r) \<Rightarrow>
             (case RegisterDeploymentHost pe domain (Port r) siteID [] [] (en_proxy en1) of
                (ok, p) \<Rightarrow> (ok, en1\<lparr> en_proxy := p \<rparr>))))"

definition restoreRunningDeploymentHosts :: "env \<Rightarrow> proxy_env \<Rightarrow> (string \<Rightarrow> string list) \<Rightarrow> engine_cfg \<Rightarrow> engine \<Rightarrow> engine" where
  "restoreRunningDeploymentHosts e pe parsed c en =
     (if \<not> ec_router c then en
      else
        (let w1 = stmt e (en_w en); en1 = en\<lparr> en_w := w1 \<rparr> in
         if failing e (en_w en) then en1
         else fold (\<lambda>(did, r) s.
             (let host = HostFromDeploymentURL (URL r) in
              if host = [] \<or> host = ''localhost'' then s
              else register pe c host (Port r) (SiteID r) (parsed (PassthroughPaths r)) (if CommitSHA r \<noteq> [] then [(''version'', CommitSHA r)] else []) s))
           (filter (\<lambda>(did, r). Deployment.Status r = ''running'' \<and> Port r > 0) (w_rows w1)) en1))"

section \<open>Rollback\<close>

datatype rollback_error =
    RDeploymentNotFound | RNoSite | RNotRunning string | RNoPrevious string | RNoArtifacts string | RStaticMissing | RNoID

definition rollback_candidate :: "string \<Rightarrow> string \<Rightarrow> string \<times> Deployment \<Rightarrow> bool" where
  "rollback_candidate siteID currentID x =
     (SiteID (snd x) = siteID \<and> fst x \<noteq> currentID \<and> Deployment.Status (snd x) \<notin> set ([str StateFailed, str StateRolledBack] @ InFlightStatuses))"

definition static_dir :: "(string \<Rightarrow> bool) \<Rightarrow> string \<Rightarrow> (CodedError, string) res" where
  "static_dir ex dir = (case ResolvePureStaticServeDir ex dir ''dist'' of
     Inr d \<Rightarrow> Inr d | Inl _ \<Rightarrow> ResolvePureStaticServeDir ex dir ''build'')"

definition rollback_metadata :: "string \<Rightarrow> string \<Rightarrow> (string, string) go_map" where
  "rollback_metadata now sha = [(''deployedAt'', now), (''rolledBack'', ''true'')] @ (if sha \<noteq> [] then [(''version'', sha)] else [])"

text \<open>From the choice of the target on: stop the current deployment, restore the old one, route and serve it.\<close>

definition restore_previous :: "env \<Rightarrow> proxy_env \<Rightarrow> (string \<Rightarrow> bool) \<Rightarrow> (string \<Rightarrow> string list) \<Rightarrow> engine_cfg \<Rightarrow> string \<Rightarrow> string option
    \<Rightarrow> string \<Rightarrow> string \<Rightarrow> string \<times> Deployment \<Rightarrow> engine \<Rightarrow> (rollback_error, RollbackEvent) res \<times> engine" where
  "restore_previous e pe ex parsed c now eid siteID currentID target en =
     (case target of (prev, r) \<Rightarrow>
       (let buildDir = path_join (ec_builds c) prev;
            en1 = stopDeploymentWithTransition e c currentID (str StateRolledBack) en;
            en2 = transition e c prev (str StateRunning) en1;
            host = HostFromDeploymentURL (URL r);
            en3 = (if host \<noteq> [] \<and> ec_router c
                   then register pe c host (Port r) siteID (parsed (PassthroughPaths r)) (rollback_metadata now (CommitSHA r)) en2 else en2);
            started = (if App_Type r = AppStatic
                   then (case static_dir ex buildDir of
                       Inl _ \<Rightarrow> None
                     | Inr dir \<Rightarrow> Some (en3\<lparr> en_tasks := en_tasks en3 @ [StaticTask dir prev (extractRepoName host)] \<rparr>))
                   else Some (en3\<lparr> en_tasks := en_tasks en3 @ [StartTask buildDir prev (App_Type r) (extractRepoName host)] \<rparr>))
        in case started of
             None \<Rightarrow> (Inl RStaticMissing, en3)
           | Some en4 \<Rightarrow>
               (case eid of
                  None \<Rightarrow> (Inl RNoID, en4)
                | Some i \<Rightarrow>
                    (let ev = \<lparr> rb_id = i, rb_site = siteID, rb_from = prev, rb_to = currentID \<rparr>;
                         w1 = stmt e (en_w en4)
                     in (Inr ev, en4\<lparr> en_w := w1, en_rollbacks := (if failing e (en_w en4) then en_rollbacks en4 else en_rollbacks en4 @ [ev]) \<rparr>)))))"

definition Rollback :: "env \<Rightarrow> proxy_env \<Rightarrow> (string \<Rightarrow> bool) \<Rightarrow> (string \<Rightarrow> string list) \<Rightarrow> engine_cfg \<Rightarrow> string \<Rightarrow> string option \<Rightarrow> string
    \<Rightarrow> engine \<Rightarrow> (rollback_error, RollbackEvent) res \<times> engine" where
  "Rollback e pe ex parsed c now eid currentID en =
     (let w1 = stmt e (en_w en); en1 = en\<lparr> en_w := w1 \<rparr> in
      case (if failing e (en_w en) then None else map_of (w_rows w1) currentID) of
        None \<Rightarrow> (Inl RDeploymentNotFound, en1)
      | Some cur \<Rightarrow>
          if SiteID cur = [] then (Inl RNoSite, en1)
          else if Deployment.Status cur \<noteq> str StateRunning then (Inl (RNotRunning (Deployment.Status cur)), en1)
          else
            (let w2 = stmt e w1; en2 = en1\<lparr> en_w := w2 \<rparr> in
             case (if failing e w1 then None else newest (filter (rollback_candidate (SiteID cur) currentID) (w_rows w2))) of
               None \<Rightarrow> (Inl (RNoPrevious (SiteID cur)), en2)
             | Some target \<Rightarrow>
                 if \<not> ex (path_join (ec_builds c) (fst target)) then (Inl (RNoArtifacts (fst target)), en2)
                 else restore_previous e pe ex parsed c now eid (SiteID cur) currentID target en2))"

section \<open>Boot reconciliation\<close>

abbreviation reconcileInFlightMessage :: string where "reconcileInFlightMessage \<equiv> ''reconciliation: orphaned by process restart''"
abbreviation reconcileRunningMessage :: string where "reconcileRunningMessage \<equiv> ''reconciliation: running deployment has no port''"

text \<open>\<open>parse\<close> reads a stored timestamp: \<open>None\<close> for an empty or unreadable one.\<close>

definition isStaleDeploymentTime :: "(string \<Rightarrow> int option) \<Rightarrow> string \<Rightarrow> int \<Rightarrow> bool" where
  "isStaleDeploymentTime parse createdAt cutoff = (case parse createdAt of None \<Rightarrow> True | Some ts \<Rightarrow> ts < cutoff)"

abbreviation defaultReconcileStaleAfter :: int where "defaultReconcileStaleAfter \<equiv> 30 * 60 * 1000000000"

definition reconcile_reason :: "(string \<Rightarrow> int option) \<Rightarrow> int \<Rightarrow> Deployment \<Rightarrow> string option" where
  "reconcile_reason parse cutoff r =
     (if Deployment.Status r = ''running'' then (if Port r \<le> 0 then Some reconcileRunningMessage else None)
      else if Deployment.Status r \<in> {''pending'', ''building'', ''deploying'', ''draining''} \<and> isStaleDeploymentTime parse (CreatedAt r) cutoff
      then Some reconcileInFlightMessage else None)"

fun reconcile_loop :: "env \<Rightarrow> StateMachine option \<Rightarrow> (string \<times> string) list \<Rightarrow> world \<Rightarrow> nat \<times> world" where
  "reconcile_loop e sm [] w = (0, w)"
| "reconcile_loop e sm ((did, reason) # cs) w =
     (let w1 = stmt e w in
      if failing e w then reconcile_loop e sm cs w1
      else (case TransitionState e sm did (str StateFailed) (update_row did (\<lambda>r. r\<lparr> ErrorMessage := reason \<rparr>) w1) of
          (Inl _, w2) \<Rightarrow> reconcile_loop e sm cs w2
        | (Inr _, w2) \<Rightarrow> (case reconcile_loop e sm cs w2 of (n, w3) \<Rightarrow> (Suc n, w3))))"

definition reconcile_candidates :: "(string \<Rightarrow> int option) \<Rightarrow> int \<Rightarrow> rows \<Rightarrow> (string \<times> string) list" where
  "reconcile_candidates parse cutoff rs = List.map_filter (\<lambda>(did, r). map_option (Pair did) (reconcile_reason parse cutoff r)) rs"

definition reconcileOrphanedDeployments :: "env \<Rightarrow> StateMachine option \<Rightarrow> (string \<Rightarrow> int option) \<Rightarrow> int \<Rightarrow> int \<Rightarrow> world \<Rightarrow> nat \<times> world" where
  "reconcileOrphanedDeployments e sm parse staleAfter now w =
     (let threshold = (if staleAfter \<le> 0 then defaultReconcileStaleAfter else staleAfter);
          w1 = stmt e w
      in if failing e w then (0, w1) else reconcile_loop e sm (reconcile_candidates parse (now - threshold) (w_rows w1)) w1)"

section \<open>Deleting the deployments of a site\<close>

text \<open>Here a host is unregistered even if it is empty, and servers are closed at once.\<close>

definition delete_one :: "engine_cfg \<Rightarrow> string \<Rightarrow> engine \<Rightarrow> engine" where
  "delete_one c did en = (case map_of (en_apps en) did of
     None \<Rightarrow> en
   | Some a \<Rightarrow>
       (let en1 = en\<lparr> en_apps := map_del did (en_apps en),
              en_killed := (if ra_pid a > 0 then en_killed en @ [ra_pid a] else en_killed en),
              en_closed := (if ra_server a then en_closed en @ [did] else en_closed en) \<rparr>
        in if ec_router c then en1\<lparr> en_proxy := UnregisterDeploymentHost (ra_host a) (en_proxy en1) \<rparr> else en1))"

definition of_site :: "string \<Rightarrow> string \<Rightarrow> Deployment \<Rightarrow> bool" where
  "of_site siteID repoID r = (SiteID r = siteID \<or> (SiteID r = [] \<and> RepoID r = repoID))"

definition DeleteSiteDeployments :: "env \<Rightarrow> engine_cfg \<Rightarrow> string \<Rightarrow> string \<Rightarrow> engine \<Rightarrow> bool \<times> engine" where
  "DeleteSiteDeployments e c siteID repoID en =
     (let w1 = stmt e (en_w en); en1 = en\<lparr> en_w := w1 \<rparr> in
      if failing e (en_w en) then (False, en1)
      else
        (let en2 = fold (delete_one c) (ids_where (of_site siteID repoID) (w_rows w1)) en1;
             w2 = stmt e (en_w en2)
         in if failing e (en_w en2) then (False, en2\<lparr> en_w := w2 \<rparr>)
            else (True, en2\<lparr> en_w := w2\<lparr> w_rows := filter (\<lambda>(did, r). \<not> of_site siteID repoID r) (w_rows w2) \<rparr> \<rparr>)))"

end
