(* ===== verification/Deploy_Replace.thy ===== *)
theory Deploy_Replace
  imports Deploy_Engine
begin

text \<open>
  Rollback and boot reconciliation of the deployment engine, without interference of other processes on the
  database (\<open>quiet_env\<close>), and the effects of stops, drains and deletions on the registry of apps.
\<close>

section \<open>What the steps keep\<close>

lemma transition_keeps [simp]:
  "en_apps (transition e c did st en) = en_apps en" "en_proxy (transition e c did st en) = en_proxy en"
  "en_tasks (transition e c did st en) = en_tasks en" "en_old (transition e c did st en) = en_old en"
  "en_rollbacks (transition e c did st en) = en_rollbacks en" "en_domains (transition e c did st en) = en_domains en"
  "en_draining (transition e c did st en) = en_draining en"
  "en_w (transition e c did st en) = updateStatus e (ec_sm c) did st (en_w en)"
  by (simp_all add: transition_def)

lemma register_keeps [simp]:
  "en_apps (register pe c h n s pp md en) = en_apps en" "en_w (register pe c h n s pp md en) = en_w en"
  "en_tasks (register pe c h n s pp md en) = en_tasks en" "en_old (register pe c h n s pp md en) = en_old en"
  "en_rollbacks (register pe c h n s pp md en) = en_rollbacks en" "en_domains (register pe c h n s pp md en) = en_domains en"
  "en_proxy (register pe c h n s pp md en) = snd (RegisterDeploymentHost pe h n s pp md (en_proxy en))"
  by (simp_all add: register_def)

lemma supervisor_stop_keeps [simp]:
  "en_apps (supervisor_stop c did en) = en_apps en" "en_w (supervisor_stop c did en) = en_w en"
  "en_tasks (supervisor_stop c did en) = en_tasks en" "en_old (supervisor_stop c did en) = en_old en"
  "en_proxy (supervisor_stop c did en) = en_proxy en" "en_rollbacks (supervisor_stop c did en) = en_rollbacks en"
  "en_draining (supervisor_stop c did en) = en_draining en" "en_domains (supervisor_stop c did en) = en_domains en"
  by (simp_all add: supervisor_stop_def)

lemma release_app_keeps [simp]:
  "en_apps (release_app c did a en) = map_del did (en_apps en)" "en_w (release_app c did a en) = en_w en"
  "en_tasks (release_app c did a en) = en_tasks en" "en_old (release_app c did a en) = en_old en"
  "en_rollbacks (release_app c did a en) = en_rollbacks en" "en_draining (release_app c did a en) = en_draining en"
  by (simp_all add: release_app_def Let_def)

lemma map_del_absent: "map_of m k = None \<Longrightarrow> map_del k m = m"
  by (induction m) (auto simp: map_del_def split: if_splits)

lemma stop_transition_keeps:
  "en_apps (stopDeploymentWithTransition e c did st en) = map_del did (en_apps en)"
  "en_tasks (stopDeploymentWithTransition e c did st en) = en_tasks en"
  "en_rollbacks (stopDeploymentWithTransition e c did st en) = en_rollbacks en"
  "st \<noteq> [] \<Longrightarrow> en_w (stopDeploymentWithTransition e c did st en) = updateStatus e (ec_sm c) did st (en_w en)"
  by (auto simp: stopDeploymentWithTransition_def Let_def map_del_absent split: option.split)

section \<open>A transition alone\<close>

definition may_turn :: "string \<Rightarrow> string \<Rightarrow> bool" where
  "may_turn old new = (old \<noteq> new \<and> (CanTransition NewStateMachine old new \<or> \<not> IsValidState NewStateMachine old))"

lemma quiet_TransitionState:
  assumes "map_of (w_rows w) did = Some r" "may_turn (Deployment.Status r) new"
  shows "fst (TransitionState (quiet_env now) (Some NewStateMachine) did new w) = Inr ()"
    and "map_of (w_rows (snd (TransitionState (quiet_env now) (Some NewStateMachine) did new w)))
      = (map_of (w_rows w))(did \<mapsto> transitioned w now did new r)"
  using transition_quiet_cases [where now = now and sm = NewStateMachine and did = did and new = new and w = w] assms by (auto simp: may_turn_def split: prod.splits)

lemma quiet_update_same:
  assumes "map_of (w_rows w) did = Some r" "Deployment.Status r = new"
  shows "w_rows (updateStatus (quiet_env now) (Some NewStateMachine) did new w) = w_rows w"
  using transition_quiet_cases [where now = now and sm = NewStateMachine and did = did and new = new and w = w] assms by (auto simp: updateStatus_def split: prod.splits)

lemmas quiet_update = quiet_TransitionState(2) [folded updateStatus_def]

lemma transitioned_fields [simp]:
  "Deployment.Status (transitioned w now did new r) = new" "SiteID (transitioned w now did new r) = SiteID r"
  "Port (transitioned w now did new r) = Port r" "ErrorMessage (transitioned w now did new r) = ErrorMessage r"
  "CreatedAt (transitioned w now did new r) = CreatedAt r" "URL (transitioned w now did new r) = URL r"
  by (simp_all add: transitioned_def Let_def)

section \<open>The newest row\<close>

lemma newest_Some: "newest xs = Some x \<Longrightarrow> x \<in> set xs \<and> (\<forall>y \<in> set xs. CreatedAt (snd y) \<le> CreatedAt (snd x))"
proof (induction xs arbitrary: x)
  case (Cons a xs)
  show ?case
  proof (cases "newest xs")
    case None
    then have "xs = []" by (cases xs) (auto split: option.splits if_splits)
    then show ?thesis using Cons.prems by simp
  next
    case (Some y)
    then show ?thesis using Cons.IH [OF Some] Cons.prems by (auto split: if_splits intro: order_trans less_imp_le)
  qed
qed simp

section \<open>Ids stay unique\<close>

lemma wf_update_row [simp]: "wf_map (w_rows w) \<Longrightarrow> wf_map (w_rows (update_row did f w))"
  by (auto simp: update_row_def split: option.split)

lemma wf_append [simp]: "wf_map (w_rows w) \<Longrightarrow> wf_map (w_rows (appendStatusHistory (quiet_env now) did tr w))"
  by (auto simp: appendStatusHistory_def Let_def split: option.split)

lemma wf_emit [simp]: "w_rows (emit ev w) = w_rows w"
  by (simp add: emit_def)

lemma rows_deploymentOrg [simp]: "w_rows (snd (deploymentOrg (quiet_env now) did w)) = w_rows w"
  by (simp add: deploymentOrg_def Let_def)

lemma rows_emitDeployFailed [simp]: "w_rows (emitDeployFailed (quiet_env now) did w) = w_rows w"
  by (simp add: emitDeployFailed_def Let_def split_beta split: option.split)

lemma wf_after_cas [simp]: "wf_map (w_rows w) \<Longrightarrow> wf_map (w_rows (after_cas (quiet_env now) did a b w))"
  by (simp add: after_cas_def Let_def split_beta)

lemma wf_cas: "wf_map (w_rows w) \<Longrightarrow> wf_map (w_rows (snd (compareAndSwapStatus (quiet_env now) did a b bl w)))"
  by (auto simp: compareAndSwapStatus_def Let_def split: option.split)

lemma wf_transition_loop: "wf_map (w_rows w) \<Longrightarrow> wf_map (w_rows (snd (transition_loop n (quiet_env now) sm did new w)))"
proof (induction n arbitrary: w)
  case (Suc n)
  have c: "wf_map (w_rows (snd (compareAndSwapStatus (quiet_env now) did a new bl (stmt (quiet_env now) w))))" for a bl
    by (rule wf_cas) (simp add: Suc.prems)
  show ?case
  proof (cases "map_of (w_rows w) did")
    case None
    then show ?thesis using Suc.prems by (simp add: query_status_def)
  next
    case (Some r)
    define bl where "bl = (if IsTerminal new then Join (logs_get (dl_logs (w_logs (stmt (quiet_env now) w))) did) nl else [])"
    obtain res w2 where cas: "compareAndSwapStatus (quiet_env now) did (Deployment.Status r) new bl (stmt (quiet_env now) w) = (res, w2)" by force
    have w2: "wf_map (w_rows w2)" using c cas by (metis snd_conv)
    have q: "query_status (quiet_env now) did w = (Some (Deployment.Status r), stmt (quiet_env now) w)" using Some by (simp add: query_status_def)
    show ?thesis unfolding transition_loop.simps q prod.case option.case Let_def bl_def [symmetric] cas
      using Suc.prems Suc.IH [OF w2] w2 by (auto split: sum.split bool.split)
  qed
qed simp

lemma wf_TransitionState: "wf_map (w_rows w) \<Longrightarrow> wf_map (w_rows (snd (TransitionState (quiet_env now) sm did new w)))"
  by (auto simp: TransitionState_def wf_transition_loop split: option.split)

section \<open>Boot reconciliation\<close>

lemma map_of_wf: "wf_map m \<Longrightarrow> (k, v) \<in> set m \<Longrightarrow> map_of m k = Some v"
  by (simp add: wf_map_def)

lemma may_turn_failed:
  assumes "reconcile_reason parse cutoff r \<noteq> None"
  shows "may_turn (Deployment.Status r) (str StateFailed)"
proof -
  obtain s where s: "Deployment.Status r = str s" "s \<in> {StateRunning, StatePending, StateBuilding, StateDeploying, StateDraining}"
    using assms str.simps by (auto simp: reconcile_reason_def split: if_splits) metis+
  then show ?thesis using CanTransition_str [of s StateFailed] by (auto simp: may_turn_def)
qed

lemma failed_no_reason: "Deployment.Status r = str StateFailed \<Longrightarrow> reconcile_reason parse cutoff r = None"
  by (simp add: reconcile_reason_def str.simps)

definition reconciled_row :: "string \<Rightarrow> Deployment \<Rightarrow> Deployment \<Rightarrow> bool" where
  "reconciled_row reason r r' = (Deployment.Status r' = str StateFailed \<and> ErrorMessage r' = reason \<and> SiteID r' = SiteID r \<and> Port r' = Port r
     \<and> CreatedAt r' = CreatedAt r)"

lemma reconcile_loop_quiet:
  assumes "distinct (map fst cs)" "\<And>did reason. (did, reason) \<in> set cs \<Longrightarrow> \<exists>r. map_of (w_rows w) did = Some r \<and> may_turn (Deployment.Status r) (str StateFailed)"
    "wf_map (w_rows w)"
  shows "case reconcile_loop (quiet_env t) (Some NewStateMachine) cs w of (n, w') \<Rightarrow> n = length cs \<and> wf_map (w_rows w')
    \<and> (\<forall>did. did \<notin> fst ` set cs \<longrightarrow> map_of (w_rows w') did = map_of (w_rows w) did)
    \<and> (\<forall>did reason. (did, reason) \<in> set cs \<longrightarrow> (\<exists>r r'. map_of (w_rows w) did = Some r \<and> map_of (w_rows w') did = Some r' \<and> reconciled_row reason r r'))"
  using assms
proof (induction cs arbitrary: w)
  case (Cons c cs)
  obtain did reason where c: "c = (did, reason)" by force
  obtain r where r: "map_of (w_rows w) did = Some r" "may_turn (Deployment.Status r) (str StateFailed)" using Cons.prems(2) [of did reason] c by (meson list.set_intros(1))
  let ?w1 = "update_row did (\<lambda>r. r\<lparr> ErrorMessage := reason \<rparr>) (stmt (quiet_env t) w)"
  have r1: "map_of (w_rows ?w1) did = Some (r\<lparr> ErrorMessage := reason \<rparr>)" using r by (simp add: map_of_update_row)
  have acc: "may_turn (Deployment.Status (r\<lparr> ErrorMessage := reason \<rparr>)) (str StateFailed)" using r(2) by simp
  obtain w2 where w2: "TransitionState (quiet_env t) (Some NewStateMachine) did (str StateFailed) ?w1 = (Inr (), w2)"
    "map_of (w_rows w2) = (map_of (w_rows ?w1))(did \<mapsto> transitioned ?w1 t did (str StateFailed) (r\<lparr> ErrorMessage := reason \<rparr>))"
    using quiet_TransitionState [OF r1 acc, of t] by (metis prod.collapse)
  have m2: "map_of (w_rows w2) x = map_of (w_rows w) x" if "x \<noteq> did" for x using that w2(2) r(1) by (simp add: map_of_update_row)
  have wf2: "wf_map (w_rows w2)" using wf_TransitionState [of ?w1 t "Some NewStateMachine" did "str StateFailed"] w2(1) Cons.prems(3) by simp
  have notin: "did \<notin> fst ` set cs" using Cons.prems(1) c by simp
  have pre: "\<exists>r. map_of (w_rows w2) x = Some r \<and> may_turn (Deployment.Status r) (str StateFailed)" if x: "(x, y) \<in> set cs" for x y
  proof -
    have "x \<noteq> did" using x notin by force
    then show ?thesis using Cons.prems(2) [of x y] x m2 by simp
  qed
  obtain n w3 where w3: "reconcile_loop (quiet_env t) (Some NewStateMachine) cs w2 = (n, w3)" by force
  have IH: "n = length cs" "wf_map (w_rows w3)" "\<And>x. x \<notin> fst ` set cs \<Longrightarrow> map_of (w_rows w3) x = map_of (w_rows w2) x"
    "\<And>x y. (x, y) \<in> set cs \<Longrightarrow> \<exists>r r'. map_of (w_rows w2) x = Some r \<and> map_of (w_rows w3) x = Some r' \<and> reconciled_row y r r'"
    using Cons.IH [of w2, OF _ pre wf2] Cons.prems(1) w3 by auto
  have run: "reconcile_loop (quiet_env t) (Some NewStateMachine) (c # cs) w = (Suc n, w3)" using c w2(1) w3 by simp
  have d: "\<exists>r r'. map_of (w_rows w) did = Some r \<and> map_of (w_rows w3) did = Some r' \<and> reconciled_row reason r r'"
    using IH(3) [OF notin] w2(2) r(1) by (simp add: reconciled_row_def)
  have rest: "\<exists>r r'. map_of (w_rows w) x = Some r \<and> map_of (w_rows w3) x = Some r' \<and> reconciled_row y r r'" if x: "(x, y) \<in> set cs" for x y
  proof -
    have "x \<noteq> did" using x notin by force
    then show ?thesis using IH(4) [OF x] m2 by simp
  qed
  have out: "map_of (w_rows w3) x = map_of (w_rows w) x" if "x \<notin> fst ` set (c # cs)" for x using that IH(3) m2 c by simp
  show ?case unfolding run using IH(1,2) d rest out c by auto
qed simp

lemma set_reconcile_candidates:
  "set (reconcile_candidates parse cutoff rs) = {(did, m) |did m. \<exists>r. (did, r) \<in> set rs \<and> reconcile_reason parse cutoff r = Some m}"
  by (force simp: reconcile_candidates_def List.map_filter_def)

lemma distinct_reconcile_candidates:
  "distinct (map fst rs) \<Longrightarrow> distinct (map fst (reconcile_candidates parse cutoff rs))"
proof (induction rs)
  case (Cons x rs)
  then show ?case using set_reconcile_candidates [of parse cutoff rs]
    by (cases x; cases "reconcile_reason parse cutoff (snd x)") (auto simp: reconcile_candidates_def List.map_filter_def rev_image_eqI)
qed (simp add: reconcile_candidates_def List.map_filter_def)

definition reconcile_cutoff :: "int \<Rightarrow> int \<Rightarrow> int" where
  "reconcile_cutoff staleAfter now = now - (if staleAfter \<le> 0 then defaultReconcileStaleAfter else staleAfter)"

lemma reconcile_quiet:
  assumes wf: "wf_map (w_rows w)" and run: "reconcileOrphanedDeployments (quiet_env t) (Some NewStateMachine) parse stale now w = (n, w')"
  shows "n = length (reconcile_candidates parse (reconcile_cutoff stale now) (w_rows w))" "wf_map (w_rows w')"
    "\<And>did. case map_of (w_rows w) did of
        None \<Rightarrow> map_of (w_rows w') did = None
      | Some r \<Rightarrow> (case reconcile_reason parse (reconcile_cutoff stale now) r of
          None \<Rightarrow> map_of (w_rows w') did = Some r
        | Some m \<Rightarrow> \<exists>r'. map_of (w_rows w') did = Some r' \<and> reconciled_row m r r')"
proof -
  let ?k = "reconcile_cutoff stale now"
  let ?cs = "reconcile_candidates parse ?k (w_rows w)"
  have loop: "reconcile_loop (quiet_env t) (Some NewStateMachine) ?cs (stmt (quiet_env t) w) = (n, w')"
    using run by (simp add: reconcileOrphanedDeployments_def Let_def reconcile_cutoff_def)
  have ok: "\<exists>r. map_of (w_rows (stmt (quiet_env t) w)) did = Some r \<and> may_turn (Deployment.Status r) (str StateFailed)"
    if "(did, reason) \<in> set ?cs" for did reason
    using that map_of_wf [OF wf] may_turn_failed by (fastforce simp: set_reconcile_candidates)
  have w1: "wf_map (w_rows (stmt (quiet_env t) w))" using wf by simp
  have "distinct (map fst ?cs)" by (rule distinct_reconcile_candidates) (use wf in \<open>simp add: wf_map_def\<close>)
  from reconcile_loop_quiet [OF this ok w1, where t = t]
  have q: "n = length ?cs" "wf_map (w_rows w')" "\<And>did. did \<notin> fst ` set ?cs \<Longrightarrow> map_of (w_rows w') did = map_of (w_rows w) did"
    "\<And>did m. (did, m) \<in> set ?cs \<Longrightarrow> \<exists>r r'. map_of (w_rows w) did = Some r \<and> map_of (w_rows w') did = Some r' \<and> reconciled_row m r r'"
    unfolding loop prod.case by simp_all
  show "n = length ?cs" "wf_map (w_rows w')" using q by auto
  fix did
  show "case map_of (w_rows w) did of
        None \<Rightarrow> map_of (w_rows w') did = None
      | Some r \<Rightarrow> (case reconcile_reason parse ?k r of
          None \<Rightarrow> map_of (w_rows w') did = Some r
        | Some m \<Rightarrow> \<exists>r'. map_of (w_rows w') did = Some r' \<and> reconciled_row m r r')"
  proof (cases "\<exists>m. (did, m) \<in> set ?cs")
    case True
    then obtain m r where m: "(did, m) \<in> set ?cs" "(did, r) \<in> set (w_rows w)" "reconcile_reason parse ?k r = Some m"
      by (auto simp: set_reconcile_candidates)
    then show ?thesis using q(4) [OF m(1)] map_of_wf [OF wf m(2)] by auto
  next
    case False
    then have "map_of (w_rows w') did = map_of (w_rows w) did" using q(3) by force
    moreover have "reconcile_reason parse ?k r = None" if "map_of (w_rows w) did = Some r" for r
      using False map_of_SomeD [OF that] by (cases "reconcile_reason parse ?k r") (auto simp: set_reconcile_candidates)
    ultimately show ?thesis by (auto split: option.split)
  qed
qed

text \<open>
  C5. Boot reconciliation cleans up completely and touches nothing else: a row that no process can still be
  working on (in flight and older than the threshold or of unreadable age, or running without a port) is
  failed with its reason, every other row is unchanged, no such row remains, and a second pass with the same
  cutoff finds nothing to do.
\<close>

theorem reconcile_converges:
  assumes "wf_map (w_rows w)" "reconcileOrphanedDeployments (quiet_env t) (Some NewStateMachine) parse stale now w = (n, w')"
  shows "(\<forall>did. case map_of (w_rows w) did of
        None \<Rightarrow> map_of (w_rows w') did = None
      | Some r \<Rightarrow> (case reconcile_reason parse (reconcile_cutoff stale now) r of
          None \<Rightarrow> map_of (w_rows w') did = Some r
        | Some m \<Rightarrow> \<exists>r'. map_of (w_rows w') did = Some r' \<and> reconciled_row m r r'))
    \<and> (\<forall>did r. map_of (w_rows w') did = Some r \<longrightarrow> reconcile_reason parse (reconcile_cutoff stale now) r = None)
    \<and> fst (reconcileOrphanedDeployments (quiet_env t') (Some NewStateMachine) parse stale now w') = 0"
proof -
  note q = reconcile_quiet [OF assms]
  let ?k = "reconcile_cutoff stale now"
  have gone: "reconcile_reason parse ?k r = None" if "map_of (w_rows w') did = Some r" for did r
    using q(3) [of did] that by (auto simp: reconciled_row_def failed_no_reason split: option.splits)
  obtain n2 w2 where second: "reconcileOrphanedDeployments (quiet_env t') (Some NewStateMachine) parse stale now w' = (n2, w2)" by force
  have "x \<notin> set (reconcile_candidates parse ?k (w_rows w'))" for x
  proof
    assume "x \<in> set (reconcile_candidates parse ?k (w_rows w'))"
    then obtain did r m where "(did, r) \<in> set (w_rows w')" "reconcile_reason parse ?k r = Some m" unfolding set_reconcile_candidates by blast
    then show False using gone [OF map_of_wf [OF q(2)]] by simp
  qed
  then have "reconcile_candidates parse ?k (w_rows w') = []" by (meson list.set_sel(1))
  then have "n2 = 0" using reconcile_quiet(1) [OF q(2) second] by simp
  then show ?thesis using q(3) gone second by simp
qed

definition orphan_world :: world where
  "orphan_world = sample_world [(''d1'', sample_row ''building''), (''d2'', sample_row ''running'')]"

theorem reconcile_converges_witness:
  "fst (reconcileOrphanedDeployments (quiet_env ''t'') (Some NewStateMachine) (\<lambda>_. None) 0 0
     (snd (reconcileOrphanedDeployments (quiet_env ''t'') (Some NewStateMachine) (\<lambda>_. None) 0 0 orphan_world))) = 0
   \<and> map_of (w_rows (snd (reconcileOrphanedDeployments (quiet_env ''t'') (Some NewStateMachine) (\<lambda>_. None) 0 0 orphan_world))) ''d2'' = Some (sample_row ''running'')"
proof -
  have wf: "wf_map (w_rows orphan_world)" by (simp add: orphan_world_def sample_world_def wf_map_def)
  have d2: "map_of (w_rows orphan_world) ''d2'' = Some (sample_row ''running'')" by (simp add: orphan_world_def sample_world_def)
  have none: "reconcile_reason (\<lambda>_. None) k (sample_row ''running'') = None" for k by (simp add: reconcile_reason_def sample_row_def)
  note r = reconcile_converges [OF wf prod.collapse [symmetric], of "''t''" "\<lambda>_. None" 0 0 "''t''"]
  from r show ?thesis using d2 none by (auto dest!: spec [of _ "''d2''"])
qed

section \<open>Rollback\<close>

lemma InFlightStatuses_str: "set InFlightStatuses = {str StatePending, str StateBuilding, str StateDeploying, str StateDraining}"
  by (simp add: InFlightStatuses_def)

lemma candidate_may_turn:
  assumes "rollback_candidate site cur (prev, r)"
  shows "Deployment.Status r = str StateRunning \<or> may_turn (Deployment.Status r) (str StateRunning)"
proof (cases "\<exists>s. Deployment.Status r = str s")
  case True
  then obtain s where s: "Deployment.Status r = str s" by blast
  then have "s \<in> {StateRunning, StateStopped}"
    using assms by (cases s) (auto simp: rollback_candidate_def InFlightStatuses_str)
  then show ?thesis using s CanTransition_str [of StateStopped StateRunning] by (auto simp: may_turn_def)
next
  case False
  then show ?thesis by (auto simp: may_turn_def IsValidState_iff)
qed

lemma quiet_to_running:
  assumes "map_of (w_rows w) did = Some r" "Deployment.Status r = str StateRunning \<or> may_turn (Deployment.Status r) (str StateRunning)"
  shows "\<exists>r'. map_of (w_rows (updateStatus (quiet_env t) (Some NewStateMachine) did (str StateRunning) w)) = (map_of (w_rows w))(did \<mapsto> r')
    \<and> Deployment.Status r' = str StateRunning \<and> Port r' = Port r \<and> SiteID r' = SiteID r \<and> URL r' = URL r"
  using assms(2)
proof
  assume s: "Deployment.Status r = str StateRunning"
  from quiet_update_same [OF assms(1) s, of t] show ?thesis using assms(1) s by (intro exI [of _ r]) (auto simp: fun_upd_idem)
next
  assume a: "may_turn (Deployment.Status r) (str StateRunning)"
  from quiet_update [OF assms(1) a, of t] show ?thesis by auto
qed

lemma newest_None: "newest xs = None \<longleftrightarrow> xs = []"
  by (cases xs) (auto split: option.split)

definition serving_task :: "(string \<Rightarrow> bool) \<Rightarrow> engine_cfg \<Rightarrow> string \<Rightarrow> Deployment \<Rightarrow> task list" where
  "serving_task ex c prev p =
     (let dir = path_join (ec_builds c) prev; repo = extractRepoName (HostFromDeploymentURL (URL p)) in
      if App_Type p = AppStatic then (case static_dir ex dir of Inl _ \<Rightarrow> [] | Inr d \<Rightarrow> [StaticTask d prev repo])
      else [StartTask dir prev (App_Type p) repo])"

text \<open>What holds after the current deployment was replaced by the target.\<close>

definition replaced :: "engine_cfg \<Rightarrow> string \<Rightarrow> string \<Rightarrow> Deployment \<Rightarrow> Deployment \<Rightarrow> engine \<Rightarrow> engine \<Rightarrow> bool" where
  "replaced c cur prev r p en en' =
     ((\<exists>r' p'. map_of (w_rows (en_w en')) = (map_of (w_rows (en_w en)))(cur \<mapsto> r', prev \<mapsto> p')
         \<and> Deployment.Status r' = str StateRolledBack \<and> Deployment.Status p' = str StateRunning \<and> Port p' = Port p)
      \<and> en_apps en' = map_del cur (en_apps en)
      \<and> (ec_router c \<and> routable (HostFromDeploymentURL (URL p)) (Port p) \<longrightarrow>
           host_target (en_proxy en') (HostFromDeploymentURL (URL p)) = Some (Port p, SiteID r)))"

lemma replace_rows:
  fixes t :: string
  assumes sm: "ec_sm c = Some NewStateMachine" and r: "map_of (w_rows (en_w en)) cur = Some r" "Deployment.Status r = str StateRunning"
    and p: "map_of (w_rows (en_w en)) prev = Some p" "rollback_candidate (SiteID r) cur (prev, p)"
  defines "en2 \<equiv> transition (quiet_env t) c prev (str StateRunning) (stopDeploymentWithTransition (quiet_env t) c cur (str StateRolledBack) en)"
  shows "\<exists>r' p'. map_of (w_rows (en_w en2)) = (map_of (w_rows (en_w en)))(cur \<mapsto> r', prev \<mapsto> p')
      \<and> Deployment.Status r' = str StateRolledBack \<and> Deployment.Status p' = str StateRunning \<and> Port p' = Port p"
    and "en_apps en2 = map_del cur (en_apps en)" "en_tasks en2 = en_tasks en" "en_rollbacks en2 = en_rollbacks en"
proof -
  let ?w1 = "updateStatus (quiet_env t) (Some NewStateMachine) cur (str StateRolledBack) (en_w en)"
  have ne: "prev \<noteq> cur" using p(2) by (simp add: rollback_candidate_def)
  have acc: "may_turn (Deployment.Status r) (str StateRolledBack)"
    using r(2) CanTransition_str [of StateRunning StateRolledBack] by (simp add: may_turn_def)
  note w1 = quiet_update [OF r(1) acc, of t]
  have p1: "map_of (w_rows ?w1) prev = Some p" using w1 p(1) ne by simp
  obtain p' where p': "map_of (w_rows (updateStatus (quiet_env t) (Some NewStateMachine) prev (str StateRunning) ?w1)) = (map_of (w_rows ?w1))(prev \<mapsto> p')"
    "Deployment.Status p' = str StateRunning" "Port p' = Port p"
    using quiet_to_running [OF p1 candidate_may_turn [OF p(2)], of t] by blast
  have s: "str StateRolledBack \<noteq> []" by (simp add: str.simps)
  have "en_w en2 = updateStatus (quiet_env t) (Some NewStateMachine) prev (str StateRunning) ?w1"
    by (simp add: en2_def stop_transition_keeps(4) [OF s] sm)
  then have rows: "map_of (w_rows (en_w en2)) = (map_of (w_rows (en_w en)))(cur \<mapsto> transitioned (en_w en) t cur (str StateRolledBack) r, prev \<mapsto> p')"
    using p'(1) w1 by simp
  show "\<exists>r' p'. map_of (w_rows (en_w en2)) = (map_of (w_rows (en_w en)))(cur \<mapsto> r', prev \<mapsto> p')
      \<and> Deployment.Status r' = str StateRolledBack \<and> Deployment.Status p' = str StateRunning \<and> Port p' = Port p"
    by (rule exI [of _ "transitioned (en_w en) t cur (str StateRolledBack) r"], rule exI [of _ p']) (simp add: rows p'(2,3))
  show "en_apps en2 = map_del cur (en_apps en)" "en_tasks en2 = en_tasks en" "en_rollbacks en2 = en_rollbacks en"
    by (simp_all add: en2_def stop_transition_keeps)
qed

lemma restore_previous_outcome:
  assumes sm: "ec_sm c = Some NewStateMachine" and r: "map_of (w_rows (en_w en)) cur = Some r" "Deployment.Status r = str StateRunning"
    and p: "map_of (w_rows (en_w en)) prev = Some p" "rollback_candidate (SiteID r) cur (prev, p)"
    and run: "restore_previous (quiet_env t) pe ex parsed c now eid (SiteID r) cur (prev, p) en = (res, en')"
  shows "replaced c cur prev r p en en' \<and> en_tasks en' = en_tasks en @ serving_task ex c prev p
    \<and> (case res of
         Inr ev \<Rightarrow> eid = Some (rb_id ev) \<and> rb_site ev = SiteID r \<and> rb_from ev = prev \<and> rb_to ev = cur \<and> en_rollbacks en' = en_rollbacks en @ [ev] \<and> serving_task ex c prev p \<noteq> []
       | Inl err \<Rightarrow> (err = RStaticMissing \<and> serving_task ex c prev p = [] \<or> err = RNoID \<and> eid = None) \<and> en_rollbacks en' = en_rollbacks en)"
proof -
  define en2 where "en2 = transition (quiet_env t) c prev (str StateRunning) (stopDeploymentWithTransition (quiet_env t) c cur (str StateRolledBack) en)"
  note rows = replace_rows [OF assms(1-5), of t, folded en2_def]
  define host where "host = HostFromDeploymentURL (URL p)"
  define en3 where "en3 = (if host \<noteq> [] \<and> ec_router c then register pe c host (Port p) (SiteID r) (parsed (PassthroughPaths p)) (rollback_metadata now (CommitSHA p)) en2 else en2)"
  have "replaced c cur prev r p en en3"
  proof -
    have "normalizeHost [] = []" by code_simp
    then have "routable host (Port p) \<Longrightarrow> host \<noteq> []" by (auto simp: routable_def)
    then show ?thesis using rows host_table.reg_ok [of host "Port p"] unfolding replaced_def en3_def host_def [symmetric] by auto
  qed
  moreover have "replaced c cur prev r p en (en3\<lparr> en_tasks := tk \<rparr>) = replaced c cur prev r p en en3"
    "replaced c cur prev r p en (en3\<lparr> en_tasks := tk, en_w := stmt (quiet_env t) (en_w en3), en_rollbacks := rb \<rparr>) = replaced c cur prev r p en en3" for tk rb
    by (simp_all add: replaced_def)
  moreover have "en_tasks en3 = en_tasks en" "en_rollbacks en3 = en_rollbacks en" using rows by (simp_all add: en3_def)
  ultimately show ?thesis using run
    unfolding restore_previous_def Let_def prod.case en2_def [symmetric] host_def [symmetric] en3_def [symmetric] serving_task_def
    by (auto split: if_splits sum.splits option.splits)
qed


definition rollback_rows :: rows where
  "rollback_rows = [(''new'', (sample_row ''running'')\<lparr> URL := ''http://app.example.org'', Port := 4002, CreatedAt := ''t2'' \<rparr>),
     (''old'', (sample_row ''stopped'')\<lparr> URL := ''http://app.example.org'', Port := 4001, CreatedAt := ''t1'' \<rparr>),
     (''bad'', (sample_row ''failed'')\<lparr> CreatedAt := ''t3'' \<rparr>)]"

definition rollback_engine :: engine where
  "rollback_engine = \<lparr> en_w = sample_world rollback_rows,
     en_apps = [(''new'', \<lparr> ra_pid = 7, ra_server = False, ra_host = ''app.example.org'', ra_port = 4002 \<rparr>)], en_old = [], en_draining = [],
     en_proxy = no_hosts, en_domains = [], en_rollbacks = [], en_stops = [], en_killed = [], en_closed = [], en_tasks = [], en_counter = 0 \<rparr>"

definition rollback_cfg :: engine_cfg where
  "rollback_cfg = \<lparr> ec_domain = ''example.org'', ec_https = False, ec_router = True, ec_supervised = False, ec_sm = Some NewStateMachine, ec_builds = ''/b'' \<rparr>"

definition no_site_rows :: proxy_env where
  "no_site_rows = \<lparr> site_row = (\<lambda>_. None), dec_policy = (\<lambda>_. None), dec_csp = (\<lambda>_. None), validateToken = None, validateSiteKey = None, fresh_rid = [] \<rparr>"

lemma rollback_sample:
  "Rollback (quiet_env ''t'') no_site_rows (\<lambda>_. True) (\<lambda>_. []) rollback_cfg ''n'' (Some ''e'') ''new'' rollback_engine
     = (Inr \<lparr> rb_id = ''e'', rb_site = ''s'', rb_from = ''old'', rb_to = ''new'' \<rparr>,
        snd (Rollback (quiet_env ''t'') no_site_rows (\<lambda>_. True) (\<lambda>_. []) rollback_cfg ''n'' (Some ''e'') ''new'' rollback_engine))"
  by code_simp


text \<open>
  If the target is a static site whose output is gone, the rollback is reported as failed, but the current
  deployment is already stopped, the target is marked running and routed, and nothing serves it.
\<close>

definition stale_static :: engine where
  "stale_static = rollback_engine\<lparr> en_w := sample_world (map (\<lambda>(did, r). (did, r\<lparr> App_Type := AppStatic \<rparr>)) rollback_rows) \<rparr>"

lemma rollback_failure_takes_site_down:
  "case Rollback (quiet_env ''t'') no_site_rows (\<lambda>f. f = ''/b/old'') (\<lambda>_. []) rollback_cfg ''n'' (Some ''e'') ''new'' stale_static of (res, en') \<Rightarrow>
     res = Inl RStaticMissing \<and> map_option Deployment.Status (map_of (w_rows (en_w en')) ''new'') = Some ''rolled_back''
     \<and> map_option Deployment.Status (map_of (w_rows (en_w en')) ''old'') = Some ''running''
     \<and> map_option hi_Port (map_of (deployHosts (en_proxy en')) ''app.example.org'') = Some 4001
     \<and> en_apps en' = [] \<and> en_killed en' = [7] \<and> en_tasks en' = []"
  by code_simp

text \<open>A custom domain keeps leading to the port of the deployment that was rolled back.\<close>

lemma rollback_forgets_custom_domains:
  "map_option hi_Port (map_of (deployHosts (en_proxy (snd (Rollback (quiet_env ''t'') no_site_rows (\<lambda>_. True) (\<lambda>_. []) rollback_cfg ''n'' (Some ''e'') ''new''
     (RegisterCustomDomainHosts no_site_rows rollback_cfg False ''s'' 4002
        (rollback_engine\<lparr> en_domains := [\<lparr> sd_domain = ''shop.example'', sd_site = ''s'', sd_verified = True \<rparr>] \<rparr>)))))) ''shop.example'') = Some 4002"
  by code_simp

section \<open>Draining\<close>

text \<open>
  Deployments without a site are collected under one key: going live with one repository drains the
  deployments collected for another.
\<close>

lemma repositories_share_a_drain_list:
  "en_tasks (drainOldDeployments [] (collectPreviousDeployments (quiet_env ''t'') [] ''r1''
     (rollback_engine\<lparr> en_w := sample_world [(''a'', (sample_row ''running'')\<lparr> SiteID := [], RepoID := ''r1'' \<rparr>)] \<rparr>))) = [DrainTask ''a'']"
  by code_simp

end
