(* ===== verification/Deploy_Pipeline.thy ===== *)
theory Deploy_Pipeline
  imports Deploy_Build Deploy_Replace
begin

text \<open>
  The pipeline of a deployment (\<^verbatim>\<open>engine.go\<close>, the resume path of \<^verbatim>\<open>orchestrator.go\<close>, \<^verbatim>\<open>gateway.go\<close> and \<^verbatim>\<open>Stop\<close> of
  \<^verbatim>\<open>deploy.go\<close>): triggering, building, going live, starting and resuming applications, and the handlers.
  Files, repositories, commands, health probes and random identifiers are inputs (\<open>run_in\<close>, \<open>start_in\<close>). The
  columns \<^verbatim>\<open>health_summary\<close> and \<^verbatim>\<open>pipeline_timeline\<close> and the site defaults are not kept, but the statements that
  write them are steps of the database like all others (\<open>touch\<close>).
\<close>

section \<open>Triggering\<close>

datatype trigger_error = RepoRequired | ErrRepoNotFound | NoIdentifier | NoPort | InsertFailed

text \<open>
  \<open>repos\<close> names the repositories; \<open>newID\<close> is the generated identifier; \<open>free\<close>, \<open>listened\<close> and \<open>closed\<close> are the
  answers to the port allocator. The result carries the identifier and the row.
\<close>

record trigger_in =
  ti_repos :: "(string, string) go_map"
  ti_newID :: "string option"
  ti_free :: "int \<Rightarrow> bool"
  ti_listened :: "int option"
  ti_closed :: bool
  ti_base :: int
  ti_now :: string
  ti_encode :: "string list \<Rightarrow> string"

record trigger_req =
  tq_RepoID :: string
  tq_Branch :: string
  tq_SiteName :: string
  tq_SiteID :: string
  tq_PassthroughPaths :: "string list"
  tq_AppType :: string
  tq_ManifestPath :: string

definition marshalPassthroughPaths :: "(string list \<Rightarrow> string) \<Rightarrow> string list \<Rightarrow> string" where
  "marshalPassthroughPaths encode paths = (if paths = [] then [] else encode paths)"

definition new_row :: "engine_cfg \<Rightarrow> trigger_in \<Rightarrow> trigger_req \<Rightarrow> string \<Rightarrow> int \<Rightarrow> Deployment" where
  "new_row c ti q siteName port =
     \<lparr> RepoID = tq_RepoID q, SiteID = tq_SiteID q, Branch = (if tq_Branch q = [] then ''main'' else tq_Branch q), CommitSHA = [],
       Status = ''pending'', URL = deploymentURL (ec_domain c) (ec_https c) siteName (nat port), Port = port, App_Type = [], ErrorMessage = [],
       BuildLog = [], PassthroughPaths = marshalPassthroughPaths (ti_encode ti) (tq_PassthroughPaths q), ManifestPath = tq_ManifestPath q,
       CreatedAt = ti_now ti, StatusHistory = HistEmpty, PID = 0 \<rparr>"

text \<open>The started goroutine is the third component: identifier, row with the requested type, name of the site.\<close>

definition Trigger :: "env \<Rightarrow> engine_cfg \<Rightarrow> trigger_in \<Rightarrow> trigger_req \<Rightarrow> engine \<Rightarrow> (trigger_error, string \<times> Deployment \<times> string) res \<times> engine" where
  "Trigger e c ti q en =
     (if tq_RepoID q = [] then (Inl RepoRequired, en)
      else
        (let w1 = stmt e (en_w en); en1 = en\<lparr> en_w := w1 \<rparr> in
         case (if failing e (en_w en) then None else map_of (ti_repos ti) (tq_RepoID q)) of
           None \<Rightarrow> (Inl ErrRepoNotFound, en1)
         | Some repoName \<Rightarrow>
             (let siteName = (if tq_SiteName q = [] then repoName else tq_SiteName q);
                  en2 = collectPreviousDeployments e (tq_SiteID q) (tq_RepoID q) en1
              in case ti_newID ti of
                   None \<Rightarrow> (Inl NoIdentifier, en2)
                 | Some did \<Rightarrow>
                     (case pickPort (ti_free ti) (ti_listened ti) (ti_closed ti) (ti_base ti) (en_counter en2) of
                        (None, k) \<Rightarrow> (Inl NoPort, en2\<lparr> en_counter := k \<rparr>)
                      | (Some port, k) \<Rightarrow>
                          (let r = new_row c ti q siteName port;
                               w2 = stmt e (en_w en2);
                               en3 = en2\<lparr> en_counter := k, en_w := w2 \<rparr>
                           in if failing e (en_w en2) \<or> map_of (w_rows w2) did \<noteq> None then (Inl InsertFailed, en3)
                              else (Inr (did, r\<lparr> App_Type := tq_AppType q \<rparr>, siteName),
                                    en3\<lparr> en_w := w2\<lparr> w_rows := w_rows w2 @ [(did, r)] \<rparr> \<rparr>))))))"

section \<open>Running a deployment\<close>

record run_in =
  ri_repo :: bool
  ri_mkdir :: bool
  ri_clone :: bool
  ri_sha :: string
  ri_root :: string
  ri_toml :: manifest_parser
  ri_yaml :: manifest_parser
  ri_files :: "string \<Rightarrow> file_read"
  ri_menv :: "Manifest option \<Rightarrow> env_map"
  ri_project :: "string \<Rightarrow> project"
  ri_host :: "string \<Rightarrow> build_host"
  ri_before :: "string \<Rightarrow> bool"
  ri_after :: "string \<Rightarrow> bool"
  ri_probe :: "nat \<Rightarrow> probe_reply \<times> nat"
  ri_no_domains :: bool
  ri_now :: string
  ri_env_text :: "resolve_error \<Rightarrow> string"
  ri_reason_text :: "failure_reason \<Rightarrow> string"

text \<open>
  \<open>ri_repo\<close>, \<open>ri_mkdir\<close>, \<open>ri_clone\<close>: the repository is there, the build directory can be made, the checkout works;
  \<open>ri_before\<close> and \<open>ri_after\<close>: which files exist before and after the build; \<open>ri_menv\<close>: the environment map of the
  manifest; \<open>ri_root\<close>: the root path of the site.
\<close>

definition touch :: "env \<Rightarrow> string \<Rightarrow> engine \<Rightarrow> engine" where
  "touch e did en = on_w (exec_row e did (\<lambda>r. r)) en"

definition set_type :: "env \<Rightarrow> string \<Rightarrow> string \<Rightarrow> engine \<Rightarrow> engine" where
  "set_type e did t en = on_w (exec_row e did (\<lambda>r. r\<lparr> App_Type := t \<rparr>)) en"

text \<open>\<open>None\<close>: the goroutine panics.\<close>

definition fail_run :: "env \<Rightarrow> engine_cfg \<Rightarrow> string \<Rightarrow> string \<Rightarrow> engine \<Rightarrow> engine option" where
  "fail_run e c did msg en = map_option (\<lambda>w. en\<lparr> en_w := w \<rparr>) (failDeployment e (ec_sm c) did msg (en_w en))"

text \<open>Host, custom domains, then the old deployments: what follows the status running.\<close>

definition publish :: "env \<Rightarrow> proxy_env \<Rightarrow> engine_cfg \<Rightarrow> run_in \<Rightarrow> string \<Rightarrow> string list \<Rightarrow> Deployment \<Rightarrow> string \<Rightarrow> bool \<Rightarrow> engine \<Rightarrow> engine" where
  "publish e pe c ri did pp d repoName persist en =
     (let en1 = finalizeDeploymentURL e pe c (ri_now ri) did pp d repoName (transition e c did ''running'' en);
          en2 = (if persist then touch e did en1 else en1);
          en3 = RegisterCustomDomainHosts pe c (ri_no_domains ri) (SiteID d) (Deployment.Port d) en2
      in drainOldDeployments (SiteID d) en3)"

definition live_static :: "env \<Rightarrow> proxy_env \<Rightarrow> engine_cfg \<Rightarrow> run_in \<Rightarrow> string \<Rightarrow> string list \<Rightarrow> Deployment \<Rightarrow> string \<Rightarrow> string \<Rightarrow> engine \<Rightarrow> engine" where
  "live_static e pe c ri did pp d repoName dir en =
     (let en1 = publish e pe c ri did pp d repoName True en in en1\<lparr> en_tasks := en_tasks en1 @ [StaticTask dir did repoName] \<rparr>)"

definition check_config :: "Manifest option \<Rightarrow> ManifestHealthCheck" where
  "check_config manifest = WithDefaults (case manifest of None \<Rightarrow> zero_check | Some m \<Rightarrow> HealthCheck m)"

definition runHealthCheck :: "env \<Rightarrow> run_in \<Rightarrow> string \<Rightarrow> Manifest option \<Rightarrow> engine \<Rightarrow> HealthResult \<times> engine" where
  "runHealthCheck e ri did manifest en = (fst (probeHealth (ri_probe ri) (check_config manifest)), touch e did en)"

definition start_process :: "env \<Rightarrow> proxy_env \<Rightarrow> engine_cfg \<Rightarrow> run_in \<Rightarrow> string \<Rightarrow> string list \<Rightarrow> Deployment \<Rightarrow> string \<Rightarrow> string \<Rightarrow> string \<Rightarrow> Manifest option \<Rightarrow> engine \<Rightarrow> engine" where
  "start_process e pe c ri did pp d repoName dir t manifest en0 =
     (let en1 = transition e c did ''deploying'' (touch e did en0);
          en2 = en1\<lparr> en_tasks := en_tasks en1 @ [StartTask dir did t repoName] \<rparr>
      in case runHealthCheck e ri did manifest (touch e did (touch e did en2)) of
           (result, en3) \<Rightarrow>
             (let en4 = touch e did en3 in
              if OK result then publish e pe c ri did pp d repoName False en4
              else transition e c did ''failed''
                (on_w (exec_row e did (\<lambda>r. r\<lparr> ErrorMessage := ''Health check failed: '' @ ri_reason_text ri (FirstFailureReason result) \<rparr>)) en4)))"

definition tried_dirs :: "string \<Rightarrow> string \<Rightarrow> string list" where
  "tried_dirs appRoot hint =
     (if hint \<noteq> [] then [path_join appRoot hint] else []) @ [path_join appRoot ''dist'', path_join appRoot ''build'', path_join appRoot ''public'', appRoot]"

text \<open>The directory that is served after a build, and whether it makes the deployment a static one.\<close>

definition output_dir :: "run_in \<Rightarrow> string \<Rightarrow> string \<Rightarrow> string \<Rightarrow> Manifest option \<Rightarrow> string option" where
  "output_dir ri appRoot hint t manifest =
     (case manifest of
        Some m \<Rightarrow>
          if Output (Build m) \<noteq> [] then (let dir = path_join appRoot (Output (Build m)) in if ri_after ri dir then Some dir else None)
          else if t = AppNode then FindStaticServeDirAfterNodeBuild (ri_after ri) appRoot hint else None
      | None \<Rightarrow> if t = AppNode then FindStaticServeDirAfterNodeBuild (ri_after ri) appRoot hint else None)"

definition build_text :: "run_in \<Rightarrow> build_error \<Rightarrow> string" where
  "build_text ri err = (case err of
     EnvFailed x \<Rightarrow> ''resolve build-time env vars: '' @ ri_env_text ri x | Coded x \<Rightarrow> Deploy_Project.Error x | Failed t \<Rightarrow> t)"

definition build_and_serve :: "env \<Rightarrow> proxy_env \<Rightarrow> engine_cfg \<Rightarrow> run_in \<Rightarrow> string \<Rightarrow> string list \<Rightarrow> Deployment \<Rightarrow> string \<Rightarrow> string \<Rightarrow> string \<Rightarrow> string \<Rightarrow> Manifest option \<Rightarrow> engine
    \<Rightarrow> engine option" where
  "build_and_serve e pe c ri did pp d repoName appRoot hint t manifest en0 =
     (let en1 = touch e did en0 in
      case buildApp (ri_host ri appRoot) (SiteID d) t manifest (ri_menv ri manifest) of
        (Some err, _) \<Rightarrow> fail_run e c did (build_text ri err) (touch e did en1)
      | (None, _) \<Rightarrow>
          (let en2 = touch e did en1 in
           case output_dir ri appRoot hint t manifest of
             Some dir \<Rightarrow>
               (let en3 = set_type e did AppStatic en2 in
                case RequireStaticIndex (ri_after ri) dir (tried_dirs appRoot hint) of
                  Some err \<Rightarrow> fail_run e c did (Deploy_Project.Error err) en3
                | None \<Rightarrow> Some (live_static e pe c ri did pp d repoName dir en3))
           | None \<Rightarrow> Some (start_process e pe c ri did pp d repoName appRoot t manifest en2)))"

definition pure_static :: "run_in \<Rightarrow> string \<Rightarrow> bool" where
  "pure_static ri appRoot = (\<not> (ri_before ri (path_join appRoot ''package.json'') \<and> \<not> ri_before ri (path_join appRoot ''index.html'')))"

text \<open>The application root, the manifest and the type of the application.\<close>

definition app_root :: "env \<Rightarrow> run_in \<Rightarrow> string \<Rightarrow> string \<Rightarrow> engine \<Rightarrow> string \<times> engine" where
  "app_root e ri siteID buildDir en =
     (if siteID = [] then (buildDir, en)
      else (ResolveAppRoot buildDir (if failing e (en_w en) then [] else ri_root ri), on_w (stmt e) en))"

definition run_manifest :: "run_in \<Rightarrow> string \<Rightarrow> Deployment \<Rightarrow> Manifest option" where
  "run_manifest ri appRoot d = (case LoadManifestPath (ri_toml ri) (ri_yaml ri) (ri_files ri) appRoot (ManifestPath d) of Inl _ \<Rightarrow> None | Inr m \<Rightarrow> m)"

definition run_type :: "run_in \<Rightarrow> string \<Rightarrow> Deployment \<Rightarrow> Manifest option \<Rightarrow> (CodedError, string \<times> string) res" where
  "run_type ri appRoot d manifest =
     (if App_Type d \<noteq> [] then ResolveDeployAppType (ri_project ri appRoot) (App_Type d)
      else (case manifest of
          Some m \<Rightarrow> Inr (manifestToAppType m, [])
        | None \<Rightarrow> ResolveDeployAppType (ri_project ri appRoot) []))"

text \<open>\<^verbatim>\<open>applyManifestCSP\<close>: one read and one write of the site.\<close>

definition applyManifestCSP :: "env \<Rightarrow> Manifest option \<Rightarrow> engine \<Rightarrow> engine" where
  "applyManifestCSP e manifest en = (case manifest of
     None \<Rightarrow> en
   | Some m \<Rightarrow> if CSP m = [] then en else on_w (\<lambda>w. stmt e (stmt e w)) en)"

definition after_clone :: "env \<Rightarrow> proxy_env \<Rightarrow> engine_cfg \<Rightarrow> run_in \<Rightarrow> string \<Rightarrow> string list \<Rightarrow> Deployment \<Rightarrow> string \<Rightarrow> string \<Rightarrow> engine \<Rightarrow> engine option" where
  "after_clone e pe c ri did pp d0 repoName buildDir en0 =
     (let d = d0\<lparr> CommitSHA := ri_sha ri \<rparr>;
          en1 = on_w (exec_row e did (\<lambda>r. r\<lparr> CommitSHA := ri_sha ri \<rparr>)) en0
      in case app_root e ri (SiteID d) buildDir en1 of
           (appRoot, en2) \<Rightarrow>
             (let manifest = run_manifest ri appRoot d in
              case run_type ri appRoot d manifest of
                Inl err \<Rightarrow> fail_run e c did (Deploy_Project.Error err) en2
              | Inr (t, hint) \<Rightarrow>
                  (let en3 = applyManifestCSP e manifest (set_type e did t en2) in
                   if t = AppStatic \<and> pure_static ri appRoot
                   then (case ResolvePureStaticServeDir (ri_before ri) appRoot hint of
                       Inl err \<Rightarrow> fail_run e c did (Deploy_Project.Error err) en3
                     | Inr dir \<Rightarrow> Some (live_static e pe c ri did pp d repoName dir en3))
                   else build_and_serve e pe c ri did pp d repoName appRoot hint (if t = AppStatic then AppNode else t) manifest en3)))"

definition runDeployment :: "env \<Rightarrow> proxy_env \<Rightarrow> engine_cfg \<Rightarrow> run_in \<Rightarrow> string \<Rightarrow> string list \<Rightarrow> Deployment \<Rightarrow> string \<Rightarrow> string \<Rightarrow> engine \<Rightarrow> engine option" where
  "runDeployment e pe c ri did pp d buildDir repoName en =
     (let en1 = transition e c did ''building'' en in
      if Contains (Clean (RepoID d)) ''..'' \<or> \<not> ri_repo ri \<or> \<not> ri_mkdir ri then Some (transition e c did ''failed'' en1)
      else if \<not> ri_clone ri then Some (transition e c did ''failed'' (touch e did en1))
      else after_clone e pe c ri did pp d repoName buildDir (touch e did en1))"

section \<open>Starting an application\<close>

record start_in =
  si_host :: build_host
  si_dirs :: start_dirs
  si_writable :: "string option"
  si_db :: "string list"
  si_menv :: env_map
  si_start :: "cmd \<Rightarrow> string list \<Rightarrow> int option"
  si_env_text :: "resolve_error \<Rightarrow> string"

text \<open>Up to the start of the process: \<open>si_start\<close> gives its identifier if it could be started.\<close>

definition startApp :: "env \<Rightarrow> engine_cfg \<Rightarrow> start_in \<Rightarrow> string \<Rightarrow> Deployment \<Rightarrow> string \<Rightarrow> string \<Rightarrow> string \<Rightarrow> Manifest option \<Rightarrow> engine \<Rightarrow> engine" where
  "startApp e c si did d dir t repoName manifest en =
     (case start_command (si_host si) (si_dirs si) dir (nat (Deployment.Port d)) t manifest of
        Inl _ \<Rightarrow> transition e c did ''failed'' en
      | Inr None \<Rightarrow> transition e c did ''failed'' en
      | Inr (Some command) \<Rightarrow>
          (case ResolveOptions (bh_os (si_host si)) (bh_resolver (si_host si)) (SiteID d) ScopeRuntime (si_menv si)
                  (reserved_env (nat (Deployment.Port d)) (si_writable si) (si_db si)) of
             Inl err \<Rightarrow> transition e c did ''failed'' (on_w (exec_row e did (\<lambda>r. r\<lparr> ErrorMessage := si_env_text si err \<rparr>)) en)
           | Inr resolved \<Rightarrow>
               (case si_start si command (Environ resolved) of
                  None \<Rightarrow> transition e c did ''failed'' en
                | Some pid \<Rightarrow>
                    (let en1 = (if pid > 0 then on_w (exec_row e did (\<lambda>r. r\<lparr> PID := pid \<rparr>)) en else en) in
                     en1\<lparr> en_apps := map_put did \<lparr> ra_pid = pid, ra_server = False, ra_host = deploymentHost (ec_domain c) repoName,
                       ra_port = Deployment.Port d \<rparr> (en_apps en1) \<rparr>))))"

definition hasTerminalStopStatus :: "env \<Rightarrow> string \<Rightarrow> world \<Rightarrow> bool" where
  "hasTerminalStopStatus e did w = (if failing e w then False
     else (case map_of (w_rows (stmt e w)) did of None \<Rightarrow> False | Some r \<Rightarrow> Deployment.Status r \<in> {''stopped'', ''replaced'', ''draining''}))"

definition hasRegisteredApp :: "string \<Rightarrow> engine \<Rightarrow> bool" where
  "hasRegisteredApp did en = (map_of (en_apps en) did \<noteq> None)"

text \<open>After the process ended; \<open>None\<close>: without an error.\<close>

definition app_exited :: "env \<Rightarrow> engine_cfg \<Rightarrow> string \<Rightarrow> string option \<Rightarrow> engine \<Rightarrow> engine" where
  "app_exited e c did err en = (case err of
     None \<Rightarrow> en
   | Some msg \<Rightarrow>
       (let en1 = on_w (stmt e) en in
        if hasTerminalStopStatus e did (en_w en) \<or> \<not> hasRegisteredApp did en1 then en1
        else transition e c did ''failed'' (on_w (exec_row e did (\<lambda>r. r\<lparr> ErrorMessage := msg \<rparr>)) en1)))"

definition serveStatic :: "engine_cfg \<Rightarrow> string \<Rightarrow> Deployment \<Rightarrow> string \<Rightarrow> engine \<Rightarrow> engine" where
  "serveStatic c did d repoName en =
     en\<lparr> en_apps := map_put did \<lparr> ra_pid = 0, ra_server = True, ra_host = deploymentHost (ec_domain c) repoName, ra_port = Deployment.Port d \<rparr> (en_apps en) \<rparr>"

section \<open>Resuming after a restart\<close>

fun insert_desc :: "string \<times> Deployment \<Rightarrow> (string \<times> Deployment) list \<Rightarrow> (string \<times> Deployment) list" where
  "insert_desc x [] = [x]"
| "insert_desc x (y # ys) = (if CreatedAt (snd x) < CreatedAt (snd y) then y # insert_desc x ys else x # y # ys)"

definition newest_first :: "(string \<times> Deployment) list \<Rightarrow> (string \<times> Deployment) list" where
  "newest_first rs = foldr insert_desc rs []"

fun once_per_host :: "string list \<Rightarrow> (string \<times> Deployment) list \<Rightarrow> (string \<times> Deployment) list" where
  "once_per_host hosts [] = []"
| "once_per_host hosts (x # xs) =
     (let host = HostFromDeploymentURL (URL (snd x)) in
      if host = [] \<or> host = ''localhost'' \<or> host \<in> set hosts then once_per_host hosts xs else x # once_per_host (host # hosts) xs)"

text \<open>The join with the repositories drops a row whose repository is gone.\<close>

definition loadResumeCandidates :: "env \<Rightarrow> (string, string) go_map \<Rightarrow> world \<Rightarrow> (string \<times> Deployment) list \<times> world" where
  "loadResumeCandidates e repos w =
     ((if failing e w then []
       else once_per_host [] (newest_first (filter (\<lambda>(did, r). Deployment.Status r = ''running'' \<and> Deployment.Port r > 0 \<and> map_of repos (RepoID r) \<noteq> None) (w_rows (stmt e w))))),
      stmt e w)"

definition resume_one :: "env \<Rightarrow> engine_cfg \<Rightarrow> (string \<Rightarrow> bool) \<Rightarrow> (string, string) go_map \<Rightarrow> string \<times> Deployment \<Rightarrow> engine \<Rightarrow> engine" where
  "resume_one e c ex repos x en =
     (case x of (did, r) \<Rightarrow>
       (let buildDir = path_join (ec_builds c) did; repoName = (case map_of repos (RepoID r) of None \<Rightarrow> [] | Some n \<Rightarrow> n) in
        if \<not> ex buildDir \<or> map_of (en_apps en) did \<noteq> None then en
        else
          (let t = (if App_Type r = AppNode \<and> FindStaticServeDirAfterNodeBuild ex buildDir [] \<noteq> None then AppStatic else App_Type r) in
           if t = AppStatic
           then (case static_dir ex buildDir of
               Inl err \<Rightarrow> on_w (exec_row e did (\<lambda>r. r\<lparr> Status := ''failed'', ErrorMessage := Deploy_Project.Error err \<rparr>)) en
             | Inr dir \<Rightarrow> en\<lparr> en_apps := map_put did \<lparr> ra_pid = 0, ra_server = False, ra_host = deploymentHost (ec_domain c) repoName,
                   ra_port = Deployment.Port r \<rparr> (en_apps en), en_tasks := en_tasks en @ [SupervisedTask dir did] \<rparr>)
           else en\<lparr> en_tasks := en_tasks en @ [StartTask buildDir did t repoName] \<rparr>)))"

definition resumeCandidates :: "env \<Rightarrow> engine_cfg \<Rightarrow> (string \<Rightarrow> bool) \<Rightarrow> (string, string) go_map \<Rightarrow> (string \<times> Deployment) list \<Rightarrow> engine \<Rightarrow> engine" where
  "resumeCandidates e c ex repos xs en = fold (resume_one e c ex repos) xs en"

section \<open>Stopping the component\<close>

definition Stop :: "engine_cfg \<Rightarrow> engine \<Rightarrow> engine" where
  "Stop c en = fold (\<lambda>(did, a). release_app c did a) (en_apps en) en"

section \<open>Handlers\<close>

text \<open>The organization and the site of the request context; \<open>None\<close> means that access is allowed.\<close>

definition verifyDeploymentOwnership :: "env \<Rightarrow> int option \<Rightarrow> string \<Rightarrow> world \<Rightarrow> nat option \<times> world" where
  "verifyDeploymentOwnership e org did w = (case org of
     None \<Rightarrow> (None, w)
   | Some o1 \<Rightarrow>
       if o1 = 0 then (None, w)
       else
         (let w1 = stmt e w in
          case (if failing e w then None else map_of (w_rows w1) did) of
            None \<Rightarrow> (Some 404, w1)
          | Some r \<Rightarrow>
              if SiteID r = [] then (None, w1)
              else
                (let w2 = stmt e w1 in
                 case (if failing e w1 then None else map_of (w_sites w2) (SiteID r)) of
                   None \<Rightarrow> (None, w2)
                 | Some siteOrg \<Rightarrow> if siteOrg \<noteq> 0 \<and> siteOrg \<noteq> o1 then (Some 403, w2) else (None, w2))))"

definition verifySiteOwnership :: "env \<Rightarrow> int option \<Rightarrow> string \<Rightarrow> world \<Rightarrow> nat option \<times> world" where
  "verifySiteOwnership e org siteID w = (case org of
     None \<Rightarrow> (None, w)
   | Some o1 \<Rightarrow>
       if o1 = 0 then (None, w)
       else
         (let w1 = stmt e w in
          case (if failing e w then None else map_of (w_sites w1) siteID) of
            None \<Rightarrow> (None, w1)
          | Some siteOrg \<Rightarrow> if siteOrg \<noteq> 0 \<and> siteOrg \<noteq> o1 then (Some 403, w1) else (None, w1)))"

text \<open>\<open>body\<close> is the decoded request; the site key is \<open>[]\<close> if the caller has none. The answer carries what was started.\<close>

definition create_site :: "env \<Rightarrow> string \<Rightarrow> int option \<Rightarrow> trigger_req \<Rightarrow> world \<Rightarrow> (nat, trigger_req) res \<times> world" where
  "create_site e siteKey org q w =
     (if siteKey \<noteq> [] then
        (if tq_SiteID q \<noteq> [] \<and> tq_SiteID q \<noteq> siteKey then (Inl 403, w) else (Inr (q\<lparr> tq_SiteID := siteKey \<rparr>), w))
      else if tq_SiteID q \<noteq> [] then
        (case org of
           None \<Rightarrow> (Inr q, w)
         | Some o1 \<Rightarrow>
             if o1 \<le> 0 then (Inr q, w)
             else
               (let w1 = stmt e w in
                case (if failing e w then None else map_of (w_sites w1) (tq_SiteID q)) of
                  None \<Rightarrow> (Inl 403, w1)
                | Some siteOrg \<Rightarrow> if siteOrg \<noteq> 0 \<and> siteOrg \<noteq> o1 then (Inl 403, w1) else (Inr q, w1)))
      else (Inr q, w))"

definition HandleCreate :: "env \<Rightarrow> engine_cfg \<Rightarrow> trigger_in \<Rightarrow> string \<Rightarrow> int option \<Rightarrow> string \<Rightarrow> trigger_req option \<Rightarrow> engine
    \<Rightarrow> (nat, string \<times> Deployment \<times> string) res \<times> engine" where
  "HandleCreate e c ti siteKey org meth body en =
     (if meth \<noteq> ''POST'' then (Inl 405, en)
      else (case body of
          None \<Rightarrow> (Inl 400, en)
        | Some q0 \<Rightarrow>
            if tq_RepoID q0 = [] then (Inl 400, en)
            else
              (let q1 = (if tq_Branch q0 = [] then q0\<lparr> tq_Branch := ''main'' \<rparr> else q0) in
               case create_site e siteKey org q1 (en_w en) of
                 (Inl code, w1) \<Rightarrow> (Inl code, en\<lparr> en_w := w1 \<rparr>)
               | (Inr q, w1) \<Rightarrow>
                   (case Trigger e c ti q (en\<lparr> en_w := w1 \<rparr>) of
                      (Inl ErrRepoNotFound, en2) \<Rightarrow> (Inl 404, en2)
                    | (Inl _, en2) \<Rightarrow> (Inl 500, en2)
                    | (Inr x, en2) \<Rightarrow> (Inr x, en2)))))"

definition handleDeleteDeployment :: "env \<Rightarrow> engine_cfg \<Rightarrow> int option \<Rightarrow> string \<Rightarrow> engine \<Rightarrow> nat \<times> engine" where
  "handleDeleteDeployment e c org did en =
     (case verifyDeploymentOwnership e org did (en_w en) of
        (Some code, w1) \<Rightarrow> (code, en\<lparr> en_w := w1 \<rparr>)
      | (None, w1) \<Rightarrow>
          (let en1 = en\<lparr> en_w := w1 \<rparr>; cleanID = Clean did in
           if Contains cleanID ''..'' \<or> Contains cleanID ''/'' then (400, en1)
           else
             (let w2 = stmt e w1; en2 = en1\<lparr> en_w := w2 \<rparr> in
              case (if failing e w1 then None else map_of (w_rows w2) did) of
                None \<Rightarrow> (404, en2)
              | Some r \<Rightarrow>
                  if \<not> CanDelete (Deployment.Status r) then (409, en2)
                  else
                    (let en3 = stopDeployment e c did (str StateStopped) en2;
                         w3 = stmt e (en_w en3)
                     in (204, en3\<lparr> en_w := (if failing e (en_w en3) then w3 else w3\<lparr> w_rows := map_del did (w_rows w3) \<rparr>) \<rparr>)))))"

definition handleRollback :: "env \<Rightarrow> proxy_env \<Rightarrow> (string \<Rightarrow> bool) \<Rightarrow> (string \<Rightarrow> string list) \<Rightarrow> engine_cfg \<Rightarrow> string \<Rightarrow> string option \<Rightarrow> int option \<Rightarrow> string \<Rightarrow> string \<Rightarrow> engine
    \<Rightarrow> (nat, RollbackEvent) res \<times> engine" where
  "handleRollback e pe ex parsed c now eid org meth did en =
     (case verifyDeploymentOwnership e org did (en_w en) of
        (Some code, w1) \<Rightarrow> (Inl code, en\<lparr> en_w := w1 \<rparr>)
      | (None, w1) \<Rightarrow>
          if meth \<noteq> ''POST'' then (Inl 405, en\<lparr> en_w := w1 \<rparr>)
          else (case Rollback e pe ex parsed c now eid did (en\<lparr> en_w := w1 \<rparr>) of
              (Inr ev, en2) \<Rightarrow> (Inr ev, en2)
            | (Inl RDeploymentNotFound, en2) \<Rightarrow> (Inl 404, en2)
            | (Inl _, en2) \<Rightarrow> (Inl 409, en2)))"

text \<open>The rows a list request shows to a caller of an organization; the join finds no site for a row without one.\<close>

definition listed :: "int option \<Rightarrow> world \<Rightarrow> Deployment \<Rightarrow> bool" where
  "listed org w r = (case org of
     Some o1 \<Rightarrow> if o1 > 0 then map_of (w_sites w) (SiteID r) = Some o1 \<or> SiteID r = [] else True
   | None \<Rightarrow> True)"

definition HandleList :: "env \<Rightarrow> int option \<Rightarrow> string \<Rightarrow> world \<Rightarrow> (nat, (string \<times> Deployment) list) res \<times> world" where
  "HandleList e org meth w =
     (if meth \<noteq> ''GET'' then (Inl 405, w)
      else
        (let w1 = stmt e w in
         if failing e w then (Inl 500, w1) else (Inr (newest_first (filter (\<lambda>x. listed org w1 (snd x)) (w_rows w1))), w1)))"

section \<open>Nothing is replaced before the new deployment serves\<close>

definition routed :: "Proxy \<Rightarrow> string \<Rightarrow> int \<Rightarrow> string \<Rightarrow> bool" where
  "routed p host port site = (host_target p host = Some (port, site))"

lemma routed_register: "routed p host port site \<Longrightarrow> routed (snd (RegisterDeploymentHost pe h port site pp md p)) host port site"
  unfolding routed_def by (rule host_table.reg_keeps)

lemma register_shape: "\<exists>p. register pe c h n s pp md en = en\<lparr> en_proxy := p \<rparr>"
  by (auto simp: register_def)

lemma domains_shape:
  "\<exists>p. RegisterCustomDomainHosts pe c bad site port en = en\<lparr> en_proxy := p \<rparr> \<and> (routed (en_proxy en) host port site \<longrightarrow> routed p host port site)"
proof -
  have f: "\<exists>p. fold (\<lambda>x. register pe c (sd_domain x) port site [] []) ds en = en\<lparr> en_proxy := p \<rparr> \<and> (routed (en_proxy en) host port site \<longrightarrow> routed p host port site)" for ds
  proof (induction ds arbitrary: en)
    case Nil
    show ?case by (rule exI [of _ "en_proxy en"]) simp
  next
    case (Cons x ds)
    let ?p = "snd (RegisterDeploymentHost pe (sd_domain x) port site [] [] (en_proxy en))"
    obtain p where p: "fold (\<lambda>x. register pe c (sd_domain x) port site [] []) ds (en\<lparr> en_proxy := ?p \<rparr>) = en\<lparr> en_proxy := p \<rparr>"
      "routed ?p host port site \<longrightarrow> routed p host port site" using Cons [of "en\<lparr> en_proxy := ?p \<rparr>"] by auto
    have one: "register pe c (sd_domain x) port site [] [] en = en\<lparr> en_proxy := ?p \<rparr>" by (simp add: register_def)
    show ?case using p routed_register [of "en_proxy en" host port site pe "sd_domain x" "[]" "[]"]
      by (intro exI [of _ p]) (auto simp: one)
  qed
  show ?thesis
  proof (cases "\<not> ec_router c \<or> site = [] \<or> bad")
    case True
    then show ?thesis by (intro exI [of _ "en_proxy en"]) (auto simp: RegisterCustomDomainHosts_def)
  next
    case False
    then show ?thesis using f [of "filter (\<lambda>x. sd_site x = site \<and> sd_verified x) (en_domains en)"] by (simp add: RegisterCustomDomainHosts_def)
  qed
qed

lemma finalize_shape:
  "\<exists>w p. finalizeDeploymentURL e pe c now did pp d repo en = en\<lparr> en_w := w, en_proxy := p \<rparr>
     \<and> (ec_router c \<and> routable (deploymentHost (ec_domain c) repo) (Deployment.Port d) \<longrightarrow> routed p (deploymentHost (ec_domain c) repo) (Deployment.Port d) (SiteID d))"
proof -
  have "normalizeHost [] = []" by code_simp
  then have ne: "routable h n \<Longrightarrow> h \<noteq> []" for h n by (auto simp: routable_def)
  let ?h = "deploymentHost (ec_domain c) repo"
  have r: "routable ?h (Deployment.Port d) \<Longrightarrow> routed (snd (RegisterDeploymentHost pe ?h (Deployment.Port d) (SiteID d) pp md p)) ?h (Deployment.Port d) (SiteID d)" for md p
    unfolding routed_def by (simp add: host_table.reg_ok)
  show ?thesis
  proof (cases "ec_router c \<and> ?h \<noteq> []")
    case True
    then show ?thesis using r by (simp add: finalizeDeploymentURL_def Let_def register_def) blast
  next
    case False
    then show ?thesis using ne by (intro exI [of _ "exec_row e did (\<lambda>r. r\<lparr> URL := deploymentURL (ec_domain c) (ec_https c) repo (nat (Deployment.Port d)), Port := Deployment.Port d \<rparr>) (en_w en)"]
        exI [of _ "en_proxy en"]) (auto simp: finalizeDeploymentURL_def Let_def)
  qed
qed

definition drains :: "string \<Rightarrow> engine \<Rightarrow> task list" where
  "drains site en = map DrainTask (get_list (en_old en) site)"

lemma publish_shape:
  "\<exists>w p. publish e pe c ri did pp d repo persist en
      = en\<lparr> en_w := w, en_proxy := p, en_old := map_del (SiteID d) (en_old en), en_tasks := en_tasks en @ drains (SiteID d) en \<rparr>
     \<and> (ec_router c \<and> routable (deploymentHost (ec_domain c) repo) (Deployment.Port d) \<longrightarrow> routed p (deploymentHost (ec_domain c) repo) (Deployment.Port d) (SiteID d))"
proof -
  let ?h = "deploymentHost (ec_domain c) repo"
  obtain w1 p1 where f: "finalizeDeploymentURL e pe c (ri_now ri) did pp d repo (transition e c did ''running'' en) = en\<lparr> en_w := w1, en_proxy := p1 \<rparr>"
    "ec_router c \<and> routable ?h (Deployment.Port d) \<longrightarrow> routed p1 ?h (Deployment.Port d) (SiteID d)"
    using finalize_shape [of e pe c "ri_now ri" did pp d repo "transition e c did ''running'' en"] by (auto simp: transition_def)
  define w2 where "w2 = (if persist then exec_row e did (\<lambda>r. r) w1 else w1)"
  have t: "(if persist then touch e did (en\<lparr> en_w := w1, en_proxy := p1 \<rparr>) else en\<lparr> en_w := w1, en_proxy := p1 \<rparr>) = en\<lparr> en_w := w2, en_proxy := p1 \<rparr>"
    by (simp add: touch_def w2_def)
  obtain p2 where d: "RegisterCustomDomainHosts pe c (ri_no_domains ri) (SiteID d) (Deployment.Port d) (en\<lparr> en_w := w2, en_proxy := p1 \<rparr>) = en\<lparr> en_w := w2, en_proxy := p2 \<rparr>"
    "routed p1 ?h (Deployment.Port d) (SiteID d) \<longrightarrow> routed p2 ?h (Deployment.Port d) (SiteID d)"
    using domains_shape [of pe c "ri_no_domains ri" "SiteID d" "Deployment.Port d" "en\<lparr> en_w := w2, en_proxy := p1 \<rparr>" ?h] by auto
  have "publish e pe c ri did pp d repo persist en = drainOldDeployments (SiteID d) (en\<lparr> en_w := w2, en_proxy := p2 \<rparr>)"
    unfolding publish_def Let_def f(1) t d(1) by (rule refl)
  then show ?thesis using f(2) d(2) by (intro exI [of _ w2] exI [of _ p2]) (simp add: drainOldDeployments_def drains_def)
qed

text \<open>The two outcomes of a run: nothing but its own row and its own process, or the switch.\<close>

definition waits :: "string \<Rightarrow> string \<Rightarrow> engine \<Rightarrow> engine \<Rightarrow> bool" where
  "waits did repo en en' = (\<exists>w ts. en' = en\<lparr> en_w := w, en_tasks := en_tasks en @ ts \<rparr> \<and> (\<forall>t \<in> set ts. \<exists>dir ty. t = StartTask dir did ty repo))"

definition serves :: "run_in \<Rightarrow> string \<Rightarrow> string \<Rightarrow> string \<Rightarrow> engine \<Rightarrow> task list \<Rightarrow> bool" where
  "serves ri did repo site en ts =
     ((\<exists>dir ty m. ts = StartTask dir did ty repo # drains site en \<and> OK (fst (probeHealth (ri_probe ri) (check_config m))))
      \<or> (\<exists>dir. ts = drains site en @ [StaticTask dir did repo] \<and> (ri_before ri (path_join dir ''index.html'') \<or> ri_after ri (path_join dir ''index.html''))))"

definition switched :: "engine_cfg \<Rightarrow> run_in \<Rightarrow> string \<Rightarrow> string \<Rightarrow> Deployment \<Rightarrow> engine \<Rightarrow> engine \<Rightarrow> bool" where
  "switched c ri did repo d en en' =
     (\<exists>w p ts. en' = en\<lparr> en_w := w, en_proxy := p, en_old := map_del (SiteID d) (en_old en), en_tasks := en_tasks en @ ts \<rparr>
        \<and> (ec_router c \<and> routable (deploymentHost (ec_domain c) repo) (Deployment.Port d) \<longrightarrow> routed p (deploymentHost (ec_domain c) repo) (Deployment.Port d) (SiteID d))
        \<and> serves ri did repo (SiteID d) en ts)"

definition settled :: "engine_cfg \<Rightarrow> run_in \<Rightarrow> string \<Rightarrow> string \<Rightarrow> Deployment \<Rightarrow> engine \<Rightarrow> engine option \<Rightarrow> bool" where
  "settled c ri did repo d en r = (case r of None \<Rightarrow> True | Some en' \<Rightarrow> waits did repo en en' \<or> switched c ri did repo d en en')"

lemma settled_on_w: "settled c ri did repo d (en\<lparr> en_w := v \<rparr>) r \<Longrightarrow> settled c ri did repo d en r"
  by (auto simp: settled_def waits_def switched_def serves_def drains_def split: option.splits)

lemma settled_sha [simp]: "settled c ri did repo (d\<lparr> CommitSHA := x \<rparr>) en r = settled c ri did repo d en r"
  by (cases r) (simp_all add: settled_def switched_def)

lemma settled_fail: "settled c ri did repo d en (fail_run e c did' msg en)"
  by (auto simp: settled_def fail_run_def waits_def split: option.split intro!: exI [of _ "[]"])

lemma settled_transition: "settled c ri did repo d en (Some (transition e c did' st en))"
  by (auto simp: settled_def transition_def waits_def intro!: exI [of _ "[]"])

lemma settled_static:
  assumes "ri_before ri (path_join dir ''index.html'') \<or> ri_after ri (path_join dir ''index.html'')"
  shows "settled c ri did repo d en (Some (live_static e pe c ri did pp d repo dir en))"
proof -
  obtain w p where "publish e pe c ri did pp d repo True en
      = en\<lparr> en_w := w, en_proxy := p, en_old := map_del (SiteID d) (en_old en), en_tasks := en_tasks en @ drains (SiteID d) en \<rparr>"
    "ec_router c \<and> routable (deploymentHost (ec_domain c) repo) (Deployment.Port d) \<longrightarrow> routed p (deploymentHost (ec_domain c) repo) (Deployment.Port d) (SiteID d)"
    using publish_shape [of e pe c ri did pp d repo True en] by blast
  then have "switched c ri did repo d en (live_static e pe c ri did pp d repo dir en)"
    unfolding switched_def live_static_def Let_def serves_def using assms
    by (intro exI [of _ w] exI [of _ p] exI [of _ "drains (SiteID d) en @ [StaticTask dir did repo]"]) simp
  then show ?thesis by (simp add: settled_def)
qed

lemma on_w_eqs:
  "touch e did en = en\<lparr> en_w := en_w (touch e did en) \<rparr>" "set_type e did t en = en\<lparr> en_w := en_w (set_type e did t en) \<rparr>"
  "transition e c did st en = en\<lparr> en_w := en_w (transition e c did st en) \<rparr>"
  "applyManifestCSP e m en = en\<lparr> en_w := en_w (applyManifestCSP e m en) \<rparr>"
  "snd (app_root e ri site dir en) = en\<lparr> en_w := en_w (snd (app_root e ri site dir en)) \<rparr>"
  by (simp_all add: touch_def set_type_def transition_def applyManifestCSP_def app_root_def split: option.split)

lemma on_w_twice: "en1 = en\<lparr> en_w := w \<rparr> \<Longrightarrow> en2 = en1\<lparr> en_w := en_w en2 \<rparr> \<Longrightarrow> en2 = en\<lparr> en_w := en_w en2 \<rparr>"
  by simp

lemma settled_process: "settled c ri did repo d en (Some (start_process e pe c ri did pp d repo dir t m en))"
proof -
  define w1 where "w1 = en_w (transition e c did ''deploying'' (touch e did en))"
  have w1: "transition e c did ''deploying'' (touch e did en) = en\<lparr> en_w := w1 \<rparr>"
    unfolding w1_def by (rule on_w_twice [OF on_w_eqs(1) on_w_eqs(3)])
  let ?en2 = "en\<lparr> en_w := w1, en_tasks := en_tasks en @ [StartTask dir did t repo] \<rparr>"
  define w2 where "w2 = en_w (touch e did (touch e did (touch e did (touch e did ?en2))))"
  have w2: "touch e did (touch e did (touch e did (touch e did ?en2))) = ?en2\<lparr> en_w := w2 \<rparr>"
    unfolding w2_def by (rule on_w_twice [OF on_w_twice [OF on_w_twice [OF on_w_eqs(1) on_w_eqs(1)] on_w_eqs(1)] on_w_eqs(1)])
  let ?ok = "OK (fst (probeHealth (ri_probe ri) (check_config m)))" and ?en4 = "?en2\<lparr> en_w := w2 \<rparr>"
  have run: "start_process e pe c ri did pp d repo dir t m en = (if ?ok then publish e pe c ri did pp d repo False ?en4
      else transition e c did ''failed'' (on_w (exec_row e did (\<lambda>r. r\<lparr> ErrorMessage := ''Health check failed: ''
        @ ri_reason_text ri (FirstFailureReason (fst (probeHealth (ri_probe ri) (check_config m)))) \<rparr>)) ?en4))"
    unfolding start_process_def runHealthCheck_def Let_def w1 prod.case
    using w2 by simp
  show ?thesis
  proof (cases ?ok)
    case True
    obtain w p where "publish e pe c ri did pp d repo False ?en4
        = ?en4\<lparr> en_w := w, en_proxy := p, en_old := map_del (SiteID d) (en_old ?en4), en_tasks := en_tasks ?en4 @ drains (SiteID d) ?en4 \<rparr>"
      "ec_router c \<and> routable (deploymentHost (ec_domain c) repo) (Deployment.Port d) \<longrightarrow> routed p (deploymentHost (ec_domain c) repo) (Deployment.Port d) (SiteID d)"
      using publish_shape [of e pe c ri did pp d repo False ?en4] by blast
    then have "switched c ri did repo d en (start_process e pe c ri did pp d repo dir t m en)"
      unfolding switched_def run serves_def using True
      by (intro exI [of _ w] exI [of _ p] exI [of _ "StartTask dir did t repo # drains (SiteID d) en"]) (auto simp: drains_def)
    then show ?thesis by (simp add: settled_def)
  next
    case False
    have "waits did repo en (?en4\<lparr> en_w := w \<rparr>)" for w
      unfolding waits_def by (intro exI [of _ w] exI [where x = "[StartTask dir did t repo]"]) simp
    with False have "waits did repo en (start_process e pe c ri did pp d repo dir t m en)"
      unfolding run by (simp only: if_False transition_def) simp
    then show ?thesis by (simp add: settled_def)
  qed
qed

lemma settled_build: "settled c ri did repo d en (build_and_serve e pe c ri did pp d repo root hint t m en)"
proof -
  define w1 where "w1 = en_w (touch e did (touch e did en))"
  have w1: "touch e did (touch e did en) = en\<lparr> en_w := w1 \<rparr>" unfolding w1_def by (rule on_w_twice [OF on_w_eqs(1) on_w_eqs(1)])
  let ?en2 = "en\<lparr> en_w := w1 \<rparr>"
  define w2 where "w2 = en_w (set_type e did AppStatic ?en2)"
  have w2: "set_type e did AppStatic ?en2 = en\<lparr> en_w := w2 \<rparr>" unfolding w2_def by (rule on_w_twice [OF refl on_w_eqs(2)])
  have idx: "ri_after ri (path_join dir ''index.html'')" if "RequireStaticIndex (ri_after ri) dir tried = None" for dir tried
    using that by (simp add: RequireStaticIndex_def split: if_splits)
  show ?thesis unfolding build_and_serve_def Let_def w1 w2
    by (auto split: option.split prod.split intro: settled_on_w settled_fail settled_process settled_static dest: idx)
qed


end
