(* ===== verification/Deploy_Live.thy ===== *)
theory Deploy_Live
  imports Deploy_Pipeline
begin

text \<open>
  Properties of the running engine: deletion, shutdown and resumption, a run of the pipeline on concrete inputs, and
  the states of the pipeline that its comments rule out.
\<close>

section \<open>Deleting a deployment\<close>

lemma forceStatus_others: "x \<noteq> did \<Longrightarrow> map_of (w_rows (forceStatus (quiet_env t) did st w)) x = map_of (w_rows w) x"
proof -
  assume x: "x \<noteq> did"
  have a: "map_of (w_rows (appendStatusHistory (quiet_env t) did tr v)) x = map_of (w_rows v) x" for tr v
    using x by (auto simp: appendStatusHistory_def Let_def map_of_update_row split: option.split)
  show ?thesis using x by (auto simp: forceStatus_def query_status_def Let_def a map_of_update_row split: option.split)
qed

lemma w_sites_keep [simp]: "w_sites (appendStatusHistory e did tr w) = w_sites w"
  by (simp add: appendStatusHistory_def Let_def split: option.split)

lemma kill_orphan_keeps [simp]:
  "en_apps (kill_orphan e did en) = en_apps en" "en_w (kill_orphan e did en) = stmt e (en_w en)" "en_proxy (kill_orphan e did en) = en_proxy en"
  by (auto simp: kill_orphan_def Let_def split: option.split)

lemma stopDeployment_quiet:
  "en_apps (stopDeployment (quiet_env t) c did st en) = map_del did (en_apps en)"
  "x \<noteq> did \<Longrightarrow> map_of (w_rows (en_w (stopDeployment (quiet_env t) c did st en))) x = map_of (w_rows (en_w en)) x"
  by (auto simp: stopDeployment_def Let_def map_del_absent forceStatus_others split: option.split)

definition may_manage :: "int option \<Rightarrow> Deployment \<Rightarrow> world \<Rightarrow> bool" where
  "may_manage org r w = (case org of None \<Rightarrow> True | Some o1 \<Rightarrow> o1 = 0 \<or> SiteID r = []
     \<or> (case map_of (w_sites w) (SiteID r) of None \<Rightarrow> True | Some so \<Rightarrow> so = 0 \<or> so = o1))"

lemma verify_quiet:
  "case verifyDeploymentOwnership (quiet_env t) org did w of (code, w1) \<Rightarrow> w_rows w1 = w_rows w \<and> w_sites w1 = w_sites w
    \<and> (case code of
         None \<Rightarrow> (\<forall>r. map_of (w_rows w) did = Some r \<longrightarrow> may_manage org r w)
       | Some n \<Rightarrow> (n = 404 \<and> map_of (w_rows w) did = None) \<or> (n = 403 \<and> (\<exists>r. map_of (w_rows w) did = Some r \<and> \<not> may_manage org r w)))"
  by (auto simp: verifyDeploymentOwnership_def Let_def may_manage_def split: option.split)

text \<open>
  C6. Deleting a deployment, on every answer: it succeeds only for a known, settled deployment that the
  caller's organization may manage, and then removes exactly its row and its application; with every other
  answer (unknown, another tenant's, in flight, an identifier that is not a file name) no row, application or
  host changes. A caller without an organization and a site without one are let through.
\<close>

theorem delete_guarded:
  assumes "handleDeleteDeployment (quiet_env t) c org did en = (code, en')"
  shows "if code = 204
    then (\<exists>r. map_of (w_rows (en_w en)) did = Some r \<and> may_manage org r (en_w en) \<and> \<not> IsInFlight (Deployment.Status r))
      \<and> map_of (w_rows (en_w en')) = (map_of (w_rows (en_w en)))(did := None) \<and> en_apps en' = map_del did (en_apps en)
    else code \<in> {400, 403, 404, 409} \<and> w_rows (en_w en') = w_rows (en_w en) \<and> en_apps en' = en_apps en \<and> en_proxy en' = en_proxy en
      \<and> (code = 403 \<longrightarrow> (\<exists>r. map_of (w_rows (en_w en)) did = Some r \<and> \<not> may_manage org r (en_w en)))
      \<and> (code = 409 \<longrightarrow> (\<exists>r. map_of (w_rows (en_w en)) did = Some r \<and> IsInFlight (Deployment.Status r)))"
proof -
  obtain v w1 where v: "verifyDeploymentOwnership (quiet_env t) org did (en_w en) = (v, w1)" by force
  note q = verify_quiet [where t = t and org = org and did = did and w = "en_w en", unfolded v prod.case]
  show ?thesis
  proof (cases v)
    case (Some n)
    then show ?thesis using q assms v by (auto simp: handleDeleteDeployment_def)
  next
    case None
    let ?bad = "Contains (Clean did) ''..'' \<or> Contains (Clean did) ''/''"
    show ?thesis
    proof (cases "?bad \<or> map_of (w_rows (en_w en)) did = None \<or> (\<exists>r. map_of (w_rows (en_w en)) did = Some r \<and> \<not> CanDelete (Deployment.Status r))")
      case True
      then show ?thesis using q None assms v by (auto simp: handleDeleteDeployment_def Let_def CanDelete_def split: if_splits option.splits)
    next
      case False
      then obtain r where r: "map_of (w_rows (en_w en)) did = Some r" "CanDelete (Deployment.Status r)" by auto
      let ?en3 = "stopDeployment (quiet_env t) c did (str StateStopped) (en\<lparr> en_w := stmt (quiet_env t) w1 \<rparr>)"
      have run: "code = 204" "en' = ?en3\<lparr> en_w := (stmt (quiet_env t) (en_w ?en3))\<lparr> w_rows := map_del did (w_rows (en_w ?en3)) \<rparr> \<rparr>"
        using assms v None False r q by (auto simp: handleDeleteDeployment_def Let_def)
      have "map_of (w_rows (en_w en')) = (map_of (w_rows (en_w en)))(did := None)"
        using stopDeployment_quiet(2) [where did = did and t = t and c = c and st = "str StateStopped" and en = "en\<lparr> en_w := stmt (quiet_env t) w1 \<rparr>"] q
        by (auto simp: run(2) fun_eq_iff)
      moreover have "en_apps en' = map_del did (en_apps en)" by (simp add: run(2) stopDeployment_quiet)
      ultimately show ?thesis using run(1) r q None by (simp add: CanDelete_def)
    qed
  qed
qed

section \<open>Shutting down\<close>

lemma release_proxy: "en_proxy (release_app c did a en) = (if ec_router c \<and> ra_host a \<noteq> [] then UnregisterDeploymentHost (ra_host a) (en_proxy en) else en_proxy en)"
  by (simp add: release_app_def Let_def)

lemma release_killed: "set (en_killed (release_app c did a en)) = set (en_killed en) \<union> (if ra_pid a > 0 then {ra_pid a} else {})"
  by (simp add: release_app_def Let_def)

definition unrouted :: "string \<Rightarrow> engine \<Rightarrow> bool" where
  "unrouted host en = (host_target (en_proxy en) host = None)"

lemma unrouted_release: "unrouted host en \<Longrightarrow> unrouted host (release_app c did a en)"
  by (simp add: unrouted_def release_proxy host_table.unreg_keeps)

lemma release_all:
  fixes c :: engine_cfg and xs :: "(string \<times> runningApp) list" and en :: engine
  defines "out \<equiv> fold (\<lambda>x. release_app c (fst x) (snd x)) xs en"
  shows "en_apps out = fold map_del (map fst xs) (en_apps en)"
    and "unrouted host en \<Longrightarrow> unrouted host out" and "set (en_killed en) \<subseteq> set (en_killed out)"
    and "x \<in> set xs \<Longrightarrow> ec_router c \<Longrightarrow> ra_host (snd x) \<noteq> [] \<Longrightarrow> unrouted (ra_host (snd x)) out"
    and "x \<in> set xs \<Longrightarrow> ra_pid (snd x) > 0 \<Longrightarrow> ra_pid (snd x) \<in> set (en_killed out)"
proof -
  have "en_apps out = fold map_del (map fst xs) (en_apps en) \<and> (\<forall>host. unrouted host en \<longrightarrow> unrouted host out) \<and> set (en_killed en) \<subseteq> set (en_killed out)
    \<and> (\<forall>x \<in> set xs. (ec_router c \<and> ra_host (snd x) \<noteq> [] \<longrightarrow> unrouted (ra_host (snd x)) out) \<and> (ra_pid (snd x) > 0 \<longrightarrow> ra_pid (snd x) \<in> set (en_killed out)))"
    unfolding out_def
  proof (induction xs arbitrary: en)
    case (Cons y ys)
    let ?en1 = "release_app c (fst y) (snd y) en"
    have u: "ec_router c \<and> ra_host (snd y) \<noteq> [] \<longrightarrow> unrouted (ra_host (snd y)) ?en1" by (simp add: unrouted_def release_proxy host_table.unreg)
    have k: "ra_pid (snd y) > 0 \<longrightarrow> ra_pid (snd y) \<in> set (en_killed ?en1)" "set (en_killed en) \<subseteq> set (en_killed ?en1)"
      using release_killed [of c "fst y" "snd y" en] by auto
    show ?case using Cons [of ?en1] u k unrouted_release [of _ en c "fst y" "snd y"] by simp blast
  qed simp
  then show "en_apps out = fold map_del (map fst xs) (en_apps en)" "unrouted host en \<Longrightarrow> unrouted host out" "set (en_killed en) \<subseteq> set (en_killed out)"
    "x \<in> set xs \<Longrightarrow> ec_router c \<Longrightarrow> ra_host (snd x) \<noteq> [] \<Longrightarrow> unrouted (ra_host (snd x)) out"
    "x \<in> set xs \<Longrightarrow> ra_pid (snd x) > 0 \<Longrightarrow> ra_pid (snd x) \<in> set (en_killed out)" by auto
qed

lemma fold_map_del: "set (map fst m) \<subseteq> set ks \<Longrightarrow> fold map_del ks m = []"
proof (induction ks arbitrary: m)
  case (Cons k ks)
  have "set (map fst (map_del k m)) \<subseteq> set ks" using Cons.prems by (auto simp: map_del_def)
  then show ?case using Cons.IH by simp
qed simp

text \<open>
  Shutting the component down leaves no application registered, no host of an application routed and no
  process of one alive.
\<close>

lemma Stop_releases_everything:
  "en_apps (Stop c en) = []"
  "x \<in> set (en_apps en) \<Longrightarrow> ec_router c \<Longrightarrow> ra_host (snd x) \<noteq> [] \<Longrightarrow> unrouted (ra_host (snd x)) (Stop c en)"
  "x \<in> set (en_apps en) \<Longrightarrow> ra_pid (snd x) > 0 \<Longrightarrow> ra_pid (snd x) \<in> set (en_killed (Stop c en))"
proof -
  have s: "Stop c en = fold (\<lambda>x. release_app c (fst x) (snd x)) (en_apps en) en" by (simp add: Stop_def case_prod_unfold)
  have "fold map_del (map fst (en_apps en)) (en_apps en) = []" by (rule fold_map_del) simp
  then show "en_apps (Stop c en) = []" unfolding s release_all(1) .
  show "x \<in> set (en_apps en) \<Longrightarrow> ec_router c \<Longrightarrow> ra_host (snd x) \<noteq> [] \<Longrightarrow> unrouted (ra_host (snd x)) (Stop c en)"
    unfolding s by (rule release_all(4))
  show "x \<in> set (en_apps en) \<Longrightarrow> ra_pid (snd x) > 0 \<Longrightarrow> ra_pid (snd x) \<in> set (en_killed (Stop c en))"
    unfolding s by (rule release_all(5))
qed

section \<open>Resuming\<close>

definition host_of :: "string \<times> Deployment \<Rightarrow> string" where
  "host_of x = HostFromDeploymentURL (URL (snd x))"

definition skipped :: "string list \<Rightarrow> string \<times> Deployment \<Rightarrow> bool" where
  "skipped hosts x = (host_of x = [] \<or> host_of x = ''localhost'' \<or> host_of x \<in> set hosts)"

lemma once_per_host_Cons:
  "once_per_host hosts (x # xs) = (if skipped hosts x then once_per_host hosts xs else x # once_per_host (host_of x # hosts) xs)"
  by (simp add: skipped_def host_of_def Let_def)

declare once_per_host.simps(2) [simp del]

lemma once_per_host_sub: "set (once_per_host hosts xs) \<subseteq> set xs"
  by (induction xs arbitrary: hosts) (auto simp: once_per_host_Cons split: if_splits)

lemma once_per_host_fresh: "x \<in> set (once_per_host hosts xs) \<Longrightarrow> \<not> skipped hosts x"
proof (induction xs arbitrary: hosts)
  case (Cons y ys)
  have "skipped hosts x \<Longrightarrow> skipped (host_of y # hosts) x" by (auto simp: skipped_def)
  then show ?case using Cons by (cases "skipped hosts y") (auto simp: once_per_host_Cons)
qed simp

lemma once_per_host_distinct: "distinct (map host_of (once_per_host hosts xs))"
proof (induction xs arbitrary: hosts)
  case (Cons y ys)
  have "host_of x \<noteq> host_of y" if "x \<in> set (once_per_host (host_of y # hosts) ys)" for x
    using once_per_host_fresh [OF that] by (simp add: skipped_def)
  then have "host_of y \<notin> host_of ` set (once_per_host (host_of y # hosts) ys)" by force
  then show ?case using Cons by (simp add: once_per_host_Cons)
qed simp

lemma once_per_host_first:
  "host \<notin> set hosts \<Longrightarrow> host \<noteq> [] \<Longrightarrow> host \<noteq> ''localhost'' \<Longrightarrow> filter (\<lambda>x. host_of x = host) (once_per_host hosts xs) = take 1 (filter (\<lambda>x. host_of x = host) xs)"
proof (induction xs arbitrary: hosts)
  case (Cons x xs)
  show ?case
  proof (cases "skipped hosts x")
    case True
    then have "host_of x \<noteq> host" using Cons.prems by (auto simp: skipped_def)
    then show ?thesis using True Cons by (simp add: once_per_host_Cons)
  next
    case False
    have "host_of y \<noteq> host_of x" if "y \<in> set (once_per_host (host_of x # hosts) xs)" for y
      using once_per_host_fresh [OF that] by (simp add: skipped_def)
    then have "filter (\<lambda>y. host_of y = host_of x) (once_per_host (host_of x # hosts) xs) = []" by (simp add: filter_empty_conv)
    then show ?thesis using False Cons.IH [of "host_of x # hosts"] Cons.prems by (cases "host_of x = host") (auto simp: once_per_host_Cons)
  qed
qed simp

lemma set_insert_desc: "set (insert_desc x xs) = insert x (set xs)"
  by (induction xs) auto

lemma set_newest_first: "set (newest_first rs) = set rs"
  by (induction rs) (auto simp: newest_first_def set_insert_desc)

fun descending :: "(string \<times> Deployment) list \<Rightarrow> bool" where
  "descending [] = True"
| "descending (x # xs) = ((\<forall>y \<in> set xs. CreatedAt (snd y) \<le> CreatedAt (snd x)) \<and> descending xs)"

lemma descending_insert: "descending xs \<Longrightarrow> descending (insert_desc x xs)"
  by (induction xs) (auto simp: set_insert_desc intro: less_imp_le order_trans)

lemma descending_newest_first: "descending (newest_first rs)"
  by (induction rs) (auto simp: newest_first_def descending_insert)

lemma descending_filter: "descending xs \<Longrightarrow> descending (filter P xs)"
  by (induction xs) auto

definition resumable :: "(string, string) go_map \<Rightarrow> string \<times> Deployment \<Rightarrow> bool" where
  "resumable repos x = (Deployment.Status (snd x) = ''running'' \<and> Deployment.Port (snd x) > 0 \<and> map_of repos (RepoID (snd x)) \<noteq> None)"


section \<open>A run on concrete inputs\<close>

definition site_cfg :: engine_cfg where
  "site_cfg = rollback_cfg"

definition serve_files :: "string \<Rightarrow> string \<Rightarrow> bool" where
  "serve_files dir f = (f = path_join dir ''index.html'')"

definition static_run :: run_in where
  "static_run = \<lparr> ri_repo = True, ri_mkdir = True, ri_clone = True, ri_sha = ''abc'', ri_root = [], ri_toml = (\<lambda>_. Inl []), ri_yaml = (\<lambda>_. Inl []),
     ri_files = (\<lambda>_. NotExist), ri_menv = (\<lambda>_. []), ri_project = (\<lambda>_. \<lparr> files = [(''index.html'', [])], pkg = PkgAbsent, pyproject = False \<rparr>),
     ri_host = (\<lambda>_. py_host), ri_before = serve_files ''/b/d2'', ri_after = serve_files ''/b/d2'', ri_probe = (\<lambda>_. (DoFails [], 0)),
     ri_no_domains = False, ri_now = ''t'', ri_env_text = (\<lambda>_. []), ri_reason_text = (\<lambda>_. []) \<rparr>"

definition static_row :: Deployment where
  "static_row = (sample_row ''pending'')\<lparr> Port := 4009, App_Type := AppStatic \<rparr>"

definition busy_site :: engine where
  "busy_site = rollback_engine\<lparr> en_old := [(''s'', [''new''])], en_w := sample_world (rollback_rows @ [(''d2'', static_row\<lparr> App_Type := [] \<rparr>)]) \<rparr>"

text \<open>A repository with a page of its own goes live at once.\<close>

lemma static_goes_live:
  assumes ok: "\<not> Contains (Clean (RepoID d)) ''..''" "ri_repo ri" "ri_mkdir ri" "ri_clone ri" "\<And>n. \<not> env_fails e n"
    and root: "root = (if SiteID d = [] then buildDir else ResolveAppRoot buildDir (ri_root ri))"
    and t: "run_type ri root (d\<lparr> CommitSHA := ri_sha ri \<rparr>) (run_manifest ri root (d\<lparr> CommitSHA := ri_sha ri \<rparr>)) = Inr (AppStatic, hint)"
    and dir: "pure_static ri root" "ResolvePureStaticServeDir (ri_before ri) root hint = Inr dir"
  shows "\<exists>w p. runDeployment e pe c ri did pp d buildDir repo en
      = Some (en\<lparr> en_w := w, en_proxy := p, en_old := map_del (SiteID d) (en_old en), en_tasks := en_tasks en @ drains (SiteID d) en @ [StaticTask dir did repo] \<rparr>)
    \<and> (ec_router c \<and> routable (deploymentHost (ec_domain c) repo) (Deployment.Port d) \<longrightarrow> routed p (deploymentHost (ec_domain c) repo) (Deployment.Port d) (SiteID d))"
proof -
  let ?d = "d\<lparr> CommitSHA := ri_sha ri \<rparr>"
  define en1 where "en1 = on_w (exec_row e did (\<lambda>r. r\<lparr> CommitSHA := ri_sha ri \<rparr>)) (touch e did (transition e c did ''building'' en))"
  define en2 where "en2 = snd (app_root e ri (SiteID ?d) buildDir en1)"
  have ar: "app_root e ri (SiteID ?d) buildDir en1 = (root, en2)" using ok(5) by (simp add: en2_def app_root_def root failing_def)
  define en3 where "en3 = applyManifestCSP e (run_manifest ri root ?d) (set_type e did AppStatic en2)"
  have en1: "en1 = en\<lparr> en_w := en_w en1 \<rparr>" by (simp add: en1_def touch_def transition_def)
  have en3: "en3 = en\<lparr> en_w := en_w en3 \<rparr>"
    unfolding en3_def en2_def by (rule on_w_twice [OF on_w_twice [OF on_w_twice [OF en1 on_w_eqs(5)] on_w_eqs(2)] on_w_eqs(4)])
  have run: "runDeployment e pe c ri did pp d buildDir repo en = Some (live_static e pe c ri did pp ?d repo dir en3)"
    unfolding runDeployment_def after_clone_def Let_def en1_def [symmetric] ar prod.case t sum.case dir(2) en3_def
    using ok dir(1) by simp
  define w3 where "w3 = en_w en3"
  have e3: "en3 = en\<lparr> en_w := w3 \<rparr>" using en3 by (simp add: w3_def)
  obtain w p where pub: "publish e pe c ri did pp ?d repo True (en\<lparr> en_w := w3 \<rparr>)
      = en\<lparr> en_w := w, en_proxy := p, en_old := map_del (SiteID d) (en_old en), en_tasks := en_tasks en @ drains (SiteID d) en \<rparr>"
    "ec_router c \<and> routable (deploymentHost (ec_domain c) repo) (Deployment.Port d) \<longrightarrow> routed p (deploymentHost (ec_domain c) repo) (Deployment.Port d) (SiteID d)"
    using publish_shape [of e pe c ri did pp ?d repo True "en\<lparr> en_w := w3 \<rparr>"] by (auto simp: drains_def)
  show ?thesis unfolding run e3 live_static_def Let_def pub(1) using pub(2)
    by (intro exI [of _ w] exI [of _ p]) simp
qed


lemma static_type:
  "App_Type d = AppStatic \<Longrightarrow> ri_project ri root = \<lparr> files = [(''index.html'', [])], pkg = PkgAbsent, pyproject = False \<rparr> \<Longrightarrow> run_type ri root d m = Inr (AppStatic, [])"
  by (simp add: run_type_def ResolveDeployAppType_def DetectFrameworkMode_def resolved_mode_def no_mode_def IsValid_def Let_def)

lemma app_host: "routable (deploymentHost (ec_domain site_cfg) ''app'') 4009" "routable (deploymentHost (ec_domain site_cfg) ''app'') 5001"
  "deploymentHost (ec_domain site_cfg) ''app'' = ''app.example.org''" "normalizeHost ''app.example.org'' = ''app.example.org''"
  by code_simp+

lemma static_row_simps [simp]: "RepoID static_row = ''r''" "SiteID static_row = ''s''" "App_Type static_row = AppStatic" "Deployment.Port static_row = 4009"
  by (simp_all add: static_row_def sample_row_def)

lemma static_run_simps [simp]:
  "ri_repo static_run" "ri_mkdir static_run" "ri_clone static_run" "ri_root static_run = []" "ri_before static_run = serve_files ''/b/d2''"
  "ri_project static_run root = \<lparr> files = [(''index.html'', [])], pkg = PkgAbsent, pyproject = False \<rparr>"
  by (simp_all add: static_run_def serve_files_def)

lemma serves_own_page: "pure_static (ri\<lparr> ri_before := serve_files ''/b/d2'' \<rparr>) ''/b/d2''" "ResolvePureStaticServeDir (serve_files ''/b/d2'') ''/b/d2'' [] = Inr ''/b/d2''"
  "pure_static (ri\<lparr> ri_before := serve_files ''/b/d2/web'' \<rparr>) ''/b/d2/web''" "ResolvePureStaticServeDir (serve_files ''/b/d2/web'') ''/b/d2/web'' [] = Inr ''/b/d2/web''"
  "pure_static (ri\<lparr> ri_before := serve_files ''/b/d9'' \<rparr>) ''/b/d9''" "ResolvePureStaticServeDir (serve_files ''/b/d9'') ''/b/d9'' [] = Inr ''/b/d9''"
  by (simp add: pure_static_def serve_files_def, code_simp, simp add: pure_static_def serve_files_def, code_simp, simp add: pure_static_def serve_files_def, code_simp)

lemma names_ok: "\<not> Contains (Clean ''r'') ''..''" "\<not> Contains (Clean ''mine'') ''..''" "ResolveAppRoot ''/b/d2'' [] = ''/b/d2''" "ResolveAppRoot ''/b/d2'' ''web'' = ''/b/d2/web''"
  by code_simp+

text \<open>The sample site goes live, also when the rows vanish under it.\<close>

lemma static_row_live:
  assumes "\<And>n. \<not> env_fails e n"
  shows "\<exists>w p. runDeployment e pe site_cfg static_run ''d2'' [] static_row ''/b/d2'' ''app'' busy_site
      = Some (busy_site\<lparr> en_w := w, en_proxy := p, en_old := [], en_tasks := [DrainTask ''new'', StaticTask ''/b/d2'' ''d2'' ''app''] \<rparr>)
    \<and> routed p ''app.example.org'' 4009 ''s''"
proof -
  have f: "static_run = static_run\<lparr> ri_before := serve_files ''/b/d2'' \<rparr>" by (simp add: static_run_def)
  have ps: "pure_static static_run ''/b/d2''" by (subst f) (rule serves_own_page(1))
  have "\<exists>w p. runDeployment e pe site_cfg static_run ''d2'' [] static_row ''/b/d2'' ''app'' busy_site
      = Some (busy_site\<lparr> en_w := w, en_proxy := p, en_old := map_del (SiteID static_row) (en_old busy_site),
          en_tasks := en_tasks busy_site @ drains (SiteID static_row) busy_site @ [StaticTask ''/b/d2'' ''d2'' ''app''] \<rparr>)
    \<and> (ec_router site_cfg \<and> routable (deploymentHost (ec_domain site_cfg) ''app'') (Deployment.Port static_row)
        \<longrightarrow> routed p (deploymentHost (ec_domain site_cfg) ''app'') (Deployment.Port static_row) (SiteID static_row))"
    by (rule static_goes_live [where root = "''/b/d2''" and hint = "[]"]) (use assms ps names_ok serves_own_page(2) in \<open>simp_all add: static_type\<close>)
  moreover have "ec_router site_cfg" by (simp add: site_cfg_def rollback_cfg_def)
  moreover have "map_del ''s'' (en_old busy_site) = []" "en_tasks busy_site = []" "drains ''s'' busy_site = [DrainTask ''new'']"
    by (simp_all add: busy_site_def rollback_engine_def map_del_def drains_def get_list_def)
  ultimately show ?thesis using app_host by simp
qed



theorem delete_guarded_witness:
  "fst (handleDeleteDeployment (quiet_env ''t'') site_cfg (Some 7) ''old'' rollback_engine) = 204
   \<and> en_apps (snd (handleDeleteDeployment (quiet_env ''t'') site_cfg (Some 7) ''old'' rollback_engine)) = map_del ''old'' (en_apps rollback_engine)"
proof -
  have "fst (handleDeleteDeployment (quiet_env ''t'') site_cfg (Some 7) ''old'' rollback_engine) = 204" by code_simp
  then show ?thesis using delete_guarded [OF prod.collapse [symmetric], where t = "''t''" and c = site_cfg and org = "Some 7" and did = "''old''" and en = rollback_engine] by simp
qed

section \<open>States the comments rule out\<close>

text \<open>A failure before the build has no message.\<close>

lemma early_failure_has_no_message:
  "map_option (\<lambda>en. map_option (\<lambda>r. (Deployment.Status r, ErrorMessage r)) (map_of (w_rows (en_w en)) ''d2''))
     (runDeployment (quiet_env ''t'') no_site_rows site_cfg (static_run\<lparr> ri_clone := False \<rparr>) ''d2'' [] static_row ''/b/d2'' ''app'' busy_site)
   = Some (Some (''failed'', []))"
  by code_simp

text \<open>The site is deleted while its deployment builds: the run still takes the host and starts to serve.\<close>

definition site_deleted :: env where
  "site_deleted = \<lparr> env_fails = (\<lambda>n. False), env_affected_fails = (\<lambda>n. False), env_before = (\<lambda>n rs. []), env_now = (\<lambda>n. ''t'') \<rparr>"

lemma deleted_site_goes_live:
  "\<exists>en'. runDeployment site_deleted pe site_cfg static_run ''d2'' [] static_row ''/b/d2'' ''app'' busy_site = Some en'
     \<and> routed (en_proxy en') ''app.example.org'' 4009 ''s'' \<and> StaticTask ''/b/d2'' ''d2'' ''app'' \<in> set (en_tasks en')"
proof -
  have q: "\<not> env_fails site_deleted n" for n by (simp add: site_deleted_def)
  from static_row_live [OF q, of pe] show ?thesis by force
qed

text \<open>
  A site in a subdirectory of its repository: deployed from there, but sought in the checkout when it is
  resumed, and failed without a history entry.
\<close>

lemma subdirectory_site_fails_on_restart:
  "ResolveAppRoot ''/b/d2'' ''web'' = ''/b/d2/web'' \<and> ResolvePureStaticServeDir (\<lambda>f. f = ''/b/d2'' \<or> f = ''/b/d2/web/index.html'') ''/b/d2/web'' [] = Inr ''/b/d2/web''
   \<and> map_option (\<lambda>r. (Deployment.Status r, StatusHistory r)) (map_of (w_rows (en_w (resume_one (quiet_env ''t'') site_cfg
        (\<lambda>f. f = ''/b/d2'' \<or> f = ''/b/d2/web/index.html'') [] (''d2'', static_row)
        (busy_site\<lparr> en_w := sample_world [(''d2'', static_row\<lparr> Status := ''running'' \<rparr>)] \<rparr>)))) ''d2'') = Some (''failed'', HistEmpty)"
  by code_simp

text \<open>
  The type static is stored before the build; if the build gives no static output a process of type node is started,
  and the row keeps static.
\<close>

lemma process_stored_as_static:
  assumes "app_root e ri (SiteID d) buildDir (on_w (exec_row e did (\<lambda>r. r\<lparr> CommitSHA := ri_sha ri \<rparr>)) en) = (root, en2)"
    and "run_type ri root (d\<lparr> CommitSHA := ri_sha ri \<rparr>) None = Inr (AppStatic, hint)" "run_manifest ri root (d\<lparr> CommitSHA := ri_sha ri \<rparr>) = None"
    and "\<not> pure_static ri root" "fst (buildApp (ri_host ri root) (SiteID d) AppNode None (ri_menv ri None)) = None"
    and "FindStaticServeDirAfterNodeBuild (ri_after ri) root hint = None"
  shows "after_clone e pe c ri did pp d repo buildDir en
    = Some (start_process e pe c ri did pp (d\<lparr> CommitSHA := ri_sha ri \<rparr>) repo root AppNode None (touch e did (touch e did (set_type e did AppStatic en2))))"
proof -
  obtain tr where "buildApp (ri_host ri root) (SiteID d) AppNode None (ri_menv ri None) = (None, tr)" using assms(5) by (metis prod.collapse)
  then show ?thesis using assms by (simp add: after_clone_def Let_def applyManifestCSP_def build_and_serve_def output_dir_def)
qed

text \<open>Anyone may name a site in a request without a site identifier: the deployment gets the host of that name.\<close>

definition foreign_request :: trigger_req where
  "foreign_request = \<lparr> tq_RepoID = ''mine'', tq_Branch = [], tq_SiteName = ''app'', tq_SiteID = [], tq_PassthroughPaths = [], tq_AppType = AppStatic, tq_ManifestPath = [] \<rparr>"

lemma site_name_takes_host:
  assumes "map_of (ti_repos ti) ''mine'' = Some x" "ti_newID ti = Some ''d9''" "map_of (w_rows (en_w en)) ''d9'' = None"
    "pickPort (ti_free ti) (ti_listened ti) (ti_closed ti) (ti_base ti) (en_counter en) = (Some port, k)"
  shows "\<exists>d en1. HandleCreate (quiet_env t) site_cfg ti [] (Some 2) ''POST'' (Some foreign_request) en = (Inr (''d9'', d, ''app''), en1)
    \<and> URL d = ''http://app.example.org''"
proof -
  let ?en = "en\<lparr> en_w := stmt (quiet_env t) (en_w en) \<rparr>"
  define en2 where "en2 = collectPreviousDeployments (quiet_env t) [] ''mine'' ?en"
  have en2: "en_counter en2 = en_counter en" "w_rows (en_w en2) = w_rows (en_w en)"
    by (simp_all add: en2_def collectPreviousDeployments_def Let_def)
  have u: "deploymentURL (ec_domain site_cfg) (ec_https site_cfg) ''app'' n = ''http://app.example.org''" for n
  proof -
    have "deploymentHost ''example.org'' ''app'' = ''app.example.org''" by code_simp
    then show ?thesis by (simp add: deploymentURL_def site_cfg_def rollback_cfg_def)
  qed
  have "\<exists>en1. HandleCreate (quiet_env t) site_cfg ti [] (Some 2) ''POST'' (Some foreign_request) en
      = (Inr (''d9'', (new_row site_cfg ti (foreign_request\<lparr> tq_Branch := ''main'' \<rparr>) ''app'' port)\<lparr> App_Type := AppStatic \<rparr>, ''app''), en1)"
    using assms en2 unfolding HandleCreate_def create_site_def Trigger_def Let_def
    by (simp add: foreign_request_def en2_def [symmetric])
  then show ?thesis by (auto simp: new_row_def u)
qed

text \<open>The output directory of a manifest may lead out of the checkout.\<close>

lemma manifest_output_escapes:
  "output_dir (static_run\<lparr> ri_after := (\<lambda>_. True) \<rparr>) ''/b/d2'' [] AppNode (Some (zero_manifest\<lparr> Build := \<lparr> BuildCommand = [], Output = ''../d1'' \<rparr> \<rparr>)) = Some ''/b/d1''"
  by code_simp

end
