(* ===== verification/Kernel_Web.thy ===== *)
theory Kernel_Web
  imports Go_Path
begin

text \<open>
  What the components share of \<^verbatim>\<open>kernel/utilities.go\<close> and of the standard library's request mux: random
  identifiers in hexadecimal, and the clean form of a request path.
\<close>

definition hex_digit :: "nat \<Rightarrow> char" where
  "hex_digit n = ''0123456789abcdef'' ! n"

definition hex_encode :: "string \<Rightarrow> string" where
  "hex_encode bs = concat (map (\<lambda>b. [hex_digit (of_char b div 16), hex_digit (of_char b mod 16)]) bs)"

definition GenerateID :: "string option \<Rightarrow> string option" where
  "GenerateID rand = map_option hex_encode rand"

text \<open>The mux redirects a path that is not clean and matches the longest pattern.\<close>

definition mux_clean :: "string \<Rightarrow> string" where
  "mux_clean p = (let q = (if HasPrefix p ''/'' then p else ''/'' @ p); c = Clean q in
     if HasSuffix q ''/'' \<and> c \<noteq> ''/'' then c @ ''/'' else c)"

lemma hex_encode_plain: "bs \<noteq> [] \<Longrightarrow> plain (hex_encode bs) \<and> CHR ''.'' \<notin> set (hex_encode bs)"
proof -
  have d: "hex_digit n \<noteq> CHR ''.'' \<and> hex_digit n \<noteq> sep" if "n < 16" for n
  proof -
    have "hex_digit n \<in> set ''0123456789abcdef''" unfolding hex_digit_def using that by (intro nth_mem) simp
    moreover have "CHR ''.'' \<notin> set ''0123456789abcdef''" "sep \<notin> set ''0123456789abcdef''" by simp_all
    ultimately show ?thesis by metis
  qed
  have "\<forall>c \<in> set (hex_encode bs). c \<noteq> CHR ''.'' \<and> c \<noteq> sep"
  proof
    fix c assume "c \<in> set (hex_encode bs)"
    then obtain b where "c = hex_digit (of_char b div 16) \<or> c = hex_digit (of_char b mod 16)" by (auto simp: hex_encode_def)
    moreover have "(of_char b :: nat) < 256" by simp
    then have "of_char b div 16 < (16 :: nat)" by (simp add: div_less_iff_less_mult)
    ultimately show "c \<noteq> CHR ''.'' \<and> c \<noteq> sep" using d [of "of_char b div 16"] d [of "of_char b mod 16"] by (elim disjE) simp_all
  qed
  moreover assume "bs \<noteq> []"
  then have "hex_encode bs \<noteq> []" by (cases bs) (simp_all add: hex_encode_def)
  moreover have "CHR ''.'' \<in> set ''.''" "CHR ''.'' \<in> set ''..''" by simp_all
  ultimately show ?thesis unfolding plain_def by metis
qed

end
