(* ===== verification/Go_Files.thy ===== *)
theory Go_Files
  imports Go_Path
begin

text \<open>
  Files and directories as the \<^verbatim>\<open>os\<close> package sees them, for code that stores files: a disk maps the
  components of an absolute path to a directory or a regular file; the root is always a directory.
  Failures of the operating system are arguments. Also \<^verbatim>\<open>filepath.Base\<close> and \<^verbatim>\<open>filepath.Abs\<close>.
\<close>

section \<open>Base and Abs\<close>

definition Base :: "string \<Rightarrow> string" where
  "Base p = (if p = [] then ''.''
     else let q = TrimRightFn (\<lambda>c. c = sep) p in if q = [] then ''/'' else last (Split q sep))"

definition Abs :: "string \<Rightarrow> string \<Rightarrow> string" where
  "Abs wd p = (if IsAbs p then Clean p else path_join wd p)"

lemma Base_cases: "Base p = ''/'' \<or> Base p = ''.'' \<or> Base p = ''..'' \<or> plain (Base p)"
proof (cases "p = [] \<or> TrimRightFn (\<lambda>c. c = sep) p = []")
  case True
  then show ?thesis by (auto simp: Base_def)
next
  case False
  let ?q = "TrimRightFn (\<lambda>c. c = sep) p"
  let ?w = "dropWhile (\<lambda>c. c = sep) (rev p)"
  have "?w \<noteq> []" using False unfolding TrimRightFn_def by blast
  moreover have "hd ?w = last ?q" using calculation by (simp only: TrimRightFn_def last_rev)
  ultimately have l: "last ?q \<noteq> sep" using hd_dropWhile [of "\<lambda>c. c = sep" "rev p"] by metis
  have "last (Split q sep) \<noteq> []" if "last q \<noteq> sep" "q \<noteq> []" for q
    using that
  proof (induction q)
    case (Cons x xs)
    then show ?case
      by (cases "xs = []") (auto split: list.splits)
  qed simp
  then have "last (Split ?q sep) \<noteq> []" using l False by simp
  moreover have "sep \<notin> set (last (Split ?q sep))" using Split_fields [of "last (Split ?q sep)" ?q sep] by simp
  ultimately show ?thesis using False by (auto simp: Base_def plain_def)
qed

section \<open>Relative paths\<close>

text \<open>
  Cleaning a relative path first does not change where it leads from an absolute one: a relative stack
  holds plain components above leading \<open>..\<close>.
\<close>

definition rel_stack :: "string list \<Rightarrow> bool" where
  "rel_stack st = list_all (\<lambda>c. c = ''..'' \<or> c \<noteq> [] \<and> c \<noteq> ''.'') st"

lemma clean_comps_again:
  "rel_stack acc \<Longrightarrow> clean_comps True st (clean_comps False acc xs) = clean_comps True (rev (clean_comps True st (rev acc))) xs"
proof (induction xs arbitrary: acc)
  case (Cons c cs)
  consider "c = [] \<or> c = ''.''" | "c = ''..''" | "c \<noteq> []" "c \<noteq> ''.''" "c \<noteq> ''..''" by blast
  then show ?case
  proof cases
    case 1
    then show ?thesis using Cons.IH [OF Cons.prems] by (simp only: clean_comps.simps if_True)
  next
    case 2
    show ?thesis
    proof (cases "acc = [] \<or> hd acc = ''..''")
      case True
      have r: "rel_stack (''..'' # acc)" using Cons.prems by (simp add: rel_stack_def)
      have "clean_comps False acc (c # cs) = clean_comps False (''..'' # acc) cs"
        using 2 True by (cases acc) simp_all
      then show ?thesis using Cons.IH [OF r] 2
        by (simp add: clean_comps_append) (simp split: list.splits)
    next
      case False
      then obtain t ts where a: "acc = t # ts" "t \<noteq> ''..''" by (cases acc) auto
      then have t: "t \<noteq> []" "t \<noteq> ''.''" and r: "rel_stack ts" using Cons.prems by (auto simp: rel_stack_def)
      have "clean_comps True st (rev acc) = clean_comps True st (rev ts) @ [t]"
        using a t by (simp add: clean_comps_append)
      moreover have "clean_comps False acc (c # cs) = clean_comps False ts cs" using 2 a by simp
      ultimately show ?thesis using Cons.IH [OF r] 2 a by simp
    qed
  next
    case 3
    then have "rel_stack (c # acc)" using Cons.prems by (simp add: rel_stack_def)
    then show ?thesis using Cons.IH [of "c # acc"] 3 by (simp add: clean_comps_append)
  qed
qed simp

lemma clean_comps_all:
  assumes "P ''..''" "\<forall>c \<in> set st. P c" "\<forall>c \<in> set cs. c \<noteq> [] \<longrightarrow> P c"
  shows "\<forall>c \<in> set (clean_comps r st cs). P c"
  using assms(2,3)
proof (induction cs arbitrary: st)
  case (Cons c cs)
  consider "c = [] \<or> c = ''.''" | "c = ''..''" | "c \<noteq> []" "c \<noteq> ''.''" "c \<noteq> ''..''" by blast
  then show ?case
  proof cases
    case 1
    then have "clean_comps r st (c # cs) = clean_comps r st cs" by (simp only: clean_comps.simps if_True)
    then show ?thesis using Cons.IH [OF Cons.prems(1)] Cons.prems(2) by simp
  next
    case 2
    obtain st' where "clean_comps r st (c # cs) = clean_comps r st' cs" "\<forall>x \<in> set st'. P x"
    proof (cases st)
      case Nil
      then show ?thesis using 2 assms(1) that [of "if r then [] else [''..'']"] by (cases r) simp_all
    next
      case (Cons t ts)
      then show ?thesis using 2 assms(1) Cons.prems(1) that [of "if t = ''..'' then ''..'' # st else ts"]
        by (cases "t = ''..''") simp_all
    qed
    then show ?thesis using Cons.IH [of st'] Cons.prems(2) by simp
  next
    case 3
    then show ?thesis using Cons.IH [of "c # st"] Cons.prems by simp
  qed
qed simp

lemma comps_nonempty: "[] \<notin> set (comps p)"
  unfolding comps_def using clean_comps_all [of "\<lambda>c. c \<noteq> []" "[]" "Split p sep" "IsAbs p"] by auto

lemma comps_no_sep: "\<forall>c \<in> set (comps p). sep \<notin> set c"
  unfolding comps_def using clean_comps_all [of "\<lambda>c. sep \<notin> set c" "[]" "Split p sep" "IsAbs p"] Split_fields by auto

lemma Split_Clean_rel: "\<not> IsAbs p \<Longrightarrow> Split (Clean p) sep = (if comps p = [] then [''.''] else comps p)"
proof -
  assume r: "\<not> IsAbs p"
  have "\<forall>c \<in> set (comps p). sep \<notin> set c" by (rule comps_no_sep)
  then show ?thesis using r Split_Join_plain [of "comps p"] by (simp add: Clean_def)
qed

lemma comps_abs_append: "IsAbs a \<Longrightarrow> comps (a @ ''/'' @ b) = clean_comps True (rev (comps a)) (Split b sep)"
proof -
  assume a: "IsAbs a"
  then have "IsAbs (a @ ''/'' @ b)" by (auto simp: IsAbs_def prefix_def)
  with a show ?thesis by (simp add: comps_def Split_join clean_comps_append)
qed

lemma comps_join_abs: "IsAbs a \<Longrightarrow> comps (path_join a b) = clean_comps True (rev (comps a)) (Split b sep)"
proof -
  assume a: "IsAbs a"
  then have "a \<noteq> []" "IsAbs (a @ ''/'' @ b)" by (auto simp: IsAbs_def prefix_def)
  then show ?thesis using a comps_abs_append [OF a, of b] by (simp add: path_join_def comps_Clean)
qed

lemma IsAbs_join: "IsAbs a \<Longrightarrow> IsAbs (path_join a b)"
proof -
  assume a: "IsAbs a"
  then have "a \<noteq> []" "IsAbs (a @ ''/'' @ b)" by (auto simp: IsAbs_def prefix_def)
  then show ?thesis using a by (simp add: path_join_def IsAbs_Clean)
qed

lemma comps_join_join:
  assumes a: "IsAbs a" and q: "\<not> IsAbs q" "q \<noteq> []"
  shows "comps (path_join a (path_join q r)) = comps (path_join (path_join a q) r)"
proof -
  have rel: "comps (path_join a (Clean p)) = clean_comps True (rev (comps a)) (Split p sep)" if p: "\<not> IsAbs p" for p
  proof -
    have "clean_comps True (rev (comps a)) (comps p) = clean_comps True (rev (comps a)) (Split p sep)"
      using clean_comps_again [of "[]" "rev (comps a)" "Split p sep"] p by (simp add: comps_def rel_stack_def)
    then show ?thesis using Split_Clean_rel [OF p] by (cases "comps p = []") (simp_all add: comps_join_abs [OF a])
  qed
  have "\<not> IsAbs (q @ ''/'' @ r)" using q by (cases q) (simp_all add: IsAbs_def)
  then show ?thesis
    using rel [of q] rel [of "q @ ''/'' @ r"] q
    by (simp add: path_join_def [of q r] comps_join_abs [OF IsAbs_join [OF a]] comps_join_abs [OF a] Split_join clean_comps_append)
qed

text \<open>Where the operating system finds a path.\<close>

definition loc :: "string \<Rightarrow> string \<Rightarrow> string list" where
  "loc wd p = comps (Abs wd p)"

lemma IsAbs_Abs: "IsAbs wd \<Longrightarrow> IsAbs (Abs wd p)"
  by (simp add: Abs_def IsAbs_Clean IsAbs_join)

lemma loc_join: "IsAbs wd \<Longrightarrow> p \<noteq> [] \<Longrightarrow> loc wd (path_join p q) = clean_comps True (rev (loc wd p)) (Split q sep)"
proof (cases "IsAbs p")
  case True
  then show ?thesis by (simp add: loc_def Abs_def IsAbs_join comps_Clean comps_join_abs)
next
  case False
  assume a: "IsAbs wd" "p \<noteq> []"
  have "\<not> IsAbs (path_join p q)"
  proof -
    have "\<not> IsAbs (p @ ''/'' @ q)" using False a(2) by (cases p) (simp_all add: IsAbs_def)
    moreover have "\<not> IsAbs (Clean x)" if "\<not> IsAbs x" for x
    proof
      assume "IsAbs (Clean x)"
      then obtain z where "Clean x = sep # z" by (auto simp: IsAbs_def prefix_def)
      then have "[] \<in> set (Split (Clean x) sep)" by simp
      then have "[] \<in> set (comps x)" using Split_Clean_rel [OF that] by (auto split: if_splits)
      then show False using comps_nonempty by blast
    qed
    ultimately show ?thesis using False a(2) by (simp add: path_join_def)
  qed
  then show ?thesis
    using False a comps_join_join [OF a(1) False a(2), of q] comps_join_abs [OF IsAbs_join [OF a(1)], of p q]
    by (simp add: loc_def Abs_def)
qed

lemma path_join_nonempty: "p \<noteq> [] \<Longrightarrow> path_join p q \<noteq> []"
proof -
  assume "p \<noteq> []"
  moreover have "Clean x \<noteq> []" for x
  proof (cases "comps x = [] \<or> IsAbs x")
    case False
    then obtain c cs where c: "comps x = c # cs" by (cases "comps x") auto
    then have "c \<noteq> []" using comps_nonempty [of x] by auto
    with c show ?thesis using False by (cases cs) (auto simp: Clean_def)
  qed (auto simp: Clean_def)
  ultimately show ?thesis by (simp add: path_join_def)
qed

lemma loc_join_plain: "IsAbs wd \<Longrightarrow> p \<noteq> [] \<Longrightarrow> plain q \<Longrightarrow> loc wd (path_join p q) = loc wd p @ [q]"
  by (simp add: loc_join Split_simple plain_def)

lemma path_join_two: "plain a \<Longrightarrow> plain b \<Longrightarrow> path_join a b = a @ ''/'' @ b"
proof -
  assume p: "plain a" "plain b"
  have r: "\<not> IsAbs (a @ ''/'' @ b)" using p by (cases a) (auto simp: plain_def IsAbs_def)
  have "comps (a @ ''/'' @ b) = [a, b]"
    using p r by (simp add: comps_def Split_join Split_simple plain_def)
  then show ?thesis using p r by (simp add: path_join_def Clean_def plain_def)
qed

section \<open>The disk\<close>

datatype inode = DirNode | Regular string

type_synonym disk = "(string list, inode) go_map"

definition is_dir :: "disk \<Rightarrow> string list \<Rightarrow> bool" where
  "is_dir d k = (k = [] \<or> map_of d k = Some DirNode)"

text \<open>\<^verbatim>\<open>os.MkdirAll\<close>, from the root downwards: a file on the way ends it.\<close>

fun mkdir_from :: "string list \<Rightarrow> string list \<Rightarrow> disk \<Rightarrow> bool \<times> disk" where
  "mkdir_from at [] d = (True, d)"
| "mkdir_from at (c # cs) d = (case map_of d (at @ [c]) of
     Some (Regular _) \<Rightarrow> (False, d)
   | Some DirNode \<Rightarrow> mkdir_from (at @ [c]) cs d
   | None \<Rightarrow> mkdir_from (at @ [c]) cs (map_put (at @ [c]) DirNode d))"

definition MkdirAll :: "string list \<Rightarrow> disk \<Rightarrow> bool \<times> disk" where
  "MkdirAll k d = mkdir_from [] k d"

text \<open>How writing ends: done, not opened, or broken off with some contents in the file.\<close>

datatype write_end = WriteOk | OpenFails | WriteFails string

definition WriteFile :: "write_end \<Rightarrow> string list \<Rightarrow> string \<Rightarrow> disk \<Rightarrow> bool \<times> disk" where
  "WriteFile w k c d =
     (if is_dir d k \<or> \<not> is_dir d (butlast k) then (False, d)
      else case w of WriteOk \<Rightarrow> (True, map_put k (Regular c) d) | OpenFails \<Rightarrow> (False, d)
        | WriteFails part \<Rightarrow> (False, map_put k (Regular part) d))"

definition RemoveAll :: "bool \<Rightarrow> string list \<Rightarrow> disk \<Rightarrow> disk" where
  "RemoveAll works k d = (if works then filter (\<lambda>p. \<not> prefix k (fst p)) d else d)"

lemma mkdir_from_stepE:
  assumes "mkdir_from at (c # cs) d = (b, d')"
  obtains "b = False" "d' = d"
    | "map_of d (at @ [c]) = Some DirNode" "mkdir_from (at @ [c]) cs d = (b, d')"
    | "map_of d (at @ [c]) = None" "mkdir_from (at @ [c]) cs (map_put (at @ [c]) DirNode d) = (b, d')"
proof (cases "map_of d (at @ [c])")
  case None
  then show ?thesis using assms that(3) by simp
next
  case (Some n)
  then show ?thesis using assms that(1,2) by (cases n) simp_all
qed

lemma mkdir_from_mono: "mkdir_from at cs d = (b, d') \<Longrightarrow> map_of d k = Some x \<Longrightarrow> map_of d' k = Some x"
proof (induction cs arbitrary: at d)
  case (Cons c cs)
  from Cons.prems(1) show ?case
  proof (cases rule: mkdir_from_stepE)
    case 2
    then show ?thesis using Cons.IH [OF 2(2)] Cons.prems(2) by simp
  next
    case 3
    then have "k \<noteq> at @ [c]" using Cons.prems(2) by auto
    then show ?thesis using Cons.IH [OF 3(2)] Cons.prems(2) by simp
  qed (use Cons.prems in simp)
qed simp

lemma mkdir_from_new: "mkdir_from at cs d = (b, d') \<Longrightarrow> map_of d k = None \<Longrightarrow> map_of d' k = Some x \<Longrightarrow>
    x = DirNode \<and> (\<exists>ys. prefix ys cs \<and> k = at @ ys)"
proof (induction cs arbitrary: at d)
  case (Cons c cs)
  have longer: ?case if "x = DirNode \<and> (\<exists>ys. prefix ys cs \<and> k = (at @ [c]) @ ys)"
  proof -
    from that obtain ys where "x = DirNode" "prefix ys cs" "k = (at @ [c]) @ ys" by blast
    then show ?thesis by (intro conjI exI [of _ "c # ys"]) simp_all
  qed
  from Cons.prems(1) show ?case
  proof (cases rule: mkdir_from_stepE)
    case 2
    then show ?thesis using Cons.IH [OF 2(2) Cons.prems(2,3)] longer by blast
  next
    case 3
    show ?thesis
    proof (cases "k = at @ [c]")
      case True
      then have "map_of d' k = Some DirNode" using mkdir_from_mono [OF 3(2), of k DirNode] by simp
      then show ?thesis using True Cons.prems(3) by (intro conjI exI [of _ "[c]"]) simp_all
    next
      case False
      then have "map_of (map_put (at @ [c]) DirNode d) k = None" using Cons.prems(2) by simp
      then show ?thesis using Cons.IH [OF 3(2) _ Cons.prems(3)] longer by blast
    qed
  qed (use Cons.prems in simp)
qed simp

lemma mkdir_from_step:
  assumes "mkdir_from at (c # cs) d = (True, d')"
  obtains d1 where "mkdir_from (at @ [c]) cs d1 = (True, d')" "map_of d1 (at @ [c]) = Some DirNode"
  using assms by (cases rule: mkdir_from_stepE) (auto intro: that)

lemma mkdir_from_dirs: "mkdir_from at (ys @ zs) d = (True, d') \<Longrightarrow> ys \<noteq> [] \<Longrightarrow> map_of d' (at @ ys) = Some DirNode"
proof (induction ys arbitrary: at d)
  case (Cons c cs)
  then obtain d1 where d1: "mkdir_from (at @ [c]) (cs @ zs) d1 = (True, d')" "map_of d1 (at @ [c]) = Some DirNode"
    using mkdir_from_step [of at c "cs @ zs" d d'] by auto
  show ?case
  proof (cases "cs = []")
    case True
    then show ?thesis using mkdir_from_mono [OF d1] by simp
  next
    case False
    then show ?thesis using Cons.IH [OF d1(1)] by simp
  qed
qed simp

lemma MkdirAll_mono: "MkdirAll q d = (b, d') \<Longrightarrow> map_of d k = Some x \<Longrightarrow> map_of d' k = Some x"
  unfolding MkdirAll_def by (rule mkdir_from_mono)

lemma MkdirAll_new: "MkdirAll q d = (b, d') \<Longrightarrow> map_of d' k = Some x \<Longrightarrow> map_of d k = Some x \<or> x = DirNode \<and> prefix k q"
proof -
  assume m: "MkdirAll q d = (b, d')" "map_of d' k = Some x"
  then have "x = DirNode \<and> prefix k q" if "map_of d k = None"
    using mkdir_from_new [of "[]" q d b d' k x] that by (auto simp: MkdirAll_def)
  moreover have "y = x" if "map_of d k = Some y" for y using MkdirAll_mono [OF m(1) that] m(2) by simp
  ultimately show ?thesis by (cases "map_of d k") auto
qed

lemma MkdirAll_dirs: "MkdirAll q d = (True, d') \<Longrightarrow> prefix k q \<Longrightarrow> is_dir d' k"
  using mkdir_from_dirs [of "[]" k _ d d'] by (auto simp: MkdirAll_def is_dir_def prefix_def)

lemma map_of_RemoveAll: "map_of (RemoveAll works q d) k = (if works \<and> prefix q k then None else map_of d k)"
  by (induction d) (auto simp: RemoveAll_def)

lemma WriteFile_other: "WriteFile w q c d = (b, d') \<Longrightarrow> k \<noteq> q \<Longrightarrow> map_of d' k = map_of d k"
  by (auto simp: WriteFile_def split: if_splits write_end.splits)

lemma WriteFile_ok: "WriteFile w q c d = (True, d') \<longleftrightarrow> w = WriteOk \<and> \<not> is_dir d q \<and> is_dir d (butlast q) \<and> d' = map_put q (Regular c) d"
  by (auto simp: WriteFile_def split: if_splits write_end.splits)

lemma WriteFile_dir: "is_dir d q \<Longrightarrow> WriteFile w q c d = (False, d)"
  by (simp add: WriteFile_def)

end
