(* ===== verification/Go_Sniff.thy ===== *)
theory Go_Sniff
  imports BB_Prelude
begin

text \<open>
  \<^verbatim>\<open>http.DetectContentType\<close>: the table of signatures of the standard library's content sniffing, in the
  order it is tried. A mask of the library is either all ones or all zeros at a byte; a pattern is a list
  of bytes in which \<open>None\<close> stands for a masked byte.
\<close>

datatype sniff_sig =
    htmlSig string
  | maskedSig bool "char option list" string
  | exactSig string string
  | mp4Sig
  | textSig

definition exact_bytes :: "string \<Rightarrow> char option list" where
  "exact_bytes s = map Some s"

definition any_bytes :: "nat \<Rightarrow> char option list" where
  "any_bytes n = replicate n None"

definition sniffSignatures :: "sniff_sig list" where
  "sniffSignatures =
     map htmlSig [''<!DOCTYPE HTML'', ''<HTML'', ''<HEAD'', ''<SCRIPT'', ''<IFRAME'', ''<H1'', ''<DIV'', ''<FONT'', ''<TABLE'', ''<A'',
       ''<STYLE'', ''<TITLE'', ''<B'', ''<BODY'', ''<BR'', ''<P'', ''<!--'']
     @ [maskedSig True (exact_bytes ''<?xml'') ''text/xml; charset=utf-8'',
        exactSig ''%PDF-'' ''application/pdf'',
        exactSig ''%!PS-Adobe-'' ''application/postscript'',
        maskedSig False (exact_bytes [CHR 0xFE, CHR 0xFF] @ any_bytes 2) ''text/plain; charset=utf-16be'',
        maskedSig False (exact_bytes [CHR 0xFF, CHR 0xFE] @ any_bytes 2) ''text/plain; charset=utf-16le'',
        maskedSig False (exact_bytes [CHR 0xEF, CHR 0xBB, CHR 0xBF] @ any_bytes 1) ''text/plain; charset=utf-8'',
        exactSig [CHR 0x00, CHR 0x00, CHR 0x01, CHR 0x00] ''image/x-icon'',
        exactSig [CHR 0x00, CHR 0x00, CHR 0x02, CHR 0x00] ''image/x-icon'',
        exactSig ''BM'' ''image/bmp'',
        exactSig ''GIF87a'' ''image/gif'',
        exactSig ''GIF89a'' ''image/gif'',
        maskedSig False (exact_bytes ''RIFF'' @ any_bytes 4 @ exact_bytes ''WEBPVP'') ''image/webp'',
        exactSig ([CHR 0x89] @ ''PNG'' @ [CHR 0x0D, CHR 0x0A, CHR 0x1A, CHR 0x0A]) ''image/png'',
        exactSig [CHR 0xFF, CHR 0xD8, CHR 0xFF] ''image/jpeg'',
        maskedSig False (exact_bytes ''FORM'' @ any_bytes 4 @ exact_bytes ''AIFF'') ''audio/aiff'',
        maskedSig False (exact_bytes ''ID3'') ''audio/mpeg'',
        maskedSig False (exact_bytes (''OggS'' @ [CHR 0x00])) ''application/ogg'',
        maskedSig False (exact_bytes (''MThd'' @ [CHR 0x00, CHR 0x00, CHR 0x00, CHR 0x06])) ''audio/midi'',
        maskedSig False (exact_bytes ''RIFF'' @ any_bytes 4 @ exact_bytes ''AVI '') ''video/avi'',
        maskedSig False (exact_bytes ''RIFF'' @ any_bytes 4 @ exact_bytes ''WAVE'') ''audio/wave'',
        mp4Sig,
        exactSig [CHR 0x1A, CHR 0x45, CHR 0xDF, CHR 0xA3] ''video/webm'',
        maskedSig False (any_bytes 34 @ exact_bytes ''LP'') ''application/vnd.ms-fontobject'',
        exactSig [CHR 0x00, CHR 0x01, CHR 0x00, CHR 0x00] ''font/ttf'',
        exactSig ''OTTO'' ''font/otf'',
        exactSig ''ttcf'' ''font/collection'',
        exactSig ''wOFF'' ''font/woff'',
        exactSig ''wOF2'' ''font/woff2'',
        exactSig [CHR 0x1F, CHR 0x8B, CHR 0x08] ''application/x-gzip'',
        exactSig (''PK'' @ [CHR 0x03, CHR 0x04]) ''application/zip'',
        exactSig (''Rar!'' @ [CHR 0x1A, CHR 0x07, CHR 0x00]) ''application/x-rar-compressed'',
        exactSig (''Rar!'' @ [CHR 0x1A, CHR 0x07, CHR 0x01, CHR 0x00]) ''application/x-rar-compressed'',
        exactSig [CHR 0x00, CHR 0x61, CHR 0x73, CHR 0x6D] ''application/wasm'',
        textSig]"

section \<open>Matching\<close>

definition isWS :: "char \<Rightarrow> bool" where
  "isWS c = (c \<in> {CHR 0x09, CHR 0x0A, CHR 0x0C, CHR 0x0D, CHR '' ''})"

definition upper_char :: "char \<Rightarrow> char" where
  "upper_char c = (let n = of_char c :: nat in if 97 \<le> n \<and> n \<le> 122 then char_of (n - 32) else c)"

text \<open>A tag matches without regard to the case of its letters and must be followed by a space or \<open>>\<close>.\<close>

fun html_match :: "string \<Rightarrow> string \<Rightarrow> bool" where
  "html_match [] (d # _) = (d = CHR '' '' \<or> d = CHR ''>'')"
| "html_match (h # hs) (d # ds) = ((h = d \<or> h = upper_char d) \<and> html_match hs ds)"
| "html_match _ [] = False"

fun masked_match :: "char option list \<Rightarrow> string \<Rightarrow> bool" where
  "masked_match [] ds = True"
| "masked_match (p # ps) (d # ds) = ((p = None \<or> p = Some d) \<and> masked_match ps ds)"
| "masked_match (p # ps) [] = False"

definition be32 :: "string \<Rightarrow> nat" where
  "be32 s = foldl (\<lambda>n c. 256 * n + of_char c) 0 (take 4 s)"

definition mp4_match :: "string \<Rightarrow> bool" where
  "mp4_match s = (12 \<le> length s \<and> be32 s \<le> length s \<and> be32 s mod 4 = 0 \<and> take 4 (drop 4 s) = ''ftyp''
     \<and> list_ex (\<lambda>st. st mod 4 = 0 \<and> st \<noteq> 12 \<and> take 3 (drop st s) = ''mp4'') [8..<be32 s])"

definition binary_byte :: "char \<Rightarrow> bool" where
  "binary_byte c = (let n = of_char c :: nat in n \<le> 8 \<or> n = 11 \<or> 14 \<le> n \<and> n \<le> 26 \<or> 28 \<le> n \<and> n \<le> 31)"

fun sig_match :: "string \<Rightarrow> sniff_sig \<Rightarrow> string option" where
  "sig_match s (htmlSig h) = (if html_match h (dropWhile isWS s) then Some ''text/html; charset=utf-8'' else None)"
| "sig_match s (maskedSig skipWS p ct) = (if masked_match p (if skipWS then dropWhile isWS s else s) then Some ct else None)"
| "sig_match s (exactSig x ct) = (if HasPrefix s x then Some ct else None)"
| "sig_match s mp4Sig = (if mp4_match s then Some ''video/mp4'' else None)"
| "sig_match s textSig = (if list_ex binary_byte (dropWhile isWS s) then None else Some ''text/plain; charset=utf-8'')"

fun first_sig :: "string \<Rightarrow> sniff_sig list \<Rightarrow> string" where
  "first_sig s [] = ''application/octet-stream''"
| "first_sig s (g # gs) = (case sig_match s g of Some ct \<Rightarrow> ct | None \<Rightarrow> first_sig s gs)"

definition DetectContentType :: "string \<Rightarrow> string" where
  "DetectContentType s = first_sig (take 512 s) sniffSignatures"

lemma first_sig_append:
  "(\<forall>g \<in> set gs. sig_match s g = None) \<Longrightarrow> first_sig s (gs @ hs) = first_sig s hs"
  by (induction gs) auto

text \<open>The type is one of the table or the default.\<close>

lemma first_sig_range: "(\<forall>g \<in> set gs. \<forall>ct. sig_match s g = Some ct \<longrightarrow> P ct) \<Longrightarrow> P ''application/octet-stream'' \<Longrightarrow> P (first_sig s gs)"
  by (induction gs) (auto split: option.splits)

text \<open>A gzip stream is recognised by its first three bytes, unless it happens to look like an embedded font.\<close>

lemma gzip_not_mp4: "\<not> mp4_match (CHR 0x1F # CHR 0x8B # CHR 0x08 # xs)" if "length xs \<le> 509"
proof
  assume m: "mp4_match (CHR 0x1F # CHR 0x8B # CHR 0x08 # xs)"
  then obtain c r where xs: "xs = c # r" by (cases xs) (simp_all add: mp4_match_def)
  have "be32 (CHR 0x1F # CHR 0x8B # CHR 0x08 # xs) = 256 * 2067208 + of_char c"
    by (simp add: xs be32_def)
  with m that show False by (simp add: mp4_match_def)
qed

lemma sniff_gzip: "DetectContentType (CHR 0x1F # CHR 0x8B # CHR 0x08 # rest) \<in> {''application/x-gzip'', ''application/vnd.ms-fontobject''}"
proof -
  have "\<not> mp4_match (CHR 0x1F # CHR 0x8B # CHR 0x08 # take 509 rest)" by (rule gzip_not_mp4) simp
  then show ?thesis
    by (simp add: DetectContentType_def sniffSignatures_def exact_bytes_def isWS_def upper_char_def)
qed

lemma sniff_hello: "DetectContentType ''hello'' = ''text/plain; charset=utf-8''"
  by code_simp

end
