(* ===== verification/Org_Isolation.thy ===== *)
theory Org_Isolation
  imports BB_Prelude
begin

text \<open>
  What the organizations of one server promise each other, as an interface. A component answers requests
  one after another; a request is made by one organization. The laws are the unwinding conditions of
  noninterference: a request changes nothing another organization sees (\<open>local_respect\<close>), and its answer
  and its effect depend only on what its own organization sees (\<open>consistent\<close>). \<open>pre\<close> is what a component
  needs of its state and of the requests to come: its invariant and fresh random identifiers.
\<close>

fun responses :: "('s \<Rightarrow> 'r \<Rightarrow> 's \<times> 'a) \<Rightarrow> 's \<Rightarrow> 'r list \<Rightarrow> ('r \<times> 'a) list" where
  "responses step s [] = []"
| "responses step s (r # rs) = (case step s r of (s', a) \<Rightarrow> (r, a) # responses step s' rs)"

fun run_requests :: "('s \<Rightarrow> 'r \<Rightarrow> 's \<times> 'a) \<Rightarrow> 's \<Rightarrow> 'r list \<Rightarrow> 's" where
  "run_requests step s [] = s"
| "run_requests step s (r # rs) = run_requests step (fst (step s r)) rs"

lemma length_responses: "length (responses step s rs) = length rs"
  by (induction rs arbitrary: s) (simp_all add: case_prod_beta)

locale org_isolation =
  fixes step :: "'s \<Rightarrow> 'r \<Rightarrow> 's \<times> 'a"
    and who :: "'r \<Rightarrow> 'org"
    and same :: "'org \<Rightarrow> 's \<Rightarrow> 's \<Rightarrow> bool"
    and pre :: "'s \<Rightarrow> 'r list \<Rightarrow> bool"
  assumes same_refl: "same g s s"
    and pre_step: "pre s (r # rs) \<Longrightarrow> pre (fst (step s r)) rs"
    and pre_filter: "pre s rs \<Longrightarrow> pre s (filter P rs)"
    and local_respect: "pre s (r # rs) \<Longrightarrow> who r \<noteq> g \<Longrightarrow> same g s t \<Longrightarrow> same g (fst (step s r)) t"
    and consistent: "pre s (r # rs) \<Longrightarrow> pre t (r # rs') \<Longrightarrow> who r = g \<Longrightarrow> same g s t \<Longrightarrow>
      snd (step s r) = snd (step t r) \<and> same g (fst (step s r)) (fst (step t r))"
begin

lemma answers_agree:
  "pre s rs \<Longrightarrow> pre t (filter (\<lambda>r. who r = g) rs) \<Longrightarrow> same g s t \<Longrightarrow>
     filter (\<lambda>p. who (fst p) = g) (responses step s rs) = responses step t (filter (\<lambda>r. who r = g) rs)"
proof (induction rs arbitrary: s t)
  case (Cons r rs)
  have s': "pre (fst (step s r)) rs" using Cons.prems(1) by (rule pre_step)
  show ?case
  proof (cases "who r = g")
    case True
    then have t: "pre t (r # filter (\<lambda>r. who r = g) rs)" using Cons.prems(2) by simp
    from consistent [OF Cons.prems(1) t True Cons.prems(3)] Cons.IH [OF s' pre_step [OF t]] True
    show ?thesis by (simp add: case_prod_beta)
  next
    case False
    from local_respect [OF Cons.prems(1) False Cons.prems(3)] Cons.IH [OF s' _, of t] Cons.prems(2) False
    show ?thesis by (simp add: case_prod_beta)
  qed
qed simp

text \<open>The answers to one organization are those of a server that never heard of the others.\<close>

lemma noninterference: "pre s rs \<Longrightarrow>
    filter (\<lambda>p. who (fst p) = g) (responses step s rs) = responses step s (filter (\<lambda>r. who r = g) rs)"
  by (rule answers_agree [OF _ pre_filter same_refl])

lemma run_same: "pre s rs \<Longrightarrow> \<forall>r \<in> set rs. who r \<noteq> g \<Longrightarrow> same g s t \<Longrightarrow> same g (run_requests step s rs) t"
  by (induction rs arbitrary: s) (auto intro: local_respect pre_step)

lemma run_pre: "pre s (rs @ rs') \<Longrightarrow> pre (run_requests step s rs) rs'"
  by (induction rs arbitrary: s) (auto intro: pre_step)

end

end
