(* ===== verification/Storage_Files.thy ===== *)
theory Storage_Files
  imports Kernel_Web Go_Files Go_Sniff Org_Isolation
begin

text \<open>
  The storage component (\<^verbatim>\<open>components/storage/storage.go\<close>): files of organizations, a table of metadata and
  one directory per file below the storage directory. A request carries the outcome of everything outside
  the component: the random bytes of the identifier, the clock, the failures of the database and of the
  disk, and the order in which the database returns rows of equal time.
\<close>

section \<open>State\<close>

record file_row =
  fr_id :: string
  fr_name :: string
  fr_size :: int
  fr_mime :: string
  fr_path :: string
  fr_org :: int
  fr_created :: string

record Storage =
  so_dir :: string
  so_maxSize :: int
  so_wd :: string
  so_rows :: "file_row list"
  so_disk :: disk

definition storage_New :: "string \<Rightarrow> int \<Rightarrow> string \<Rightarrow> file_row list \<Rightarrow> disk \<Rightarrow> Storage" where
  "storage_New dir maxSize wd rows d =
     \<lparr> so_dir = (if dir = [] then ''data/storage'' else dir), so_maxSize = (if maxSize = 0 then 10 * 1048576 else maxSize),
       so_wd = wd, so_rows = rows, so_disk = d \<rparr>"

text \<open>The multipart form of an upload: the length of the body, whether it parses, and the field \<open>file\<close> (its contents are \<open>None\<close> when they cannot be read).\<close>

record upload_form =
  uf_len :: int
  uf_parses :: bool
  uf_file :: "(string \<times> string option) option"

record store_env =
  se_now :: string
  se_rand :: "string option"
  se_mkdir :: bool
  se_write :: write_end
  se_remove :: bool
  se_insert :: bool
  se_query :: bool
  se_delete :: bool
  se_wd :: bool
  se_order :: "file_row list \<Rightarrow> file_row list"

record store_req =
  sq_method :: string
  sq_path :: string
  sq_org :: "int option"
  sq_form :: upload_form

record FileInfo =
  fi_ID :: string
  fi_Name :: string
  fi_Size :: int
  fi_MimeType :: string
  fi_CreatedAt :: string

text \<open>What \<^verbatim>\<open>http.ServeFile\<close> answers; conditional and range requests are the library's.\<close>

datatype served = ServeBad | ServeRedirect | ServeMissing | ServeDir | ServeFile string

datatype store_resp =
    StErr nat string
  | StCreated FileInfo
  | StFiles "FileInfo list"
  | StDeleted
  | StContent string "string option" served
  | StRedirect
  | StNoRoute

definition storage_Start :: "bool \<Rightarrow> bool \<Rightarrow> bool \<Rightarrow> Storage \<Rightarrow> (string, unit) res \<times> Storage" where
  "storage_Start mkdir migrate alter s =
     (case (if mkdir then MkdirAll (loc (so_wd s) (so_dir s)) (so_disk s) else (False, so_disk s)) of
        (False, d) \<Rightarrow> (Inl ''create storage dir'', s\<lparr> so_disk := d \<rparr>)
      | (True, d) \<Rightarrow> (if migrate then Inr () else Inl ''migrate storage_files table'', s\<lparr> so_disk := d \<rparr>))"

section \<open>Helpers\<close>

definition allowedMimePrefixes :: "string list" where
  "allowedMimePrefixes = [''text/'', ''image/'', ''application/pdf'', ''application/json'', ''application/xml'', ''application/zip'',
     ''application/gzip'', ''application/octet-stream'']"

definition detectMIME :: "string \<Rightarrow> string" where
  "detectMIME content = DetectContentType (take 512 content)"

definition isMIMEAllowed :: "string \<Rightarrow> bool" where
  "isMIMEAllowed mimeType = list_ex (\<lambda>p. HasPrefix mimeType p) allowedMimePrefixes"

text \<open>The replacer takes the first pattern that matches at each position, from left to right.\<close>

fun sanitizeFilename :: "string \<Rightarrow> string" where
  "sanitizeFilename [] = []"
| "sanitizeFilename (c # cs) =
     (if c \<in> {CHR 0x22, CHR 0x5C, CHR ''/'', CHR 0x0A, CHR 0x0D, CHR 0x09, CHR 0x00, CHR 0x1F} then sanitizeFilename cs
      else if c = CHR ''.'' \<and> cs \<noteq> [] \<and> hd cs = CHR ''.'' then sanitizeFilename (tl cs)
      else c # sanitizeFilename cs)"

definition orgIDFromRequest :: "store_req \<Rightarrow> (store_resp, int) res" where
  "orgIDFromRequest r = (case sq_org r of None \<Rightarrow> Inl (StErr 401 ''org_id required'') | Some g \<Rightarrow> Inr g)"

section \<open>Uploading\<close>

definition readUpload :: "upload_form \<Rightarrow> Storage \<Rightarrow> (string, string \<times> string) res" where
  "readUpload f s =
     (if uf_len f > so_maxSize s + 1048576 \<or> \<not> uf_parses f then Inl ''file too large or invalid form''
      else case uf_file f of
        None \<Rightarrow> Inl ''file field 'file' is required''
      | Some (name, None) \<Rightarrow> Inl ''read uploaded file''
      | Some (name, Some content) \<Rightarrow> Inr (content, Base name))"

definition writeFile :: "store_env \<Rightarrow> string \<Rightarrow> string \<Rightarrow> string \<Rightarrow> Storage \<Rightarrow> string option \<times> Storage" where
  "writeFile e i filename content s =
     (let fileDir = path_join (so_dir s) i in
      case (if se_mkdir e then MkdirAll (loc (so_wd s) fileDir) (so_disk s) else (False, so_disk s)) of
        (False, d1) \<Rightarrow> (None, s\<lparr> so_disk := d1 \<rparr>)
      | (True, d1) \<Rightarrow> (case WriteFile (se_write e) (loc (so_wd s) (path_join fileDir filename)) content d1 of
          (False, d2) \<Rightarrow> (None, s\<lparr> so_disk := RemoveAll (se_remove e) (loc (so_wd s) fileDir) d2 \<rparr>)
        | (True, d2) \<Rightarrow> (Some (path_join i filename), s\<lparr> so_disk := d2 \<rparr>)))"

text \<open>The identifier is the primary key.\<close>

definition insertFileMeta :: "store_env \<Rightarrow> file_row \<Rightarrow> Storage \<Rightarrow> bool \<times> Storage" where
  "insertFileMeta e r s =
     (if \<not> se_insert e \<or> fr_id r \<in> set (map fr_id (so_rows s)) then (False, s) else (True, s\<lparr> so_rows := so_rows s @ [r] \<rparr>))"

definition info_of :: "file_row \<Rightarrow> FileInfo" where
  "info_of r = \<lparr> fi_ID = fr_id r, fi_Name = fr_name r, fi_Size = fr_size r, fi_MimeType = fr_mime r, fi_CreatedAt = fr_created r \<rparr>"

definition handleUpload :: "store_env \<Rightarrow> store_req \<Rightarrow> Storage \<Rightarrow> Storage \<times> store_resp" where
  "handleUpload e r s =
     (if sq_method r \<noteq> ''POST'' then (s, StErr 405 ''method not allowed'')
      else case orgIDFromRequest r of
        Inl resp \<Rightarrow> (s, resp)
      | Inr orgID \<Rightarrow> (case readUpload (sq_form r) s of
          Inl msg \<Rightarrow> (s, StErr 400 msg)
        | Inr (content, filename) \<Rightarrow>
            (let mimeType = detectMIME content in
             if \<not> isMIMEAllowed mimeType then (s, StErr 400 (''file type not allowed: '' @ mimeType))
             else case GenerateID (se_rand e) of
               None \<Rightarrow> (s, StErr 500 ''internal error'')
             | Some i \<Rightarrow> (case writeFile e i filename content s of
                 (None, s1) \<Rightarrow> (s1, StErr 500 ''internal error'')
               | (Some fullPath, s1) \<Rightarrow>
                   (let row = \<lparr> fr_id = i, fr_name = filename, fr_size = int (length content), fr_mime = mimeType,
                                fr_path = fullPath, fr_org = orgID, fr_created = se_now e \<rparr> in
                    case insertFileMeta e row s1 of
                      (False, s2) \<Rightarrow> (s2\<lparr> so_disk := RemoveAll (se_remove e) (loc (so_wd s2) (path_join (so_dir s2) i)) (so_disk s2) \<rparr>,
                                     StErr 500 ''internal error'')
                    | (True, s2) \<Rightarrow> (s2, StCreated (info_of row)))))))"

section \<open>Reading\<close>

definition fetchFiles :: "store_env \<Rightarrow> int \<Rightarrow> Storage \<Rightarrow> FileInfo list option" where
  "fetchFiles e orgID s =
     (if \<not> se_query e then None else Some (map info_of (se_order e (filter (\<lambda>r. fr_org r = orgID) (so_rows s)))))"

definition handleFileList :: "store_env \<Rightarrow> store_req \<Rightarrow> Storage \<Rightarrow> store_resp" where
  "handleFileList e r s =
     (if sq_method r \<noteq> ''GET'' then StErr 405 ''method not allowed''
      else case orgIDFromRequest r of
        Inl resp \<Rightarrow> resp
      | Inr orgID \<Rightarrow> (case fetchFiles e orgID s of None \<Rightarrow> StErr 500 ''internal error'' | Some fs \<Rightarrow> StFiles fs))"

text \<open>\<^verbatim>\<open>WHERE id = ? AND org_id = ?\<close>; a failed query reads like a missing row.\<close>

definition file_of :: "store_env \<Rightarrow> string \<Rightarrow> int \<Rightarrow> Storage \<Rightarrow> file_row option" where
  "file_of e i orgID s = (if se_query e then find (\<lambda>r. fr_id r = i \<and> fr_org r = orgID) (so_rows s) else None)"

definition bad_file :: "string \<Rightarrow> bool" where
  "bad_file cleanFile = (Contains cleanFile ''..'' \<or> IsAbs cleanFile)"

text \<open>The joined path when it stays below the storage directory.\<close>

definition inside :: "string \<Rightarrow> string \<Rightarrow> string option" where
  "inside absDir cleanFile =
     (let absPath = path_join absDir cleanFile in
      case Rel absDir absPath of
        None \<Rightarrow> None
      | Some rel \<Rightarrow> if HasPrefix rel ''..'' \<or> rel = ''..'' then None
                    else if \<not> HasPrefix absPath (absDir @ ''/'') then None else Some absPath)"

definition absolute_dir :: "store_env \<Rightarrow> Storage \<Rightarrow> string option" where
  "absolute_dir e s = (if IsAbs (so_dir s) \<or> se_wd e then Some (Abs (so_wd s) (so_dir s)) else None)"

fun fields_by :: "(char \<Rightarrow> bool) \<Rightarrow> string \<Rightarrow> string list" where
  "fields_by f [] = [[]]"
| "fields_by f (x # xs) = (if f x then [] # fields_by f xs else (case fields_by f xs of [] \<Rightarrow> [[x]] | y # ys \<Rightarrow> (x # y) # ys))"

definition containsDotDot :: "string \<Rightarrow> bool" where
  "containsDotDot v = (''..'' \<in> set (fields_by (\<lambda>c. c = CHR ''/'' \<or> c = CHR 0x5C) v))"

definition serve_file :: "string \<Rightarrow> string list \<Rightarrow> disk \<Rightarrow> served" where
  "serve_file url k d =
     (if containsDotDot url then ServeBad
      else if HasSuffix url ''/index.html'' then ServeRedirect
      else case (if k = [] then Some DirNode else map_of d k) of
        None \<Rightarrow> ServeMissing
      | Some DirNode \<Rightarrow> if HasSuffix url ''/'' then ServeDir else ServeRedirect
      | Some (Regular c) \<Rightarrow> if HasSuffix url ''/'' then ServeRedirect else ServeFile c)"

definition handleThumbnail :: "store_env \<Rightarrow> store_req \<Rightarrow> string \<Rightarrow> Storage \<Rightarrow> store_resp" where
  "handleThumbnail e r i s =
     (if sq_method r \<noteq> ''GET'' then StErr 405 ''method not allowed''
      else case orgIDFromRequest r of
        Inl resp \<Rightarrow> resp
      | Inr orgID \<Rightarrow> (case file_of e i orgID s of
          None \<Rightarrow> StErr 404 ''file not found''
        | Some row \<Rightarrow>
            if \<not> HasPrefix (fr_mime row) ''image/'' then StErr 400 ''file is not an image''
            else case absolute_dir e s of
              None \<Rightarrow> StErr 500 ''internal error''
            | Some absDir \<Rightarrow>
                if bad_file (Clean (fr_path row)) then StErr 403 ''access denied''
                else case inside absDir (Clean (fr_path row)) of
                  None \<Rightarrow> StErr 403 ''access denied''
                | Some absPath \<Rightarrow> StContent (fr_mime row) None (serve_file (sq_path r) (comps absPath) (so_disk s))))"

definition handleFileDownload :: "store_env \<Rightarrow> store_req \<Rightarrow> string \<Rightarrow> Storage \<Rightarrow> store_resp" where
  "handleFileDownload e r i s =
     (case orgIDFromRequest r of
        Inl resp \<Rightarrow> resp
      | Inr orgID \<Rightarrow> (case file_of e i orgID s of
          None \<Rightarrow> StErr 404 ''file not found''
        | Some row \<Rightarrow> (case absolute_dir e s of
            None \<Rightarrow> StErr 500 ''internal error''
          | Some absDir \<Rightarrow>
              if bad_file (Clean (fr_path row)) then StErr 403 ''access denied''
              else case inside absDir (Clean (fr_path row)) of
                None \<Rightarrow> StErr 403 ''access denied''
              | Some absPath \<Rightarrow>
                  if comps absPath \<noteq> [] \<and> map_of (so_disk s) (comps absPath) = None then StErr 404 ''file not found''
                  else StContent (fr_mime row) (Some (''inline; filename='' @ [CHR 0x22] @ sanitizeFilename (fr_name row) @ [CHR 0x22]))
                         (serve_file (sq_path r) (comps absPath) (so_disk s)))))"

section \<open>Deleting and routing\<close>

definition handleFileDelete :: "store_env \<Rightarrow> store_req \<Rightarrow> string \<Rightarrow> Storage \<Rightarrow> Storage \<times> store_resp" where
  "handleFileDelete e r i s =
     (case orgIDFromRequest r of
        Inl resp \<Rightarrow> (s, resp)
      | Inr orgID \<Rightarrow> (case file_of e i orgID s of
          None \<Rightarrow> (s, StErr 404 ''file not found'')
        | Some row \<Rightarrow>
            if \<not> se_delete e then (s, StErr 500 ''internal error'')
            else let s1 = s\<lparr> so_rows := filter (\<lambda>x. \<not> (fr_id x = i \<and> fr_org x = orgID)) (so_rows s) \<rparr> in
              if bad_file (Clean (fr_path row)) then (s1, StErr 403 ''access denied'')
              else case absolute_dir e s of
                None \<Rightarrow> (s1, StErr 500 ''internal error'')
              | Some absDir \<Rightarrow> (case inside absDir (Clean (fr_path row)) of
                  None \<Rightarrow> (s1, StErr 403 ''access denied'')
                | Some absDelete \<Rightarrow> (s1\<lparr> so_disk := RemoveAll (se_remove e) (comps absDelete) (so_disk s1) \<rparr>, StDeleted))))"

definition handleFiles :: "store_env \<Rightarrow> store_req \<Rightarrow> Storage \<Rightarrow> Storage \<times> store_resp" where
  "handleFiles e r s =
     (let path = TrimPrefix (sq_path r) ''/api/storage/files/'' in
      if path = [] then (s, StErr 400 ''id required'')
      else if HasSuffix path ''/thumbnail'' then (s, handleThumbnail e r (TrimSuffix path ''/thumbnail'') s)
      else if sq_method r = ''DELETE'' then handleFileDelete e r path s
      else if sq_method r = ''GET'' then (s, handleFileDownload e r path s)
      else (s, StErr 405 ''method not allowed''))"

definition storage_Handler :: "store_env \<Rightarrow> store_req \<Rightarrow> Storage \<Rightarrow> Storage \<times> store_resp" where
  "storage_Handler e r s =
     (if mux_clean (sq_path r) \<noteq> sq_path r then (s, StRedirect)
      else if sq_path r = ''/api/storage/upload'' then handleUpload e r s
      else if HasPrefix (sq_path r) ''/api/storage/files/'' then handleFiles e r s
      else if sq_path r = ''/api/storage/files'' then (s, handleFileList e r s)
      else (s, StNoRoute))"

end
