(* ===== verification/Storage_Isolation.thy ===== *)
theory Storage_Isolation
  imports Storage_Files
begin

text \<open>
  What the storage component guarantees: its invariant (every row has its file where its path says, of the
  recorded size and an allowed type), that organizations do not interfere (an interpretation of
  \<open>org_isolation\<close>), and that an upload is read back.
\<close>

section \<open>Identifiers and places\<close>

definition base_at :: "Storage \<Rightarrow> string list" where
  "base_at s = loc (so_wd s) (so_dir s)"

definition place :: "Storage \<Rightarrow> file_row \<Rightarrow> string list" where
  "place s r = base_at s @ [fr_id r, fr_name r]"

definition good_id :: "string \<Rightarrow> bool" where
  "good_id i = (plain i \<and> CHR ''.'' \<notin> set i)"

definition site_ok :: "Storage \<Rightarrow> bool" where
  "site_ok s = (IsAbs (so_wd s) \<and> so_dir s \<noteq> [] \<and> base_at s \<noteq> [] \<and> list_all (is_dir (so_disk s)) (prefixes (base_at s)))"

definition row_ok :: "Storage \<Rightarrow> file_row \<Rightarrow> bool" where
  "row_ok s r = (good_id (fr_id r) \<and> plain (fr_name r) \<and> fr_path r = fr_id r @ ''/'' @ fr_name r \<and> isMIMEAllowed (fr_mime r)
     \<and> (case map_of (so_disk s) (place s r) of
          Some (Regular c) \<Rightarrow> fr_size r = int (length c) \<and> fr_mime r = detectMIME c
        | _ \<Rightarrow> False))"

definition storage_ok :: "Storage \<Rightarrow> bool" where
  "storage_ok s = (site_ok s \<and> distinct (map fr_id (so_rows s)) \<and> list_all (row_ok s) (so_rows s))"

lemma row_okE:
  assumes "row_ok s r"
  obtains c where "good_id (fr_id r)" "plain (fr_name r)" "fr_path r = fr_id r @ ''/'' @ fr_name r" "isMIMEAllowed (fr_mime r)"
    "map_of (so_disk s) (place s r) = Some (Regular c)" "fr_size r = int (length c)" "fr_mime r = detectMIME c"
  using assms by (auto simp: row_ok_def split: option.splits inode.splits)

lemma loc_file:
  assumes "site_ok s" "plain i"
  shows "loc (so_wd s) (path_join (so_dir s) i) = base_at s @ [i]"
    and "plain n \<Longrightarrow> loc (so_wd s) (path_join (path_join (so_dir s) i) n) = base_at s @ [i, n]"
  using assms by (simp_all add: site_ok_def loc_join_plain path_join_nonempty base_at_def)

text \<open>The three names that are not files lead back to a directory.\<close>

lemma loc_odd_name:
  assumes s: "site_ok s" "plain i" and n: "n = ''/'' \<or> n = ''.'' \<or> n = ''..''"
  shows "prefix (loc (so_wd s) (path_join (path_join (so_dir s) i) n)) (base_at s @ [i])"
proof -
  have l: "loc (so_wd s) (path_join (path_join (so_dir s) i) n) = clean_comps True (rev (base_at s @ [i])) (Split n sep)"
    using s loc_join [of "so_wd s" "path_join (so_dir s) i" n] loc_file(1) [OF s] by (simp add: site_ok_def path_join_nonempty)
  have i: "i \<noteq> ''..''" using s(2) by (simp add: plain_def)
  from n show ?thesis
  proof (elim disjE)
    assume "n = ''..''"
    then show ?thesis using l i by (simp add: Split_simple)
  qed (use l in \<open>simp_all add: Split_simple\<close>)
qed

lemma inside_row:
  assumes s: "site_ok s" and r: "row_ok s r" and d: "absolute_dir e s = Some ad"
  shows "bad_file (Clean (fr_path r)) = Contains (fr_path r) ''..''"
    and "\<not> bad_file (Clean (fr_path r)) \<Longrightarrow> \<exists>p. inside ad (Clean (fr_path r)) = Some p \<and> comps p = place s r"
proof -
  obtain c where p: "good_id (fr_id r)" "plain (fr_name r)" "fr_path r = fr_id r @ ''/'' @ fr_name r" using row_okE [OF r] by metis
  have i: "plain (fr_id r)" using p(1) by (simp add: good_id_def)
  have rel: "\<not> IsAbs (fr_path r)" using i p(3) by (cases "fr_id r") (auto simp: plain_def IsAbs_def)
  have cs: "comps (fr_path r) = [fr_id r, fr_name r]"
    using rel i p(2,3) by (simp add: comps_def Split_join Split_simple plain_def)
  have clean: "Clean (fr_path r) = fr_path r" using rel cs p(3) by (simp add: Clean_def)
  show "bad_file (Clean (fr_path r)) = Contains (fr_path r) ''..''" using rel by (simp add: bad_file_def clean)
  have ad: "ad = Abs (so_wd s) (so_dir s)" using d by (auto simp: absolute_dir_def split: if_splits)
  have abs: "IsAbs ad" using s by (simp add: ad IsAbs_Abs site_ok_def)
  have base: "comps ad = base_at s" by (simp add: ad loc_def base_at_def)
  let ?p = "path_join ad (fr_path r)"
  have cp: "comps ?p = base_at s @ [fr_id r, fr_name r]"
    using comps_join_abs [OF abs, of "fr_path r"] i p(2,3) base by (simp add: Split_join Split_simple plain_def)
  have rl: "Rel ad ?p = Some (fr_path r)"
    using abs IsAbs_join [OF abs] base cp p(3) by (simp add: Rel_def strip_common_prefix)
  have adc: "ad = ''/'' @ Join (base_at s) ''/''"
  proof -
    have "Clean ad = ad" using s by (simp add: ad Abs_def Clean_idem path_join_clean site_ok_def)
    then show ?thesis using Clean_abs [OF abs] base by simp
  qed
  have "?p = ''/'' @ Join (base_at s @ [fr_id r, fr_name r]) ''/''"
    using path_join_clean [OF abs, of "fr_path r"] Clean_abs [OF IsAbs_join [OF abs], of "fr_path r"] cp by simp
  then have pre: "HasPrefix ?p (ad @ ''/'')" using adc s Join_append [of "base_at s" "[fr_id r, fr_name r]"] by (simp add: site_ok_def)
  have nodd: "\<not> HasPrefix (fr_path r) ''..''" if "\<not> Contains (fr_path r) ''..''"
  proof
    assume "HasPrefix (fr_path r) ''..''"
    then obtain z where "fr_path r = [] @ ''..'' @ z" by (auto simp: prefix_def)
    then show False using that unfolding Contains_iff by blast
  qed
  assume "\<not> bad_file (Clean (fr_path r))"
  then have "\<not> Contains (fr_path r) ''..''" using rel by (simp add: bad_file_def clean)
  then show "\<exists>p. inside ad (Clean (fr_path r)) = Some p \<and> comps p = place s r"
    using rl pre nodd cp by (auto simp: inside_def Let_def clean place_def)
qed

section \<open>The effect of an upload\<close>

definition unused :: "string \<Rightarrow> Storage \<Rightarrow> bool" where
  "unused i s = (i \<notin> set (map fr_id (so_rows s)) \<and> list_all (\<lambda>p. \<not> prefix (base_at s @ [i]) (fst p)) (so_disk s))"

lemma unused_None: "unused i s \<Longrightarrow> prefix (base_at s @ [i]) k \<Longrightarrow> map_of (so_disk s) k = None"
  by (auto simp: unused_def list_all_iff map_of_eq_None_iff)

lemma mkdir_from_existing: "(\<And>ys. prefix ys cs \<Longrightarrow> ys \<noteq> [] \<Longrightarrow> map_of d (at @ ys) = Some DirNode) \<Longrightarrow>
    mkdir_from at (cs @ ds) d = mkdir_from (at @ cs) ds d"
proof (induction cs arbitrary: at)
  case (Cons c cs)
  have "map_of d (at @ [c]) = Some DirNode" using Cons.prems [of "[c]"] by simp
  moreover have "map_of d ((at @ [c]) @ ys) = Some DirNode" if "prefix ys cs" "ys \<noteq> []" for ys
    using Cons.prems [of "c # ys"] that by simp
  ultimately show ?case using Cons.IH [of "at @ [c]"] by simp
qed simp

lemma mkdir_file_dir:
  assumes s: "site_ok s" and u: "unused i s"
  shows "MkdirAll (base_at s @ [i]) (so_disk s) = (True, map_put (base_at s @ [i]) DirNode (so_disk s))"
proof -
  have "map_of (so_disk s) ys = Some DirNode" if "prefix ys (base_at s)" "ys \<noteq> []" for ys
    using s that by (auto simp: site_ok_def list_all_iff is_dir_def)
  then have "MkdirAll (base_at s @ [i]) (so_disk s) = mkdir_from (base_at s) [i] (so_disk s)"
    unfolding MkdirAll_def using mkdir_from_existing [of "base_at s" "so_disk s" "[]" "[i]"] by simp
  then show ?thesis using unused_None [OF u, of "base_at s @ [i]"] by simp
qed

text \<open>Writing a file: when it succeeds, where it goes, and that nothing else changes.\<close>

lemma writeFile_effect:
  assumes s: "site_ok s" and u: "unused i s" and i: "good_id i" and w: "writeFile e i (Base nm) c s = (res, s')"
  shows "res = (if se_mkdir e \<and> se_write e = WriteOk \<and> plain (Base nm) then Some (i @ ''/'' @ Base nm) else None)"
    and "s' = s\<lparr> so_disk := so_disk s' \<rparr>"
    and "\<not> prefix (base_at s @ [i]) k \<Longrightarrow> map_of (so_disk s') k = map_of (so_disk s) k"
    and "res \<noteq> None \<Longrightarrow> map_of (so_disk s') (base_at s @ [i, Base nm]) = Some (Regular c)"
proof -
  let ?n = "Base nm" and ?d1 = "map_put (base_at s @ [i]) DirNode (so_disk s)"
  have p: "plain i" using i by (simp add: good_id_def)
  note mk = mkdir_file_dir [OF s u] and lf = loc_file [OF s p]
  have all: "res = (if se_mkdir e \<and> se_write e = WriteOk \<and> plain ?n then Some (i @ ''/'' @ ?n) else None) \<and>
    s' = s\<lparr> so_disk := so_disk s' \<rparr> \<and> (\<forall>k. \<not> prefix (base_at s @ [i]) k \<longrightarrow> map_of (so_disk s') k = map_of (so_disk s) k) \<and>
    (res \<noteq> None \<longrightarrow> map_of (so_disk s') (base_at s @ [i, ?n]) = Some (Regular c))"
  proof (cases "se_mkdir e")
    case False
    then show ?thesis using w by (auto simp: writeFile_def Let_def)
  next
    case mkd: True
    show ?thesis
    proof (cases "plain ?n")
      case True
      have "\<not> is_dir ?d1 (base_at s @ [i, ?n])" "is_dir ?d1 (butlast (base_at s @ [i, ?n]))"
        using unused_None [OF u, of "base_at s @ [i, ?n]"] by (simp_all add: is_dir_def butlast_append)
      then show ?thesis using w mkd True mk lf(1) lf(2) [OF True] path_join_two [OF p True]
        by (cases "se_write e") (auto simp: writeFile_def Let_def WriteFile_def map_of_RemoveAll)
    next
      case False
      then have "prefix (loc (so_wd s) (path_join (path_join (so_dir s) i) ?n)) (base_at s @ [i])"
        using loc_odd_name [OF s p] Base_cases [of nm] by blast
      then have "is_dir ?d1 (loc (so_wd s) (path_join (path_join (so_dir s) i) ?n))" using MkdirAll_dirs [OF mk] by blast
      then show ?thesis using w mkd False mk lf(1)
        by (auto simp: writeFile_def Let_def WriteFile_dir map_of_RemoveAll)
    qed
  qed
  then show "res = (if se_mkdir e \<and> se_write e = WriteOk \<and> plain ?n then Some (i @ ''/'' @ ?n) else None)"
    "s' = s\<lparr> so_disk := so_disk s' \<rparr>" by blast+
  show "\<not> prefix (base_at s @ [i]) k \<Longrightarrow> map_of (so_disk s') k = map_of (so_disk s) k" using all by blast
  show "res \<noteq> None \<Longrightarrow> map_of (so_disk s') (base_at s @ [i, ?n]) = Some (Regular c)" using all by blast
qed

text \<open>What an upload amounts to: a refusal, or a new row and the contents of its file.\<close>

definition upload_spec :: "store_env \<Rightarrow> store_req \<Rightarrow> Storage \<Rightarrow> (store_resp, file_row \<times> string) res" where
  "upload_spec e r s =
     (if sq_method r \<noteq> ''POST'' then Inl (StErr 405 ''method not allowed'')
      else case orgIDFromRequest r of
        Inl resp \<Rightarrow> Inl resp
      | Inr g \<Rightarrow> (case readUpload (sq_form r) s of
          Inl msg \<Rightarrow> Inl (StErr 400 msg)
        | Inr (c, n) \<Rightarrow>
            if \<not> isMIMEAllowed (detectMIME c) then Inl (StErr 400 (''file type not allowed: '' @ detectMIME c))
            else case GenerateID (se_rand e) of
              None \<Rightarrow> Inl (StErr 500 ''internal error'')
            | Some i \<Rightarrow>
                if se_mkdir e \<and> se_write e = WriteOk \<and> plain n \<and> se_insert e
                then Inr (\<lparr> fr_id = i, fr_name = n, fr_size = int (length c), fr_mime = detectMIME c, fr_path = i @ ''/'' @ n,
                            fr_org = g, fr_created = se_now e \<rparr>, c)
                else Inl (StErr 500 ''internal error'')))"

lemma upload_spec_local: "so_maxSize s = so_maxSize t \<Longrightarrow> upload_spec e r s = upload_spec e r t"
proof -
  assume "so_maxSize s = so_maxSize t"
  then have "readUpload (sq_form r) s = readUpload (sq_form r) t" by (simp add: readUpload_def)
  then show ?thesis by (simp only: upload_spec_def)
qed

definition fresh_env :: "store_env \<Rightarrow> Storage \<Rightarrow> bool" where
  "fresh_env e s = (case GenerateID (se_rand e) of None \<Rightarrow> True | Some i \<Rightarrow> good_id i \<and> unused i s)"

text \<open>Only the directory of the new identifier may change on the disk.\<close>

definition own_dir :: "store_env \<Rightarrow> Storage \<Rightarrow> string list \<Rightarrow> bool" where
  "own_dir e s k = (case GenerateID (se_rand e) of None \<Rightarrow> False | Some i \<Rightarrow> prefix (base_at s @ [i]) k)"

lemma readUpload_Base: "readUpload f s = Inr (c, n) \<Longrightarrow> \<exists>nm. n = Base nm"
  by (auto simp: readUpload_def split: if_splits option.splits)

lemma upload_effect:
  assumes s: "site_ok s" and f: "fresh_env e s"
  shows "\<exists>d. handleUpload e r s = (case upload_spec e r s of
        Inl resp \<Rightarrow> (s\<lparr> so_disk := d \<rparr>, resp)
      | Inr (row, c) \<Rightarrow> (s\<lparr> so_rows := so_rows s @ [row], so_disk := d \<rparr>, StCreated (info_of row)))
    \<and> (\<forall>k. \<not> own_dir e s k \<longrightarrow> map_of d k = map_of (so_disk s) k)
    \<and> (\<forall>row c. upload_spec e r s = Inr (row, c) \<longrightarrow> map_of d (place s row) = Some (Regular c))"
proof (cases "\<exists>g c n i. sq_method r = ''POST'' \<and> orgIDFromRequest r = Inr g \<and> readUpload (sq_form r) s = Inr (c, n)
    \<and> isMIMEAllowed (detectMIME c) \<and> GenerateID (se_rand e) = Some i")
  case False
  then have "\<exists>resp. upload_spec e r s = Inl resp \<and> handleUpload e r s = (s, resp)"
    by (auto simp: upload_spec_def handleUpload_def Let_def split: sum.splits option.splits)
  then show ?thesis by (intro exI [of _ "so_disk s"]) auto
next
  case True
  then obtain g c n i where t: "sq_method r = ''POST''" "orgIDFromRequest r = Inr g" "readUpload (sq_form r) s = Inr (c, n)"
    "isMIMEAllowed (detectMIME c)" "GenerateID (se_rand e) = Some i" by blast
  obtain nm where n: "n = Base nm" using readUpload_Base [OF t(3)] by blast
  have i: "good_id i" "unused i s" using f t(5) by (simp_all add: fresh_env_def)
  obtain res s1 where w: "writeFile e i (Base nm) c s = (res, s1)" by (metis surj_pair)
  note we = writeFile_effect [OF s i(2,1) w]
  have s1: "so_rows s1 = so_rows s" "so_wd s1 = so_wd s" "so_dir s1 = so_dir s" by (subst we(2), simp)+
  have lo: "loc (so_wd s) (path_join (so_dir s) i) = base_at s @ [i]" using loc_file(1) [OF s] i(1) by (simp add: good_id_def)
  have fresh: "i \<notin> set (map fr_id (so_rows s))" using i(2) by (simp add: unused_def)
  show ?thesis
  proof (cases "res = None \<or> \<not> se_insert e")
    case False
    then have ok: "se_mkdir e" "se_write e = WriteOk" "plain n" "se_insert e" "res = Some (i @ ''/'' @ n)"
      using we(1) n by (auto split: if_splits)
    have "s\<lparr> so_rows := R, so_disk := so_disk s1 \<rparr> = s1\<lparr> so_rows := R \<rparr>" for R by (subst (2) we(2)) simp
    then show ?thesis using t w ok n fresh s1 we(3,4)
      by (intro exI [of _ "so_disk s1"]) (auto simp: handleUpload_def upload_spec_def Let_def insertFileMeta_def own_dir_def place_def)
  next
    case bad: True
    define d where "d = (if res = None then so_disk s1 else RemoveAll (se_remove e) (base_at s @ [i]) (so_disk s1))"
    have dk: "map_of d k = map_of (so_disk s) k" if "\<not> own_dir e s k" for k
      using that we(3) t(5) by (simp add: d_def own_dir_def map_of_RemoveAll)
    have sp: "upload_spec e r s = Inl (StErr 500 ''internal error'')"
      using t n bad we(1) by (auto simp: upload_spec_def split: if_splits)
    have "handleUpload e r s = (s\<lparr> so_disk := d \<rparr>, StErr 500 ''internal error'')"
    proof (cases res)
      case None
      then show ?thesis using t w n we(2) by (simp add: handleUpload_def Let_def d_def)
    next
      case (Some fp)
      have "s1\<lparr> so_disk := D \<rparr> = s\<lparr> so_disk := D \<rparr>" for D by (subst we(2)) simp
      then show ?thesis using t w n bad Some s1 lo by (simp add: handleUpload_def Let_def insertFileMeta_def d_def)
    qed
    then show ?thesis using dk sp by (intro exI [of _ d]) simp
  qed
qed

section \<open>The effect of a deletion\<close>

text \<open>The answer to a deletion and the row it removed.\<close>

definition delete_spec :: "store_env \<Rightarrow> store_req \<Rightarrow> string \<Rightarrow> Storage \<Rightarrow> store_resp \<times> file_row option" where
  "delete_spec e r i s =
     (case orgIDFromRequest r of
        Inl resp \<Rightarrow> (resp, None)
      | Inr g \<Rightarrow> (case file_of e i g s of
          None \<Rightarrow> (StErr 404 ''file not found'', None)
        | Some row \<Rightarrow>
            if \<not> se_delete e then (StErr 500 ''internal error'', None)
            else (if Contains (fr_path row) ''..'' then StErr 403 ''access denied''
                  else if absolute_dir e s = None then StErr 500 ''internal error'' else StDeleted, Some row)))"

lemma file_ofD: "file_of e i g s = Some row \<Longrightarrow> row \<in> set (so_rows s) \<and> fr_id row = i \<and> fr_org row = g"
  by (auto simp: file_of_def dest!: find_SomeD split: if_splits)

lemma storage_okD: "storage_ok s \<Longrightarrow> site_ok s" "storage_ok s \<Longrightarrow> r \<in> set (so_rows s) \<Longrightarrow> row_ok s r"
  by (auto simp: storage_ok_def list_all_iff)

lemma bad_file_row: "storage_ok s \<Longrightarrow> r \<in> set (so_rows s) \<Longrightarrow> bad_file (Clean (fr_path r)) = Contains (fr_path r) ''..''"
proof -
  assume s: "storage_ok s" "r \<in> set (so_rows s)"
  let ?e = "\<lparr> se_now = [], se_rand = None, se_mkdir = True, se_write = WriteOk, se_remove = True, se_insert = True, se_query = True,
    se_delete = True, se_wd = True, se_order = id \<rparr>"
  have "absolute_dir ?e s = Some (Abs (so_wd s) (so_dir s))" by (simp add: absolute_dir_def)
  then show ?thesis using inside_row(1) [OF storage_okD(1) [OF s(1)] storage_okD(2) [OF s]] by blast
qed

lemma same_row: "storage_ok s \<Longrightarrow> x \<in> set (so_rows s) \<Longrightarrow> y \<in> set (so_rows s) \<Longrightarrow> fr_id x = fr_id y \<Longrightarrow> x = y"
  by (auto simp: storage_ok_def distinct_map dest: inj_onD)

lemma delete_effect:
  assumes s: "storage_ok s"
  shows "\<exists>d. handleFileDelete e r i s = (case delete_spec e r i s of
        (a, None) \<Rightarrow> (s, a)
      | (a, Some row) \<Rightarrow> (s\<lparr> so_rows := filter (\<lambda>x. fr_id x \<noteq> fr_id row) (so_rows s), so_disk := d \<rparr>, a))
    \<and> (\<forall>k. (\<forall>a row. delete_spec e r i s = (a, Some row) \<longrightarrow> \<not> prefix (place s row) k) \<longrightarrow> map_of d k = map_of (so_disk s) k)"
proof (cases "\<exists>g row. orgIDFromRequest r = Inr g \<and> file_of e i g s = Some row \<and> se_delete e")
  case False
  then have "\<exists>a. delete_spec e r i s = (a, None) \<and> handleFileDelete e r i s = (s, a)"
    by (auto simp: delete_spec_def handleFileDelete_def split: sum.splits option.splits)
  then show ?thesis by (intro exI [of _ "so_disk s"]) auto
next
  case True
  then obtain g row where t: "orgIDFromRequest r = Inr g" "file_of e i g s = Some row" "se_delete e" by blast
  note f = file_ofD [OF t(2)]
  have rows: "filter (\<lambda>x. \<not> (fr_id x = i \<and> fr_org x = g)) (so_rows s) = filter (\<lambda>x. fr_id x \<noteq> fr_id row) (so_rows s)"
    using f same_row [OF s] by (intro filter_cong) auto
  define d where "d = (if Contains (fr_path row) ''..'' \<or> absolute_dir e s = None then so_disk s
    else RemoveAll (se_remove e) (place s row) (so_disk s))"
  have bad: "bad_file (Clean (fr_path row)) = Contains (fr_path row) ''..''" using bad_file_row [OF s] f by blast
  have "handleFileDelete e r i s = (s\<lparr> so_rows := filter (\<lambda>x. fr_id x \<noteq> fr_id row) (so_rows s), so_disk := d \<rparr>, fst (delete_spec e r i s))"
  proof (cases "Contains (fr_path row) ''..'' \<or> absolute_dir e s = None")
    case True
    then show ?thesis using t bad rows by (cases "Contains (fr_path row) ''..''") (auto simp: handleFileDelete_def delete_spec_def Let_def d_def)
  next
    case False
    then obtain ad where ad: "absolute_dir e s = Some ad" by auto
    obtain p where "inside ad (Clean (fr_path row)) = Some p" "comps p = place s row"
      using inside_row(2) [OF storage_okD(1) [OF s] storage_okD(2) [OF s] ad] f bad False by blast
    then show ?thesis using False t bad rows ad by (auto simp: handleFileDelete_def delete_spec_def Let_def d_def)
  qed
  moreover have "snd (delete_spec e r i s) = Some row" using t by (simp add: delete_spec_def)
  ultimately show ?thesis
    by (intro exI [of _ d]) (auto simp: d_def map_of_RemoveAll split: prod.splits)
qed

section \<open>Any request\<close>

lemma handler_cases:
  assumes "storage_Handler e r s = (s', a)"
  obtains "s' = s" | "handleUpload e r s = (s', a)"
    | i where "handleFileDelete e r i s = (s', a)" "sq_method r = ''DELETE''" "sq_path r = ''/api/storage/files/'' @ i"
proof (cases "HasPrefix (sq_path r) ''/api/storage/files/'' \<and> sq_method r = ''DELETE''")
  case True
  then obtain i where i: "sq_path r = ''/api/storage/files/'' @ i" unfolding prefix_def by blast
  have "TrimPrefix (sq_path r) ''/api/storage/files/'' = i" unfolding i by (rule TrimPrefix_append)
  then have "(s', a) = (s, a) \<or> handleUpload e r s = (s', a) \<or> handleFileDelete e r i s = (s', a)"
    using assms unfolding storage_Handler_def handleFiles_def Let_def by (simp split: if_splits)
  then show ?thesis using that i True by blast
next
  case False
  then show ?thesis using assms that by (auto simp: storage_Handler_def handleFiles_def Let_def split: if_splits)
qed

lemma unused_iff: "unused i s \<longleftrightarrow> i \<notin> set (map fr_id (so_rows s)) \<and> (\<forall>k. prefix (base_at s @ [i]) k \<longrightarrow> map_of (so_disk s) k = None)"
  unfolding unused_def list_all_iff by (auto simp: map_of_eq_None_iff)

text \<open>
  Every request keeps the directory, changes the disk only at files it owns, and either adds the row of its
  fresh identifier or drops one row of its own organization.
\<close>

lemma handler_effect:
  assumes s: "storage_ok s" and f: "fresh_env e s" and h: "storage_Handler e r s = (s', a)"
  obtains (keeps) d where "s' = s\<lparr> so_rows := so_rows s, so_disk := d \<rparr>" "\<And>k. \<not> own_dir e s k \<Longrightarrow> map_of d k = map_of (so_disk s) k"
    | (adds) row c d where "s' = s\<lparr> so_rows := so_rows s @ [row], so_disk := d \<rparr>" "upload_spec e r s = Inr (row, c)" "a = StCreated (info_of row)"
        "map_of d (place s row) = Some (Regular c)" "\<And>k. \<not> own_dir e s k \<Longrightarrow> map_of d k = map_of (so_disk s) k"
    | (drops) row d where "s' = s\<lparr> so_rows := filter (\<lambda>x. fr_id x \<noteq> fr_id row) (so_rows s), so_disk := d \<rparr>" "row \<in> set (so_rows s)"
        "sq_org r = Some (fr_org row)" "sq_method r = ''DELETE''" "sq_path r = ''/api/storage/files/'' @ fr_id row"
        "\<And>k. \<not> prefix (place s row) k \<Longrightarrow> map_of d k = map_of (so_disk s) k"
  using h
proof (cases rule: handler_cases)
  case 1
  then show ?thesis using keeps [where d = "so_disk s"] by simp
next
  case 2
  from upload_effect [OF storage_okD(1) [OF s] f, of r] obtain d where
    d: "handleUpload e r s = (case upload_spec e r s of
        Inl resp \<Rightarrow> (s\<lparr> so_disk := d \<rparr>, resp)
      | Inr (row, c) \<Rightarrow> (s\<lparr> so_rows := so_rows s @ [row], so_disk := d \<rparr>, StCreated (info_of row)))"
    "\<forall>k. \<not> own_dir e s k \<longrightarrow> map_of d k = map_of (so_disk s) k"
    "\<forall>row c. upload_spec e r s = Inr (row, c) \<longrightarrow> map_of d (place s row) = Some (Regular c)" by blast
  show ?thesis
  proof (cases "upload_spec e r s")
    case (Inl resp)
    then show ?thesis using 2 d keeps [where d = d] by simp
  next
    case (Inr p)
    obtain row c where p: "p = (row, c)" by force
    then show ?thesis using 2 d Inr adds [where row = row and d = d and c = c] by simp
  qed
next
  case (3 i)
  from delete_effect [OF s, of e r i] obtain d where
    d: "handleFileDelete e r i s = (case delete_spec e r i s of
        (a, None) \<Rightarrow> (s, a)
      | (a, Some row) \<Rightarrow> (s\<lparr> so_rows := filter (\<lambda>x. fr_id x \<noteq> fr_id row) (so_rows s), so_disk := d \<rparr>, a))"
    "\<forall>k. (\<forall>a row. delete_spec e r i s = (a, Some row) \<longrightarrow> \<not> prefix (place s row) k) \<longrightarrow> map_of d k = map_of (so_disk s) k" by blast
  obtain a' rr where sp: "delete_spec e r i s = (a', rr)" by force
  show ?thesis
  proof (cases rr)
    case None
    then show ?thesis using 3 d sp keeps [where d = "so_disk s"] by simp
  next
    case (Some row)
    obtain g where g: "orgIDFromRequest r = Inr g" "file_of e i g s = Some row"
      using sp Some by (auto simp: delete_spec_def split: sum.splits option.splits if_splits)
    then have "sq_org r = Some (fr_org row)" "row \<in> set (so_rows s)" "fr_id row = i"
      using file_ofD [OF g(2)] by (auto simp: orgIDFromRequest_def split: option.splits)
    then show ?thesis using 3 d sp Some drops [where row = row and d = d] by simp
  qed
qed

end
