(* ===== verification/Storage_Tenancy.thy ===== *)
theory Storage_Tenancy
  imports Storage_Isolation
begin

text \<open>
  Runs of the storage component: the invariant over all requests, the interpretation of the isolation
  interface, and reading back what was uploaded.
\<close>

section \<open>The invariant\<close>

lemma place_simps [simp]:
  "base_at (s\<lparr> so_rows := rows \<rparr>) = base_at s" "place (s\<lparr> so_rows := rows \<rparr>) r = place s r"
  "base_at (s\<lparr> so_disk := d \<rparr>) = base_at s" "place (s\<lparr> so_disk := d \<rparr>) r = place s r"
  by (simp_all add: base_at_def place_def)

lemma row_ok_cong: "map_of d (place s r) = map_of (so_disk s) (place s r) \<Longrightarrow> row_ok (s\<lparr> so_rows := rows, so_disk := d \<rparr>) r = row_ok s r"
  by (simp add: row_ok_def)

lemma own_dir_row: "fresh_env e s \<Longrightarrow> r \<in> set (so_rows s) \<Longrightarrow> \<not> own_dir e s (place s r)"
  by (auto simp: fresh_env_def own_dir_def place_def unused_def split: option.splits)

lemma own_dir_base: "prefix k (base_at s) \<Longrightarrow> \<not> own_dir e s k"
  by (auto simp: own_dir_def prefix_def split: option.splits)

lemma place_apart: "fr_id x \<noteq> fr_id y \<Longrightarrow> \<not> prefix (place s y) (place s x)"
  by (simp add: place_def)

lemma site_ok_cong:
  assumes "site_ok s" "\<And>k. prefix k (base_at s) \<Longrightarrow> map_of d k = map_of (so_disk s) k"
  shows "site_ok (s\<lparr> so_rows := rows, so_disk := d \<rparr>)"
  using assms by (auto simp: site_ok_def list_all_iff is_dir_def)

lemma upload_spec_row:
  assumes "upload_spec e r s = Inr (row, c)"
  shows "GenerateID (se_rand e) = Some (fr_id row)" "sq_org r = Some (fr_org row)" "fr_path row = fr_id row @ ''/'' @ fr_name row"
    "plain (fr_name row)" "isMIMEAllowed (fr_mime row)" "fr_mime row = detectMIME c" "fr_size row = int (length c)"
  using assms by (auto simp: upload_spec_def orgIDFromRequest_def split: if_splits sum.splits option.splits)

lemma upload_row_ok:
  assumes "fresh_env e s" "upload_spec e r s = Inr (row, c)" "map_of d (place s row) = Some (Regular c)"
  shows "row_ok (s\<lparr> so_rows := rows, so_disk := d \<rparr>) row"
  using assms upload_spec_row [OF assms(2)] by (simp add: row_ok_def fresh_env_def)

lemma storage_ok_step:
  assumes s: "storage_ok s" and f: "fresh_env e s" and h: "storage_Handler e r s = (s', a)"
  shows "storage_ok s'"
proof -
  have so: "site_ok s" and rok: "\<And>x. x \<in> set (so_rows s) \<Longrightarrow> row_ok s x" and dist: "distinct (map fr_id (so_rows s))"
    using s by (auto simp: storage_ok_def list_all_iff)
  from s f h show ?thesis
  proof (cases rule: handler_effect)
    case (keeps d)
    have "row_ok s' x" if "x \<in> set (so_rows s)" for x
      using row_ok_cong [of d s x "so_rows s"] rok [OF that] own_dir_row [OF f that] keeps(2) unfolding keeps(1) by simp
    moreover have "site_ok s'" unfolding keeps(1) using keeps(2) own_dir_base by (intro site_ok_cong [OF so]) simp
    ultimately show ?thesis using dist by (simp add: storage_ok_def list_all_iff keeps(1))
  next
    case (adds row c d)
    have "row_ok s' x" if "x \<in> set (so_rows s)" for x
      using row_ok_cong [of d s x "so_rows s @ [row]"] rok [OF that] own_dir_row [OF f that] adds(5) unfolding adds(1) by simp
    moreover have "row_ok s' row" unfolding adds(1) by (rule upload_row_ok [OF f adds(2,4)])
    moreover have "fr_id row \<notin> set (map fr_id (so_rows s))" using f upload_spec_row(1) [OF adds(2)] by (simp add: fresh_env_def unused_def)
    moreover have "site_ok s'" unfolding adds(1) using adds(5) own_dir_base by (intro site_ok_cong [OF so]) simp
    ultimately show ?thesis using dist by (simp add: storage_ok_def list_all_iff adds(1))
  next
    case (drops row d)
    have "row_ok s' x" if "x \<in> set (so_rows s')" for x
      using row_ok_cong [of d s x "so_rows s'"] rok [of x] place_apart [of x row s] that drops(6) unfolding drops(1) by simp
    moreover have "\<not> prefix (place s row) k" if "prefix k (base_at s)" for k using that by (auto simp: place_def prefix_def)
    then have "site_ok s'" unfolding drops(1) using drops(6) by (intro site_ok_cong [OF so]) simp
    ultimately show ?thesis using dist by (simp add: storage_ok_def list_all_iff drops(1) distinct_map_filter)
  qed
qed

lemma unused_step:
  assumes s: "storage_ok s" and f: "fresh_env e s" and h: "storage_Handler e r s = (s', a)"
    and u: "unused j s" and j: "GenerateID (se_rand e) \<noteq> Some j"
  shows "unused j s'"
proof -
  have od: "\<not> own_dir e s k" if "prefix (base_at s @ [j]) k" for k
    using that j by (auto simp: own_dir_def prefix_def split: option.splits)
  note u' = u [unfolded unused_iff]
  from s f h show ?thesis
  proof (cases rule: handler_effect)
    case (keeps d)
    then show ?thesis using u' od by (simp add: unused_iff)
  next
    case (adds row c d)
    then have "fr_id row \<noteq> j" using upload_spec_row(1) [OF adds(2)] j by auto
    then show ?thesis using u' od adds by (auto simp: unused_iff)
  next
    case (drops row d)
    have "fr_id row \<noteq> j" using u drops(2) by (auto simp: unused_def)
    then have "\<not> prefix (place s row) k" if "prefix (base_at s @ [j]) k" for k using that by (auto simp: place_def prefix_def)
    then show ?thesis using u' drops by (auto simp: unused_iff)
  qed
qed

section \<open>Organizations do not interfere\<close>

type_synonym store_call = "store_env \<times> store_req"

definition storage_step :: "Storage \<Rightarrow> store_call \<Rightarrow> Storage \<times> store_resp" where
  "storage_step s q = storage_Handler (fst q) (snd q) s"

definition call_org :: "store_call \<Rightarrow> int option" where
  "call_org q = sq_org (snd q)"

definition own_rows :: "int option \<Rightarrow> Storage \<Rightarrow> file_row list" where
  "own_rows g s = filter (\<lambda>r. Some (fr_org r) = g) (so_rows s)"

text \<open>Two stores look the same to an organization: its rows and the contents of their files.\<close>

definition storage_same :: "int option \<Rightarrow> Storage \<Rightarrow> Storage \<Rightarrow> bool" where
  "storage_same g s t = (so_dir s = so_dir t \<and> so_maxSize s = so_maxSize t \<and> so_wd s = so_wd t \<and> own_rows g s = own_rows g t
     \<and> list_all (\<lambda>r. map_of (so_disk s) (place s r) = map_of (so_disk t) (place s r)) (own_rows g s))"

definition call_ids :: "store_call list \<Rightarrow> string list" where
  "call_ids qs = concat (map (\<lambda>q. case GenerateID (se_rand (fst q)) of None \<Rightarrow> [] | Some i \<Rightarrow> [i]) qs)"

definition rand_ok :: "store_call \<Rightarrow> bool" where
  "rand_ok q = (case se_rand (fst q) of None \<Rightarrow> True | Some b \<Rightarrow> length b = 16)"

text \<open>The requests to come draw sixteen random bytes each, all different and none in use.\<close>

definition storage_pre :: "Storage \<Rightarrow> store_call list \<Rightarrow> bool" where
  "storage_pre s qs = (storage_ok s \<and> list_all rand_ok qs \<and> distinct (call_ids qs) \<and> list_all (\<lambda>i. unused i s) (call_ids qs))"

lemma call_ids_Cons: "call_ids (q # qs) = (case GenerateID (se_rand (fst q)) of None \<Rightarrow> [] | Some i \<Rightarrow> [i]) @ call_ids qs"
  by (simp add: call_ids_def)

lemma storage_preD:
  assumes "storage_pre s (q # qs)"
  shows "storage_ok s" "fresh_env (fst q) s"
proof -
  show "storage_ok s" using assms by (simp add: storage_pre_def)
  have "good_id i" if "GenerateID (se_rand (fst q)) = Some i" for i
  proof -
    from that obtain b where b: "se_rand (fst q) = Some b" "i = hex_encode b" by (auto simp: GenerateID_def)
    with assms have "b \<noteq> []" by (auto simp: storage_pre_def rand_ok_def)
    then show ?thesis using hex_encode_plain b(2) by (simp add: good_id_def)
  qed
  then show "fresh_env (fst q) s" using assms by (auto simp: fresh_env_def storage_pre_def call_ids_Cons split: option.splits)
qed

lemma storage_pre_step: "storage_pre s (q # qs) \<Longrightarrow> storage_pre (fst (storage_step s q)) qs"
proof -
  assume p: "storage_pre s (q # qs)"
  note d = storage_preD [OF p]
  obtain s' a where h: "storage_Handler (fst q) (snd q) s = (s', a)" by force
  have "unused i s'" if "i \<in> set (call_ids qs)" for i
    using p that by (intro unused_step [OF d h]) (auto simp: storage_pre_def call_ids_Cons list_all_iff split: option.splits)
  then show ?thesis using p storage_ok_step [OF d h] h
    by (auto simp: storage_pre_def storage_step_def call_ids_Cons list_all_iff split: option.splits)
qed

lemma storage_pre_filter: "storage_pre s qs \<Longrightarrow> storage_pre s (filter P qs)"
proof -
  have "set (call_ids (filter P qs)) \<subseteq> set (call_ids qs)" by (auto simp: call_ids_def)
  moreover have "distinct (call_ids qs) \<Longrightarrow> distinct (call_ids (filter P qs))"
  proof (induction qs)
    case (Cons q qs)
    have "set (call_ids (filter P qs)) \<subseteq> set (call_ids qs)" by (auto simp: call_ids_def)
    with Cons show ?case by (auto simp: call_ids_Cons split: option.splits)
  qed (simp add: call_ids_def)
  moreover assume "storage_pre s qs"
  ultimately show ?thesis by (auto simp: storage_pre_def list_all_iff)
qed

lemma own_rows_drop: "own_rows g (s\<lparr> so_rows := filter P (so_rows s), so_disk := d \<rparr>) = filter P (own_rows g s)"
  by (simp add: own_rows_def conj_commute)

lemma own_rows_sub: "r \<in> set (own_rows g s) \<Longrightarrow> r \<in> set (so_rows s) \<and> Some (fr_org r) = g"
  by (simp add: own_rows_def)

lemma storage_local_respect:
  assumes p: "storage_pre s (q # qs)" and o: "call_org q \<noteq> g" and same: "storage_same g s t"
  shows "storage_same g (fst (storage_step s q)) t"
proof -
  note d = storage_preD [OF p]
  obtain s' a where h: "storage_Handler (fst q) (snd q) s = (s', a)" by force
  have pl: "\<not> own_dir (fst q) s (place s r)" if "r \<in> set (own_rows g s)" for r
    using own_dir_row [OF d(2)] own_rows_sub [OF that] by blast
  have "own_rows g s' = own_rows g s \<and> so_dir s' = so_dir s \<and> so_maxSize s' = so_maxSize s \<and> so_wd s' = so_wd s \<and>
    (\<forall>r \<in> set (own_rows g s). map_of (so_disk s') (place s r) = map_of (so_disk s) (place s r))"
    using d h
  proof (cases rule: handler_effect)
    case (keeps d')
    have "own_rows g s' = own_rows g s" unfolding keeps(1) by (simp add: own_rows_def)
    then show ?thesis using keeps pl by simp
  next
    case (adds row c d')
    then have "Some (fr_org row) \<noteq> g" using upload_spec_row(2) [OF adds(2)] o by (auto simp: call_org_def)
    then have "own_rows g s' = own_rows g s" unfolding adds(1) by (simp add: own_rows_def)
    then show ?thesis using adds pl by simp
  next
    case (drops row d')
    have g: "Some (fr_org row) \<noteq> g" using drops(3) o by (auto simp: call_org_def)
    then have ne: "fr_id r \<noteq> fr_id row" if "r \<in> set (own_rows g s)" for r
      using same_row [OF d(1) _ drops(2), of r] own_rows_sub [OF that] by auto
    then have "own_rows g s' = own_rows g s" unfolding drops(1) own_rows_drop by (simp add: filter_id_conv)
    then show ?thesis using drops ne place_apart by simp
  qed
  then show ?thesis using same h by (auto simp: storage_same_def storage_step_def list_all_iff place_def base_at_def)
qed

lemma find_own: "find (\<lambda>r. fr_id r = i \<and> fr_org r = g) rows = find (\<lambda>r. fr_id r = i) (filter (\<lambda>r. Some (fr_org r) = Some g) rows)"
  by (induction rows) auto

lemma file_of_same: "storage_same (Some g) s t \<Longrightarrow> file_of e i g s = file_of e i g t"
  by (simp add: file_of_def find_own storage_same_def own_rows_def)

lemma absolute_dir_same: "storage_same g s t \<Longrightarrow> absolute_dir e s = absolute_dir e t"
  by (simp add: absolute_dir_def storage_same_def)

lemma place_same: "storage_same g s t \<Longrightarrow> place s r = place t r" "storage_same g s t \<Longrightarrow> base_at s = base_at t"
  by (simp_all add: storage_same_def place_def base_at_def)

lemma serve_file_cong: "k \<noteq> [] \<Longrightarrow> map_of d k = map_of d' k \<Longrightarrow> serve_file url k d = serve_file url k d'"
  by (simp add: serve_file_def)

lemma own_content_same:
  assumes "storage_same (Some g) s t" "file_of e i g s = Some row"
  shows "map_of (so_disk s) (place s row) = map_of (so_disk t) (place s row)"
  using assms file_ofD [OF assms(2)] by (auto simp: storage_same_def list_all_iff own_rows_def)

lemma orgID_Inr [simp]: "orgIDFromRequest r = Inr g \<longleftrightarrow> sq_org r = Some g"
  by (auto simp: orgIDFromRequest_def split: option.splits)

text \<open>The path of a row that is served or removed is the place of its file.\<close>

lemma inside_place:
  assumes "storage_ok s" "file_of e i g s = Some row" "absolute_dir e s = Some ad" "\<not> bad_file (Clean (fr_path row))"
  obtains p where "inside ad (Clean (fr_path row)) = Some p" "comps p = place s row" "comps p \<noteq> []"
  using inside_row(2) [OF storage_okD(1) [OF assms(1)] storage_okD(2) [OF assms(1)] assms(3,4)] file_ofD [OF assms(2)]
  by (auto simp: place_def)

lemma download_same:
  assumes s: "storage_ok s" and same: "storage_same (sq_org r) s t"
  shows "handleFileDownload e r i s = handleFileDownload e r i t"
proof (cases "\<exists>g row ad. sq_org r = Some g \<and> file_of e i g s = Some row \<and> absolute_dir e s = Some ad \<and> \<not> bad_file (Clean (fr_path row))")
  case True
  then obtain g row ad where k: "sq_org r = Some g" "file_of e i g s = Some row" "absolute_dir e s = Some ad" "\<not> bad_file (Clean (fr_path row))" by blast
  note sg = same [unfolded k(1)]
  from inside_place [OF s k(2-4)] obtain p where p: "inside ad (Clean (fr_path row)) = Some p" "comps p = place s row" "comps p \<noteq> []" .
  have m: "map_of (so_disk s) (comps p) = map_of (so_disk t) (comps p)" using own_content_same [OF sg k(2)] p(2) by simp
  show ?thesis
    using k p(1,3) m serve_file_cong [OF p(3) m] file_of_same [OF sg, of e i] absolute_dir_same [OF sg, of e]
    by (simp add: handleFileDownload_def orgIDFromRequest_def)
next
  case False
  then show ?thesis using same file_of_same absolute_dir_same [OF same, of e]
    by (cases "sq_org r") (auto simp: handleFileDownload_def orgIDFromRequest_def split: option.splits)
qed

lemma thumbnail_same:
  assumes s: "storage_ok s" and same: "storage_same (sq_org r) s t"
  shows "handleThumbnail e r i s = handleThumbnail e r i t"
proof (cases "\<exists>g row ad. sq_org r = Some g \<and> file_of e i g s = Some row \<and> absolute_dir e s = Some ad \<and> \<not> bad_file (Clean (fr_path row))")
  case True
  then obtain g row ad where k: "sq_org r = Some g" "file_of e i g s = Some row" "absolute_dir e s = Some ad" "\<not> bad_file (Clean (fr_path row))" by blast
  note sg = same [unfolded k(1)]
  from inside_place [OF s k(2-4)] obtain p where p: "inside ad (Clean (fr_path row)) = Some p" "comps p = place s row" "comps p \<noteq> []" .
  have m: "map_of (so_disk s) (comps p) = map_of (so_disk t) (comps p)" using own_content_same [OF sg k(2)] p(2) by simp
  show ?thesis
    using k p(1) serve_file_cong [OF p(3) m] file_of_same [OF sg, of e i] absolute_dir_same [OF sg, of e]
    by (simp add: handleThumbnail_def orgIDFromRequest_def)
next
  case False
  then show ?thesis using same file_of_same absolute_dir_same [OF same, of e]
    by (cases "sq_org r") (auto simp: handleThumbnail_def orgIDFromRequest_def split: option.splits)
qed

lemma list_same: "storage_same (sq_org r) s t \<Longrightarrow> handleFileList e r s = handleFileList e r t"
  by (cases "sq_org r") (simp_all add: handleFileList_def fetchFiles_def orgIDFromRequest_def storage_same_def own_rows_def)

lemma delete_spec_same: "storage_same (sq_org r) s t \<Longrightarrow> delete_spec e r i s = delete_spec e r i t"
  using file_of_same absolute_dir_same [of "sq_org r" s t e]
  by (cases "sq_org r") (auto simp: delete_spec_def orgIDFromRequest_def split: option.splits)

lemma upload_consistent:
  assumes s: "storage_ok s" "fresh_env e s" and t: "storage_ok t" "fresh_env e t" and same: "storage_same (sq_org r) s t"
  shows "snd (handleUpload e r s) = snd (handleUpload e r t) \<and> storage_same (sq_org r) (fst (handleUpload e r s)) (fst (handleUpload e r t))"
proof -
  have sp: "upload_spec e r t = upload_spec e r s" using same by (intro upload_spec_local) (simp add: storage_same_def)
  obtain d where d: "handleUpload e r s = (case upload_spec e r s of
        Inl resp \<Rightarrow> (s\<lparr> so_disk := d \<rparr>, resp)
      | Inr (row, c) \<Rightarrow> (s\<lparr> so_rows := so_rows s @ [row], so_disk := d \<rparr>, StCreated (info_of row)))"
    "\<forall>k. \<not> own_dir e s k \<longrightarrow> map_of d k = map_of (so_disk s) k"
    "\<forall>row c. upload_spec e r s = Inr (row, c) \<longrightarrow> map_of d (place s row) = Some (Regular c)"
    using upload_effect [OF storage_okD(1) [OF s(1)] s(2), of r] by blast
  obtain d' where d': "handleUpload e r t = (case upload_spec e r s of
        Inl resp \<Rightarrow> (t\<lparr> so_disk := d' \<rparr>, resp)
      | Inr (row, c) \<Rightarrow> (t\<lparr> so_rows := so_rows t @ [row], so_disk := d' \<rparr>, StCreated (info_of row)))"
    "\<forall>k. \<not> own_dir e t k \<longrightarrow> map_of d' k = map_of (so_disk t) k"
    "\<forall>row c. upload_spec e r s = Inr (row, c) \<longrightarrow> map_of d' (place t row) = Some (Regular c)"
    using upload_effect [OF storage_okD(1) [OF t(1)] t(2), of r] sp by auto
  note pl = place_same [OF same]
  have old: "map_of d (place s x) = map_of d' (place s x)" if x: "x \<in> set (own_rows (sq_org r) s)" for x
  proof -
    have "x \<in> set (own_rows (sq_org r) t)" using x same by (simp add: storage_same_def)
    then have "map_of d (place s x) = map_of (so_disk s) (place s x)" "map_of d' (place s x) = map_of (so_disk t) (place s x)"
      using d(2) d'(2) own_dir_row [OF s(2), of x] own_dir_row [OF t(2), of x] own_rows_sub [OF x] own_rows_sub pl by auto
    then show ?thesis using same x by (simp add: storage_same_def list_all_iff)
  qed
  show ?thesis
  proof (cases "upload_spec e r s")
    case (Inl resp)
    then show ?thesis using d(1) d'(1) same old by (simp add: storage_same_def own_rows_def list_all_iff)
  next
    case (Inr rc)
    obtain row c where rc: "rc = (row, c)" by force
    have "map_of d (place s row) = map_of d' (place s row)" using d(3) d'(3) Inr rc pl by simp
    then show ?thesis using d(1) d'(1) same old Inr rc by (auto simp: storage_same_def own_rows_def list_all_iff)
  qed
qed

lemma delete_consistent:
  assumes s: "storage_ok s" and t: "storage_ok t" and same: "storage_same (sq_org r) s t"
  shows "snd (handleFileDelete e r i s) = snd (handleFileDelete e r i t)
    \<and> storage_same (sq_org r) (fst (handleFileDelete e r i s)) (fst (handleFileDelete e r i t))"
proof -
  note sp = delete_spec_same [OF same, of e i, symmetric] and pl = place_same [OF same]
  obtain d where d: "handleFileDelete e r i s = (case delete_spec e r i s of (a, None) \<Rightarrow> (s, a)
      | (a, Some row) \<Rightarrow> (s\<lparr> so_rows := filter (\<lambda>x. fr_id x \<noteq> fr_id row) (so_rows s), so_disk := d \<rparr>, a))"
    "\<forall>k. (\<forall>a row. delete_spec e r i s = (a, Some row) \<longrightarrow> \<not> prefix (place s row) k) \<longrightarrow> map_of d k = map_of (so_disk s) k"
    using delete_effect [OF s, of e r i] by blast
  obtain d' where d': "handleFileDelete e r i t = (case delete_spec e r i s of (a, None) \<Rightarrow> (t, a)
      | (a, Some row) \<Rightarrow> (t\<lparr> so_rows := filter (\<lambda>x. fr_id x \<noteq> fr_id row) (so_rows t), so_disk := d' \<rparr>, a))"
    "\<forall>k. (\<forall>a row. delete_spec e r i s = (a, Some row) \<longrightarrow> \<not> prefix (place t row) k) \<longrightarrow> map_of d' k = map_of (so_disk t) k"
    using delete_effect [OF t, of e r i] unfolding sp by blast
  obtain a rr where ar: "delete_spec e r i s = (a, rr)" by force
  show ?thesis
  proof (cases rr)
    case None
    then show ?thesis using d(1) d'(1) ar same by simp
  next
    case (Some row)
    have "map_of d (place s x) = map_of d' (place s x)" if "x \<in> set (own_rows (sq_org r) s)" "fr_id x \<noteq> fr_id row" for x
      using d(2) d'(2) ar Some place_apart [OF that(2)] that(1) same pl by (simp add: storage_same_def list_all_iff)
    then show ?thesis using d(1) d'(1) ar Some same by (simp add: storage_same_def own_rows_drop list_all_iff)
  qed
qed

lemma storage_consistent:
  assumes p: "storage_pre s (q # qs)" "storage_pre t (q # qs')" and o: "call_org q = g" and same: "storage_same g s t"
  shows "snd (storage_step s q) = snd (storage_step t q) \<and> storage_same g (fst (storage_step s q)) (fst (storage_step t q))"
proof -
  note s = storage_preD [OF p(1)] and t = storage_preD [OF p(2)]
  have sm: "storage_same (sq_org (snd q)) s t" using same o by (simp add: call_org_def)
  note g = o [unfolded call_org_def, symmetric]
  show ?thesis unfolding g storage_step_def storage_Handler_def handleFiles_def Let_def
    using sm upload_consistent [OF s t sm] delete_consistent [OF s(1) t(1) sm] download_same [OF s(1) sm] thumbnail_same [OF s(1) sm] list_same [OF sm]
    by (simp split: if_splits)
qed

interpretation storage_orgs: org_isolation storage_step call_org storage_same storage_pre
proof unfold_locales
  show "storage_same g s s" for g s by (simp add: storage_same_def list_all_iff)
qed (use storage_pre_step storage_pre_filter storage_local_respect storage_consistent in blast)+

text \<open>
  C18. Organizations do not interfere in the storage: in any sequence of requests of all organizations, with
  any failures, the answers to one organization are exactly those of a server to which only that
  organization ever spoke, provided that the random identifiers differ.
\<close>

theorem storage_noninterference:
  "storage_pre s qs \<Longrightarrow> filter (\<lambda>p. call_org (fst p) = g) (responses storage_step s qs)
     = responses storage_step s (filter (\<lambda>q. call_org q = g) qs)"
  by (rule storage_orgs.noninterference)

section \<open>An upload is read back\<close>

definition deletes :: "file_row \<Rightarrow> store_call \<Rightarrow> bool" where
  "deletes row q = (sq_method (snd q) = ''DELETE'' \<and> call_org q = Some (fr_org row) \<and> sq_path (snd q) = ''/api/storage/files/'' @ fr_id row)"

definition holds_file :: "file_row \<Rightarrow> string \<Rightarrow> Storage \<Rightarrow> bool" where
  "holds_file row c s = (row \<in> set (so_rows s) \<and> map_of (so_disk s) (place s row) = Some (Regular c))"

lemma holds_file_step:
  assumes p: "storage_pre s (q # qs)" and h: "holds_file row c s" and n: "\<not> deletes row q"
  shows "holds_file row c (fst (storage_step s q))"
proof -
  note d = storage_preD [OF p]
  obtain s' a where st: "storage_Handler (fst q) (snd q) s = (s', a)" by force
  have r: "row \<in> set (so_rows s)" using h by (simp add: holds_file_def)
  have "holds_file row c s'"
    using d st
  proof (cases rule: handler_effect)
    case (keeps d')
    then show ?thesis using h own_dir_row [OF d(2) r] by (simp add: holds_file_def)
  next
    case (adds row' c' d')
    then show ?thesis using h own_dir_row [OF d(2) r] by (simp add: holds_file_def)
  next
    case (drops row' d')
    then have "fr_id row \<noteq> fr_id row'"
      using n same_row [OF d(1) r drops(2)] by (auto simp: deletes_def call_org_def)
    then show ?thesis using h drops place_apart [of row row' s] by (simp add: holds_file_def)
  qed
  then show ?thesis using st by (simp add: storage_step_def)
qed

lemma holds_file_run: "storage_pre s (qs @ rs) \<Longrightarrow> holds_file row c s \<Longrightarrow> \<forall>q \<in> set qs. \<not> deletes row q \<Longrightarrow>
    holds_file row c (run_requests storage_step s qs)"
  by (induction qs arbitrary: s) (auto intro: holds_file_step storage_pre_step)

lemma in_fields: "f \<in> set (fields_by p v) \<Longrightarrow> x \<in> set f \<Longrightarrow> x \<in> set v"
proof (induction v arbitrary: f)
  case (Cons y ys)
  obtain g gs where g: "fields_by p ys = g # gs \<or> fields_by p ys = []" by (cases "fields_by p ys") auto
  consider "p y" | "\<not> p y" "f = [y]" | "\<not> p y" "fields_by p ys = g # gs" "f = y # g" | "f \<in> set (fields_by p ys)"
    using Cons.prems(1) g by (auto split: if_splits)
  then show ?case
  proof cases
    case 1
    then have "f \<in> set (fields_by p ys)" using Cons.prems by auto
    then show ?thesis using Cons.IH Cons.prems(2) by simp
  next
    case 3
    then show ?thesis using Cons.IH [of g] Cons.prems(2) by auto
  qed (use Cons in auto)
qed simp

lemma file_url:
  assumes "good_id i"
  shows "mux_clean (''/api/storage/files/'' @ i) = ''/api/storage/files/'' @ i" "\<not> HasSuffix i ''/thumbnail''" "i \<noteq> []"
    "\<not> containsDotDot (''/api/storage/files/'' @ i)" "\<not> HasSuffix (''/api/storage/files/'' @ i) ''/index.html''"
    "\<not> HasSuffix (''/api/storage/files/'' @ i) ''/''"
proof -
  have i: "i \<noteq> []" "sep \<notin> set i" "CHR ''.'' \<notin> set i" "plain i" using assms by (auto simp: good_id_def plain_def)
  let ?u = "''/api/storage/files/'' @ i"
  have u: "?u = ''/'' @ Join [''api'', ''storage'', ''files'', i] ''/''" by simp
  have "comps ?u = [''api'', ''storage'', ''files'', i]" unfolding u using i(4) by (intro comps_of_abs) (simp add: plain_def)
  then have cl: "Clean ?u = ?u" by (simp add: Clean_def IsAbs_def)
  show sl: "\<not> HasSuffix ?u ''/''"
  proof
    assume "HasSuffix ?u ''/''"
    then obtain z where z: "?u = z @ [sep]" unfolding suffix_def by blast
    have "last ?u = last i" using i(1) by (rule last_appendR)
    moreover have "last ?u = sep" unfolding z by simp
    ultimately have "last i = sep" by (rule trans [OF sym])
    then show False using i(1,2) last_in_set by metis
  qed
  have pr: "HasPrefix ?u ''/''" by simp
  show "mux_clean ?u = ?u" unfolding mux_clean_def Let_def if_P [OF pr] cl using sl by (simp only: simp_thms if_False)
  show "\<not> HasSuffix i ''/thumbnail''" using i(2) by (auto simp: suffix_def)
  show "i \<noteq> []" by (rule i(1))
  have nd: "CHR ''.'' \<notin> set ?u" using i(3) by simp
  show "\<not> containsDotDot ?u"
  proof
    assume "containsDotDot ?u"
    then have f: "''..'' \<in> set (fields_by (\<lambda>c. c = CHR ''/'' \<or> c = CHR 0x5C) ?u)" unfolding containsDotDot_def .
    have "CHR ''.'' \<in> set ?u" by (rule in_fields [OF f]) simp
    then show False using nd by blast
  qed
  show "\<not> HasSuffix ?u ''/index.html''"
  proof
    assume "HasSuffix ?u ''/index.html''"
    then have "CHR ''.'' \<in> set ?u" unfolding suffix_def by (metis Un_iff list.set_intros set_append list.set_intros(2))
    then show False using nd by blast
  qed
qed

text \<open>Downloading a file that is held.\<close>

lemma download_held:
  assumes s: "storage_ok s" and h: "holds_file row c s" and r: "sq_method r = ''GET''" "sq_path r = ''/api/storage/files/'' @ fr_id row" "sq_org r = Some g"
    and e: "se_query e" "se_wd e" and nd: "\<not> Contains (fr_path row) ''..''"
  shows "snd (storage_Handler e r s) = (if g = fr_org row
      then StContent (fr_mime row) (Some (''inline; filename='' @ [CHR 0x22] @ sanitizeFilename (fr_name row) @ [CHR 0x22])) (ServeFile c)
      else StErr 404 ''file not found'')"
proof -
  have rw: "row \<in> set (so_rows s)" "map_of (so_disk s) (place s row) = Some (Regular c)" using h by (simp_all add: holds_file_def)
  have "good_id (fr_id row)" using storage_okD(2) [OF s rw(1)] by (simp add: row_ok_def)
  note u = file_url [OF this]
  have H: "snd (storage_Handler e r s) = handleFileDownload e r (fr_id row) s"
    unfolding storage_Handler_def handleFiles_def Let_def r(1,2) u(1) TrimPrefix_append using u(2,3) by simp
  have f: "file_of e (fr_id row) g s = (if g = fr_org row then Some row else None)"
  proof (cases "g = fr_org row")
    case True
    have "find (\<lambda>x. fr_id x = fr_id row \<and> fr_org x = g) (so_rows s) = Some row"
    proof -
      have "(fr_id x = fr_id row) = (fr_id x = fr_id row \<and> fr_org x = g)" if "x \<in> set (so_rows s)" for x
        using same_row [OF s that rw(1)] True by auto
      then have "find (\<lambda>x. fr_id x = fr_id row \<and> fr_org x = g) (so_rows s) = find (\<lambda>x. fr_id x = fr_id row) (so_rows s)"
        by (intro find_cong [OF refl]) simp
      then show ?thesis using find_by_key [of fr_id "so_rows s" row] s rw(1) by (simp add: storage_ok_def)
    qed
    then show ?thesis using True e by (simp add: file_of_def)
  next
    case False
    have "x = row" if "file_of e (fr_id row) g s = Some x" for x
      using file_ofD [OF that] same_row [OF s _ rw(1)] by blast
    then have "file_of e (fr_id row) g s = None"
      using file_ofD [of e "fr_id row" g s row] False by (cases "file_of e (fr_id row) g s") metis+
    then show ?thesis using False by simp
  qed
  show ?thesis
  proof (cases "g = fr_org row")
    case True
    have ad: "absolute_dir e s = Some (Abs (so_wd s) (so_dir s))" using e by (simp add: absolute_dir_def)
    have b: "\<not> bad_file (Clean (fr_path row))" using bad_file_row [OF s rw(1)] nd by simp
    have fr: "file_of e (fr_id row) g s = Some row" using f True by simp
    from inside_place [OF s fr ad b] obtain p where p: "inside (Abs (so_wd s) (so_dir s)) (Clean (fr_path row)) = Some p" "comps p = place s row" "comps p \<noteq> []" .
    have "serve_file (sq_path r) (place s row) (so_disk s) = ServeFile c"
      unfolding serve_file_def r(2) using u(4-6) rw(2) p(2,3) by simp
    then show ?thesis using H fr ad b p rw(2) r(3) True by (simp add: handleFileDownload_def orgIDFromRequest_def)
  next
    case False
    then show ?thesis using H f r(3) by (simp add: handleFileDownload_def orgIDFromRequest_def)
  qed
qed

lemma only_uploads_create:
  "handleFileDownload e r i s \<noteq> StCreated fi" "handleThumbnail e r i s \<noteq> StCreated fi" "handleFileList e r s \<noteq> StCreated fi"
  "snd (handleFileDelete e r i s) \<noteq> StCreated fi"
  by (auto simp: handleFileDownload_def handleThumbnail_def handleFileList_def handleFileDelete_def orgIDFromRequest_def Let_def split: option.splits sum.splits)

lemma created_by_upload:
  assumes "snd (storage_Handler e r s) = StCreated fi"
  shows "storage_Handler e r s = handleUpload e r s"
proof -
  have "snd (handleFiles e r s) \<noteq> StCreated fi"
    using only_uploads_create unfolding handleFiles_def Let_def by simp
  then show ?thesis using assms only_uploads_create unfolding storage_Handler_def by (simp split: if_splits)
qed

lemma Contains_skip: "CHR ''.'' \<notin> set a \<Longrightarrow> Contains (a @ b) ''..'' = Contains b ''..''"
  by (induction a) auto


section \<open>A concrete run\<close>

definition demo_env :: "char \<Rightarrow> store_env" where
  "demo_env x = \<lparr> se_now = ''2026-01-01T00:00:00Z'', se_rand = Some (replicate 16 x), se_mkdir = True, se_write = WriteOk, se_remove = True,
     se_insert = True, se_query = True, se_delete = True, se_wd = True, se_order = (\<lambda>xs. xs) \<rparr>"

definition demo_call :: "char \<Rightarrow> string \<Rightarrow> string \<Rightarrow> int \<Rightarrow> string \<Rightarrow> string \<Rightarrow> store_call" where
  "demo_call x meth path g nm c = (demo_env x, \<lparr> sq_method = meth, sq_path = path, sq_org = Some g,
     sq_form = \<lparr> uf_len = 100, uf_parses = True, uf_file = Some (nm, Some c) \<rparr> \<rparr>)"

definition demo_store :: Storage where
  "demo_store = storage_New ''data'' 0 ''/srv'' [] [([''srv''], DirNode), ([''srv'', ''data''], DirNode)]"

definition demo_put :: store_call where
  "demo_put = demo_call CHR ''A'' ''POST'' ''/api/storage/upload'' 1 ''a.txt'' ''hello''"

definition demo_put2 :: store_call where
  "demo_put2 = demo_call CHR ''B'' ''POST'' ''/api/storage/upload'' 2 ''b.txt'' ''world''"

definition demo_id :: string where
  "demo_id = ''41414141414141414141414141414141''"

definition demo_get :: "int \<Rightarrow> store_call" where
  "demo_get g = demo_call CHR ''C'' ''GET'' (''/api/storage/files/'' @ demo_id) g [] []"

lemma demo_pre: "storage_pre demo_store [demo_put, demo_put2, demo_get 1]" "storage_pre demo_store [demo_put, demo_put2, demo_get 2]"
  by code_simp+

lemma demo_created: "snd (storage_step demo_store demo_put) =
    StCreated \<lparr> fi_ID = demo_id, fi_Name = ''a.txt'', fi_Size = 5, fi_MimeType = ''text/plain; charset=utf-8'', fi_CreatedAt = ''2026-01-01T00:00:00Z'' \<rparr>"
  by code_simp


theorem storage_noninterference_witness:
  "filter (\<lambda>p. call_org (fst p) = Some 1) (responses storage_step demo_store [demo_put, demo_put2, demo_get 1])
     = responses storage_step demo_store [demo_put, demo_get 1]"
proof -
  have "filter (\<lambda>q. call_org q = Some 1) [demo_put, demo_put2, demo_get 1] = [demo_put, demo_get 1]"
    by (simp add: demo_put_def demo_put2_def demo_get_def demo_call_def call_org_def)
  with storage_noninterference [OF demo_pre(1), of "Some 1"] show ?thesis by simp
qed

section \<open>Names, types and what deleting leaves behind\<close>

text \<open>The name in the header cannot end the quoted string or the header line, and has no separator.\<close>

lemma sanitizeFilename_safe:
  "set (sanitizeFilename n) \<inter> {CHR 0x22, CHR 0x5C, CHR ''/'', CHR 0x0A, CHR 0x0D, CHR 0x09, CHR 0x00, CHR 0x1F} = {}"
  by (induction n rule: sanitizeFilename.induct) auto

text \<open>One pass only: what is removed may bring two dots together.\<close>

lemma sanitizeFilename_leaves_dots: "sanitizeFilename [CHR ''.'', CHR 0x22, CHR ''.''] = ''..''"
  by simp

text \<open>
  The list of types names \<^verbatim>\<open>application/gzip\<close>, but content sniffing calls a gzip stream
  \<^verbatim>\<open>application/x-gzip\<close>: no gzip file is ever accepted.
\<close>

lemma gzip_never_accepted: "\<not> isMIMEAllowed (detectMIME (CHR 0x1F # CHR 0x8B # CHR 0x08 # rest))"
proof -
  have "detectMIME (CHR 0x1F # CHR 0x8B # CHR 0x08 # rest) = DetectContentType (CHR 0x1F # CHR 0x8B # CHR 0x08 # rest)"
    by (simp add: detectMIME_def DetectContentType_def)
  then consider "detectMIME (CHR 0x1F # CHR 0x8B # CHR 0x08 # rest) = ''application/x-gzip''"
    | "detectMIME (CHR 0x1F # CHR 0x8B # CHR 0x08 # rest) = ''application/vnd.ms-fontobject''"
    using sniff_gzip [of rest] by auto
  then show ?thesis by cases (simp_all add: isMIMEAllowed_def allowedMimePrefixes_def)
qed

text \<open>
  A name with two dots in a row is accepted, but its file can never be read: the owner is refused, and
  deleting it removes the row, answers that access is denied and leaves the file on the disk for good.
\<close>

definition demo_dots :: store_call where
  "demo_dots = demo_call CHR ''A'' ''POST'' ''/api/storage/upload'' 1 ''v1..v2.txt'' ''diff''"

definition demo_delete :: store_call where
  "demo_delete = demo_call CHR ''D'' ''DELETE'' (''/api/storage/files/'' @ demo_id) 1 [] []"

lemma double_dots_are_lost:
  "snd (storage_step (run_requests storage_step demo_store [demo_dots]) (demo_get 1)) = StErr 403 ''access denied''"
  "snd (storage_step (run_requests storage_step demo_store [demo_dots]) demo_delete) = StErr 403 ''access denied''"
  "so_rows (run_requests storage_step demo_store [demo_dots, demo_delete]) = []"
  "map_of (so_disk (run_requests storage_step demo_store [demo_dots, demo_delete])) [''srv'', ''data'', demo_id, ''v1..v2.txt''] = Some (Regular ''diff'')"
  by code_simp+

text \<open>Deleting a file keeps the directory that was made for it.\<close>

lemma deletion_keeps_directory:
  "map_of (so_disk (run_requests storage_step demo_store [demo_put, demo_delete])) [''srv'', ''data'', demo_id] = Some DirNode"
  "map_of (so_disk (run_requests storage_step demo_store [demo_put, demo_delete])) [''srv'', ''data'', demo_id, ''a.txt''] = None"
  by code_simp+

text \<open>The limit on the body is a mebibyte above the configured size, and what exceeds it is a bad request.\<close>

lemma upload_size_limit: "readUpload f s = Inr p \<Longrightarrow> uf_len f \<le> so_maxSize s + 1048576"
  by (auto simp: readUpload_def split: if_splits)

lemma too_large_is_bad_request:
  "sq_method r = ''POST'' \<Longrightarrow> sq_org r = Some g \<Longrightarrow> uf_len (sq_form r) > so_maxSize s + 1048576 \<Longrightarrow>
     handleUpload e r s = (s, StErr 400 ''file too large or invalid form'')"
  by (simp add: handleUpload_def orgIDFromRequest_def readUpload_def)

end
