(* ===== verification/Projects.thy ===== *)
theory Projects
  imports Kernel_Web Org_Isolation
begin

text \<open>
  Projects and their environments (\<^verbatim>\<open>components/projects/projects.go\<close>): the two tables with their
  uniqueness constraints, the operations, the provisioning of a project for a site, and the handlers. A
  call carries its organization, the clock, the random bytes of the identifiers it draws and, for each
  database statement it runs, the error message when the statement fails. \<open>pr_cascade\<close> says whether the
  database enforces \<^verbatim>\<open>ON DELETE CASCADE\<close>: PostgreSQL does, SQLite only with a setting that the repository
  never makes.
\<close>

section \<open>State\<close>

record Project =
  pj_id :: string
  pj_org :: int
  pj_name :: string
  pj_created :: string
  pj_updated :: string

record Environment =
  ev_id :: string
  ev_project :: string
  ev_slug :: string
  ev_name :: string
  ev_created :: string
  ev_updated :: string

text \<open>The columns of the table of sites that this component reads and writes.\<close>

record site_link =
  sl_id :: string
  sl_name :: string
  sl_org :: int
  sl_project :: "string option"

record Projects =
  pr_cascade :: bool
  pr_unique :: string
  pr_projects :: "Project list"
  pr_envs :: "Environment list"
  pr_sites :: "site_link list"

record proj_env =
  pe_org :: "int option"
  pe_now :: string
  pe_rand :: "nat \<Rightarrow> string option"
  pe_db :: "nat \<Rightarrow> string option"
  pe_order :: "Project list \<Rightarrow> Project list"
  pe_env_order :: "Environment list \<Rightarrow> Environment list"

datatype proj_error =
    ErrOrganizationRequired
  | ErrProjectNotFound
  | ErrEnvironmentNotFound
  | ErrProjectHasSites
  | Message string

text \<open>A statement that fails, with the prefix the code wraps its error in.\<close>

definition db_fail :: "string \<Rightarrow> string option \<Rightarrow> (proj_error, unit) res" where
  "db_fail what m = (case m of None \<Rightarrow> Inr () | Some msg \<Rightarrow> Inl (Message (what @ '': '' @ msg)))"

section \<open>Validation\<close>

definition orgIDFromContext :: "proj_env \<Rightarrow> (proj_error, int) res" where
  "orgIDFromContext e = (case pe_org e of None \<Rightarrow> Inl ErrOrganizationRequired | Some g \<Rightarrow> if g \<le> 0 then Inl ErrOrganizationRequired else Inr g)"

definition validateName :: "string \<Rightarrow> string \<Rightarrow> (proj_error, string) res" where
  "validateName v field =
     (let v = TrimSpace v in
      if v = [] then Inl (Message (field @ '' is required''))
      else if length v > 200 then Inl (Message (field @ '' is too long'')) else Inr v)"

definition slug_byte :: "char \<Rightarrow> bool" where
  "slug_byte c = (let n = of_char c :: nat in 97 \<le> n \<and> n \<le> 122 \<or> 48 \<le> n \<and> n \<le> 57 \<or> c = CHR ''-'' \<or> c = CHR ''_'')"

definition validateSlug :: "string \<Rightarrow> (proj_error, string) res" where
  "validateSlug slug =
     (let s = TrimSpace (ToLower slug) in
      if s = [] then Inl (Message ''slug is required'')
      else if length s > 100 then Inl (Message ''slug is too long'')
      else if \<not> list_all slug_byte s then Inl (Message ''slug must contain only lowercase letters, numbers, hyphens, and underscores'')
      else Inr s)"

section \<open>Statements\<close>

definition insert_project :: "string option \<Rightarrow> string \<Rightarrow> Project \<Rightarrow> Projects \<Rightarrow> (proj_error, Projects) res" where
  "insert_project m what p s = (case db_fail what m of
     Inl err \<Rightarrow> Inl err
   | Inr _ \<Rightarrow> if list_ex (\<lambda>q. pj_id q = pj_id p \<or> pj_org q = pj_org p \<and> pj_name q = pj_name p) (pr_projects s)
              then Inl (Message (what @ '': '' @ pr_unique s)) else Inr (s\<lparr> pr_projects := pr_projects s @ [p] \<rparr>))"

definition insert_environment :: "string option \<Rightarrow> string \<Rightarrow> Environment \<Rightarrow> Projects \<Rightarrow> (proj_error, Projects) res" where
  "insert_environment m what v s = (case db_fail what m of
     Inl err \<Rightarrow> Inl err
   | Inr _ \<Rightarrow> if list_ex (\<lambda>w. ev_id w = ev_id v \<or> ev_project w = ev_project v \<and> ev_slug w = ev_slug v) (pr_envs s)
              then Inl (Message (what @ '': '' @ pr_unique s)) else Inr (s\<lparr> pr_envs := pr_envs s @ [v] \<rparr>))"

definition getProject :: "string option \<Rightarrow> string \<Rightarrow> int \<Rightarrow> Projects \<Rightarrow> (proj_error, Project) res" where
  "getProject m i g s = (case db_fail ''get project'' m of
     Inl err \<Rightarrow> Inl err
   | Inr _ \<Rightarrow> (case find (\<lambda>p. pj_id p = i \<and> pj_org p = g) (pr_projects s) of None \<Rightarrow> Inl ErrProjectNotFound | Some p \<Rightarrow> Inr p))"

text \<open>The join of an environment with its project.\<close>

definition joined :: "int \<Rightarrow> Projects \<Rightarrow> Environment \<Rightarrow> bool" where
  "joined g s v = list_ex (\<lambda>p. pj_id p = ev_project v \<and> pj_org p = g) (pr_projects s)"

definition getEnvironment :: "string option \<Rightarrow> string \<Rightarrow> string \<Rightarrow> int \<Rightarrow> Projects \<Rightarrow> (proj_error, Environment) res" where
  "getEnvironment m i pid g s = (case db_fail ''get environment'' m of
     Inl err \<Rightarrow> Inl err
   | Inr _ \<Rightarrow> (case find (\<lambda>v. ev_id v = i \<and> ev_project v = pid \<and> joined g s v) (pr_envs s) of
       None \<Rightarrow> Inl ErrEnvironmentNotFound | Some v \<Rightarrow> Inr v))"

section \<open>Operations\<close>

definition CreateProject :: "proj_env \<Rightarrow> string \<Rightarrow> Projects \<Rightarrow> Projects \<times> (proj_error, Project) res" where
  "CreateProject e name s = (case orgIDFromContext e of
     Inl err \<Rightarrow> (s, Inl err)
   | Inr g \<Rightarrow> (case validateName name ''name'' of
       Inl err \<Rightarrow> (s, Inl err)
     | Inr nm \<Rightarrow> (case GenerateID (pe_rand e 0) of
         None \<Rightarrow> (s, Inl (Message ''generate project id''))
       | Some i \<Rightarrow> (case insert_project (pe_db e 0) ''create project''
                         \<lparr> pj_id = i, pj_org = g, pj_name = nm, pj_created = pe_now e, pj_updated = pe_now e \<rparr> s of
           Inl err \<Rightarrow> (s, Inl err)
         | Inr s' \<Rightarrow> (s', getProject (pe_db e 1) i g s')))))"

definition ListProjects :: "proj_env \<Rightarrow> Projects \<Rightarrow> (proj_error, Project list) res" where
  "ListProjects e s = (case orgIDFromContext e of
     Inl err \<Rightarrow> Inl err
   | Inr g \<Rightarrow> (case db_fail ''list projects'' (pe_db e 0) of
       Inl err \<Rightarrow> Inl err
     | Inr _ \<Rightarrow> Inr (pe_order e (filter (\<lambda>p. pj_org p = g) (pr_projects s)))))"

definition GetProject :: "proj_env \<Rightarrow> string \<Rightarrow> Projects \<Rightarrow> (proj_error, Project) res" where
  "GetProject e i s = (case orgIDFromContext e of Inl err \<Rightarrow> Inl err | Inr g \<Rightarrow> getProject (pe_db e 0) i g s)"

definition rename_project :: "string \<Rightarrow> string \<Rightarrow> string \<Rightarrow> int \<Rightarrow> Project \<Rightarrow> Project" where
  "rename_project nm now i g p = (if pj_id p = i \<and> pj_org p = g then p\<lparr> pj_name := nm, pj_updated := now \<rparr> else p)"

text \<open>The update fails when another project of the organization has the name.\<close>

definition UpdateProject :: "proj_env \<Rightarrow> string \<Rightarrow> string \<Rightarrow> Projects \<Rightarrow> Projects \<times> (proj_error, Project) res" where
  "UpdateProject e i name s = (case orgIDFromContext e of
     Inl err \<Rightarrow> (s, Inl err)
   | Inr g \<Rightarrow> (case validateName name ''name'' of
       Inl err \<Rightarrow> (s, Inl err)
     | Inr nm \<Rightarrow> (case db_fail ''update project'' (pe_db e 0) of
         Inl err \<Rightarrow> (s, Inl err)
       | Inr _ \<Rightarrow>
           if \<not> list_ex (\<lambda>p. pj_id p = i \<and> pj_org p = g) (pr_projects s) then (s, Inl ErrProjectNotFound)
           else if list_ex (\<lambda>p. pj_id p \<noteq> i \<and> pj_org p = g \<and> pj_name p = nm) (pr_projects s)
                then (s, Inl (Message (''update project: '' @ pr_unique s)))
           else let s' = s\<lparr> pr_projects := map (rename_project nm (pe_now e) i g) (pr_projects s) \<rparr> in (s', getProject (pe_db e 1) i g s'))))"

text \<open>The count of attached sites; an error other than a missing table ends the deletion.\<close>

definition attached :: "string \<Rightarrow> Projects \<Rightarrow> nat" where
  "attached i s = length (filter (\<lambda>l. sl_project l = Some i) (pr_sites s))"

definition missingSitesTable :: "string \<Rightarrow> bool" where
  "missingSitesTable msg = (let m = ToLower msg in Contains m ''no such table'' \<or> Contains m ''undefined table'' \<or> Contains m ''does not exist'')"

definition count_attached :: "string option \<Rightarrow> string \<Rightarrow> Projects \<Rightarrow> (proj_error, nat) res" where
  "count_attached m i s = (case m of
     None \<Rightarrow> Inr (attached i s)
   | Some msg \<Rightarrow> if missingSitesTable msg then Inr 0 else Inl (Message (''check project attachments: '' @ msg)))"

definition DeleteProject :: "proj_env \<Rightarrow> string \<Rightarrow> Projects \<Rightarrow> Projects \<times> (proj_error, unit) res" where
  "DeleteProject e i s = (case orgIDFromContext e of
     Inl err \<Rightarrow> (s, Inl err)
   | Inr g \<Rightarrow> (case getProject (pe_db e 0) i g s of
       Inl err \<Rightarrow> (s, Inl err)
     | Inr _ \<Rightarrow>
         (case count_attached (pe_db e 1) i s of
            Inl err \<Rightarrow> (s, Inl err)
          | Inr k \<Rightarrow> if k > 0 then (s, Inl ErrProjectHasSites)
              else (case db_fail ''delete project'' (pe_db e 2) of
                  Inl err \<Rightarrow> (s, Inl err)
                | Inr _ \<Rightarrow> (s\<lparr> pr_projects := filter (\<lambda>p. \<not> (pj_id p = i \<and> pj_org p = g)) (pr_projects s),
                              pr_envs := (if pr_cascade s then filter (\<lambda>v. ev_project v \<noteq> i) (pr_envs s) else pr_envs s) \<rparr>, Inr ())))))"

definition ListEnvironments :: "proj_env \<Rightarrow> string \<Rightarrow> Projects \<Rightarrow> (proj_error, Environment list) res" where
  "ListEnvironments e pid s = (case orgIDFromContext e of
     Inl err \<Rightarrow> Inl err
   | Inr g \<Rightarrow> (case getProject (pe_db e 0) pid g s of
       Inl err \<Rightarrow> Inl err
     | Inr _ \<Rightarrow> (case db_fail ''list environments'' (pe_db e 1) of
         Inl err \<Rightarrow> Inl err
       | Inr _ \<Rightarrow> Inr (pe_env_order e (filter (\<lambda>v. ev_project v = pid \<and> joined g s v) (pr_envs s))))))"

definition CreateEnvironment :: "proj_env \<Rightarrow> string \<Rightarrow> string \<Rightarrow> string \<Rightarrow> Projects \<Rightarrow> Projects \<times> (proj_error, Environment) res" where
  "CreateEnvironment e pid slug name s = (case orgIDFromContext e of
     Inl err \<Rightarrow> (s, Inl err)
   | Inr g \<Rightarrow> (case getProject (pe_db e 0) pid g s of
       Inl err \<Rightarrow> (s, Inl err)
     | Inr _ \<Rightarrow> (case validateSlug slug of
         Inl err \<Rightarrow> (s, Inl err)
       | Inr sl \<Rightarrow> (case validateName name ''name'' of
           Inl err \<Rightarrow> (s, Inl err)
         | Inr nm \<Rightarrow> (case GenerateID (pe_rand e 0) of
             None \<Rightarrow> (s, Inl (Message ''generate environment id''))
           | Some i \<Rightarrow> (case insert_environment (pe_db e 1) ''create environment''
                 \<lparr> ev_id = i, ev_project = pid, ev_slug = sl, ev_name = nm, ev_created = pe_now e, ev_updated = pe_now e \<rparr> s of
               Inl err \<Rightarrow> (s, Inl err)
             | Inr s' \<Rightarrow> (s', getEnvironment (pe_db e 2) i pid g s')))))))"

section \<open>Provisioning for sites\<close>

text \<open>
  The statements of the k-th provisioning are numbered from \<open>4 * k\<close>, its identifiers from \<open>2 * k\<close>. A site
  that cannot be read counts as one without a project.
\<close>

definition site_project :: "string option \<Rightarrow> string \<Rightarrow> Projects \<Rightarrow> string option" where
  "site_project m sid s = (if m \<noteq> None then None else case find (\<lambda>l. sl_id l = sid) (pr_sites s) of
     None \<Rightarrow> None | Some l \<Rightarrow> (case sl_project l of None \<Rightarrow> None | Some p \<Rightarrow> if p = [] then None else Some p))"

definition attach_site :: "string \<Rightarrow> string \<Rightarrow> site_link \<Rightarrow> site_link" where
  "attach_site sid pid l = (if sl_id l = sid \<and> sl_project l = None then l\<lparr> sl_project := Some pid \<rparr> else l)"

definition ensureSiteProject :: "proj_env \<Rightarrow> nat \<Rightarrow> string \<Rightarrow> string \<Rightarrow> int \<Rightarrow> bool \<Rightarrow> Projects \<Rightarrow> Projects \<times> (proj_error, string) res" where
  "ensureSiteProject e k sid sname g compatibility s = (case site_project (pe_db e (4 * k)) sid s of
     Some p \<Rightarrow> (s, Inr p)
   | None \<Rightarrow>
       if sid = [] then (s, Inl (Message ''site id is required''))
       else let sn = (if sname = [] then sid else sname);
                name = (if compatibility then ''Compatibility - '' @ sn @ '' ('' @ sid @ '')'' else sn) in
         case GenerateID (pe_rand e (2 * k)) of
           None \<Rightarrow> (s, Inl (Message ''generate compatibility project id''))
         | Some pid \<Rightarrow> (case insert_project (pe_db e (4 * k + 1)) ''create site project''
               \<lparr> pj_id = pid, pj_org = g, pj_name = name, pj_created = pe_now e, pj_updated = pe_now e \<rparr> s of
             Inl err \<Rightarrow> (s, Inl err)
           | Inr s1 \<Rightarrow> (case GenerateID (pe_rand e (2 * k + 1)) of
               None \<Rightarrow> (s1, Inl (Message ''generate production environment id''))
             | Some vid \<Rightarrow> (case insert_environment (pe_db e (4 * k + 2)) ''create production environment''
                   \<lparr> ev_id = vid, ev_project = pid, ev_slug = ''production'', ev_name = ''Production'', ev_created = pe_now e, ev_updated = pe_now e \<rparr> s1 of
                 Inl err \<Rightarrow> (s1, Inl err)
               | Inr s2 \<Rightarrow> (case db_fail ''attach site project'' (pe_db e (4 * k + 3)) of
                   Inl err \<Rightarrow> (s2, Inl err)
                 | Inr _ \<Rightarrow> (s2\<lparr> pr_sites := map (attach_site sid pid) (pr_sites s2) \<rparr>, Inr pid))))))"

definition EnsureSiteProject :: "proj_env \<Rightarrow> string \<Rightarrow> string \<Rightarrow> int \<Rightarrow> Projects \<Rightarrow> Projects \<times> (proj_error, string) res" where
  "EnsureSiteProject e sid sname g s = ensureSiteProject e 0 sid sname g False s"

fun migrate_sites :: "proj_env \<Rightarrow> nat \<Rightarrow> site_link list \<Rightarrow> Projects \<Rightarrow> Projects \<times> (proj_error, unit) res" where
  "migrate_sites e k [] s = (s, Inr ())"
| "migrate_sites e k (l # ls) s = (case ensureSiteProject e k (sl_id l) (sl_name l) (sl_org l) True s of
     (s', Inl err) \<Rightarrow> (s', Inl err)
   | (s', Inr _) \<Rightarrow> migrate_sites e (Suc k) ls s')"

definition MigrateSiteAttachments :: "proj_env \<Rightarrow> Projects \<Rightarrow> Projects \<times> (proj_error, unit) res" where
  "MigrateSiteAttachments e s = (case pe_db e 0 of
     Some m \<Rightarrow> (s, if missingSitesTable m then Inr () else Inl (Message (''list sites for project migration: '' @ m)))
   | None \<Rightarrow> migrate_sites e 1 (filter (\<lambda>l. sl_project l = None) (pr_sites s)) s)"

section \<open>Handlers\<close>

text \<open>The body of a request is \<open>None\<close> when it is not JSON or too long, otherwise its name and slug.\<close>

record proj_req =
  pq_method :: string
  pq_path :: string
  pq_body :: "(string \<times> string) option"

datatype proj_resp =
    PrErr nat string
  | PrProjects "Project list"
  | PrProject nat Project
  | PrEnvs "Environment list"
  | PrEnv Environment
  | PrNoContent
  | PrRedirect
  | PrNoRoute

definition writeProjectError :: "proj_error \<Rightarrow> proj_resp" where
  "writeProjectError err = (case err of
     ErrOrganizationRequired \<Rightarrow> PrErr 403 ''organization required''
   | ErrProjectNotFound \<Rightarrow> PrErr 404 ''not found''
   | ErrEnvironmentNotFound \<Rightarrow> PrErr 404 ''not found''
   | ErrProjectHasSites \<Rightarrow> PrErr 409 ''project has attached sites''
   | Message m \<Rightarrow>
       if Contains m ''required'' \<or> Contains m ''invalid'' \<or> Contains m ''too long'' \<or> Contains m ''only lowercase'' then PrErr 400 m
       else if Contains (ToLower m) ''unique'' \<or> Contains (ToLower m) ''constraint'' then PrErr 409 ''resource already exists''
       else PrErr 500 ''internal error'')"

definition answer :: "('a \<Rightarrow> proj_resp) \<Rightarrow> (proj_error, 'a) res \<Rightarrow> proj_resp" where
  "answer f r = (case r of Inl err \<Rightarrow> writeProjectError err | Inr x \<Rightarrow> f x)"

definition with_body :: "proj_req \<Rightarrow> (string \<Rightarrow> string \<Rightarrow> Projects \<times> proj_resp) \<Rightarrow> Projects \<Rightarrow> Projects \<times> proj_resp" where
  "with_body q f s = (case pq_body q of None \<Rightarrow> (s, writeProjectError (Message ''invalid json'')) | Some (name, slug) \<Rightarrow> f name slug)"

definition handleProjects :: "proj_env \<Rightarrow> proj_req \<Rightarrow> Projects \<Rightarrow> Projects \<times> proj_resp" where
  "handleProjects e q s = (case orgIDFromContext e of
     Inl err \<Rightarrow> (s, writeProjectError err)
   | Inr _ \<Rightarrow>
       if pq_method q = ''GET'' then (s, answer PrProjects (ListProjects e s))
       else if pq_method q = ''POST'' then with_body q (\<lambda>name slug. apsnd (answer (PrProject 201)) (CreateProject e name s)) s
       else (s, PrErr 405 ''method not allowed''))"

definition handleEnvironments :: "proj_env \<Rightarrow> proj_req \<Rightarrow> string \<Rightarrow> Projects \<Rightarrow> Projects \<times> proj_resp" where
  "handleEnvironments e q pid s =
     (if pq_method q = ''GET'' then (s, answer PrEnvs (ListEnvironments e pid s))
      else if pq_method q = ''POST'' then with_body q (\<lambda>name slug. apsnd (answer PrEnv) (CreateEnvironment e pid slug name s)) s
      else (s, PrErr 405 ''method not allowed''))"

definition path_parts :: "string \<Rightarrow> string list" where
  "path_parts path = Split (TrimChar sep (TrimPrefix path ''/api/projects/'')) sep"

definition handleProjectByID :: "proj_env \<Rightarrow> proj_req \<Rightarrow> Projects \<Rightarrow> Projects \<times> proj_resp" where
  "handleProjectByID e q s =
     (let parts = path_parts (pq_path q); i = hd parts in
      if i = [] then (s, writeProjectError ErrProjectNotFound)
      else if length parts = 2 \<and> parts ! 1 = ''environments'' then handleEnvironments e q i s
      else if length parts \<noteq> 1 then (s, writeProjectError ErrProjectNotFound)
      else if pq_method q = ''GET'' then (s, answer (PrProject 200) (GetProject e i s))
      else if pq_method q = ''PATCH'' \<or> pq_method q = ''PUT''
        then with_body q (\<lambda>name slug. apsnd (answer (PrProject 200)) (UpdateProject e i name s)) s
      else if pq_method q = ''DELETE'' then apsnd (answer (\<lambda>_. PrNoContent)) (DeleteProject e i s)
      else (s, PrErr 405 ''method not allowed''))"

definition projects_Handler :: "proj_env \<Rightarrow> proj_req \<Rightarrow> Projects \<Rightarrow> Projects \<times> proj_resp" where
  "projects_Handler e q s =
     (if mux_clean (pq_path q) \<noteq> pq_path q then (s, PrRedirect)
      else if pq_path q = ''/api/projects'' then handleProjects e q s
      else if HasPrefix (pq_path q) ''/api/projects/'' then handleProjectByID e q s
      else (s, PrNoRoute))"

end
