(* ===== verification/Projects_Tenancy.thy ===== *)
theory Projects_Tenancy
  imports Projects
begin

text \<open>
  Organizations do not interfere in the projects component: the interpretation of \<open>org_isolation\<close>. Below,
  what provisioning a project for a site achieves and when it is stuck for good.
\<close>

section \<open>What an organization sees\<close>

type_synonym proj_call = "proj_env \<times> proj_req"

definition projects_step :: "Projects \<Rightarrow> proj_call \<Rightarrow> Projects \<times> proj_resp" where
  "projects_step s q = projects_Handler (fst q) (snd q) s"

definition proj_org :: "proj_call \<Rightarrow> int option" where
  "proj_org q = pe_org (fst q)"

definition own_projects :: "int option \<Rightarrow> Projects \<Rightarrow> Project list" where
  "own_projects g s = filter (\<lambda>p. Some (pj_org p) = g) (pr_projects s)"

definition own_ids :: "int option \<Rightarrow> Projects \<Rightarrow> string list" where
  "own_ids g s = map pj_id (own_projects g s)"

definition own_envs :: "int option \<Rightarrow> Projects \<Rightarrow> Environment list" where
  "own_envs g s = filter (\<lambda>v. ev_project v \<in> set (own_ids g s)) (pr_envs s)"

definition proj_same :: "int option \<Rightarrow> Projects \<Rightarrow> Projects \<Rightarrow> bool" where
  "proj_same g s t = (pr_cascade s = pr_cascade t \<and> pr_unique s = pr_unique t \<and> own_projects g s = own_projects g t
     \<and> own_envs g s = own_envs g t \<and> list_all (\<lambda>i. attached i s = attached i t) (own_ids g s))"

definition id_unused :: "string \<Rightarrow> Projects \<Rightarrow> bool" where
  "id_unused i s = (i \<notin> set (map pj_id (pr_projects s)) \<and> i \<notin> set (map ev_id (pr_envs s)) \<and> i \<notin> set (map ev_project (pr_envs s))
     \<and> Some i \<notin> set (map sl_project (pr_sites s)))"

definition drawn :: "proj_call \<Rightarrow> string list" where
  "drawn q = (case GenerateID (pe_rand (fst q) 0) of None \<Rightarrow> [] | Some i \<Rightarrow> [i])"

definition proj_pre :: "Projects \<Rightarrow> proj_call list \<Rightarrow> bool" where
  "proj_pre s qs = (distinct (map pj_id (pr_projects s)) \<and> distinct (concat (map drawn qs)) \<and> list_all (\<lambda>i. id_unused i s) (concat (map drawn qs)))"

lemma own_simps [simp]:
  "own_projects g (s\<lparr> pr_envs := V \<rparr>) = own_projects g s" "own_ids g (s\<lparr> pr_envs := V \<rparr>) = own_ids g s"
  "attached i (s\<lparr> pr_envs := V \<rparr>) = attached i s" "attached i (s\<lparr> pr_projects := P \<rparr>) = attached i s"
  by (simp_all add: own_projects_def own_ids_def attached_def)

lemma find_own_project: "find (\<lambda>p. pj_id p = i \<and> pj_org p = g) (pr_projects s) = find (\<lambda>p. pj_id p = i) (own_projects (Some g) s)"
proof -
  have "find (\<lambda>p. pj_id p = i \<and> pj_org p = g) ps = find (\<lambda>p. pj_id p = i) (filter (\<lambda>p. Some (pj_org p) = Some g) ps)" for ps
    by (induction ps) auto
  then show ?thesis by (simp add: own_projects_def)
qed

lemma getProject_same: "proj_same (Some g) s t \<Longrightarrow> getProject m i g s = getProject m i g t"
  unfolding getProject_def find_own_project proj_same_def by (simp split: sum.splits)

lemma joined_own: "joined g s v \<longleftrightarrow> ev_project v \<in> set (own_ids (Some g) s)"
  unfolding joined_def own_ids_def own_projects_def list_ex_iff by force

lemma own_ids_same: "proj_same g s t \<Longrightarrow> own_ids g s = own_ids g t"
  by (simp add: own_ids_def proj_same_def)

lemma find_filter_and: "find (\<lambda>v. Q v \<and> P v) xs = find Q (filter P xs)"
  by (induction xs) auto

lemma getEnvironment_own: "getEnvironment m i pid g s = (case db_fail ''get environment'' m of
     Inl err \<Rightarrow> Inl err
   | Inr _ \<Rightarrow> (case find (\<lambda>v. ev_id v = i \<and> ev_project v = pid) (own_envs (Some g) s) of
       None \<Rightarrow> Inl ErrEnvironmentNotFound | Some v \<Rightarrow> Inr v))"
proof -
  have "find (\<lambda>v. ev_id v = i \<and> ev_project v = pid \<and> joined g s v) (pr_envs s)
      = find (\<lambda>v. ev_id v = i \<and> ev_project v = pid) (filter (joined g s) (pr_envs s))"
    unfolding conj_assoc [symmetric] by (rule find_filter_and)
  moreover have "filter (joined g s) (pr_envs s) = own_envs (Some g) s"
    unfolding own_envs_def by (rule filter_cong) (simp_all add: joined_own)
  ultimately show ?thesis unfolding getEnvironment_def by (simp only:)
qed

lemma getProjectD: "getProject m i g s = Inr p \<Longrightarrow> p \<in> set (pr_projects s) \<and> pj_id p = i \<and> pj_org p = g"
  by (auto simp: getProject_def split: sum.splits option.splits dest!: find_SomeD)

lemma getProject_own: "getProject m i g s = Inr p \<Longrightarrow> i \<in> set (own_ids (Some g) s)"
  using getProjectD [of m i g s p] by (auto simp: own_ids_def own_projects_def)

section \<open>The four changes\<close>

definition add_project :: "Project \<Rightarrow> Projects \<Rightarrow> Projects" where
  "add_project p s = s\<lparr> pr_projects := pr_projects s @ [p] \<rparr>"

definition add_env :: "Environment \<Rightarrow> Projects \<Rightarrow> Projects" where
  "add_env v s = s\<lparr> pr_envs := pr_envs s @ [v] \<rparr>"

definition rename :: "string \<Rightarrow> string \<Rightarrow> string \<Rightarrow> int \<Rightarrow> Projects \<Rightarrow> Projects" where
  "rename nm now i g s = s\<lparr> pr_projects := map (rename_project nm now i g) (pr_projects s) \<rparr>"

definition drop_project :: "string \<Rightarrow> int \<Rightarrow> Projects \<Rightarrow> Projects" where
  "drop_project i g s = s\<lparr> pr_projects := filter (\<lambda>p. \<not> (pj_id p = i \<and> pj_org p = g)) (pr_projects s),
     pr_envs := (if pr_cascade s then filter (\<lambda>v. ev_project v \<noteq> i) (pr_envs s) else pr_envs s) \<rparr>"

lemmas change_defs = add_project_def add_env_def rename_def drop_project_def

lemma own_add_project: "id_unused (pj_id p) s \<Longrightarrow>
    own_projects g (add_project p s) = own_projects g s @ (if Some (pj_org p) = g then [p] else []) \<and> own_envs g (add_project p s) = own_envs g s"
proof -
  assume u: "id_unused (pj_id p) s"
  have P: "own_projects g (add_project p s) = own_projects g s @ (if Some (pj_org p) = g then [p] else [])"
    by (simp add: own_projects_def add_project_def)
  have "(ev_project v \<in> set (own_ids g (add_project p s))) = (ev_project v \<in> set (own_ids g s))" if "v \<in> set (pr_envs s)" for v
  proof -
    have "ev_project v \<noteq> pj_id p" using u that unfolding id_unused_def by force
    then show ?thesis unfolding own_ids_def P by auto
  qed
  then have "own_envs g (add_project p s) = own_envs g s"
    unfolding own_envs_def by (intro filter_cong) (simp_all add: add_project_def)
  with P show ?thesis by blast
qed

lemma rename_project_simps [simp]: "pj_org (rename_project nm now i g p) = pj_org p" "pj_id (rename_project nm now i g p) = pj_id p"
  by (simp_all add: rename_project_def)

lemma own_rename: "own_projects h (rename nm now i g s) = map (rename_project nm now i g) (own_projects h s) \<and> own_ids h (rename nm now i g s) = own_ids h s
    \<and> own_envs h (rename nm now i g s) = own_envs h s"
proof -
  have "own_projects h (rename nm now i g s) = map (rename_project nm now i g) (own_projects h s)"
    by (simp add: own_projects_def rename_def filter_map o_def)
  moreover from this have "own_ids h (rename nm now i g s) = own_ids h s" by (simp add: own_ids_def o_def)
  ultimately show ?thesis by (simp add: own_envs_def) (simp add: rename_def)
qed

lemma rename_other: "Some g \<noteq> h \<Longrightarrow> map (rename_project nm now i g) (own_projects h s) = own_projects h s"
  by (rule map_idI) (auto simp: own_projects_def rename_project_def)

lemma own_drop:
  assumes d: "distinct (map pj_id (pr_projects s))" and p: "p \<in> set (pr_projects s)" "pj_id p = i" "pj_org p = g"
  shows "own_projects h (drop_project i g s) = filter (\<lambda>p. pj_id p \<noteq> i) (own_projects h s) \<and>
    own_ids h (drop_project i g s) = filter (\<lambda>j. j \<noteq> i) (own_ids h s) \<and> own_envs h (drop_project i g s) = filter (\<lambda>v. ev_project v \<noteq> i) (own_envs h s)"
proof -
  have u: "(pj_id x = i \<and> pj_org x = g) = (pj_id x = i)" if "x \<in> set (pr_projects s)" for x
    using d p that by (metis (no_types, lifting) distinct_map inj_onD)
  have P: "own_projects h (drop_project i g s) = filter (\<lambda>p. pj_id p \<noteq> i) (own_projects h s)"
    using u by (auto simp: own_projects_def drop_project_def intro!: filter_cong)
  then have I: "own_ids h (drop_project i g s) = filter (\<lambda>j. j \<noteq> i) (own_ids h s)"
    by (simp add: own_ids_def filter_map o_def)
  then have "own_envs h (drop_project i g s) = filter (\<lambda>v. ev_project v \<noteq> i) (own_envs h s)"
    by (auto simp: own_envs_def) (auto simp: drop_project_def intro!: filter_cong)
  with P I show ?thesis by blast
qed

lemma own_add_env: "own_projects h (add_env v s) = own_projects h s \<and> own_ids h (add_env v s) = own_ids h s \<and>
    own_envs h (add_env v s) = own_envs h s @ (if ev_project v \<in> set (own_ids h s) then [v] else [])"
  by (simp add: own_envs_def add_env_def)

lemma attached_change [simp]: "attached j (add_project p s) = attached j s" "attached j (add_env v s) = attached j s"
  "attached j (rename nm now i g s) = attached j s" "attached j (drop_project i g s) = attached j s"
  by (simp_all add: change_defs attached_def)

lemma const_change [simp]: "pr_cascade (add_project p s) = pr_cascade s" "pr_cascade (add_env v s) = pr_cascade s"
  "pr_cascade (rename nm now i g s) = pr_cascade s" "pr_cascade (drop_project i g s) = pr_cascade s"
  "pr_unique (add_project p s) = pr_unique s" "pr_unique (add_env v s) = pr_unique s"
  "pr_unique (rename nm now i g s) = pr_unique s" "pr_unique (drop_project i g s) = pr_unique s"
  by (simp_all add: change_defs)

lemma unused_attached: "id_unused i s \<Longrightarrow> attached i s = 0"
  unfolding id_unused_def attached_def by (force simp: filter_empty_conv)

section \<open>Every request makes one change\<close>

datatype change = Keep | AddProject Project | AddEnv Environment | Rename string string string int | Drop string int

fun apply_change :: "change \<Rightarrow> Projects \<Rightarrow> Projects" where
  "apply_change Keep s = s"
| "apply_change (AddProject p) s = add_project p s"
| "apply_change (AddEnv v) s = add_env v s"
| "apply_change (Rename nm now i g) s = rename nm now i g s"
| "apply_change (Drop i g) s = drop_project i g s"

text \<open>A change is within an organization: its project, an environment of its project, fresh identifiers.\<close>

fun change_ok :: "int option \<Rightarrow> string list \<Rightarrow> Projects \<Rightarrow> change \<Rightarrow> bool" where
  "change_ok g ids s Keep = True"
| "change_ok g ids s (AddProject p) = (Some (pj_org p) = g \<and> pj_id p \<in> set ids)"
| "change_ok g ids s (AddEnv v) = (ev_project v \<in> set (own_ids g s) \<and> ev_id v \<in> set ids)"
| "change_ok g ids s (Rename nm now i h) = (Some h = g)"
| "change_ok g ids s (Drop i h) = (Some h = g \<and> (\<exists>p \<in> set (pr_projects s). pj_id p = i \<and> pj_org p = h))"

definition change_of :: "proj_call \<Rightarrow> Projects \<Rightarrow> change \<times> proj_resp \<Rightarrow> bool" where
  "change_of q s ca = (projects_step s q = (apply_change (fst ca) s, snd ca) \<and> change_ok (proj_org q) (drawn q) s (fst ca))"

lemma own_ids_unique:
  assumes "distinct (map pj_id (pr_projects s))" "i \<in> set (own_ids g s)" "i \<in> set (own_ids h s)"
  shows "g = h"
proof -
  obtain p p' where p: "p \<in> set (pr_projects s)" "pj_id p = i" "Some (pj_org p) = g" "p' \<in> set (pr_projects s)" "pj_id p' = i" "Some (pj_org p') = h"
    using assms(2,3) by (auto simp: own_ids_def own_projects_def)
  then have "p = p'" using assms(1) by (metis distinct_map inj_onD)
  with p show ?thesis by simp
qed

text \<open>Local respect of a change.\<close>

lemma change_local:
  assumes d: "distinct (map pj_id (pr_projects s))" and u: "\<forall>i \<in> set ids. id_unused i s"
    and c: "change_ok g ids s c" and gh: "g \<noteq> h" and same: "proj_same h s t"
  shows "proj_same h (apply_change c s) t"
proof (cases c)
  case (AddProject p)
  then show ?thesis using own_add_project [of p s h] u c gh same by (auto simp: proj_same_def own_ids_def)
next
  case (AddEnv v)
  then have "ev_project v \<notin> set (own_ids h s)" using own_ids_unique [OF d] c gh by auto
  then show ?thesis using AddEnv own_add_env [of h v s] same by (simp add: proj_same_def)
next
  case (Rename nm now i k)
  then have "Some k \<noteq> h" using c gh by auto
  then show ?thesis using Rename own_rename [of h nm now i k s] rename_other [of k h] same by (simp add: proj_same_def)
next
  case (Drop i k)
  then obtain p where p: "p \<in> set (pr_projects s)" "pj_id p = i" "pj_org p = k" "Some k = g" using c by auto
  have n: "i \<notin> set (own_ids h s)"
  proof
    assume "i \<in> set (own_ids h s)"
    moreover have "i \<in> set (own_ids g s)" using p by (auto simp: own_ids_def own_projects_def)
    ultimately show False using own_ids_unique [OF d] gh by blast
  qed
  have "filter (\<lambda>p. pj_id p \<noteq> i) (own_projects h s) = own_projects h s" using n by (auto simp: own_ids_def filter_id_conv)
  moreover have "filter (\<lambda>j. j \<noteq> i) (own_ids h s) = own_ids h s" using n by (auto simp: filter_id_conv)
  moreover have "filter (\<lambda>v. ev_project v \<noteq> i) (own_envs h s) = own_envs h s" using n unfolding filter_id_conv own_envs_def by auto
  ultimately show ?thesis using Drop own_drop [OF d p(1-3), of h] same by (simp add: proj_same_def)
qed (use same in simp)

text \<open>The same change of two stores that look alike.\<close>

lemma change_same:
  assumes d: "distinct (map pj_id (pr_projects s))" "distinct (map pj_id (pr_projects t))"
    and u: "\<forall>i \<in> set ids. id_unused i s" "\<forall>i \<in> set ids. id_unused i t"
    and c: "change_ok g ids s c" "change_ok g ids t c" and same: "proj_same g s t"
  shows "proj_same g (apply_change c s) (apply_change c t)"
proof (cases c)
  case (AddProject p)
  then show ?thesis using own_add_project [of p s g] own_add_project [of p t g] u c same unused_attached [of "pj_id p"]
    by (auto simp: proj_same_def own_ids_def list_all_iff)
next
  case (AddEnv v)
  then show ?thesis using own_add_env [of g v s] own_add_env [of g v t] own_ids_same [OF same] same by (simp add: proj_same_def)
next
  case (Rename nm now i k)
  then show ?thesis using own_rename [of g nm now i k s] own_rename [of g nm now i k t] same by (simp add: proj_same_def)
next
  case (Drop i k)
  then obtain p p' where p: "p \<in> set (pr_projects s)" "pj_id p = i" "pj_org p = k" "p' \<in> set (pr_projects t)" "pj_id p' = i" "pj_org p' = k" using c by auto
  show ?thesis using Drop own_drop [OF d(1) p(1-3), of g] own_drop [OF d(2) p(4-6), of g] own_ids_same [OF same] same
    by (auto simp: proj_same_def list_all_iff)
qed (use same in simp)

section \<open>The change of each operation\<close>

lemma notin_map: "x \<notin> set (map f ys) \<longleftrightarrow> (\<forall>y \<in> set ys. f y \<noteq> x)"
  by auto

lemma list_ex_fresh: "\<forall>q \<in> set xs. \<not> A q \<Longrightarrow> \<forall>q \<in> set xs. B q \<longrightarrow> D q \<Longrightarrow> list_ex (\<lambda>q. A q \<or> B q \<and> C q) xs = list_ex (\<lambda>q. B q \<and> C q) (filter D xs)"
  by (induction xs) auto

lemma list_ex_cong: "\<forall>q \<in> set xs. P q = Q q \<Longrightarrow> list_ex P xs = list_ex Q xs"
  by (induction xs) auto

lemma insert_project_own: "id_unused (pj_id p) s \<Longrightarrow> insert_project m what p s = (case db_fail what m of
     Inl err \<Rightarrow> Inl err
   | Inr _ \<Rightarrow> if list_ex (\<lambda>q. pj_name q = pj_name p) (own_projects (Some (pj_org p)) s) then Inl (Message (what @ '': '' @ pr_unique s))
             else Inr (add_project p s))"
proof -
  assume "id_unused (pj_id p) s"
  then have n: "\<forall>q \<in> set (pr_projects s). \<not> pj_id q = pj_id p" unfolding id_unused_def notin_map by blast
  have eq: "list_ex (\<lambda>q. pj_id q = pj_id p \<or> pj_org q = pj_org p \<and> pj_name q = pj_name p) (pr_projects s)
      = list_ex (\<lambda>q. pj_name q = pj_name p) (own_projects (Some (pj_org p)) s)"
    unfolding own_projects_def
    by (rule trans [OF list_ex_fresh [OF n, where D = "\<lambda>q. Some (pj_org q) = Some (pj_org p)"] list_ex_cong]) auto
  show ?thesis unfolding insert_project_def eq add_project_def by (rule refl)
qed

lemma insert_environment_own: "id_unused (ev_id v) s \<Longrightarrow> ev_project v \<in> set (own_ids g s) \<Longrightarrow> insert_environment m what v s = (case db_fail what m of
     Inl err \<Rightarrow> Inl err
   | Inr _ \<Rightarrow> if list_ex (\<lambda>w. ev_project w = ev_project v \<and> ev_slug w = ev_slug v) (own_envs g s) then Inl (Message (what @ '': '' @ pr_unique s))
             else Inr (add_env v s))"
proof -
  assume u: "id_unused (ev_id v) s" and g: "ev_project v \<in> set (own_ids g s)"
  have n: "\<forall>w \<in> set (pr_envs s). \<not> ev_id w = ev_id v" using u unfolding id_unused_def notin_map by blast
  have eq: "list_ex (\<lambda>w. ev_id w = ev_id v \<or> ev_project w = ev_project v \<and> ev_slug w = ev_slug v) (pr_envs s)
      = list_ex (\<lambda>w. ev_project w = ev_project v \<and> ev_slug w = ev_slug v) (own_envs g s)"
    unfolding own_envs_def by (rule list_ex_fresh [OF n]) (use g in simp)
  show ?thesis unfolding insert_environment_def eq add_env_def by (rule refl)
qed

text \<open>Two stores that look alike to the caller and in which its fresh identifier is unused.\<close>

definition alike :: "proj_env \<Rightarrow> Projects \<Rightarrow> Projects \<Rightarrow> bool" where
  "alike e s t = (proj_same (pe_org e) s t \<and> distinct (map pj_id (pr_projects s)) \<and> distinct (map pj_id (pr_projects t))
     \<and> (\<forall>i. GenerateID (pe_rand e 0) = Some i \<longrightarrow> id_unused i s \<and> id_unused i t))"

definition ids_of :: "proj_env \<Rightarrow> string list" where
  "ids_of e = (case GenerateID (pe_rand e 0) of None \<Rightarrow> [] | Some i \<Rightarrow> [i])"

definition same_change :: "proj_env \<Rightarrow> Projects \<Rightarrow> Projects \<Rightarrow> (Projects \<Rightarrow> Projects \<times> 'a) \<Rightarrow> bool" where
  "same_change e s t f = (\<exists>c a. f s = (apply_change c s, a) \<and> f t = (apply_change c t, a) \<and> change_ok (pe_org e) (ids_of e) s c \<and> change_ok (pe_org e) (ids_of e) t c)"

lemma keeps_change:
  assumes "\<exists>a. f s = (s, a) \<and> f t = (t, a)"
  shows "same_change e s t f"
proof -
  from assms obtain a where "f s = (s, a)" "f t = (t, a)" by blast
  then show ?thesis unfolding same_change_def by (intro exI [of _ Keep] exI [of _ a]) simp
qed

lemma alike_change:
  assumes "alike e s t" "change_ok (pe_org e) (ids_of e) s c" "change_ok (pe_org e) (ids_of e) t c"
  shows "proj_same (pe_org e) (apply_change c s) (apply_change c t)"
  using assms change_same [of s t "ids_of e" "pe_org e" c] by (auto simp: alike_def ids_of_def split: option.splits)

lemma alike_org: "alike e s t \<Longrightarrow> orgIDFromContext e = Inr g \<Longrightarrow> proj_same (Some g) s t \<and> pe_org e = Some g"
  by (auto simp: alike_def orgIDFromContext_def split: option.splits if_splits)

lemma CreateProject_change: "alike e s t \<Longrightarrow> same_change e s t (CreateProject e name)"
proof -
  assume a: "alike e s t"
  show ?thesis
  proof (cases "\<exists>g nm i. orgIDFromContext e = Inr g \<and> validateName name ''name'' = Inr nm \<and> GenerateID (pe_rand e 0) = Some i")
    case False
    then have "\<exists>r. CreateProject e name s = (s, r) \<and> CreateProject e name t = (t, r)"
      by (auto simp: CreateProject_def split: sum.splits option.splits)
    then show ?thesis by (rule keeps_change)
  next
    case True
    then obtain g nm i where k: "orgIDFromContext e = Inr g" "validateName name ''name'' = Inr nm" "GenerateID (pe_rand e 0) = Some i" by blast
    note sg = alike_org [OF a k(1)]
    define p where "p = \<lparr> pj_id = i, pj_org = g, pj_name = nm, pj_created = pe_now e, pj_updated = pe_now e \<rparr>"
    have u: "id_unused (pj_id p) s" "id_unused (pj_id p) t" using a k(3) by (simp_all add: alike_def p_def)
    have ok: "change_ok (pe_org e) (ids_of e) x (AddProject p)" for x using sg k(3) by (simp add: p_def ids_of_def)
    have same: "own_projects (Some (pj_org p)) s = own_projects (Some (pj_org p)) t" "pr_unique s = pr_unique t"
      using sg by (simp_all add: proj_same_def p_def)
    note ins = insert_project_own [OF u(1), of "pe_db e 0" "''create project''"] insert_project_own [OF u(2), of "pe_db e 0" "''create project''"]
    show ?thesis
    proof (cases "insert_project (pe_db e 0) ''create project'' p t")
      case (Inl err)
      then have "insert_project (pe_db e 0) ''create project'' p s = Inl err" using ins same by (auto split: sum.splits if_splits)
      then show ?thesis using Inl k by (intro keeps_change exI [of _ "Inl err"]) (simp add: CreateProject_def p_def)
    next
      case (Inr t')
      then have i: "insert_project (pe_db e 0) ''create project'' p s = Inr (add_project p s)"
        "insert_project (pe_db e 0) ''create project'' p t = Inr (add_project p t)" using ins same by (auto split: sum.splits if_splits)
      have "proj_same (Some g) (add_project p s) (add_project p t)" using alike_change [OF a ok ok] sg by simp
      from getProject_same [OF this, of "pe_db e 1" i] i k
      show ?thesis unfolding same_change_def using ok
        by (intro exI [of _ "AddProject p"] exI [of _ "getProject (pe_db e 1) i g (add_project p t)"]) (simp add: CreateProject_def p_def)
    qed
  qed
qed

lemma UpdateProject_change: "alike e s t \<Longrightarrow> same_change e s t (UpdateProject e i name)"
proof -
  assume a: "alike e s t"
  show ?thesis
  proof (cases "\<exists>g nm. orgIDFromContext e = Inr g \<and> validateName name ''name'' = Inr nm")
    case False
    then have "\<exists>r. UpdateProject e i name s = (s, r) \<and> UpdateProject e i name t = (t, r)"
      by (auto simp: UpdateProject_def split: sum.splits)
    then show ?thesis by (rule keeps_change)
  next
    case True
    then obtain g nm where k: "orgIDFromContext e = Inr g" "validateName name ''name'' = Inr nm" by blast
    note sg = alike_org [OF a k(1)]
    have ex: "list_ex (\<lambda>p. pj_id p = i \<and> pj_org p = g) (pr_projects x) = list_ex (\<lambda>p. pj_id p = i) (own_projects (Some g) x)"
      "list_ex (\<lambda>p. pj_id p \<noteq> i \<and> pj_org p = g \<and> pj_name p = nm) (pr_projects x) = list_ex (\<lambda>p. pj_id p \<noteq> i \<and> pj_name p = nm) (own_projects (Some g) x)" for x
      by (auto simp: list_ex_iff own_projects_def)
    have same: "own_projects (Some g) s = own_projects (Some g) t" "pr_unique s = pr_unique t" using sg by (simp_all add: proj_same_def)
    have ok: "change_ok (pe_org e) (ids_of e) x (Rename nm (pe_now e) i g)" for x using sg by simp
    have "proj_same (Some g) (rename nm (pe_now e) i g s) (rename nm (pe_now e) i g t)" using alike_change [OF a ok ok] sg by simp
    note gp = getProject_same [OF this, of "pe_db e 1" i]
    show ?thesis
    proof (cases "db_fail ''update project'' (pe_db e 0) = Inr () \<and> list_ex (\<lambda>p. pj_id p = i) (own_projects (Some g) t)
        \<and> \<not> list_ex (\<lambda>p. pj_id p \<noteq> i \<and> pj_name p = nm) (own_projects (Some g) t)")
      case True
      then show ?thesis unfolding same_change_def using ok k gp same
        by (intro exI [of _ "Rename nm (pe_now e) i g"] exI [of _ "getProject (pe_db e 1) i g (rename nm (pe_now e) i g t)"])
          (simp add: UpdateProject_def ex rename_def Let_def)
    next
      case False
      then have "\<exists>r. UpdateProject e i name s = (s, r) \<and> UpdateProject e i name t = (t, r)"
        using k same by (auto simp: UpdateProject_def ex split: sum.splits)
      then show ?thesis by (rule keeps_change)
    qed
  qed
qed

lemma DeleteProject_change: "alike e s t \<Longrightarrow> same_change e s t (DeleteProject e i)"
proof -
  assume a: "alike e s t"
  show ?thesis
  proof (cases "\<exists>g p. orgIDFromContext e = Inr g \<and> getProject (pe_db e 0) i g s = Inr p")
    case False
    have "\<exists>r. DeleteProject e i s = (s, r) \<and> DeleteProject e i t = (t, r)"
    proof (cases "orgIDFromContext e")
      case (Inr g)
      then obtain err where "getProject (pe_db e 0) i g s = Inl err" using False by (cases "getProject (pe_db e 0) i g s") auto
      then show ?thesis using Inr getProject_same [OF conjunct1 [OF alike_org [OF a Inr]], of "pe_db e 0" i] by (simp add: DeleteProject_def)
    qed (simp add: DeleteProject_def)
    then show ?thesis by (rule keeps_change)
  next
    case True
    then obtain g p where k: "orgIDFromContext e = Inr g" "getProject (pe_db e 0) i g s = Inr p" by blast
    note sg = alike_org [OF a k(1)]
    have kt: "getProject (pe_db e 0) i g t = Inr p" using k(2) getProject_same [OF conjunct1 [OF sg]] by simp
    have "attached i s = attached i t" using sg getProject_own [OF k(2)] by (simp add: proj_same_def list_all_iff)
    then have ca: "count_attached (pe_db e 1) i s = count_attached (pe_db e 1) i t" by (simp add: count_attached_def split: option.splits)
    have ok: "change_ok (pe_org e) (ids_of e) s (Drop i g)" "change_ok (pe_org e) (ids_of e) t (Drop i g)"
      using sg getProjectD [OF k(2)] getProjectD [OF kt] by auto
    show ?thesis
    proof (cases "count_attached (pe_db e 1) i t = Inr 0 \<and> db_fail ''delete project'' (pe_db e 2) = Inr ()")
      case True
      then show ?thesis unfolding same_change_def using ok k kt ca
        by (intro exI [of _ "Drop i g"] exI [of _ "Inr ()"]) (simp add: DeleteProject_def drop_project_def)
    next
      case False
      then have "\<exists>r. DeleteProject e i s = (s, r) \<and> DeleteProject e i t = (t, r)"
        using k kt ca by (auto simp: DeleteProject_def split: sum.splits)
      then show ?thesis by (rule keeps_change)
    qed
  qed
qed

lemma CreateEnvironment_change: "alike e s t \<Longrightarrow> same_change e s t (CreateEnvironment e pid slug name)"
proof -
  assume a: "alike e s t"
  show ?thesis
  proof (cases "\<exists>g pj sl nm i. orgIDFromContext e = Inr g \<and> getProject (pe_db e 0) pid g s = Inr pj \<and> validateSlug slug = Inr sl
      \<and> validateName name ''name'' = Inr nm \<and> GenerateID (pe_rand e 0) = Some i")
    case False
    have "\<exists>r. CreateEnvironment e pid slug name s = (s, r) \<and> CreateEnvironment e pid slug name t = (t, r)"
    proof (cases "orgIDFromContext e")
      case (Inr g)
      note gp = getProject_same [OF conjunct1 [OF alike_org [OF a Inr]], of "pe_db e 0" pid]
      show ?thesis
      proof (cases "getProject (pe_db e 0) pid g s")
        case (Inl err)
        then show ?thesis using Inr gp by (simp add: CreateEnvironment_def)
      next
        case pj: (Inr pj)
        then show ?thesis using Inr gp False by (cases "validateSlug slug"; cases "validateName name ''name''"; cases "GenerateID (pe_rand e 0)")
          (simp_all add: CreateEnvironment_def)
      qed
    qed (simp add: CreateEnvironment_def)
    then show ?thesis by (rule keeps_change)
  next
    case True
    then obtain g pj sl nm i where k: "orgIDFromContext e = Inr g" "getProject (pe_db e 0) pid g s = Inr pj" "validateSlug slug = Inr sl"
      "validateName name ''name'' = Inr nm" "GenerateID (pe_rand e 0) = Some i" by blast
    note sg = alike_org [OF a k(1)]
    have kt: "getProject (pe_db e 0) pid g t = Inr pj" using k(2) getProject_same [OF conjunct1 [OF sg]] by simp
    define v where "v = \<lparr> ev_id = i, ev_project = pid, ev_slug = sl, ev_name = nm, ev_created = pe_now e, ev_updated = pe_now e \<rparr>"
    have u: "id_unused (ev_id v) s" "id_unused (ev_id v) t" using a k(5) by (simp_all add: alike_def v_def)
    have own: "ev_project v \<in> set (own_ids (Some g) s)" "ev_project v \<in> set (own_ids (Some g) t)"
      using getProject_own [OF k(2)] getProject_own [OF kt] by (simp_all add: v_def)
    have ok: "change_ok (pe_org e) (ids_of e) s (AddEnv v)" "change_ok (pe_org e) (ids_of e) t (AddEnv v)"
      using sg own k(5) by (simp_all add: ids_of_def v_def)
    have same: "own_envs (Some g) s = own_envs (Some g) t" "pr_unique s = pr_unique t" using sg by (simp_all add: proj_same_def)
    note ins = insert_environment_own [OF u(1) own(1), of "pe_db e 1" "''create environment''"]
      insert_environment_own [OF u(2) own(2), of "pe_db e 1" "''create environment''"]
    show ?thesis
    proof (cases "insert_environment (pe_db e 1) ''create environment'' v t")
      case (Inl err)
      then have "insert_environment (pe_db e 1) ''create environment'' v s = Inl err" using ins same by (auto split: sum.splits if_splits)
      then show ?thesis using Inl k kt by (intro keeps_change exI [of _ "Inl err"]) (simp add: CreateEnvironment_def v_def)
    next
      case (Inr t')
      then have i: "insert_environment (pe_db e 1) ''create environment'' v s = Inr (add_env v s)"
        "insert_environment (pe_db e 1) ''create environment'' v t = Inr (add_env v t)" using ins same by (auto split: sum.splits if_splits)
      have "proj_same (Some g) (add_env v s) (add_env v t)" using alike_change [OF a ok] sg by simp
      then have "getEnvironment (pe_db e 2) i pid g (add_env v s) = getEnvironment (pe_db e 2) i pid g (add_env v t)"
        by (simp add: getEnvironment_own proj_same_def split: sum.splits)
      then show ?thesis unfolding same_change_def using ok i k kt
        by (intro exI [of _ "AddEnv v"] exI [of _ "getEnvironment (pe_db e 2) i pid g (add_env v t)"]) (simp add: CreateEnvironment_def v_def)
    qed
  qed
qed

lemma reading_same:
  assumes a: "alike e s t"
  shows "ListProjects e s = ListProjects e t" "GetProject e i s = GetProject e i t" "ListEnvironments e pid s = ListEnvironments e pid t"
proof -
  have own: "filter (\<lambda>p. pj_org p = g) (pr_projects x) = own_projects (Some g) x" for g x by (simp add: own_projects_def)
  have envs: "filter (\<lambda>v. ev_project v = pid \<and> joined g x v) (pr_envs x) = filter (\<lambda>v. ev_project v = pid) (own_envs (Some g) x)" for g x
    by (auto simp: own_envs_def joined_own intro!: filter_cong)
  have "ListProjects e s = ListProjects e t \<and> GetProject e i s = GetProject e i t \<and> ListEnvironments e pid s = ListEnvironments e pid t"
  proof (cases "orgIDFromContext e")
    case (Inr g)
    note sg = conjunct1 [OF alike_org [OF a Inr]]
    have o: "own_projects (Some g) s = own_projects (Some g) t" "own_envs (Some g) s = own_envs (Some g) t" using sg by (simp_all add: proj_same_def)
    have "ListProjects e s = ListProjects e t" using Inr o by (simp add: ListProjects_def own split: sum.splits)
    moreover have "GetProject e i s = GetProject e i t" using Inr getProject_same [OF sg] by (simp add: GetProject_def)
    moreover have "ListEnvironments e pid s = ListEnvironments e pid t"
      using Inr getProject_same [OF sg] o by (simp add: ListEnvironments_def envs split: sum.splits)
    ultimately show ?thesis by blast
  qed (simp add: ListProjects_def GetProject_def ListEnvironments_def)
  then show "ListProjects e s = ListProjects e t" "GetProject e i s = GetProject e i t" "ListEnvironments e pid s = ListEnvironments e pid t"
    by blast+
qed

lemma same_change_map: "same_change e s t f \<Longrightarrow> same_change e s t (\<lambda>x. apsnd h (f x))"
  unfolding same_change_def by (elim exE conjE) (intro exI conjI; simp)

lemma same_change_body:
  assumes "\<And>name slug. same_change e s t (\<lambda>x. F x name slug)"
  shows "same_change e s t (\<lambda>x. with_body q (F x) x)"
proof (cases "pq_body q")
  case None
  then show ?thesis by (intro keeps_change) (simp add: with_body_def)
next
  case (Some b)
  then show ?thesis using assms [of "fst b" "snd b"] by (simp add: with_body_def case_prod_beta)
qed

lemma same_change_if: "same_change e s t f \<Longrightarrow> same_change e s t f' \<Longrightarrow> same_change e s t (\<lambda>x. if b then f x else f' x)"
  by (cases b) simp_all

lemma handler_change:
  assumes a: "alike e s t"
  shows "same_change e s t (projects_Handler e q)"
proof -
  note r = reading_same [OF a]
  have K: "same_change e s t (\<lambda>x. (x, F x))" if "F s = F t" for F :: "Projects \<Rightarrow> proj_resp"
    by (rule keeps_change) (simp add: that)
  have projects: "same_change e s t (handleProjects e q)"
    unfolding handleProjects_def
    by (cases "orgIDFromContext e"; cases "pq_method q = ''GET''"; cases "pq_method q = ''POST''")
      (simp_all add: K r same_change_body same_change_map CreateProject_change [OF a])
  have envs: "same_change e s t (handleEnvironments e q pid)" for pid
    unfolding handleEnvironments_def
    by (cases "pq_method q = ''GET''"; cases "pq_method q = ''POST''")
      (simp_all add: K r same_change_body same_change_map CreateEnvironment_change [OF a])
  have byid: "same_change e s t (handleProjectByID e q)"
    unfolding handleProjectByID_def Let_def
    by (intro same_change_if K envs same_change_body same_change_map UpdateProject_change [OF a] DeleteProject_change [OF a])
      (simp_all add: r)
  show ?thesis unfolding projects_Handler_def by (intro same_change_if K projects byid refl)
qed

section \<open>Organizations do not interfere\<close>

lemma proj_preD:
  assumes "proj_pre s (q # qs)" "proj_pre t (q # qs')" "proj_same (proj_org q) s t"
  shows "alike (fst q) s t"
  using assms by (auto simp: alike_def proj_pre_def proj_org_def drawn_def split: option.splits)

lemma drawn_ids: "drawn q = ids_of (fst q)"
  by (simp add: drawn_def ids_of_def)

lemma proj_same_refl: "proj_same g s s"
  by (simp add: proj_same_def list_all_iff)

text \<open>Unused identifiers stay unused, and the keys stay distinct.\<close>

lemma change_pre:
  assumes d: "distinct (map pj_id (pr_projects s))" and c: "change_ok g ids s c" and u: "\<forall>i \<in> set ids. id_unused i s"
  shows "distinct (map pj_id (pr_projects (apply_change c s)))"
    and "id_unused j s \<Longrightarrow> j \<notin> set ids \<Longrightarrow> id_unused j (apply_change c s)"
proof -
  have m: "map pj_id (map (rename_project nm now i h) ps) = map pj_id ps" for nm now i h ps by simp
  show "distinct (map pj_id (pr_projects (apply_change c s)))"
  proof (cases c)
    case (AddProject p)
    then show ?thesis using d c u by (auto simp: add_project_def id_unused_def)
  next
    case (Rename nm now i h)
    then show ?thesis using d m by (simp add: rename_def o_def)
  qed (use d in \<open>simp_all add: add_env_def drop_project_def distinct_map_filter\<close>)
  show "id_unused j (apply_change c s)" if "id_unused j s" "j \<notin> set ids"
  proof (cases c)
    case (AddEnv v)
    have "ev_project v \<noteq> j" using c AddEnv that(1) by (auto simp: own_ids_def own_projects_def id_unused_def)
    then show ?thesis using AddEnv c that by (auto simp: add_env_def id_unused_def)
  next
    case (Drop i h)
    then show ?thesis using that by (auto simp: drop_project_def id_unused_def)
  qed (use c that in \<open>auto simp: add_project_def rename_def id_unused_def\<close>)
qed

lemma step_change:
  assumes p: "proj_pre s (q # qs)" "proj_pre t (q # qs')" and same: "proj_same (proj_org q) s t"
  obtains c a where "projects_step s q = (apply_change c s, a)" "projects_step t q = (apply_change c t, a)"
    "change_ok (proj_org q) (drawn q) s c" "change_ok (proj_org q) (drawn q) t c"
  using handler_change [OF proj_preD [OF p same], of "snd q"]
  unfolding same_change_def projects_step_def proj_org_def drawn_ids by blast

lemma proj_pre_step: "proj_pre s (q # qs) \<Longrightarrow> proj_pre (fst (projects_step s q)) qs"
proof -
  assume p: "proj_pre s (q # qs)"
  from step_change [OF p p proj_same_refl] obtain c a where c: "projects_step s q = (apply_change c s, a)" "change_ok (proj_org q) (drawn q) s c" by metis
  have d: "distinct (map pj_id (pr_projects s))" and u: "\<forall>i \<in> set (drawn q). id_unused i s" using p by (simp_all add: proj_pre_def list_all_iff)
  have "id_unused j (apply_change c s)" if "j \<in> set (concat (map drawn qs))" for j
    using p that by (intro change_pre(2) [OF d c(2) u]) (auto simp: proj_pre_def list_all_iff)
  then show ?thesis using p change_pre(1) [OF d c(2) u] c(1) by (simp add: proj_pre_def list_all_iff)
qed

lemma proj_pre_filter: "proj_pre s qs \<Longrightarrow> proj_pre s (filter P qs)"
proof -
  have "distinct (concat (map drawn qs)) \<Longrightarrow> distinct (concat (map drawn (filter P qs)))"
    by (induction qs) auto
  then show "proj_pre s qs \<Longrightarrow> proj_pre s (filter P qs)" by (auto simp: proj_pre_def list_all_iff)
qed

lemma proj_local_respect:
  assumes p: "proj_pre s (q # qs)" and o: "proj_org q \<noteq> g" and same: "proj_same g s t"
  shows "proj_same g (fst (projects_step s q)) t"
proof -
  from step_change [OF p p proj_same_refl] obtain c a where c: "projects_step s q = (apply_change c s, a)" "change_ok (proj_org q) (drawn q) s c" by metis
  have "distinct (map pj_id (pr_projects s))" "\<forall>i \<in> set (drawn q). id_unused i s" using p by (simp_all add: proj_pre_def list_all_iff)
  from change_local [OF this c(2) o same] c(1) show ?thesis by simp
qed

lemma proj_consistent:
  assumes p: "proj_pre s (q # qs)" "proj_pre t (q # qs')" and o: "proj_org q = g" and same: "proj_same g s t"
  shows "snd (projects_step s q) = snd (projects_step t q) \<and> proj_same g (fst (projects_step s q)) (fst (projects_step t q))"
proof -
  have same': "proj_same (proj_org q) s t" using same o by simp
  from step_change [OF p same'] obtain c a where c: "projects_step s q = (apply_change c s, a)" "projects_step t q = (apply_change c t, a)"
    "change_ok (proj_org q) (drawn q) s c" "change_ok (proj_org q) (drawn q) t c" by metis
  have "distinct (map pj_id (pr_projects s))" "distinct (map pj_id (pr_projects t))"
    "\<forall>i \<in> set (drawn q). id_unused i s" "\<forall>i \<in> set (drawn q). id_unused i t" using p by (simp_all add: proj_pre_def list_all_iff)
  from change_same [OF this c(3,4) same'] c(1,2) o show ?thesis by simp
qed

interpretation project_orgs: org_isolation projects_step proj_org proj_same proj_pre
  by unfold_locales (use proj_same_refl proj_pre_step proj_pre_filter proj_local_respect proj_consistent in blast)+

text \<open>
  C23. Organizations do not interfere in the projects component: in any sequence of requests of all
  organizations, with any database errors, the answers to one organization are those of a server to which
  only it spoke: neither projects nor environments, names, slugs or error messages of others show through.
\<close>

theorem projects_noninterference:
  "proj_pre s qs \<Longrightarrow> filter (\<lambda>p. proj_org (fst p) = g) (responses projects_step s qs)
     = responses projects_step s (filter (\<lambda>q. proj_org q = g) qs)"
  by (rule project_orgs.noninterference)

end
