(* ===== verification/Projects_Sites.thy ===== *)
theory Projects_Sites
  imports Projects_Tenancy
begin

text \<open>
  The provisioning of projects for sites: the boot migration gives every site a project of its organization
  with a production environment, once and for all; and the states in which provisioning fails forever.
\<close>

definition compat_name :: "site_link \<Rightarrow> string" where
  "compat_name l = ''Compatibility - '' @ (if sl_name l = [] then sl_id l else sl_name l) @ '' ('' @ sl_id l @ '')''"

text \<open>A site is provisioned when its project exists in its organization and has a production environment.\<close>

definition provisioned :: "Projects \<Rightarrow> site_link \<Rightarrow> bool" where
  "provisioned s l = (case sl_project l of None \<Rightarrow> False | Some pid \<Rightarrow>
     list_ex (\<lambda>p. pj_id p = pid \<and> pj_org p = sl_org l) (pr_projects s) \<and> list_ex (\<lambda>v. ev_project v = pid \<and> ev_slug v = ''production'') (pr_envs s))"

definition name_free :: "Projects \<Rightarrow> site_link \<Rightarrow> bool" where
  "name_free s l = list_all (\<lambda>p. \<not> (pj_org p = sl_org l \<and> pj_name p = compat_name l)) (pr_projects s)"

text \<open>Sites of the database: distinct identifiers of 32 bytes.\<close>

definition sites_wf :: "Projects \<Rightarrow> bool" where
  "sites_wf s = (distinct (map sl_id (pr_sites s)) \<and> list_all (\<lambda>l. length (sl_id l) = 32) (pr_sites s))"

definition healthy :: "proj_env \<Rightarrow> (nat \<Rightarrow> string) \<Rightarrow> bool" where
  "healthy e ident = ((\<forall>n. pe_db e n = None) \<and> (\<forall>n. GenerateID (pe_rand e n) = Some (ident n)) \<and> inj ident)"

lemma compat_name_inj: "length (sl_id l) = 32 \<Longrightarrow> length (sl_id l') = 32 \<Longrightarrow> compat_name l = compat_name l' \<Longrightarrow> sl_id l = sl_id l'"
proof -
  assume len: "length (sl_id l) = 32" "length (sl_id l') = 32" and "compat_name l = compat_name l'"
  then obtain a b where "a @ sl_id l @ '')'' = b @ sl_id l' @ '')''" unfolding compat_name_def append_assoc [symmetric] by blast
  then have "a @ sl_id l = b @ sl_id l'" by (simp add: append_assoc [symmetric] del: append_assoc)
  then show ?thesis using len by simp
qed

definition provision :: "string \<Rightarrow> string \<Rightarrow> string \<Rightarrow> site_link \<Rightarrow> Projects \<Rightarrow> Projects" where
  "provision pid vid now l s = s\<lparr> pr_projects := pr_projects s @ [\<lparr> pj_id = pid, pj_org = sl_org l, pj_name = compat_name l, pj_created = now, pj_updated = now \<rparr>],
     pr_envs := pr_envs s @ [\<lparr> ev_id = vid, ev_project = pid, ev_slug = ''production'', ev_name = ''Production'', ev_created = now, ev_updated = now \<rparr>],
     pr_sites := map (attach_site (sl_id l) pid) (pr_sites s) \<rparr>"

lemma ensure_provisions:
  assumes w: "sites_wf s" and l: "l \<in> set (pr_sites s)" "sl_project l = None" and h: "healthy e ident" and n: "name_free s l"
    and u: "id_unused (ident (2 * k)) s" "id_unused (ident (2 * k + 1)) s"
  shows "ensureSiteProject e k (sl_id l) (sl_name l) (sl_org l) True s = (provision (ident (2 * k)) (ident (2 * k + 1)) (pe_now e) l s, Inr (ident (2 * k)))"
proof -
  have db: "pe_db e m = None" "GenerateID (pe_rand e m) = Some (ident m)" for m using h by (simp_all add: healthy_def)
  have "find (\<lambda>x. sl_id x = sl_id l) (pr_sites s) = Some l" using w l find_by_key [of sl_id "pr_sites s" l] by (simp add: sites_wf_def)
  then have sp: "site_project None (sl_id l) s = None" using l by (simp add: site_project_def)
  have ne: "sl_id l \<noteq> []" using w l(1) by (auto simp: sites_wf_def list_all_iff)
  let ?p = "\<lparr> pj_id = ident (2 * k), pj_org = sl_org l, pj_name = compat_name l, pj_created = pe_now e, pj_updated = pe_now e \<rparr>"
  let ?v = "\<lparr> ev_id = ident (2 * k + 1), ev_project = ident (2 * k), ev_slug = ''production'', ev_name = ''Production'', ev_created = pe_now e, ev_updated = pe_now e \<rparr>"
  have "\<not> list_ex (\<lambda>q. pj_id q = pj_id ?p \<or> pj_org q = pj_org ?p \<and> pj_name q = pj_name ?p) (pr_projects s)"
    using n u(1) [unfolded id_unused_def notin_map] by (auto simp: name_free_def list_ex_iff list_all_iff)
  then have ip: "insert_project None ''create site project'' ?p s = Inr (s\<lparr> pr_projects := pr_projects s @ [?p] \<rparr>)"
    by (simp add: insert_project_def db_fail_def)
  have "\<not> list_ex (\<lambda>w. ev_id w = ev_id ?v \<or> ev_project w = ev_project ?v \<and> ev_slug w = ev_slug ?v) (pr_envs s)"
    using u [unfolded id_unused_def notin_map] by (auto simp: list_ex_iff)
  then have iv: "insert_environment None ''create production environment'' ?v (s\<lparr> pr_projects := pr_projects s @ [?p] \<rparr>)
      = Inr (s\<lparr> pr_projects := pr_projects s @ [?p], pr_envs := pr_envs s @ [?v] \<rparr>)"
    by (simp add: insert_environment_def db_fail_def)
  show ?thesis
    unfolding ensureSiteProject_def Let_def db sp option.case if_not_P [OF ne] if_P [OF TrueI] compat_name_def [symmetric] ip sum.case iv
    by (simp add: db_fail_def provision_def)
qed

lemma provision_simps [simp]:
  "pr_sites (provision pid vid now l s) = map (attach_site (sl_id l) pid) (pr_sites s)"
  "sl_id (attach_site i pid x) = sl_id x" "sl_org (attach_site i pid x) = sl_org x" "sl_name (attach_site i pid x) = sl_name x"
  by (simp_all add: provision_def attach_site_def)

text \<open>The migration loop provisions each pending site and leaves the others alone.\<close>

lemma migrate_sites_provision:
  assumes "sites_wf s" "healthy e ident" "distinct (map sl_id ls)" "\<forall>l \<in> set ls. l \<in> set (pr_sites s) \<and> sl_project l = None \<and> name_free s l"
    "\<forall>j \<ge> 2 * k. id_unused (ident j) s"
  shows "\<exists>s'. migrate_sites e k ls s = (s', Inr ()) \<and> (\<exists>P V. pr_projects s' = pr_projects s @ P \<and> pr_envs s' = pr_envs s @ V) \<and>
    list_all2 (\<lambda>l l'. sl_id l' = sl_id l \<and> (if l \<in> set ls then provisioned s' l' else l' = l)) (pr_sites s) (pr_sites s')"
  using assms
proof (induction ls arbitrary: s k)
  case Nil
  then show ?case by (intro exI [of _ s]) (simp add: list.rel_refl)
next
  case (Cons l ls)
  have l: "l \<in> set (pr_sites s)" "sl_project l = None" "name_free s l" using Cons.prems(4) by auto
  have u: "id_unused (ident (2 * k)) s" "id_unused (ident (2 * k + 1)) s" using Cons.prems(5) by simp_all
  define s1 where "s1 = provision (ident (2 * k)) (ident (2 * k + 1)) (pe_now e) l s"
  have en: "ensureSiteProject e k (sl_id l) (sl_name l) (sl_org l) True s = (s1, Inr (ident (2 * k)))"
    unfolding s1_def by (rule ensure_provisions [OF Cons.prems(1) l(1,2) Cons.prems(2) l(3) u])
  have other: "attach_site (sl_id l) pid x = x" if "sl_id x \<noteq> sl_id l" for x pid using that by (simp add: attach_site_def)
  have id_eq: "x = l" if "x \<in> set (pr_sites s)" "sl_id x = sl_id l" for x
    using Cons.prems(1) l(1) that by (auto simp: sites_wf_def distinct_map dest: inj_onD)
  have w1: "sites_wf s1" using Cons.prems(1) by (simp add: sites_wf_def s1_def o_def list_all_iff)
  have tail: "\<forall>x \<in> set ls. x \<in> set (pr_sites s1) \<and> sl_project x = None \<and> name_free s1 x"
  proof
    fix x assume x: "x \<in> set ls"
    have xs: "x \<in> set (pr_sites s)" "sl_project x = None" "name_free s x" using Cons.prems(4) x by auto
    have "sl_id x \<in> set (map sl_id ls)" using x by simp
    then have ne: "sl_id x \<noteq> sl_id l" using Cons.prems(3) by auto
    have "attach_site (sl_id l) (ident (2 * k)) x \<in> set (pr_sites s1)" using xs(1) unfolding s1_def provision_simps set_map by (rule imageI)
    then have "x \<in> set (pr_sites s1)" unfolding other [OF ne] .
    moreover have "compat_name x \<noteq> compat_name l"
      using ne compat_name_inj [of x l] Cons.prems(1) xs(1) l(1) by (auto simp: sites_wf_def list_all_iff)
    then have "name_free s1 x" using xs(3) by (simp add: name_free_def s1_def provision_def)
    ultimately show "x \<in> set (pr_sites s1) \<and> sl_project x = None \<and> name_free s1 x" using xs(2) by blast
  qed
  have fresh: "\<forall>j \<ge> 2 * Suc k. id_unused (ident j) s1"
  proof (intro allI impI)
    fix j assume j: "2 * Suc k \<le> j"
    have ij: "ident j \<noteq> ident (2 * k)" "ident j \<noteq> ident (2 * k + 1)" using Cons.prems(2) j by (auto simp: healthy_def dest: injD)
    have "id_unused (ident j) s" using Cons.prems(5) j by simp
    moreover have "sl_project (attach_site (sl_id l) (ident (2 * k)) x) \<noteq> Some (ident j)" if "sl_project x \<noteq> Some (ident j)" for x
      using that ij by (simp add: attach_site_def)
    ultimately show "id_unused (ident j) s1" using ij unfolding id_unused_def notin_map by (auto simp: s1_def provision_def)
  qed
  have "distinct (map sl_id ls)" using Cons.prems(3) by simp
  from Cons.IH [OF w1 Cons.prems(2) this tail fresh] obtain s' P V where s': "migrate_sites e (Suc k) ls s1 = (s', Inr ())"
    "pr_projects s' = pr_projects s1 @ P" "pr_envs s' = pr_envs s1 @ V"
    "list_all2 (\<lambda>l l'. sl_id l' = sl_id l \<and> (if l \<in> set ls then provisioned s' l' else l' = l)) (pr_sites s1) (pr_sites s')" by blast
  have head: "provisioned s' (attach_site (sl_id l) (ident (2 * k)) l)"
    using s'(2,3) l(2) by (simp add: provisioned_def attach_site_def s1_def provision_def)
  have nl: "attach_site (sl_id l) (ident (2 * k)) l \<notin> set ls" using Cons.prems(3) by (metis distinct.simps(2) image_eqI list.map(2) provision_simps(2) set_map)
  have one: "sl_id x' = sl_id x \<and> (if x \<in> set (l # ls) then provisioned s' x' else x' = x)"
    if xs: "x \<in> set (pr_sites s)" and a: "sl_id x' = sl_id (attach_site (sl_id l) (ident (2 * k)) x) \<and>
      (if attach_site (sl_id l) (ident (2 * k)) x \<in> set ls then provisioned s' x' else x' = attach_site (sl_id l) (ident (2 * k)) x)" for x x'
  proof (cases "sl_id x = sl_id l")
    case True
    then have "x = l" by (rule id_eq [OF xs])
    then show ?thesis using a nl head by simp
  next
    case False
    then have "x \<noteq> l" by auto
    then show ?thesis using a other [OF False] by simp
  qed
  have "list_all2 (\<lambda>x x'. sl_id x' = sl_id (attach_site (sl_id l) (ident (2 * k)) x) \<and>
      (if attach_site (sl_id l) (ident (2 * k)) x \<in> set ls then provisioned s' x' else x' = attach_site (sl_id l) (ident (2 * k)) x)) (pr_sites s) (pr_sites s')"
    using s'(4) unfolding s1_def provision_simps(1) list_all2_map1 .
  then have "list_all2 (\<lambda>x x'. sl_id x' = sl_id x \<and> (if x \<in> set (l # ls) then provisioned s' x' else x' = x)) (pr_sites s) (pr_sites s')"
    by (rule list.rel_mono_strong) (use one in blast)
  then show ?case using en s' by (intro exI [of _ s']) (auto simp: s1_def provision_def)
qed


section \<open>A concrete server\<close>

definition pdemo_ident :: "nat \<Rightarrow> string" where
  "pdemo_ident n = hex_encode (replicate n CHR 0x01 @ [CHR 0x00])"

definition pdemo_pe :: "int option \<Rightarrow> proj_env" where
  "pdemo_pe g = \<lparr> pe_org = g, pe_now = ''now'', pe_rand = (\<lambda>n. Some (replicate n CHR 0x01 @ [CHR 0x00])), pe_db = (\<lambda>_. None),
     pe_order = (\<lambda>xs. xs), pe_env_order = (\<lambda>xs. xs) \<rparr>"

definition pdemo_sid :: "char \<Rightarrow> string" where
  "pdemo_sid c = replicate 32 c"

definition pdemo_projects :: Projects where
  "pdemo_projects = \<lparr> pr_cascade = False, pr_unique = ''UNIQUE constraint failed'', pr_projects = [], pr_envs = [],
     pr_sites = [\<lparr> sl_id = pdemo_sid CHR ''a'', sl_name = ''shop'', sl_org = 1, sl_project = None \<rparr>] \<rparr>"

lemma pdemo_healthy: "healthy (pdemo_pe g) pdemo_ident"
proof -
  have "length (hex_encode bs) = 2 * length bs" for bs by (induction bs) (simp_all add: hex_encode_def)
  then have "length (pdemo_ident n) = 2 * Suc n" for n by (simp add: pdemo_ident_def)
  then have "inj pdemo_ident" by (intro injI) (metis Suc_inject mult_cancel1 zero_neq_numeral)
  then show ?thesis by (simp add: healthy_def pdemo_pe_def GenerateID_def pdemo_ident_def)
qed


definition pdemo_call :: "int \<Rightarrow> nat \<Rightarrow> string \<Rightarrow> string \<Rightarrow> string \<Rightarrow> proj_call" where
  "pdemo_call g n meth path name = ((pdemo_pe (Some g))\<lparr> pe_rand := (\<lambda>_. Some (replicate n CHR 0x01 @ [CHR 0x00])) \<rparr>,
     \<lparr> pq_method = meth, pq_path = path, pq_body = Some (name, []) \<rparr>)"

definition pdemo_calls :: "proj_call list" where
  "pdemo_calls = [pdemo_call 1 1 ''POST'' ''/api/projects'' ''alpha'', pdemo_call 2 2 ''POST'' ''/api/projects'' ''alpha'', pdemo_call 1 3 ''GET'' ''/api/projects'' []]"

theorem projects_noninterference_witness:
  "length (filter (\<lambda>p. proj_org (fst p) = Some 1) (responses projects_step pdemo_projects pdemo_calls)) = 2
   \<and> filter (\<lambda>p. proj_org (fst p) = Some 1) (responses projects_step pdemo_projects pdemo_calls)
     = responses projects_step pdemo_projects (filter (\<lambda>q. proj_org q = Some 1) pdemo_calls)"
proof -
  have "proj_pre pdemo_projects pdemo_calls" by code_simp
  note n = projects_noninterference [OF this, of "Some 1"]
  have "filter (\<lambda>q. proj_org q = Some 1) pdemo_calls
      = [pdemo_call 1 1 ''POST'' ''/api/projects'' ''alpha'', pdemo_call 1 3 ''GET'' ''/api/projects'' []]"
    by (simp add: pdemo_calls_def pdemo_call_def proj_org_def pdemo_pe_def)
  then show ?thesis unfolding n by (simp add: length_responses del: responses.simps)
qed

section \<open>Provisioning that is stuck\<close>

text \<open>
  The three statements are not a transaction. When the project exists but the site was not attached, the
  project's name is taken, and provisioning the site fails from then on whatever happens; the boot of the
  sites component, which insists on the migration, fails with it.
\<close>

definition taken :: "int \<Rightarrow> string \<Rightarrow> Projects \<Rightarrow> bool" where
  "taken g name s = list_ex (\<lambda>p. pj_org p = g \<and> pj_name p = name) (pr_projects s)"

lemma taken_insert: "taken (pj_org p) (pj_name p) s \<Longrightarrow>
    insert_project m what p s = Inl (Message (what @ '': '' @ (case m of None \<Rightarrow> pr_unique s | Some msg \<Rightarrow> msg)))"
  by (cases m) (auto simp: taken_def insert_project_def db_fail_def list_ex_iff)

lemma ensure_stuck:
  assumes "site_project (pe_db e (4 * k)) sid s = None" "sid \<noteq> []"
    and "taken g (if compatibility then ''Compatibility - '' @ (if sname = [] then sid else sname) @ '' ('' @ sid @ '')'' else (if sname = [] then sid else sname)) s"
  shows "\<exists>err. ensureSiteProject e k sid sname g compatibility s = (s, Inl err)"
proof (cases "GenerateID (pe_rand e (2 * k))")
  case None
  then show ?thesis using assms(1,2) by (simp add: ensureSiteProject_def Let_def)
next
  case (Some pid)
  let ?p = "\<lparr> pj_id = pid, pj_org = g, pj_name = (if compatibility then ''Compatibility - '' @ (if sname = [] then sid else sname) @ '' ('' @ sid @ '')''
      else (if sname = [] then sid else sname)), pj_created = pe_now e, pj_updated = pe_now e \<rparr>"
  have "insert_project (pe_db e (4 * k + 1)) ''create site project'' ?p s
      = Inl (Message (''create site project'' @ '': '' @ (case pe_db e (4 * k + 1) of None \<Rightarrow> pr_unique s | Some msg \<Rightarrow> msg)))"
    by (rule taken_insert) (use assms(3) in \<open>simp only: Project.select_convs\<close>)
  then show ?thesis unfolding ensureSiteProject_def Let_def using assms(1,2) Some by (simp only: option.case sum.case if_False) blast
qed

lemma pending_site: "sites_wf s \<Longrightarrow> l \<in> set (pr_sites s) \<Longrightarrow> sl_project l = None \<Longrightarrow> site_project m (sl_id l) s = None \<and> sl_id l \<noteq> []"
proof -
  assume s: "sites_wf s" "l \<in> set (pr_sites s)" "sl_project l = None"
  have "find (\<lambda>x. sl_id x = sl_id l) (pr_sites s) = Some l" using s find_by_key [of sl_id "pr_sites s" l] by (simp add: sites_wf_def)
  then show ?thesis using s by (auto simp: site_project_def sites_wf_def list_all_iff)
qed

text \<open>While the list of sites can be read and the first pending site is stuck, no migration ever succeeds.\<close>

lemma migration_stuck:
  assumes "sites_wf s" "filter (\<lambda>l. sl_project l = None) (pr_sites s) = l # ls" "taken (sl_org l) (compat_name l) s" "pe_db e 0 = None"
  shows "\<exists>err. MigrateSiteAttachments e s = (s, Inl err)"
proof -
  have "l \<in> set (filter (\<lambda>l. sl_project l = None) (pr_sites s))" using assms(2) by simp
  then have l: "l \<in> set (pr_sites s)" "sl_project l = None" by simp_all
  note p = pending_site [OF assms(1) l, of "pe_db e (4 * 1)"]
  obtain err where "ensureSiteProject e 1 (sl_id l) (sl_name l) (sl_org l) True s = (s, Inl err)"
    using ensure_stuck [where e = e and k = 1 and compatibility = True, OF conjunct1 [OF p] conjunct2 [OF p]] assms(3) unfolding compat_name_def by auto
  then show ?thesis using assms(2,4) by (simp add: MigrateSiteAttachments_def)
qed

text \<open>One failed insertion of the environment is enough to get there.\<close>

lemma one_fault_sticks:
  "\<exists>s'. fst (MigrateSiteAttachments ((pdemo_pe None)\<lparr> pe_db := (\<lambda>n. if n = 6 then Some ''disk I/O error'' else None) \<rparr>) pdemo_projects) = s'
     \<and> sites_wf s' \<and> (\<exists>l. filter (\<lambda>l. sl_project l = None) (pr_sites s') = [l] \<and> taken (sl_org l) (compat_name l) s')"
  by (simp add: pdemo_projects_def pdemo_pe_def MigrateSiteAttachments_def ensureSiteProject_def site_project_def pdemo_sid_def GenerateID_def
      insert_project_def db_fail_def insert_environment_def sites_wf_def taken_def compat_name_def Let_def)

text \<open>
  Deleting a site does not delete its project, so a site of the same name can never be created again in the
  organization: attaching its project fails, and with it the creation of the site.
\<close>

lemma name_of_deleted_site_is_lost:
  assumes "sid \<noteq> []" "sname \<noteq> []" "taken g sname s" "sid \<notin> set (map sl_id (pr_sites s)) \<or> (\<forall>l \<in> set (pr_sites s). sl_id l = sid \<longrightarrow> sl_project l = None)"
  shows "\<exists>err. EnsureSiteProject e sid sname g s = (s, Inl err)"
proof -
  have "sl_project l = None" if "find (\<lambda>l. sl_id l = sid) (pr_sites s) = Some l" for l using assms(4) find_SomeD [OF that] by auto
  then have "site_project m sid s = None" for m by (auto simp: site_project_def split: option.splits)
  then show ?thesis unfolding EnsureSiteProject_def using assms(1-3) by (intro ensure_stuck) simp_all
qed

text \<open>Where the database does not cascade, the environments of a deleted project stay in the table.\<close>

lemma deletion_leaves_environments: "\<not> pr_cascade s \<Longrightarrow> pr_envs (fst (DeleteProject e i s)) = pr_envs s"
  by (auto simp: DeleteProject_def split: sum.splits)

end
