(* ===== verification/Realtime_Hub.thy ===== *)
theory Realtime_Hub
  imports BB_Prelude
begin

text \<open>
  The realtime component (\<^verbatim>\<open>components/realtime\<close>): a hub that owns the tables of clients and rooms and
  serves its channels one request at a time, and the goroutines around it. A run is a sequence of events;
  where the hub's \<^verbatim>\<open>select\<close> may choose between channels, and where it ranges over a map, the event says
  what was chosen. Channels are bounded queues of 256; an event that would block is not enabled. Sending on
  a closed channel panics, which ends the whole server.
\<close>

section \<open>State\<close>

text \<open>A mutation message: the channel and the type of the change.\<close>

type_synonym rt_msg = "string \<times> string"

type_synonym cid = nat

record rt_client =
  cl_user :: int
  cl_rooms :: "string list"
  cl_send :: "rt_msg list"
  cl_closed :: bool

text \<open>
  \<open>h_used\<close> are the clients ever made and \<open>h_left\<close> those whose reading goroutine has ended; \<open>h_done\<close> says that
  the loop has returned and \<open>h_panic\<close> that it has panicked.
\<close>

record Hub =
  h_clients :: "cid list"
  h_rooms :: "(string, cid list) go_map"
  h_register :: "cid list"
  h_unregister :: "cid list"
  h_subscribe :: "(cid \<times> string) list"
  h_unsubscribe :: "(cid \<times> string) list"
  h_broadcast :: "(string \<times> rt_msg) list"
  h_stop :: bool
  h_conns :: "cid \<Rightarrow> rt_client"
  h_used :: "cid list"
  h_left :: "cid list"
  h_done :: bool
  h_panic :: bool

definition chan_size :: nat where "chan_size = 256"
definition sendBufSize :: nat where "sendBufSize = 256"
definition channelPrefix :: string where "channelPrefix = ''collection:''"

definition newClient :: "int \<Rightarrow> rt_client" where
  "newClient uid = \<lparr> cl_user = uid, cl_rooms = [], cl_send = [], cl_closed = False \<rparr>"

definition NewHub :: Hub where
  "NewHub = \<lparr> h_clients = [], h_rooms = [], h_register = [], h_unregister = [], h_subscribe = [], h_unsubscribe = [], h_broadcast = [],
     h_stop = False, h_conns = (\<lambda>_. newClient 0), h_used = [], h_left = [], h_done = False, h_panic = False \<rparr>"

definition set_add :: "'a \<Rightarrow> 'a list \<Rightarrow> 'a list" where
  "set_add x xs = (if x \<in> set xs then xs else xs @ [x])"

definition members :: "Hub \<Rightarrow> string \<Rightarrow> cid list" where
  "members h room = (case map_of (h_rooms h) room of None \<Rightarrow> [] | Some ms \<Rightarrow> ms)"

section \<open>The hub's requests\<close>

definition drop_member :: "cid \<Rightarrow> string \<Rightarrow> (string, cid list) go_map \<Rightarrow> (string, cid list) go_map" where
  "drop_member c room rooms = (case map_of rooms room of
     None \<Rightarrow> rooms
   | Some ms \<Rightarrow> (let ms' = removeAll c ms in if ms' = [] then map_del room rooms else map_put room ms' rooms))"

text \<open>Closing a closed channel panics like sending on it.\<close>

definition unregisterClient :: "cid \<Rightarrow> Hub \<Rightarrow> Hub" where
  "unregisterClient c h =
     (if c \<notin> set (h_clients h) then h
      else let cl = h_conns h c;
               h1 = h\<lparr> h_clients := removeAll c (h_clients h), h_rooms := fold (drop_member c) (cl_rooms cl) (h_rooms h) \<rparr>
        in if cl_closed cl then h1\<lparr> h_panic := True \<rparr> else h1\<lparr> h_conns := (h_conns h)(c := cl\<lparr> cl_closed := True \<rparr>) \<rparr>)"

definition subscribe_client :: "cid \<Rightarrow> string \<Rightarrow> Hub \<Rightarrow> Hub" where
  "subscribe_client c room h =
     h\<lparr> h_rooms := map_put room (set_add c (members h room)) (h_rooms h),
        h_conns := (h_conns h)(c := (h_conns h c)\<lparr> cl_rooms := set_add room (cl_rooms (h_conns h c)) \<rparr>) \<rparr>"

definition unsubscribe_client :: "cid \<Rightarrow> string \<Rightarrow> Hub \<Rightarrow> Hub" where
  "unsubscribe_client c room h =
     h\<lparr> h_rooms := drop_member c room (h_rooms h),
        h_conns := (h_conns h)(c := (h_conns h c)\<lparr> cl_rooms := removeAll room (cl_rooms (h_conns h c)) \<rparr>) \<rparr>"

text \<open>One member gets the message, or is dropped when its buffer is full.\<close>

definition deliver :: "rt_msg \<Rightarrow> cid \<Rightarrow> Hub \<Rightarrow> Hub" where
  "deliver m c h =
     (if h_panic h then h
      else let cl = h_conns h c in
        if cl_closed cl then h\<lparr> h_panic := True \<rparr>
        else if length (cl_send cl) < sendBufSize then h\<lparr> h_conns := (h_conns h)(c := cl\<lparr> cl_send := cl_send cl @ [m] \<rparr>) \<rparr>
        else unregisterClient c h)"

definition broadcast_room :: "(cid list \<Rightarrow> cid list) \<Rightarrow> string \<Rightarrow> rt_msg \<Rightarrow> Hub \<Rightarrow> Hub" where
  "broadcast_room ord room m h = fold (deliver m) (ord (members h room)) h"

definition close_all :: "Hub \<Rightarrow> Hub" where
  "close_all h =
     (if list_ex (\<lambda>c. cl_closed (h_conns h c)) (h_clients h) then h\<lparr> h_panic := True \<rparr>
      else h\<lparr> h_clients := [], h_rooms := [], h_done := True,
             h_conns := (\<lambda>c. if c \<in> set (h_clients h) then (h_conns h c)\<lparr> cl_closed := True \<rparr> else h_conns h c) \<rparr>)"

text \<open>The branches of the \<^verbatim>\<open>select\<close>; a broadcast carries the order in which the map is ranged over.\<close>

datatype choice = TakeRegister | TakeUnregister | TakeSubscribe | TakeUnsubscribe | TakeBroadcast "cid list \<Rightarrow> cid list" | TakeStop | TakeStats

definition hub_select :: "choice \<Rightarrow> Hub \<Rightarrow> Hub option" where
  "hub_select ch h =
     (if h_done h \<or> h_panic h then None
      else case ch of
        TakeRegister \<Rightarrow> (case h_register h of [] \<Rightarrow> None | c # cs \<Rightarrow> Some (h\<lparr> h_register := cs, h_clients := set_add c (h_clients h) \<rparr>))
      | TakeUnregister \<Rightarrow> (case h_unregister h of [] \<Rightarrow> None | c # cs \<Rightarrow> Some (unregisterClient c (h\<lparr> h_unregister := cs \<rparr>)))
      | TakeSubscribe \<Rightarrow> (case h_subscribe h of [] \<Rightarrow> None | (c, room) # rs \<Rightarrow> Some (subscribe_client c room (h\<lparr> h_subscribe := rs \<rparr>)))
      | TakeUnsubscribe \<Rightarrow> (case h_unsubscribe h of [] \<Rightarrow> None | (c, room) # rs \<Rightarrow> Some (unsubscribe_client c room (h\<lparr> h_unsubscribe := rs \<rparr>)))
      | TakeBroadcast ord \<Rightarrow> (case h_broadcast h of [] \<Rightarrow> None | (room, m) # bs \<Rightarrow> Some (broadcast_room ord room m (h\<lparr> h_broadcast := bs \<rparr>)))
      | TakeStop \<Rightarrow> if h_stop h then Some (close_all h) else None
      | TakeStats \<Rightarrow> Some h)"

record HubStats =
  TotalConnections :: nat
  TotalRooms :: nat
  Connections :: "(int \<times> string list) list"

definition hub_stats :: "Hub \<Rightarrow> HubStats" where
  "hub_stats h = \<lparr> TotalConnections = length (h_clients h), TotalRooms = length (h_rooms h),
     Connections = map (\<lambda>c. (cl_user (h_conns h c), cl_rooms (h_conns h c))) (h_clients h) \<rparr>"

section \<open>The other goroutines\<close>

definition Broadcast :: "string \<Rightarrow> rt_msg \<Rightarrow> Hub \<Rightarrow> Hub" where
  "Broadcast channel m h = (if length (h_broadcast h) < chan_size then h\<lparr> h_broadcast := h_broadcast h @ [(channelPrefix @ channel, m)] \<rparr> else h)"

text \<open>The hook on the mutation event; missing fields read as empty.\<close>

definition on_mutation :: "string option \<Rightarrow> string option \<Rightarrow> Hub \<Rightarrow> Hub" where
  "on_mutation collection typ h = (let ch = (case collection of None \<Rightarrow> [] | Some c \<Rightarrow> c); ty = (case typ of None \<Rightarrow> [] | Some t \<Rightarrow> t) in
     Broadcast ch (channelPrefix @ ch, ty) h)"

datatype ws_answer = WsRefused nat string | WsOpen int

definition checkOrigin :: "string list \<Rightarrow> string \<Rightarrow> bool \<Rightarrow> string \<Rightarrow> bool" where
  "checkOrigin allowed origin tls host =
     (origin = [] \<or> origin \<in> set allowed \<or> origin = (if tls then ''https'' else ''http'') @ ''://'' @ host)"

text \<open>Opening a connection: the token, its validation, and the origin (which the upgrader answers with 403).\<close>

definition serveWS :: "(string \<Rightarrow> int option) \<Rightarrow> string list \<Rightarrow> string \<Rightarrow> string \<Rightarrow> bool \<Rightarrow> string \<Rightarrow> ws_answer" where
  "serveWS validate allowed token origin tls host =
     (if token = [] then WsRefused 401 ''token required''
      else case validate token of
        None \<Rightarrow> WsRefused 401 ''invalid token''
      | Some uid \<Rightarrow> if \<not> checkOrigin allowed origin tls host then WsRefused 403 ''Forbidden'' else WsOpen uid)"

text \<open>
  Events. A client that was accepted is put in the channel of registrations; its reading goroutine asks for
  rooms, and when the connection ends it announces that once, unless the channel is full. The writing
  goroutine takes messages from the client's buffer.
\<close>

datatype rt_event =
    Connect cid int
  | Ask cid string
  | Leave cid string
  | Disconnect cid
  | Mutation "string option" "string option"
  | StopHub
  | TakeMessage cid
  | Choose choice

definition hub_event :: "rt_event \<Rightarrow> Hub \<Rightarrow> Hub option" where
  "hub_event ev h =
     (if h_panic h then None
      else case ev of
        Connect c uid \<Rightarrow> if c \<in> set (h_used h) \<or> length (h_register h) \<ge> chan_size then None
          else Some (h\<lparr> h_register := h_register h @ [c], h_conns := (h_conns h)(c := newClient uid), h_used := c # h_used h \<rparr>)
      | Ask c room \<Rightarrow> if c \<notin> set (h_used h) \<or> c \<in> set (h_left h) \<or> length (h_subscribe h) \<ge> chan_size then None
          else Some (h\<lparr> h_subscribe := h_subscribe h @ [(c, room)] \<rparr>)
      | Leave c room \<Rightarrow> if c \<notin> set (h_used h) \<or> c \<in> set (h_left h) \<or> length (h_unsubscribe h) \<ge> chan_size then None
          else Some (h\<lparr> h_unsubscribe := h_unsubscribe h @ [(c, room)] \<rparr>)
      | Disconnect c \<Rightarrow> if c \<notin> set (h_used h) \<or> c \<in> set (h_left h) then None
          else Some (h\<lparr> h_left := c # h_left h, h_unregister := (if length (h_unregister h) < chan_size then h_unregister h @ [c] else h_unregister h) \<rparr>)
      | Mutation collection typ \<Rightarrow> Some (on_mutation collection typ h)
      | StopHub \<Rightarrow> Some (h\<lparr> h_stop := True \<rparr>)
      | TakeMessage c \<Rightarrow> (case cl_send (h_conns h c) of [] \<Rightarrow> None
          | m # ms \<Rightarrow> Some (h\<lparr> h_conns := (h_conns h)(c := (h_conns h c)\<lparr> cl_send := ms \<rparr>) \<rparr>))
      | Choose ch \<Rightarrow> hub_select ch h)"

fun hub_run :: "rt_event list \<Rightarrow> Hub \<Rightarrow> Hub option" where
  "hub_run [] h = Some h"
| "hub_run (ev # evs) h = (case hub_event ev h of None \<Rightarrow> None | Some h' \<Rightarrow> hub_run evs h')"

end
