(* ===== verification/Realtime_Safety.thy ===== *)
theory Realtime_Safety
  imports Realtime_Hub
begin

text \<open>
  What the hub guarantees: the invariant of its tables, exact delivery of a message to the members of its
  room, and freedom from panics as long as no subscription of a departed client is served; and a run in
  which one is served and the server panics.
\<close>

section \<open>Rooms\<close>

definition mem :: "(string, cid list) go_map \<Rightarrow> string \<Rightarrow> cid list" where
  "mem rooms r = (case map_of rooms r of None \<Rightarrow> [] | Some ms \<Rightarrow> ms)"

definition rooms_ok :: "(string, cid list) go_map \<Rightarrow> bool" where
  "rooms_ok rooms = (\<forall>r. map_of rooms r \<noteq> Some [] \<and> distinct (mem rooms r))"

lemma members_mem: "members h r = mem (h_rooms h) r"
  by (simp add: members_def mem_def)

lemma mem_drop: "mem (drop_member c room rooms) r = (if r = room then removeAll c (mem rooms r) else mem rooms r)"
  by (auto simp: mem_def drop_member_def Let_def split: option.splits)

lemma mem_put: "mem (map_put room ms rooms) r = (if r = room then ms else mem rooms r)"
  by (simp add: mem_def)

lemma drop_ok: "rooms_ok rooms \<Longrightarrow> rooms_ok (drop_member c room rooms)"
proof -
  assume o: "rooms_ok rooms"
  have "distinct (mem (drop_member c room rooms) r)" for r using o by (simp add: mem_drop rooms_ok_def distinct_removeAll)
  moreover have "map_of (drop_member c room rooms) r \<noteq> Some []" for r
    using o by (auto simp: drop_member_def rooms_ok_def Let_def split: option.splits)
  ultimately show ?thesis by (simp add: rooms_ok_def)
qed

lemma mem_drops: "mem (fold (drop_member c) rs rooms) r = (if r \<in> set rs then removeAll c (mem rooms r) else mem rooms r)"
  by (induction rs arbitrary: rooms) (auto simp: mem_drop removeAll_id)

lemma drops_ok: "rooms_ok rooms \<Longrightarrow> rooms_ok (fold (drop_member c) rs rooms)"
  by (induction rs arbitrary: rooms) (auto intro: drop_ok)

lemma set_add_set [simp]: "set (set_add x xs) = insert x (set xs)"
  by (auto simp: set_add_def)

lemma set_add_distinct [simp]: "distinct xs \<Longrightarrow> distinct (set_add x xs)"
  by (simp add: set_add_def)

section \<open>The invariant\<close>

definition hub_inv :: "Hub \<Rightarrow> bool" where
  "hub_inv h = (\<not> h_panic h \<and> distinct (h_clients h) \<and> distinct (h_register h) \<and> rooms_ok (h_rooms h)
     \<and> set (h_clients h) \<subseteq> set (h_used h) \<and> set (h_register h) \<subseteq> set (h_used h) \<and> set (h_register h) \<inter> set (h_clients h) = {}
     \<and> (\<forall>c \<in> set (h_clients h). \<not> cl_closed (h_conns h c))
     \<and> (\<forall>c \<in> set (h_register h). \<not> cl_closed (h_conns h c) \<and> cl_rooms (h_conns h c) = [])
     \<and> (\<forall>c r. c \<in> set (mem (h_rooms h) r) \<longleftrightarrow> c \<in> set (h_clients h) \<and> r \<in> set (cl_rooms (h_conns h c))))"

lemma hub_inv_conns:
  assumes "hub_inv h" "\<And>c. cl_closed (f c) = cl_closed (h_conns h c)" "\<And>c. cl_rooms (f c) = cl_rooms (h_conns h c)"
  shows "hub_inv (h\<lparr> h_conns := f \<rparr>)"
  using assms by (simp add: hub_inv_def)

lemma NewHub_inv: "hub_inv NewHub"
  by (simp add: hub_inv_def NewHub_def rooms_ok_def mem_def)

lemma unregister_effect:
  assumes i: "hub_inv h" and c: "c \<in> set (h_clients h)"
  shows "hub_inv (unregisterClient c h) \<and> h_clients (unregisterClient c h) = removeAll c (h_clients h)
    \<and> h_conns (unregisterClient c h) = (h_conns h)(c := (h_conns h c)\<lparr> cl_closed := True \<rparr>)
    \<and> (\<forall>r. mem (h_rooms (unregisterClient c h)) r = removeAll c (mem (h_rooms h) r))"
proof -
  have open_c: "\<not> cl_closed (h_conns h c)" using i c by (simp add: hub_inv_def)
  define h' where "h' = h\<lparr> h_clients := removeAll c (h_clients h), h_rooms := fold (drop_member c) (cl_rooms (h_conns h c)) (h_rooms h),
    h_conns := (h_conns h)(c := (h_conns h c)\<lparr> cl_closed := True \<rparr>) \<rparr>"
  have u: "unregisterClient c h = h'" using c open_c by (simp add: unregisterClient_def Let_def h'_def)
  have m: "mem (h_rooms h') r = removeAll c (mem (h_rooms h) r)" for r
  proof (cases "r \<in> set (cl_rooms (h_conns h c))")
    case True
    then show ?thesis by (simp add: h'_def mem_drops)
  next
    case False
    then have "c \<notin> set (mem (h_rooms h) r)" using i by (simp add: hub_inv_def)
    then show ?thesis using False by (simp add: h'_def mem_drops removeAll_id)
  qed
  have "rooms_ok (h_rooms h')" using i drops_ok by (simp add: h'_def hub_inv_def)
  moreover have "c \<notin> set (h_register h)" using i c by (auto simp: hub_inv_def)
  ultimately have "hub_inv h'" using i m unfolding hub_inv_def by (auto simp: h'_def distinct_removeAll)
  then show ?thesis using u m by (simp add: h'_def)
qed

lemma unregister_inv: "hub_inv h \<Longrightarrow> hub_inv (unregisterClient c h)"
  using unregister_effect [of h c] by (cases "c \<in> set (h_clients h)") (auto simp: unregisterClient_def)

lemma subscribe_inv:
  assumes i: "hub_inv h" and c: "c \<in> set (h_clients h)"
  shows "hub_inv (subscribe_client c room h)"
proof -
  have nr: "c \<notin> set (h_register h)" using i c by (auto simp: hub_inv_def)
  have m: "mem (h_rooms (subscribe_client c room h)) r = (if r = room then set_add c (mem (h_rooms h) r) else mem (h_rooms h) r)" for r
    by (simp add: subscribe_client_def mem_put members_mem)
  have ne: "set_add c (members h room) \<noteq> []" by (metis set_add_set empty_set insert_not_empty)
  have "map_of (h_rooms (subscribe_client c room h)) r \<noteq> Some []" for r
    using i ne by (simp add: subscribe_client_def hub_inv_def rooms_ok_def)
  moreover have "distinct (mem (h_rooms (subscribe_client c room h)) r)" for r using i m by (simp add: hub_inv_def rooms_ok_def)
  ultimately have "rooms_ok (h_rooms (subscribe_client c room h))" by (simp add: rooms_ok_def)
  then show ?thesis using i c nr m unfolding hub_inv_def by (auto simp: subscribe_client_def)
qed

lemma unsubscribe_inv: "hub_inv h \<Longrightarrow> hub_inv (unsubscribe_client c room h)"
proof -
  assume i: "hub_inv h"
  have "mem (h_rooms (unsubscribe_client c room h)) r = (if r = room then removeAll c (mem (h_rooms h) r) else mem (h_rooms h) r)" for r
    by (simp add: unsubscribe_client_def mem_drop)
  moreover have "rooms_ok (h_rooms (unsubscribe_client c room h))" using i drop_ok by (simp add: unsubscribe_client_def hub_inv_def)
  ultimately show ?thesis using i unfolding hub_inv_def by (auto simp: unsubscribe_client_def)
qed

section \<open>Delivery\<close>

definition full :: "Hub \<Rightarrow> cid \<Rightarrow> bool" where
  "full h c = (sendBufSize \<le> length (cl_send (h_conns h c)))"

lemma deliver_effect:
  assumes i: "hub_inv h" and c: "c \<in> set (h_clients h)"
  shows "hub_inv (deliver m c h) \<and> h_clients (deliver m c h) = filter (\<lambda>x. \<not> (x = c \<and> full h c)) (h_clients h)
    \<and> h_conns (deliver m c h) = (h_conns h)(c := (if full h c then (h_conns h c)\<lparr> cl_closed := True \<rparr> else (h_conns h c)\<lparr> cl_send := cl_send (h_conns h c) @ [m] \<rparr>))"
proof -
  have o: "\<not> h_panic h" "\<not> cl_closed (h_conns h c)" using i c by (simp_all add: hub_inv_def)
  show ?thesis
  proof (cases "full h c")
    case True
    then have "deliver m c h = unregisterClient c h" using o by (simp add: deliver_def full_def)
    moreover have "removeAll c (h_clients h) = filter (\<lambda>x. x \<noteq> c) (h_clients h)" by (metis (lifting) filter_cong removeAll_filter_not_eq)
    ultimately show ?thesis using unregister_effect [OF i c] True by simp
  next
    case False
    then have d: "deliver m c h = h\<lparr> h_conns := (h_conns h)(c := (h_conns h c)\<lparr> cl_send := cl_send (h_conns h c) @ [m] \<rparr>) \<rparr>"
      using o by (simp add: deliver_def full_def Let_def)
    then show ?thesis using False hub_inv_conns [OF i, of "(h_conns h)(c := (h_conns h c)\<lparr> cl_send := cl_send (h_conns h c) @ [m] \<rparr>)"] by simp
  qed
qed

lemma fold_deliver:
  assumes "hub_inv h" "distinct cs" "set cs \<subseteq> set (h_clients h)"
  shows "hub_inv (fold (deliver m) cs h) \<and> h_clients (fold (deliver m) cs h) = filter (\<lambda>x. \<not> (x \<in> set cs \<and> full h x)) (h_clients h)
    \<and> h_conns (fold (deliver m) cs h) = (\<lambda>c. if c \<notin> set cs then h_conns h c else if full h c then (h_conns h c)\<lparr> cl_closed := True \<rparr>
        else (h_conns h c)\<lparr> cl_send := cl_send (h_conns h c) @ [m] \<rparr>)"
  using assms
proof (induction cs arbitrary: h)
  case (Cons c cs)
  have c: "c \<in> set (h_clients h)" using Cons.prems(3) by simp
  define h1 where "h1 = deliver m c h"
  from deliver_effect [OF Cons.prems(1) c, of m] have e: "hub_inv h1" "h_clients h1 = filter (\<lambda>x. \<not> (x = c \<and> full h c)) (h_clients h)"
    "h_conns h1 = (h_conns h)(c := (if full h c then (h_conns h c)\<lparr> cl_closed := True \<rparr> else (h_conns h c)\<lparr> cl_send := cl_send (h_conns h c) @ [m] \<rparr>))"
    by (simp_all add: h1_def)
  have nc: "c \<notin> set cs" "distinct cs" using Cons.prems(2) by simp_all
  have sub: "set cs \<subseteq> set (h_clients h1)" using Cons.prems(3) nc(1) by (auto simp: e(2))
  have f: "full h1 x = full h x" if "x \<in> set cs" for x using nc(1) that by (auto simp: full_def e(3))
  note ih = Cons.IH [OF e(1) nc(2) sub]
  have "h_clients (fold (deliver m) cs h1) = filter (\<lambda>x. \<not> (x \<in> set (c # cs) \<and> full h x)) (h_clients h)"
    using ih f by (auto simp: e(2) intro!: filter_cong)
  moreover have "h_conns (fold (deliver m) cs h1) = (\<lambda>x. if x \<notin> set (c # cs) then h_conns h x else if full h x then (h_conns h x)\<lparr> cl_closed := True \<rparr>
        else (h_conns h x)\<lparr> cl_send := cl_send (h_conns h x) @ [m] \<rparr>)"
    using ih f nc(1) by (intro ext) (auto simp: e(3))
  ultimately show ?case using ih by (simp add: h1_def)
qed simp

lemma broadcast_effect:
  assumes i: "hub_inv h" and t: "h_broadcast h = (room, m) # bs" "\<not> h_done h" and ord: "mset (ord (members h room)) = mset (members h room)"
  shows "\<exists>h'. hub_select (TakeBroadcast ord) h = Some h' \<and> hub_inv h'
    \<and> (\<forall>c. h_conns h' c = (if c \<notin> set (members h room) then h_conns h c else if full h c then (h_conns h c)\<lparr> cl_closed := True \<rparr>
        else (h_conns h c)\<lparr> cl_send := cl_send (h_conns h c) @ [m] \<rparr>))
    \<and> h_clients h' = filter (\<lambda>c. \<not> (c \<in> set (members h room) \<and> full h c)) (h_clients h)"
proof -
  define h0 where "h0 = h\<lparr> h_broadcast := bs \<rparr>"
  have s: "set (ord (members h room)) = set (members h room)" "distinct (ord (members h room))"
  proof -
    show "set (ord (members h room)) = set (members h room)" using ord by (metis set_mset_mset)
    have "distinct (members h room)" using i by (simp add: hub_inv_def rooms_ok_def members_mem)
    then show "distinct (ord (members h room))" using ord by (metis mset_eq_imp_distinct_iff)
  qed
  have i0: "hub_inv h0" using i by (simp add: hub_inv_def h0_def)
  have mm: "members h0 room = members h room" by (simp add: members_def h0_def)
  have sub: "set (ord (members h room)) \<subseteq> set (h_clients h0)" using s(1) i by (auto simp: h0_def hub_inv_def members_mem)
  have "\<not> h_panic h" using i by (simp add: hub_inv_def)
  then have "hub_select (TakeBroadcast ord) h = Some (fold (deliver m) (ord (members h room)) h0)"
    using t mm by (simp add: hub_select_def broadcast_room_def h0_def [symmetric])
  moreover have "full h0 = full h" by (intro ext) (simp add: full_def h0_def)
  ultimately show ?thesis using fold_deliver [OF i0 s(2) sub, of m] s(1) by (auto simp: h0_def)
qed

text \<open>
  C29. Exact delivery: when the hub takes a message, every member of its room whose buffer has space gets it
  once, at the end of what it was sent before; the members whose buffers are full are disconnected; no one
  else is sent anything, disconnected or changed; and the tables stay consistent.
\<close>

theorem broadcast_delivers:
  assumes i: "hub_inv h" and t: "h_broadcast h = (room, m) # bs" "\<not> h_done h" and ord: "mset (ord (members h room)) = mset (members h room)"
  shows "\<exists>h'. hub_event (Choose (TakeBroadcast ord)) h = Some h' \<and> hub_inv h'
    \<and> (\<forall>c. h_conns h' c = (if c \<notin> set (members h room) then h_conns h c else if full h c then (h_conns h c)\<lparr> cl_closed := True \<rparr>
        else (h_conns h c)\<lparr> cl_send := cl_send (h_conns h c) @ [m] \<rparr>))
    \<and> h_clients h' = filter (\<lambda>c. \<not> (c \<in> set (members h room) \<and> full h c)) (h_clients h)"
  using broadcast_effect [where h = h and room = room and m = m and bs = bs and ord = ord, OF i t ord] i by (auto simp: hub_event_def hub_inv_def)

section \<open>Freedom from panics\<close>

text \<open>
  A run is orderly when the hub never serves a subscription of a client that is not registered at that time,
  and ranges over every map entry once.
\<close>

definition orderly :: "rt_event \<Rightarrow> Hub \<Rightarrow> bool" where
  "orderly ev h = (case ev of
     Choose TakeSubscribe \<Rightarrow> (case h_subscribe h of [] \<Rightarrow> True | (c, _) # _ \<Rightarrow> c \<in> set (h_clients h))
   | Choose (TakeBroadcast ord) \<Rightarrow> (case h_broadcast h of [] \<Rightarrow> True | (room, _) # _ \<Rightarrow> mset (ord (members h room)) = mset (members h room))
   | _ \<Rightarrow> True)"

fun orderly_run :: "rt_event list \<Rightarrow> Hub \<Rightarrow> bool" where
  "orderly_run [] h = True"
| "orderly_run (ev # evs) h = (orderly ev h \<and> (case hub_event ev h of None \<Rightarrow> True | Some h' \<Rightarrow> orderly_run evs h'))"

lemma select_inv:
  assumes i: "hub_inv h" and o: "orderly (Choose ch) h" and s: "hub_select ch h = Some h'"
  shows "hub_inv h'"
proof (cases ch)
  case TakeRegister
  then obtain c cs where c: "h_register h = c # cs" "h' = h\<lparr> h_register := cs, h_clients := set_add c (h_clients h) \<rparr>"
    using s by (auto simp: hub_select_def split: if_splits list.splits)
  have "c \<notin> set (mem (h_rooms h) r)" for r using i c(1) by (auto simp: hub_inv_def)
  then show ?thesis using i c unfolding hub_inv_def by auto
next
  case TakeUnregister
  then obtain c cs where "h' = unregisterClient c (h\<lparr> h_unregister := cs \<rparr>)" using s by (auto simp: hub_select_def split: if_splits list.splits)
  then show ?thesis using i unregister_inv [of "h\<lparr> h_unregister := cs \<rparr>" c] by (simp add: hub_inv_def)
next
  case TakeSubscribe
  then obtain c room rs where c: "h_subscribe h = (c, room) # rs" "h' = subscribe_client c room (h\<lparr> h_subscribe := rs \<rparr>)"
    using s by (auto simp: hub_select_def split: if_splits list.splits)
  then have "c \<in> set (h_clients (h\<lparr> h_subscribe := rs \<rparr>))" using o TakeSubscribe by (simp add: orderly_def)
  then show ?thesis using i c(2) subscribe_inv [of "h\<lparr> h_subscribe := rs \<rparr>" c room] by (simp add: hub_inv_def)
next
  case TakeUnsubscribe
  then obtain c room rs where "h' = unsubscribe_client c room (h\<lparr> h_unsubscribe := rs \<rparr>)"
    using s by (auto simp: hub_select_def split: if_splits list.splits)
  then show ?thesis using i unsubscribe_inv [of "h\<lparr> h_unsubscribe := rs \<rparr>" c room] by (simp add: hub_inv_def)
next
  case (TakeBroadcast ord)
  then obtain room m bs where b: "h_broadcast h = (room, m) # bs" "\<not> h_done h"
    using s by (auto simp: hub_select_def split: if_splits list.splits)
  then have "mset (ord (members h room)) = mset (members h room)" using o TakeBroadcast by (simp add: orderly_def)
  from broadcast_effect [where h = h and room = room and m = m and bs = bs and ord = ord, OF i b this] s TakeBroadcast show ?thesis by auto
next
  case TakeStop
  then have "h' = close_all h" using s by (simp add: hub_select_def split: if_splits)
  moreover have "\<not> list_ex (\<lambda>c. cl_closed (h_conns h c)) (h_clients h)" using i by (auto simp: hub_inv_def list_ex_iff)
  ultimately show ?thesis using i by (auto simp: close_all_def hub_inv_def rooms_ok_def mem_def)
next
  case TakeStats
  then show ?thesis using s i by (simp add: hub_select_def split: if_splits)
qed

lemma event_inv:
  assumes i: "hub_inv h" and o: "orderly ev h" and s: "hub_event ev h = Some h'"
  shows "hub_inv h'"
proof (cases ev)
  case (Connect c uid)
  then have h': "h' = h\<lparr> h_register := h_register h @ [c], h_conns := (h_conns h)(c := newClient uid), h_used := c # h_used h \<rparr>" "c \<notin> set (h_used h)"
    using s by (auto simp: hub_event_def split: if_splits)
  then have "c \<notin> set (h_clients h)" "c \<notin> set (h_register h)" using i by (auto simp: hub_inv_def)
  then show ?thesis using i unfolding h'(1) hub_inv_def by (auto simp: newClient_def)
next
  case (Choose ch)
  then show ?thesis using select_inv [OF i, of ch h'] o s i by (simp add: hub_event_def hub_inv_def)
next
  case (Mutation a b)
  then show ?thesis using s i by (auto simp: hub_event_def on_mutation_def Broadcast_def Let_def hub_inv_def split: if_splits)
next
  case (TakeMessage c)
  then obtain ms where "h' = h\<lparr> h_conns := (h_conns h)(c := (h_conns h c)\<lparr> cl_send := ms \<rparr>) \<rparr>"
    using s by (auto simp: hub_event_def split: if_splits list.splits)
  then show ?thesis using hub_inv_conns [OF i, of "(h_conns h)(c := (h_conns h c)\<lparr> cl_send := ms \<rparr>)"] by simp
qed (use s i in \<open>auto simp: hub_event_def hub_inv_def split: if_splits\<close>)

lemma hub_run_inv: "hub_inv h \<Longrightarrow> orderly_run evs h \<Longrightarrow> hub_run evs h = Some h' \<Longrightarrow> hub_inv h'"
proof (induction evs arbitrary: h)
  case (Cons ev evs)
  then obtain h1 where h1: "hub_event ev h = Some h1" by (auto split: option.splits)
  then have "hub_inv h1" using event_inv [OF Cons.prems(1) _ h1] Cons.prems(2) by simp
  then show ?case using Cons.IH [of h1] Cons.prems(2,3) h1 by simp
qed simp

text \<open>
  C30. Whatever clients connect, ask, leave, fall behind and disconnect, and in whatever order the hub serves
  its channels, a run that serves no subscription of an unregistered client keeps the invariant: the server
  never panics by sending on or closing a closed channel, no room is empty or lists a client twice, and the
  members of a room are exactly the registered clients that are subscribed to it.
\<close>

theorem orderly_runs_safe:
  assumes "orderly_run evs NewHub" and "hub_run evs NewHub = Some h"
  shows "hub_inv h"
  using hub_run_inv [OF NewHub_inv assms] .

section \<open>Runs\<close>

definition notes_room :: string where "notes_room = ''collection:notes''"

text \<open>Two clients, one in the room; a mutation reaches that one; then it disconnects.\<close>

definition session_run :: "rt_event list" where
  "session_run = [Connect 1 7, Connect 2 8, Choose TakeRegister, Choose TakeRegister, Ask 1 notes_room, Choose TakeSubscribe,
     Mutation (Some ''notes'') (Some ''insert'')]"

definition rest_run :: "rt_event list" where
  "rest_run = [Choose (TakeBroadcast (\<lambda>ms. ms)), TakeMessage 1, Disconnect 1, Choose TakeUnregister, StopHub, Choose TakeStop]"

lemmas hub_eval = hub_event_def hub_select_def NewHub_def newClient_def set_add_def members_def chan_size_def sendBufSize_def
  subscribe_client_def unregisterClient_def on_mutation_def Broadcast_def channelPrefix_def notes_room_def Let_def orderly_def
  drop_member_def broadcast_room_def deliver_def close_all_def

lemma session_orderly: "orderly_run (session_run @ rest_run) NewHub"
  by (simp add: session_run_def rest_run_def hub_eval)

lemma session_runs: "\<exists>h. hub_run session_run NewHub = Some h \<and> h_broadcast h = [(notes_room, (notes_room, ''insert''))] \<and> members h notes_room = [1]
    \<and> \<not> h_done h \<and> h_conns h 1 = \<lparr> cl_user = 7, cl_rooms = [notes_room], cl_send = [], cl_closed = False \<rparr> \<and> h_clients h = [1, 2] \<and> h_conns h 2 = newClient 8"
  by (simp add: session_run_def hub_eval)

theorem orderly_runs_safe_witness: "\<exists>h. hub_run (session_run @ rest_run) NewHub = Some h \<and> hub_inv h \<and> h_done h"
proof -
  obtain h where "hub_run (session_run @ rest_run) NewHub = Some h" "h_done h" by (simp add: session_run_def rest_run_def hub_eval)
  then show ?thesis using orderly_runs_safe [OF session_orderly] by blast
qed

theorem broadcast_delivers_witness:
  "\<exists>h h'. hub_run session_run NewHub = Some h \<and> hub_event (Choose (TakeBroadcast (\<lambda>ms. ms))) h = Some h'
    \<and> cl_send (h_conns h' 1) = [(notes_room, ''insert'')] \<and> cl_send (h_conns h' 2) = [] \<and> h_clients h' = [1, 2]"
proof -
  obtain h where h: "hub_run session_run NewHub = Some h" "h_broadcast h = [(notes_room, (notes_room, ''insert''))]" "members h notes_room = [1]" "\<not> h_done h"
    "h_conns h 1 = \<lparr> cl_user = 7, cl_rooms = [notes_room], cl_send = [], cl_closed = False \<rparr>" "h_clients h = [1, 2]" "h_conns h 2 = newClient 8"
    using session_runs by blast
  have "orderly_run session_run NewHub" by (simp add: session_run_def hub_eval)
  then have "hub_inv h" using hub_run_inv [OF NewHub_inv _ h(1)] by simp
  then obtain h' where h': "hub_event (Choose (TakeBroadcast (\<lambda>ms. ms))) h = Some h'"
    "\<forall>c. h_conns h' c = (if c \<notin> set (members h notes_room) then h_conns h c else if full h c then (h_conns h c)\<lparr> cl_closed := True \<rparr>
        else (h_conns h c)\<lparr> cl_send := cl_send (h_conns h c) @ [(notes_room, ''insert'')] \<rparr>)"
    "h_clients h' = filter (\<lambda>c. \<not> (c \<in> set (members h notes_room) \<and> full h c)) (h_clients h)"
    using broadcast_delivers [where h = h and room = notes_room and m = "(notes_room, ''insert'')" and bs = "[]" and ord = "\<lambda>ms. ms"] h by auto
  moreover have "\<not> full h 1" using h(5) by (simp add: full_def sendBufSize_def)
  ultimately show ?thesis using h by (auto simp: newClient_def)
qed

section \<open>Runs that are not orderly\<close>

text \<open>
  The subscription of a client is served after its departure: the client, whose channel is closed, joins the
  room again, and the next mutation panics the server.
\<close>

definition late_run :: "rt_event list" where
  "late_run = [Connect 1 7, Choose TakeRegister, Ask 1 notes_room, Disconnect 1, Choose TakeUnregister, Choose TakeSubscribe,
     Mutation (Some ''notes'') (Some ''insert''), Choose (TakeBroadcast (\<lambda>ms. ms))]"

lemma late_subscription_panics: "\<exists>h. hub_run late_run NewHub = Some h \<and> h_panic h"
  by (simp add: late_run_def hub_eval)

text \<open>A departure served before the registration: the client stays registered for ever.\<close>

lemma departure_before_registration:
  "\<exists>h. hub_run [Connect 1 7, Disconnect 1, Choose TakeUnregister, Choose TakeRegister] NewHub = Some h
    \<and> h_clients h = [1] \<and> h_left h = [1] \<and> h_unregister h = []"
  by (simp add: hub_eval)

text \<open>A departure is lost when the channel is full.\<close>

lemma departure_lost:
  assumes "h_clients h = [c]" "c \<in> set (h_used h)" "c \<notin> set (h_left h)" "\<not> h_panic h" "length (h_unregister h) = chan_size"
  shows "hub_event (Disconnect c) h = Some (h\<lparr> h_left := c # h_left h \<rparr>)"
  using assms by (simp add: hub_event_def)

text \<open>Every accepted user may hear every collection: asking for a room has no condition on the user.\<close>

lemma any_room:
  assumes "c \<in> set (h_used h)" "c \<notin> set (h_left h)" "\<not> h_panic h" "length (h_subscribe h) < chan_size"
  shows "hub_event (Ask c room) h = Some (h\<lparr> h_subscribe := h_subscribe h @ [(c, room)] \<rparr>)"
  using assms by (simp add: hub_event_def)

end
