(* ===== verification/Go_Text.thy ===== *)
theory Go_Text
  imports BB_Prelude
begin

text \<open>
  The rest of \<^verbatim>\<open>strings\<close> that queries are cut and joined with, on ASCII text: \<^verbatim>\<open>ToUpper\<close>, \<^verbatim>\<open>Index\<close>,
  \<^verbatim>\<open>LastIndex\<close>, \<^verbatim>\<open>Fields\<close>, \<^verbatim>\<open>SplitN\<close>, \<^verbatim>\<open>Trim\<close>; and the word matches of regular expressions of the form
  \<^verbatim>\<open>(?i)\bWORD\b\<close>.
\<close>

definition upper :: "char \<Rightarrow> char" where
  "upper c = (let n = of_char c :: nat in if 97 \<le> n \<and> n \<le> 122 then char_of (n - 32) else c)"

text \<open>On the bits of a byte, for evaluation.\<close>

lemma upper_bits [code]: "upper (Char b0 b1 b2 b3 b4 b5 b6 b7) =
    (if b6 then if b5 then if b7 then Char b0 b1 b2 b3 b4 b5 b6 b7
       else if (b0 \<or> b1 \<or> b2 \<or> b3 \<or> b4) \<and> \<not> (b4 \<and> b3 \<and> (b2 \<or> b1 \<and> b0)) then Char b0 b1 b2 b3 b4 False b6 b7
       else Char b0 b1 b2 b3 b4 b5 b6 b7 else Char b0 b1 b2 b3 b4 b5 b6 b7 else Char b0 b1 b2 b3 b4 b5 b6 b7)"
  by (cases b0; cases b1; cases b2; cases b3; cases b4; cases b5; cases b6; cases b7; simp add: upper_def Let_def char_of_def bit_0)

lemma lower_bits [code]: "lower_char (Char b0 b1 b2 b3 b4 b5 b6 b7) =
    (if b6 then if b5 \<or> b7 then Char b0 b1 b2 b3 b4 b5 b6 b7
       else if (b0 \<or> b1 \<or> b2 \<or> b3 \<or> b4) \<and> \<not> (b4 \<and> b3 \<and> (b2 \<or> b1 \<and> b0)) then Char b0 b1 b2 b3 b4 True b6 b7
       else Char b0 b1 b2 b3 b4 b5 b6 b7 else Char b0 b1 b2 b3 b4 b5 b6 b7)"
  by (cases b0; cases b1; cases b2; cases b3; cases b4; cases b5; cases b6; cases b7; simp add: lower_char_def Let_def char_of_def bit_0)

definition ToUpper :: "string \<Rightarrow> string" where
  "ToUpper s = map upper s"

lemma length_ToUpper [simp]: "length (ToUpper s) = length s"
  by (simp add: ToUpper_def)

lemma ToUpper_append [simp]: "ToUpper (a @ b) = ToUpper a @ ToUpper b"
  by (simp add: ToUpper_def)

text \<open>\<^verbatim>\<open>strings.Index\<close>: the first position at which the pattern occurs; \<open>None\<close> is Go's \<open>-1\<close>.\<close>

fun Index :: "string \<Rightarrow> string \<Rightarrow> nat option" where
  "Index [] p = (if p = [] then Some 0 else None)"
| "Index (x # xs) p = (if prefix p (x # xs) then Some 0 else map_option Suc (Index xs p))"

lemma Index_None_iff: "Index s p = None \<longleftrightarrow> \<not> Contains s p"
  by (induction s) auto

lemma Index_Some: "Index s p = Some i \<Longrightarrow> i + length p \<le> length s \<and> prefix p (drop i s) \<and> (\<forall>j < i. \<not> prefix p (drop j s))"
proof (induction s arbitrary: i)
  case (Cons x xs)
  show ?case
  proof (cases "prefix p (x # xs)")
    case True
    then show ?thesis using Cons.prems prefix_length_le [OF True] by simp
  next
    case False
    then obtain k where k: "Index xs p = Some k" "i = Suc k" using Cons.prems by auto
    have "\<not> prefix p (drop j (x # xs))" if "j < i" for j
      using False Cons.IH [OF k(1)] that k(2) by (cases j) simp_all
    then show ?thesis using Cons.IH [OF k(1)] k(2) by simp
  qed
qed (simp split: if_splits)

lemma Index_split: "Index s p = Some i \<Longrightarrow> s = take i s @ p @ drop (i + length p) s"
proof -
  assume "Index s p = Some i"
  then have "prefix p (drop i s)" using Index_Some by blast
  then obtain r where "drop i s = p @ r" by (auto simp: prefix_def)
  moreover from this have "drop (i + length p) s = r" by (metis add.commute append_eq_conv_conj drop_drop)
  ultimately show ?thesis by (metis append_take_drop_id)
qed

lemma Index_take: "Index s p = Some i \<Longrightarrow> p \<noteq> [] \<Longrightarrow> \<not> Contains (take i s) p"
proof
  assume i: "Index s p = Some i" and p: "p \<noteq> []" and c: "Contains (take i s) p"
  then obtain a b where ab: "take i s = a @ p @ b" unfolding Contains_iff by blast
  have l: "i \<le> length s" using Index_Some [OF i] by simp
  then have "length a < i" using arg_cong [OF ab, of length] p by (cases p) simp_all
  moreover have "prefix p (drop (length a) s)"
  proof -
    have "s = a @ p @ b @ drop i s" using append_take_drop_id [of i s] ab by simp
    then have "drop (length a) s = p @ b @ drop i s" by (metis append_eq_conv_conj)
    then show ?thesis by simp
  qed
  ultimately show False using Index_Some [OF i] by blast
qed

definition LastIndex :: "string \<Rightarrow> string \<Rightarrow> nat option" where
  "LastIndex s p = map_option (\<lambda>i. length s - length p - i) (Index (rev s) (rev p))"

text \<open>\<^verbatim>\<open>strings.Fields\<close>: the maximal runs without white space.\<close>

fun fields_from :: "string \<Rightarrow> string \<Rightarrow> string list" where
  "fields_from w [] = (if w = [] then [] else [rev w])"
| "fields_from w (c # cs) = (if is_space c then (if w = [] then fields_from [] cs else rev w # fields_from [] cs) else fields_from (c # w) cs)"

definition Fields :: "string \<Rightarrow> string list" where
  "Fields s = fields_from [] s"

definition squeeze :: "string \<Rightarrow> string" where
  "squeeze s = Join (Fields s) '' ''"

definition word_text :: "string \<Rightarrow> bool" where
  "word_text f = list_all (\<lambda>c. \<not> is_space c) f"

lemma word_text_simps [simp]: "word_text []" "word_text (c # f) = (\<not> is_space c \<and> word_text f)" "word_text (rev f) = word_text f"
  by (simp_all add: word_text_def list_all_iff)

lemma fields_from_words: "word_text w \<Longrightarrow> list_all (\<lambda>f. f \<noteq> [] \<and> word_text f) (fields_from w s)"
proof (induction w s rule: fields_from.induct)
  case (2 w c cs)
  then show ?case by (cases "is_space c"; cases "w = []") simp_all
qed simp

lemma Fields_are_words: "list_all (\<lambda>f. f \<noteq> [] \<and> word_text f) (Fields s)"
  by (simp add: Fields_def fields_from_words)

text \<open>Text that is already squeezed is left alone.\<close>

lemma fields_from_run: "word_text u \<Longrightarrow> fields_from w (u @ s) = fields_from (rev u @ w) s"
  by (induction u arbitrary: w) simp_all

lemma Fields_Join: "list_all (\<lambda>f. f \<noteq> [] \<and> word_text f) fs \<Longrightarrow> Fields (Join fs '' '') = fs"
proof (induction fs)
  case (Cons f fs)
  show ?case
  proof (cases fs)
    case Nil
    then show ?thesis using Cons.prems fields_from_run [of f "[]" "[]"] by (simp add: Fields_def)
  next
    case (Cons g gs)
    have "Fields (f @ '' '' @ Join fs '' '') = f # Fields (Join fs '' '')"
      using Cons.prems fields_from_run [of f "[]" "'' '' @ Join fs '' ''"] by (simp add: Fields_def is_space_def)
    then show ?thesis using Cons.IH Cons.prems \<open>fs = g # gs\<close> by simp
  qed
qed (simp add: Fields_def)

lemma squeeze_idem: "squeeze (squeeze s) = squeeze s"
  unfolding squeeze_def by (simp only: Fields_Join [OF Fields_are_words])

text \<open>\<^verbatim>\<open>strings.SplitN(s, sep, 2)\<close>: what precedes the separator, and what follows it if there is one.\<close>

fun split2 :: "string \<Rightarrow> char \<Rightarrow> string \<times> string option" where
  "split2 [] c = ([], None)"
| "split2 (x # xs) c = (if x = c then ([], Some xs) else (case split2 xs c of (a, b) \<Rightarrow> (x # a, b)))"

definition TrimSet :: "string \<Rightarrow> string \<Rightarrow> string" where
  "TrimSet cs s = TrimRightFn (\<lambda>c. c \<in> set cs) (TrimLeftFn (\<lambda>c. c \<in> set cs) s)"

section \<open>Words\<close>

text \<open>A byte of a word, as \<^verbatim>\<open>\b\<close> has it.\<close>

definition word_byte :: "char \<Rightarrow> bool" where
  "word_byte c = (c \<in> set ''_0123456789abcdefghijklmnopqrstuvwxyzABCDEFGHIJKLMNOPQRSTUVWXYZ'')"

definition starts_word :: "char option \<Rightarrow> bool" where
  "starts_word prev = (case prev of None \<Rightarrow> True | Some c \<Rightarrow> \<not> word_byte c)"

definition ends_word :: "string \<Rightarrow> bool" where
  "ends_word s = (case s of [] \<Rightarrow> True | c # _ \<Rightarrow> \<not> word_byte c)"

text \<open>The number of matches of \<^verbatim>\<open>(?i)\bWORD\b\<close>, of a word in a text that are both in upper case, after the byte \<open>prev\<close>.\<close>

fun count_word :: "string \<Rightarrow> char option \<Rightarrow> string \<Rightarrow> nat" where
  "count_word p prev [] = 0"
| "count_word p prev (c # cs) =
     (if prefix p (c # cs) then (if starts_word prev \<and> ends_word (drop (length p) (c # cs)) then 1 else 0) else 0) + count_word p (Some c) cs"

definition word_count :: "string \<Rightarrow> string \<Rightarrow> nat" where
  "word_count p s = count_word (ToUpper p) None (ToUpper s)"

definition has_word :: "string \<Rightarrow> string \<Rightarrow> bool" where
  "has_word p s = (word_count p s \<noteq> 0)"

end
