(* ===== verification/Api_Records.thy ===== *)
theory Api_Records
  imports Go_Strconv Go_Text
begin

text \<open>
  The database interface (\<^verbatim>\<open>components/api/api.go\<close>): records of collections, one table each. The database is
  the set of its tables; the model evaluates the statements that the code builds, with \<^verbatim>\<open>WHERE\<close> clauses as
  token lists, since what they mean depends on how SQL groups \<^verbatim>\<open>AND\<close> and \<^verbatim>\<open>OR\<close>. Names of tables are case
  insensitive in the database and case sensitive in the code. A request carries the failures of the
  database, the identifier it assigns and its functions (JSON tests, orders, the number a text denotes).
\<close>

section \<open>State\<close>

datatype jval = JInt int | JText string

text \<open>A decoded JSON object; \<open>None\<close> is the nil map that \<^verbatim>\<open>null\<close> decodes to.\<close>

type_synonym jobj = "(string, jval) go_map option"

record rec_row =
  ar_id :: int
  ar_org :: int
  ar_data :: jobj

text \<open>A table, the name it was created with, and whether it has the columns \<open>data\<close> and \<open>org_id\<close>.\<close>

record rec_table =
  tb_name :: string
  tb_rows :: "rec_row list"
  tb_data :: bool
  tb_org :: bool

record API =
  ap_db :: "(string, rec_table) go_map"
  ap_tables :: "string list"

definition internalTables :: "string list" where
  "internalTables = [''users'', ''storage_files'', ''git_repos'', ''git_ssh_keys'', ''forge_issues'', ''forge_labels'', ''forge_comments'',
     ''forge_wiki'', ''cici_logs'', ''cici_runs'', ''cici_workflows'', ''deployments'', ''functions'', ''messages'']"

datatype num_op = Gt | Gte | Lt | Lte

datatype field_test = IsNull string | IsEmpty string | IsEq string string | IsNum num_op string string | IsNot string string | IsLike string string

record api_env =
  ae_migrate :: bool
  ae_alter :: bool
  ae_query :: bool
  ae_scan :: bool
  ae_exec :: bool
  ae_newid :: int
  ae_holds :: "field_test \<Rightarrow> jobj \<Rightarrow> bool"
  ae_order :: "(string \<times> bool) option \<Rightarrow> rec_row list \<Rightarrow> rec_row list"
  ae_ident :: "string \<Rightarrow> int option"
  ae_names :: "string list \<Rightarrow> string list"

text \<open>The organization is the one in the request's context; the body is \<open>None\<close> when it does not decode.\<close>

record api_req =
  aq_method :: string
  aq_path :: string
  aq_org :: "int option"
  aq_body :: "jobj option"
  aq_query :: "(string \<times> string) list"
  aq_site :: string

datatype id_ref = RefInt int | RefText string | RefNil

datatype api_body = BErr string | BBadChar char | BData "(string, jval) go_map list" | BRecord "(string, jval) go_map" | BId int | BStatus string | BNames "string list"

text \<open>A mutation event: its type, the collection, the record and the site.\<close>

type_synonym mutation = "string \<times> string \<times> id_ref \<times> string"

datatype api_resp = Resp nat api_body "mutation list" | Panicked

definition reply :: "nat \<Rightarrow> string \<Rightarrow> api_resp" where
  "reply code msg = Resp code (BErr msg) []"

definition internal_error :: api_resp where "internal_error = reply 500 ''internal error''"
definition not_found :: api_resp where "not_found = reply 404 ''not found''"

section \<open>Names\<close>

datatype name_error = NameRequired | BadChar char

definition name_byte :: "char \<Rightarrow> bool" where
  "name_byte c = word_byte c"

definition sanitize :: "string \<Rightarrow> (name_error, string) res" where
  "sanitize name = (if name = [] then Inl NameRequired
     else case find (\<lambda>c. \<not> name_byte c) name of Some c \<Rightarrow> Inl (BadChar c) | None \<Rightarrow> Inr name)"

definition name_reply :: "name_error \<Rightarrow> api_resp" where
  "name_reply err = (case err of NameRequired \<Rightarrow> reply 400 ''collection name required'' | BadChar c \<Rightarrow> Resp 400 (BBadChar c) [])"

section \<open>Filters and order\<close>

definition parseFilterExpr :: "string \<Rightarrow> string \<times> string \<times> string" where
  "parseFilterExpr raw = (let colon = IndexByte raw CHR '':''; eq = IndexByte raw CHR ''='' in
     case (colon, eq) of
       (Some (Suc i), e) \<Rightarrow>
         if (case e of None \<Rightarrow> True | Some j \<Rightarrow> Suc i < j)
         then (let after = drop (Suc (Suc i)) raw in
           (case IndexByte after CHR ''='' of
              None \<Rightarrow> (take (Suc i) raw, ''eq'', after)
            | Some k \<Rightarrow> (take (Suc i) raw, take k after, drop (Suc k) after)))
         else (case e of Some (Suc j) \<Rightarrow> (take (Suc j) raw, ''eq'', drop (Suc (Suc j)) raw) | _ \<Rightarrow> (raw, ''eq'', []))
     | (_, Some (Suc j)) \<Rightarrow> (take (Suc j) raw, ''eq'', drop (Suc (Suc j)) raw)
     | _ \<Rightarrow> (raw, ''eq'', []))"

datatype sql_test = OrgIs int | OnField field_test

datatype sql_tok = Tst sql_test | AND_tok | OR_tok

definition filter_clause :: "string \<Rightarrow> string \<Rightarrow> string \<Rightarrow> sql_tok list list" where
  "filter_clause field op v =
     (if op = ''eq'' \<or> op = [] then
        (if v = [] then [[Tst (OnField (IsNull field)), OR_tok, Tst (OnField (IsEmpty field))]] else [[Tst (OnField (IsEq field v))]])
      else if op = ''gt'' then [[Tst (OnField (IsNum Gt field v))]]
      else if op = ''gte'' then [[Tst (OnField (IsNum Gte field v))]]
      else if op = ''lt'' then [[Tst (OnField (IsNum Lt field v))]]
      else if op = ''lte'' then [[Tst (OnField (IsNum Lte field v))]]
      else if op = ''ne'' then [[Tst (OnField (IsNot field v))]]
      else if op = ''like'' then [[Tst (OnField (IsLike field v))]]
      else [])"

definition query_values :: "string \<Rightarrow> (string \<times> string) list \<Rightarrow> string list" where
  "query_values k q = map snd (filter (\<lambda>p. fst p = k) q)"

definition query_get :: "string \<Rightarrow> (string \<times> string) list \<Rightarrow> string" where
  "query_get k q = (case query_values k q of [] \<Rightarrow> [] | v # _ \<Rightarrow> v)"

definition parse_filter :: "string \<Rightarrow> sql_tok list list" where
  "parse_filter raw = (case parseFilterExpr raw of (field, op, v) \<Rightarrow>
     (case sanitize field of Inl _ \<Rightarrow> [] | Inr _ \<Rightarrow> filter_clause field op v))"

definition parseFilters :: "(string \<times> string) list \<Rightarrow> sql_tok list list" where
  "parseFilters q = concat (map parse_filter (query_values ''filter'' q))"

text \<open>The \<^verbatim>\<open>ORDER BY\<close> clause: the field and whether it is descending; \<open>None\<close> orders by the identifier.\<close>

definition parseSort :: "(string \<times> string) list \<Rightarrow> (string \<times> bool) option" where
  "parseSort q = (let raw = query_get ''sort'' q in
     if raw = [] then None
     else let desc = HasPrefix raw ''-''; field = (if desc then tl raw else raw) in
       (case sanitize field of Inl _ \<Rightarrow> None | Inr _ \<Rightarrow> Some (field, desc)))"

text \<open>The clauses are joined with \<^verbatim>\<open>AND\<close>, without parentheses; no clauses, no \<^verbatim>\<open>WHERE\<close>.\<close>

fun join_and :: "sql_tok list list \<Rightarrow> sql_tok list" where
  "join_and [] = []"
| "join_and [c] = c"
| "join_and (c # cs) = c @ AND_tok # join_and cs"

definition where_clause :: "int option \<Rightarrow> sql_tok list list \<Rightarrow> sql_tok list" where
  "where_clause org filters = join_and ((case org of None \<Rightarrow> [] | Some g \<Rightarrow> [[Tst (OrgIs g)]]) @ filters)"

text \<open>SQL's reading of a condition: \<^verbatim>\<open>AND\<close> binds tighter than \<^verbatim>\<open>OR\<close>; a comparison with NULL does not hold.\<close>

fun sql_holds :: "(sql_test \<Rightarrow> bool) \<Rightarrow> bool \<Rightarrow> sql_tok list \<Rightarrow> bool" where
  "sql_holds h acc [] = acc"
| "sql_holds h acc (Tst t # ts) = sql_holds h (acc \<and> h t) ts"
| "sql_holds h acc (AND_tok # ts) = sql_holds h acc ts"
| "sql_holds h acc (OR_tok # ts) = (acc \<or> sql_holds h True ts)"

definition row_test :: "(field_test \<Rightarrow> jobj \<Rightarrow> bool) \<Rightarrow> rec_row \<Rightarrow> sql_test \<Rightarrow> bool" where
  "row_test J r t = (case t of OrgIs g \<Rightarrow> ar_org r = g | OnField f \<Rightarrow> J f (ar_data r))"

section \<open>Tables\<close>

definition table_of :: "string \<Rightarrow> API \<Rightarrow> rec_table option" where
  "table_of c s = map_of (ap_db s) (ToLower c)"

text \<open>
  Creating the table unless it exists, and adding the column of the organization to a table that lacks it,
  whose rows then belong to organization 0. A name that the database refuses is a failure to create.
\<close>

definition ensureTable :: "api_env \<Rightarrow> string \<Rightarrow> API \<Rightarrow> API option" where
  "ensureTable e c s =
     (if c \<in> set (ap_tables s) then Some s
      else if \<not> ae_migrate e then None
      else (case table_of c s of
          None \<Rightarrow> Some (s\<lparr> ap_db := map_put (ToLower c) \<lparr> tb_name = c, tb_rows = [], tb_data = True, tb_org = True \<rparr> (ap_db s),
                            ap_tables := c # ap_tables s \<rparr>)
        | Some t \<Rightarrow>
            Some (s\<lparr> ap_db := (if tb_org t \<or> \<not> ae_alter e then ap_db s
                                else map_put (ToLower c) (t\<lparr> tb_org := True, tb_rows := map (\<lambda>r. r\<lparr> ar_org := 0 \<rparr>) (tb_rows t) \<rparr>) (ap_db s)),
                     ap_tables := c # ap_tables s \<rparr>)))"

definition with_rows :: "string \<Rightarrow> (rec_row list \<Rightarrow> rec_row list) \<Rightarrow> API \<Rightarrow> API" where
  "with_rows c f s = (case table_of c s of None \<Rightarrow> s | Some t \<Rightarrow> s\<lparr> ap_db := map_put (ToLower c) (t\<lparr> tb_rows := f (tb_rows t) \<rparr>) (ap_db s) \<rparr>)"

definition id_matches :: "api_env \<Rightarrow> string \<Rightarrow> rec_row \<Rightarrow> bool" where
  "id_matches e i r = (ae_ident e i = Some (ar_id r))"

text \<open>The row of an identifier; reading \<open>data\<close> needs that column too.\<close>

definition find_row :: "api_env \<Rightarrow> bool \<Rightarrow> string \<Rightarrow> string \<Rightarrow> API \<Rightarrow> rec_row option" where
  "find_row e data c i s = (case table_of c s of
     None \<Rightarrow> None
   | Some t \<Rightarrow> if \<not> ae_query e \<or> \<not> tb_org t \<or> (data \<and> \<not> tb_data t) then None else find (id_matches e i) (tb_rows t))"

section \<open>Operations\<close>

text \<open>What is shown of a record: the identifier, then the fields of the data, which may overwrite it.\<close>

fun put_fields :: "(string, jval) go_map \<Rightarrow> (string, jval) go_map \<Rightarrow> (string, jval) go_map" where
  "put_fields [] m = m"
| "put_fields ((k, v) # kvs) m = put_fields kvs (map_put k v m)"

definition show_record :: "rec_row \<Rightarrow> (string, jval) go_map" where
  "show_record r = put_fields (case ar_data r of None \<Rightarrow> [] | Some d \<Rightarrow> d) [(''id'', JInt (ar_id r))]"

definition page_limit :: "(string \<times> string) list \<Rightarrow> nat" where
  "page_limit q = (case Atoi (query_get ''limit'' q) of Some v \<Rightarrow> if v > 0 \<and> v \<le> 1000 then nat v else 100 | None \<Rightarrow> 100)"

definition page_offset :: "(string \<times> string) list \<Rightarrow> nat" where
  "page_offset q = (case Atoi (query_get ''offset'' q) of Some v \<Rightarrow> if v \<ge> 0 then nat v else 0 | None \<Rightarrow> 0)"

definition listRecords :: "api_env \<Rightarrow> api_req \<Rightarrow> string \<Rightarrow> API \<Rightarrow> API \<times> api_resp" where
  "listRecords e q c s = (case ensureTable e c s of
     None \<Rightarrow> (s, internal_error)
   | Some s1 \<Rightarrow> (let cond = where_clause (aq_org q) (parseFilters (aq_query q)) in
       (case table_of c s1 of
          None \<Rightarrow> (s1, internal_error)
        | Some t \<Rightarrow>
            if \<not> ae_query e \<or> \<not> tb_data t \<or> (aq_org q \<noteq> None \<and> \<not> tb_org t) then (s1, internal_error)
            else if \<not> ae_scan e then (s1, internal_error)
            else let hits = ae_order e (parseSort (aq_query q)) (filter (\<lambda>r. sql_holds (row_test (ae_holds e) r) True cond) (tb_rows t)) in
              (s1, Resp 200 (BData (map show_record (take (page_limit (aq_query q)) (drop (page_offset (aq_query q)) hits)))) []))))"

definition getRecord :: "api_env \<Rightarrow> api_req \<Rightarrow> string \<Rightarrow> string \<Rightarrow> API \<Rightarrow> API \<times> api_resp" where
  "getRecord e q c i s = (case ensureTable e c s of
     None \<Rightarrow> (s, internal_error)
   | Some s1 \<Rightarrow> (s1, case find_row e True c i s1 of
         None \<Rightarrow> not_found
       | Some r \<Rightarrow> if aq_org q \<noteq> None \<and> aq_org q \<noteq> Some (ar_org r) then reply 403 ''access denied'' else Resp 200 (BRecord (show_record r)) []))"

definition siteIDFromRequest :: "api_req \<Rightarrow> string" where
  "siteIDFromRequest q = TrimSpace (aq_site q)"

definition emitMutation :: "string \<Rightarrow> string \<Rightarrow> id_ref \<Rightarrow> api_req \<Rightarrow> mutation list" where
  "emitMutation typ c i q = [(typ, c, i, siteIDFromRequest q)]"

definition createRecord :: "api_env \<Rightarrow> api_req \<Rightarrow> string \<Rightarrow> API \<Rightarrow> API \<times> api_resp" where
  "createRecord e q c s = (case ensureTable e c s of
     None \<Rightarrow> (s, internal_error)
   | Some s1 \<Rightarrow> (case aq_body q of
         None \<Rightarrow> (s1, reply 400 ''invalid json or body too large'')
       | Some body \<Rightarrow>
           (case table_of c s1 of
              None \<Rightarrow> (s1, internal_error)
            | Some t \<Rightarrow>
                if \<not> ae_exec e \<or> \<not> tb_data t \<or> \<not> tb_org t then (s1, internal_error)
                else (with_rows c (\<lambda>rs. rs @ [\<lparr> ar_id = ae_newid e, ar_org = (case aq_org q of None \<Rightarrow> 0 | Some g \<Rightarrow> g), ar_data = body \<rparr>]) s1,
                      Resp 201 (BId (ae_newid e)) (emitMutation ''create'' c (RefInt (ae_newid e)) q)))))"

text \<open>The fields of the body replace those of the record; writing into a nil map panics.\<close>

definition merge :: "jobj \<Rightarrow> jobj \<Rightarrow> jobj option" where
  "merge existing body = (case body of
     None \<Rightarrow> Some existing
   | Some b \<Rightarrow> (case existing of None \<Rightarrow> if b = [] then Some None else None | Some d \<Rightarrow> Some (Some (put_fields b d))))"

definition updateRecord :: "api_env \<Rightarrow> api_req \<Rightarrow> string \<Rightarrow> string \<Rightarrow> API \<Rightarrow> API \<times> api_resp" where
  "updateRecord e q c i s = (case ensureTable e c s of
     None \<Rightarrow> (s, internal_error)
   | Some s1 \<Rightarrow> (case aq_body q of
         None \<Rightarrow> (s1, reply 400 ''invalid json or body too large'')
       | Some body \<Rightarrow>
           (case find_row e True c i s1 of
              None \<Rightarrow> (s1, not_found)
            | Some r \<Rightarrow>
                if aq_org q \<noteq> None \<and> aq_org q \<noteq> Some (ar_org r) then (s1, reply 403 ''access denied'')
                else (case merge (ar_data r) body of
                    None \<Rightarrow> (s1, Panicked)
                  | Some merged \<Rightarrow>
                      if \<not> ae_exec e then (s1, internal_error)
                      else (with_rows c (map (\<lambda>x. if id_matches e i x then x\<lparr> ar_data := merged \<rparr> else x)) s1,
                            Resp 200 (BStatus ''updated'') (emitMutation ''update'' c (RefText i) q))))))"

definition deleteRecord :: "api_env \<Rightarrow> api_req \<Rightarrow> string \<Rightarrow> string \<Rightarrow> API \<Rightarrow> API \<times> api_resp" where
  "deleteRecord e q c i s = (case ensureTable e c s of
     None \<Rightarrow> (s, internal_error)
   | Some s1 \<Rightarrow>
       (case (case aq_org q of
                None \<Rightarrow> None
              | Some g \<Rightarrow> (case find_row e False c i s1 of
                  None \<Rightarrow> Some not_found
                | Some r \<Rightarrow> if ar_org r \<noteq> g then Some (reply 403 ''access denied'') else None)) of
          Some a \<Rightarrow> (s1, a)
        | None \<Rightarrow>
            if \<not> ae_exec e then (s1, internal_error)
            else (case table_of c s1 of
                None \<Rightarrow> (s1, internal_error)
              | Some t \<Rightarrow>
                  if \<not> list_ex (id_matches e i) (tb_rows t) then (s1, not_found)
                  else (with_rows c (filter (\<lambda>r. \<not> id_matches e i r)) s1, Resp 200 (BStatus ''deleted'') (emitMutation ''delete'' c (RefText i) q)))))"

definition fetchCollectionNames :: "api_env \<Rightarrow> API \<Rightarrow> string list" where
  "fetchCollectionNames e s = filter (\<lambda>n. n \<notin> set internalTables) (ae_names e (map (tb_name \<circ> snd) (ap_db s)))"

definition listCollections :: "api_env \<Rightarrow> api_req \<Rightarrow> API \<Rightarrow> api_resp" where
  "listCollections e q s =
     (if aq_method q \<noteq> ''GET'' then reply 405 ''method not allowed''
      else if \<not> ae_query e then internal_error
      else Resp 200 (BNames (fetchCollectionNames e s)) [])"

definition handleCollection :: "api_env \<Rightarrow> api_req \<Rightarrow> API \<Rightarrow> API \<times> api_resp" where
  "handleCollection e q s = (case split2 (TrimPrefix (aq_path q) ''/api/collections/'') CHR ''/'' of (name, rest) \<Rightarrow>
     if name = [] then (s, listCollections e q s)
     else (case sanitize name of
         Inl err \<Rightarrow> (s, name_reply err)
       | Inr c \<Rightarrow>
           if c \<in> set internalTables then (s, not_found)
           else let i = (case rest of None \<Rightarrow> [] | Some x \<Rightarrow> x) in
             if aq_method q = ''GET'' then (if i \<noteq> [] then getRecord e q c i s else listRecords e q c s)
             else if aq_method q = ''POST'' then createRecord e q c s
             else if aq_method q = ''PATCH'' then (if i \<noteq> [] then updateRecord e q c i s else (s, reply 400 ''id required''))
             else if aq_method q = ''DELETE'' then (if i \<noteq> [] then deleteRecord e q c i s else (s, reply 400 ''id required''))
             else (s, reply 405 ''method not allowed'')))"

section \<open>Scaffolding\<close>

definition handleScaffoldDB :: "api_env \<Rightarrow> api_req \<Rightarrow> string option \<Rightarrow> API \<Rightarrow> API \<times> api_resp" where
  "handleScaffoldDB e q body s =
     (if aq_method q \<noteq> ''POST'' then (s, reply 405 ''method not allowed'')
      else (case body of
          None \<Rightarrow> (s, reply 400 ''invalid JSON'')
        | Some raw \<Rightarrow> (let name = TrimSpace raw in
            if name = [] then (s, reply 400 ''name is required'')
            else (case sanitize name of
                Inl err \<Rightarrow> (s, name_reply err)
              | Inr tn \<Rightarrow>
                  if tn \<in> set internalTables then (s, reply 400 ''reserved name'')
                  else (case ensureTable e tn s of
                      None \<Rightarrow> (s, internal_error)
                    | Some s1 \<Rightarrow> (s1, Resp 201 (BStatus tn) (emitMutation ''scaffold_db'' tn RefNil q)))))))"

end
