(* ===== verification/Api_Tenancy.thy ===== *)
theory Api_Tenancy
  imports Api_Records Org_Isolation
begin

text \<open>
  What the collections promise each organization. The reference is a server with one tenant: it knows only
  the rows of that organization and never compares organizations (\<open>own_op\<close>). Every handler answers and
  changes the rows like it, up to one bit: a record of another organization answers 403 instead of 404.
  Listings agree only while no filter asks for an empty value: that filter escapes the organization.
\<close>

section \<open>Rows\<close>

definition rows :: "string \<Rightarrow> API \<Rightarrow> rec_row list" where
  "rows k s = (case map_of (ap_db s) k of None \<Rightarrow> [] | Some t \<Rightarrow> tb_rows t)"

definition own :: "int option \<Rightarrow> rec_row list \<Rightarrow> rec_row list" where
  "own g rs = filter (\<lambda>r. Some (ar_org r) = g) rs"

definition table_ok :: "rec_table \<Rightarrow> bool" where
  "table_ok t = (tb_data t \<and> tb_org t \<and> distinct (map ar_id (tb_rows t)))"

definition api_ok :: "API \<Rightarrow> bool" where
  "api_ok s = (list_all (\<lambda>p. table_ok (snd p)) (ap_db s) \<and> list_all (\<lambda>c. table_of c s \<noteq> None) (ap_tables s))"

lemma tables_put: "list_all (\<lambda>p. table_ok (snd p)) m \<Longrightarrow> table_ok v \<Longrightarrow> list_all (\<lambda>p. table_ok (snd p)) (map_put k v m)"
  by (induction m) auto

lemma tables_get: "list_all (\<lambda>p. table_ok (snd p)) m \<Longrightarrow> map_of m k = Some t \<Longrightarrow> table_ok t"
  by (induction m) (auto split: if_splits)

lemma api_ok_table: "api_ok s \<Longrightarrow> table_of c s = Some t \<Longrightarrow> table_ok t"
  by (auto simp: api_ok_def table_of_def intro: tables_get)

lemma table_of_put: "table_of c' (s\<lparr> ap_db := map_put (ToLower c) t (ap_db s) \<rparr>) = (if ToLower c' = ToLower c then Some t else table_of c' s)"
  by (simp add: table_of_def)

lemma ensure_ok:
  assumes ok: "api_ok s" and m: "ae_migrate e"
  obtains s1 t where "ensureTable e c s = Some s1" "api_ok s1" "table_of c s1 = Some t" "table_ok t" "tb_rows t = rows (ToLower c) s"
    "\<And>k. rows k s1 = rows k s"
proof (cases "table_of c s")
  case None
  then have c: "c \<notin> set (ap_tables s)" using ok by (auto simp: api_ok_def list_all_iff)
  define t where "t = \<lparr> tb_name = c, tb_rows = [], tb_data = True, tb_org = True \<rparr>"
  define s1 where "s1 = s\<lparr> ap_db := map_put (ToLower c) t (ap_db s), ap_tables := c # ap_tables s \<rparr>"
  have e: "ensureTable e c s = Some s1" using c m None by (simp add: ensureTable_def s1_def t_def)
  have t: "table_ok t" by (simp add: table_ok_def t_def)
  have t1: "table_of c' s1 = (if ToLower c' = ToLower c then Some t else table_of c' s)" for c' by (simp add: s1_def table_of_def)
  have "list_all (\<lambda>p. table_ok (snd p)) (ap_db s1)" using ok by (auto simp: api_ok_def s1_def intro: tables_put [OF _ t])
  moreover have "list_all (\<lambda>c'. table_of c' s1 \<noteq> None) (ap_tables s1)" unfolding t1 using ok by (auto simp: api_ok_def s1_def list_all_iff)
  ultimately have "api_ok s1" by (simp add: api_ok_def)
  moreover have "rows k s1 = rows k s" for k using None by (simp add: rows_def s1_def table_of_def t_def)
  moreover have "tb_rows t = rows (ToLower c) s" using None by (simp add: rows_def table_of_def t_def)
  ultimately show ?thesis using that [OF e _ _ t] t1 by simp
next
  case (Some t)
  have t: "table_ok t" using api_ok_table [OF ok Some] .
  define s1 where "s1 = (if c \<in> set (ap_tables s) then s else s\<lparr> ap_tables := c # ap_tables s \<rparr>)"
  have e: "ensureTable e c s = Some s1" using m Some t by (auto simp: ensureTable_def s1_def table_ok_def)
  have t1: "table_of c' s1 = table_of c' s" for c' by (simp add: s1_def table_of_def)
  have "api_ok s1" using ok t1 Some by (auto simp: api_ok_def s1_def table_of_def)
  moreover have "rows k s1 = rows k s" for k by (simp add: rows_def s1_def)
  moreover have "tb_rows t = rows (ToLower c) s" using Some by (simp add: rows_def table_of_def)
  ultimately show ?thesis using that [OF e _ _ t] t1 Some by simp
qed

lemma with_rows_effect:
  assumes ok: "api_ok s" and t: "table_of c s = Some t" and d: "distinct (map ar_id (f (tb_rows t)))"
  shows "api_ok (with_rows c f s)" "rows k (with_rows c f s) = (if k = ToLower c then f (rows k s) else rows k s)"
proof -
  have tk: "table_ok (t\<lparr> tb_rows := f (tb_rows t) \<rparr>)" using api_ok_table [OF ok t] d by (simp add: table_ok_def)
  have "table_of c' (with_rows c f s) \<noteq> None" if "table_of c' s \<noteq> None" for c'
    using t that by (simp add: with_rows_def table_of_def)
  moreover have "ap_tables (with_rows c f s) = ap_tables s" using t by (simp add: with_rows_def)
  moreover have "list_all (\<lambda>p. table_ok (snd p)) (ap_db (with_rows c f s))" using ok t by (auto simp: api_ok_def with_rows_def intro: tables_put [OF _ tk])
  ultimately show "api_ok (with_rows c f s)" using ok by (simp add: api_ok_def list_all_iff)
  show "rows k (with_rows c f s) = (if k = ToLower c then f (rows k s) else rows k s)"
    using t by (simp add: rows_def with_rows_def table_of_def)
qed

section \<open>Changes of a table\<close>

datatype row_change = Keep | Add rec_row | Put int jobj | Del int

fun apply_rows :: "row_change \<Rightarrow> rec_row list \<Rightarrow> rec_row list" where
  "apply_rows Keep rs = rs"
| "apply_rows (Add r) rs = rs @ [r]"
| "apply_rows (Put i d) rs = map (\<lambda>r. if ar_id r = i then r\<lparr> ar_data := d \<rparr> else r) rs"
| "apply_rows (Del i) rs = filter (\<lambda>r. ar_id r \<noteq> i) rs"

fun change_of :: "int option \<Rightarrow> int \<Rightarrow> row_change \<Rightarrow> rec_row list \<Rightarrow> bool" where
  "change_of g i Keep rs = True"
| "change_of g i (Add r) rs = (Some (ar_org r) = g \<and> ar_id r = i)"
| "change_of g i (Put j d) rs = (j \<in> ar_id ` set (own g rs))"
| "change_of g i (Del j) rs = (j \<in> ar_id ` set (own g rs))"

lemma same_id: "distinct (map ar_id rs) \<Longrightarrow> x \<in> set rs \<Longrightarrow> y \<in> set rs \<Longrightarrow> ar_id x = ar_id y \<Longrightarrow> x = y"
  by (metis distinct_map inj_onD)

lemma own_change:
  assumes d: "distinct (map ar_id rs)" and c: "change_of g i ch rs"
  shows "own h (apply_rows ch rs) = (if h = g then apply_rows ch (own h rs) else own h rs)"
proof -
  have ids: "(ar_id x = j) = (\<exists>r. r \<in> set rs \<and> x = r \<and> ar_id r = j \<and> Some (ar_org r) = g)" if "x \<in> set rs" "j \<in> ar_id ` set (own g rs)" for x j
    using that same_id [OF d] by (auto simp: own_def)
  show ?thesis
  proof (cases ch)
    case (Put j v)
    have "own h (map (\<lambda>r. if ar_id r = j then r\<lparr> ar_data := v \<rparr> else r) rs) = map (\<lambda>r. if ar_id r = j then r\<lparr> ar_data := v \<rparr> else r) (own h rs)"
      by (simp add: own_def filter_map o_def if_distrib cong: if_cong)
    moreover have "map (\<lambda>r. if ar_id r = j then r\<lparr> ar_data := v \<rparr> else r) (own h rs) = own h rs" if "h \<noteq> g"
      using ids c Put that by (intro map_idI) (fastforce simp: own_def)
    ultimately show ?thesis using Put by simp
  next
    case (Del j)
    have "own h (filter (\<lambda>r. ar_id r \<noteq> j) rs) = filter (\<lambda>r. ar_id r \<noteq> j) (own h rs)" by (simp add: own_def conj_commute)
    moreover have "filter (\<lambda>r. ar_id r \<noteq> j) (own h rs) = own h rs" if "h \<noteq> g"
      using ids c Del that by (intro filter_True) (fastforce simp: own_def)
    ultimately show ?thesis using Del by simp
  qed (use c in \<open>auto simp: own_def\<close>)
qed

lemma change_distinct: "distinct (map ar_id rs) \<Longrightarrow> change_of g i ch rs \<Longrightarrow> (\<forall>r. ch = Add r \<longrightarrow> i \<notin> ar_id ` set rs) \<Longrightarrow> distinct (map ar_id (apply_rows ch rs))"
proof (cases ch)
  case (Put j d)
  have "map ar_id (map (\<lambda>r. if ar_id r = j then r\<lparr> ar_data := d \<rparr> else r) rs) = map ar_id rs" by (simp add: o_def if_distrib cong: if_cong)
  then show "distinct (map ar_id rs) \<Longrightarrow> ?thesis" using Put by (simp del: map_map)
qed (auto simp: distinct_map_filter)

lemma change_ids: "change_of g i ch rs \<Longrightarrow> ar_id ` set (apply_rows ch rs) \<subseteq> insert i (ar_id ` set rs)"
  by (cases ch) (auto simp: own_def)

section \<open>Conditions\<close>

lemma sql_holds_and: "OR_tok \<notin> set ts \<Longrightarrow> sql_holds h acc ts = (acc \<and> (\<forall>t. Tst t \<in> set ts \<longrightarrow> h t))"
  by (induction h acc ts rule: sql_holds.induct) auto

lemma join_and_tests: "Tst t \<in> set (join_and cs) \<longleftrightarrow> Tst t \<in> set (concat cs)" "OR_tok \<in> set (join_and cs) \<longleftrightarrow> OR_tok \<in> set (concat cs)"
  by (induction cs rule: join_and.induct) auto

definition no_or :: "sql_tok list list \<Rightarrow> bool" where
  "no_or cs = list_all (\<lambda>c. OR_tok \<notin> set c) cs"

lemma where_own:
  assumes "no_or fs"
  shows "filter (\<lambda>r. sql_holds (row_test J r) True (where_clause (Some g) fs)) rs
    = filter (\<lambda>r. sql_holds (row_test J r) True (join_and fs)) (own (Some g) rs)"
proof -
  have o: "OR_tok \<notin> set (join_and fs)" "OR_tok \<notin> set (where_clause (Some g) fs)"
    using assms by (auto simp: no_or_def list_all_iff join_and_tests where_clause_def)
  have "sql_holds (row_test J r) True (where_clause (Some g) fs) = (ar_org r = g \<and> sql_holds (row_test J r) True (join_and fs))" for r
    unfolding sql_holds_and [OF o(1)] sql_holds_and [OF o(2)] by (auto simp: where_clause_def join_and_tests row_test_def)
  then show ?thesis by (simp add: own_def conj_commute)
qed

section \<open>The reference: a server with one tenant\<close>

definition own_op :: "api_env \<Rightarrow> api_req \<Rightarrow> string \<Rightarrow> string \<Rightarrow> rec_row list \<Rightarrow> row_change \<times> api_resp" where
  "own_op e q c i rs =
     (let get = (if ae_query e then find (id_matches e i) rs else None) in
      if aq_method q = ''GET'' then
        (if i \<noteq> [] then (Keep, case get of None \<Rightarrow> not_found | Some r \<Rightarrow> Resp 200 (BRecord (show_record r)) [])
         else (Keep, if \<not> ae_query e \<or> \<not> ae_scan e then internal_error
           else Resp 200 (BData (map show_record (take (page_limit (aq_query q)) (drop (page_offset (aq_query q)) (ae_order e (parseSort (aq_query q))
             (filter (\<lambda>r. sql_holds (row_test (ae_holds e) r) True (join_and (parseFilters (aq_query q)))) rs)))))) []))
      else if aq_method q = ''POST'' then
        (case aq_body q of None \<Rightarrow> (Keep, reply 400 ''invalid json or body too large'')
         | Some body \<Rightarrow> if \<not> ae_exec e then (Keep, internal_error)
             else (Add \<lparr> ar_id = ae_newid e, ar_org = the (aq_org q), ar_data = body \<rparr>, Resp 201 (BId (ae_newid e)) (emitMutation ''create'' c (RefInt (ae_newid e)) q)))
      else if aq_method q = ''PATCH'' then
        (if i = [] then (Keep, reply 400 ''id required'')
         else (case aq_body q of None \<Rightarrow> (Keep, reply 400 ''invalid json or body too large'')
           | Some body \<Rightarrow> (case get of None \<Rightarrow> (Keep, not_found)
               | Some r \<Rightarrow> (case merge (ar_data r) body of None \<Rightarrow> (Keep, Panicked)
                   | Some merged \<Rightarrow> if \<not> ae_exec e then (Keep, internal_error)
                       else (Put (ar_id r) merged, Resp 200 (BStatus ''updated'') (emitMutation ''update'' c (RefText i) q))))))
      else if aq_method q = ''DELETE'' then
        (if i = [] then (Keep, reply 400 ''id required'')
         else (case get of None \<Rightarrow> (Keep, not_found)
           | Some r \<Rightarrow> if \<not> ae_exec e then (Keep, internal_error)
               else (Del (ar_id r), Resp 200 (BStatus ''deleted'') (emitMutation ''delete'' c (RefText i) q))))
      else (Keep, reply 405 ''method not allowed''))"

definition veil :: "api_resp \<Rightarrow> api_resp" where
  "veil a = (if a = reply 403 ''access denied'' then not_found else a)"

lemma veil_simps [simp]: "veil (Resp 200 b m) = Resp 200 b m" "veil (Resp 201 b m) = Resp 201 b m" "veil internal_error = internal_error"
  "veil not_found = not_found" "veil Panicked = Panicked" "veil (reply 403 ''access denied'') = not_found" "veil (reply 400 x) = reply 400 x" "veil (reply 405 x) = reply 405 x"
  by (simp_all add: veil_def reply_def internal_error_def not_found_def)

definition follows :: "int option \<Rightarrow> int \<Rightarrow> string \<Rightarrow> API \<Rightarrow> API \<times> api_resp \<Rightarrow> row_change \<times> api_resp \<Rightarrow> bool" where
  "follows g n c s r op = (veil (snd r) = snd op \<and> api_ok (fst r) \<and> change_of g n (fst op) (rows (ToLower c) s)
     \<and> (\<forall>k. rows k (fst r) = (if k = ToLower c then apply_rows (fst op) (rows k s) else rows k s)))"

lemma follows_keep: "api_ok s1 \<Longrightarrow> (\<And>k. rows k s1 = rows k s) \<Longrightarrow> veil b = a \<Longrightarrow> follows g n c s (s1, b) (Keep, a)"
  by (simp add: follows_def)

lemma rows_distinct: "api_ok s \<Longrightarrow> distinct (map ar_id (rows k s))"
proof (cases "map_of (ap_db s) k")
  case (Some t)
  moreover assume "api_ok s"
  ultimately have "table_ok t" by (auto simp: api_ok_def intro: tables_get)
  then show ?thesis using Some by (simp add: rows_def table_ok_def)
qed (simp add: rows_def)

lemma follows_change:
  assumes "api_ok s" "api_ok s1" "table_of c s1 = Some t" "tb_rows t = rows (ToLower c) s" "\<And>k. rows k s1 = rows k s" "veil b = a"
    and f: "f (rows (ToLower c) s) = apply_rows ch (rows (ToLower c) s)" and ch: "change_of g n ch (rows (ToLower c) s)"
    and n: "\<forall>r. ch = Add r \<longrightarrow> n \<notin> ar_id ` set (rows (ToLower c) s)"
  shows "follows g n c s (with_rows c f s1, b) (ch, a)"
proof -
  have "distinct (map ar_id (f (tb_rows t)))" using change_distinct [OF rows_distinct [OF assms(1)] ch n] f assms(4) by simp
  from with_rows_effect [where f = f and c = c and s = s1, OF assms(2,3) this] show ?thesis using assms(5,6) f ch by (simp add: follows_def)
qed

lemma find_record_own: "distinct (map ar_id rs) \<Longrightarrow> find (id_matches e i) (own g rs)
    = (case find (id_matches e i) rs of None \<Rightarrow> None | Some r \<Rightarrow> if Some (ar_org r) = g then Some r else None)"
proof (induction rs)
  case (Cons r rs)
  have "find (id_matches e i) rs = None" if "id_matches e i r"
    using Cons.prems that by (force simp: find_None_iff id_matches_def)
  then show ?case using Cons by (auto simp: own_def)
qed (simp add: own_def)

lemma find_match: "find (id_matches e i) rs = Some r \<Longrightarrow> ae_ident e i = Some (ar_id r) \<and> r \<in> set rs"
  by (auto simp: id_matches_def dest!: find_SomeD)

lemma matches_id: "ae_ident e i = Some (ar_id r) \<Longrightarrow> id_matches e i x = (ar_id x = ar_id r)"
  by (auto simp: id_matches_def)

lemma own_member: "r \<in> set rs \<Longrightarrow> Some (ar_org r) = g \<Longrightarrow> ar_id r \<in> ar_id ` set (own g rs)"
  by (simp add: own_def)

section \<open>Every handler follows the reference\<close>

lemma get_follows:
  assumes ok: "api_ok s" and m: "ae_migrate e" and q: "aq_org q = Some g" "aq_method q = ''GET''" "i \<noteq> []"
  shows "follows (Some g) n c s (getRecord e q c i s) (own_op e q c i (own (Some g) (rows (ToLower c) s)))"
proof -
  obtain s1 t where h: "ensureTable e c s = Some s1" "api_ok s1" "table_of c s1 = Some t" "table_ok t" "tb_rows t = rows (ToLower c) s"
    "\<And>k. rows k s1 = rows k s" using ensure_ok [OF ok m] by metis
  note fo = find_record_own [OF rows_distinct [OF ok], of e i "Some g" "ToLower c"]
  have o: "own_op e q c i (own (Some g) (rows (ToLower c) s)) = (Keep, snd (own_op e q c i (own (Some g) (rows (ToLower c) s))))"
    using q by (simp add: own_op_def Let_def)
  have "veil (snd (getRecord e q c i s)) = snd (own_op e q c i (own (Some g) (rows (ToLower c) s)))"
    using h q fo by (auto simp: getRecord_def own_op_def Let_def find_row_def table_ok_def split: option.split)
  moreover have "fst (getRecord e q c i s) = s1" using h(1) by (simp add: getRecord_def)
  ultimately show ?thesis by (subst o, subst prod.collapse [symmetric], simp add: follows_keep [OF h(2,6)])
qed

lemma list_follows:
  assumes ok: "api_ok s" and m: "ae_migrate e" and q: "aq_org q = Some g" "aq_method q = ''GET''" and f: "no_or (parseFilters (aq_query q))"
  shows "follows (Some g) n c s (listRecords e q c s) (own_op e q c [] (own (Some g) (rows (ToLower c) s)))"
proof -
  obtain s1 t where h: "ensureTable e c s = Some s1" "api_ok s1" "table_of c s1 = Some t" "table_ok t" "tb_rows t = rows (ToLower c) s"
    "\<And>k. rows k s1 = rows k s" using ensure_ok [OF ok m] by metis
  note w = where_own [OF f, where J = "ae_holds e" and g = g and rs = "rows (ToLower c) s"]
  show ?thesis using h q w by (auto simp: listRecords_def own_op_def Let_def table_ok_def intro!: follows_keep)
qed

lemma create_follows:
  assumes ok: "api_ok s" and m: "ae_migrate e" and q: "aq_org q = Some g" "aq_method q = ''POST''" and n: "ae_newid e \<notin> ar_id ` set (rows (ToLower c) s)"
  shows "follows (Some g) (ae_newid e) c s (createRecord e q c s) (own_op e q c i (own (Some g) (rows (ToLower c) s)))"
proof -
  obtain s1 t where h: "ensureTable e c s = Some s1" "api_ok s1" "table_of c s1 = Some t" "table_ok t" "tb_rows t = rows (ToLower c) s"
    "\<And>k. rows k s1 = rows k s" using ensure_ok [OF ok m] by metis
  note ch = follows_change [OF ok h(2,3,5,6), where g = "Some g" and n = "ae_newid e"]
  show ?thesis using h q n by (auto simp: createRecord_def own_op_def table_ok_def split: option.split intro!: follows_keep ch)
qed

lemma update_follows:
  assumes ok: "api_ok s" and m: "ae_migrate e" and q: "aq_org q = Some g" "aq_method q = ''PATCH''" "i \<noteq> []"
  shows "follows (Some g) n c s (updateRecord e q c i s) (own_op e q c i (own (Some g) (rows (ToLower c) s)))"
proof -
  obtain s1 t where h: "ensureTable e c s = Some s1" "api_ok s1" "table_of c s1 = Some t" "table_ok t" "tb_rows t = rows (ToLower c) s"
    "\<And>k. rows k s1 = rows k s" using ensure_ok [OF ok m] by metis
  note keep = follows_keep [OF h(2,6)]
  note fo = find_record_own [OF rows_distinct [OF ok], of e i "Some g" "ToLower c"]
  have op: "own_op e q c i X = (case aq_body q of None \<Rightarrow> (Keep, reply 400 ''invalid json or body too large'')
      | Some body \<Rightarrow> (case (if ae_query e then find (id_matches e i) X else None) of None \<Rightarrow> (Keep, not_found)
        | Some r \<Rightarrow> (case merge (ar_data r) body of None \<Rightarrow> (Keep, Panicked)
          | Some merged \<Rightarrow> if \<not> ae_exec e then (Keep, internal_error)
              else (Put (ar_id r) merged, Resp 200 (BStatus ''updated'') (emitMutation ''update'' c (RefText i) q)))))" for X
    using q by (simp add: own_op_def)
  show ?thesis
  proof (cases "aq_body q")
    case None
    then show ?thesis unfolding op using h(1) keep by (simp add: updateRecord_def)
  next
    case (Some body)
    have r: "find_row e True c i s1 = (if ae_query e then find (id_matches e i) (rows (ToLower c) s) else None)"
      using h by (simp add: find_row_def table_ok_def)
    show ?thesis
    proof (cases "ae_query e \<and> (\<exists>r. find (id_matches e i) (rows (ToLower c) s) = Some r \<and> ar_org r = g)")
      case False
      then have "own_op e q c i (own (Some g) (rows (ToLower c) s)) = (Keep, not_found)"
        unfolding op fo using Some by (auto split: option.split)
      moreover have "\<exists>b. updateRecord e q c i s = (s1, b) \<and> veil b = not_found"
        using False h(1) Some q(1) r by (auto simp: updateRecord_def split: option.split)
      ultimately show ?thesis using keep by metis
    next
      case True
      then obtain r where k: "ae_query e" "find (id_matches e i) (rows (ToLower c) s) = Some r" "ar_org r = g" by blast
      note fm = find_match [OF k(2)]
      have fr: "find_row e True c i s1 = Some r" using k r by simp
      have fo': "find (id_matches e i) (own (Some g) (rows (ToLower c) s)) = Some r" using fo k by simp
      show ?thesis
      proof (cases "merge (ar_data r) body")
        case None
        then have "updateRecord e q c i s = (s1, Panicked)" using h(1) Some q(1) fr k(3) by (simp add: updateRecord_def)
        moreover have "own_op e q c i (own (Some g) (rows (ToLower c) s)) = (Keep, Panicked)" unfolding op using Some fo' k(1) None by simp
        ultimately show ?thesis using keep by simp
      next
        case mg: (Some merged)
        show ?thesis
        proof (cases "ae_exec e")
          case False
          then have "updateRecord e q c i s = (s1, internal_error)" using h(1) Some q(1) fr k(3) mg by (simp add: updateRecord_def)
          moreover have "own_op e q c i (own (Some g) (rows (ToLower c) s)) = (Keep, internal_error)" unfolding op using Some fo' k(1) mg False by simp
          ultimately show ?thesis using keep by simp
        next
          case True
          let ?a = "Resp 200 (BStatus ''updated'') (emitMutation ''update'' c (RefText i) q)"
          let ?f = "map (\<lambda>x. if id_matches e i x then x\<lparr> ar_data := merged \<rparr> else x)"
          have u: "updateRecord e q c i s = (with_rows c ?f s1, ?a)" using True h(1) Some q(1) fr k(3) mg by (simp add: updateRecord_def)
          have o: "own_op e q c i (own (Some g) (rows (ToLower c) s)) = (Put (ar_id r) merged, ?a)" unfolding op using Some fo' k(1) mg True by simp
          show ?thesis unfolding u o
            by (rule follows_change [OF ok h(2,3,5,6)]) (use fm k(3) matches_id [OF conjunct1 [OF fm]] own_member in simp_all)
        qed
      qed
    qed
  qed
qed

lemma delete_follows:
  assumes ok: "api_ok s" and m: "ae_migrate e" and q: "aq_org q = Some g" "aq_method q = ''DELETE''" "i \<noteq> []"
  shows "follows (Some g) n c s (deleteRecord e q c i s) (own_op e q c i (own (Some g) (rows (ToLower c) s)))"
proof -
  obtain s1 t where h: "ensureTable e c s = Some s1" "api_ok s1" "table_of c s1 = Some t" "table_ok t" "tb_rows t = rows (ToLower c) s"
    "\<And>k. rows k s1 = rows k s" using ensure_ok [OF ok m] by metis
  note keep = follows_keep [OF h(2,6)]
  note fo = find_record_own [OF rows_distinct [OF ok], of e i "Some g" "ToLower c"]
  have op: "own_op e q c i X = (case (if ae_query e then find (id_matches e i) X else None) of None \<Rightarrow> (Keep, not_found)
      | Some r \<Rightarrow> if \<not> ae_exec e then (Keep, internal_error)
          else (Del (ar_id r), Resp 200 (BStatus ''deleted'') (emitMutation ''delete'' c (RefText i) q)))" for X
    using q by (simp add: own_op_def)
  have r: "find_row e False c i s1 = (if ae_query e then find (id_matches e i) (rows (ToLower c) s) else None)"
    using h by (simp add: find_row_def table_ok_def)
  show ?thesis
  proof (cases "ae_query e \<and> (\<exists>r. find (id_matches e i) (rows (ToLower c) s) = Some r \<and> ar_org r = g)")
    case False
    then have "own_op e q c i (own (Some g) (rows (ToLower c) s)) = (Keep, not_found)" unfolding op fo by (auto split: option.split)
    moreover have "\<exists>b. deleteRecord e q c i s = (s1, b) \<and> veil b = not_found"
      using False h(1) q(1) r by (auto simp: deleteRecord_def split: option.split)
    ultimately show ?thesis using keep by metis
  next
    case True
    then obtain r where k: "ae_query e" "find (id_matches e i) (rows (ToLower c) s) = Some r" "ar_org r = g" by blast
    note fm = find_match [OF k(2)]
    have fr: "find_row e False c i s1 = Some r" using k r by simp
    have fo': "find (id_matches e i) (own (Some g) (rows (ToLower c) s)) = Some r" using fo k by simp
    show ?thesis
    proof (cases "ae_exec e")
      case False
      then have "deleteRecord e q c i s = (s1, internal_error)" using h(1) q(1) fr k(3) by (simp add: deleteRecord_def)
      moreover have "own_op e q c i (own (Some g) (rows (ToLower c) s)) = (Keep, internal_error)" unfolding op using fo' k(1) False by simp
      ultimately show ?thesis using keep by simp
    next
      case True
      let ?a = "Resp 200 (BStatus ''deleted'') (emitMutation ''delete'' c (RefText i) q)"
      have "list_ex (id_matches e i) (tb_rows t)" using fm h(5) by (auto simp: list_ex_iff id_matches_def)
      then have u: "deleteRecord e q c i s = (with_rows c (filter (\<lambda>r. \<not> id_matches e i r)) s1, ?a)"
        using True h(1,3) q(1) fr k(3) by (simp add: deleteRecord_def)
      have o: "own_op e q c i (own (Some g) (rows (ToLower c) s)) = (Del (ar_id r), ?a)" unfolding op using fo' k(1) True by simp
      show ?thesis unfolding u o
        by (rule follows_change [OF ok h(2,3,5,6)]) (use fm k(3) matches_id [OF conjunct1 [OF fm]] own_member in simp_all)
    qed
  qed
qed

section \<open>Calls\<close>

type_synonym api_call = "api_env \<times> api_req"

definition collection_part :: "api_req \<Rightarrow> string" where
  "collection_part q = fst (split2 (TrimPrefix (aq_path q) ''/api/collections/'') CHR ''/'')"

definition id_part :: "api_req \<Rightarrow> string" where
  "id_part q = (case snd (split2 (TrimPrefix (aq_path q) ''/api/collections/'') CHR ''/'') of None \<Rightarrow> [] | Some x \<Rightarrow> x)"

definition one_tenant :: "api_env \<Rightarrow> api_req \<Rightarrow> rec_row list \<Rightarrow> row_change \<times> api_resp" where
  "one_tenant e q rs = (case sanitize (collection_part q) of
     Inl err \<Rightarrow> (Keep, name_reply err)
   | Inr c \<Rightarrow> if c \<in> set internalTables then (Keep, not_found) else own_op e q c (id_part q) rs)"

definition made :: "api_call \<Rightarrow> (string \<times> int) list" where
  "made p = (if aq_method (snd p) = ''POST'' then [(ToLower (collection_part (snd p)), ae_newid (fst p))] else [])"

definition call_ok :: "api_call \<Rightarrow> bool" where
  "call_ok p = (collection_part (snd p) \<noteq> [] \<and> aq_org (snd p) \<noteq> None \<and> ae_migrate (fst p) \<and> no_or (parseFilters (aq_query (snd p))))"

lemma sanitize_same: "sanitize x = Inr c \<Longrightarrow> c = x"
  by (auto simp: sanitize_def split: if_splits option.splits)

lemma handle_follows:
  assumes ok: "api_ok s" and q: "aq_org q = Some g" "collection_part q \<noteq> []" "ae_migrate e" "no_or (parseFilters (aq_query q))"
    and n: "aq_method q = ''POST'' \<Longrightarrow> ae_newid e \<notin> ar_id ` set (rows (ToLower (collection_part q)) s)"
  shows "follows (Some g) (ae_newid e) (collection_part q) s (handleCollection e q s)
    (one_tenant e q (own (Some g) (rows (ToLower (collection_part q)) s)))"
proof -
  let ?c = "collection_part q" and ?i = "id_part q" and ?F = "follows (Some g) (ae_newid e) (collection_part q) s"
  let ?o = "own_op e q ?c ?i (own (Some g) (rows (ToLower ?c) s))"
  have keep: "?F (s, a) (Keep, veil a)" for a by (rule follows_keep [OF ok]) simp_all
  obtain rest where sp: "split2 (TrimPrefix (aq_path q) ''/api/collections/'') CHR ''/'' = (?c, rest)" "?i = (case rest of None \<Rightarrow> [] | Some x \<Rightarrow> x)"
    by (cases "split2 (TrimPrefix (aq_path q) ''/api/collections/'') CHR ''/''") (simp add: collection_part_def id_part_def)
  show ?thesis
  proof (cases "sanitize ?c")
    case (Inl err)
    have "veil (name_reply err) = name_reply err" by (cases err) (simp_all add: name_reply_def veil_def reply_def)
    then show ?thesis using Inl q(2) sp(1) keep [of "name_reply err"] by (simp add: handleCollection_def one_tenant_def)
  next
    case (Inr c)
    then have c: "c = ?c" by (rule sanitize_same)
    show ?thesis
    proof (cases "?c \<in> set internalTables")
      case True
      then show ?thesis using Inr c q(2) sp(1) keep [of not_found] by (simp add: handleCollection_def one_tenant_def)
    next
      case False
      have h: "handleCollection e q s = (if aq_method q = ''GET'' then (if ?i \<noteq> [] then getRecord e q ?c ?i s else listRecords e q ?c s)
         else if aq_method q = ''POST'' then createRecord e q ?c s
         else if aq_method q = ''PATCH'' then (if ?i \<noteq> [] then updateRecord e q ?c ?i s else (s, reply 400 ''id required''))
         else if aq_method q = ''DELETE'' then (if ?i \<noteq> [] then deleteRecord e q ?c ?i s else (s, reply 400 ''id required''))
         else (s, reply 405 ''method not allowed''))"
        using sp Inr c q(2) False by (simp add: handleCollection_def)
      have o: "one_tenant e q (own (Some g) (rows (ToLower ?c) s)) = ?o" using Inr c False by (simp add: one_tenant_def)
      consider "aq_method q = ''GET''" "?i \<noteq> []" | "aq_method q = ''GET''" "?i = []" | "aq_method q = ''POST''" | "aq_method q = ''PATCH''" "?i \<noteq> []"
        | "aq_method q = ''DELETE''" "?i \<noteq> []" | "aq_method q = ''PATCH'' \<or> aq_method q = ''DELETE''" "?i = []"
        | "aq_method q \<noteq> ''GET''" "aq_method q \<noteq> ''POST''" "aq_method q \<noteq> ''PATCH''" "aq_method q \<noteq> ''DELETE''" by blast
      then show ?thesis
      proof cases
        case 1
        then show ?thesis unfolding h o using get_follows [OF ok q(3,1)] by simp
      next
        case 2
        then show ?thesis unfolding h o using list_follows [OF ok q(3,1) _ q(4)] by simp
      next
        case 3
        then show ?thesis unfolding h o using create_follows [OF ok q(3,1) _ n] by simp
      next
        case 4
        then show ?thesis unfolding h o using update_follows [OF ok q(3,1)] by simp
      next
        case 5
        then show ?thesis unfolding h o using delete_follows [OF ok q(3,1)] by simp
      next
        case 6
        then show ?thesis unfolding h o using keep [of "reply 400 ''id required''"] by (auto simp: own_op_def Let_def)
      next
        case 7
        then show ?thesis unfolding h o using keep [of "reply 405 ''method not allowed''"] by (simp add: own_op_def Let_def)
      qed
    qed
  qed
qed

end
