(* ===== verification/Api_Isolation.thy ===== *)
theory Api_Isolation
  imports Api_Tenancy Auth_Access
begin

text \<open>
  Organizations do not interfere through the collections (an interpretation of \<open>org_isolation\<close>) and records
  are read back, for requests that carry an organization and no filter on an empty value. Below, what
  happens otherwise: the filter, requests of deployment keys, which carry no organization, the names of the
  tables of other components in another case, and a record that is \<^verbatim>\<open>null\<close>.
\<close>

section \<open>Unwinding\<close>

definition api_step :: "API \<Rightarrow> api_call \<Rightarrow> API \<times> api_resp" where
  "api_step s p = apsnd veil (handleCollection (fst p) (snd p) s)"

definition api_org :: "api_call \<Rightarrow> int option" where
  "api_org p = aq_org (snd p)"

definition api_same :: "int option \<Rightarrow> API \<Rightarrow> API \<Rightarrow> bool" where
  "api_same g s t = (\<forall>k. own g (rows k s) = own g (rows k t))"

definition new_id :: "API \<Rightarrow> string \<times> int \<Rightarrow> bool" where
  "new_id s p = (snd p \<notin> ar_id ` set (rows (fst p) s))"

definition api_pre :: "API \<Rightarrow> api_call list \<Rightarrow> bool" where
  "api_pre s ps = (api_ok s \<and> list_all call_ok ps \<and> distinct (concat (map made ps)) \<and> list_all (new_id s) (concat (map made ps)))"

lemma one_tenant_add: "fst (one_tenant e q rs) = Add r \<Longrightarrow> aq_method q = ''POST''"
  by (auto simp: one_tenant_def own_op_def Let_def split: sum.splits if_splits option.splits)

lemma keep_ids: "(\<And>r. ch \<noteq> Add r) \<Longrightarrow> ar_id ` set (apply_rows ch rs) \<subseteq> ar_id ` set rs"
  by (cases ch) (auto simp: image_iff)

lemma step_follows:
  assumes p: "api_pre s (p # ps)" and g: "api_org p = Some g"
  shows "follows (Some g) (ae_newid (fst p)) (collection_part (snd p)) s (handleCollection (fst p) (snd p) s)
    (one_tenant (fst p) (snd p) (own (Some g) (rows (ToLower (collection_part (snd p))) s)))"
  by (rule handle_follows) (use p g in \<open>auto simp: api_pre_def call_ok_def api_org_def made_def new_id_def\<close>)

lemma step_effect:
  assumes p: "api_pre s (p # ps)" and g: "api_org p = Some g"
  defines "op \<equiv> one_tenant (fst p) (snd p) (own (Some g) (rows (ToLower (collection_part (snd p))) s))"
  shows "snd (api_step s p) = snd op" "api_ok (fst (api_step s p))"
    "change_of (Some g) (ae_newid (fst p)) (fst op) (rows (ToLower (collection_part (snd p))) s)"
    "rows k (fst (api_step s p)) = (if k = ToLower (collection_part (snd p)) then apply_rows (fst op) (rows k s) else rows k s)"
  using step_follows [OF p g] by (simp_all add: follows_def api_step_def op_def)

lemma pre_org: "api_pre s (p # ps) \<Longrightarrow> \<exists>g. api_org p = Some g"
  by (auto simp: api_pre_def call_ok_def api_org_def)

lemma pre_ok: "api_pre s ps \<Longrightarrow> distinct (map ar_id (rows k s))"
  using rows_distinct by (auto simp: api_pre_def)

lemma api_pre_step:
  assumes p: "api_pre s (p # ps)"
  shows "api_pre (fst (api_step s p)) ps"
proof -
  obtain g where g: "api_org p = Some g" using pre_org [OF p] by blast
  note e = step_effect [OF p g]
  have "new_id (fst (api_step s p)) x" if x: "x \<in> set (concat (map made ps))" for x
  proof -
    have n: "new_id s x" "x \<notin> set (made p)" using p x by (auto simp: api_pre_def list_all_iff)
    show ?thesis
    proof (cases "fst x = ToLower (collection_part (snd p))")
      case False
      then show ?thesis using n(1) e(4) by (simp add: new_id_def)
    next
      case True
      let ?ch = "fst (one_tenant (fst p) (snd p) (own (Some g) (rows (ToLower (collection_part (snd p))) s)))"
      let ?K = "ToLower (collection_part (snd p))"
      have "snd x \<notin> ar_id ` set (apply_rows ?ch (rows ?K s))"
      proof (cases "\<exists>r. ?ch = Add r")
        case False
        then show ?thesis using keep_ids [of ?ch "rows ?K s"] n(1) True by (auto simp: new_id_def)
      next
        case add: True
        then have "aq_method (snd p) = ''POST''" using one_tenant_add by blast
        then have "x \<noteq> (?K, ae_newid (fst p))" using n(2) by (auto simp: made_def)
        then show ?thesis using change_ids [OF e(3)] n(1) True by (cases x) (auto simp: new_id_def)
      qed
      then show ?thesis using True e(4) by (simp add: new_id_def)
    qed
  qed
  then show ?thesis using p e(2) by (auto simp: api_pre_def list_all_iff)
qed

lemma api_pre_filter: "api_pre s ps \<Longrightarrow> api_pre s (filter P ps)"
proof -
  have "distinct (concat (map made ps)) \<Longrightarrow> distinct (concat (map made (filter P ps)))"
    by (induction ps) auto
  then show "api_pre s ps \<Longrightarrow> api_pre s (filter P ps)" by (auto simp: api_pre_def list_all_iff)
qed

lemma api_local:
  assumes p: "api_pre s (p # ps)" and o: "api_org p \<noteq> g" and same: "api_same g s t"
  shows "api_same g (fst (api_step s p)) t"
proof -
  obtain h where h: "api_org p = Some h" using pre_org [OF p] by blast
  note e = step_effect [OF p h]
  have "own g (rows k (fst (api_step s p))) = own g (rows k s)" for k
    using own_change [OF pre_ok [OF p] e(3), of g] o h e(4) by (simp add: eq_commute)
  then show ?thesis using same by (simp add: api_same_def)
qed

lemma api_consistent:
  assumes p: "api_pre s (p # ps)" "api_pre t (p # ps')" and o: "api_org p = g" and same: "api_same g s t"
  shows "snd (api_step s p) = snd (api_step t p) \<and> api_same g (fst (api_step s p)) (fst (api_step t p))"
proof -
  obtain h where h: "api_org p = Some h" using pre_org [OF p(1)] by blast
  note e = step_effect [OF p(1) h] and f = step_effect [OF p(2) h]
  have same': "own (Some h) (rows k s) = own (Some h) (rows k t)" for k using same o h by (simp add: api_same_def)
  have "own g (rows k (fst (api_step s p))) = own g (rows k (fst (api_step t p)))" for k
    using own_change [OF pre_ok [OF p(1)] e(3), of g] own_change [OF pre_ok [OF p(2)] f(3), of g] o h e(4) f(4) same' by simp
  then show ?thesis using e(1) f(1) same' by (simp add: api_same_def)
qed

lemma api_same_refl: "api_same g s s"
  by (simp add: api_same_def)

interpretation record_orgs: org_isolation api_step api_org api_same api_pre
  by unfold_locales (use api_same_refl api_pre_step api_pre_filter api_local api_consistent in blast)+


section \<open>Reading back\<close>

lemma own_find_new:
  assumes d: "distinct (map ar_id (rs @ [r]))" and e: "ae_ident e i = Some (ar_id r)"
  shows "find (id_matches e i) (own (Some (ar_org r)) (rs @ [r])) = Some r"
proof -
  have "find (id_matches e i) rs = None" using d by (force simp: find_None_iff id_matches_def e)
  then have "find (id_matches e i) (rs @ [r]) = Some r" by (induction rs) (auto simp: id_matches_def e split: if_splits)
  then show ?thesis using find_record_own [OF d] by simp
qed


section \<open>Runs\<close>

definition sample_holds :: "field_test \<Rightarrow> jobj \<Rightarrow> bool" where
  "sample_holds f d = (case d of None \<Rightarrow> False | Some m \<Rightarrow> (case f of
     IsNull x \<Rightarrow> map_of m x = None | IsEmpty x \<Rightarrow> map_of m x = Some (JText []) | IsEq x v \<Rightarrow> map_of m x = Some (JText v) | _ \<Rightarrow> False))"

definition sample_api :: "int \<Rightarrow> api_env" where
  "sample_api n = \<lparr> ae_migrate = True, ae_alter = True, ae_query = True, ae_scan = True, ae_exec = True, ae_newid = n, ae_holds = sample_holds,
     ae_order = (\<lambda>_ rs. rs), ae_ident = Atoi, ae_names = (\<lambda>ns. ns) \<rparr>"

definition sample_req :: "string \<Rightarrow> string \<Rightarrow> int option \<Rightarrow> (string \<times> jval) list \<Rightarrow> (string \<times> string) list \<Rightarrow> api_req" where
  "sample_req meth path g body query = \<lparr> aq_method = meth, aq_path = ''/api/collections/'' @ path, aq_org = g, aq_body = Some (Some body), aq_query = query, aq_site = [] \<rparr>"

definition empty_api :: API where
  "empty_api = \<lparr> ap_db = [], ap_tables = [] \<rparr>"

definition ann_post :: api_call where "ann_post = (sample_api 1, sample_req ''POST'' ''items'' (Some 1) [(''name'', JText ''ann'')] [])"
definition bob_post :: api_call where "bob_post = (sample_api 2, sample_req ''POST'' ''Items'' (Some 2) [(''name'', JText [])] [])"
definition bob_probe :: api_call where "bob_probe = (sample_api 3, sample_req ''DELETE'' ''items/1'' (Some 2) [] [])"
definition ann_get :: api_call where "ann_get = (sample_api 4, sample_req ''GET'' ''ITEMS/1'' (Some 1) [] [])"
definition ann_list :: api_call where "ann_list = (sample_api 5, sample_req ''GET'' ''items'' (Some 1) [] [])"

lemmas call_defs = ann_post_def bob_post_def bob_probe_def ann_get_def ann_list_def

lemma sample_pre: "api_pre empty_api ([ann_post, bob_post, bob_probe] @ [ann_get, ann_list])"
  by code_simp



section \<open>What escapes\<close>

text \<open>
  A filter on an empty value is joined without parentheses, so its second half stands beside the whole
  condition: any organization lists the records of all others whose field is empty.
\<close>

lemma empty_filter_leaks:
  "let s = fst (api_step empty_api bob_post) in
   snd (handleCollection (sample_api 9) (sample_req ''GET'' ''items'' (Some 1) [] [(''filter'', ''name='')]) s)
     = Resp 200 (BData [[(''id'', JInt 2), (''name'', JText [])]]) []"
  by code_simp

text \<open>A record of another organization is told from a missing one.\<close>

lemma existence_shows:
  "let s = fst (api_step empty_api bob_post) in
   snd (handleCollection (sample_api 9) (sample_req ''GET'' ''items/2'' (Some 1) [] []) s) = reply 403 ''access denied''
   \<and> snd (handleCollection (sample_api 9) (sample_req ''GET'' ''items/3'' (Some 1) [] []) s) = not_found"
  by code_simp

text \<open>Every collection of every organization is named to everyone.\<close>

lemma names_show: "let s = fst (api_step empty_api bob_post) in
   snd (handleCollection (sample_api 9) (sample_req ''GET'' [] (Some 1) [] []) s) = Resp 200 (BNames [''Items'']) []"
  by code_simp

text \<open>
  A deployment key, made for one site, passes the authentication of these routes; the bridge finds no
  organization in its context, and without one nothing is compared: the key reads and deletes the records
  of every organization.
\<close>

definition orgBridge :: "req_ctx \<Rightarrow> api_req \<Rightarrow> api_req" where
  "orgBridge ctx q = q\<lparr> aq_org := map_option int (cx_org ctx) \<rparr>"

lemma site_key_no_org:
  assumes "fst (Auth_Middleware e meth hdr cookie s) = Pass ctx" "HasPrefix (request_token hdr cookie) ''bb_dep_''"
  shows "aq_org (orgBridge ctx q) = None"
proof -
  have k: "HasPrefix (request_token hdr cookie) ''bb_''" using assms(2) by (auto simp: prefix_def)
  then have "request_token hdr cookie \<noteq> []" by auto
  with assms k obtain site where "ctx = background\<lparr> cx_site := Some site \<rparr>"
    by (auto simp: Auth_Middleware_def Let_def split: prod.splits option.splits)
  then show ?thesis by (simp add: orgBridge_def background_def)
qed

lemma site_key_deletes_any:
  "let s = fst (api_step empty_api bob_post); q = orgBridge (background\<lparr> cx_site := Some ''s1'' \<rparr>) (sample_req ''DELETE'' ''items/2'' (Some 1) [] [])
   in rows ''items'' s \<noteq> [] \<and> rows ''items'' (fst (handleCollection (sample_api 9) q s)) = []"
  by code_simp

text \<open>
  Names are compared with the tables of other components in one case only, and the database knows none: in
  another case, the rows of \<^verbatim>\<open>users\<close> are deleted through the collections.
\<close>

definition with_users :: API where
  "with_users = \<lparr> ap_db = [(''users'', \<lparr> tb_name = ''users'', tb_rows = [\<lparr> ar_id = 1, ar_org = 0, ar_data = None \<rparr>], tb_data = False, tb_org = False \<rparr>)], ap_tables = [] \<rparr>"

lemma users_deleted:
  "let q = orgBridge (background\<lparr> cx_site := Some ''s1'' \<rparr>) (sample_req ''DELETE'' ''Users/1'' None [] []) in
   rows ''users'' with_users \<noteq> [] \<and> rows ''users'' (fst (handleCollection (sample_api 9) q with_users)) = []"
  by code_simp

text \<open>A record created as \<^verbatim>\<open>null\<close> panics every later change of it; a field \<open>id\<close> hides the identifier.\<close>

lemma null_panics: "merge None (Some (kv # kvs)) = None"
  by (simp add: merge_def)

lemma id_hidden: "show_record \<lparr> ar_id = 5, ar_org = g, ar_data = Some [(''id'', v)] \<rparr> = [(''id'', v)]"
  by (simp add: show_record_def)

end
