(* ===== verification/Api_Sql.thy ===== *)
theory Api_Sql
  imports Api_Records
begin

text \<open>
  The query endpoint (\<^verbatim>\<open>handleSQL\<close> of \<^verbatim>\<open>components/api/api.go\<close>): an administrator's text is checked,
  searched for the table it reads and, when the request carries an organization, rewritten to that
  organization's rows. The text is ASCII; what the database makes of it is an argument.
\<close>

section \<open>Text\<close>

text \<open>The keywords that end the table after \<^verbatim>\<open>FROM\<close>, and those that end the \<^verbatim>\<open>WHERE\<close> clause.\<close>

definition end_keywords :: "string list" where
  "end_keywords = ['' JOIN '', '' WHERE '', '' GROUP '', '' ORDER '', '' LIMIT '', '' OFFSET '', '' HAVING '', '' UNION '', '' INTERSECT '', '' EXCEPT '']"

definition scope_keywords :: "string list" where
  "scope_keywords = ['' GROUP BY '', '' HAVING '', '' ORDER BY '', '' LIMIT '']"

definition first_keyword :: "string list \<Rightarrow> string \<Rightarrow> nat" where
  "first_keyword kws text = fold (\<lambda>kw n. case Index text kw of Some i \<Rightarrow> if i < n then i else n | None \<Rightarrow> n) kws (length text)"

text \<open>Text from a position on, after an optional \<^verbatim>\<open>WITH\<close> and \<^verbatim>\<open>EXPLAIN\<close>.\<close>

definition after_with :: "string \<Rightarrow> string option" where
  "after_with n = (if HasPrefix (ToUpper n) ''WITH'' then map_option (\<lambda>i. drop i n) (LastIndex (ToUpper n) ''SELECT'') else Some n)"

definition after_explain :: "string \<Rightarrow> string" where
  "after_explain n =
     (if HasPrefix (ToUpper n) ''EXPLAIN QUERY PLAN '' then drop (length ''EXPLAIN QUERY PLAN '') n
      else if HasPrefix (ToUpper n) ''EXPLAIN '' then drop (length ''EXPLAIN '') n else n)"

definition ExtractTableRef :: "string \<Rightarrow> string" where
  "ExtractTableRef q = (case after_with (squeeze q) of
     None \<Rightarrow> []
   | Some n1 \<Rightarrow> (let n = after_explain n1 in
       (case Index (ToUpper n) '' FROM '' of
          None \<Rightarrow> []
        | Some i \<Rightarrow> (let after = TrimSpace (drop (i + 6) n); table = TrimSpace (take (first_keyword end_keywords (ToUpper after)) after)
            in ToLower (TrimSet [CHR 0x22, CHR ''`'', CHR 0x27] table)))))"

definition isInternalOrSysTable :: "string \<Rightarrow> bool" where
  "isInternalOrSysTable name = (name \<in> set internalTables \<or> HasPrefix (ToLower name) ''sqlite_'' \<or> ToLower name = [] \<or> ToLower name = ''dual'')"

definition blocked_words :: "string list" where
  "blocked_words = [''JOIN'', ''UNION'', ''INTERSECT'', ''EXCEPT'', ''WITH'']"

definition isSimpleQuery :: "string \<Rightarrow> bool" where
  "isSimpleQuery q = (\<not> list_ex (\<lambda>w. has_word w q) blocked_words \<and> word_count ''SELECT'' q \<le> 1)"

definition back_over_spaces :: "string \<Rightarrow> nat \<Rightarrow> nat" where
  "back_over_spaces s i = length (TrimRightFn (\<lambda>c. c = CHR '' '') (take i s))"

text \<open>\<open>None\<close>: the slice of the old condition is out of range, which panics.\<close>

definition scopeQueryForOrg :: "string \<Rightarrow> string option" where
  "scopeQueryForOrg q = (let n = squeeze q; up = ToUpper n; ins = back_over_spaces n (first_keyword scope_keywords up) in
     (case Index up '' WHERE '' of
        Some w \<Rightarrow>
          if w < ins
          then (if ins < w + 7 then None
                else Some (take w n @ '' WHERE ('' @ TrimSpace (drop (w + 7) (take ins n)) @ '') AND org_id = ? '' @ drop ins n))
          else Some (take ins n @ '' WHERE org_id = ? '' @ drop ins n)
      | None \<Rightarrow> Some (take ins n @ '' WHERE org_id = ? '' @ drop ins n)))"

section \<open>The handler\<close>

datatype sql_answer = SqlErr nat string | SqlPanic | SqlRows "string list" "string list list"

text \<open>The text that is executed, and the organization bound to its parameter.\<close>

type_synonym sql_exec = "string \<times> int list"

definition scoped_text :: "int option \<Rightarrow> string \<Rightarrow> (sql_answer, sql_exec) res" where
  "scoped_text org q = (case org of
     None \<Rightarrow> Inr (q, [])
   | Some g \<Rightarrow> (let n = squeeze q; ref = ExtractTableRef n in
       if ref \<noteq> [] \<and> \<not> isInternalOrSysTable ref
       then (if \<not> isSimpleQuery n
             then Inl (SqlErr 400 ''only simple queries (no JOIN, UNION, WITH, or subqueries) are allowed on collection tables for tenant isolation'')
             else (case scopeQueryForOrg n of None \<Rightarrow> Inl SqlPanic | Some text \<Rightarrow> Inr (text, [g])))
       else Inr (q, [])))"

definition first_word :: "string \<Rightarrow> string" where
  "first_word q = (case Fields q of [] \<Rightarrow> [] | w # _ \<Rightarrow> ToUpper w)"

text \<open>
  What is executed, or the refusal. Which internal table a refusal names depends on the order of a map; the
  model names the first.
\<close>

definition sql_gate :: "string \<Rightarrow> string option \<Rightarrow> int option \<Rightarrow> string option \<Rightarrow> (sql_answer, sql_exec) res" where
  "sql_gate meth role org body =
     (if meth \<noteq> ''POST'' then Inl (SqlErr 405 ''method not allowed'')
      else if role \<noteq> Some ''admin'' then Inl (SqlErr 403 ''forbidden'')
      else (case body of
          None \<Rightarrow> Inl (SqlErr 400 ''invalid json or body too large'')
        | Some raw \<Rightarrow> (let q = TrimSpace raw in
            if q = [] then Inl (SqlErr 400 ''query is required'')
            else (case find (\<lambda>t. has_word t q) internalTables of
                Some t \<Rightarrow> Inl (SqlErr 403 (''access to internal table '' @ t @ '' denied''))
              | None \<Rightarrow>
                  if Contains q '';'' then Inl (SqlErr 400 ''only single-statement queries are allowed'')
                  else if first_word q \<notin> {''SELECT'', ''EXPLAIN'', ''PRAGMA'', ''WITH''} then Inl (SqlErr 400 ''only read-only queries are allowed'')
                  else scoped_text org q))))"

text \<open>The database answers \<open>None\<close> on an error; \<open>scans\<close> says that the columns and rows can be read.\<close>

definition handleSQL :: "(sql_exec \<Rightarrow> 'db \<Rightarrow> ((string list \<times> string list list) option) \<times> 'db) \<Rightarrow> bool \<Rightarrow> string \<Rightarrow> string option \<Rightarrow> int option \<Rightarrow> string option
    \<Rightarrow> 'db \<Rightarrow> sql_answer \<times> 'db" where
  "handleSQL run scans meth role org body d = (case sql_gate meth role org body of
     Inl a \<Rightarrow> (a, d)
   | Inr x \<Rightarrow> (case run x d of
         (None, d') \<Rightarrow> (SqlErr 400 ''query execution failed'', d')
       | (Some (cols, rs), d') \<Rightarrow> if \<not> scans then (SqlErr 500 ''internal error'', d') else (SqlRows cols rs, d')))"

section \<open>What is executed\<close>

text \<open>A scoped text is the original cut at one place, with the organization's condition in it.\<close>

definition scoped_from :: "string \<Rightarrow> string \<Rightarrow> bool" where
  "scoped_from n text = (\<exists>p c r. text = p @ c @ r \<and> prefix p n \<and> suffix r n
    \<and> (c = '' WHERE org_id = ? '' \<or> (\<exists>w. c = '' WHERE ('' @ w @ '') AND org_id = ? '' \<and> Contains n w)))"

lemma TrimSpace_within: "\<exists>a b. s = a @ TrimSpace s @ b"
  unfolding TrimSpace_def TrimRightFn_def TrimLeftFn_def
  by (metis append_assoc rev_append rev_rev_ident takeWhile_dropWhile_id)

lemma scope_shape:
  assumes "scopeQueryForOrg q = Some sql"
  shows "scoped_from (squeeze q) sql"
proof -
  define n where "n = squeeze q"
  define ins where "ins = back_over_spaces n (first_keyword scope_keywords (ToUpper n))"
  have bare: "scoped_from n (take ins n @ '' WHERE org_id = ? '' @ drop ins n)" unfolding scoped_from_def
    by (intro exI [of _ "take ins n"] exI [of _ "'' WHERE org_id = ? ''"] exI [of _ "drop ins n"]) (simp add: take_is_prefix suffix_drop)
  note def = assms [unfolded scopeQueryForOrg_def Let_def n_def [symmetric] ins_def [symmetric]]
  have "scoped_from n sql"
  proof (cases "Index (ToUpper n) '' WHERE ''")
    case None
    then show ?thesis using bare def by simp
  next
    case (Some w)
    show ?thesis
    proof (cases "w < ins")
      case False
      then show ?thesis using Some bare def by simp
    next
      case True
      define x where "x = TrimSpace (drop (w + 7) (take ins n))"
      have s: "sql = take w n @ ('' WHERE ('' @ x @ '') AND org_id = ? '') @ drop ins n"
        using Some True def by (simp add: x_def split: if_splits)
      obtain a b where "drop (w + 7) (take ins n) = a @ x @ b" unfolding x_def using TrimSpace_within by blast
      then have "n = (take (w + 7) (take ins n) @ a) @ x @ (b @ drop ins n)" by (metis append.assoc append_take_drop_id)
      then have "Contains n x" unfolding Contains_iff by blast
      then show ?thesis unfolding s scoped_from_def
        by (intro exI [of _ "take w n"] exI [of _ "'' WHERE ('' @ x @ '') AND org_id = ? ''"] exI [of _ "drop ins n"])
          (auto simp: take_is_prefix suffix_drop)
    qed
  qed
  then show ?thesis by (simp add: n_def)
qed

definition harmless :: "string \<Rightarrow> bool" where
  "harmless q = (\<not> Contains q '';'' \<and> (\<forall>t \<in> set internalTables. \<not> has_word t q) \<and> first_word q \<in> {''SELECT'', ''EXPLAIN'', ''PRAGMA'', ''WITH''})"

lemma sql_gateD:
  assumes "sql_gate meth role org body = Inr x"
  shows "\<exists>raw. meth = ''POST'' \<and> role = Some ''admin'' \<and> body = Some raw \<and> harmless (TrimSpace raw) \<and> scoped_text org (TrimSpace raw) = Inr x"
proof -
  have m: "meth = ''POST''" "role = Some ''admin''" using assms by (auto simp: sql_gate_def split: if_splits)
  obtain raw where b: "body = Some raw" using assms m by (cases body) (auto simp: sql_gate_def)
  have ne: "TrimSpace raw \<noteq> []" using assms m b by (auto simp: sql_gate_def Let_def)
  have f: "find (\<lambda>t. has_word t (TrimSpace raw)) internalTables = None"
    using assms m b ne by (cases "find (\<lambda>t. has_word t (TrimSpace raw)) internalTables") (simp_all add: sql_gate_def Let_def)
  have c: "\<not> Contains (TrimSpace raw) '';''" using assms m b ne f by (simp add: sql_gate_def Let_def split: if_splits)
  have w: "first_word (TrimSpace raw) \<in> {''SELECT'', ''EXPLAIN'', ''PRAGMA'', ''WITH''}"
  proof (rule ccontr)
    assume "first_word (TrimSpace raw) \<notin> {''SELECT'', ''EXPLAIN'', ''PRAGMA'', ''WITH''}"
    then show False using assms m b ne f c unfolding sql_gate_def Let_def by simp
  qed
  then have "scoped_text org (TrimSpace raw) = Inr x" using assms m b ne f c unfolding sql_gate_def Let_def by simp
  then show ?thesis using m b f c w by (auto simp: harmless_def find_None_iff)
qed



section \<open>What escapes\<close>

text \<open>The parentheses around the old condition can be closed from inside: the organization's condition binds only the second half.\<close>

lemma parenthesis_escapes:
  "scoped_text (Some 7) ''SELECT * FROM b WHERE 1) OR (1'' = Inr (''SELECT * FROM b WHERE (1) OR (1) AND org_id = ? '', [7])"
  by code_simp

text \<open>A table after \<^verbatim>\<open>FROM\<close> without a space is not found, so nothing is scoped.\<close>

lemma quoted_table_unscoped: "scoped_text (Some 7) (''SELECT * FROM(b)'') = Inr (''SELECT * FROM(b)'', [])"
  by code_simp

text \<open>Statements that write pass as queries: after \<^verbatim>\<open>WITH\<close>, and as \<^verbatim>\<open>PRAGMA\<close>.\<close>

lemma with_update_passes:
  "first_word ''WITH t AS (SELECT 1) UPDATE b SET c=1'' = ''WITH''
   \<and> scoped_text (Some 7) ''WITH t AS (SELECT 1) UPDATE b SET c=1'' = Inr (''WITH t AS (SELECT 1) UPDATE b SET c=1'', [])"
  by code_simp

lemma pragma_passes: "first_word ''PRAGMA x=1'' = ''PRAGMA'' \<and> scoped_text (Some 7) ''PRAGMA x=1'' = Inr (''PRAGMA x=1'', [])"
  by code_simp

text \<open>An empty condition before \<^verbatim>\<open>LIMIT\<close> panics.\<close>

lemma empty_condition_panics: "scoped_text (Some 7) ''SELECT * FROM b WHERE LIMIT 1'' = Inl SqlPanic"
  by code_simp

end
