(* ===== verification/Sites_Registry.thy ===== *)
theory Sites_Registry
  imports Auth_Access Proxy_Hosts Kernel_Web
begin

text \<open>
  The sites component (\<^verbatim>\<open>components/sites/sites.go\<close> and \<^verbatim>\<open>domains.go\<close>): the table of sites, their custom
  domains and what routes to them. A site is named by its identifier or by that of its repository. What the
  deployment engine and the proxy do is an argument: the trigger of a deployment, the cleanup of a deleted
  site, and whether a site has a running deployment that a domain can be routed to. Statement n of a request
  succeeds when \<open>sv_db n\<close> holds; a query that finds nothing is an error to the code as well. Of the cleanup
  only its effect on the table of deployments is kept, not the routes that it removes. Hints, explanations
  and the texts of internal errors are left out of the answers.
\<close>

section \<open>State\<close>

record DeployDefaults =
  df_AppType :: string
  df_BuildCommand :: string
  df_StartCommand :: string
  df_PassthroughPaths :: "string list"
  df_HealthPath :: string
  df_Env :: "(string, string) go_map"
  df_CSPPolicy :: string

record Site =
  st_id :: string
  st_name :: string
  st_repo :: string
  st_branch :: string
  st_root :: string
  st_full :: string
  st_org :: nat
  st_policy :: "AuthPolicy option"
  st_defaults :: "DeployDefaults option"
  st_created :: string

record SiteDomain =
  dm_id :: string
  dm_site :: string
  dm_domain :: string
  dm_token :: string
  dm_verified :: "int option"
  dm_created :: int
  dm_attempts :: nat
  dm_started :: "int option"
  dm_last :: "int option"
  dm_error :: string
  dm_retry :: "int option"

record dep_row =
  dp_id :: string
  dp_site :: string
  dp_repo :: string
  dp_status :: string

text \<open>\<open>si_hosts\<close> are the custom domains that the proxy routes, each to a site, \<open>si_policies\<close> and \<open>si_csp\<close> what
  it was told of their policies; \<open>si_lim\<close> is the limiter of verifications.\<close>

record Sites =
  si_rows :: "Site list"
  si_repos :: "(string, string \<times> string) go_map"
  si_deps :: "dep_row list"
  si_domains :: "SiteDomain list"
  si_hosts :: "(string, string) go_map"
  si_policies :: "(string, AuthPolicy) go_map"
  si_csp :: "(string, string) go_map"
  si_lim :: "(string, int) go_map"

text \<open>\<open>sv_project\<close> is the project provisioner and \<open>sv_trigger\<close> the deployment trigger, when there is one; \<open>sv_txt\<close> the DNS.\<close>

record sites_env =
  sv_db :: "nat \<Rightarrow> bool"
  sv_rand :: "string option"
  sv_token :: "string option"
  sv_now :: int
  sv_created :: string
  sv_project :: "bool option"
  sv_trigger :: "(string \<Rightarrow> string \<Rightarrow> string \<Rightarrow> string \<Rightarrow> string \<Rightarrow> (string, string) res) option"
  sv_cleanup :: "(string \<Rightarrow> string \<Rightarrow> dep_row list \<Rightarrow> dep_row list) option"
  sv_txt :: "string \<Rightarrow> string list option"
  sv_running :: "string \<Rightarrow> bool"
  sv_cert :: "(string \<Rightarrow> int option) option"

record new_site =
  ns_name :: string
  ns_repo :: string
  ns_branch :: string
  ns_root :: string
  ns_full :: string
  ns_defaults :: "DeployDefaults option"

datatype site_resp =
    SErr nat string
  | SAccess nat string
  | SSite Site
  | SSites "Site list"
  | SRepo string string string
  | SCreated Site "string option"
  | SDeployed string
  | SPolicy AuthPolicy
  | SDefaults DeployDefaults
  | SNoContent
  | SDomains "(SiteDomain \<times> string \<times> int option \<times> string) list"
  | SDomain SiteDomain
  | SVerify string bool string
  | SRetry string string int

section \<open>Access\<close>

definition named :: "string \<Rightarrow> Site \<Rightarrow> bool" where
  "named i r = (st_id r = i \<or> st_repo r = i)"

definition find_site :: "bool \<Rightarrow> string \<Rightarrow> Sites \<Rightarrow> Site option" where
  "find_site ok i s = (if ok then find (named i) (si_rows s) else None)"

definition find_id :: "bool \<Rightarrow> string \<Rightarrow> Sites \<Rightarrow> Site option" where
  "find_id ok i s = (if ok then find (\<lambda>r. st_id r = i) (si_rows s) else None)"

text \<open>The answer that refuses access; \<open>None\<close> when the caller may manage the site.\<close>

definition requireSiteOwnership :: "sites_env \<Rightarrow> req_ctx \<Rightarrow> string \<Rightarrow> Sites \<Rightarrow> site_resp option" where
  "requireSiteOwnership e ctx i s = (case cx_site ctx of
     Some (k # key) \<Rightarrow> (case find_site (sv_db e 0) i s of
         None \<Rightarrow> Some (SAccess 404 ''site_not_found'')
       | Some r \<Rightarrow> if k # key \<noteq> st_id r \<and> k # key \<noteq> st_repo r then Some (SAccess 404 ''key_site_mismatch'') else None)
   | _ \<Rightarrow> (case cx_org ctx of
         None \<Rightarrow> Some (SErr 403 ''organization required'')
       | Some g \<Rightarrow>
           if g = 0 then Some (SErr 403 ''organization required'')
           else (case find_site (sv_db e 0) i s of
               None \<Rightarrow> Some (SAccess 404 ''site_not_found'')
             | Some r \<Rightarrow> if st_org r = g \<or> (st_org r = 0 \<and> cx_role ctx = Some ''admin'') then None else Some (SAccess 404 ''site_not_found''))))"

definition AuthorizeSiteTarget :: "bool \<Rightarrow> string \<Rightarrow> int \<Rightarrow> Sites \<Rightarrow> bool" where
  "AuthorizeSiteTarget ok i g s = (i \<noteq> [] \<and> g > 0 \<and> ok \<and> list_ex (\<lambda>r. named i r \<and> int (st_org r) = g) (si_rows s))"

section \<open>Sites\<close>

definition ListSites :: "req_ctx \<Rightarrow> Sites \<Rightarrow> Site list" where
  "ListSites ctx s = (case cx_org ctx of
     Some (Suc g) \<Rightarrow> filter (\<lambda>r. st_org r = Suc g \<or> (st_org r = 0 \<and> cx_role ctx = Some ''admin'')) (si_rows s)
   | _ \<Rightarrow> si_rows s)"

definition listSites :: "sites_env \<Rightarrow> req_ctx \<Rightarrow> Sites \<Rightarrow> site_resp" where
  "listSites e ctx s =
     (if cx_org ctx = None \<or> cx_org ctx = Some 0 then SErr 403 ''organization required''
      else if \<not> sv_db e 0 then SErr 500 ''internal error'' else SSites (ListSites ctx s))"

text \<open>When the row cannot be read, the identifier is tried as that of a repository.\<close>

definition getSite :: "sites_env \<Rightarrow> req_ctx \<Rightarrow> string \<Rightarrow> Sites \<Rightarrow> site_resp" where
  "getSite e ctx i s = (case requireSiteOwnership e ctx i s of
     Some a \<Rightarrow> a
   | None \<Rightarrow> (case find_site (sv_db e 1) i s of
         Some r \<Rightarrow> SSite r
       | None \<Rightarrow> (case (if sv_db e 2 then map_of (si_repos s) i else None) of
             Some (name, branch) \<Rightarrow> SRepo i name branch
           | None \<Rightarrow> SErr 404 ''site not found'')))"

definition Validate :: "DeployDefaults \<Rightarrow> bool" where
  "Validate d = ((df_AppType d = [] \<or> df_AppType d \<in> {''node'', ''go'', ''python'', ''php'', ''static''})
     \<and> (df_HealthPath d = [] \<or> HasPrefix (df_HealthPath d) ''/''))"

datatype insert_error = NoRepo | NameTaken | InsertFailed

text \<open>
  Statements 0 to 4: the repository, the name, the row, and the removal of the row when its project cannot
  be made.
\<close>

definition insertSite :: "sites_env \<Rightarrow> req_ctx \<Rightarrow> new_site \<Rightarrow> Sites \<Rightarrow> (insert_error, Site) res \<times> Sites" where
  "insertSite e ctx n s =
     (if ns_repo n = [] then (Inl InsertFailed, s)
      else (case (if sv_db e 0 then map_of (si_repos s) (ns_repo n) else None) of
          None \<Rightarrow> (Inl NoRepo, s)
        | Some (repoName, _) \<Rightarrow>
            let name = (if ns_name n = [] then repoName else ns_name n); org = (case cx_org ctx of None \<Rightarrow> 0 | Some g \<Rightarrow> g) in
            if sv_db e 1 \<and> (\<exists>r \<in> set (si_rows s). st_name r = name \<and> (st_org r = org \<or> st_org r = 0)) then (Inl NameTaken, s)
            else (case GenerateID (sv_rand e) of
                None \<Rightarrow> (Inl InsertFailed, s)
              | Some i \<Rightarrow>
                  if \<not> sv_db e 2 then (Inl InsertFailed, s)
                  else let row = \<lparr> st_id = i, st_name = name, st_repo = ns_repo n, st_branch = (if ns_branch n = [] then ''main'' else ns_branch n),
                         st_root = (if ns_root n = [] then ''./'' else ns_root n), st_full = ns_full n, st_org = org, st_policy = None,
                         st_defaults = ns_defaults n, st_created = sv_created e \<rparr>;
                         s1 = (if \<exists>r \<in> set (si_rows s). st_id r = i then s else s\<lparr> si_rows := si_rows s @ [row] \<rparr>) in
                    (case sv_project e of
                       Some False \<Rightarrow> (Inl InsertFailed, if sv_db e 3 then s1\<lparr> si_rows := filter (\<lambda>r. st_id r \<noteq> i) (si_rows s1) \<rparr> else s1)
                     | _ \<Rightarrow> (Inr row, s1)))))"

definition createSite :: "sites_env \<Rightarrow> req_ctx \<Rightarrow> new_site option \<Rightarrow> Sites \<Rightarrow> Sites \<times> site_resp" where
  "createSite e ctx body s = (case body of
     None \<Rightarrow> (s, SErr 400 ''invalid json'')
   | Some n \<Rightarrow>
       if ns_repo n = [] then (s, SErr 400 ''git_repo_id is required'')
       else if ns_name n = [] then (s, SErr 400 ''name is required'')
       else if (case ns_defaults n of None \<Rightarrow> False | Some d \<Rightarrow> \<not> Validate d) then (s, SErr 400 ''invalid deploy_defaults'')
       else (case insertSite e ctx n s of
           (Inl NameTaken, s1) \<Rightarrow> (s1, SAccess 409 ''site_name_taken'')
         | (Inl NoRepo, s1) \<Rightarrow> (s1, SErr 400 ''repository not found'')
         | (Inl InsertFailed, s1) \<Rightarrow> (s1, SErr 500 ''internal error'')
         | (Inr r, s1) \<Rightarrow> (case sv_trigger e of
               None \<Rightarrow> (s1, SCreated r None)
             | Some f \<Rightarrow> (case f (st_repo r) (st_branch r) (st_name r) (st_id r) [] of
                   Inl msg \<Rightarrow> (s1, SErr 400 msg)
                 | Inr d \<Rightarrow> (s1, SCreated r (Some d))))))"

section \<open>Deletion\<close>

definition activeDeploymentStatuses :: "string list" where
  "activeDeploymentStatuses = [''pending'', ''building'', ''deploying'', ''draining'', ''running'']"

definition IsActiveDeploymentStatus :: "string \<Rightarrow> bool" where
  "IsActiveDeploymentStatus st = (st \<in> set activeDeploymentStatuses)"

definition of_target :: "Site \<Rightarrow> dep_row \<Rightarrow> bool" where
  "of_target t d = (dp_site d = st_id t \<or> (dp_site d = [] \<and> dp_repo d = st_repo t))"

definition hasActiveDeployment :: "bool \<Rightarrow> Site \<Rightarrow> Sites \<Rightarrow> bool option" where
  "hasActiveDeployment ok t s = (if \<not> ok then None else Some (list_ex (\<lambda>d. of_target t d \<and> IsActiveDeploymentStatus (dp_status d)) (si_deps s)))"

text \<open>Statements 3 to 6: the domains, the request logs, the deployments and the site; the first failure ends it.\<close>

definition deleteSiteRecords :: "sites_env \<Rightarrow> Site \<Rightarrow> Sites \<Rightarrow> bool \<times> Sites" where
  "deleteSiteRecords e t s =
     (if \<not> sv_db e 3 then (False, s)
      else let s1 = s\<lparr> si_domains := filter (\<lambda>d. dm_site d \<noteq> st_id t) (si_domains s) \<rparr> in
        if \<not> sv_db e 4 \<or> \<not> sv_db e 5 then (False, s1)
        else let s2 = s1\<lparr> si_deps := filter (\<lambda>d. \<not> of_target t d) (si_deps s1) \<rparr> in
          if \<not> sv_db e 6 then (False, s2)
          else (True, s2\<lparr> si_rows := filter (\<lambda>r. st_id r \<noteq> st_id t) (si_rows s2) \<rparr>))"

definition deleteSite :: "sites_env \<Rightarrow> req_ctx \<Rightarrow> string \<Rightarrow> Sites \<Rightarrow> Sites \<times> site_resp" where
  "deleteSite e ctx i s = (case requireSiteOwnership e ctx i s of
     Some a \<Rightarrow> (s, a)
   | None \<Rightarrow>
       if \<not> sv_db e 1 then (s, SErr 500 ''internal error'')
       else (case find_site True i s of
           None \<Rightarrow> (s, SErr 404 ''site not found'')
         | Some t \<Rightarrow> (case hasActiveDeployment (sv_db e 2) t s of
               None \<Rightarrow> (s, SErr 500 ''internal error'')
             | Some active \<Rightarrow>
                 if active \<and> sv_cleanup e = None
                 then (s, SErr 409 ''site has an active deployment'')
                 else let s1 = (case sv_cleanup e of None \<Rightarrow> s | Some f \<Rightarrow> s\<lparr> si_deps := f (st_id t) (st_repo t) (si_deps s) \<rparr>) in
                   (case deleteSiteRecords e t s1 of (ok, s2) \<Rightarrow> (s2, if ok then SNoContent else SErr 500 ''internal error'')))))"

section \<open>Deployments, policies and defaults\<close>

definition redeploySite :: "sites_env \<Rightarrow> req_ctx \<Rightarrow> string \<Rightarrow> string \<times> string \<Rightarrow> Sites \<Rightarrow> site_resp" where
  "redeploySite e ctx i body s = (case requireSiteOwnership e ctx i s of
     Some a \<Rightarrow> a
   | None \<Rightarrow> (case find_site (sv_db e 1) i s of
         None \<Rightarrow> SAccess 404 ''site_not_found''
       | Some r \<Rightarrow> (case sv_trigger e of
             None \<Rightarrow> SErr 503 ''deploy unavailable''
           | Some f \<Rightarrow> (case f (st_repo r) (if fst body \<noteq> [] then fst body else st_branch r) (st_name r) (st_id r) (snd body) of
                 Inl msg \<Rightarrow> SErr 400 msg | Inr d \<Rightarrow> SDeployed d))))"

definition public_policy :: AuthPolicy where
  "public_policy = \<lparr> ap_Default = ''public'', ap_ProtectedPaths = [], ap_PublicPaths = [], ap_Accept = [] \<rparr>"

definition default_public :: "AuthPolicy \<Rightarrow> AuthPolicy" where
  "default_public p = (if ap_Default p = [] then p\<lparr> ap_Default := ''public'' \<rparr> else p)"

definition getSiteAuthPolicy_api :: "sites_env \<Rightarrow> req_ctx \<Rightarrow> string \<Rightarrow> Sites \<Rightarrow> site_resp" where
  "getSiteAuthPolicy_api e ctx i s = (case requireSiteOwnership e ctx i s of
     Some a \<Rightarrow> a
   | None \<Rightarrow> if \<not> sv_db e 1 then SErr 500 ''database error''
       else (case find_id True i s of
           None \<Rightarrow> SErr 404 ''site not found''
         | Some r \<Rightarrow> SPolicy (case st_policy r of None \<Rightarrow> public_policy | Some p \<Rightarrow> default_public p)))"

definition on_site :: "string \<Rightarrow> (Site \<Rightarrow> Site) \<Rightarrow> Sites \<Rightarrow> Sites" where
  "on_site i f s = s\<lparr> si_rows := map (\<lambda>r. if st_id r = i then f r else r) (si_rows s) \<rparr>"

definition setSiteAuthPolicy :: "sites_env \<Rightarrow> req_ctx \<Rightarrow> string \<Rightarrow> AuthPolicy option \<Rightarrow> Sites \<Rightarrow> Sites \<times> site_resp" where
  "setSiteAuthPolicy e ctx i body s = (case requireSiteOwnership e ctx i s of
     Some a \<Rightarrow> (s, a)
   | None \<Rightarrow>
       if find_id (sv_db e 1) i s = None then (s, SErr 404 ''site not found'')
       else (case body of
           None \<Rightarrow> (s, SErr 400 ''invalid json'')
         | Some p0 \<Rightarrow> (let p = default_public p0 in
             if ap_Default p \<noteq> ''public'' \<and> ap_Default p \<noteq> ''protected'' then (s, SErr 400 ''invalid default policy value'')
             else if \<not> sv_db e 2 then (s, SErr 500 ''database error'')
             else ((on_site i (\<lambda>r. r\<lparr> st_policy := Some p \<rparr>) s)\<lparr> si_policies := map_put i p (si_policies s) \<rparr>, SPolicy p))))"

definition no_defaults :: DeployDefaults where
  "no_defaults = \<lparr> df_AppType = [], df_BuildCommand = [], df_StartCommand = [], df_PassthroughPaths = [], df_HealthPath = [], df_Env = [], df_CSPPolicy = [] \<rparr>"

definition getSiteDeployDefaults :: "sites_env \<Rightarrow> req_ctx \<Rightarrow> string \<Rightarrow> Sites \<Rightarrow> site_resp" where
  "getSiteDeployDefaults e ctx i s = (case requireSiteOwnership e ctx i s of
     Some a \<Rightarrow> a
   | None \<Rightarrow> if \<not> sv_db e 1 then SErr 500 ''database error''
       else (case find_id True i s of
           None \<Rightarrow> SErr 404 ''site not found''
         | Some r \<Rightarrow> SDefaults (case st_defaults r of None \<Rightarrow> no_defaults | Some d \<Rightarrow> d)))"

definition setSiteDeployDefaults :: "sites_env \<Rightarrow> req_ctx \<Rightarrow> string \<Rightarrow> DeployDefaults option \<Rightarrow> Sites \<Rightarrow> Sites \<times> site_resp" where
  "setSiteDeployDefaults e ctx i body s = (case requireSiteOwnership e ctx i s of
     Some a \<Rightarrow> (s, a)
   | None \<Rightarrow>
       if find_id (sv_db e 1) i s = None then (s, SErr 404 ''site not found'')
       else (case body of
           None \<Rightarrow> (s, SErr 400 ''invalid json'')
         | Some d \<Rightarrow>
             if \<not> Validate d then (s, SErr 400 ''invalid deploy_defaults'')
             else if \<not> sv_db e 2 then (s, SErr 500 ''database error'')
             else ((on_site i (\<lambda>r. r\<lparr> st_defaults := Some d \<rparr>) s)\<lparr> si_csp := map_put i (df_CSPPolicy d) (si_csp s) \<rparr>, SDefaults d)))"

end
