(* ===== verification/Sites_Domains.thy ===== *)
theory Sites_Domains
  imports Sites_Registry
begin

text \<open>
  Custom domains (\<^verbatim>\<open>components/sites/domains.go\<close>): registration, proof by a DNS record, routing, and the
  budget of attempts at a certificate. Times are nanoseconds; the database keeps them as RFC 3339 text, whole
  seconds, whose order is that of the times. A verified domain is routed at once when its site has a running
  deployment, which is what the deployment engine's \<^verbatim>\<open>ActivateCustomDomain\<close> does. Domains are listed in the order of
  their registration.
\<close>

section \<open>Names\<close>

definition low_alnum :: "char \<Rightarrow> bool" where
  "low_alnum c = (c \<in> set ''abcdefghijklmnopqrstuvwxyz0123456789'')"

text \<open>One label: alphanumeric at both ends, dashes between, at most 63 bytes; the last has at least two.\<close>

definition good_label :: "string \<Rightarrow> bool" where
  "good_label l = (l \<noteq> [] \<and> length l \<le> 63 \<and> low_alnum (hd l) \<and> low_alnum (last l) \<and> list_all (\<lambda>c. low_alnum c \<or> c = CHR ''-'') l)"

definition domainRE :: "string \<Rightarrow> bool" where
  "domainRE d = (let ls = Split d CHR ''.'' in length ls \<ge> 2 \<and> list_all good_label ls \<and> length (last ls) \<ge> 2)"

section \<open>The limiter\<close>

definition lim_allow :: "string \<Rightarrow> int \<Rightarrow> Sites \<Rightarrow> bool \<times> Sites" where
  "lim_allow key now s = (case map_of (si_lim s) key of
     Some t \<Rightarrow> if now - t < 5 * Second then (False, s) else (True, s\<lparr> si_lim := map_put key now (si_lim s) \<rparr>)
   | None \<Rightarrow> (True, s\<lparr> si_lim := map_put key now (si_lim s) \<rparr>))"

section \<open>Certificates\<close>

definition certMaxAttempts :: nat where "certMaxAttempts = 5"
definition certStaleAfter :: int where "certStaleAfter = 15 * Minute"
definition certRetryAfter :: int where "certRetryAfter = 2 * Minute"
definition certWarnWindow :: int where "certWarnWindow = 30 * 24 * Hour"

definition certStatus :: "int \<Rightarrow> int \<Rightarrow> string \<times> int" where
  "certStatus notAfter now =
     (if now > notAfter then ''expired'' else if notAfter - now < certWarnWindow then ''expiring_soon'' else ''valid'', rfc3339 notAfter)"

definition certFailureReason :: "string \<Rightarrow> string \<Rightarrow> string" where
  "certFailureReason lastError fallback = (if TrimSpace lastError \<noteq> [] then lastError else fallback)"

text \<open>The reason, when the attempts or the time of a domain without a certificate are used up.\<close>

definition evaluateCertAttempts :: "int \<Rightarrow> SiteDomain \<Rightarrow> string option" where
  "evaluateCertAttempts now d =
     (if dm_attempts d \<ge> certMaxAttempts then Some (certFailureReason (dm_error d) (''certificate provisioning failed after '' @ Itoa (dm_attempts d) @ '' attempts''))
      else (case (case dm_started d of None \<Rightarrow> dm_verified d | Some t \<Rightarrow> Some t) of
          Some t \<Rightarrow> if now - t \<ge> certStaleAfter then Some (certFailureReason (dm_error d) ''certificate provisioning timed out after 15m0s'') else None
        | None \<Rightarrow> None))"

definition is_row :: "string \<Rightarrow> string \<Rightarrow> SiteDomain \<Rightarrow> bool" where
  "is_row site domain d = (dm_site d = site \<and> dm_domain d = domain)"

definition find_domain :: "bool \<Rightarrow> string \<Rightarrow> string \<Rightarrow> Sites \<Rightarrow> SiteDomain option" where
  "find_domain ok site domain s = (if ok then find (is_row site domain) (si_domains s) else None)"

definition on_domain :: "string \<Rightarrow> string \<Rightarrow> (SiteDomain \<Rightarrow> SiteDomain) \<Rightarrow> Sites \<Rightarrow> Sites" where
  "on_domain site domain f s = s\<lparr> si_domains := map (\<lambda>d. if is_row site domain d then f d else d) (si_domains s) \<rparr>"

text \<open>The observation is recorded where the window has passed, in one statement.\<close>

definition window_open :: "int \<Rightarrow> SiteDomain \<Rightarrow> bool" where
  "window_open now d = (case dm_retry d of None \<Rightarrow> True | Some t \<Rightarrow> t \<le> rfc3339 now)"

definition recorded :: "int \<Rightarrow> SiteDomain \<Rightarrow> SiteDomain" where
  "recorded now d = d\<lparr> dm_attempts := dm_attempts d + 1, dm_last := Some (rfc3339 now), dm_retry := Some (rfc3339 (now + certRetryAfter)),
     dm_started := (case dm_started d of None \<Rightarrow> Some (rfc3339 now) | Some t \<Rightarrow> Some t) \<rparr>"

definition recordCertAttempt :: "string \<Rightarrow> string \<Rightarrow> int \<Rightarrow> Sites \<Rightarrow> bool \<times> Sites" where
  "recordCertAttempt site domain now s =
     (list_ex (\<lambda>d. is_row site domain d \<and> window_open now d) (si_domains s),
      on_domain site domain (\<lambda>d. if window_open now d then recorded now d else d) s)"

text \<open>What is shown of a verified domain as it was read: the status, the expiry and the reason of a failure.\<close>

definition certStatusFor :: "sites_env \<Rightarrow> nat \<Rightarrow> SiteDomain \<Rightarrow> Sites \<Rightarrow> (SiteDomain \<times> string \<times> int option \<times> string) \<times> Sites" where
  "certStatusFor e n d s = (case sv_cert e of
     None \<Rightarrow> ((d, [], None, []), s)
   | Some cert \<Rightarrow> (case cert (dm_domain d) of
         Some notAfter \<Rightarrow> (case certStatus notAfter (sv_now e) of (st, exp) \<Rightarrow> ((d, st, Some exp, []), s))
       | None \<Rightarrow> (case evaluateCertAttempts (sv_now e) d of
             Some reason \<Rightarrow> ((d, ''failed'', None, reason), s)
           | None \<Rightarrow>
               if (case dm_retry d of None \<Rightarrow> True | Some t \<Rightarrow> t \<le> sv_now e) \<and> sv_db e n
               then (case recordCertAttempt (dm_site d) (dm_domain d) (sv_now e) s of
                   (True, s1) \<Rightarrow> (let d1 = recorded (sv_now e) d in
                     (case evaluateCertAttempts (sv_now e) d1 of
                        Some reason \<Rightarrow> ((d1, ''failed'', None, reason), s1)
                      | None \<Rightarrow> ((d1, ''provisioning'', None, []), s1)))
                 | (False, s1) \<Rightarrow> ((d, ''provisioning'', None, []), s1))
               else ((d, ''provisioning'', None, []), s))))"

fun show_domains :: "sites_env \<Rightarrow> nat \<Rightarrow> SiteDomain list \<Rightarrow> Sites \<Rightarrow> (SiteDomain \<times> string \<times> int option \<times> string) list \<times> Sites" where
  "show_domains e n [] s = ([], s)"
| "show_domains e n (d # ds) s =
     (case (if dm_verified d = None then ((d, [], None, []), s) else certStatusFor e n d s) of
        (x, s1) \<Rightarrow> (case show_domains e (Suc n) ds s1 of (xs, s2) \<Rightarrow> (x # xs, s2)))"

section \<open>Requests\<close>

definition listDomains :: "sites_env \<Rightarrow> string \<Rightarrow> Sites \<Rightarrow> Sites \<times> site_resp" where
  "listDomains e site s =
     (if \<not> sv_db e 1 then (s, SErr 500 ''internal error'')
      else (case show_domains e 2 (filter (\<lambda>d. dm_site d = site) (si_domains s)) s of (xs, s1) \<Rightarrow> (s1, SDomains xs)))"

definition siteExists :: "bool \<Rightarrow> string \<Rightarrow> Sites \<Rightarrow> bool" where
  "siteExists ok site s = (ok \<and> list_ex (\<lambda>r. st_id r = site) (si_rows s))"

definition registerDomain :: "sites_env \<Rightarrow> string \<Rightarrow> string option \<Rightarrow> Sites \<Rightarrow> Sites \<times> site_resp" where
  "registerDomain e site body s = (case body of
     None \<Rightarrow> (s, SErr 400 ''invalid json'')
   | Some raw \<Rightarrow> (let domain = ToLower (TrimSpace raw) in
       if domain = [] then (s, SErr 400 ''domain is required'')
       else if \<not> domainRE domain then (s, SErr 400 ''invalid domain format'')
       else if \<not> siteExists (sv_db e 1) site s then (s, SErr 404 ''site not found'')
       else (case (GenerateID (sv_rand e), sv_token e) of
           (Some i, Some tok) \<Rightarrow>
             if list_ex (is_row site domain) (si_domains s) then (s, SErr 409 ''domain already registered for this site'')
             else if \<not> sv_db e 2 then (s, SErr 500 ''internal error'')
             else let d = \<lparr> dm_id = i, dm_site = site, dm_domain = domain, dm_token = hex_encode tok, dm_verified = None, dm_created = rfc3339 (sv_now e),
                    dm_attempts = 0, dm_started = None, dm_last = None, dm_error = [], dm_retry = None \<rparr>
               in (s\<lparr> si_domains := si_domains s @ [d] \<rparr>, SDomain d)
         | _ \<Rightarrow> (s, SErr 500 ''internal error''))))"

definition deleteDomain :: "sites_env \<Rightarrow> string \<Rightarrow> string \<Rightarrow> Sites \<Rightarrow> Sites \<times> site_resp" where
  "deleteDomain e site domain s =
     (if \<not> sv_db e 1 then (s, SErr 500 ''internal error'')
      else if \<not> list_ex (is_row site domain) (si_domains s) then (s, SErr 404 ''domain not found'')
      else (s\<lparr> si_domains := filter (\<lambda>d. \<not> is_row site domain d) (si_domains s), si_hosts := map_del domain (si_hosts s) \<rparr>, SNoContent))"

definition activate :: "sites_env \<Rightarrow> string \<Rightarrow> string \<Rightarrow> Sites \<Rightarrow> Sites" where
  "activate e site domain s = (if sv_running e site then s\<lparr> si_hosts := map_put domain site (si_hosts s) \<rparr> else s)"

definition checkDNSTXT :: "sites_env \<Rightarrow> string \<Rightarrow> string \<Rightarrow> bool" where
  "checkDNSTXT e domain expected = (case sv_txt e domain of None \<Rightarrow> False | Some rs \<Rightarrow> expected \<in> set rs)"

definition txt_record :: "SiteDomain \<Rightarrow> string" where
  "txt_record d = ''bigbase-verify='' @ dm_token d"

text \<open>The outcome of the update of a verified domain is not looked at.\<close>

definition verifyDomain :: "sites_env \<Rightarrow> string \<Rightarrow> string \<Rightarrow> Sites \<Rightarrow> Sites \<times> site_resp" where
  "verifyDomain e site domain s = (case lim_allow (site @ ''|'' @ domain) (sv_now e) s of
     (False, s1) \<Rightarrow> (s1, SErr 429 ''too many verification attempts, try again shortly'')
   | (True, s1) \<Rightarrow> (case find_domain (sv_db e 1) site domain s1 of
         None \<Rightarrow> (s1, SErr 404 ''domain not registered'')
       | Some d \<Rightarrow>
           if checkDNSTXT e domain (txt_record d)
           then (let now = rfc3339 (sv_now e);
                     s2 = (if sv_db e 2 then on_domain site domain (\<lambda>x. x\<lparr> dm_verified := Some now,
                            dm_started := (case dm_started x of None \<Rightarrow> Some now | Some t \<Rightarrow> Some t) \<rparr>) s1 else s1)
                 in (activate e site domain s2, SVerify domain True (dm_token d)))
           else (s1, SVerify domain False (dm_token d))))"

definition retryDomainCert :: "sites_env \<Rightarrow> string \<Rightarrow> string \<Rightarrow> Sites \<Rightarrow> Sites \<times> site_resp" where
  "retryDomainCert e site domain s = (case lim_allow (''cert|'' @ site @ ''|'' @ domain) (sv_now e) s of
     (False, s1) \<Rightarrow> (s1, SErr 429 ''too many retry attempts, try again shortly'')
   | (True, s1) \<Rightarrow> (case find_domain (sv_db e 1) site domain s1 of
         None \<Rightarrow> (s1, SErr 404 ''domain not registered'')
       | Some d \<Rightarrow>
           if dm_verified d = None then (s1, SErr 409 ''domain is not verified'')
           else if \<not> sv_db e 2 then (s1, SErr 500 ''internal error'')
           else (let now = rfc3339 (sv_now e); after = rfc3339 (sv_now e + certRetryAfter);
                     s2 = on_domain site domain (\<lambda>x. x\<lparr> dm_attempts := 0, dm_started := Some now, dm_last := Some now, dm_error := [], dm_retry := Some after \<rparr>) s1;
                     st = (case sv_cert e of None \<Rightarrow> ''provisioning'' | Some cert \<Rightarrow> (case cert domain of None \<Rightarrow> ''provisioning'' | Some t \<Rightarrow> fst (certStatus t (sv_now e))))
                 in (activate e site domain s2, SRetry domain st after))))"

text \<open>The parts of the path after \<^verbatim>\<open>/api/sites/\<close>; the body is that of a registration.\<close>

definition handleDomains :: "sites_env \<Rightarrow> req_ctx \<Rightarrow> string \<Rightarrow> string list \<Rightarrow> string option \<Rightarrow> Sites \<Rightarrow> Sites \<times> site_resp" where
  "handleDomains e ctx meth parts body s = (case parts of
     site # dd # rest \<Rightarrow>
       if dd \<noteq> ''domains'' then (s, SErr 404 ''not found'')
       else (case requireSiteOwnership e ctx site s of
           Some a \<Rightarrow> (s, a)
         | None \<Rightarrow> (case rest of
               [] \<Rightarrow> if meth = ''GET'' then listDomains e site s else if meth = ''POST'' then registerDomain e site body s else (s, SErr 405 ''method not allowed'')
             | [d] \<Rightarrow> if meth = ''DELETE'' then deleteDomain e site d s else (s, SErr 405 ''method not allowed'')
             | [d, v] \<Rightarrow> if v = ''verify'' \<and> meth = ''POST'' then verifyDomain e site d s else (s, SErr 405 ''method not allowed'')
             | [d, c, r] \<Rightarrow> if c = ''cert'' \<and> r = ''retry'' \<and> meth = ''POST'' then retryDomainCert e site d s else (s, SErr 405 ''method not allowed'')
             | _ \<Rightarrow> (s, SErr 405 ''method not allowed'')))
   | _ \<Rightarrow> (s, SErr 404 ''not found''))"

section \<open>The routes of the component\<close>

datatype site_body = NoBody | NewSite "new_site option" | DomainBody "string option" | PolicyBody "AuthPolicy option" | DefaultsBody "DeployDefaults option" | DeployBody "string \<times> string"

record site_req =
  sr_method :: string
  sr_parts :: "string list"
  sr_body :: site_body

definition handleSites :: "sites_env \<Rightarrow> req_ctx \<Rightarrow> site_req \<Rightarrow> Sites \<Rightarrow> Sites \<times> site_resp" where
  "handleSites e ctx q s =
     (if sr_method q = ''GET'' then (s, listSites e ctx s)
      else if sr_method q = ''POST'' then createSite e ctx (case sr_body q of NewSite b \<Rightarrow> b | _ \<Rightarrow> None) s
      else (s, SErr 405 ''method not allowed''))"

text \<open>\<open>None\<close>: the request logs, the manifest and the environment variables of a site, which are not modelled.\<close>

definition handleSiteByID :: "sites_env \<Rightarrow> req_ctx \<Rightarrow> site_req \<Rightarrow> Sites \<Rightarrow> (Sites \<times> site_resp) option" where
  "handleSiteByID e ctx q s = (let meth = sr_method q; get_site = (\<lambda>i. if meth \<noteq> ''GET'' then (s, SErr 405 ''method not allowed'') else (s, getSite e ctx i s)) in
     case sr_parts q of
       [] \<Rightarrow> Some (s, SErr 400 ''id required'')
     | [i] \<Rightarrow> Some (if i = [] then (s, SErr 400 ''id required'') else if meth = ''DELETE'' then deleteSite e ctx i s else get_site i)
     | i # sub # rest \<Rightarrow>
         if i = [] then Some (s, SErr 400 ''id required'')
         else if rest = [] \<and> sub = ''deploy'' \<and> meth = ''POST'' then Some (s, redeploySite e ctx i (case sr_body q of DeployBody b \<Rightarrow> b | _ \<Rightarrow> ([], [])) s)
         else if rest = [] \<and> sub = ''logs'' \<and> meth = ''GET'' then None
         else if rest = [] \<and> sub = ''manifest'' then (if meth \<in> {''GET'', ''POST''} then None else Some (s, SErr 405 ''method not allowed''))
         else if rest = [] \<and> sub = ''auth-policy'' then
           Some (if meth = ''GET'' then (s, getSiteAuthPolicy_api e ctx i s)
                 else if meth = ''POST'' then setSiteAuthPolicy e ctx i (case sr_body q of PolicyBody b \<Rightarrow> b | _ \<Rightarrow> None) s
                 else (s, SErr 405 ''method not allowed''))
         else if rest = [] \<and> sub = ''deploy-defaults'' then
           Some (if meth = ''GET'' then (s, getSiteDeployDefaults e ctx i s)
                 else if meth = ''PUT'' then setSiteDeployDefaults e ctx i (case sr_body q of DefaultsBody b \<Rightarrow> b | _ \<Rightarrow> None) s
                 else (s, SErr 405 ''method not allowed''))
         else if sub = ''domains'' then Some (handleDomains e ctx meth (sr_parts q) (case sr_body q of DomainBody b \<Rightarrow> b | _ \<Rightarrow> None) s)
         else if sub = ''env-vars'' then None
         else Some (get_site i))"

end
