(* ===== verification/Sites_Safety.thy ===== *)
theory Sites_Safety
  imports Sites_Domains Deploy_Machine
begin

text \<open>
  Who may change a site, and what routes to it. A site changes only through callers with standing for it,
  whatever is requested and whatever fails; a domain is routed to a site only with the proof of a DNS record.
  Below, what the handlers let through nevertheless.
\<close>

section \<open>Standing\<close>

definition standing :: "req_ctx \<Rightarrow> Site \<Rightarrow> bool" where
  "standing ctx r = (case cx_site ctx of
     Some (k # key) \<Rightarrow> k # key = st_id r \<or> k # key = st_repo r
   | _ \<Rightarrow> (case cx_org ctx of None \<Rightarrow> False | Some g \<Rightarrow> g \<noteq> 0 \<and> (st_org r = g \<or> (st_org r = 0 \<and> cx_role ctx = Some ''admin''))))"

definition ids :: "Sites \<Rightarrow> string set" where
  "ids s = st_id ` set (si_rows s)"

text \<open>
  Identifiers are unique, none is that of a repository, and domains belong to sites, each once.
\<close>

definition sites_ok :: "Sites \<Rightarrow> bool" where
  "sites_ok s = (distinct (map st_id (si_rows s)) \<and> list_all (\<lambda>r. st_repo r \<notin> ids s) (si_rows s) \<and> list_all (\<lambda>p. fst p \<notin> ids s) (si_repos s)
     \<and> list_all (\<lambda>d. dm_site d \<in> ids s) (si_domains s))"

lemma sites_ok_iff: "sites_ok s \<longleftrightarrow> distinct (map st_id (si_rows s)) \<and> set (map st_repo (si_rows s)) \<inter> ids s = {} \<and> set (map fst (si_repos s)) \<inter> ids s = {}
    \<and> dm_site ` set (si_domains s) \<subseteq> ids s"
  unfolding sites_ok_def list_all_iff by auto

lemma ownership:
  assumes "requireSiteOwnership e ctx i s = None"
  obtains r where "find (named i) (si_rows s) = Some r" "standing ctx r"
  using assms that unfolding requireSiteOwnership_def standing_def find_site_def
  by (fastforce split: option.splits list.splits if_splits)

lemma owner_row:
  assumes w: "sites_ok s" and o: "requireSiteOwnership e ctx i s = None" and r: "r \<in> set (si_rows s)" "st_id r = i"
  shows "standing ctx r"
proof -
  obtain r' where r': "find (named i) (si_rows s) = Some r'" "standing ctx r'" using ownership [OF o] by blast
  note f = find_SomeD [OF r'(1)]
  have "st_repo r' \<noteq> i" using w f r by (auto simp: sites_ok_def ids_def list_all_iff)
  then have "st_id r' = st_id r" using f r(2) by (simp add: named_def)
  then have "r' = r" using w f r(1) by (metis distinct_map inj_onD sites_ok_def)
  then show ?thesis using r'(2) by simp
qed

section \<open>What is kept\<close>

text \<open>What belongs to a site: its row, its domains and its deployments.\<close>

definition site_view :: "string \<Rightarrow> Sites \<Rightarrow> Site list \<times> SiteDomain list \<times> dep_row list" where
  "site_view i s = (filter (\<lambda>r. st_id r = i) (si_rows s), filter (\<lambda>d. dm_site d = i) (si_domains s), filter (\<lambda>d. dp_site d = i) (si_deps s))"

text \<open>The environment of a request: a new identifier is new, and the cleanup of a site touches its deployments only.\<close>

definition site_env_ok :: "sites_env \<Rightarrow> Sites \<Rightarrow> bool" where
  "site_env_ok e s = ((case GenerateID (sv_rand e) of None \<Rightarrow> True | Some i \<Rightarrow> i \<notin> ids s \<and> i \<notin> set (map st_repo (si_rows s)) \<and> i \<notin> set (map fst (si_repos s)))
     \<and> (case sv_cleanup e of None \<Rightarrow> True
        | Some f \<Rightarrow> \<forall>site repo ds i. i \<noteq> site \<longrightarrow> i \<noteq> [] \<longrightarrow> filter (\<lambda>d. dp_site d = i) (f site repo ds) = filter (\<lambda>d. dp_site d = i) ds))"

text \<open>A step keeps what belongs to the sites that it may not change, and the tables stay well formed.\<close>

definition keeps :: "req_ctx \<Rightarrow> Sites \<Rightarrow> Sites \<Rightarrow> bool" where
  "keeps ctx s s' = (sites_ok s' \<and> (\<forall>r \<in> set (si_rows s). \<not> standing ctx r \<longrightarrow> st_id r \<noteq> [] \<longrightarrow> site_view (st_id r) s' = site_view (st_id r) s))"

lemma keeps_refl: "sites_ok s \<Longrightarrow> keeps ctx s s"
  by (simp add: keeps_def)

text \<open>A change of what belongs to one site, to whose row the caller has standing.\<close>

lemma keeps_one:
  assumes "sites_ok s'" "\<And>r. r \<in> set (si_rows s) \<Longrightarrow> st_id r = i \<Longrightarrow> standing ctx r" "\<And>j. j \<noteq> i \<Longrightarrow> j \<noteq> [] \<Longrightarrow> site_view j s' = site_view j s"
  shows "keeps ctx s s'"
  using assms by (auto simp: keeps_def)

lemma filter_map_other: "(\<And>x. x \<in> set xs \<Longrightarrow> P (f x) = P x) \<Longrightarrow> (\<And>x. P x \<Longrightarrow> f x = x) \<Longrightarrow> filter P (map f xs) = filter P xs"
  by (induction xs) auto

lemma on_site_wf: "sites_ok s \<Longrightarrow> (\<And>r. st_id (f r) = st_id r \<and> st_repo (f r) = st_repo r) \<Longrightarrow> sites_ok (on_site i f s)"
proof -
  assume w: "sites_ok s" and f: "\<And>r. st_id (f r) = st_id r \<and> st_repo (f r) = st_repo r"
  have m: "map st_id (si_rows (on_site i f s)) = map st_id (si_rows s)" "map st_repo (si_rows (on_site i f s)) = map st_repo (si_rows s)"
    using f by (simp_all add: on_site_def)
  then have "ids (on_site i f s) = ids s" unfolding ids_def by (metis set_map)
  then show ?thesis using w unfolding sites_ok_iff m by (simp add: on_site_def)
qed

lemma on_site_view: "(\<And>r. st_id (f r) = st_id r) \<Longrightarrow> j \<noteq> i \<Longrightarrow> site_view j (on_site i f s) = site_view j s"
  by (simp add: site_view_def on_site_def filter_map_other)

lemma on_domain_wf: "sites_ok s \<Longrightarrow> (\<And>d. dm_site (f d) = dm_site d) \<Longrightarrow> sites_ok (on_domain i n f s)"
  by (auto simp: sites_ok_def on_domain_def ids_def list_all_iff)

lemma on_domain_view: "(\<And>d. dm_site (f d) = dm_site d) \<Longrightarrow> j \<noteq> i \<Longrightarrow> site_view j (on_domain i n f s) = site_view j s"
proof -
  assume "\<And>d. dm_site (f d) = dm_site d" "j \<noteq> i"
  then have "filter (\<lambda>d. dm_site d = j) (map (\<lambda>d. if is_row i n d then f d else d) (si_domains s)) = filter (\<lambda>d. dm_site d = j) (si_domains s)"
    by (intro filter_map_other) (auto simp: is_row_def)
  then show ?thesis by (simp add: site_view_def on_domain_def)
qed

lemma hosts_lim [simp]:
  "sites_ok (s\<lparr> si_hosts := H \<rparr>) = sites_ok s" "site_view j (s\<lparr> si_hosts := H \<rparr>) = site_view j s"
  "sites_ok (s\<lparr> si_lim := L \<rparr>) = sites_ok s" "site_view j (s\<lparr> si_lim := L \<rparr>) = site_view j s"
  "sites_ok (s\<lparr> si_policies := P \<rparr>) = sites_ok s" "site_view j (s\<lparr> si_policies := P \<rparr>) = site_view j s"
  "sites_ok (s\<lparr> si_csp := C \<rparr>) = sites_ok s" "site_view j (s\<lparr> si_csp := C \<rparr>) = site_view j s"
  "si_rows (on_domain i n f s) = si_rows s"
  by (simp_all add: sites_ok_def site_view_def ids_def on_domain_def)

lemma activate_simps [simp]: "sites_ok (activate e i n s) = sites_ok s" "site_view j (activate e i n s) = site_view j s"
  by (simp_all add: activate_def)

lemma allow_same: "lim_allow k now s = (b, s1) \<Longrightarrow> \<exists>L. s1 = s\<lparr> si_lim := L \<rparr>"
  by (cases "map_of (si_lim s) k") (auto simp: lim_allow_def split: if_splits intro: exI [of _ "si_lim s"])

section \<open>Every handler keeps\<close>

lemma policy_keeps:
  assumes w: "sites_ok s"
  shows "keeps ctx s (fst (setSiteAuthPolicy e ctx i body s))" "keeps ctx s (fst (setSiteDeployDefaults e ctx i body' s))"
proof -
  have k: "keeps ctx s ((on_site i f s)\<lparr> si_policies := P \<rparr>)" "keeps ctx s ((on_site i f s)\<lparr> si_csp := C \<rparr>)" if "requireSiteOwnership e ctx i s = None" "\<And>r. st_id (f r) = st_id r \<and> st_repo (f r) = st_repo r" for f P C
    using that owner_row [OF w that(1)] by (intro keeps_one [of _ s i]; simp add: on_site_wf w on_site_view)+
  show "keeps ctx s (fst (setSiteAuthPolicy e ctx i body s))"
    by (cases "requireSiteOwnership e ctx i s") (auto simp: setSiteAuthPolicy_def Let_def keeps_refl w k split: option.split)
  show "keeps ctx s (fst (setSiteDeployDefaults e ctx i body' s))"
    by (cases "requireSiteOwnership e ctx i s") (auto simp: setSiteDeployDefaults_def keeps_refl w k split: option.split)
qed

lemma create_keeps:
  assumes w: "sites_ok s" and ok: "site_env_ok e s"
  shows "keeps ctx s (fst (createSite e ctx body s))"
proof -
  have "keeps ctx s (snd (insertSite e ctx n s))" for n
  proof -
    have drop: "s\<lparr> si_rows := filter (\<lambda>r. st_id r \<noteq> j) (si_rows s @ [row]) \<rparr> = s" if "j \<notin> ids s" "st_id row = j" for j row
    proof -
      have "filter (\<lambda>r. st_id r \<noteq> j) (si_rows s) = si_rows s" using that(1) by (intro filter_True) (auto simp: ids_def)
      then show ?thesis using that(2) by simp
    qed
    have add: "keeps ctx s (s\<lparr> si_rows := si_rows s @ [row] \<rparr>)"
      if i: "st_id row \<notin> ids s" "st_id row \<notin> set (map st_repo (si_rows s))" "st_id row \<notin> set (map fst (si_repos s))" and r: "st_repo row \<in> set (map fst (si_repos s))" for row
    proof -
      have "st_repo row \<noteq> st_id row" using r i(3) by metis
      moreover have "st_repo row \<notin> ids s" using r w by (auto simp: sites_ok_def list_all_iff)
      moreover have "ids (s\<lparr> si_rows := si_rows s @ [row] \<rparr>) = insert (st_id row) (ids s)" by (simp add: ids_def)
      moreover have "distinct (map st_id (si_rows s @ [row]))" using w i(1) by (auto simp: sites_ok_def ids_def)
      ultimately have "sites_ok (s\<lparr> si_rows := si_rows s @ [row] \<rparr>)" using w i unfolding sites_ok_iff by auto
      moreover have "site_view (st_id x) (s\<lparr> si_rows := si_rows s @ [row] \<rparr>) = site_view (st_id x) s" if "x \<in> set (si_rows s)" for x
        using i(1) that by (auto simp: site_view_def ids_def)
      ultimately show ?thesis by (simp add: keeps_def)
    qed
    show ?thesis
    proof (cases "ns_repo n = [] \<or> (if sv_db e 0 then map_of (si_repos s) (ns_repo n) else None) = None \<or> GenerateID (sv_rand e) = None")
      case True
      then have "snd (insertSite e ctx n s) = s"
        by (cases "GenerateID (sv_rand e)"; cases "if sv_db e 0 then map_of (si_repos s) (ns_repo n) else None")
          (simp_all add: insertSite_def Let_def split: prod.split)
      then show ?thesis by (simp add: keeps_refl w)
    next
      case False
      then obtain p i where p: "ns_repo n \<noteq> []" "sv_db e 0" "map_of (si_repos s) (ns_repo n) = Some p" "GenerateID (sv_rand e) = Some i" by (auto split: if_splits)
      have i: "i \<notin> ids s" "i \<notin> set (map st_repo (si_rows s))" "i \<notin> set (map fst (si_repos s))" using ok p(4) by (simp_all add: site_env_ok_def)
      have r: "ns_repo n \<in> set (map fst (si_repos s))" using p(3) by (metis map_of_eq_None_iff option.distinct(1) set_map)
      have ne: "\<not> (\<exists>r \<in> set (si_rows s). st_id r = i)" using i(1) by (auto simp: ids_def)
      show ?thesis using p i r ne by (cases p) (auto simp: insertSite_def Let_def keeps_refl w add drop split: option.split bool.split)
    qed
  qed
  then have k: "keeps ctx s s1" if "insertSite e ctx n s = (r, s1)" for n r s1 using that by (metis snd_conv)
  have "\<exists>s1. fst (createSite e ctx body s) = s1 \<and> (s1 = s \<or> (\<exists>n r. insertSite e ctx n s = (r, s1)))"
  proof (cases body)
    case (Some n)
    obtain r s1 where x: "insertSite e ctx n s = (r, s1)" by fastforce
    show ?thesis using Some x by (cases r) (auto simp: createSite_def split: option.split sum.split insert_error.split)
  qed (simp add: createSite_def)
  then show ?thesis using k keeps_refl [OF w] by metis
qed

lemma delete_keeps:
  assumes w: "sites_ok s" and ok: "site_env_ok e s"
  shows "keeps ctx s (fst (deleteSite e ctx i s))"
proof (cases "requireSiteOwnership e ctx i s")
  case (Some a)
  then show ?thesis by (simp add: deleteSite_def keeps_refl w)
next
  case None
  obtain t where t: "find (named i) (si_rows s) = Some t" "standing ctx t" using ownership [OF None] by blast
  have tr: "t \<in> set (si_rows s)" using find_SomeD [OF t(1)] by simp
  have own: "standing ctx r" if "r \<in> set (si_rows s)" "st_id r = st_id t" for r
    using t(2) tr that w by (metis distinct_map inj_onD sites_ok_def)
  define f where "f = (case sv_cleanup e of None \<Rightarrow> (\<lambda>ds. ds) | Some f \<Rightarrow> f (st_id t) (st_repo t))"
  have f: "filter (\<lambda>d. dp_site d = j) (f ds) = filter (\<lambda>d. dp_site d = j) ds" if "j \<noteq> st_id t" "j \<noteq> []" for j ds
    using ok that by (auto simp: f_def site_env_ok_def split: option.splits)
  define s1 where "s1 = s\<lparr> si_deps := f (si_deps s) \<rparr>"
  have w1: "sites_ok s1" using w by (simp add: s1_def sites_ok_def ids_def)
  have v1: "site_view j s1 = site_view j s" if "j \<noteq> st_id t" "j \<noteq> []" for j using f that by (simp add: s1_def site_view_def)
  have wf_less: "sites_ok (x\<lparr> si_domains := filter P (si_domains x) \<rparr>)" "sites_ok (x\<lparr> si_deps := D \<rparr>)" if "sites_ok x" for x P D
    using that by (auto simp: sites_ok_def ids_def list_all_iff)
  have k: "keeps ctx s (snd (deleteSiteRecords e t s1))"
  proof (rule keeps_one [of _ _ "st_id t"])
    have last: "sites_ok (x\<lparr> si_rows := filter (\<lambda>r. st_id r \<noteq> st_id t) (si_rows x) \<rparr>)" if "sites_ok x" "list_all (\<lambda>d. dm_site d \<noteq> st_id t) (si_domains x)" for x
    proof -
      have "ids (x\<lparr> si_rows := filter (\<lambda>r. st_id r \<noteq> st_id t) (si_rows x) \<rparr>) = ids x - {st_id t}" by (auto simp: ids_def)
      then show ?thesis using that unfolding sites_ok_iff by (auto simp: list_all_iff distinct_map_filter)
    qed
    show "sites_ok (snd (deleteSiteRecords e t s1))"
    proof -
      have "sites_ok (s1\<lparr> si_domains := filter (\<lambda>d. dm_site d \<noteq> st_id t) (si_domains s1), si_deps := D, si_rows := filter (\<lambda>r. st_id r \<noteq> st_id t) (si_rows s1) \<rparr>)" for D
        using last [of "s1\<lparr> si_domains := filter (\<lambda>d. dm_site d \<noteq> st_id t) (si_domains s1), si_deps := D \<rparr>"] wf_less w1 by (simp add: list_all_iff)
      then show ?thesis by (simp add: deleteSiteRecords_def Let_def w1 wf_less)
    qed
    show "\<And>j. j \<noteq> st_id t \<Longrightarrow> j \<noteq> [] \<Longrightarrow> site_view j (snd (deleteSiteRecords e t s1)) = site_view j s"
    proof -
      fix j assume j: "j \<noteq> st_id t" "j \<noteq> []"
      have "filter (\<lambda>d. dp_site d = j \<and> \<not> of_target t d) ds = filter (\<lambda>d. dp_site d = j) ds" for ds
        using j by (intro filter_cong) (auto simp: of_target_def)
      then have "site_view j (snd (deleteSiteRecords e t s1)) = site_view j s1"
        using j by (auto simp: deleteSiteRecords_def Let_def site_view_def conj_commute intro!: filter_cong)
      then show "site_view j (snd (deleteSiteRecords e t s1)) = site_view j s" using v1 j by simp
    qed
  qed (rule own)
  have d: "deleteSite e ctx i s = (if \<not> sv_db e 1 then (s, SErr 500 ''internal error'')
      else (case hasActiveDeployment (sv_db e 2) t s of None \<Rightarrow> (s, SErr 500 ''internal error'')
        | Some active \<Rightarrow> if active \<and> sv_cleanup e = None then (s, SErr 409 ''site has an active deployment'')
            else (case deleteSiteRecords e t s1 of (ok, s2) \<Rightarrow> (s2, if ok then SNoContent else SErr 500 ''internal error''))))"
  proof -
    have "(case sv_cleanup e of None \<Rightarrow> s | Some f \<Rightarrow> s\<lparr> si_deps := f (st_id t) (st_repo t) (si_deps s) \<rparr>) = s1"
      by (cases "sv_cleanup e") (simp_all add: s1_def f_def)
    then show ?thesis using None t(1) by (simp add: deleteSite_def find_site_def Let_def cong: option.case_cong if_cong)
  qed
  show ?thesis unfolding d using k keeps_refl [OF w] by (auto split: option.split prod.split)
qed

text \<open>Domains.\<close>

lemma record_keeps:
  assumes "sites_ok s"
  shows "sites_ok (snd (recordCertAttempt i n t s))" "j \<noteq> i \<Longrightarrow> site_view j (snd (recordCertAttempt i n t s)) = site_view j s"
    "si_rows (snd (recordCertAttempt i n t s)) = si_rows s"
  using assms by (simp_all add: recordCertAttempt_def on_domain_wf on_domain_view recorded_def)

lemma status_keeps:
  assumes "sites_ok s"
  shows "sites_ok (snd (certStatusFor e n d s))" "j \<noteq> dm_site d \<Longrightarrow> site_view j (snd (certStatusFor e n d s)) = site_view j s"
proof -
  have "snd (certStatusFor e n d s) = s \<or> snd (certStatusFor e n d s) = snd (recordCertAttempt (dm_site d) (dm_domain d) (sv_now e) s)"
    by (auto simp: certStatusFor_def Let_def split: option.split prod.split bool.split)
  then show "sites_ok (snd (certStatusFor e n d s))" "j \<noteq> dm_site d \<Longrightarrow> site_view j (snd (certStatusFor e n d s)) = site_view j s"
    using assms record_keeps by metis+
qed

lemma show_step: "snd (show_domains e n (d # ds) s) = snd (show_domains e (Suc n) ds (if dm_verified d = None then s else snd (certStatusFor e n d s)))"
  by (auto split: prod.split)

lemma show_keeps: "sites_ok s \<Longrightarrow> list_all (\<lambda>d. dm_site d = i) ds \<Longrightarrow> sites_ok (snd (show_domains e n ds s)) \<and> (\<forall>j. j \<noteq> i \<longrightarrow> site_view j (snd (show_domains e n ds s)) = site_view j s)"
proof (induction ds arbitrary: s n)
  case (Cons d ds)
  define s1 where "s1 = (if dm_verified d = None then s else snd (certStatusFor e n d s))"
  have s1: "sites_ok s1" "\<forall>j. j \<noteq> i \<longrightarrow> site_view j s1 = site_view j s" using Cons.prems status_keeps by (auto simp: s1_def)
  have "snd (show_domains e n (d # ds) s) = snd (show_domains e (Suc n) ds s1)" unfolding s1_def by (rule show_step)
  then show ?case using Cons.IH [OF s1(1)] Cons.prems(2) s1(2) by simp
qed simp

lemma domains_keep:
  assumes w: "sites_ok s"
  shows "keeps ctx s (fst (handleDomains e ctx meth parts body s))"
proof (cases "\<exists>i rest. parts = i # ''domains'' # rest \<and> requireSiteOwnership e ctx i s = None")
  case False
  then show ?thesis by (auto simp: handleDomains_def keeps_refl w split: list.split option.split)
next
  case True
  then obtain i rest where p: "parts = i # ''domains'' # rest" "requireSiteOwnership e ctx i s = None" by blast
  have one: "keeps ctx s x" if "sites_ok x" "\<And>j. j \<noteq> i \<Longrightarrow> site_view j x = site_view j s" for x
    using that owner_row [OF w p(2)] by (intro keeps_one [of _ _ i]) auto
  have list: "keeps ctx s (fst (listDomains e i s))"
    using show_keeps [OF w, of i "filter (\<lambda>d. dm_site d = i) (si_domains s)" e 2] keeps_refl [OF w]
    by (auto simp: listDomains_def list_all_iff split: prod.split intro!: one)
  have reg: "keeps ctx s (fst (registerDomain e i body s))"
  proof -
    have "keeps ctx s (s\<lparr> si_domains := si_domains s @ [d] \<rparr>)" if "dm_site d = i" "siteExists ok i s" for d ok
    proof -
      have "i \<in> ids s" using that(2) by (auto simp: siteExists_def list_ex_iff ids_def)
      then have "sites_ok (s\<lparr> si_domains := si_domains s @ [d] \<rparr>)" using that(1) w unfolding sites_ok_iff by (simp add: ids_def)
      then show ?thesis using that(1) by (intro one) (auto simp: site_view_def)
    qed
    then show ?thesis by (auto simp: registerDomain_def Let_def keeps_refl w split: option.split)
  qed
  have del: "keeps ctx s (fst (deleteDomain e i n s))" for n
  proof -
    have "filter (\<lambda>d. dm_site d = j \<and> \<not> is_row i n d) ds = filter (\<lambda>d. dm_site d = j) ds" if "j \<noteq> i" for j ds
      using that by (intro filter_cong) (auto simp: is_row_def)
    then have "keeps ctx s (s\<lparr> si_domains := filter (\<lambda>d. \<not> is_row i n d) (si_domains s), si_hosts := H \<rparr>)" for H
      using w by (intro one) (auto simp: sites_ok_def ids_def list_all_iff site_view_def conj_commute)
    then show ?thesis by (simp add: deleteDomain_def keeps_refl w)
  qed
  have lim: "sites_ok s1" "site_view j s1 = site_view j s" if "lim_allow k t s = (b, s1)" for k t b s1 j
    using allow_same [OF that] w by auto
  have ver: "keeps ctx s (fst (verifyDomain e i n s))" for n
  proof -
    obtain b s1 where a: "lim_allow (i @ ''|'' @ n) (sv_now e) s = (b, s1)" by fastforce
    note l = lim [OF a]
    show ?thesis using a l by (auto simp: verifyDomain_def Let_def split: option.split bool.split intro!: one) (simp_all add: on_domain_wf on_domain_view)
  qed
  have ret: "keeps ctx s (fst (retryDomainCert e i n s))" for n
  proof -
    obtain b s1 where a: "lim_allow (''cert|'' @ i @ ''|'' @ n) (sv_now e) s = (b, s1)" by fastforce
    note l = lim [OF a]
    show ?thesis using a l by (auto simp: retryDomainCert_def Let_def split: option.split bool.split intro!: one) (simp_all add: on_domain_wf on_domain_view)
  qed
  show ?thesis unfolding p(1) using p(2) list reg del ver ret keeps_refl [OF w]
    by (auto simp: handleDomains_def split: list.split)
qed

section \<open>Runs\<close>

text \<open>A request: its environment, its caller, whether it is for the collection of sites, and what it asks. Routes that are not modelled change nothing here.\<close>

type_synonym site_call = "sites_env \<times> req_ctx \<times> bool \<times> site_req"

definition sites_step :: "Sites \<Rightarrow> site_call \<Rightarrow> Sites" where
  "sites_step s c = (case c of (e, ctx, all, q) \<Rightarrow>
     if all then fst (handleSites e ctx q s) else (case handleSiteByID e ctx q s of None \<Rightarrow> s | Some r \<Rightarrow> fst r))"

fun sites_run :: "site_call list \<Rightarrow> Sites \<Rightarrow> Sites" where
  "sites_run [] s = s"
| "sites_run (c # cs) s = sites_run cs (sites_step s c)"

fun envs_ok :: "site_call list \<Rightarrow> Sites \<Rightarrow> bool" where
  "envs_ok [] s = True"
| "envs_ok (c # cs) s = (site_env_ok (fst c) s \<and> envs_ok cs (sites_step s c))"

lemma step_keeps:
  assumes w: "sites_ok s" and ok: "site_env_ok e s"
  shows "keeps ctx s (sites_step s (e, ctx, all, q))"
proof (cases all)
  case True
  then show ?thesis using create_keeps [OF w ok] keeps_refl [OF w] by (simp add: sites_step_def handleSites_def)
next
  case False
  have "keeps ctx s (fst r)" if r: "handleSiteByID e ctx q s = Some r" for r
  proof (cases "sr_parts q")
    case Nil
    then show ?thesis using r keeps_refl [OF w] by (auto simp: handleSiteByID_def)
  next
    case (Cons i rest)
    show ?thesis
    proof (cases rest)
      case Nil
      then show ?thesis using r Cons keeps_refl [OF w] delete_keeps [OF w ok] by (auto simp: handleSiteByID_def Let_def)
    next
      case c2: (Cons sub rest2)
      show ?thesis using r keeps_refl [OF w] policy_keeps [OF w] domains_keep [OF w]
        unfolding handleSiteByID_def Let_def Cons c2 list.case by (auto split: if_splits)
    qed
  qed
  then show ?thesis using False keeps_refl [OF w] by (auto simp: sites_step_def split: option.split)
qed

lemma view_row: "r \<in> set (si_rows s) \<Longrightarrow> site_view (st_id r) s' = site_view (st_id r) s \<Longrightarrow> r \<in> set (si_rows s')"
proof -
  assume r: "r \<in> set (si_rows s)" and v: "site_view (st_id r) s' = site_view (st_id r) s"
  have "r \<in> set (filter (\<lambda>x. st_id x = st_id r) (si_rows s))" using r by simp
  then have "r \<in> set (filter (\<lambda>x. st_id x = st_id r) (si_rows s'))" using v by (simp add: site_view_def del: set_filter)
  then show ?thesis by simp
qed

text \<open>
  C24. A site belongs to those with standing for it: in any run of requests to the sites component, whatever
  is requested, created, deleted, verified or fails, the row of a site, its policy and defaults, its domains
  and its deployments are unchanged when no caller of the run is of its organization, holds its deployment
  key, or is an administrator in the case of a site of no organization.
\<close>

theorem sites_need_standing:
  assumes "sites_ok s" and "envs_ok cs s" and "r \<in> set (si_rows s)" and "st_id r \<noteq> []" and "\<forall>c \<in> set cs. \<not> standing (fst (snd c)) r"
  shows "site_view (st_id r) (sites_run cs s) = site_view (st_id r) s"
  using assms
proof (induction cs arbitrary: s)
  case (Cons c cs)
  obtain e ctx all q where c: "c = (e, ctx, all, q)" by (cases c) auto
  have k: "keeps ctx s (sites_step s c)" unfolding c by (rule step_keeps) (use Cons.prems c in simp_all)
  then have v: "site_view (st_id r) (sites_step s c) = site_view (st_id r) s" using Cons.prems c by (auto simp: keeps_def)
  have "r \<in> set (si_rows (sites_step s c))" using view_row [OF Cons.prems(3) v] .
  then show ?case using Cons.IH [of "sites_step s c"] Cons.prems k v by (simp add: keeps_def)
qed simp

section \<open>Routing\<close>

text \<open>The domain is routed to the site, or was proved to belong to it.\<close>

definition site_routed :: "Sites \<Rightarrow> string \<Rightarrow> string \<Rightarrow> bool" where
  "site_routed s i n = (map_of (si_hosts s) n = Some i \<or> list_ex (\<lambda>d. is_row i n d \<and> dm_verified d \<noteq> None) (si_domains s))"

text \<open>The DNS of the request answers for the domain with the token of its registration for the site.\<close>

definition dns_proof :: "sites_env \<Rightarrow> string \<Rightarrow> string \<Rightarrow> Sites \<Rightarrow> bool" where
  "dns_proof e i n s = list_ex (\<lambda>d. is_row i n d \<and> checkDNSTXT e n (txt_record d)) (si_domains s)"

definition gains :: "sites_env \<Rightarrow> string \<Rightarrow> Sites \<Rightarrow> Sites \<Rightarrow> bool" where
  "gains e i s s' = (\<forall>j n. site_routed s' j n \<longrightarrow> site_routed s j n \<or> (j = i \<and> dns_proof e j n s))"

lemma gains_refl: "gains e i s s"
  by (simp add: gains_def)

lemma gains_fewer:
  assumes "\<And>j n. map_of (si_hosts s') n = Some j \<Longrightarrow> map_of (si_hosts s) n = Some j"
    and "\<And>d. d \<in> set (si_domains s') \<Longrightarrow> dm_verified d \<noteq> None \<Longrightarrow> \<exists>d' \<in> set (si_domains s). dm_site d' = dm_site d \<and> dm_domain d' = dm_domain d \<and> dm_verified d' \<noteq> None"
  shows "gains e i s s'"
  using assms unfolding gains_def site_routed_def list_ex_iff is_row_def by metis

lemma on_domain_fewer: "(\<And>d. dm_site (f d) = dm_site d \<and> dm_domain (f d) = dm_domain d \<and> dm_verified (f d) = dm_verified d) \<Longrightarrow> gains e i s (on_domain k m f s)"
  by (rule gains_fewer) (auto simp: on_domain_def split: if_splits)

lemma gains_trans: "gains e i s s1 \<Longrightarrow> (\<And>j n. site_routed s2 j n \<Longrightarrow> site_routed s1 j n) \<Longrightarrow> gains e i s s2"
  by (simp add: gains_def)

lemma lim_gains: "gains e i s (s\<lparr> si_lim := L \<rparr>)"
  by (rule gains_fewer) auto

lemma status_gains: "site_routed (snd (certStatusFor e m d s)) j n \<Longrightarrow> site_routed s j n"
proof -
  have "snd (certStatusFor e m d s) = s \<or> snd (certStatusFor e m d s) = snd (recordCertAttempt (dm_site d) (dm_domain d) (sv_now e) s)"
    by (auto simp: certStatusFor_def Let_def split: option.split prod.split bool.split)
  moreover have "site_routed (snd (recordCertAttempt (dm_site d) (dm_domain d) (sv_now e) s)) j n \<Longrightarrow> site_routed s j n"
    by (auto simp: recordCertAttempt_def recorded_def site_routed_def on_domain_def list_ex_iff is_row_def split: if_splits)
  ultimately show "site_routed (snd (certStatusFor e m d s)) j n \<Longrightarrow> site_routed s j n" by metis
qed

lemma show_gains: "site_routed (snd (show_domains e m ds s)) j n \<Longrightarrow> site_routed s j n"
proof (induction ds arbitrary: s m)
  case (Cons d ds)
  from Cons.IH [OF Cons.prems [unfolded show_step]] show ?case using status_gains by (simp split: if_splits)
qed simp

lemma create_gains: "gains e i s (fst (createSite e ctx body s))"
proof -
  have ins: "si_hosts (snd (insertSite e ctx n s)) = si_hosts s \<and> si_domains (snd (insertSite e ctx n s)) = si_domains s" for n
  proof (cases "ns_repo n = [] \<or> (if sv_db e 0 then map_of (si_repos s) (ns_repo n) else None) = None \<or> GenerateID (sv_rand e) = None")
    case True
    then show ?thesis
      by (cases "GenerateID (sv_rand e)"; cases "if sv_db e 0 then map_of (si_repos s) (ns_repo n) else None")
        (simp_all add: insertSite_def Let_def split: prod.split)
  next
    case False
    then obtain p i where p: "ns_repo n \<noteq> []" "sv_db e 0" "map_of (si_repos s) (ns_repo n) = Some p" "GenerateID (sv_rand e) = Some i" by (auto split: if_splits)
    show ?thesis using p by (cases p) (simp add: insertSite_def Let_def split: option.split bool.split)
  qed
  have "si_hosts (fst (createSite e ctx body s)) = si_hosts s \<and> si_domains (fst (createSite e ctx body s)) = si_domains s"
  proof (cases body)
    case (Some n)
    obtain r s1 where x: "insertSite e ctx n s = (r, s1)" by fastforce
    then have "si_hosts s1 = si_hosts s \<and> si_domains s1 = si_domains s" using ins [of n] by simp
    then show ?thesis using Some x by (cases r) (auto simp: createSite_def split: option.split sum.split insert_error.split)
  qed (simp add: createSite_def)
  then show ?thesis by (intro gains_fewer) auto
qed

lemma delete_gains: "gains e i s (fst (deleteSite e ctx k s))"
proof -
  have "gains e i s (snd (deleteSiteRecords e t (s\<lparr> si_deps := D \<rparr>)))" for t D
    by (rule gains_fewer) (auto simp: deleteSiteRecords_def Let_def split: if_splits)
  moreover have "gains e i s (snd (deleteSiteRecords e t s))" for t
    by (rule gains_fewer) (auto simp: deleteSiteRecords_def Let_def split: if_splits)
  moreover have "fst (case p of (ok, s2) \<Rightarrow> (s2, R ok)) = snd p" for p :: "bool \<times> Sites" and R :: "bool \<Rightarrow> site_resp" by (cases p) simp
  ultimately show ?thesis using gains_refl by (simp add: deleteSite_def Let_def split: option.split)
qed

lemma find_domain_row: "find_domain ok i n s = Some d \<Longrightarrow> d \<in> set (si_domains s) \<and> is_row i n d"
  by (auto simp: find_domain_def split: if_splits dest!: find_SomeD)

text \<open>Routing a domain that is proved.\<close>

lemma activate_gains:
  assumes "gains e i s s2" "site_routed s i n \<or> dns_proof e i n s"
  shows "gains e i s (activate e i n s2)"
  using assms by (auto simp: gains_def activate_def site_routed_def)

lemma verify_gains: "gains e i s (fst (verifyDomain e i n s))"
proof -
  obtain b s1 where a: "lim_allow (i @ ''|'' @ n) (sv_now e) s = (b, s1)" by fastforce
  obtain L where L: "s1 = s\<lparr> si_lim := L \<rparr>" using allow_same [OF a] by blast
  note g = lim_gains [of e i s L, folded L]
  have act: "gains e i s (activate e i n s2)"
    if d: "find_domain ok i n s1 = Some d" "checkDNSTXT e n (txt_record d)" and s2: "s2 = s1 \<or> s2 = on_domain i n f s1"
      and f: "\<And>x. dm_site (f x) = dm_site x \<and> dm_domain (f x) = dm_domain x" for ok d s2 f
  proof (rule activate_gains)
    show p: "site_routed s i n \<or> dns_proof e i n s" using find_domain_row [OF d(1)] d(2) L by (auto simp: dns_proof_def list_ex_iff)
    have "site_routed s j m \<or> (j = i \<and> m = n)" if "site_routed (on_domain i n f s1) j m" for j m
      using that f L by (auto simp: site_routed_def on_domain_def list_ex_iff is_row_def split: if_splits)
    then show "gains e i s s2" using s2 g p by (auto simp: gains_def)
  qed
  show ?thesis
  proof (cases "find_domain (sv_db e 1) i n s1")
    case None
    then show ?thesis using a g by (cases b) (simp_all add: verifyDomain_def)
  next
    case (Some d)
    show ?thesis
    proof (cases "b \<and> checkDNSTXT e n (txt_record d)")
      case True
      then show ?thesis using a Some by (auto simp: verifyDomain_def Let_def intro!: act [OF Some])
    next
      case False
      then show ?thesis using a Some g by (cases b) (simp_all add: verifyDomain_def)
    qed
  qed
qed

lemma retry_gains: "gains e i s (fst (retryDomainCert e i n s))"
proof -
  obtain b s1 where a: "lim_allow (''cert|'' @ i @ ''|'' @ n) (sv_now e) s = (b, s1)" by fastforce
  obtain L where L: "s1 = s\<lparr> si_lim := L \<rparr>" using allow_same [OF a] by blast
  note g = lim_gains [of e i s L, folded L]
  have act: "gains e i s (activate e i n (on_domain i n f s1))"
    if d: "find_domain ok i n s1 = Some d" "dm_verified d \<noteq> None"
      and f: "\<And>x. dm_site (f x) = dm_site x \<and> dm_domain (f x) = dm_domain x \<and> dm_verified (f x) = dm_verified x" for ok d f
  proof (rule activate_gains)
    show "site_routed s i n \<or> dns_proof e i n s" using find_domain_row [OF d(1)] d(2) L by (auto simp: site_routed_def list_ex_iff)
    have "site_routed s j m" if "site_routed (on_domain i n f s1) j m" for j m
      using that f L by (auto simp: site_routed_def on_domain_def list_ex_iff is_row_def split: if_splits)
    then show "gains e i s (on_domain i n f s1)" by (auto simp: gains_def)
  qed
  show ?thesis
  proof (cases "find_domain (sv_db e 1) i n s1")
    case None
    then show ?thesis using a g by (cases b) (simp_all add: retryDomainCert_def)
  next
    case (Some d)
    show ?thesis
    proof (cases "b \<and> dm_verified d \<noteq> None")
      case True
      then show ?thesis using a Some g by (auto simp: retryDomainCert_def Let_def intro!: act [OF Some])
    next
      case False
      then show ?thesis using a Some g by (cases b) (simp_all add: retryDomainCert_def)
    qed
  qed
qed

lemma domains_gain: "gains e i s (fst (listDomains e i s))" "gains e i s (fst (registerDomain e i body s))" "gains e i s (fst (deleteDomain e i n s))"
proof -
  show "gains e i s (fst (listDomains e i s))"
    using show_gains [of e 2 "filter (\<lambda>d. dm_site d = i) (si_domains s)" s] by (auto simp: listDomains_def gains_def split: prod.split)
  have "gains e i s (s\<lparr> si_domains := si_domains s @ [d] \<rparr>)" if "dm_verified d = None" for d
    by (rule gains_fewer) (use that in auto)
  then show "gains e i s (fst (registerDomain e i body s))" by (auto simp: registerDomain_def Let_def gains_refl split: option.split)
  show "gains e i s (fst (deleteDomain e i n s))"
    by (rule gains_fewer) (auto simp: deleteDomain_def map_of_del split: if_splits)
qed

lemma on_site_gains: "gains e i s ((on_site k f s)\<lparr> si_policies := P \<rparr>)" "gains e i s ((on_site k f s)\<lparr> si_csp := C \<rparr>)"
  by (rule gains_fewer; auto simp: on_site_def)+

lemma handler_gains: "gains e i s (fst (handleDomains e ctx meth (i # rest) body s))"
proof -
  note g = gains_refl domains_gain verify_gains retry_gains
  show ?thesis by (auto simp: handleDomains_def g split: list.split option.split)
qed

text \<open>A new route is proved by the DNS of the request, whose caller has standing.\<close>

lemma step_gains:
  assumes w: "sites_ok s" and new: "site_routed (sites_step s (e, ctx, all, q)) i n" "\<not> site_routed s i n"
  shows "dns_proof e i n s \<and> (\<exists>r \<in> set (si_rows s). st_id r = i \<and> standing ctx r)"
proof (cases "\<not> all \<and> (\<exists>rest. sr_parts q = i # ''domains'' # rest \<and> requireSiteOwnership e ctx i s = None)")
  case True
  then obtain rest where p: "sr_parts q = i # ''domains'' # rest" "requireSiteOwnership e ctx i s = None" by blast
  define r where "r = handleSiteByID e ctx q s"
  have "r = None \<or> fst (the r) = s \<or> (\<exists>body. fst (the r) = fst (handleDomains e ctx (sr_method q) (i # ''domains'' # rest) body s))"
    unfolding r_def handleSiteByID_def Let_def p(1) list.case by auto
  then have "gains e i s (sites_step s (e, ctx, all, q))" using True handler_gains gains_refl
    unfolding sites_step_def r_def by (auto split: option.split)
  then have d: "dns_proof e i n s" using new unfolding gains_def by blast
  then obtain d where "d \<in> set (si_domains s)" "dm_site d = i" by (auto simp: dns_proof_def list_ex_iff is_row_def)
  then obtain r where "r \<in> set (si_rows s)" "st_id r = i" using w by (auto simp: sites_ok_def list_all_iff ids_def)
  then show ?thesis using d owner_row [OF w p(2)] by blast
next
  case False
  have other: "gains e k s (sites_step s (e, ctx, all, q)) \<Longrightarrow> k \<noteq> i \<Longrightarrow> False" for k using new unfolding gains_def by blast
  have none: "sites_step s (e, ctx, all, q) = s \<Longrightarrow> False" using new by simp
  have pol: "gains e k s (fst (setSiteAuthPolicy e ctx j b s))" "gains e k s (fst (setSiteDeployDefaults e ctx j b' s))" for k j b b'
    by (auto simp: setSiteAuthPolicy_def setSiteDeployDefaults_def Let_def gains_refl on_site_gains split: option.split)
  have "\<exists>k. k \<noteq> i \<and> gains e k s (sites_step s (e, ctx, all, q))"
  proof (cases all)
    case True
    then show ?thesis using create_gains [of e "i @ ''x''" s ctx] gains_refl
      by (intro exI [of _ "i @ ''x''"]) (simp add: sites_step_def handleSites_def)
  next
    case na: False
    have "\<exists>k. k \<noteq> i \<and> gains e k s (fst r)" if r: "handleSiteByID e ctx q s = Some r" for r
    proof (cases "\<exists>k rest. k \<noteq> i \<and> sr_parts q = k # rest \<and> (\<exists>body. fst r = fst (handleDomains e ctx (sr_method q) (k # rest) body s))")
      case True
      then obtain k rest body where k: "k \<noteq> i" "fst r = fst (handleDomains e ctx (sr_method q) (k # rest) body s)" by auto
      show ?thesis unfolding k(2) using k(1) handler_gains [of e k s ctx "sr_method q" rest body] by (intro exI [of _ k]) simp
    next
      case nd: False
      have "gains e (i @ ''x'') s (fst r)"
      proof (cases "sr_parts q")
        case Nil
        then show ?thesis using r gains_refl by (auto simp: handleSiteByID_def)
      next
        case (Cons k rest)
        show ?thesis
        proof (cases rest)
          case Nil
          then show ?thesis using r Cons gains_refl delete_gains by (auto simp: handleSiteByID_def Let_def split: if_splits)
        next
          case c2: (Cons sub rest2)
          have dom: "sub = ''domains'' \<Longrightarrow> fst (handleDomains e ctx (sr_method q) (k # sub # rest2) body s) = s" if "k = i" for body
            using False na Cons c2 that by (auto simp: handleDomains_def split: option.split)
          show ?thesis using r nd dom gains_refl pol
            unfolding handleSiteByID_def Let_def Cons c2 list.case by (auto split: if_splits)
        qed
      qed
      then show ?thesis by (intro exI [of _ "i @ ''x''"]) simp
    qed
    then show ?thesis using na gains_refl [of e "i @ ''x''" s] by (auto simp: sites_step_def split: option.split intro!: exI [of _ "i @ ''x''"])
  qed
  then show ?thesis using other by blast
qed

text \<open>
  C25. Routes are proved: in any run of requests to the sites component that begins without verified domains,
  a domain that the proxy routes to a site at the end was registered for the site when a caller with standing
  for the site made a request during which the DNS answered for the domain with the token of that
  registration.
\<close>

theorem routes_are_proved:
  assumes "sites_ok s" and "envs_ok cs s" and "si_hosts s = []" and "list_all (\<lambda>d. dm_verified d = None) (si_domains s)"
    and "map_of (si_hosts (sites_run cs s)) n = Some i"
  shows "\<exists>before e ctx all q after. cs = before @ (e, ctx, all, q) # after \<and> dns_proof e i n (sites_run before s)
    \<and> (\<exists>r \<in> set (si_rows (sites_run before s)). st_id r = i \<and> standing ctx r)"
proof -
  have "\<not> site_routed s i n" using assms(3,4) by (auto simp: site_routed_def list_ex_iff list_all_iff)
  moreover have "site_routed (sites_run cs s) i n" using assms(5) by (simp add: site_routed_def)
  ultimately show ?thesis using assms(1,2)
  proof (induction cs arbitrary: s)
    case (Cons c cs)
    obtain e ctx all q where c: "c = (e, ctx, all, q)" by (cases c) auto
    have w: "sites_ok (sites_step s c)" using step_keeps [of s e ctx all q] Cons.prems c by (simp add: keeps_def)
    show ?case
    proof (cases "site_routed (sites_step s c) i n")
      case True
      have "dns_proof e i n s \<and> (\<exists>r \<in> set (si_rows s). st_id r = i \<and> standing ctx r)"
        using step_gains [of s e ctx all q i n] True Cons.prems(1,3) c by simp
      then show ?thesis using c by (intro exI [of _ "[]"]) auto
    next
      case False
      have r: "site_routed (sites_run cs (sites_step s c)) i n" and eo: "envs_ok cs (sites_step s c)" using Cons.prems(2,4) by simp_all
      obtain before e' ctx' all' q' after where x: "cs = before @ (e', ctx', all', q') # after" "dns_proof e' i n (sites_run before (sites_step s c))"
        "\<exists>r \<in> set (si_rows (sites_run before (sites_step s c))). st_id r = i \<and> standing ctx' r"
        using Cons.IH [OF False r w eo] by blast
      have "c # cs = (c # before) @ (e', ctx', all', q') # after" "sites_run (c # before) s = sites_run before (sites_step s c)" using x(1) by simp_all
      then show ?thesis using x(2,3) by metis
    qed
  qed simp
qed

section \<open>Runs\<close>

definition site_of :: "string \<Rightarrow> string \<Rightarrow> nat \<Rightarrow> Site" where
  "site_of i repo g = \<lparr> st_id = i, st_name = i, st_repo = repo, st_branch = ''main'', st_root = ''./'', st_full = [], st_org = g, st_policy = None,
     st_defaults = None, st_created = [] \<rparr>"

definition domain_of :: "string \<Rightarrow> string \<Rightarrow> string \<Rightarrow> SiteDomain" where
  "domain_of i n tok = \<lparr> dm_id = i @ n, dm_site = i, dm_domain = n, dm_token = tok, dm_verified = None, dm_created = 0, dm_attempts = 0, dm_started = None,
     dm_last = None, dm_error = [], dm_retry = None \<rparr>"

text \<open>Site a of organization 1, site b of organization 2; both registered x.io, whose DNS holds the token of a.\<close>

definition two_sites :: Sites where
  "two_sites = \<lparr> si_rows = [site_of ''a'' ''ra'' 1, site_of ''b'' ''rb'' 2], si_repos = [(''ra'', ''site-a'', ''main''), (''rb'', ''site-b'', ''main'')],
     si_deps = [], si_domains = [domain_of ''a'' ''x.io'' ''t'', domain_of ''b'' ''x.io'' ''u''], si_hosts = [], si_policies = [], si_csp = [], si_lim = [] \<rparr>"

definition sites_db :: sites_env where
  "sites_db = \<lparr> sv_db = (\<lambda>_. True), sv_rand = None, sv_token = None, sv_now = 0, sv_created = [], sv_project = None, sv_trigger = None, sv_cleanup = None,
     sv_txt = (\<lambda>_. Some [''bigbase-verify=t'']), sv_running = (\<lambda>_. True), sv_cert = None \<rparr>"

definition member_of :: "nat \<Rightarrow> req_ctx" where
  "member_of g = \<lparr> cx_user = Some 1, cx_email = None, cx_role = Some ''user'', cx_org = Some g, cx_korg = None, cx_scopes = None, cx_site = None, cx_prole = None \<rparr>"

definition site_call_of :: "nat \<Rightarrow> string \<Rightarrow> string list \<Rightarrow> site_call" where
  "site_call_of g meth parts = (sites_db, member_of g, False, \<lparr> sr_method = meth, sr_parts = parts, sr_body = NoBody \<rparr>)"

definition verify_x :: "nat \<Rightarrow> string \<Rightarrow> site_call" where
  "verify_x g i = site_call_of g ''POST'' [i, ''domains'', ''x.io'', ''verify'']"

lemma two_sites_wf: "sites_ok two_sites"
  by code_simp

lemma sites_db_ok: "site_env_ok sites_db s"
  by (simp add: site_env_ok_def sites_db_def GenerateID_def)

lemma calls_ok: "envs_ok [site_call_of g meth parts, site_call_of g' meth' parts'] s" "envs_ok [verify_x g i] s"
  by (simp_all add: site_call_of_def verify_x_def sites_db_ok)

text \<open>Organization 2 tries to delete site a, and deletes its own.\<close>

theorem sites_need_standing_witness:
  "site_view ''a'' (sites_run [site_call_of 2 ''DELETE'' [''a''], site_call_of 2 ''DELETE'' [''b'']] two_sites) = site_view ''a'' two_sites
    \<and> map st_id (si_rows (sites_run [site_call_of 2 ''DELETE'' [''a''], site_call_of 2 ''DELETE'' [''b'']] two_sites)) = [''a'']"
proof
  show "site_view ''a'' (sites_run [site_call_of 2 ''DELETE'' [''a''], site_call_of 2 ''DELETE'' [''b'']] two_sites) = site_view ''a'' two_sites"
    using sites_need_standing [OF two_sites_wf calls_ok(1), of "site_of ''a'' ''ra'' 1" 2 "''DELETE''" "[''a'']" 2 "''DELETE''" "[''b'']"]
    by (simp add: two_sites_def site_of_def site_call_of_def member_of_def standing_def)
  show "map st_id (si_rows (sites_run [site_call_of 2 ''DELETE'' [''a''], site_call_of 2 ''DELETE'' [''b'']] two_sites)) = [''a'']"
    by code_simp
qed

lemma verified_x: "si_hosts (sites_run [verify_x 1 ''a''] two_sites) = [(''x.io'', ''a'')]"
  by code_simp

theorem routes_are_proved_witness:
  "\<exists>before e ctx all q after. [verify_x 1 ''a''] = before @ (e, ctx, all, q) # after \<and> dns_proof e ''a'' ''x.io'' (sites_run before two_sites)
    \<and> (\<exists>r \<in> set (si_rows (sites_run before two_sites)). st_id r = ''a'' \<and> standing ctx r)"
proof (rule routes_are_proved [OF two_sites_wf calls_ok(2)])
  show "si_hosts two_sites = []" "list_all (\<lambda>d. dm_verified d = None) (si_domains two_sites)"
    by (simp_all add: two_sites_def domain_of_def)
  show "map_of (si_hosts (sites_run [verify_x 1 ''a''] two_sites)) ''x.io'' = Some ''a''" unfolding verified_x by simp
qed

section \<open>What is let through\<close>

text \<open>Organization 2 removes its registration of x.io, which was never proved, and the route of site a goes with it.\<close>

lemma foreign_route_removed:
  "si_hosts (sites_run [verify_x 1 ''a'', verify_x 2 ''b''] two_sites) = [(''x.io'', ''a'')]
    \<and> si_hosts (sites_run [verify_x 1 ''a'', verify_x 2 ''b'', site_call_of 2 ''DELETE'' [''b'', ''domains'', ''x.io'']] two_sites) = []"
  by code_simp

text \<open>The update of a proved domain fails: the answer says verified and the domain is routed, but no row says so.\<close>

lemma verification_lost:
  "let r = verifyDomain (sites_db\<lparr> sv_db := (\<lambda>n. n \<noteq> 2) \<rparr>) ''a'' ''x.io'' two_sites in
     snd r = SVerify ''x.io'' True ''t'' \<and> si_hosts (fst r) = [(''x.io'', ''a'')] \<and> list_all (\<lambda>d. dm_verified d = None) (si_domains (fst r))"
  by code_simp

text \<open>Organization 2 makes a site of the repository of organization 1.\<close>

definition site_on :: "string \<Rightarrow> string \<Rightarrow> new_site" where
  "site_on name repo = \<lparr> ns_name = name, ns_repo = repo, ns_branch = [], ns_root = [], ns_full = [], ns_defaults = None \<rparr>"

lemma foreign_repository:
  "case createSite (sites_db\<lparr> sv_rand := Some ''n'' \<rparr>) (member_of 2) (Some (site_on ''c'' ''ra'')) two_sites of
     (s, SCreated r _) \<Rightarrow> r \<in> set (si_rows s) \<and> st_org r = 2 \<and> st_repo r = ''ra'' | _ \<Rightarrow> False"
  by code_simp

text \<open>A creation whose deployment cannot be started is answered with an error, but the site stays and its name is taken.\<close>

lemma failed_creation_stays:
  "let e = sites_db\<lparr> sv_rand := Some ''n'', sv_trigger := Some (\<lambda>_ _ _ _ _. Inl ''no runner'') \<rparr>;
       r = createSite e (member_of 1) (Some (site_on ''c'' ''ra'')) two_sites in
     snd r = SErr 400 ''no runner'' \<and> snd (createSite e (member_of 1) (Some (site_on ''c'' ''ra'')) (fst r)) = SAccess 409 ''site_name_taken''"
  by code_simp

text \<open>Defaults whose fields are all empty are valid, whatever the comment at the check says.\<close>

lemma empty_defaults_valid: "Validate no_defaults"
  by code_simp

text \<open>The list of statuses that block a deletion is that of the deployment engine, as its comment promises.\<close>

lemma active_statuses: "IsActiveDeploymentStatus st = IsActive st"
  by (simp add: IsActiveDeploymentStatus_def activeDeploymentStatuses_def IsActive_def isOneOf.simps str.simps)

end
