(* ===== verification/Db_Migrator.thy ===== *)
theory Db_Migrator
  imports BB_Prelude "HOL-Library.Char_ord" "HOL-Library.List_Lexorder"
begin

text \<open>
  The schema migrator (\<^verbatim>\<open>components/db/migrator.go\<close>). The database is a schema and the table of applied
  versions; what a statement does to the schema is an argument, which answers \<open>None\<close> on an error, and a
  migration does not touch the table of versions. Each migration runs in a transaction: its statement, the
  change of the table, and the commit, any of which may fail. Versions are ordered as byte strings.
\<close>

record Migration =
  mg_version :: string
  mg_up :: string
  mg_down :: string

record 'd migr_db =
  md_schema :: 'd
  md_versions :: "(string, nat) go_map"

record 'd migr_env =
  me_exec :: "string \<Rightarrow> 'd \<Rightarrow> 'd option"
  me_ensure :: bool
  me_query :: bool
  me_begin :: "string \<Rightarrow> bool"
  me_record :: "string \<Rightarrow> bool"
  me_commit :: "string \<Rightarrow> bool"
  me_now :: nat

datatype mig_error = EnsureFailed | QueryFailed | EmptyUp string | EmptyDown string | BeginFailed string | ApplyFailed string
  | RollbackFailed string | RecordFailed string | UnrecordFailed string | CommitFailed string

definition NewMigrator :: "(Migration list \<Rightarrow> Migration list) \<Rightarrow> Migration list \<Rightarrow> Migration list" where
  "NewMigrator srt ms = srt ms"

definition mig_ensureTable :: "'d migr_env \<Rightarrow> (mig_error, unit) res" where
  "mig_ensureTable e = (if me_ensure e then Inr () else Inl EnsureFailed)"

definition applied :: "'d migr_env \<Rightarrow> 'd migr_db \<Rightarrow> (mig_error, string list) res" where
  "applied e s = (if me_query e then Inr (map_keys (md_versions s)) else Inl QueryFailed)"

text \<open>A version that is in the table already violates its primary key.\<close>

definition apply_one :: "'d migr_env \<Rightarrow> Migration \<Rightarrow> 'd migr_db \<Rightarrow> (mig_error, unit) res \<times> 'd migr_db" where
  "apply_one e m s = (let v = mg_version m in
     if TrimSpace (mg_up m) = [] then (Inl (EmptyUp v), s)
     else if \<not> me_begin e v then (Inl (BeginFailed v), s)
     else (case me_exec e (mg_up m) (md_schema s) of
         None \<Rightarrow> (Inl (ApplyFailed v), s)
       | Some d \<Rightarrow>
           if \<not> me_record e v \<or> map_of (md_versions s) v \<noteq> None then (Inl (RecordFailed v), s)
           else if \<not> me_commit e v then (Inl (CommitFailed v), s)
           else (Inr (), s\<lparr> md_schema := d, md_versions := map_put v (me_now e) (md_versions s) \<rparr>)))"

fun up_loop :: "'d migr_env \<Rightarrow> string list \<Rightarrow> Migration list \<Rightarrow> 'd migr_db \<Rightarrow> (mig_error, unit) res \<times> 'd migr_db" where
  "up_loop e vs [] s = (Inr (), s)"
| "up_loop e vs (m # ms) s =
     (if mg_version m \<in> set vs then up_loop e vs ms s
      else (case apply_one e m s of (Inl err, s') \<Rightarrow> (Inl err, s') | (Inr _, s') \<Rightarrow> up_loop e vs ms s'))"

definition Up :: "'d migr_env \<Rightarrow> Migration list \<Rightarrow> 'd migr_db \<Rightarrow> (mig_error, unit) res \<times> 'd migr_db" where
  "Up e ms s = (case mig_ensureTable e of Inl err \<Rightarrow> (Inl err, s)
     | Inr _ \<Rightarrow> (case applied e s of Inl err \<Rightarrow> (Inl err, s) | Inr vs \<Rightarrow> up_loop e vs ms s))"

definition revert_one :: "'d migr_env \<Rightarrow> Migration \<Rightarrow> 'd migr_db \<Rightarrow> (mig_error, unit) res \<times> 'd migr_db" where
  "revert_one e m s = (let v = mg_version m in
     if TrimSpace (mg_down m) = [] then (Inl (EmptyDown v), s)
     else if \<not> me_begin e v then (Inl (BeginFailed v), s)
     else (case me_exec e (mg_down m) (md_schema s) of
         None \<Rightarrow> (Inl (RollbackFailed v), s)
       | Some d \<Rightarrow>
           if \<not> me_record e v then (Inl (UnrecordFailed v), s)
           else if \<not> me_commit e v then (Inl (CommitFailed v), s)
           else (Inr (), s\<lparr> md_schema := d, md_versions := map_del v (md_versions s) \<rparr>)))"

fun down_loop :: "'d migr_env \<Rightarrow> Migration list \<Rightarrow> 'd migr_db \<Rightarrow> (mig_error, unit) res \<times> 'd migr_db" where
  "down_loop e [] s = (Inr (), s)"
| "down_loop e (m # ms) s = (case revert_one e m s of (Inl err, s') \<Rightarrow> (Inl err, s') | (Inr _, s') \<Rightarrow> down_loop e ms s')"

definition to_rollback :: "string list \<Rightarrow> Migration list \<Rightarrow> int \<Rightarrow> Migration list" where
  "to_rollback vs ms n = (let rs = filter (\<lambda>m. mg_version m \<in> set vs) (rev ms) in if n > 0 \<and> n < int (length rs) then take (nat n) rs else rs)"

definition Down :: "'d migr_env \<Rightarrow> int \<Rightarrow> Migration list \<Rightarrow> 'd migr_db \<Rightarrow> (mig_error, unit) res \<times> 'd migr_db" where
  "Down e n ms s = (case mig_ensureTable e of Inl err \<Rightarrow> (Inl err, s)
     | Inr _ \<Rightarrow> (case applied e s of Inl err \<Rightarrow> (Inl err, s) | Inr vs \<Rightarrow> down_loop e (to_rollback vs ms n) s))"

definition mig_Status :: "'d migr_env \<Rightarrow> Migration list \<Rightarrow> 'd migr_db \<Rightarrow> (mig_error, (string \<times> nat option) list) res" where
  "mig_Status e ms s = (case mig_ensureTable e of Inl err \<Rightarrow> Inl err
     | Inr _ \<Rightarrow> if me_query e then Inr (map (\<lambda>m. (mg_version m, map_of (md_versions s) (mg_version m))) ms) else Inl QueryFailed)"

section \<open>What a run applies\<close>

definition pending :: "'d migr_db \<Rightarrow> Migration list \<Rightarrow> Migration list" where
  "pending s ms = filter (\<lambda>m. map_of (md_versions s) (mg_version m) = None) ms"

text \<open>The effect of migrations one after another, when all of their statements succeed.\<close>

fun apply_all :: "'d migr_env \<Rightarrow> Migration list \<Rightarrow> 'd migr_db \<Rightarrow> 'd migr_db option" where
  "apply_all e [] s = Some s"
| "apply_all e (m # ms) s = (case me_exec e (mg_up m) (md_schema s) of None \<Rightarrow> None
     | Some d \<Rightarrow> apply_all e ms (s\<lparr> md_schema := d, md_versions := map_put (mg_version m) (me_now e) (md_versions s) \<rparr>))"

lemma apply_one_Inr: "apply_one e m s = (Inr u, s') \<Longrightarrow> apply_all e (m # ms) s = apply_all e ms s'"
  by (auto simp: apply_one_def Let_def split: if_splits option.splits)

lemma apply_one_Inl: "apply_one e m s = (Inl err, s') \<Longrightarrow> s' = s"
  by (auto simp: apply_one_def Let_def split: if_splits option.splits)

lemma up_loop_prefix:
  "\<exists>k \<le> length (filter (\<lambda>m. mg_version m \<notin> set vs) ms). \<exists>r s'. up_loop e vs ms s = (r, s')
    \<and> apply_all e (take k (filter (\<lambda>m. mg_version m \<notin> set vs) ms)) s = Some s' \<and> (is_ok r = (k = length (filter (\<lambda>m. mg_version m \<notin> set vs) ms)))"
proof (induction ms arbitrary: s)
  case Nil
  then show ?case by (simp add: is_ok_def)
next
  case (Cons m ms)
  show ?case
  proof (cases "mg_version m \<in> set vs")
    case True
    then show ?thesis using Cons.IH by simp
  next
    case False
    obtain r1 s1 where o: "apply_one e m s = (r1, s1)" by fastforce
    show ?thesis
    proof (cases r1)
      case (Inl err)
      then show ?thesis using False o apply_one_Inl [of e m s err s1] by (intro exI [of _ 0]) (simp add: is_ok_def)
    next
      case (Inr u)
      from Cons.IH [of s1] obtain k r s' where k: "k \<le> length (filter (\<lambda>m. mg_version m \<notin> set vs) ms)" "up_loop e vs ms s1 = (r, s')"
        "apply_all e (take k (filter (\<lambda>m. mg_version m \<notin> set vs) ms)) s1 = Some s'" "is_ok r = (k = length (filter (\<lambda>m. mg_version m \<notin> set vs) ms))" by blast
      have "apply_all e (m # take k (filter (\<lambda>m. mg_version m \<notin> set vs) ms)) s = Some s'"
        using apply_one_Inr [OF o [unfolded Inr]] k(3) by simp
      then show ?thesis using False o Inr k by (intro exI [of _ "Suc k"]) simp
    qed
  qed
qed

lemma keys_pending: "filter (\<lambda>m. mg_version m \<notin> set (map_keys (md_versions s))) ms = pending s ms"
  by (simp add: pending_def map_keys_def map_of_eq_None_iff)

lemma Up_prefix: "\<exists>k \<le> length (pending s ms). \<exists>r s'. Up e ms s = (r, s') \<and> apply_all e (take k (pending s ms)) s = Some s'
    \<and> (is_ok r \<longrightarrow> k = length (pending s ms))"
proof (cases "me_ensure e \<and> me_query e")
  case True
  then show ?thesis using up_loop_prefix [of "map_keys (md_versions s)" ms e s, unfolded keys_pending]
    by (auto simp: Up_def mig_ensureTable_def applied_def)
next
  case False
  then show ?thesis by (intro exI [of _ 0]) (auto simp: Up_def mig_ensureTable_def applied_def is_ok_def)
qed

lemma apply_all_versions: "apply_all e ms s = Some s' \<Longrightarrow>
    map_of (md_versions s') v = (if v \<in> mg_version ` set ms then Some (me_now e) else map_of (md_versions s) v)"
  by (induction ms arbitrary: s) (auto split: option.splits)

text \<open>After a run that succeeded, another finds nothing to do.\<close>

lemma Up_complete: "Up e ms s = (Inr u, s') \<Longrightarrow> pending s' ms = []"
proof -
  assume u: "Up e ms s = (Inr u, s')"
  obtain k r t where "Up e ms s = (r, t)" "apply_all e (take k (pending s ms)) s = Some t" "is_ok r \<longrightarrow> k = length (pending s ms)"
    using Up_prefix [of s ms e] by blast
  then have "apply_all e (pending s ms) s = Some s'" using u by (auto simp: is_ok_def)
  from apply_all_versions [OF this] show ?thesis by (auto simp: pending_def filter_empty_conv)
qed

lemma Up_nothing: "pending s ms = [] \<Longrightarrow> me_ensure e \<Longrightarrow> me_query e \<Longrightarrow> Up e ms s = (Inr (), s)"
proof -
  assume p: "pending s ms = []" "me_ensure e" "me_query e"
  have "up_loop e vs xs s = (Inr (), s)" if "\<forall>m \<in> set xs. mg_version m \<in> set vs" for vs xs
    using that by (induction xs) simp_all
  moreover have "\<forall>m \<in> set ms. mg_version m \<in> set (map_keys (md_versions s))"
    using p(1) by (auto simp: pending_def filter_empty_conv map_keys_def map_of_eq_None_iff)
  ultimately show ?thesis using p by (simp add: Up_def mig_ensureTable_def applied_def)
qed

text \<open>
  C34. Migrating up, with any failures, applies a beginning of the pending migrations in ascending order of
  version, each completely with its record or not at all; it succeeds only when it applied all of them, and
  then a second run changes nothing.
\<close>

theorem up_applies_prefix:
  assumes srt: "slice_sort srt mg_version" and u: "Up e (NewMigrator srt ms) s = (r, s')"
  shows "\<exists>k \<le> length (pending s (NewMigrator srt ms)). apply_all e (take k (pending s (NewMigrator srt ms))) s = Some s'
    \<and> sorted (map mg_version (pending s (NewMigrator srt ms))) \<and> mset (pending s (NewMigrator srt ms)) = mset (pending s ms)
    \<and> (is_ok r \<longrightarrow> k = length (pending s (NewMigrator srt ms)) \<and> Up e (NewMigrator srt ms) s' = (Inr (), s'))"
proof -
  obtain k where k: "k \<le> length (pending s (NewMigrator srt ms))" "apply_all e (take k (pending s (NewMigrator srt ms))) s = Some s'"
    "is_ok r \<longrightarrow> k = length (pending s (NewMigrator srt ms))" using Up_prefix [of s "NewMigrator srt ms" e] u by auto
  have "sorted (map mg_version (pending s (NewMigrator srt ms)))"
    using slice_sort.srt_sorted [OF srt] by (auto simp: pending_def NewMigrator_def sorted_filter)
  moreover have "mset (pending s (NewMigrator srt ms)) = mset (pending s ms)"
    using slice_sort.srt_mset [OF srt] by (simp add: pending_def NewMigrator_def mset_filter)
  moreover have "Up e (NewMigrator srt ms) s' = (Inr (), s')" if ok: "is_ok r"
  proof -
    have r: "r = Inr ()" using ok by (cases r) (auto simp: is_ok_def)
    have "me_ensure e \<and> me_query e" using u r by (auto simp: Up_def mig_ensureTable_def applied_def split: if_splits)
    then show ?thesis using Up_nothing Up_complete u r by blast
  qed
  ultimately show ?thesis using k by blast
qed

section \<open>Up and down\<close>

lemma down_loop_append: "down_loop e xs s = (Inr u, s1) \<Longrightarrow> down_loop e (xs @ ys) s = down_loop e ys s1"
  by (induction xs arbitrary: s) (auto split: prod.splits sum.splits)

definition undoes :: "'d migr_env \<Rightarrow> Migration \<Rightarrow> bool" where
  "undoes e m = (TrimSpace (mg_down m) \<noteq> [] \<and> (\<forall>d d'. me_exec e (mg_up m) d = Some d' \<longrightarrow> me_exec e (mg_down m) d' = Some d))"

definition no_faults :: "'d migr_env \<Rightarrow> bool" where
  "no_faults e = (me_ensure e \<and> me_query e \<and> me_begin e = (\<lambda>_. True) \<and> me_record e = (\<lambda>_. True) \<and> me_commit e = (\<lambda>_. True))"

lemma del_put: "v \<notin> set (map fst m) \<Longrightarrow> map_del v (map_put v x m) = m"
  by (induction m) (auto simp: map_del_def filter_id_conv)

lemma down_undoes:
  assumes e: "no_faults e"
  shows "apply_all e ps s = Some s' \<Longrightarrow> list_all (undoes e) ps \<Longrightarrow> distinct (map mg_version ps) \<Longrightarrow>
    \<forall>m \<in> set ps. map_of (md_versions s) (mg_version m) = None \<Longrightarrow> down_loop e (rev ps) s' = (Inr (), s)"
proof (induction ps arbitrary: s)
  case (Cons m ps)
  then obtain d where d: "me_exec e (mg_up m) (md_schema s) = Some d" by (auto split: option.splits)
  define s1 where "s1 = s\<lparr> md_schema := d, md_versions := map_put (mg_version m) (me_now e) (md_versions s) \<rparr>"
  have "mg_version x \<noteq> mg_version m" if "x \<in> set ps" for x using Cons.prems(3) that by simp (metis imageI)
  then have new: "\<forall>x \<in> set ps. map_of (md_versions s1) (mg_version x) = None" using Cons.prems(4) by (simp add: s1_def)
  have a1: "apply_all e ps s1 = Some s'" using Cons.prems(1) d by (simp add: s1_def)
  have D: "down_loop e (rev ps) s' = (Inr (), s1)" by (rule Cons.IH [OF a1 _ _ new]) (use Cons.prems(2,3) in simp_all)
  have "mg_version m \<notin> set (map fst (md_versions s))" using Cons.prems(4) by (simp add: map_of_eq_None_iff)
  then have "revert_one e m s1 = (Inr (), s)"
    using Cons.prems(2) d e by (simp add: revert_one_def Let_def undoes_def no_faults_def s1_def del_put del: set_map)
  then show ?case using down_loop_append [OF D, of "[m]"] by simp
qed simp

lemma sorted_split:
  assumes "sorted (map f xs)" "\<forall>x \<in> set xs. \<forall>y \<in> set xs. P x \<longrightarrow> \<not> P y \<longrightarrow> f x < f y"
  shows "xs = filter P xs @ filter (\<lambda>x. \<not> P x) xs"
  using assms
proof (induction xs)
  case (Cons x xs)
  show ?case
  proof (cases "P x")
    case True
    then show ?thesis using Cons by simp
  next
    case False
    have "\<not> P y" if "y \<in> set xs" for y
    proof
      assume "P y"
      then have "f y < f x" using Cons.prems(2) False that by simp
      then show False using Cons.prems(1) that by auto
    qed
    then show ?thesis using False by (simp add: filter_True filter_empty_conv)
  qed
qed simp


section \<open>Runs\<close>

text \<open>A schema that is the list of its objects; a statement adds or removes one.\<close>

definition list_exec :: "string \<Rightarrow> string list \<Rightarrow> string list option" where
  "list_exec sql d = (case sql of [] \<Rightarrow> None
     | c # n \<Rightarrow> if c = CHR ''+'' then (if n \<in> set d then None else Some (n # d)) else if n \<in> set d then Some (remove1 n d) else None)"

definition list_env :: "string list migr_env" where
  "list_env = \<lparr> me_exec = list_exec, me_ensure = True, me_query = True, me_begin = (\<lambda>_. True), me_record = (\<lambda>_. True), me_commit = (\<lambda>_. True), me_now = 3 \<rparr>"

definition two_migs :: "Migration list" where
  "two_migs = [\<lparr> mg_version = ''2'', mg_up = ''+b'', mg_down = ''-b'' \<rparr>, \<lparr> mg_version = ''1'', mg_up = ''+a'', mg_down = ''-a'' \<rparr>]"

definition fresh_db :: "string list migr_db" where
  "fresh_db = \<lparr> md_schema = [], md_versions = [] \<rparr>"

lemma sorted_two: "NewMigrator (sort_key mg_version) two_migs = [two_migs ! 1, two_migs ! 0]"
  by (simp add: NewMigrator_def two_migs_def)

lemma Up_two: "Up list_env (NewMigrator (sort_key mg_version) two_migs) fresh_db = (Inr (), \<lparr> md_schema = [''b'', ''a''], md_versions = [(''1'', 3), (''2'', 3)] \<rparr>)"
  unfolding sorted_two by code_simp

theorem up_applies_prefix_witness:
  "\<exists>k. apply_all list_env (take k (pending fresh_db (NewMigrator (sort_key mg_version) two_migs))) fresh_db
    = Some \<lparr> md_schema = [''b'', ''a''], md_versions = [(''1'', 3), (''2'', 3)] \<rparr>"
  using up_applies_prefix [OF stable_sort.slice_sort_axioms Up_two] by blast

lemma list_undoes: "list_all (undoes list_env) two_migs"
  by (auto simp: undoes_def two_migs_def list_env_def list_exec_def TrimSpace_def TrimRightFn_def TrimLeftFn_def is_space_def split: if_splits)


section \<open>What goes unnoticed\<close>

text \<open>
  Two migrations of one version: the first run applies one and fails at the record of the other; the next
  run succeeds, and the other has never been applied.
\<close>

definition twin_migs :: "Migration list" where
  "twin_migs = [\<lparr> mg_version = ''1'', mg_up = ''+a'', mg_down = ''-a'' \<rparr>, \<lparr> mg_version = ''1'', mg_up = ''+b'', mg_down = ''-b'' \<rparr>]"

lemma twin_never_applied:
  "let s = snd (Up list_env twin_migs fresh_db) in
     fst (Up list_env twin_migs fresh_db) = Inl (RecordFailed ''1'') \<and> Up list_env twin_migs s = (Inr (), s) \<and> md_schema s = [''a'']"
  by code_simp

text \<open>A migration with an early version that is applied late is not the one that a rollback of one undoes.\<close>

lemma rollback_not_last:
  "let s = \<lparr> md_schema = [''b''], md_versions = [(''2'', 3)] \<rparr>; t = snd (Up list_env (rev two_migs) s) in
     md_schema t = [''a'', ''b''] \<and> md_schema (snd (Down list_env 1 (rev two_migs) t)) = [''a'']"
  by code_simp

end
