(* ===== verification/Spec2Isabelle.thy ===== *)
theory Spec2Isabelle
  imports Kernel_Core Deploy_Transition Deploy_Concurrency Deploy_Supervisor Deploy_Cache Deploy_Env Deploy_Manifest
    Auth_RateLimit Auth_Refresh Auth_Users Auth_Reset Auth_Codes Auth_Access Secrets_Store Proxy_Inject Deploy_Live
    Storage_Tenancy Projects_Sites Realtime_Safety Api_Isolation Api_Sql Sites_Safety Db_Migrator
begin

text \<open>
  A verification development for BigBase, a backend-as-a-service platform in Go that runs as one binary: a
  kernel starts components, an auth component signs people and machines in, a secret vault keeps their
  secrets, organizations have projects, sites, files and records, a deployment engine builds and runs the
  sites, a reverse proxy routes requests to them, and a hub pushes changes to clients. Paths below are
  relative to \<^verbatim>\<open>src/\<close>.

  PARTS AND THEORIES

  Foundations. BB_Prelude holds the Go library the sources use (maps as association lists with unique keys,
  \<^verbatim>\<open>strings\<close>, \<^verbatim>\<open>sort.Slice\<close> as a locale with its contract) and two locales for properties of runs:
  \<^verbatim>\<open>step_invariant\<close> and, in Go_Time, \<^verbatim>\<open>budget\<close>, a count of events that a run can afford. Go_Path models
  \<^verbatim>\<open>path/filepath\<close>, Go_Strconv decimal numbers, Go_Time instants and durations, Go_Files a disk as
  \<^verbatim>\<open>os\<close> sees it, Go_Sniff the content types of \<^verbatim>\<open>net/http\<close>, Go_Text the case and word functions of
  \<^verbatim>\<open>strings\<close> that SQL scanning uses. Org_Isolation is the locale \<^verbatim>\<open>org_isolation\<close>: a server of which each organization sees only its
  own part answers each as if the others did not exist.

  Kernel (\<^verbatim>\<open>kernel/\<close>). Kernel_Web: identifiers and request routing. Kernel_Bus: the event bus of
  \<^verbatim>\<open>eventbus.go\<close>, hooks in priority order, unsubscription closures. Kernel_Core: \<^verbatim>\<open>kernel.go\<close>, dependency resolution, start and stop. The properties: emission reaches
  exactly the hooks it should and stops at the first error; the start order is a topological order or the
  error is right; start and stop respect it.

  Authentication (\<^verbatim>\<open>components/auth/\<close>). Auth_RateLimit (token buckets, refining real-valued buckets), Auth_Users
  (accounts, organizations, invitations), Auth_Login (passwords and lockout), Auth_Reset, Auth_Codes (one-time
  codes and magic links), Auth_Keys (API keys and site keys), Auth_Refresh (rotation of refresh tokens,
  interleaved statement by statement) and Auth_Access (the request middleware and the policies). The
  properties bound what a guesser can try, show that tokens are spent once, that revoked keys stay dead, and
  that whatever passes the middleware was entitled to.

  Secrets (\<^verbatim>\<open>components/secrets/\<close>). Secrets_Keys (key records, envelopes, associated data), Secrets_Vault (the
  manager with its database), Secrets_Refine and Secrets_Store (the vault refines a plain map from secrets to
  values; rotation leaves nothing under an old key).

  Proxy (\<^verbatim>\<open>components/proxy/\<close>). Proxy_Hosts (host table, site policies, middleware chain), Proxy_Gate (a
  deployment sees a request only past its policy and with identity headers of the proxy), Proxy_Inject (the
  metadata script).

  Deployments (\<^verbatim>\<open>components/deploy/\<close>). Deploy_Machine is the table of statuses; Deploy_Transition the status
  changes against a database that others change between any two statements and that may fail at any of them;
  Deploy_Concurrency several goroutines of the same. Deploy_Logs (ring buffers, fan-out), Deploy_Supervisor
  (restarts), Deploy_Cache (build cache and archives), Deploy_Env (environment layers and redaction),
  Deploy_Project and Deploy_Manifest (what a checkout is, manifests, health probes), Deploy_Hosts (names and
  ports), Deploy_Build (\<^verbatim>\<open>runtimes.go\<close>, \<^verbatim>\<open>python.go\<close>, the build and start commands of \<^verbatim>\<open>engine.go\<close>), Deploy_Engine
  (state and operations of \<^verbatim>\<open>orchestrator.go\<close>, \<^verbatim>\<open>rollback.go\<close>, \<^verbatim>\<open>reconcile.go\<close>, \<^verbatim>\<open>domain_routing.go\<close>),
  Deploy_Pipeline (\<^verbatim>\<open>Trigger\<close>, \<^verbatim>\<open>runDeployment\<close>, starting, resuming, the handlers of \<^verbatim>\<open>gateway.go\<close>). Deploy_Replace
  proves rollback and reconciliation, Deploy_Pipeline that nothing is replaced before the new deployment
  serves, Deploy_Live deletion, shutdown and resumption.

  Storage (\<^verbatim>\<open>components/storage/\<close>). Storage_Files holds files with their rows and bytes, uploads, downloads
  and deletions against a failing disk and database; Storage_Isolation its invariant, that every row has its
  file in place; Storage_Tenancy shows that organizations do not notice each other and that an upload is read
  back.

  Projects (\<^verbatim>\<open>components/projects/\<close>). Projects and Projects_Tenancy: projects of organizations and their
  isolation; Projects_Sites: the migration that gives every site its project.

  Sites (\<^verbatim>\<open>components/sites/\<close>). Sites_Registry (\<^verbatim>\<open>sites.go\<close>): sites, their ownership, policies, defaults and
  deletion; Sites_Domains (\<^verbatim>\<open>domains.go\<close>): custom domains, their proof by DNS, the attempts at certificates;
  Sites_Safety: a site changes only through callers with standing, and a domain is routed only with its proof.

  Database API (\<^verbatim>\<open>components/api/\<close>). Api_Records: collections of records with filters, orders and pages;
  Api_Tenancy and Api_Isolation: organizations do not notice each other, a record is read back; Api_Sql: the
  query endpoint and what it lets through.

  Realtime (\<^verbatim>\<open>components/realtime/\<close>). Realtime_Hub: clients, rooms and bounded send buffers, with channels whose
  misuse panics; Realtime_Safety: a broadcast reaches its room, and orderly runs keep the hub's invariant.

  Migrator (\<^verbatim>\<open>components/db/migrator.go\<close>). Db_Migrator: versioned migrations in failing transactions; a run
  applies a prefix in order of version, and a rollback undoes it.

  HOW THE PARTS MEET

  Interfaces are locales, interpreted in the theory of the provider: \<^verbatim>\<open>host_registry\<close> (Host_Registry) is the
  contract between engine and proxy, interpreted in Proxy_Hosts and used by Deploy_Replace, Deploy_Pipeline and
  Deploy_Live; \<^verbatim>\<open>otp_store\<close> and \<^verbatim>\<open>login_lockout_store\<close> are the stores of Auth_Codes and Auth_Login; \<^verbatim>\<open>slice_sort\<close>
  the sorting the bus and the cache rely on; \<^verbatim>\<open>step_invariant\<close> and \<^verbatim>\<open>budget\<close> carry the invariants of requests; \<^verbatim>\<open>org_isolation\<close> is interpreted by storage,
  projects and the record API, each on its own requests.
  Otherwise components meet as in the code: the pipeline calls the build, the environment resolver, the
  transition and the proxy; the access layer calls keys and users.

  CONVENTIONS

  A struct is a record, a function of the source is a definition of the same name, an SQL table a list of rows
  or a map; helpers with lower-case names are parts of a source function, and the map of the manifest names
  their lines. Errors are values of sum or option types. Text is bytes. Times are integers of nanoseconds or,
  where only compared as text, strings. Random identifiers, cryptography, JSON, TOML and YAML decoding,
  commands, files, probes and clocks are arguments; where a proof needs more of them than their type, the
  hypothesis is named in the theorem (for example that decryption inverts encryption). \<^verbatim>\<open>quiet_env\<close> is a
  database without failures and interference; theorems without it hold for every environment.

  FUEL AND BOUNDS

  No model runs on fuel. Loops of the source are structural recursions or have a termination proof; retries are
  bounded as in the code (four attempts of a transition, 1000 probes of the port allocator, the retries of a
  health check), and the theorems speak about running out of them. Integers are unbounded where the source
  cannot overflow in practice, and words where it can (the age of the cache pruning).

  NOT MODELLED

  Handlers that only read rows and print them, log lines, metrics and listeners; TLS certificates and HTTP
  forwarding; the manifest, request logs and environment variables of a site; the parts of the repository that
  adapt services or embed assets (MCP, GitHub, messaging, functions, backup, git hosting, continuous
  integration, monitoring, the web interface) and the composition root. The component list of the manifest
  names each of them with its reason.
\<close>

end
